(* ===== verification/Prelude.thy ===== *)
theory Prelude
  imports Main "HOL-Library.Word"
begin

text \<open>
  Shared vocabulary of the development: the C integer types as machine words, the theorem
  collections the component theories fill, and the lemmas on words, lists and loops that more
  than one component needs.
\<close>

unbundle bit_operations_syntax

section \<open>C types\<close>

type_synonym u8 = "8 word"
type_synonym u16 = "16 word"
type_synonym u32 = "32 word"
type_synonym u64 = "64 word"

section \<open>Theorem collections\<close>

named_theorems frame_simps "fields an operation leaves alone"
named_theorems length_simps "array sizes an operation keeps"

section \<open>Words\<close>

lemma bit_u8_iff_less: "bit (x :: u8) i \<Longrightarrow> i < 8"
  using bit_imp_le_length [of x i] by simp

lemma word_neq_0_bit: "(x :: 'a::len word) \<noteq> 0 \<longleftrightarrow> (\<exists>i. bit x i)"
proof
  assume "x \<noteq> 0"
  then show "\<exists>i. bit x i"
    using bit_word_eqI [of x 0] by auto
qed auto

lemma and_one_shift_neq_0:
  "(x AND push_bit i 1 \<noteq> 0) \<longleftrightarrow> bit (x :: 'a::len word) i"
  by (auto simp: word_neq_0_bit bit_simps dest: bit_imp_le_length)

lemma less_exp_no_bit:
  assumes "unat (a :: 'w::len word) < 2 ^ n" and "n \<le> i"
  shows "\<not> bit a i"
proof
  assume "bit a i"
  then have "bit (unat a) i" by (simp add: bit_unsigned_iff)
  then have "odd (unat a div 2 ^ i)" by (simp add: bit_iff_odd)
  then have "0 < unat a div 2 ^ i" by (rule odd_pos)
  then have "2 ^ i \<le> unat a" using div_greater_zero_iff [of "unat a" "2 ^ i"] by simp
  moreover have "(2 :: nat) ^ n \<le> 2 ^ i" using assms(2) by simp
  ultimately show False using assms(1) by linarith
qed

lemma unat_less_bits: "unat (x :: 'a::len word) < 2 ^ LENGTH('a)"
  by (rule unsigned_less)

lemma xor_cancel_left: "(d :: 'w::len word) XOR a = d XOR b \<longleftrightarrow> a = b"
  by (metis xor.assoc xor_self_eq xor.left_neutral)

lemma xor_cancel_right: "(a :: 'w::len word) XOR d = b XOR d \<longleftrightarrow> a = b"
  using xor_cancel_left [of d a b] by (simp add: xor.commute)

lemma aligned_room:
  fixes a b d :: nat
  assumes "a < b" and "d dvd a" and "d dvd b"
  shows "a + d \<le> b"
proof -
  have "d dvd b - a" using assms by (simp add: dvd_diff_nat)
  then have "d \<le> b - a" using assms(1) by (simp add: dvd_imp_le)
  then show ?thesis using assms(1) by linarith
qed

section \<open>Loops that visit each index once\<close>

text \<open>
  A C loop over distinct indices is a \<open>fold\<close> over the list of indices. Its invariant may speak
  of the indices visited so far.
\<close>

lemma fold_visited:
  assumes "distinct xs"
    and "P {} s"
    and "\<And>D x t. x \<in> set xs \<Longrightarrow> x \<notin> D \<Longrightarrow> D \<subseteq> set xs \<Longrightarrow> P D t \<Longrightarrow> P (insert x D) (f x t)"
  shows "P (set xs) (fold f xs s)"
proof -
  have "P (D \<union> set ys) (fold f ys t)"
    if "distinct ys" "set ys \<inter> D = {}" "D \<union> set ys \<subseteq> set xs" "P D t" for D ys t
    using that
  proof (induction ys arbitrary: D t)
    case Nil
    then show ?case by simp
  next
    case (Cons y ys)
    then have "P (insert y D) (f y t)"
      using assms(3) by auto
    moreover have "set ys \<inter> insert y D = {}" and "insert y D \<union> set ys \<subseteq> set xs"
      using Cons.prems by auto
    ultimately have "P (insert y D \<union> set ys) (fold f ys (f y t))"
      using Cons.prems(1) by (intro Cons.IH) auto
    then show ?case by simp
  qed
  from this [of xs "{}" s] assms(1,2) show ?thesis by simp
qed

lemma fold_keeps:
  assumes "P s" and "\<And>x t. x \<in> set xs \<Longrightarrow> P t \<Longrightarrow> P (f x t)"
  shows "P (fold f xs s)"
  using assms by (induction xs arbitrary: s) auto

end
