(* ===== verification/Bitwise.thy ===== *)
theory Bitwise
  imports Prelude
begin

text \<open>
  The bit utilities of quantum/bitwise.c: population count, highest set bit and bit reversal at
  the three widths the code has. The loops and shift cascades are translated as written and
  proved against the set of set bits.
\<close>

section \<open>Population count\<close>

lemma and_pred_less: "(x :: 'a::len word) \<noteq> 0 \<Longrightarrow> unat (x AND (x - 1)) < unat x"
proof -
  assume "x \<noteq> 0"
  then have "unat (x - 1) < unat x"
    by (simp add: measure_unat)
  moreover have "unat (x AND (x - 1)) \<le> unat (x - 1)"
    using word_and_le1 [of x "x - 1"] by (simp add: word_le_nat_alt)
  ultimately show ?thesis by linarith
qed

text \<open>\<open>for (c = 0; bits; c++) bits &= bits - 1;\<close>, with the counter kept as a \<open>uint8_t\<close>.\<close>

function bitpop_loop :: "'a::len word \<Rightarrow> u8 \<Rightarrow> u8" where
  "bitpop_loop bits c = (if bits \<noteq> 0 then bitpop_loop (bits AND (bits - 1)) (c + 1) else c)"
  by pat_completeness auto
termination
  by (relation "measure (\<lambda>(bits, c). unat bits)") (auto simp: and_pred_less)

declare bitpop_loop.simps [simp del]

definition bitpop :: "u8 \<Rightarrow> u8" where
  "bitpop bits = bitpop_loop bits 0"

definition bitpop16 :: "u16 \<Rightarrow> u8" where
  "bitpop16 bits = bitpop_loop bits 0"

definition bitpop32 :: "u32 \<Rightarrow> u8" where
  "bitpop32 bits = bitpop_loop bits 0"

definition bits_of :: "'a::len word \<Rightarrow> nat set" where
  "bits_of x = {i. bit x i}"

lemma finite_bits_of [simp]: "finite (bits_of (x :: 'a::len word))"
  unfolding bits_of_def
  by (rule finite_subset [of _ "{..<LENGTH('a)}"]) (auto dest: bit_imp_le_length)

lemma bits_of_0 [simp]: "bits_of 0 = {}"
  by (simp add: bits_of_def)

lemma card_bits_of_le: "card (bits_of (x :: 'a::len word)) \<le> LENGTH('a)"
proof -
  have "bits_of x \<subseteq> {..<LENGTH('a)}"
    by (auto simp: bits_of_def dest: bit_imp_le_length)
  then show ?thesis
    using card_mono [of "{..<LENGTH('a)}" "bits_of x"] by simp
qed

text \<open>Clearing with \<open>bits - 1\<close> removes exactly the lowest set bit.\<close>

lemma and_pred_clears_lowest:
  fixes x :: "'a::len word"
  assumes k: "bit x k" and low: "\<And>i. i < k \<Longrightarrow> \<not> bit x i"
  shows "x AND (x - 1) = unset_bit k x"
proof -
  have kl: "k < LENGTH('a)" using k by (rule bit_imp_le_length)
  have split: "x = unset_bit k x + 2 ^ k"
  proof -
    have "unset_bit k x AND push_bit k 1 = 0"
      by (rule bit_word_eqI) (auto simp: bit_simps)
    then have "unset_bit k x + push_bit k 1 = unset_bit k x OR push_bit k 1"
      by (rule disjunctive_add_eq_or)
    also have "\<dots> = x"
      by (rule bit_word_eqI) (use k in \<open>auto simp: bit_simps\<close>)
    finally show ?thesis by (simp add: push_bit_eq_mult)
  qed
  have "unset_bit k x AND mask k = 0"
    by (rule bit_word_eqI) (use low in \<open>auto simp: bit_simps\<close>)
  then have "unset_bit k x + mask k = unset_bit k x OR mask k"
    by (rule disjunctive_add_eq_or)
  moreover have "x - 1 = unset_bit k x + mask k"
    using split by (simp add: mask_eq_exp_minus_1 algebra_simps)
  ultimately have "x - 1 = unset_bit k x OR mask k" by simp
  then have "x AND (x - 1) = x AND (unset_bit k x OR mask k)" by simp
  also have "\<dots> = unset_bit k x"
    by (rule bit_word_eqI) (use low in \<open>auto simp: bit_simps\<close>)
  finally show ?thesis .
qed

lemma bits_of_and_pred:
  assumes "(x :: 'a::len word) \<noteq> 0"
  shows "\<exists>k \<in> bits_of x. bits_of (x AND (x - 1)) = bits_of x - {k}"
proof -
  define k where "k = (LEAST i. bit x i)"
  from assms obtain i where "bit x i" by (auto simp: word_neq_0_bit)
  then have k: "bit x k" unfolding k_def by (rule LeastI)
  have low: "\<not> bit x i" if "i < k" for i
    using that not_less_Least unfolding k_def by blast
  have "bits_of (unset_bit k x) = bits_of x - {k}"
    by (auto simp: bits_of_def bit_simps)
  with and_pred_clears_lowest [OF k low] k show ?thesis
    by (intro bexI [of _ k]) (auto simp: bits_of_def)
qed

lemma bitpop_loop_card: "bitpop_loop x c = c + of_nat (card (bits_of x))"
proof (induction x c rule: bitpop_loop.induct)
  case (1 bits c)
  show ?case
  proof (cases "bits = 0")
    case True
    then show ?thesis by (simp add: bitpop_loop.simps)
  next
    case False
    then obtain k where "k \<in> bits_of bits"
      and "bits_of (bits AND (bits - 1)) = bits_of bits - {k}"
      using bits_of_and_pred by blast
    then have "card (bits_of bits) = Suc (card (bits_of (bits AND (bits - 1))))"
      using card_Suc_Diff1 [of "bits_of bits" k] by simp
    with False "1.IH" show ?thesis
      by (subst bitpop_loop.simps) (simp add: algebra_simps)
  qed
qed

text \<open>The bit-population loops return the number of set bits of their argument at each of
  the widths 8, 16 and 32: the \<open>uint8_t\<close> counter never wraps.\<close>

theorem bitpop_counts:
  "unat (bitpop a) = card (bits_of a) \<and> unat (bitpop16 b) = card (bits_of b)
    \<and> unat (bitpop32 c) = card (bits_of c)"
  using card_bits_of_le [of a] card_bits_of_le [of b] card_bits_of_le [of c]
  by (simp add: bitpop_def bitpop16_def bitpop32_def bitpop_loop_card unat_of_nat)

section \<open>Highest set bit\<close>

text \<open>One stage of the cascade: \<open>if (bits >> s) { bits >>= s; n += s; }\<close>.\<close>

fun biton_stage :: "nat \<Rightarrow> 'a::len word \<times> u8 \<Rightarrow> 'a word \<times> u8" where
  "biton_stage s (bits, n) =
     (if drop_bit s bits \<noteq> 0 then (drop_bit s bits, n + of_nat s) else (bits, n))"

definition biton :: "u8 \<Rightarrow> u8" where
  "biton bits = snd (biton_stage 1 (biton_stage 2 (biton_stage 4 (bits, 0))))"

definition biton16 :: "u16 \<Rightarrow> u8" where
  "biton16 bits = snd (biton_stage 1 (biton_stage 2 (biton_stage 4 (biton_stage 8 (bits, 0)))))"

definition biton32 :: "u32 \<Rightarrow> u8" where
  "biton32 bits =
     snd (biton_stage 1 (biton_stage 2 (biton_stage 4 (biton_stage 8 (biton_stage 16 (bits, 0))))))"

text \<open>Before the stage of width \<open>k\<close> the working value is \<open>x\<close> shifted right by the count so far, and
  its bits lie below \<open>2 * k\<close>.\<close>

definition biton_inv :: "nat \<Rightarrow> 'a::len word \<Rightarrow> 'a word \<times> u8 \<Rightarrow> bool" where
  "biton_inv k x p \<longleftrightarrow> (\<exists>m. snd p = of_nat m \<and> m + k \<le> LENGTH('a) \<and> fst p = drop_bit m x
     \<and> (\<forall>i \<ge> k. \<not> bit (fst p) i) \<and> fst p \<noteq> 0)"

lemma biton_inv_start: "x \<noteq> 0 \<Longrightarrow> biton_inv (LENGTH('a)) x (x :: 'a::len word, 0)"
  unfolding biton_inv_def by (rule exI [of _ 0]) (auto dest: bit_imp_le_length)

lemma biton_inv_stage:
  assumes "biton_inv k x p" and k: "k = s + s"
  shows "biton_inv s x (biton_stage s p)"
proof -
  obtain b n where p: "p = (b, n)" by (cases p)
  with assms(1) obtain m where m: "n = of_nat m" "m + (s + s) \<le> LENGTH('a)" "b = drop_bit m x"
    "\<forall>i \<ge> s + s. \<not> bit b i" "b \<noteq> 0"
    unfolding biton_inv_def k by auto
  show ?thesis
  proof (cases "drop_bit s b = 0")
    case True
    then have "\<not> bit b i" if "s \<le> i" for i
      using that bit_drop_bit_eq [of s b] by (metis bit_0_eq bot_apply bot_bool_def comp_apply le_add_diff_inverse)
    with True m show ?thesis by (auto simp: p biton_inv_def)
  next
    case False
    have "drop_bit s b = drop_bit (m + s) x" using m(3) by (simp add: add.commute)
    moreover have "\<not> bit (drop_bit s b) i" if "s \<le> i" for i
      using m(4) that by (auto simp: bit_simps)
    ultimately show ?thesis
      using False m(1,2) unfolding biton_inv_def p
      by (intro exI [of _ "m + s"]) auto
  qed
qed

lemma biton_inv_end:
  fixes x :: "'a::len word"
  assumes "biton_inv 1 x p" and "LENGTH('a) \<le> 256"
  shows "unat (snd p) = Max (bits_of x)"
proof -
  from assms obtain m where m: "snd p = of_nat m" "m + 1 \<le> LENGTH('a)" "fst p = drop_bit m x"
    "\<forall>i \<ge> 1. \<not> bit (fst p) i" "fst p \<noteq> 0"
    by (auto simp: biton_inv_def)
  have un: "unat (snd p) = m" using m(1,2) assms(2) by (simp add: unat_of_nat)
  from m(5) obtain i where "bit (fst p) i" by (auto simp: word_neq_0_bit)
  with m(4) have "bit (fst p) 0" by (metis less_one not_less)
  then have "m \<in> bits_of x" using m(3) by (simp add: bits_of_def bit_simps)
  moreover have "j \<le> m" if "j \<in> bits_of x" for j
  proof (rule ccontr)
    assume "\<not> j \<le> m"
    then have "bit (drop_bit m x) (j - m)" "1 \<le> j - m"
      using that by (auto simp: bits_of_def bit_simps)
    with m(3,4) show False by auto
  qed
  ultimately show ?thesis using un by (metis Max_eqI finite_bits_of)
qed

lemma biton_max:
  assumes "a \<noteq> 0"
  shows "unat (biton a) = Max (bits_of a)"
proof -
  have "biton_inv 8 a (a, 0)" using biton_inv_start [OF assms] by simp
  then have "biton_inv 1 a (biton_stage 1 (biton_stage 2 (biton_stage 4 (a, 0))))"
    by (intro biton_inv_stage [of 2] biton_inv_stage [of 4] biton_inv_stage [of 8]) simp_all
  then show ?thesis by (simp only: biton_def) (rule biton_inv_end, simp_all)
qed

lemma biton16_max:
  assumes "b \<noteq> 0"
  shows "unat (biton16 b) = Max (bits_of b)"
proof -
  have "biton_inv 16 b (b, 0)" using biton_inv_start [OF assms] by simp
  then have "biton_inv 1 b (biton_stage 1 (biton_stage 2 (biton_stage 4 (biton_stage 8 (b, 0)))))"
    by (intro biton_inv_stage [of 2] biton_inv_stage [of 4] biton_inv_stage [of 8]
      biton_inv_stage [of 16]) simp_all
  then show ?thesis by (simp only: biton16_def) (rule biton_inv_end, simp_all)
qed

lemma biton32_max:
  assumes "c \<noteq> 0"
  shows "unat (biton32 c) = Max (bits_of c)"
proof -
  have "biton_inv 32 c (c, 0)" using biton_inv_start [OF assms] by simp
  then have "biton_inv 1 c
      (biton_stage 1 (biton_stage 2 (biton_stage 4 (biton_stage 8 (biton_stage 16 (c, 0))))))"
    by (intro biton_inv_stage [of 2] biton_inv_stage [of 4] biton_inv_stage [of 8]
      biton_inv_stage [of 16] biton_inv_stage [of 32]) simp_all
  then show ?thesis by (simp only: biton32_def) (rule biton_inv_end, simp_all)
qed

lemma biton_zero [simp]: "biton 0 = 0" "biton16 0 = 0" "biton32 0 = 0"
  by (simp_all add: biton_def biton16_def biton32_def)

text \<open>The shift cascades return the index of the most significant set bit (the maximum of
  the set of set bits) at each width, and 0 for the zero word.\<close>

theorem biton_is_highest:
  "unat (biton a) = (if a = 0 then 0 else Max (bits_of a))
    \<and> unat (biton16 b) = (if b = 0 then 0 else Max (bits_of b))
    \<and> unat (biton32 c) = (if c = 0 then 0 else Max (bits_of c))"
  using biton_max biton16_max biton32_max by simp

section \<open>Bit reversal\<close>

definition bitrev :: "u8 \<Rightarrow> u8" where
  "bitrev bits =
     (let bits = push_bit 4 (bits AND 0x0f) OR drop_bit 4 (bits AND 0xf0);
          bits = push_bit 2 (bits AND 0x33) OR drop_bit 2 (bits AND 0xcc);
          bits = push_bit 1 (bits AND 0x55) OR drop_bit 1 (bits AND 0xaa)
      in bits)"

definition bitrev16 :: "u16 \<Rightarrow> u16" where
  "bitrev16 bits =
     push_bit 8 (ucast (bitrev (ucast (bits AND 0x00ff))))
       OR ucast (bitrev (ucast (drop_bit 8 (bits AND 0xff00))))"

definition bitrev32 :: "u32 \<Rightarrow> u32" where
  "bitrev32 bits =
     push_bit 16 (ucast (bitrev16 (ucast (bits AND 0x0000ffff))))
       OR ucast (bitrev16 (ucast (drop_bit 16 (bits AND 0xffff0000))))"

lemma bit_bitrev: "bit (bitrev a) i \<longleftrightarrow> i < 8 \<and> bit a (7 - i)"
proof (cases "i < 8")
  case True
  then have "i = 0 \<or> i = 1 \<or> i = 2 \<or> i = 3 \<or> i = 4 \<or> i = 5 \<or> i = 6 \<or> i = 7" by auto
  then show ?thesis
    by (elim disjE) (simp_all add: bitrev_def bit_simps mult.commute [of _ "2 :: u8"])
next
  case False
  then show ?thesis by (auto dest: bit_u8_iff_less)
qed

lemma bit_bitrev16: "bit (bitrev16 b) i \<longleftrightarrow> i < 16 \<and> bit b (15 - i)"
proof -
  have masks: "(0x00ff :: u16) = mask 8" "(0xff00 :: u16) = push_bit 8 (mask 8)"
    by (simp_all add: mask_eq_exp_minus_1)
  consider "i < 8" | "8 \<le> i" "i < 16" | "16 \<le> i" by linarith
  then show ?thesis
  proof cases
    case 1
    then have "15 - i = 8 + (7 - i)" by simp
    with 1 show ?thesis
      unfolding bitrev16_def masks by (auto simp: bit_simps bit_bitrev)
  next
    case 2
    then have "15 - i = 7 - (i - 8)" by simp
    with 2 show ?thesis
      unfolding bitrev16_def masks by (auto simp: bit_simps bit_bitrev)
  qed (auto dest: bit_imp_le_length)
qed

lemma bit_bitrev32: "bit (bitrev32 c) i \<longleftrightarrow> i < 32 \<and> bit c (31 - i)"
proof -
  have masks: "(0x0000ffff :: u32) = mask 16" "(0xffff0000 :: u32) = push_bit 16 (mask 16)"
    by (simp_all add: mask_eq_exp_minus_1)
  consider "i < 16" | "16 \<le> i" "i < 32" | "32 \<le> i" by linarith
  then show ?thesis
  proof cases
    case 1
    then have "31 - i = 16 + (15 - i)" by simp
    with 1 show ?thesis
      unfolding bitrev32_def masks by (auto simp: bit_simps bit_bitrev16)
  next
    case 2
    then have "31 - i = 15 - (i - 16)" by simp
    with 2 show ?thesis
      unfolding bitrev32_def masks by (auto simp: bit_simps bit_bitrev16)
  qed (auto dest: bit_imp_le_length)
qed

lemmas bit_bitrevs = bit_bitrev bit_bitrev16 bit_bitrev32

text \<open>Bit reversal mirrors every bit position at each of the three widths, and applying it
  twice gives the argument back.\<close>

theorem bitrev_mirrors:
  "(\<forall>i. bit (bitrev a) i = (i < 8 \<and> bit a (7 - i)))
    \<and> (\<forall>i. bit (bitrev16 b) i = (i < 16 \<and> bit b (15 - i)))
    \<and> (\<forall>i. bit (bitrev32 c) i = (i < 32 \<and> bit c (31 - i)))
    \<and> bitrev (bitrev a) = a \<and> bitrev16 (bitrev16 b) = b \<and> bitrev32 (bitrev32 c) = c"
proof (intro conjI allI)
  show "bitrev (bitrev a) = a" by (rule bit_word_eqI) (auto simp: bit_bitrevs)
  show "bitrev16 (bitrev16 b) = b" by (rule bit_word_eqI) (auto simp: bit_bitrevs)
  show "bitrev32 (bitrev32 c) = c" by (rule bit_word_eqI) (auto simp: bit_bitrevs)
qed (simp_all only: bit_bitrevs)

end
