(* ===== verification/Crc.thy ===== *)
theory Crc
  imports Prelude
begin

text \<open>
  The CRC-8 of quantum/crc.c, in its two builds: the table-driven one (CRC8_USE_TABLE) and the
  bit-by-bit one. Split keyboards use it to guard the packets between the halves.
\<close>

section \<open>The two implementations\<close>

text \<open>The bit-by-bit build. One iteration of the inner loop, the eight iterations for a byte, and
  the loop over the data. The accumulator type \<open>crc_t\<close> is \<open>uint_least8_t\<close>, or \<open>uint_fast8_t\<close>
  (a 32-bit register on the ARM targets) under CRC8_OPTIMIZE_SPEED, so its width is a type
  parameter; the result is converted to \<open>uint8_t\<close>.\<close>

definition crc8_bit :: "'w::len word \<Rightarrow> 'w word" where
  "crc8_bit crc = (if crc AND 0x80 \<noteq> 0 then push_bit 1 crc XOR 0x31 else push_bit 1 crc)"

definition crc8_byte :: "u8 \<Rightarrow> 'w::len word \<Rightarrow> 'w word" where
  "crc8_byte d crc = (crc8_bit ^^ 8) (crc XOR ucast d)"

definition crc8 :: "u8 list \<Rightarrow> u8" where
  "crc8 data = fold crc8_byte data 0xff"

definition crc8_fast :: "u8 list \<Rightarrow> u8" where
  "crc8_fast data = ucast (fold crc8_byte data (0xff :: u32))"

text \<open>The table-driven build.\<close>

definition crc_table :: "u8 list" where
  "crc_table =
    [0x00, 0x07, 0x0e, 0x09, 0x1c, 0x1b, 0x12, 0x15, 0x38, 0x3f, 0x36, 0x31,
     0x24, 0x23, 0x2a, 0x2d, 0x70, 0x77, 0x7e, 0x79, 0x6c, 0x6b, 0x62, 0x65,
     0x48, 0x4f, 0x46, 0x41, 0x54, 0x53, 0x5a, 0x5d, 0xe0, 0xe7, 0xee, 0xe9,
     0xfc, 0xfb, 0xf2, 0xf5, 0xd8, 0xdf, 0xd6, 0xd1, 0xc4, 0xc3, 0xca, 0xcd,
     0x90, 0x97, 0x9e, 0x99, 0x8c, 0x8b, 0x82, 0x85, 0xa8, 0xaf, 0xa6, 0xa1,
     0xb4, 0xb3, 0xba, 0xbd, 0xc7, 0xc0, 0xc9, 0xce, 0xdb, 0xdc, 0xd5, 0xd2,
     0xff, 0xf8, 0xf1, 0xf6, 0xe3, 0xe4, 0xed, 0xea, 0xb7, 0xb0, 0xb9, 0xbe,
     0xab, 0xac, 0xa5, 0xa2, 0x8f, 0x88, 0x81, 0x86, 0x93, 0x94, 0x9d, 0x9a,
     0x27, 0x20, 0x29, 0x2e, 0x3b, 0x3c, 0x35, 0x32, 0x1f, 0x18, 0x11, 0x16,
     0x03, 0x04, 0x0d, 0x0a, 0x57, 0x50, 0x59, 0x5e, 0x4b, 0x4c, 0x45, 0x42,
     0x6f, 0x68, 0x61, 0x66, 0x73, 0x74, 0x7d, 0x7a, 0x89, 0x8e, 0x87, 0x80,
     0x95, 0x92, 0x9b, 0x9c, 0xb1, 0xb6, 0xbf, 0xb8, 0xad, 0xaa, 0xa3, 0xa4,
     0xf9, 0xfe, 0xf7, 0xf0, 0xe5, 0xe2, 0xeb, 0xec, 0xc1, 0xc6, 0xcf, 0xc8,
     0xdd, 0xda, 0xd3, 0xd4, 0x69, 0x6e, 0x67, 0x60, 0x75, 0x72, 0x7b, 0x7c,
     0x51, 0x56, 0x5f, 0x58, 0x4d, 0x4a, 0x43, 0x44, 0x19, 0x1e, 0x17, 0x10,
     0x05, 0x02, 0x0b, 0x0c, 0x21, 0x26, 0x2f, 0x28, 0x3d, 0x3a, 0x33, 0x34,
     0x4e, 0x49, 0x40, 0x47, 0x52, 0x55, 0x5c, 0x5b, 0x76, 0x71, 0x78, 0x7f,
     0x6a, 0x6d, 0x64, 0x63, 0x3e, 0x39, 0x30, 0x37, 0x22, 0x25, 0x2c, 0x2b,
     0x06, 0x01, 0x08, 0x0f, 0x1a, 0x1d, 0x14, 0x13, 0xae, 0xa9, 0xa0, 0xa7,
     0xb2, 0xb5, 0xbc, 0xbb, 0x96, 0x91, 0x98, 0x9f, 0x8a, 0x8d, 0x84, 0x83,
     0xde, 0xd9, 0xd0, 0xd7, 0xc2, 0xc5, 0xcc, 0xcb, 0xe6, 0xe1, 0xe8, 0xef,
     0xfa, 0xfd, 0xf4, 0xf3]"

definition crc8_table_byte :: "u8 \<Rightarrow> u8 \<Rightarrow> u8" where
  "crc8_table_byte d crc = crc_table ! unat (crc XOR d) AND 0xff"

definition crc8_table :: "u8 list \<Rightarrow> u8" where
  "crc8_table data = fold crc8_table_byte data 0xff AND 0xff"

section \<open>A byte step is a permutation\<close>

lemma and_0x80: "(x :: 'w::len word) AND 0x80 \<noteq> 0 \<longleftrightarrow> bit x 7"
  using and_one_shift_neq_0 [of x 7] by (simp add: push_bit_of_1)

lemma bit_crc8_bit:
  "bit (crc8_bit c) i \<longleftrightarrow> (0 < i \<and> bit c (i - 1) \<and> i < LENGTH('w)) \<noteq> (bit c 7 \<and> bit (0x31 :: 'w word) i)"
  for c :: "'w::len word"
  unfolding crc8_bit_def and_0x80 by (auto simp: bit_simps possible_bit_word split: if_splits simp del: push_bit_Suc push_bit_numeral)

lemma crc8_bit_inj: "inj (crc8_bit :: u8 \<Rightarrow> u8)"
proof (rule injI)
  fix x y :: u8
  assume eq: "crc8_bit x = crc8_bit y"
  have top: "bit x 7 = bit y 7"
    using arg_cong [OF eq, of "\<lambda>w. bit w 0"] by (simp add: bit_crc8_bit)
  have low: "bit x i = bit y i" if "i < 7" for i
    using arg_cong [OF eq, of "\<lambda>w. bit w (Suc i)"] top that by (auto simp: bit_crc8_bit)
  show "x = y"
  proof (rule bit_word_eqI)
    fix i assume "i < LENGTH(8)"
    then have "i < 7 \<or> i = 7" by auto
    with top low show "bit x i = bit y i" by blast
  qed
qed

lemma crc8_byte_inj: "crc8_byte d c = crc8_byte d' c' \<longleftrightarrow> (c :: u8) XOR d = c' XOR d'"
proof -
  have "inj ((crc8_bit :: u8 \<Rightarrow> u8) ^^ 8)" by (rule inj_fn [OF crc8_bit_inj])
  then show ?thesis by (simp add: crc8_byte_def inj_eq)
qed

lemma fold_crc8_byte_inj: "fold crc8_byte ds c = fold crc8_byte ds c' \<longleftrightarrow> (c :: u8) = c'"
  by (induction ds arbitrary: c c') (simp_all add: crc8_byte_inj xor_cancel_right)

text \<open>The CRC of the bit-by-bit build detects every corruption confined to one byte: two
  messages of the same length that differ in exactly one byte have different CRCs.\<close>

theorem crc8_detects_single_byte:
  "crc8 (xs @ b # ys) = crc8 (xs @ b' # ys) \<longleftrightarrow> b = b'"
  by (simp add: crc8_def fold_crc8_byte_inj crc8_byte_inj xor_cancel_left)

section \<open>Widths of the accumulator\<close>

lemma crc8_bit_ucast: "ucast (crc8_bit (c :: u32)) = (crc8_bit (ucast c) :: u8)"
proof (rule bit_word_eqI)
  fix i assume "i < LENGTH(8)"
  then have "i < 8" by simp
  moreover have "bit (0x31 :: u32) i = bit (0x31 :: u8) i"
    using \<open>i < 8\<close> bit_ucast_iff [of "0x31 :: u32" i, where ?'a = 8] by auto
  ultimately show "bit (ucast (crc8_bit c) :: u8) i = bit (crc8_bit (ucast c) :: u8) i"
    by (auto simp: bit_crc8_bit bit_ucast_iff)
qed

lemma crc8_bit_pow_ucast: "ucast ((crc8_bit ^^ n) (c :: u32)) = ((crc8_bit ^^ n) (ucast c) :: u8)"
  by (induction n) (simp_all add: crc8_bit_ucast)

lemma crc8_byte_ucast: "ucast (crc8_byte d (c :: u32)) = (crc8_byte d (ucast c) :: u8)"
proof -
  have "ucast (c XOR ucast d) = (ucast c XOR d :: u8)"
    by (rule bit_word_eqI) (auto simp: bit_simps)
  then show ?thesis by (simp add: crc8_byte_def crc8_bit_pow_ucast)
qed

lemma fold_crc8_byte_ucast:
  "ucast (fold crc8_byte ds (c :: u32)) = (fold crc8_byte ds (ucast c) :: u8)"
  by (induction ds arbitrary: c) (simp_all add: crc8_byte_ucast)

text \<open>The build optimised for speed, whose accumulator is a 32-bit register that keeps the
  bits shifted out of the byte, computes the same CRC as the 8-bit build.\<close>

theorem crc8_fast_eq: "crc8_fast data = crc8 data"
  by (simp add: crc8_fast_def crc8_def fold_crc8_byte_ucast)

section \<open>The table\<close>

text \<open>The two builds of \<open>crc8\<close> are different functions: they already disagree on the one-byte
  message 0x00, so firmware built with CRC8_USE_TABLE rejects every such packet of firmware built
  without it.\<close>

theorem crc8_builds_differ: "crc8_table [0x00] = 0xf3 \<and> crc8 [0x00] = 0xac"
  by code_simp

end
