(* ===== verification/Ring.thy ===== *)
theory Ring
  imports Prelude
begin

text \<open>
  Ring buffers: the interface of a bounded first-in first-out queue as a locale, the arithmetic
  of head and tail indices that every ring buffer of the firmware shares, and the byte queue of
  quantum/ring_buffer.h as the first instance.
\<close>

section \<open>The interface of a bounded queue\<close>

text \<open>
  The operations of a queue and their results, a queue kept as a list that holds at most \<open>cap\<close> elements
  and whose empty state gives \<open>z\<close>, and runs of operations.
\<close>

datatype 'a fifo_op = Put 'a | Get | Ask | Clear
datatype 'a fifo_result = Accepted bool | Got 'a | Has_data bool | Cleared

fun list_step :: "nat \<Rightarrow> 'a \<Rightarrow> 'a fifo_op \<Rightarrow> 'a list \<Rightarrow> 'a fifo_result \<times> 'a list" where
  "list_step cap z (Put x) q = (if length q < cap then (Accepted True, q @ [x]) else (Accepted False, q))"
| "list_step cap z Get q = (case q of [] \<Rightarrow> (Got z, []) | x # q \<Rightarrow> (Got x, q))"
| "list_step cap z Ask q = (Has_data (q \<noteq> []), q)"
| "list_step cap z Clear q = (Cleared, [])"

fun fifo_step ::
  "('a \<Rightarrow> 's \<Rightarrow> bool \<times> 's) \<Rightarrow> ('s \<Rightarrow> 'a \<times> 's) \<Rightarrow> ('s \<Rightarrow> bool) \<Rightarrow> ('s \<Rightarrow> 's) \<Rightarrow> 'a fifo_op \<Rightarrow> 's \<Rightarrow> 'a fifo_result \<times> 's"
where
  "fifo_step enq deq has_data clear (Put x) s = (let (ok, s) = enq x s in (Accepted ok, s))"
| "fifo_step enq deq has_data clear Get s = (let (x, s) = deq s in (Got x, s))"
| "fifo_step enq deq has_data clear Ask s = (Has_data (has_data s), s)"
| "fifo_step enq deq has_data clear Clear s = (Cleared, clear s)"

fun fifo_run :: "('op \<Rightarrow> 's \<Rightarrow> 'r \<times> 's) \<Rightarrow> 'op list \<Rightarrow> 's \<Rightarrow> 'r list \<times> 's" where
  "fifo_run step [] s = ([], s)"
| "fifo_run step (x # xs) s = (let (r, s) = step x s; (rs, s) = fifo_run step xs s in (r # rs, s))"

locale bounded_fifo =
  fixes enq :: "'a \<Rightarrow> 's \<Rightarrow> bool \<times> 's"
    and deq :: "'s \<Rightarrow> 'a \<times> 's"
    and has_data :: "'s \<Rightarrow> bool"
    and contents :: "'s \<Rightarrow> 'a list"
    and inv :: "'s \<Rightarrow> bool"
    and cap :: nat
  assumes enq_accepts: "inv s \<Longrightarrow> length (contents s) < cap \<Longrightarrow>
      fst (enq x s) \<and> contents (snd (enq x s)) = contents s @ [x]"
    and enq_full: "inv s \<Longrightarrow> \<not> length (contents s) < cap \<Longrightarrow> enq x s = (False, s)"
    and enq_inv: "inv s \<Longrightarrow> inv (snd (enq x s))"
    and deq_first: "inv s \<Longrightarrow> contents s \<noteq> [] \<Longrightarrow>
      contents s = fst (deq s) # contents (snd (deq s))"
    and deq_inv: "inv s \<Longrightarrow> inv (snd (deq s))"
    and has_data_iff: "inv s \<Longrightarrow> has_data s \<longleftrightarrow> contents s \<noteq> []"
    and bounded: "inv s \<Longrightarrow> length (contents s) \<le> cap"
begin

text \<open>While there is room, a put is always accepted.\<close>

lemma enq_room: "inv s \<Longrightarrow> fst (enq x s) \<longleftrightarrow> length (contents s) < cap"
  using enq_accepts enq_full by fastforce

end

text \<open>A queue that can be read when empty and can be cleared behaves like the list.\<close>

locale clearable_fifo = bounded_fifo +
  fixes clear :: "'s \<Rightarrow> 's" and z :: 'a
  assumes deq_empty: "inv s \<Longrightarrow> contents s = [] \<Longrightarrow> fst (deq s) = z \<and> contents (snd (deq s)) = []"
    and clear_inv: "inv s \<Longrightarrow> inv (clear s)"
    and clear_empty: "inv s \<Longrightarrow> contents (clear s) = []"
begin

lemma step_list:
  assumes "inv s" and "fifo_step enq deq has_data clear op s = (r, s')"
  shows "inv s' \<and> list_step cap z op (contents s) = (r, contents s')"
proof (cases op)
  case (Put x)
  then show ?thesis
    using assms enq_accepts [OF assms(1), of x] enq_full [OF assms(1), of x] enq_inv [OF assms(1), of x]
    by (cases "length (contents s) < cap") (auto split: prod.splits)
next
  case Get
  then show ?thesis
    using assms deq_first [OF assms(1)] deq_empty [OF assms(1)] deq_inv [OF assms(1)]
    by (cases "contents s") (auto split: prod.splits)
qed (use assms has_data_iff clear_inv clear_empty in auto)

lemma run_list:
  "inv s \<Longrightarrow> fifo_run (fifo_step enq deq has_data clear) ops s = (rs, t)
    \<Longrightarrow> inv t \<and> fifo_run (list_step cap z) ops (contents s) = (rs, contents t)"
proof (induction ops arbitrary: s rs)
  case (Cons op ops)
  obtain r s' where s': "fifo_step enq deq has_data clear op s = (r, s')" by fastforce
  note step = step_list [OF Cons.prems(1) s']
  obtain rs' where "fifo_run (fifo_step enq deq has_data clear) ops s' = (rs', t)" "rs = r # rs'"
    using Cons.prems(2) by (auto simp: s' Let_def split: prod.splits)
  then show ?case using Cons.IH [of s' rs'] step by (simp add: Let_def)
qed simp

end

section \<open>Head and tail arithmetic\<close>

text \<open>\<open>(i + 1) % n\<close>, stored back into an index of its width.\<close>

definition ring_next :: "nat \<Rightarrow> 'w::len word \<Rightarrow> 'w word" where
  "ring_next n i = of_nat ((unat i + 1) mod n)"

definition ring_contents :: "nat \<Rightarrow> 'a list \<Rightarrow> 'w::len word \<Rightarrow> 'w word \<Rightarrow> 'a list" where
  "ring_contents n buf tail head =
     map (\<lambda>k. buf ! ((unat tail + k) mod n)) [0..<(unat head + n - unat tail) mod n]"

definition ring_ok :: "nat \<Rightarrow> 'a list \<Rightarrow> 'w::len word \<Rightarrow> 'w word \<Rightarrow> bool" where
  "ring_ok n buf tail head \<longleftrightarrow>
     0 < n \<and> n \<le> 2 ^ LENGTH('w) \<and> length buf = n \<and> unat tail < n \<and> unat head < n"

lemma unat_ring_next:
  fixes i :: "'w::len word"
  shows "0 < n \<Longrightarrow> n \<le> 2 ^ LENGTH('w) \<Longrightarrow> unat (ring_next n i) = (unat i + 1) mod n"
  using less_le_trans [OF mod_less_divisor [of n "unat i + 1"]]
  by (simp add: ring_next_def unat_of_nat)

lemma succ_mod:
  assumes "(h :: nat) < n"
  shows "(h + 1) mod n = (if h + 1 = n then 0 else h + 1)"
    and "Suc h mod n = (if Suc h = n then 0 else Suc h)"
  using assms by auto

lemma add_mod_once:
  "(t :: nat) < n \<Longrightarrow> k < n \<Longrightarrow> (t + k) mod n = (if t + k < n then t + k else t + k - n)"
  by (auto simp: le_mod_geq)

lemma ring_count:
  assumes "(t :: nat) < n" "h < n"
  shows "(h + n - t) mod n = (if t \<le> h then h - t else h + n - t)"
  using assms by (auto simp: le_mod_geq)

lemma ring_ok_next:
  "ring_ok n buf t h \<Longrightarrow> ring_ok n buf (ring_next n t) h \<and> ring_ok n buf t (ring_next n h)"
  by (auto simp: ring_ok_def unat_ring_next)

lemma length_ring_contents:
  "ring_ok n buf t h \<Longrightarrow> length (ring_contents n buf t h) = (unat h + n - unat t) mod n"
  by (simp add: ring_contents_def)

lemma ring_full_iff:
  fixes h t :: "'w::len word"
  assumes "ring_ok n buf t h"
  shows "ring_next n h = t \<longleftrightarrow> length (ring_contents n buf t h) = n - 1"
proof -
  from assms have b: "unat t < n" "unat h < n" "0 < n" "n \<le> 2 ^ LENGTH('w)" by (auto simp: ring_ok_def)
  have "ring_next n h = t \<longleftrightarrow> (unat h + 1) mod n = unat t"
    using unat_ring_next [OF b(3,4), of h] by (metis word_unat_eq_iff)
  also have "\<dots> \<longleftrightarrow> (unat h + n - unat t) mod n = n - 1"
    unfolding ring_count [OF b(1,2)] succ_mod [OF b(2)] using b by auto
  finally show ?thesis using length_ring_contents [OF assms] by simp
qed

lemma ring_empty_iff:
  assumes "ring_ok n buf t h"
  shows "h = t \<longleftrightarrow> ring_contents n buf t h = []"
proof -
  from assms have b: "unat t < n" "unat h < n" by (auto simp: ring_ok_def)
  have "ring_contents n buf t h = [] \<longleftrightarrow> (unat h + n - unat t) mod n = 0"
    using length_ring_contents [OF assms] by (metis length_0_conv)
  also have "\<dots> \<longleftrightarrow> unat h = unat t"
    unfolding ring_count [OF b] using b by auto
  finally show ?thesis by (metis word_unat_eq_iff)
qed

lemma ring_length_le: "ring_ok n buf t h \<Longrightarrow> length (ring_contents n buf t h) \<le> n - 1"
proof -
  assume ok: "ring_ok n buf t h"
  then have "(unat h + n - unat t) mod n < n" by (simp add: ring_ok_def)
  with length_ring_contents [OF ok] show ?thesis by simp
qed

lemma ring_put:
  fixes h t :: "'w::len word"
  assumes ok: "ring_ok n buf t h" and room: "ring_next n h \<noteq> t"
  shows "ring_contents n (buf[unat h := x]) t (ring_next n h) = ring_contents n buf t h @ [x]"
proof -
  from ok have b: "unat t < n" "unat h < n" "0 < n" "n \<le> 2 ^ LENGTH('w)" "length buf = n"
    by (auto simp: ring_ok_def)
  define c where "c = (unat h + n - unat t) mod n"
  have nx: "unat (ring_next n h) = (unat h + 1) mod n" by (rule unat_ring_next [OF b(3,4)])
  have c: "c = (if unat t \<le> unat h then unat h - unat t else unat h + n - unat t)"
    unfolding c_def by (rule ring_count [OF b(1,2)])
  have ne: "(unat h + 1) mod n \<noteq> unat t" using room nx by (metis word_unat_eq_iff)
  have "(unat h + 1) mod n < n" using b(3) by simp
  from ring_count [OF b(1) this]
  have c': "(unat (ring_next n h) + n - unat t) mod n = Suc c"
    unfolding nx c using ne b(1,2) by (auto simp: succ_mod [OF b(2)] split: if_splits)
  have cn: "c < n" using c b(1,2) by (auto split: if_splits)
  have at: "(unat t + c) mod n = unat h"
    unfolding add_mod_once [OF b(1) cn] using b(1,2) c by (auto split: if_splits)
  have old: "unat h \<noteq> (unat t + k) mod n" if "k < c" for k
    using that cn b(1,2) c by (subst add_mod_once) (auto split: if_splits)
  have "map (\<lambda>k. (buf[unat h := x]) ! ((unat t + k) mod n)) [0..<c]
      = map (\<lambda>k. buf ! ((unat t + k) mod n)) [0..<c]"
    using old by (intro map_cong) auto
  then show ?thesis
    unfolding ring_contents_def c' c_def [symmetric] using at b(2,5) by simp
qed

lemma ring_get:
  fixes h t :: "'w::len word"
  assumes ok: "ring_ok n buf t h" and ne: "h \<noteq> t"
  shows "ring_contents n buf t h = buf ! unat t # ring_contents n buf (ring_next n t) h"
proof -
  from ok have b: "unat t < n" "unat h < n" "0 < n" "n \<le> 2 ^ LENGTH('w)" by (auto simp: ring_ok_def)
  define c where "c = (unat h + n - unat t) mod n"
  have nx: "unat (ring_next n t) = (unat t + 1) mod n" by (rule unat_ring_next [OF b(3,4)])
  have c: "c = (if unat t \<le> unat h then unat h - unat t else unat h + n - unat t)"
    unfolding c_def by (rule ring_count [OF b(1,2)])
  have "unat h \<noteq> unat t" using ne by (metis word_unat_eq_iff)
  moreover have "(unat t + 1) mod n < n" using b(3) by simp
  ultimately have c': "c = Suc ((unat h + n - unat (ring_next n t)) mod n)"
    unfolding nx c using b(1,2) ring_count [of "(unat t + 1) mod n" n "unat h"]
    by (auto simp: succ_mod [OF b(1)] split: if_splits)
  have shift: "(unat t + Suc k) mod n = ((unat t + 1) mod n + k) mod n" for k
    by (simp add: mod_add_left_eq)
  show ?thesis
    unfolding ring_contents_def c_def [symmetric] c' nx
    using b(1) by (simp only: upt_conv_Cons zero_less_Suc list.map map_Suc_upt [symmetric]
      map_map comp_def shift add_0_right mod_less)
qed

section \<open>The byte queue of ring_buffer.h\<close>

record rbuf_state =
  rbuf :: "u8 list"
  rbuf_head :: u8
  rbuf_tail :: u8

definition RBUF_SIZE :: nat where
  "RBUF_SIZE = 32"

definition rbuf_init :: rbuf_state where
  "rbuf_init = \<lparr>rbuf = replicate RBUF_SIZE 0, rbuf_head = 0, rbuf_tail = 0\<rparr>"

definition rbuf_enqueue :: "u8 \<Rightarrow> rbuf_state \<Rightarrow> bool \<times> rbuf_state" where
  "rbuf_enqueue d s =
     (let next = ring_next RBUF_SIZE (rbuf_head s)
      in if next \<noteq> rbuf_tail s
         then (True, s\<lparr>rbuf := (rbuf s)[unat (rbuf_head s) := d], rbuf_head := next\<rparr>)
         else (False, s))"

definition rbuf_dequeue :: "rbuf_state \<Rightarrow> u8 \<times> rbuf_state" where
  "rbuf_dequeue s =
     (if rbuf_head s \<noteq> rbuf_tail s
      then (rbuf s ! unat (rbuf_tail s), s\<lparr>rbuf_tail := ring_next RBUF_SIZE (rbuf_tail s)\<rparr>)
      else (0, s))"

definition rbuf_has_data :: "rbuf_state \<Rightarrow> bool" where
  "rbuf_has_data s = (rbuf_head s \<noteq> rbuf_tail s)"

definition rbuf_clear :: "rbuf_state \<Rightarrow> rbuf_state" where
  "rbuf_clear s = s\<lparr>rbuf_head := 0, rbuf_tail := 0\<rparr>"

definition rbuf_inv :: "rbuf_state \<Rightarrow> bool" where
  "rbuf_inv s \<longleftrightarrow> ring_ok RBUF_SIZE (rbuf s) (rbuf_tail s) (rbuf_head s)"

definition rbuf_contents :: "rbuf_state \<Rightarrow> u8 list" where
  "rbuf_contents s = ring_contents RBUF_SIZE (rbuf s) (rbuf_tail s) (rbuf_head s)"

lemmas rbuf_defs = rbuf_enqueue_def rbuf_dequeue_def rbuf_has_data_def rbuf_clear_def
  rbuf_inv_def rbuf_contents_def

lemma rbuf_init_inv: "rbuf_inv rbuf_init \<and> rbuf_contents rbuf_init = []"
  by (simp add: rbuf_defs rbuf_init_def ring_ok_def ring_contents_def RBUF_SIZE_def)

lemma rbuf_clear_inv: "rbuf_inv s \<Longrightarrow> rbuf_inv (rbuf_clear s) \<and> rbuf_contents (rbuf_clear s) = []"
  by (simp add: rbuf_defs ring_ok_def ring_contents_def RBUF_SIZE_def)

interpretation rb_bounded: bounded_fifo rbuf_enqueue rbuf_dequeue rbuf_has_data rbuf_contents rbuf_inv
    "RBUF_SIZE - 1"
proof unfold_locales
  fix s x
  assume inv: "rbuf_inv s"
  note ok = inv [unfolded rbuf_inv_def]
  have full: "ring_next RBUF_SIZE (rbuf_head s) \<noteq> rbuf_tail s
      \<longleftrightarrow> length (rbuf_contents s) < RBUF_SIZE - 1"
    using ring_full_iff [OF ok] ring_length_le [OF ok] by (auto simp: rbuf_contents_def)
  show "length (rbuf_contents s) < RBUF_SIZE - 1 \<Longrightarrow>
      fst (rbuf_enqueue x s) \<and> rbuf_contents (snd (rbuf_enqueue x s)) = rbuf_contents s @ [x]"
    using full ring_put [OF ok] by (simp add: rbuf_enqueue_def Let_def rbuf_contents_def)
  show "\<not> length (rbuf_contents s) < RBUF_SIZE - 1 \<Longrightarrow> rbuf_enqueue x s = (False, s)"
    using full by (simp add: rbuf_enqueue_def Let_def)
  show "rbuf_inv (snd (rbuf_enqueue x s))"
    using ok ring_ok_next [OF ok] by (auto simp: rbuf_enqueue_def Let_def rbuf_inv_def ring_ok_def)
  show "rbuf_contents s \<noteq> [] \<Longrightarrow>
      rbuf_contents s = fst (rbuf_dequeue s) # rbuf_contents (snd (rbuf_dequeue s))"
    using ring_get [OF ok] ring_empty_iff [OF ok] by (simp add: rbuf_dequeue_def rbuf_contents_def)
  show "rbuf_inv (snd (rbuf_dequeue s))"
    using ok ring_ok_next [OF ok] by (auto simp: rbuf_dequeue_def rbuf_inv_def)
  show "rbuf_has_data s = (rbuf_contents s \<noteq> [])"
    using ring_empty_iff [OF ok] by (simp add: rbuf_has_data_def rbuf_contents_def)
  show "length (rbuf_contents s) \<le> RBUF_SIZE - 1"
    using ring_length_le [OF ok] by (simp add: rbuf_contents_def)
qed

interpretation rb: clearable_fifo rbuf_enqueue rbuf_dequeue rbuf_has_data rbuf_contents rbuf_inv
    "RBUF_SIZE - 1" rbuf_clear 0
proof unfold_locales
  fix s
  assume inv: "rbuf_inv s"
  show "rbuf_contents s = [] \<Longrightarrow> fst (rbuf_dequeue s) = 0 \<and> rbuf_contents (snd (rbuf_dequeue s)) = []"
    using ring_empty_iff [OF inv [unfolded rbuf_inv_def]] by (simp add: rbuf_dequeue_def rbuf_contents_def)
  show "rbuf_inv (rbuf_clear s)" "rbuf_contents (rbuf_clear s) = []" using rbuf_clear_inv [OF inv] by simp_all
qed

text \<open>C36: The byte queue is a queue: for any sequence of its four operations from the start, enqueue,
  dequeue (also when it is empty), asking for data and clearing, all results are those of a list that
  takes up to 31 bytes, and what the buffer holds between tail and head is that list.\<close>

theorem rbuf_is_fifo:
  "(case fifo_run (fifo_step rbuf_enqueue rbuf_dequeue rbuf_has_data rbuf_clear) ops rbuf_init of (rs, t) \<Rightarrow> (rs, rbuf_contents t))
    = fifo_run (list_step 31 0) ops []"
  using rb.run_list [of rbuf_init ops] rbuf_init_inv by (auto simp: RBUF_SIZE_def split: prod.splits)

end
