(* ===== verification/Fnv.thy ===== *)
theory Fnv
  imports Prelude
begin

text \<open>
  The 64-bit FNV-1a hash of lib/fnv/hash_64a.c, the checksum of the wear-leveling store, in the
  64-bit build with gcc's shift-and-add multiplication.
\<close>

definition FNV_64_PRIME :: u64 where
  "FNV_64_PRIME = 0x100000001b3"

definition FNV1A_64_INIT :: u64 where
  "FNV1A_64_INIT = 0xcbf29ce484222325"

text \<open>The body of the loop over the octets.\<close>

definition fnv_64a_octet :: "u8 \<Rightarrow> u64 \<Rightarrow> u64" where
  "fnv_64a_octet b hval =
     (let hval = hval XOR ucast b
      in hval + (push_bit 1 hval + push_bit 4 hval + push_bit 5 hval
                 + push_bit 7 hval + push_bit 8 hval + push_bit 40 hval))"

definition fnv_64a_buf :: "u8 list \<Rightarrow> u64 \<Rightarrow> u64" where
  "fnv_64a_buf buf hval = fold fnv_64a_octet buf hval"

lemma FNV_64_PRIME_parts: "FNV_64_PRIME = 1 + (2 + 16 + 32 + 128 + 256 + 1099511627776)"
  by (simp add: FNV_64_PRIME_def)

lemma FNV_64_PRIME_sum: "FNV_64_PRIME = 1 + (2 ^ 1 + 2 ^ 4 + 2 ^ 5 + 2 ^ 7 + 2 ^ 8 + 2 ^ 40)"
  unfolding FNV_64_PRIME_parts by (simp only: power_numeral_even) simp

lemma fnv_64a_octet_mult: "fnv_64a_octet b hval = (hval XOR ucast b) * FNV_64_PRIME"
  unfolding fnv_64a_octet_def Let_def push_bit_eq_mult FNV_64_PRIME_sum distrib_left mult_1_right ..

text \<open>The FNV prime is odd, hence invertible modulo 2 ^ 64.\<close>

lemma FNV_64_PRIME_inverse: "FNV_64_PRIME * 0xce965057aff6957b = 1"
  by (simp add: FNV_64_PRIME_def)

lemma mult_FNV_64_PRIME_cancel: "a * FNV_64_PRIME = b * FNV_64_PRIME \<longleftrightarrow> a = b"
proof
  assume "a * FNV_64_PRIME = b * FNV_64_PRIME"
  then have "a * FNV_64_PRIME * 0xce965057aff6957b = b * FNV_64_PRIME * 0xce965057aff6957b"
    by (rule arg_cong)
  then show "a = b"
    unfolding mult.assoc FNV_64_PRIME_inverse mult_1_right .
qed simp

lemma fnv_64a_octet_inj:
  "fnv_64a_octet b h = fnv_64a_octet b' h' \<longleftrightarrow> h XOR ucast b = h' XOR ucast b'"
  by (simp add: fnv_64a_octet_mult mult_FNV_64_PRIME_cancel)

lemma fnv_fold_inj: "fold fnv_64a_octet buf h = fold fnv_64a_octet buf h' \<longleftrightarrow> h = h'"
  by (induction buf arbitrary: h h') (simp_all add: fnv_64a_octet_inj xor_cancel_right)

lemma ucast_u8_u64_inj: "(ucast (a :: u8) :: u64) = ucast b \<longleftrightarrow> a = b"
proof
  assume eq: "(ucast a :: u64) = ucast b"
  have "bit a i = bit b i" if "i < 8" for i
    using arg_cong [OF eq, of "\<lambda>w. bit w i"] that by (simp add: bit_simps)
  then show "a = b" by (intro bit_word_eqI) simp
qed simp

text \<open>The shift-and-add loop is FNV-1a: each octet is xored in and the hash multiplied by the
  FNV prime modulo 2 ^ 64; and the hash of a buffer changes whenever exactly one of its octets
  does, so the checksum of the consolidated area detects every single-byte corruption.\<close>

theorem fnv_64a_detects_single_octet:
  "fnv_64a_buf buf h = foldl (\<lambda>hv b. (hv XOR ucast b) * 0x100000001b3) h buf
    \<and> (fnv_64a_buf (xs @ b # ys) h = fnv_64a_buf (xs @ b' # ys) h \<longleftrightarrow> b = b')"
proof
  show "fnv_64a_buf buf h = foldl (\<lambda>hv b. (hv XOR ucast b) * 0x100000001b3) h buf"
    unfolding fnv_64a_buf_def
    by (induction buf arbitrary: h) (simp_all add: fnv_64a_octet_mult FNV_64_PRIME_def)
  show "fnv_64a_buf (xs @ b # ys) h = fnv_64a_buf (xs @ b' # ys) h \<longleftrightarrow> b = b'"
    by (simp add: fnv_64a_buf_def fnv_fold_inj fnv_64a_octet_inj xor_cancel_left ucast_u8_u64_inj)
qed

end
