(* ===== verification/WlCodec.thy ===== *)
theory WlCodec
  imports Fnv
begin

text \<open>
  The write-log entries of quantum/wear_leveling/wear_leveling_internal.h: the union
  \<open>write_log_entry_t\<close> as its eight bytes in memory order, the LOG_ENTRY_MAKE macros that fill it
  and the LOG_ENTRY_GET macros that read it back.
\<close>

section \<open>Configuration\<close>

text \<open>BACKING_STORE_WRITE_SIZE is 2, 4 or 8; anything else is a compile-time error.\<close>

datatype write_size = WS2 | WS4 | WS8

fun ws_bytes :: "write_size \<Rightarrow> nat" where
  "ws_bytes WS2 = 2"
| "ws_bytes WS4 = 4"
| "ws_bytes WS8 = 8"

lemma ws_bytes_pos [simp]: "0 < ws_bytes ws"
  by (cases ws) auto

lemma ws_bytes_le_8 [simp]: "ws_bytes ws \<le> 8"
  by (cases ws) auto

lemma ws_bytes_dvd_8 [simp]: "ws_bytes ws dvd 8"
  by (cases ws) auto

section \<open>Bytes of a log entry\<close>

datatype log_entry_type = LOG_ENTRY_TYPE_MULTIBYTE | LOG_ENTRY_TYPE_OPTIMIZED_64
  | LOG_ENTRY_TYPE_WORD_01 | LOG_ENTRY_TYPE_INVALID

fun log_entry_type_code :: "log_entry_type \<Rightarrow> u8" where
  "log_entry_type_code LOG_ENTRY_TYPE_MULTIBYTE = 0"
| "log_entry_type_code LOG_ENTRY_TYPE_OPTIMIZED_64 = 1"
| "log_entry_type_code LOG_ENTRY_TYPE_WORD_01 = 2"
| "log_entry_type_code LOG_ENTRY_TYPE_INVALID = 3"

definition BITMASK_FOR_BITCOUNT :: "nat \<Rightarrow> 'w::len word" where
  "BITMASK_FOR_BITCOUNT n = push_bit n 1 - 1"

lemma BITMASK_is_mask: "BITMASK_FOR_BITCOUNT n = mask n"
  by (simp add: BITMASK_FOR_BITCOUNT_def mask_eq_exp_minus_1 push_bit_of_1)

definition LOG_ENTRY_GET_TYPE :: "u8 list \<Rightarrow> log_entry_type" where
  "LOG_ENTRY_GET_TYPE raw8 =
     (let t = drop_bit 6 (raw8 ! 0) AND BITMASK_FOR_BITCOUNT 2
      in if t = 0 then LOG_ENTRY_TYPE_MULTIBYTE
         else if t = 1 then LOG_ENTRY_TYPE_OPTIMIZED_64
         else if t = 2 then LOG_ENTRY_TYPE_WORD_01
         else LOG_ENTRY_TYPE_INVALID)"

definition LOG_ENTRY_MULTIBYTE_MAX_BYTES :: nat where
  "LOG_ENTRY_MULTIBYTE_MAX_BYTES = 5"

definition LOG_ENTRY_MULTIBYTE_GET_ADDRESS :: "u8 list \<Rightarrow> u32" where
  "LOG_ENTRY_MULTIBYTE_GET_ADDRESS raw8 =
     push_bit 16 (ucast (raw8 ! 0) AND BITMASK_FOR_BITCOUNT 3)
       OR push_bit 8 (ucast (raw8 ! 1)) OR ucast (raw8 ! 2)"

definition LOG_ENTRY_MULTIBYTE_GET_LENGTH :: "u8 list \<Rightarrow> u8" where
  "LOG_ENTRY_MULTIBYTE_GET_LENGTH raw8 = drop_bit 3 (raw8 ! 0) AND BITMASK_FOR_BITCOUNT 3"

definition LOG_ENTRY_MAKE_MULTIBYTE :: "u32 \<Rightarrow> nat \<Rightarrow> u8 list" where
  "LOG_ENTRY_MAKE_MULTIBYTE address len =
     [push_bit 6 (log_entry_type_code LOG_ENTRY_TYPE_MULTIBYTE AND BITMASK_FOR_BITCOUNT 2)
        OR push_bit 3 (of_nat len AND BITMASK_FOR_BITCOUNT 3)
        OR (ucast (drop_bit 16 address) AND BITMASK_FOR_BITCOUNT 3),
      ucast (drop_bit 8 address) AND BITMASK_FOR_BITCOUNT 8,
      ucast address AND BITMASK_FOR_BITCOUNT 8,
      0, 0, 0, 0, 0]"

definition LOG_ENTRY_OPTIMIZED_64_GET_ADDRESS :: "u8 list \<Rightarrow> u32" where
  "LOG_ENTRY_OPTIMIZED_64_GET_ADDRESS raw8 = ucast (raw8 ! 0 AND BITMASK_FOR_BITCOUNT 6)"

definition LOG_ENTRY_OPTIMIZED_64_GET_VALUE :: "u8 list \<Rightarrow> u8" where
  "LOG_ENTRY_OPTIMIZED_64_GET_VALUE raw8 = raw8 ! 1"

definition LOG_ENTRY_MAKE_OPTIMIZED_64 :: "u32 \<Rightarrow> u8 \<Rightarrow> u8 list" where
  "LOG_ENTRY_MAKE_OPTIMIZED_64 address v =
     [push_bit 6 (log_entry_type_code LOG_ENTRY_TYPE_OPTIMIZED_64 AND BITMASK_FOR_BITCOUNT 2)
        OR (ucast address AND BITMASK_FOR_BITCOUNT 6),
      v, 0, 0, 0, 0, 0, 0]"

definition LOG_ENTRY_WORD_01_GET_ADDRESS :: "u8 list \<Rightarrow> u32" where
  "LOG_ENTRY_WORD_01_GET_ADDRESS raw8 =
     push_bit 9 (ucast (raw8 ! 0 AND BITMASK_FOR_BITCOUNT 5)) OR push_bit 1 (ucast (raw8 ! 1))"

definition LOG_ENTRY_WORD_01_GET_VALUE :: "u8 list \<Rightarrow> u8" where
  "LOG_ENTRY_WORD_01_GET_VALUE raw8 = drop_bit 5 (raw8 ! 0) AND BITMASK_FOR_BITCOUNT 1"

definition LOG_ENTRY_MAKE_WORD_01 :: "u32 \<Rightarrow> u16 \<Rightarrow> u8 list" where
  "LOG_ENTRY_MAKE_WORD_01 address v =
     [push_bit 6 (log_entry_type_code LOG_ENTRY_TYPE_WORD_01 AND BITMASK_FOR_BITCOUNT 2)
        OR push_bit 5 ((if v \<noteq> 0 then 1 else 0) AND BITMASK_FOR_BITCOUNT 1)
        OR (ucast (drop_bit 9 address) AND BITMASK_FOR_BITCOUNT 5),
      ucast (drop_bit 1 address),
      0, 0, 0, 0, 0, 0]"

lemmas log_entry_defs = LOG_ENTRY_GET_TYPE_def LOG_ENTRY_MULTIBYTE_GET_ADDRESS_def
  LOG_ENTRY_MULTIBYTE_GET_LENGTH_def LOG_ENTRY_MAKE_MULTIBYTE_def
  LOG_ENTRY_OPTIMIZED_64_GET_ADDRESS_def LOG_ENTRY_OPTIMIZED_64_GET_VALUE_def
  LOG_ENTRY_MAKE_OPTIMIZED_64_def LOG_ENTRY_WORD_01_GET_ADDRESS_def
  LOG_ENTRY_WORD_01_GET_VALUE_def LOG_ENTRY_MAKE_WORD_01_def

section \<open>Round trips\<close>

lemma entry_type_multibyte:
  "LOG_ENTRY_GET_TYPE (LOG_ENTRY_MAKE_MULTIBYTE a l @ zs) = LOG_ENTRY_TYPE_MULTIBYTE"
proof -
  have "drop_bit 6 (push_bit 3 (x AND mask 3) OR (y AND mask 3)) AND mask 2 = 0" for x y :: u8
    by (rule bit_word_eqI) (auto simp: bit_simps)
  then show ?thesis by (simp add: log_entry_defs BITMASK_is_mask)
qed

lemma multibyte_address:
  assumes "unat a < 2 ^ 19"
  shows "LOG_ENTRY_MULTIBYTE_GET_ADDRESS (LOG_ENTRY_MAKE_MULTIBYTE a l @ zs) = a"
proof (rule bit_word_eqI)
  fix i assume "i < LENGTH(32)"
  then have i: "i < 32" by simp
  have hi: "\<not> bit a i" if "19 \<le> i" using assms that by (rule less_exp_no_bit)
  consider "i < 8" | "8 \<le> i" "i < 16" | "16 \<le> i" "i < 19" | "19 \<le> i" by linarith
  then show "bit (LOG_ENTRY_MULTIBYTE_GET_ADDRESS (LOG_ENTRY_MAKE_MULTIBYTE a l @ zs)) i = bit a i"
    using i hi by cases (auto simp: log_entry_defs BITMASK_is_mask bit_simps)
qed

lemma multibyte_length:
  assumes "l < 8"
  shows "unat (LOG_ENTRY_MULTIBYTE_GET_LENGTH (LOG_ENTRY_MAKE_MULTIBYTE a l @ zs)) = l"
proof -
  have "LOG_ENTRY_MULTIBYTE_GET_LENGTH (LOG_ENTRY_MAKE_MULTIBYTE a l @ zs) = of_nat l AND mask 3"
    unfolding log_entry_defs BITMASK_is_mask
    by (rule bit_word_eqI) (auto simp: bit_simps)
  also have "\<dots> = of_nat l"
  proof (rule bit_word_eqI)
    fix i assume "i < LENGTH(8)"
    then show "bit (of_nat l AND mask 3 :: u8) i = bit (of_nat l :: u8) i"
      using less_exp_no_bit [of "of_nat l :: u8" 3 i] assms
      by (cases "i < 3") (simp_all add: bit_simps unat_of_nat)
  qed
  finally show ?thesis using assms by (simp add: unat_of_nat)
qed

lemma entry_type_optimized_64:
  "LOG_ENTRY_GET_TYPE (LOG_ENTRY_MAKE_OPTIMIZED_64 a v @ zs) = LOG_ENTRY_TYPE_OPTIMIZED_64"
proof -
  have "drop_bit 6 (push_bit 6 (1 AND mask 2) OR (y AND mask 6)) AND mask 2 = 1" for y :: u8
    by (rule bit_word_eqI) (auto simp: bit_simps)
  then show ?thesis by (simp add: log_entry_defs BITMASK_is_mask)
qed

lemma optimized_64_address:
  assumes "unat a < 64"
  shows "LOG_ENTRY_OPTIMIZED_64_GET_ADDRESS (LOG_ENTRY_MAKE_OPTIMIZED_64 a v @ zs) = a"
proof (rule bit_word_eqI)
  fix i assume "i < LENGTH(32)"
  moreover have "\<not> bit a i" if "6 \<le> i" using assms that less_exp_no_bit [of a 6 i] by simp
  ultimately show "bit (LOG_ENTRY_OPTIMIZED_64_GET_ADDRESS (LOG_ENTRY_MAKE_OPTIMIZED_64 a v @ zs)) i
      = bit a i"
    by (cases "i < 6") (simp_all add: log_entry_defs BITMASK_is_mask bit_simps)
qed

lemma entry_type_word_01:
  "LOG_ENTRY_GET_TYPE (LOG_ENTRY_MAKE_WORD_01 a v @ zs) = LOG_ENTRY_TYPE_WORD_01"
proof -
  have "drop_bit 6 (push_bit 6 (2 AND mask 2) OR push_bit 5 (x AND mask 1) OR (y AND mask 5))
      AND mask 2 = 2" for x y :: u8
    by (rule bit_word_eqI) (auto simp: bit_simps)
  then show ?thesis by (simp add: log_entry_defs BITMASK_is_mask)
qed

lemma word_01_address_bits:
  fixes t v :: u8 and a :: u32
  assumes "unat a < 16384" and "even (unat a)"
  shows "push_bit 9 (ucast ((push_bit 6 t OR push_bit 5 v OR (ucast (drop_bit 9 a) AND mask 5))
      AND mask 5)) OR push_bit 1 (ucast (ucast (drop_bit 1 a) :: u8)) = a"
    (is "?l = a")
proof (rule bit_word_eqI)
  fix i assume "i < LENGTH(32)"
  then have i: "i < 32" by simp
  have hi: "\<not> bit a i" if "14 \<le> i" using assms(1) that less_exp_no_bit [of a 14 i] by simp
  have "bit (unat a) 0 = bit a 0" by (simp only: bit_unsigned_iff) simp
  with assms(2) have lo: "\<not> bit a 0" by (metis bit_0)
  consider "i = 0" | "0 < i" "i < 9" | "9 \<le> i" "i < 14" | "14 \<le> i" by linarith
  then show "bit ?l i = bit a i"
    unfolding bit_or_iff bit_and_iff bit_push_bit_iff bit_unsigned_iff bit_drop_bit_eq bit_mask_iff
    using i hi lo by cases auto
qed

lemma word_01_address:
  assumes "unat a < 16384" and "even (unat a)"
  shows "LOG_ENTRY_WORD_01_GET_ADDRESS (LOG_ENTRY_MAKE_WORD_01 a v @ zs) = a"
  unfolding LOG_ENTRY_WORD_01_GET_ADDRESS_def LOG_ENTRY_MAKE_WORD_01_def BITMASK_is_mask
  by (simp only: append_Cons One_nat_def nth_Cons_0 nth_Cons_Suc
    word_01_address_bits [OF assms, unfolded One_nat_def])

lemma word_01_value:
  "LOG_ENTRY_WORD_01_GET_VALUE (LOG_ENTRY_MAKE_WORD_01 a v @ zs) = (if v = 0 then 0 else 1)"
  unfolding log_entry_defs BITMASK_is_mask
  by (rule bit_word_eqI) (auto simp: bit_simps)

end
