(* ===== verification/WearLeveling.thy ===== *)
theory WearLeveling
  imports WlCodec
begin

text \<open>
  The wear-leveling engine of quantum/wear_leveling/wear_leveling.c: the cache, the locking
  helpers, consolidation, the append path of the write log and its playback.

  A \<open>backing_store_int_t\<close> is represented by its memory image, \<open>ws_bytes ws\<close> bytes, and the union
  \<open>write_log_entry_t\<close> by the bytes stored into it so far; this is independent of the byte order
  of the processor except for the 64-bit checksum, for which the little-endian order of the
  ARM targets is fixed. Reading bytes that were never stored, or a copy that leaves its array,
  is undefined behaviour in C and the result \<open>None\<close> here, as is a halt of the system in the
  device's initialisation.
\<close>

section \<open>Configuration, driver and state\<close>

record wl_cfg =
  BACKING_STORE_WRITE_SIZE :: write_size
  WEAR_LEVELING_BACKING_SIZE :: nat
  WEAR_LEVELING_LOGICAL_SIZE :: nat

abbreviation wsz :: "wl_cfg \<Rightarrow> nat" where
  "wsz cfg \<equiv> ws_bytes (BACKING_STORE_WRITE_SIZE cfg)"

text \<open>The functions of the Backing Store API, over the state \<open>'s\<close> of the device.\<close>

record 's bs_driver =
  backing_store_init :: "'s \<Rightarrow> (bool \<times> 's) option"
  backing_store_unlock :: "'s \<Rightarrow> bool \<times> 's"
  backing_store_erase :: "'s \<Rightarrow> bool \<times> 's"
  backing_store_write :: "nat \<Rightarrow> u8 list \<Rightarrow> 's \<Rightarrow> bool \<times> 's"
  backing_store_lock :: "'s \<Rightarrow> bool \<times> 's"
  backing_store_read :: "nat \<Rightarrow> 's \<Rightarrow> (bool \<times> u8 list) \<times> 's"

record 's wear_leveling =
  cache :: "u8 list"
  write_address :: nat
  unlocked :: bool
  store :: 's

datatype wear_leveling_status = WEAR_LEVELING_FAILED | WEAR_LEVELING_SUCCESS
  | WEAR_LEVELING_CONSOLIDATED

datatype backing_store_lock_status = STATUS_FAILURE | STATUS_SUCCESS | STATUS_UNCHANGED

section \<open>Memory\<close>

text \<open>\<open>memcpy\<close> of \<open>bs\<close> into an array at an offset.\<close>

definition mem_put :: "nat \<Rightarrow> u8 list \<Rightarrow> u8 list \<Rightarrow> u8 list" where
  "mem_put a bs mem = take a mem @ bs @ drop (a + length bs) mem"

definition mem_get :: "nat \<Rightarrow> nat \<Rightarrow> u8 list \<Rightarrow> u8 list" where
  "mem_get a n mem = take n (drop a mem)"

definition u64_image :: "u64 \<Rightarrow> u8 list" where
  "u64_image w = map (\<lambda>i. ucast (drop_bit (8 * i) w)) [0..<8]"

section \<open>Locking helpers\<close>

definition wear_leveling_unlock ::
  "'s bs_driver \<Rightarrow> 's wear_leveling \<Rightarrow> backing_store_lock_status \<times> 's wear_leveling" where
  "wear_leveling_unlock drv w =
     (if unlocked w then (STATUS_UNCHANGED, w)
      else case backing_store_unlock drv (store w) of (ok, s) \<Rightarrow>
        if \<not> ok then (STATUS_FAILURE, w\<lparr>store := s\<rparr>)
        else (STATUS_SUCCESS, w\<lparr>unlocked := True, store := s\<rparr>))"

definition wear_leveling_lock ::
  "'s bs_driver \<Rightarrow> 's wear_leveling \<Rightarrow> backing_store_lock_status \<times> 's wear_leveling" where
  "wear_leveling_lock drv w =
     (if \<not> unlocked w then (STATUS_UNCHANGED, w)
      else case backing_store_lock drv (store w) of (ok, s) \<Rightarrow>
        if \<not> ok then (STATUS_FAILURE, w\<lparr>store := s\<rparr>)
        else (STATUS_SUCCESS, w\<lparr>unlocked := False, store := s\<rparr>))"

section \<open>Bulk access\<close>

text \<open>The weak implementations: item by item, stopping at the first failure. A read returns the
  bytes stored into the buffer, the failing item's included.\<close>

fun backing_store_read_bulk ::
  "wl_cfg \<Rightarrow> 's bs_driver \<Rightarrow> nat \<Rightarrow> nat \<Rightarrow> 's \<Rightarrow> (bool \<times> u8 list) \<times> 's" where
  "backing_store_read_bulk cfg drv address 0 s = ((True, []), s)"
| "backing_store_read_bulk cfg drv address (Suc n) s =
     (case backing_store_read drv address s of ((ok, v), s) \<Rightarrow>
        if \<not> ok then ((False, v), s)
        else case backing_store_read_bulk cfg drv (address + wsz cfg) n s of ((ok, vs), s) \<Rightarrow>
          ((ok, v @ vs), s))"

fun backing_store_write_bulk ::
  "wl_cfg \<Rightarrow> 's bs_driver \<Rightarrow> nat \<Rightarrow> u8 list \<Rightarrow> nat \<Rightarrow> 's \<Rightarrow> bool \<times> 's" where
  "backing_store_write_bulk cfg drv address values 0 s = (True, s)"
| "backing_store_write_bulk cfg drv address values (Suc n) s =
     (case backing_store_write drv address (take (wsz cfg) values) s of (ok, s) \<Rightarrow>
        if \<not> ok then (False, s)
        else backing_store_write_bulk cfg drv (address + wsz cfg) (drop (wsz cfg) values) n s)"

section \<open>Consolidated data\<close>

definition wear_leveling_clear_cache :: "wl_cfg \<Rightarrow> 's wear_leveling \<Rightarrow> 's wear_leveling" where
  "wear_leveling_clear_cache cfg w =
     w\<lparr>cache := replicate (WEAR_LEVELING_LOGICAL_SIZE cfg) 0,
       write_address := WEAR_LEVELING_LOGICAL_SIZE cfg + 8\<rparr>"

text \<open>The checksum is read with 4, 2 or 1 items; a driver failure there is not checked and leaves
  part of the entry unset.\<close>

definition wear_leveling_read_consolidated ::
  "wl_cfg \<Rightarrow> 's bs_driver \<Rightarrow> 's wear_leveling
    \<Rightarrow> (wear_leveling_status \<times> 's wear_leveling) option" where
  "wear_leveling_read_consolidated cfg drv w =
     (case backing_store_read_bulk cfg drv 0 (length (cache w) div wsz cfg) (store w) of
        ((ok, bytes), s) \<Rightarrow>
        let w = w\<lparr>cache := mem_put 0 bytes (cache w), store := s\<rparr>
        in if ok
           then let expected = fnv_64a_buf (cache w) FNV1A_64_INIT
                in case backing_store_read_bulk cfg drv (WEAR_LEVELING_LOGICAL_SIZE cfg)
                          (8 div wsz cfg) (store w) of
                  ((_, entry), s) \<Rightarrow>
                    let w = w\<lparr>store := s\<rparr>
                    in if length entry \<noteq> 8 then None
                       else if entry = u64_image expected then Some (WEAR_LEVELING_SUCCESS, w)
                       else Some (WEAR_LEVELING_SUCCESS, wear_leveling_clear_cache cfg w)
           else Some (WEAR_LEVELING_FAILED, wear_leveling_clear_cache cfg w))"

definition wear_leveling_write_consolidated ::
  "wl_cfg \<Rightarrow> 's bs_driver \<Rightarrow> 's wear_leveling \<Rightarrow> wear_leveling_status \<times> 's wear_leveling" where
  "wear_leveling_write_consolidated cfg drv w =
     (case wear_leveling_unlock drv w of (lock_status, w) \<Rightarrow>
      case backing_store_write_bulk cfg drv 0 (cache w) (length (cache w) div wsz cfg) (store w) of
        (ok, s) \<Rightarrow>
      let w = w\<lparr>store := s\<rparr>;
          (status, w) =
            (if \<not> ok then (WEAR_LEVELING_FAILED, w)
             else case backing_store_write_bulk cfg drv (WEAR_LEVELING_LOGICAL_SIZE cfg)
                      (u64_image (fnv_64a_buf (cache w) FNV1A_64_INIT)) (8 div wsz cfg) (store w) of
                (ok, s) \<Rightarrow>
                  (if ok then WEAR_LEVELING_CONSOLIDATED else WEAR_LEVELING_FAILED, w\<lparr>store := s\<rparr>))
      in if lock_status = STATUS_SUCCESS
         then (status, snd (wear_leveling_lock drv w))
         else (status, w))"

definition wear_leveling_consolidate_force ::
  "wl_cfg \<Rightarrow> 's bs_driver \<Rightarrow> 's wear_leveling \<Rightarrow> wear_leveling_status \<times> 's wear_leveling" where
  "wear_leveling_consolidate_force cfg drv w =
     (case backing_store_erase drv (store w) of (ok, s) \<Rightarrow>
      let w = w\<lparr>store := s\<rparr>
      in if \<not> ok then (WEAR_LEVELING_FAILED, w)
         else case wear_leveling_write_consolidated cfg drv w of (status, w) \<Rightarrow>
           (status, w\<lparr>write_address := WEAR_LEVELING_LOGICAL_SIZE cfg + 8\<rparr>))"

definition wear_leveling_consolidate_if_needed ::
  "wl_cfg \<Rightarrow> 's bs_driver \<Rightarrow> 's wear_leveling \<Rightarrow> wear_leveling_status \<times> 's wear_leveling" where
  "wear_leveling_consolidate_if_needed cfg drv w =
     (if WEAR_LEVELING_BACKING_SIZE cfg \<le> write_address w
      then wear_leveling_consolidate_force cfg drv w
      else (WEAR_LEVELING_SUCCESS, w))"

section \<open>Appending to the log\<close>

definition wear_leveling_append_raw ::
  "wl_cfg \<Rightarrow> 's bs_driver \<Rightarrow> u8 list \<Rightarrow> 's wear_leveling
    \<Rightarrow> wear_leveling_status \<times> 's wear_leveling" where
  "wear_leveling_append_raw cfg drv value w =
     (case backing_store_write drv (write_address w) value (store w) of (ok, s) \<Rightarrow>
      let w = w\<lparr>store := s\<rparr>
      in if \<not> ok then (WEAR_LEVELING_FAILED, w)
         else wear_leveling_consolidate_if_needed cfg drv
                (w\<lparr>write_address := write_address w + wsz cfg\<rparr>))"

text \<open>A sequence of appends, each returning early unless it reports plain success.\<close>

fun append_items ::
  "wl_cfg \<Rightarrow> 's bs_driver \<Rightarrow> u8 list list \<Rightarrow> 's wear_leveling
    \<Rightarrow> wear_leveling_status \<times> 's wear_leveling" where
  "append_items cfg drv [] w = (WEAR_LEVELING_SUCCESS, w)"
| "append_items cfg drv (v # vs) w =
     (case wear_leveling_append_raw cfg drv v w of (status, w) \<Rightarrow>
        if status \<noteq> WEAR_LEVELING_SUCCESS then (status, w) else append_items cfg drv vs w)"

text \<open>Item \<open>i\<close> of the union at the backing-store width.\<close>

definition raw_item :: "nat \<Rightarrow> nat \<Rightarrow> u8 list \<Rightarrow> u8 list" where
  "raw_item sz i log = mem_get (i * sz) sz log"

text \<open>The items of a multi-byte entry that are written: the second half only for longer data.\<close>

fun multibyte_items :: "write_size \<Rightarrow> nat \<Rightarrow> u8 list \<Rightarrow> u8 list list" where
  "multibyte_items WS2 len log =
     [raw_item 2 0 log, raw_item 2 1 log] @ (if 1 < len then [raw_item 2 2 log] else [])
       @ (if 3 < len then [raw_item 2 3 log] else [])"
| "multibyte_items WS4 len log =
     [raw_item 4 0 log] @ (if 1 < len then [raw_item 4 1 log] else [])"
| "multibyte_items WS8 len log = [raw_item 8 0 log]"

definition wear_leveling_write_raw_multibyte ::
  "wl_cfg \<Rightarrow> 's bs_driver \<Rightarrow> u32 \<Rightarrow> u8 list \<Rightarrow> 's wear_leveling
    \<Rightarrow> wear_leveling_status \<times> 's wear_leveling" where
  "wear_leveling_write_raw_multibyte cfg drv address p w =
     (let log = mem_put 3 p (LOG_ENTRY_MAKE_MULTIBYTE address (length p))
      in append_items cfg drv (multibyte_items (BACKING_STORE_WRITE_SIZE cfg) (length p) log) w)"

function wear_leveling_write_raw ::
  "wl_cfg \<Rightarrow> 's bs_driver \<Rightarrow> u32 \<Rightarrow> u8 list \<Rightarrow> 's wear_leveling
    \<Rightarrow> wear_leveling_status \<times> 's wear_leveling" where
  "wear_leveling_write_raw cfg drv address p w =
     (if p = [] then (WEAR_LEVELING_SUCCESS, w)
      else let remaining = length p;
               v = (if 2 \<le> remaining then push_bit 8 (ucast (p ! 1)) OR ucast (p ! 0) else 0) :: u16
      in if BACKING_STORE_WRITE_SIZE cfg = WS2 \<and> 2 \<le> remaining \<and> unat address mod 2 = 0
              \<and> unat address < 16384 \<and> (v = 0 \<or> v = 1)
         then case wear_leveling_append_raw cfg drv
                     (raw_item 2 0 (LOG_ENTRY_MAKE_WORD_01 address v)) w of (status, w) \<Rightarrow>
           if status \<noteq> WEAR_LEVELING_SUCCESS then (status, w)
           else wear_leveling_write_raw cfg drv (address + 2) (drop 2 p) w
         else if BACKING_STORE_WRITE_SIZE cfg = WS2 \<and> unat address < 64
         then case wear_leveling_append_raw cfg drv
                     (raw_item 2 0 (LOG_ENTRY_MAKE_OPTIMIZED_64 address (p ! 0))) w of (status, w) \<Rightarrow>
           if status \<noteq> WEAR_LEVELING_SUCCESS then (status, w)
           else wear_leveling_write_raw cfg drv (address + 1) (drop 1 p) w
         else let this_length = (if LOG_ENTRY_MULTIBYTE_MAX_BYTES \<le> remaining
                                 then LOG_ENTRY_MULTIBYTE_MAX_BYTES else remaining)
         in case wear_leveling_write_raw_multibyte cfg drv address (take this_length p) w of
              (status, w) \<Rightarrow>
           if status \<noteq> WEAR_LEVELING_SUCCESS then (status, w)
           else wear_leveling_write_raw cfg drv (address + of_nat this_length)
                  (drop this_length p) w)"
  by pat_completeness auto
termination
  by (relation "measure (\<lambda>(cfg, drv, address, p, w). length p)")
    (auto simp: LOG_ENTRY_MULTIBYTE_MAX_BYTES_def)

declare wear_leveling_write_raw.simps [simp del]

section \<open>Playback of the log\<close>

text \<open>Reading the remaining items of a multi-byte entry into the union: the flags say which items
  the entry's length asks for. The result carries whether all reads succeeded, the bytes of the
  union, and the address behind the entry.\<close>

fun read_items ::
  "wl_cfg \<Rightarrow> 's bs_driver \<Rightarrow> bool list \<Rightarrow> nat \<Rightarrow> u8 list \<Rightarrow> 's
    \<Rightarrow> bool \<times> u8 list \<times> nat \<times> 's" where
  "read_items cfg drv [] address log s = (True, log, address, s)"
| "read_items cfg drv (wanted # rest) address log s =
     (if wanted
      then case backing_store_read drv address s of ((ok, v), s) \<Rightarrow>
        if \<not> ok then (False, log @ v, address, s)
        else read_items cfg drv rest (address + wsz cfg) (log @ v) s
      else read_items cfg drv rest address log s)"

text \<open>Items read before the address and length are looked at, and after.\<close>

fun header_items :: "write_size \<Rightarrow> bool list" where
  "header_items WS2 = [True]"
| "header_items WS4 = []"
| "header_items WS8 = []"

fun value_items :: "write_size \<Rightarrow> nat \<Rightarrow> bool list" where
  "value_items WS2 l = [1 < l, 3 < l]"
| "value_items WS4 l = [1 < l]"
| "value_items WS8 l = []"

datatype 's playback_result =
  Playback_undefined
| Playback_failed nat "'s wear_leveling"
| Playback_continue nat "'s wear_leveling"

text \<open>The body of the switch, for an entry whose first item is \<open>value\<close> and with \<open>address\<close> already
  behind that item.\<close>

definition playback_multibyte ::
  "wl_cfg \<Rightarrow> 's bs_driver \<Rightarrow> nat \<Rightarrow> u8 list \<Rightarrow> 's wear_leveling \<Rightarrow> 's playback_result" where
  "playback_multibyte cfg drv address value w =
     (case read_items cfg drv (header_items (BACKING_STORE_WRITE_SIZE cfg)) address value (store w) of
        (ok, log, address, s) \<Rightarrow>
      let w = w\<lparr>store := s\<rparr>
      in if \<not> ok then Playback_failed address w
         else let a = unat (LOG_ENTRY_MULTIBYTE_GET_ADDRESS log);
                  l = unat (LOG_ENTRY_MULTIBYTE_GET_LENGTH log)
         in if WEAR_LEVELING_LOGICAL_SIZE cfg < a + l then Playback_failed address w
            else case read_items cfg drv (value_items (BACKING_STORE_WRITE_SIZE cfg) l) address log
                        (store w) of
              (ok, log, address, s) \<Rightarrow>
              let w = w\<lparr>store := s\<rparr>
              in if \<not> ok then Playback_failed address w
                 else if length log < 3 + l then Playback_undefined
                 else Playback_continue address
                        (w\<lparr>cache := mem_put a (mem_get 3 l log) (cache w)\<rparr>))"

definition playback_entry ::
  "wl_cfg \<Rightarrow> 's bs_driver \<Rightarrow> nat \<Rightarrow> u8 list \<Rightarrow> 's wear_leveling \<Rightarrow> 's playback_result" where
  "playback_entry cfg drv address value w =
     (case LOG_ENTRY_GET_TYPE value of
        LOG_ENTRY_TYPE_MULTIBYTE \<Rightarrow> playback_multibyte cfg drv address value w
      | LOG_ENTRY_TYPE_OPTIMIZED_64 \<Rightarrow>
          if BACKING_STORE_WRITE_SIZE cfg = WS2
          then let a = unat (LOG_ENTRY_OPTIMIZED_64_GET_ADDRESS value);
                   v = LOG_ENTRY_OPTIMIZED_64_GET_VALUE value
               in if WEAR_LEVELING_LOGICAL_SIZE cfg \<le> a then Playback_failed address w
                  else Playback_continue address (w\<lparr>cache := mem_put a [v] (cache w)\<rparr>)
          else Playback_failed address w
      | LOG_ENTRY_TYPE_WORD_01 \<Rightarrow>
          if BACKING_STORE_WRITE_SIZE cfg = WS2
          then let a = unat (LOG_ENTRY_WORD_01_GET_ADDRESS value);
                   v = LOG_ENTRY_WORD_01_GET_VALUE value
               in if WEAR_LEVELING_LOGICAL_SIZE cfg \<le> a + 1 then Playback_failed address w
                  else Playback_continue address (w\<lparr>cache := mem_put a [v, 0] (cache w)\<rparr>)
          else Playback_failed address w
      | LOG_ENTRY_TYPE_INVALID \<Rightarrow> Playback_failed address w)"

lemma read_items_address:
  "fst (snd (snd (read_items cfg drv fs address log s))) \<ge> address"
proof (induction cfg drv fs address log s rule: read_items.induct)
  case (2 cfg drv wanted rest address log s)
  show ?case
  proof (cases wanted)
    case True
    obtain ok v s' where r: "backing_store_read drv address s = ((ok, v), s')"
      by (metis prod.collapse)
    show ?thesis
      using 2(1) [OF True] r True by (cases ok) (auto intro: le_trans [of _ "address + wsz cfg"])
  next
    case False
    then show ?thesis using 2(2) by simp
  qed
qed simp

fun playback_address :: "'s playback_result \<Rightarrow> nat option" where
  "playback_address (Playback_continue address w) = Some address"
| "playback_address _ = None"

lemma read_items_advances:
  "read_items cfg drv fs address log s = (ok, log', address', s') \<Longrightarrow> address \<le> address'"
  using read_items_address [of address cfg drv fs log s] by simp

lemma playback_multibyte_address:
  "playback_address (playback_multibyte cfg drv address raw w) = Some address'
    \<Longrightarrow> address \<le> address'"
  by (auto simp: playback_multibyte_def Let_def split: prod.splits if_splits
      dest!: read_items_advances)

lemma playback_entry_address:
  "playback_entry cfg drv address raw w = Playback_continue address' w' \<Longrightarrow> address \<le> address'"
  using playback_multibyte_address [of cfg drv address raw w address']
  by (auto simp: playback_entry_def Let_def split: log_entry_type.splits if_splits)

lemma playback_entry_advances:
  "playback_entry cfg drv (address + wsz cfg) raw w = Playback_continue address' w'
    \<Longrightarrow> address < address'"
  using playback_entry_address [of cfg drv "address + wsz cfg" raw w address' w']
    ws_bytes_pos [of "BACKING_STORE_WRITE_SIZE cfg"] by linarith

text \<open>The loop over the log.\<close>

function playback_loop ::
  "wl_cfg \<Rightarrow> 's bs_driver \<Rightarrow> nat \<Rightarrow> 's wear_leveling
    \<Rightarrow> (wear_leveling_status \<times> nat \<times> 's wear_leveling) option" where
  "playback_loop cfg drv address w =
     (if \<not> address < WEAR_LEVELING_BACKING_SIZE cfg then Some (WEAR_LEVELING_SUCCESS, address, w)
      else case backing_store_read drv address (store w) of ((ok, value), s) \<Rightarrow>
        let w = w\<lparr>store := s\<rparr>
        in if \<not> ok then Some (WEAR_LEVELING_FAILED, address, w)
           else if list_all (\<lambda>b. b = 0) value then Some (WEAR_LEVELING_SUCCESS, address, w)
           else case playback_entry cfg drv (address + wsz cfg) value w of
             Playback_undefined \<Rightarrow> None
           | Playback_failed address w \<Rightarrow> Some (WEAR_LEVELING_FAILED, address, w)
           | Playback_continue address w \<Rightarrow> playback_loop cfg drv address w)"
  by pat_completeness auto
termination
  by (relation "measure (\<lambda>(cfg, drv, address, w). WEAR_LEVELING_BACKING_SIZE cfg - address)")
    (auto dest!: playback_entry_advances)

declare playback_loop.simps [simp del]

definition wear_leveling_playback_log ::
  "wl_cfg \<Rightarrow> 's bs_driver \<Rightarrow> 's wear_leveling
    \<Rightarrow> (wear_leveling_status \<times> 's wear_leveling) option" where
  "wear_leveling_playback_log cfg drv w =
     (case playback_loop cfg drv (WEAR_LEVELING_LOGICAL_SIZE cfg + 8) w of
        None \<Rightarrow> None
      | Some (status, address, w) \<Rightarrow>
          let w = w\<lparr>write_address := address\<rparr>
          in Some (if status = WEAR_LEVELING_FAILED
                   then wear_leveling_consolidate_force cfg drv w
                   else wear_leveling_consolidate_if_needed cfg drv w))"

section \<open>The public functions\<close>

definition wear_leveling_init ::
  "wl_cfg \<Rightarrow> 's bs_driver \<Rightarrow> 's wear_leveling
    \<Rightarrow> (wear_leveling_status \<times> 's wear_leveling) option" where
  "wear_leveling_init cfg drv w =
     (let w = wear_leveling_clear_cache cfg w
      in case backing_store_init drv (store w) of None \<Rightarrow> None | Some (ok, s) \<Rightarrow>
        let w = w\<lparr>store := s\<rparr>
        in if \<not> ok then Some (WEAR_LEVELING_FAILED, wear_leveling_clear_cache cfg w)
           else case wear_leveling_read_consolidated cfg drv w of
             None \<Rightarrow> None
           | Some (status, w) \<Rightarrow>
               if status = WEAR_LEVELING_FAILED
               then Some (status, wear_leveling_clear_cache cfg w)
               else case wear_leveling_playback_log cfg drv w of
                 None \<Rightarrow> None
               | Some (status, w) \<Rightarrow>
                   if status = WEAR_LEVELING_FAILED
                   then Some (status, wear_leveling_clear_cache cfg w)
                   else Some (status, w))"

definition wear_leveling_erase ::
  "wl_cfg \<Rightarrow> 's bs_driver \<Rightarrow> 's wear_leveling \<Rightarrow> wear_leveling_status \<times> 's wear_leveling" where
  "wear_leveling_erase cfg drv w =
     (case wear_leveling_unlock drv w of (lock_status, w) \<Rightarrow>
      if lock_status = STATUS_FAILURE
      then (WEAR_LEVELING_FAILED, snd (wear_leveling_lock drv w))
      else case backing_store_erase drv (store w) of (ret, s) \<Rightarrow>
        let w = wear_leveling_clear_cache cfg (w\<lparr>store := s\<rparr>);
            (ret, w) =
              (if lock_status = STATUS_SUCCESS
               then case wear_leveling_lock drv w of (ls, w) \<Rightarrow> (ret \<and> ls \<noteq> STATUS_FAILURE, w)
               else (ret, w))
        in (if ret then WEAR_LEVELING_SUCCESS else WEAR_LEVELING_FAILED, w))"

text \<open>\<open>address + length\<close> is computed in 32 bits, so the bounds check can be passed by a sum that
  wrapped; the comparison with the cache then leaves the array.\<close>

definition wear_leveling_write ::
  "wl_cfg \<Rightarrow> 's bs_driver \<Rightarrow> u32 \<Rightarrow> u8 list \<Rightarrow> 's wear_leveling
    \<Rightarrow> (wear_leveling_status \<times> 's wear_leveling) option" where
  "wear_leveling_write cfg drv address value w =
     (if WEAR_LEVELING_LOGICAL_SIZE cfg < unat (address + of_nat (length value))
      then Some (WEAR_LEVELING_FAILED, w)
      else if length (cache w) < unat address + length value then None
      else if value = mem_get (unat address) (length value) (cache w)
      then Some (WEAR_LEVELING_SUCCESS, w)
      else
        let w = w\<lparr>cache := mem_put (unat address) value (cache w)\<rparr>
        in case wear_leveling_unlock drv w of (lock_status, w) \<Rightarrow>
          if lock_status = STATUS_FAILURE
          then Some (WEAR_LEVELING_FAILED, snd (wear_leveling_lock drv w))
          else
            case wear_leveling_write_raw cfg drv address value w of (status, w) \<Rightarrow>
            let (status, w) =
                  (case status of
                     WEAR_LEVELING_CONSOLIDATED \<Rightarrow> (status, w)
                   | WEAR_LEVELING_FAILED \<Rightarrow> (status, w)
                   | WEAR_LEVELING_SUCCESS \<Rightarrow> wear_leveling_consolidate_if_needed cfg drv w)
            in Some (if lock_status = STATUS_SUCCESS
                     then case wear_leveling_lock drv w of (ls, w) \<Rightarrow>
                       (if ls = STATUS_FAILURE then WEAR_LEVELING_FAILED else status, w)
                     else (status, w)))"

definition wear_leveling_read ::
  "wl_cfg \<Rightarrow> u32 \<Rightarrow> nat \<Rightarrow> 's wear_leveling \<Rightarrow> (wear_leveling_status \<times> u8 list) option" where
  "wear_leveling_read cfg address len w =
     (if WEAR_LEVELING_LOGICAL_SIZE cfg < unat (address + of_nat len)
      then Some (WEAR_LEVELING_FAILED, [])
      else if length (cache w) < unat address + len then None
      else Some (WEAR_LEVELING_SUCCESS, mem_get (unat address) len (cache w)))"

end
