(* ===== verification/WlLog.thy ===== *)
theory WlLog
  imports WearLeveling
begin

text \<open>
  The write log of the wear-leveling engine as a list of entries: what one entry means for the
  logical data, which entries a write produces, that appending a list of items is the sequence
  of the appends, and that every entry the code can write is decoded to its meaning.
\<close>

section \<open>Memory\<close>

lemma length_mem_put [length_simps]:
  "a + length bs \<le> length mem \<Longrightarrow> length (mem_put a bs mem) = length mem"
  by (simp add: mem_put_def)

lemma length_mem_get [length_simps]:
  "a + n \<le> length mem \<Longrightarrow> length (mem_get a n mem) = n"
  by (simp add: mem_get_def)

lemma mem_get_put_same:
  "a + length bs \<le> length mem \<Longrightarrow> mem_get a (length bs) (mem_put a bs mem) = bs"
  by (simp add: mem_get_def mem_put_def)

lemma mem_put_nth:
  assumes "a + length bs \<le> length mem" and "i < length mem"
  shows "mem_put a bs mem ! i = (if a \<le> i \<and> i < a + length bs then bs ! (i - a) else mem ! i)"
  using assms by (auto simp: mem_put_def nth_append min_def)

lemma mem_get_nth: "a + n \<le> length xs \<Longrightarrow> i < n \<Longrightarrow> mem_get a n xs ! i = xs ! (a + i)"
  by (simp add: mem_get_def)

lemma mem_put_put:
  assumes "a + length (xs @ ys) \<le> length mem"
  shows "mem_put (a + length xs) ys (mem_put a xs mem) = mem_put a (xs @ ys) mem"
  using assms by (simp add: mem_put_def add.commute add.left_commute)

lemma mem_put_unchanged:
  "a + n \<le> length mem \<Longrightarrow> mem_put a (mem_get a n mem) mem = mem"
  by (auto simp: mem_put_def mem_get_def min_def)
    (metis add.commute append_take_drop_id drop_drop take_add append_assoc)

lemma mem_put_append: "mem_put (length xs) v (xs @ ys) = xs @ v @ drop (length v) ys"
  by (simp add: mem_put_def)

lemma mem_put_Nil: "mem_put a [] mem = mem"
  by (simp add: mem_put_def)

lemma mem_get_append:
  "mem_get (length xs) n (xs @ ys) = take n ys"
  by (simp add: mem_get_def)

section \<open>Entries\<close>

datatype log_entry =
  Multibyte u32 "u8 list"
| Optimized_64 u32 u8
| Word_01 u32 u16

fun entry_items :: "write_size \<Rightarrow> log_entry \<Rightarrow> u8 list list" where
  "entry_items ws (Multibyte a p) =
     multibyte_items ws (length p) (mem_put 3 p (LOG_ENTRY_MAKE_MULTIBYTE a (length p)))"
| "entry_items ws (Optimized_64 a v) = [raw_item 2 0 (LOG_ENTRY_MAKE_OPTIMIZED_64 a v)]"
| "entry_items ws (Word_01 a v) = [raw_item 2 0 (LOG_ENTRY_MAKE_WORD_01 a v)]"

text \<open>The meaning of an entry: what it does to the logical data.\<close>

fun entry_apply :: "log_entry \<Rightarrow> u8 list \<Rightarrow> u8 list" where
  "entry_apply (Multibyte a p) = mem_put (unat a) p"
| "entry_apply (Optimized_64 a v) = mem_put (unat a) [v]"
| "entry_apply (Word_01 a v) = mem_put (unat a) [if v = 0 then 0 else 1, 0]"

fun entry_ok :: "wl_cfg \<Rightarrow> log_entry \<Rightarrow> bool" where
  "entry_ok cfg (Multibyte a p) =
     (p \<noteq> [] \<and> length p \<le> 5 \<and> unat a < 2 ^ 19
        \<and> unat a + length p \<le> WEAR_LEVELING_LOGICAL_SIZE cfg)"
| "entry_ok cfg (Optimized_64 a v) =
     (BACKING_STORE_WRITE_SIZE cfg = WS2 \<and> unat a < 64 \<and> unat a < WEAR_LEVELING_LOGICAL_SIZE cfg)"
| "entry_ok cfg (Word_01 a v) =
     (BACKING_STORE_WRITE_SIZE cfg = WS2 \<and> unat a < 16384 \<and> even (unat a)
        \<and> unat a + 1 < WEAR_LEVELING_LOGICAL_SIZE cfg)"

text \<open>The entries a write of \<open>p\<close> at \<open>a\<close> produces.\<close>

function log_entries :: "write_size \<Rightarrow> u32 \<Rightarrow> u8 list \<Rightarrow> log_entry list" where
  "log_entries ws a p =
     (if p = [] then []
      else let v = (if 2 \<le> length p then push_bit 8 (ucast (p ! 1)) OR ucast (p ! 0) else 0) :: u16
      in if ws = WS2 \<and> 2 \<le> length p \<and> unat a mod 2 = 0 \<and> unat a < 16384 \<and> (v = 0 \<or> v = 1)
         then Word_01 a v # log_entries ws (a + 2) (drop 2 p)
         else if ws = WS2 \<and> unat a < 64
         then Optimized_64 a (p ! 0) # log_entries ws (a + 1) (drop 1 p)
         else let n = (if 5 \<le> length p then 5 else length p)
              in Multibyte a (take n p) # log_entries ws (a + of_nat n) (drop n p))"
  by pat_completeness auto
termination
  by (relation "measure (\<lambda>(ws, a, p). length p)") auto

declare log_entries.simps [simp del]

section \<open>A write is the sequence of its items\<close>

lemma append_items_append:
  "append_items cfg drv (xs @ ys) w =
     (case append_items cfg drv xs w of (status, w') \<Rightarrow>
        if status \<noteq> WEAR_LEVELING_SUCCESS then (status, w') else append_items cfg drv ys w')"
  by (induction xs arbitrary: w) (auto split: prod.splits)

lemma append_items_single:
  "append_items cfg drv [v] w = wear_leveling_append_raw cfg drv v w"
  by (auto split: prod.splits)

text \<open>The three forms of the loop body.\<close>

lemma u16_bytes:
  "ucast (push_bit 8 (ucast y) OR ucast x :: u16) = (x :: u8)"
  "ucast (drop_bit 8 (push_bit 8 (ucast y) OR ucast x :: u16)) = (y :: u8)"
  by (rule bit_word_eqI; auto simp: bit_simps dest: bit_u8_iff_less)+

lemma u16_value_cases:
  "(push_bit 8 (ucast (y :: u8)) OR ucast (x :: u8) :: u16) = 0 \<longleftrightarrow> y = 0 \<and> x = 0"
  "(push_bit 8 (ucast (y :: u8)) OR ucast (x :: u8) :: u16) = 1 \<longleftrightarrow> y = 0 \<and> x = 1"
proof -
  have "y = 0" if "(push_bit 8 (ucast y) OR ucast x :: u16) = 1"
    using u16_bytes(2) [of y x] unfolding that by simp
  moreover have "y = 0" if "(push_bit 8 (ucast y) OR ucast x :: u16) = 0"
    using u16_bytes(2) [of y x] unfolding that by simp
  moreover have "x = 1" if "(push_bit 8 (ucast y) OR ucast x :: u16) = 1"
    using u16_bytes(1) [of y x] unfolding that by simp
  moreover have "x = 0" if "(push_bit 8 (ucast y) OR ucast x :: u16) = 0"
    using u16_bytes(1) [of y x] unfolding that by simp
  ultimately show "(push_bit 8 (ucast y) OR ucast x :: u16) = 0 \<longleftrightarrow> y = 0 \<and> x = 0"
    and "(push_bit 8 (ucast y) OR ucast x :: u16) = 1 \<longleftrightarrow> y = 0 \<and> x = 1"
    by auto
qed

definition word_01_form :: "write_size \<Rightarrow> u32 \<Rightarrow> u8 list \<Rightarrow> bool" where
  "word_01_form ws a p \<longleftrightarrow>
     ws = WS2 \<and> 2 \<le> length p \<and> unat a mod 2 = 0 \<and> unat a < 16384
       \<and> p ! 1 = 0 \<and> (p ! 0 = 0 \<or> p ! 0 = 1)"

text \<open>The code's test, and the value it passes on.\<close>

definition word_of :: "u8 list \<Rightarrow> u16" where
  "word_of p = (if 2 \<le> length p then push_bit 8 (ucast (p ! 1)) OR ucast (p ! 0) else 0)"

lemma word_01_form_iff:
  "ws = WS2 \<and> 2 \<le> length p \<and> unat a mod 2 = 0 \<and> unat a < 16384 \<and> (word_of p = 0 \<or> word_of p = 1)
     \<longleftrightarrow> word_01_form ws a p"
  by (cases "2 \<le> length p")
    (simp_all only: word_of_def word_01_form_def u16_value_cases if_True if_False simp_thms, blast)

lemma log_entries_eq:
  "log_entries ws a p =
     (if p = [] then []
      else if word_01_form ws a p
      then Word_01 a (word_of p) # log_entries ws (a + 2) (drop 2 p)
      else if ws = WS2 \<and> unat a < 64
      then Optimized_64 a (p ! 0) # log_entries ws (a + 1) (drop 1 p)
      else Multibyte a (take (min 5 (length p)) p)
             # log_entries ws (a + of_nat (min 5 (length p))) (drop (min 5 (length p)) p))"
  by (subst log_entries.simps)
    (simp only: Let_def word_of_def [symmetric] word_01_form_iff min_def)

lemma write_raw_eq:
  "wear_leveling_write_raw cfg drv a p w =
     (if p = [] then (WEAR_LEVELING_SUCCESS, w)
      else case (if word_01_form (BACKING_STORE_WRITE_SIZE cfg) a p then (Word_01 a (word_of p), 2)
                 else if BACKING_STORE_WRITE_SIZE cfg = WS2 \<and> unat a < 64
                 then (Optimized_64 a (p ! 0), 1)
                 else (Multibyte a (take (min 5 (length p)) p), min 5 (length p))) of (e, n) \<Rightarrow>
        case append_items cfg drv (entry_items (BACKING_STORE_WRITE_SIZE cfg) e) w of
          (status, w) \<Rightarrow>
            if status \<noteq> WEAR_LEVELING_SUCCESS then (status, w)
            else wear_leveling_write_raw cfg drv (a + of_nat n) (drop n p) w)"
proof (cases "p = []")
  case False
  then show ?thesis
    by (subst wear_leveling_write_raw.simps)
      (simp only: Let_def word_of_def [symmetric] word_01_form_iff [where ws =
          "BACKING_STORE_WRITE_SIZE cfg"] min_def LOG_ENTRY_MULTIBYTE_MAX_BYTES_def
        wear_leveling_write_raw_multibyte_def entry_items.simps append_items_single
        prod.case if_distrib [where f = "case_prod f" for f] of_nat_numeral of_nat_1 if_False
        if_cancel split: if_split)
qed (simp add: wear_leveling_write_raw.simps)

lemma write_raw_is_append_items:
  "wear_leveling_write_raw cfg drv a p w =
     append_items cfg drv (concat (map (entry_items (BACKING_STORE_WRITE_SIZE cfg))
       (log_entries (BACKING_STORE_WRITE_SIZE cfg) a p))) w"
proof (induction "length p" arbitrary: a p w rule: less_induct)
  case less
  let ?ws = "BACKING_STORE_WRITE_SIZE cfg"
  have IH: "wear_leveling_write_raw cfg drv a' (drop (Suc n) p) w' =
      append_items cfg drv (concat (map (entry_items ?ws) (log_entries ?ws a' (drop (Suc n) p)))) w'"
    if "p \<noteq> []" for a' n w'
    by (rule less) (use that in auto)
  have k: "p \<noteq> [] \<Longrightarrow> min 5 (length p) = Suc (min 5 (length p) - 1)" by auto
  show ?case
  proof (cases "p = []")
    case True
    then show ?thesis by (subst write_raw_eq, subst log_entries_eq) simp
  next
    case False
    have "drop (min 5 (length p)) p = drop (Suc (min 5 (length p) - 1)) p" using k [OF False] by simp
    note IH' = IH [OF False, where n = "min 5 (length p) - 1", folded this]
      IH [OF False, where n = "Suc 0", folded numeral_2_eq_2] IH [OF False, where n = 0]
    show ?thesis
      by (subst write_raw_eq, subst log_entries_eq)
        (simp add: append_items_append IH' False split: prod.split
          del: entry_items.simps append_items.simps)
  qed
qed

section \<open>What the entries mean\<close>

lemma unat_add_small:
  assumes "unat (a :: u32) + n \<le> 2 ^ 19"
  shows "unat (a + of_nat n) = unat a + n"
proof -
  have "n < 2 ^ LENGTH(32)" and "unat a + n < 2 ^ LENGTH(32)" using assms by simp_all
  then show ?thesis by (simp add: unat_word_ariths(1) unat_of_nat)
qed

lemma log_entries_ok:
  assumes "unat a + length p \<le> WEAR_LEVELING_LOGICAL_SIZE cfg"
    and "WEAR_LEVELING_LOGICAL_SIZE cfg \<le> 2 ^ 19"
  shows "list_all (entry_ok cfg) (log_entries (BACKING_STORE_WRITE_SIZE cfg) a p)"
  using assms(1)
proof (induction "length p" arbitrary: a p rule: less_induct)
  case less
  let ?n = "min 5 (length p)"
  have step: "list_all (entry_ok cfg)
      (log_entries (BACKING_STORE_WRITE_SIZE cfg) (a + of_nat n) (drop n p))"
    if "0 < n" "n \<le> length p" for n
    using less(2) assms(2) that unat_add_small [of a n] by (intro less(1)) auto
  show ?case
  proof (cases "p = []")
    case False
    then have "1 \<le> length p" by (cases p) auto
    then show ?thesis
      using step [of 1] step [of 2] step [of ?n] less(2) assms(2)
      by (subst log_entries_eq) (auto simp: word_01_form_def even_iff_mod_2_eq_zero)
  qed (simp add: log_entries_eq)
qed

lemma word_of_01:
  "word_01_form ws a p \<Longrightarrow> [if word_of p = 0 then 0 else 1, 0] = take 2 p"
  by (cases p; cases "tl p") (auto simp: word_01_form_def word_of_def)

lemma log_entries_apply:
  assumes "unat a + length p \<le> length c" and "length c \<le> 2 ^ 19"
  shows "fold entry_apply (log_entries ws a p) c = mem_put (unat a) p c"
  using assms
proof (induction "length p" arbitrary: a p c rule: less_induct)
  case less
  let ?n = "min 5 (length p)"
  have step: "fold entry_apply (log_entries ws (a + of_nat n) (drop n p))
      (mem_put (unat a) (take n p) c) = mem_put (unat a) p c"
    if "0 < n" "n \<le> length p" for n
  proof -
    have u: "unat (a + of_nat n) = unat a + n" using that less(2,3) by (intro unat_add_small) simp
    have "fold entry_apply (log_entries ws (a + of_nat n) (drop n p))
        (mem_put (unat a) (take n p) c)
        = mem_put (unat a + n) (drop n p) (mem_put (unat a) (take n p) c)"
      unfolding u [symmetric] using that less(2,3) u by (intro less(1)) (auto simp: length_simps)
    also have "\<dots> = mem_put (unat a) p c"
      using mem_put_put [of "unat a" "take n p" "drop n p" c] that less(2)
      by (simp add: min_absorb2)
    finally show ?thesis .
  qed
  show ?case
  proof (cases "p = []")
    case True
    then show ?thesis by (simp add: mem_put_Nil log_entries_eq)
  next
    case False
    then have l: "1 \<le> length p" and one: "take 1 p = [p ! 0]" by (cases p; auto)+
    have two: "word_01_form ws a p \<Longrightarrow> 2 \<le> length p" by (simp add: word_01_form_def)
    show ?thesis
      using step [of 1] step [of 2] step [of ?n] l two False
      by (subst log_entries_eq) (auto simp: word_of_01 one [simplified])
  qed
qed

section \<open>Items and their decoding\<close>

definition entry_bytes :: "write_size \<Rightarrow> log_entry \<Rightarrow> u8 list" where
  "entry_bytes ws e = concat (entry_items ws e)"

lemma multibyte_header:
  obtains b0 b1 b2 where "LOG_ENTRY_MAKE_MULTIBYTE a l = [b0, b1, b2, 0, 0, 0, 0, 0]"
  by (simp add: LOG_ENTRY_MAKE_MULTIBYTE_def)

lemma length_make_multibyte [length_simps]: "length (LOG_ENTRY_MAKE_MULTIBYTE a l) = 8"
  by (simp add: LOG_ENTRY_MAKE_MULTIBYTE_def)

lemma multibyte_image:
  "mem_put 3 p (LOG_ENTRY_MAKE_MULTIBYTE a l)
     = take 3 (LOG_ENTRY_MAKE_MULTIBYTE a l) @ p @ replicate (5 - length p) 0"
proof -
  have "drop 3 (LOG_ENTRY_MAKE_MULTIBYTE a l) = replicate 5 0"
    by (simp add: LOG_ENTRY_MAKE_MULTIBYTE_def numeral_eq_Suc)
  then have "drop (3 + length p) (LOG_ENTRY_MAKE_MULTIBYTE a l) = replicate (5 - length p) 0"
    by (metis drop_drop add.commute drop_replicate)
  then show ?thesis by (simp add: mem_put_def)
qed

definition multibyte_size :: "write_size \<Rightarrow> nat \<Rightarrow> nat" where
  "multibyte_size ws l = ws_bytes ws * (1 + length (filter (\<lambda>f. f) (header_items ws @ value_items ws l)))"

lemma multibyte_size_bounds:
  "1 \<le> l \<Longrightarrow> l \<le> 5 \<Longrightarrow> 3 + l \<le> multibyte_size ws l \<and> multibyte_size ws l \<le> 8"
  by (cases ws) (auto simp: multibyte_size_def)

lemma multibyte_items_concat:
  assumes "length full = 8" and "1 \<le> l" and "l \<le> 5"
  shows "concat (multibyte_items ws l full) = take (multibyte_size ws l) full"
    and "list_all (\<lambda>b. length b = ws_bytes ws) (multibyte_items ws l full)"
    and "multibyte_items ws l full \<noteq> [] \<and> hd (multibyte_items ws l full) = take (ws_bytes ws) full"
proof -
  obtain a b c d e f g h where "full = [a, b, c, d, e, f, g, h]"
    using assms(1) by (auto simp: length_Suc_conv numeral_eq_Suc)
  then show "concat (multibyte_items ws l full) = take (multibyte_size ws l) full"
    and "list_all (\<lambda>b. length b = ws_bytes ws) (multibyte_items ws l full)"
    and "multibyte_items ws l full \<noteq> [] \<and> hd (multibyte_items ws l full) = take (ws_bytes ws) full"
    using assms(2,3) by (cases ws; auto simp: multibyte_size_def raw_item_def mem_get_def)+
qed

lemma getters_cong:
  assumes "take 3 xs = take 3 ys" and "3 \<le> length xs" and "3 \<le> length ys"
  shows "LOG_ENTRY_MULTIBYTE_GET_ADDRESS xs = LOG_ENTRY_MULTIBYTE_GET_ADDRESS ys"
    and "LOG_ENTRY_MULTIBYTE_GET_LENGTH xs = LOG_ENTRY_MULTIBYTE_GET_LENGTH ys"
proof -
  have "xs ! i = ys ! i" if "i < 3" for i
    using assms that by (metis nth_take)
  from this [of 0] this [of 1] this [of 2]
  show "LOG_ENTRY_MULTIBYTE_GET_ADDRESS xs = LOG_ENTRY_MULTIBYTE_GET_ADDRESS ys"
    and "LOG_ENTRY_MULTIBYTE_GET_LENGTH xs = LOG_ENTRY_MULTIBYTE_GET_LENGTH ys"
    by (simp_all add: LOG_ENTRY_MULTIBYTE_GET_ADDRESS_def LOG_ENTRY_MULTIBYTE_GET_LENGTH_def)
qed

lemma get_type_cong:
  "xs ! 0 = ys ! 0 \<Longrightarrow> LOG_ENTRY_GET_TYPE xs = LOG_ENTRY_GET_TYPE ys"
  by (simp add: LOG_ENTRY_GET_TYPE_def)

text \<open>No entry begins with an empty item: an empty item ends the log.\<close>

lemma make_multibyte_nonzero:
  assumes "1 \<le> l" and "l < 8"
  shows "LOG_ENTRY_MAKE_MULTIBYTE a l ! 0 \<noteq> 0"
proof
  assume z: "LOG_ENTRY_MAKE_MULTIBYTE a l ! 0 = 0"
  have "LOG_ENTRY_MULTIBYTE_GET_LENGTH (LOG_ENTRY_MAKE_MULTIBYTE a l @ []) = 0"
    using z by (simp add: LOG_ENTRY_MULTIBYTE_GET_LENGTH_def)
  with multibyte_length [OF assms(2), of a "[]"] assms(1) show False by simp
qed

lemma typed_entry_nonzero:
  "LOG_ENTRY_GET_TYPE xs \<noteq> LOG_ENTRY_TYPE_MULTIBYTE \<Longrightarrow> xs ! 0 \<noteq> 0"
  by (auto simp: LOG_ENTRY_GET_TYPE_def)

lemma make_optimized_64_nonzero: "LOG_ENTRY_MAKE_OPTIMIZED_64 a v ! 0 \<noteq> 0"
  using typed_entry_nonzero [of "LOG_ENTRY_MAKE_OPTIMIZED_64 a v"]
    entry_type_optimized_64 [of a v "[]"] by simp

lemma make_word_01_nonzero: "LOG_ENTRY_MAKE_WORD_01 a v ! 0 \<noteq> 0"
  using typed_entry_nonzero [of "LOG_ENTRY_MAKE_WORD_01 a v"] entry_type_word_01 [of a v "[]"]
  by simp

lemma raw_item_0: "raw_item n 0 xs = take n xs"
  by (simp add: raw_item_def mem_get_def)

lemma entry_items_shape:
  assumes "entry_ok cfg e" and "ws = BACKING_STORE_WRITE_SIZE cfg"
  shows "list_all (\<lambda>b. length b = ws_bytes ws) (entry_items ws e)"
    and "entry_items ws e \<noteq> []" and "hd (entry_items ws e) ! 0 \<noteq> 0"
proof -
  have "list_all (\<lambda>b. length b = ws_bytes ws) (entry_items ws e) \<and> entry_items ws e \<noteq> []
      \<and> hd (entry_items ws e) ! 0 \<noteq> 0"
  proof (cases e)
    case (Multibyte a p)
    let ?full = "mem_put 3 p (LOG_ENTRY_MAKE_MULTIBYTE a (length p))"
    have l: "1 \<le> length p" "length p \<le> 5" using assms Multibyte by (auto simp: Suc_le_eq)
    then have "length ?full = 8" by (simp add: multibyte_image length_make_multibyte)
    note M = multibyte_items_concat [OF this l]
    have "?full ! 0 \<noteq> 0"
      using make_multibyte_nonzero [of "length p" a] l
      by (simp add: multibyte_image nth_append length_make_multibyte)
    then show ?thesis using M [of ws] Multibyte by simp
  next
    case (Optimized_64 a v)
    then show ?thesis
      using assms make_optimized_64_nonzero [of a v]
      by (simp add: raw_item_0) (simp add: LOG_ENTRY_MAKE_OPTIMIZED_64_def)
  next
    case (Word_01 a v)
    then show ?thesis
      using assms make_word_01_nonzero [of a v]
      by (simp add: raw_item_0) (simp add: LOG_ENTRY_MAKE_WORD_01_def)
  qed
  then show "list_all (\<lambda>b. length b = ws_bytes ws) (entry_items ws e)"
    and "entry_items ws e \<noteq> []" and "hd (entry_items ws e) ! 0 \<noteq> 0" by auto
qed

end
