(* ===== verification/WlDriver.thy ===== *)
theory WlDriver
  imports WlLog
begin

text \<open>
  The contract between the wear-leveling engine and its backing store, as a locale: what the
  Backing Store API promises, and, inside it, what the engine's loops do on such a device.
\<close>

section \<open>Configurations the engine works for\<close>

text \<open>The compile-time assertions, the limit of the 19-bit address, and room for at least one
  item of the log, which the assertions do not ask for.\<close>

definition wl_static_asserts :: "wl_cfg \<Rightarrow> bool" where
  "wl_static_asserts cfg \<longleftrightarrow>
     WEAR_LEVELING_LOGICAL_SIZE cfg * 2 \<le> WEAR_LEVELING_BACKING_SIZE cfg
     \<and> WEAR_LEVELING_LOGICAL_SIZE cfg mod wsz cfg = 0
     \<and> WEAR_LEVELING_BACKING_SIZE cfg mod WEAR_LEVELING_LOGICAL_SIZE cfg = 0"

definition wl_cfg_ok :: "wl_cfg \<Rightarrow> bool" where
  "wl_cfg_ok cfg \<longleftrightarrow> wl_static_asserts cfg
     \<and> WEAR_LEVELING_LOGICAL_SIZE cfg \<le> 2 ^ 19
     \<and> WEAR_LEVELING_LOGICAL_SIZE cfg + 8 < WEAR_LEVELING_BACKING_SIZE cfg
     \<and> WEAR_LEVELING_BACKING_SIZE cfg < 2 ^ 32"

section \<open>The contract\<close>

text \<open>
  \<open>off s m\<close>: the device holds the image \<open>m\<close>, in any state of initialisation.
  \<open>dev s m u\<close>: it is initialised, holds \<open>m\<close>, and is unlocked if \<open>u\<close>.
  A write needs an unlocked device and an item that is still in the reset state.
\<close>

locale backing_driver =
  fixes cfg :: wl_cfg
    and drv :: "'s bs_driver"
    and off :: "'s \<Rightarrow> u8 list \<Rightarrow> bool"
    and dev :: "'s \<Rightarrow> u8 list \<Rightarrow> bool \<Rightarrow> bool"
  assumes config: "wl_cfg_ok cfg"
    and image_size: "dev s m u \<Longrightarrow> length m = WEAR_LEVELING_BACKING_SIZE cfg"
    and power_off: "dev s m u \<Longrightarrow> off s m"
    and init_law: "off s m \<Longrightarrow> \<exists>s' u. backing_store_init drv s = Some (True, s') \<and> dev s' m u"
    and unlock_law: "dev s m u \<Longrightarrow> \<exists>s'. backing_store_unlock drv s = (True, s') \<and> dev s' m True"
    and lock_law: "dev s m u \<Longrightarrow> \<exists>s'. backing_store_lock drv s = (True, s') \<and> dev s' m False"
    and read_law: "dev s m u \<Longrightarrow> a mod wsz cfg = 0 \<Longrightarrow> a + wsz cfg \<le> WEAR_LEVELING_BACKING_SIZE cfg
      \<Longrightarrow> \<exists>s'. backing_store_read drv a s = ((True, mem_get a (wsz cfg) m), s') \<and> dev s' m u"
    and write_law: "dev s m True \<Longrightarrow> a mod wsz cfg = 0
      \<Longrightarrow> a + wsz cfg \<le> WEAR_LEVELING_BACKING_SIZE cfg \<Longrightarrow> length v = wsz cfg
      \<Longrightarrow> mem_get a (wsz cfg) m = replicate (wsz cfg) 0
      \<Longrightarrow> \<exists>s'. backing_store_write drv a v s = (True, s') \<and> dev s' (mem_put a v m) True"
    and erase_law: "dev s m True
      \<Longrightarrow> \<exists>s'. backing_store_erase drv s = (True, s')
            \<and> dev s' (replicate (WEAR_LEVELING_BACKING_SIZE cfg) 0) True"
begin

abbreviation "L \<equiv> WEAR_LEVELING_LOGICAL_SIZE cfg"
abbreviation "B \<equiv> WEAR_LEVELING_BACKING_SIZE cfg"
abbreviation "ws \<equiv> BACKING_STORE_WRITE_SIZE cfg"

lemma sizes: "L * 2 \<le> B" "L mod wsz cfg = 0" "B mod L = 0" "L \<le> 2 ^ 19" "L + 8 < B" "B < 2 ^ 32"
  using config by (auto simp: wl_cfg_ok_def wl_static_asserts_def)

lemma wsz_dvd: "wsz cfg dvd L" "wsz cfg dvd B" "wsz cfg dvd 8" "wsz cfg dvd L + 8"
proof -
  show L: "wsz cfg dvd L" using sizes(2) by auto
  have "L dvd B" using sizes(3) by auto
  with L show "wsz cfg dvd B" by (rule dvd_trans)
  show "wsz cfg dvd 8" by simp
  with L show "wsz cfg dvd L + 8" by (rule dvd_add)
qed

section \<open>Loops of reads and writes\<close>

lemma mem_get_join: "mem_get a n m @ mem_get (a + n) k m = mem_get a (n + k) m"
  by (simp only: mem_get_def take_add drop_drop add.commute [of n a])

lemma read_items_dev:
  assumes "dev s m u" and "a mod wsz cfg = 0" and "k = length (filter (\<lambda>f. f) fs)"
    and "a + k * wsz cfg \<le> B"
  shows "\<exists>s'. read_items cfg drv fs a log s = (True, log @ mem_get a (k * wsz cfg) m, a + k * wsz cfg, s')
    \<and> dev s' m u"
  using assms
proof (induction fs arbitrary: a log s k)
  case Nil
  then show ?case by (simp add: mem_get_def)
next
  case (Cons f fs)
  show ?case
  proof (cases f)
    case False
    then show ?thesis using Cons by simp
  next
    case True
    define j where "j = length (filter (\<lambda>f. f) fs)"
    have k: "k = Suc j" using True Cons.prems(3) by (simp add: j_def)
    have a: "(a + wsz cfg) mod wsz cfg = 0" using Cons.prems(2) by (simp add: mod_add_self2)
    obtain s1 where r: "backing_store_read drv a s = ((True, mem_get a (wsz cfg) m), s1)"
      and d: "dev s1 m u"
      using read_law [OF Cons.prems(1,2)] Cons.prems(4) k by auto
    obtain s2 where "read_items cfg drv fs (a + wsz cfg) (log @ mem_get a (wsz cfg) m) s1
        = (True, (log @ mem_get a (wsz cfg) m) @ mem_get (a + wsz cfg) (j * wsz cfg) m,
            (a + wsz cfg) + j * wsz cfg, s2)" "dev s2 m u"
      using Cons.IH [OF d a j_def, of "log @ mem_get a (wsz cfg) m"] Cons.prems(4) k by (auto simp: add.assoc)
    then show ?thesis
      using True r k mem_get_join [of a "wsz cfg" m "j * wsz cfg"] by (simp add: add.assoc)
  qed
qed

lemma read_bulk_dev:
  assumes "dev s m u" and "a mod wsz cfg = 0" and "a + n * wsz cfg \<le> B"
  shows "\<exists>s'. backing_store_read_bulk cfg drv a n s = ((True, mem_get a (n * wsz cfg) m), s')
    \<and> dev s' m u"
  using assms
proof (induction n arbitrary: a s)
  case 0
  then show ?case by (simp add: mem_get_def)
next
  case (Suc n)
  obtain s1 where r: "backing_store_read drv a s = ((True, mem_get a (wsz cfg) m), s1)"
    and d: "dev s1 m u"
    using read_law [OF Suc.prems(1,2)] Suc.prems(3) by auto
  have a: "(a + wsz cfg) mod wsz cfg = 0" using Suc.prems(2) by (simp add: mod_add_self2)
  obtain s2 where "backing_store_read_bulk cfg drv (a + wsz cfg) n s1
      = ((True, mem_get (a + wsz cfg) (n * wsz cfg) m), s2)" "dev s2 m u"
    using Suc.IH [OF d a] Suc.prems(3) by (auto simp: add.assoc)
  then show ?case using r mem_get_join [of a "wsz cfg" m "n * wsz cfg"] by simp
qed

text \<open>Writing into the reset part behind a prefix of the image.\<close>

lemma write_next:
  assumes "dev s (img @ replicate (B - length img) 0) True" and "length img mod wsz cfg = 0"
    and "length img < B" and "length v = wsz cfg"
  shows "\<exists>s'. backing_store_write drv (length img) v s = (True, s')
    \<and> dev s' ((img @ v) @ replicate (B - length (img @ v)) 0) True"
proof -
  have le: "length img + wsz cfg \<le> B"
    using aligned_room [OF assms(3) _ wsz_dvd(2)] assms(2) by auto
  have z: "mem_get (length img) (wsz cfg) (img @ replicate (B - length img) 0)
      = replicate (wsz cfg) 0"
    using le by (simp add: mem_get_append)
  have "mem_put (length img) v (img @ replicate (B - length img) 0)
      = (img @ v) @ replicate (B - length (img @ v)) 0"
    using le assms(4) by (simp add: mem_put_def)
  then show ?thesis using write_law [OF assms(1,2) le assms(4) z] by simp
qed

lemma write_bulk_dev:
  assumes "dev s (img @ replicate (B - length img) 0) True" and "length img mod wsz cfg = 0"
    and "length v = n * wsz cfg" and "length img + length v \<le> B"
  shows "\<exists>s'. backing_store_write_bulk cfg drv (length img) v n s = (True, s')
    \<and> dev s' ((img @ v) @ replicate (B - length (img @ v)) 0) True"
  using assms
proof (induction n arbitrary: img v s)
  case 0
  then show ?case by simp
next
  case (Suc n)
  let ?v = "take (wsz cfg) v" and ?vs = "drop (wsz cfg) v"
  have l: "length ?v = wsz cfg" "length ?vs = n * wsz cfg"
    using Suc.prems(3) by auto
  have "0 < length v" using Suc.prems(3) by simp
  then have room: "length img < B" using Suc.prems(4) by linarith
  obtain s1 where w: "backing_store_write drv (length img) ?v s = (True, s1)"
    and d: "dev s1 ((img @ ?v) @ replicate (B - length (img @ ?v)) 0) True"
    using write_next [OF Suc.prems(1,2) room l(1)] by auto
  have "\<exists>s'. backing_store_write_bulk cfg drv (length (img @ ?v)) ?vs n s1 = (True, s')
      \<and> dev s' (((img @ ?v) @ ?vs) @ replicate (B - length ((img @ ?v) @ ?vs)) 0) True"
    by (rule Suc.IH [OF d]) (use l Suc.prems in \<open>auto simp: mod_add_self2\<close>)
  moreover have "(img @ ?v) @ ?vs = img @ v" and "length (img @ ?v) = length img + wsz cfg"
    using l(1) by simp_all
  ultimately show ?case using w by simp
qed

section \<open>Playing an entry back\<close>

lemma playback_multibyte_dev:
  assumes ok: "entry_ok cfg (Multibyte a p)" and d: "dev (store w) m u"
    and bytes: "mem_get x (length (entry_bytes ws (Multibyte a p))) m = entry_bytes ws (Multibyte a p)"
    and al: "x mod wsz cfg = 0" and room: "x + length (entry_bytes ws (Multibyte a p)) \<le> B"
  shows "\<exists>s'. playback_entry cfg drv (x + wsz cfg) (mem_get x (wsz cfg) m) w
      = Playback_continue (x + length (entry_bytes ws (Multibyte a p)))
          (w\<lparr>store := s', cache := mem_put (unat a) p (cache w)\<rparr>) \<and> dev s' m u"
proof -
  let ?l = "length p"
  let ?make = "LOG_ENTRY_MAKE_MULTIBYTE a ?l"
  let ?full = "mem_put 3 p ?make"
  let ?E = "entry_bytes ws (Multibyte a p)"
  define h where "h = length (filter (\<lambda>f. f) (header_items ws))"
  define v where "v = length (filter (\<lambda>f. f) (value_items ws ?l))"
  have l: "1 \<le> ?l" "?l \<le> 5" "unat a < 2 ^ 19" "unat a + ?l \<le> L"
    using ok by (auto simp: Suc_le_eq)
  have full: "?full = take 3 ?make @ p @ replicate (5 - ?l) 0" and l8: "length ?full = 8"
    using l by (simp_all add: multibyte_image length_make_multibyte)
  have E: "?E = take (wsz cfg * (1 + h + v)) ?full"
    using multibyte_items_concat(1) [OF l8 l(1,2), of ws]
    by (simp add: entry_bytes_def multibyte_size_def h_def v_def)
  have sz: "wsz cfg * (1 + h + v) = multibyte_size ws ?l"
    by (simp add: multibyte_size_def h_def v_def)
  then have bnd: "3 + ?l \<le> wsz cfg * (1 + h + v)" "wsz cfg * (1 + h + v) \<le> 8"
    using multibyte_size_bounds [OF l(1,2), of ws] by auto
  have lenE: "length ?E = wsz cfg * (1 + h + v)" using E l8 bnd by simp
  have head3: "3 \<le> wsz cfg * (1 + h)" by (cases ws) (auto simp: h_def)
  define log1 where "log1 = mem_get x (wsz cfg) m @ mem_get (x + wsz cfg) (h * wsz cfg) m"
  have pre: "mem_get x n m = take n ?full" if "n \<le> length ?E" for n
  proof -
    have "mem_get x n m = take n (mem_get x (length ?E) m)" using that by (simp add: mem_get_def)
    also have "\<dots> = take n ?full" using that bytes E lenE by simp
    finally show ?thesis .
  qed
  have log1: "log1 = take (wsz cfg * (1 + h)) ?full"
    unfolding log1_def mem_get_join using pre [of "wsz cfg + h * wsz cfg"] lenE
    by (simp add: algebra_simps)
  have t3: "take 3 log1 = take 3 (?make @ [])" "3 \<le> length log1" "3 \<le> length (?make @ [])"
    using head3 l8 bnd by (simp_all add: log1 full length_make_multibyte)
  have type: "LOG_ENTRY_GET_TYPE (mem_get x (wsz cfg) m) = LOG_ENTRY_TYPE_MULTIBYTE"
  proof -
    have "mem_get x (wsz cfg) m ! 0 = (?make @ []) ! 0"
      using pre [of "wsz cfg"] lenE by (simp add: full nth_append length_make_multibyte)
    then show ?thesis using get_type_cong entry_type_multibyte by metis
  qed
  have addr: "LOG_ENTRY_MULTIBYTE_GET_ADDRESS log1 = a"
    using getters_cong(1) [OF t3] multibyte_address [OF l(3)] by metis
  have len: "unat (LOG_ENTRY_MULTIBYTE_GET_LENGTH log1) = ?l"
    using getters_cong(2) [OF t3] multibyte_length [of ?l a "[]"] l(2) by simp
  have al1: "(x + wsz cfg) mod wsz cfg = 0" using al by (simp add: mod_add_self2)
  then have al2: "(x + wsz cfg + h * wsz cfg) mod wsz cfg = 0" by simp
  obtain s1 where r1: "read_items cfg drv (header_items ws) (x + wsz cfg) (mem_get x (wsz cfg) m)
      (store w) = (True, log1, x + wsz cfg + h * wsz cfg, s1)" and d1: "dev s1 m u"
    using read_items_dev [OF d al1 h_def, of "mem_get x (wsz cfg) m"] room lenE
    by (auto simp: log1_def algebra_simps)
  obtain s2 where r2: "read_items cfg drv (value_items ws ?l) (x + wsz cfg + h * wsz cfg) log1 s1
      = (True, log1 @ mem_get (x + wsz cfg + h * wsz cfg) (v * wsz cfg) m,
          x + wsz cfg + h * wsz cfg + v * wsz cfg, s2)" and d2: "dev s2 m u"
    using read_items_dev [OF d1 al2 v_def, of log1] room lenE by (auto simp: algebra_simps)
  have "log1 @ mem_get (x + wsz cfg + h * wsz cfg) (v * wsz cfg) m
      = mem_get x (wsz cfg * (1 + h + v)) m"
    using mem_get_join [of x "wsz cfg + h * wsz cfg" m "v * wsz cfg"]
      mem_get_join [of x "wsz cfg" m "h * wsz cfg"]
    by (simp add: log1_def algebra_simps)
  also have "\<dots> = ?E" using pre [of "wsz cfg * (1 + h + v)"] lenE E by simp
  finally have log2: "log1 @ mem_get (x + wsz cfg + h * wsz cfg) (v * wsz cfg) m = ?E" .
  have val: "mem_get 3 ?l ?E = p"
    using bnd l8 by (simp add: E full mem_get_def length_make_multibyte)
  show ?thesis
    using r1 r2 d2 type addr len l(4) log2 val lenE bnd
    by (auto simp: playback_entry_def playback_multibyte_def Let_def algebra_simps)
qed

lemma playback_entry_dev:
  assumes ok: "entry_ok cfg e" and d: "dev (store w) m u"
    and bytes: "mem_get x (length (entry_bytes ws e)) m = entry_bytes ws e"
    and al: "x mod wsz cfg = 0" and room: "x + length (entry_bytes ws e) \<le> B"
  shows "\<exists>s'. playback_entry cfg drv (x + wsz cfg) (mem_get x (wsz cfg) m) w
      = Playback_continue (x + length (entry_bytes ws e))
          (w\<lparr>store := s', cache := entry_apply e (cache w)\<rparr>) \<and> dev s' m u"
proof (cases e)
  case (Multibyte a p)
  then show ?thesis using playback_multibyte_dev [of a p w m u x] assms by simp
next
  case (Optimized_64 a v)
  let ?make = "LOG_ENTRY_MAKE_OPTIMIZED_64 a v"
  have ws: "ws = WS2" and a: "unat a < 64" "unat a < L" using ok Optimized_64 by auto
  have E: "entry_bytes ws e = take 2 ?make" using Optimized_64 by (simp add: entry_bytes_def raw_item_0)
  have l: "length ?make = 8" by (simp add: LOG_ENTRY_MAKE_OPTIMIZED_64_def)
  have raw: "mem_get x (wsz cfg) m = take 2 ?make" using bytes l ws E by simp
  have n: "take 2 ?make ! 0 = (?make @ []) ! 0" "take 2 ?make ! 1 = (?make @ []) ! 1" using l by simp_all
  have "LOG_ENTRY_GET_TYPE (take 2 ?make) = LOG_ENTRY_TYPE_OPTIMIZED_64"
    using get_type_cong [OF n(1)] entry_type_optimized_64 by metis
  moreover have "LOG_ENTRY_OPTIMIZED_64_GET_ADDRESS (take 2 ?make) = a"
    using n(1) optimized_64_address [OF a(1), of v "[]"]
    by (simp only: LOG_ENTRY_OPTIMIZED_64_GET_ADDRESS_def)
  moreover have "LOG_ENTRY_OPTIMIZED_64_GET_VALUE (take 2 ?make) = v"
    using l by (simp add: LOG_ENTRY_OPTIMIZED_64_GET_VALUE_def) (simp add: LOG_ENTRY_MAKE_OPTIMIZED_64_def)
  ultimately show ?thesis
    unfolding raw E using ws a d l Optimized_64
    by (intro exI [of _ "store w"]) (simp add: playback_entry_def Let_def)
next
  case (Word_01 a v)
  let ?make = "LOG_ENTRY_MAKE_WORD_01 a v"
  have ws: "ws = WS2" and a: "unat a < 16384" "even (unat a)" "unat a + 1 < L"
    using ok Word_01 by auto
  have E: "entry_bytes ws e = take 2 ?make" using Word_01 by (simp add: entry_bytes_def raw_item_0)
  have l: "length ?make = 8" by (simp add: LOG_ENTRY_MAKE_WORD_01_def)
  have raw: "mem_get x (wsz cfg) m = take 2 ?make" using bytes l ws E by simp
  have n: "take 2 ?make ! 0 = (?make @ []) ! 0" "take 2 ?make ! 1 = (?make @ []) ! 1" using l by simp_all
  have "LOG_ENTRY_GET_TYPE (take 2 ?make) = LOG_ENTRY_TYPE_WORD_01"
    using get_type_cong [OF n(1)] entry_type_word_01 by metis
  moreover have "LOG_ENTRY_WORD_01_GET_ADDRESS (take 2 ?make) = a"
    using n word_01_address [OF a(1,2), of v "[]"]
    by (simp only: LOG_ENTRY_WORD_01_GET_ADDRESS_def)
  moreover have "LOG_ENTRY_WORD_01_GET_VALUE (take 2 ?make) = (if v = 0 then 0 else 1)"
    using n(1) word_01_value [of a v "[]"] by (simp only: LOG_ENTRY_WORD_01_GET_VALUE_def)
  ultimately show ?thesis
    unfolding raw E using ws a d l Word_01
    by (intro exI [of _ "store w"]) (simp add: playback_entry_def Let_def)
qed

section \<open>Playing the whole log back\<close>

text \<open>The part of the image behind the checksum, for a log with the entries \<open>es\<close>.\<close>

definition log_bytes :: "log_entry list \<Rightarrow> u8 list" where
  "log_bytes es = concat (map (entry_bytes ws) es)"

lemma log_bytes_simps [simp]:
  "log_bytes [] = []" "log_bytes (e # es) = entry_bytes ws e @ log_bytes es"
  "log_bytes (es @ es') = log_bytes es @ log_bytes es'"
  by (simp_all add: log_bytes_def)

lemma entry_bytes_width:
  assumes "entry_ok cfg e"
  shows "length (entry_bytes ws e) mod wsz cfg = 0" and "wsz cfg \<le> length (entry_bytes ws e)"
    and "\<not> list_all (\<lambda>b. b = 0) (take (wsz cfg) (entry_bytes ws e))"
proof -
  have wd: "list_all (\<lambda>b. length b = wsz cfg) (entry_items ws e)"
    and ne: "entry_items ws e \<noteq> []" and nz: "List.hd (entry_items ws e) ! 0 \<noteq> 0"
    using entry_items_shape [OF assms refl] by auto
  have "length (concat xs) mod n = 0" if "list_all (\<lambda>b. length b = n) xs" for xs :: "u8 list list" and n
    using that by (induction xs) auto
  then show "length (entry_bytes ws e) mod wsz cfg = 0" using wd by (simp add: entry_bytes_def)
  obtain b bs where b: "entry_items ws e = b # bs" using ne by (cases "entry_items ws e") auto
  with wd have "length b = wsz cfg" by simp
  with b nz show "wsz cfg \<le> length (entry_bytes ws e)"
    and "\<not> list_all (\<lambda>b. b = 0) (take (wsz cfg) (entry_bytes ws e))"
    by (auto simp: entry_bytes_def list_all_length intro!: exI [of _ 0])
qed

lemma length_log_bytes:
  "list_all (entry_ok cfg) es \<Longrightarrow> length (log_bytes es) mod wsz cfg = 0"
  by (induction es) (use entry_bytes_width(1) in \<open>auto simp: mod_add_left_eq [symmetric]\<close>)

lemma playback_loop_dev:
  assumes "list_all (entry_ok cfg) es" and "dev (store w) m u"
    and "m = pre @ log_bytes es @ replicate (B - (length pre + length (log_bytes es))) 0"
    and "length pre mod wsz cfg = 0" and "length pre + length (log_bytes es) \<le> B"
  shows "\<exists>s'. playback_loop cfg drv (length pre) w
      = Some (WEAR_LEVELING_SUCCESS, length pre + length (log_bytes es),
          w\<lparr>store := s', cache := fold entry_apply es (cache w)\<rparr>) \<and> dev s' m u"
  using assms
proof (induction es arbitrary: pre w)
  case Nil
  show ?case
  proof (cases "length pre < B")
    case False
    then show ?thesis using Nil(2)
      by (intro exI [of _ "store w"]) (simp add: playback_loop.simps)
  next
    case True
    have le: "length pre + wsz cfg \<le> B"
      using aligned_room [OF True _ wsz_dvd(2)] Nil(4) by auto
    then have z: "mem_get (length pre) (wsz cfg) m = replicate (wsz cfg) 0"
      using Nil(3) by (simp add: mem_get_append)
    obtain s1 where "backing_store_read drv (length pre) (store w) = ((True, replicate (wsz cfg) 0), s1)"
      and "dev s1 m u" using read_law [OF Nil(2,4) le] z by auto
    then show ?thesis using True
      by (intro exI [of _ s1]) (simp add: playback_loop.simps list_all_length)
  qed
next
  case (Cons e es)
  let ?E = "entry_bytes ws e"
  have ok: "entry_ok cfg e" using Cons.prems(1) by simp
  note W = entry_bytes_width [OF ok]
  have room: "length pre + length ?E \<le> B" using Cons.prems(5) by simp
  then have le: "length pre + wsz cfg \<le> B" using W(2) by simp
  have bytes: "mem_get (length pre) (length ?E) m = ?E"
    using Cons.prems(3) by (simp add: mem_get_append)
  then have first: "mem_get (length pre) (wsz cfg) m = take (wsz cfg) ?E"
    using W(2) by (metis mem_get_def min.absorb1 take_take)
  obtain s1 where r: "backing_store_read drv (length pre) (store w)
      = ((True, mem_get (length pre) (wsz cfg) m), s1)" and d1: "dev s1 m u"
    using read_law [OF Cons.prems(2,4) le] by auto
  obtain s2 where p: "playback_entry cfg drv (length pre + wsz cfg) (mem_get (length pre) (wsz cfg) m)
      (w\<lparr>store := s1\<rparr>) = Playback_continue (length pre + length ?E)
          (w\<lparr>store := s2, cache := entry_apply e (cache w)\<rparr>)" and d2: "dev s2 m u"
    using playback_entry_dev [OF ok, of "w\<lparr>store := s1\<rparr>" m u "length pre"] d1 bytes Cons.prems(4) room
    by auto
  have "\<exists>s'. playback_loop cfg drv (length (pre @ ?E))
        (w\<lparr>store := s2, cache := entry_apply e (cache w)\<rparr>)
      = Some (WEAR_LEVELING_SUCCESS, length (pre @ ?E) + length (log_bytes es),
          (w\<lparr>store := s2, cache := entry_apply e (cache w)\<rparr>)
            \<lparr>store := s', cache := fold entry_apply es
              (cache (w\<lparr>store := s2, cache := entry_apply e (cache w)\<rparr>))\<rparr>) \<and> dev s' m u"
    by (rule Cons.IH)
      (use Cons.prems d2 W(1) in \<open>auto simp: add.assoc mod_add_left_eq [symmetric]\<close>)
  moreover have "length pre < B" using le ws_bytes_pos [of ws] by linarith
  ultimately show ?case
    using r p first W(3) by (subst playback_loop.simps) (simp add: add.assoc)
qed

text \<open>A corrupted entry with a length of 6 or 7: only the eight bytes of the union are read.\<close>

lemma playback_overlong_dev:
  assumes d: "dev (store w) m u" and al: "x mod wsz cfg = 0" and room: "x + 8 \<le> B"
    and type: "LOG_ENTRY_GET_TYPE (mem_get x 3 m) = LOG_ENTRY_TYPE_MULTIBYTE"
    and long: "5 < unat (LOG_ENTRY_MULTIBYTE_GET_LENGTH (mem_get x 3 m))"
    and fits: "unat (LOG_ENTRY_MULTIBYTE_GET_ADDRESS (mem_get x 3 m))
      + unat (LOG_ENTRY_MULTIBYTE_GET_LENGTH (mem_get x 3 m)) \<le> L"
  shows "playback_entry cfg drv (x + wsz cfg) (mem_get x (wsz cfg) m) w = Playback_undefined"
proof -
  let ?l = "unat (LOG_ENTRY_MULTIBYTE_GET_LENGTH (mem_get x 3 m))"
  define h where "h = length (filter (\<lambda>f. f) (header_items ws))"
  define v where "v = length (filter (\<lambda>f. f) (value_items ws ?l))"
  have sz: "wsz cfg + h * wsz cfg + v * wsz cfg = 8" and h3: "3 \<le> wsz cfg + h * wsz cfg"
    using long by (cases ws; simp add: h_def v_def)+
  define log1 where "log1 = mem_get x (wsz cfg) m @ mem_get (x + wsz cfg) (h * wsz cfg) m"
  have log1: "log1 = mem_get x (wsz cfg + h * wsz cfg) m"
    by (simp add: log1_def mem_get_join)
  have lm: "length m = B" by (rule image_size [OF d])
  have t3: "take 3 log1 = take 3 (mem_get x 3 m)" "3 \<le> length log1" "3 \<le> length (mem_get x 3 m)"
    using h3 room lm sz by (simp_all add: log1 mem_get_def min_absorb1)
  have "mem_get x (wsz cfg) m ! 0 = mem_get x 3 m ! 0" using room lm by (simp add: mem_get_def)
  then have type': "LOG_ENTRY_GET_TYPE (mem_get x (wsz cfg) m) = LOG_ENTRY_TYPE_MULTIBYTE"
    using get_type_cong type by metis
  have al1: "(x + wsz cfg) mod wsz cfg = 0" using al by (simp add: mod_add_self2)
  then have al2: "(x + wsz cfg + h * wsz cfg) mod wsz cfg = 0" by simp
  obtain s1 where r1: "read_items cfg drv (header_items ws) (x + wsz cfg) (mem_get x (wsz cfg) m)
      (store w) = (True, log1, x + wsz cfg + h * wsz cfg, s1)" and d1: "dev s1 m u"
    using read_items_dev [OF d al1 h_def, of "mem_get x (wsz cfg) m"] room sz
    by (auto simp: log1_def)
  obtain s2 where r2: "read_items cfg drv (value_items ws ?l) (x + wsz cfg + h * wsz cfg) log1 s1
      = (True, log1 @ mem_get (x + wsz cfg + h * wsz cfg) (v * wsz cfg) m,
          x + wsz cfg + h * wsz cfg + v * wsz cfg, s2)"
    using read_items_dev [OF d1 al2 v_def, of log1] room sz by auto
  have "length (log1 @ mem_get (x + wsz cfg + h * wsz cfg) (v * wsz cfg) m) \<le> 8"
    using sz by (simp add: log1 mem_get_def)
  then show ?thesis
    using r1 r2 type' long fits getters_cong [OF t3]
    by (simp add: playback_entry_def playback_multibyte_def Let_def)
qed

end

end
