(* ===== verification/WlRefine.thy ===== *)
theory WlRefine
  imports WlDriver
begin

text \<open>
  The wear-leveling engine implements a plain byte array that survives power cycles: the
  invariant that ties the cache to the contents of the backing store, its preservation by every
  public operation, and the refinement of an array of bytes over any history of operations.
\<close>

section \<open>What the contents of a backing store mean\<close>

text \<open>The logical data before the log is played back: the consolidated area if its checksum
  matches, otherwise zeros.\<close>

definition wl_base :: "wl_cfg \<Rightarrow> u8 list \<Rightarrow> u8 list" where
  "wl_base cfg m =
     (let L = WEAR_LEVELING_LOGICAL_SIZE cfg
      in if mem_get L 8 m = u64_image (fnv_64a_buf (take L m) FNV1A_64_INIT)
         then take L m else replicate L 0)"

text \<open>The image holds a consolidated part, the entries \<open>es\<close> and then only reset bytes.\<close>

definition wl_log :: "wl_cfg \<Rightarrow> u8 list \<Rightarrow> log_entry list \<Rightarrow> nat \<Rightarrow> bool" where
  "wl_log cfg m es wa \<longleftrightarrow>
     list_all (entry_ok cfg) es
     \<and> length m = WEAR_LEVELING_BACKING_SIZE cfg
     \<and> wa = WEAR_LEVELING_LOGICAL_SIZE cfg + 8
         + length (concat (map (entry_bytes (BACKING_STORE_WRITE_SIZE cfg)) es))
     \<and> wa < WEAR_LEVELING_BACKING_SIZE cfg
     \<and> drop (WEAR_LEVELING_LOGICAL_SIZE cfg + 8) m
         = concat (map (entry_bytes (BACKING_STORE_WRITE_SIZE cfg)) es)
             @ replicate (WEAR_LEVELING_BACKING_SIZE cfg - wa) 0"

definition wl_holds :: "wl_cfg \<Rightarrow> u8 list \<Rightarrow> u8 list \<Rightarrow> nat \<Rightarrow> bool" where
  "wl_holds cfg m C wa \<longleftrightarrow> (\<exists>es. wl_log cfg m es wa \<and> C = fold entry_apply es (wl_base cfg m))"

definition wl_inv :: "wl_cfg \<Rightarrow> ('s \<Rightarrow> u8 list \<Rightarrow> bool \<Rightarrow> bool) \<Rightarrow> 's wear_leveling \<Rightarrow> bool" where
  "wl_inv cfg dev w \<longleftrightarrow>
     length (cache w) = WEAR_LEVELING_LOGICAL_SIZE cfg
     \<and> (\<exists>m u. dev (store w) m u \<and> (unlocked w \<longrightarrow> u) \<and> wl_holds cfg m (cache w) (write_address w))"

lemma length_u64_image [length_simps]: "length (u64_image x) = 8"
  by (simp add: u64_image_def)

lemma length_entry_apply:
  "entry_ok cfg e \<Longrightarrow> length c = WEAR_LEVELING_LOGICAL_SIZE cfg
    \<Longrightarrow> length (entry_apply e c) = WEAR_LEVELING_LOGICAL_SIZE cfg"
  by (cases e) (auto simp: length_simps)

lemma length_fold_apply:
  "list_all (entry_ok cfg) es \<Longrightarrow> length c = WEAR_LEVELING_LOGICAL_SIZE cfg
    \<Longrightarrow> length (fold entry_apply es c) = WEAR_LEVELING_LOGICAL_SIZE cfg"
  by (induction es arbitrary: c) (auto simp: length_entry_apply)

lemma clear_cache_frame [frame_simps]:
  "store (wear_leveling_clear_cache cfg w) = store w"
  "unlocked (wear_leveling_clear_cache cfg w) = unlocked w"
  by (simp_all add: wear_leveling_clear_cache_def)

context backing_driver
begin

lemma length_wl_base: "length m = B \<Longrightarrow> length (wl_base cfg m) = L"
  using sizes by (simp add: wl_base_def Let_def)

lemma wl_log_image:
  assumes "wl_log cfg m es wa"
  shows "m = take (L + 8) m @ log_bytes es @ replicate (B - wa) 0"
    and "length (take (L + 8) m) = L + 8" and "list_all (entry_ok cfg) es"
    and "wa = L + 8 + length (log_bytes es)" and "wa < B"
proof -
  note W = assms [unfolded wl_log_def, folded log_bytes_def]
  then show "length (take (L + 8) m) = L + 8" and "list_all (entry_ok cfg) es"
    and "wa = L + 8 + length (log_bytes es)" and "wa < B"
    by auto
  show "m = take (L + 8) m @ log_bytes es @ replicate (B - wa) 0"
    using W by (metis append_take_drop_id)
qed

lemma wl_log_intro:
  assumes "list_all (entry_ok cfg) es" and "length pre = L + 8"
    and "m = pre @ log_bytes es @ replicate (B - wa) 0"
    and "wa = L + 8 + length (log_bytes es)" and "wa < B"
  shows "wl_log cfg m es wa" and "take (L + 8) m = pre"
  using assms by (auto simp: wl_log_def log_bytes_def)

lemma wl_base_take: "wl_base cfg (take (L + 8) m) = wl_base cfg m"
  by (simp add: wl_base_def mem_get_def drop_take Let_def)

lemma blank_holds: "wl_holds cfg (replicate B 0) (replicate L 0) (L + 8)"
proof -
  have "wl_log cfg (replicate B 0) [] (L + 8)"
    by (rule wl_log_intro(1) [where pre = "replicate (L + 8) 0"])
      (use sizes in \<open>auto simp flip: replicate_add\<close>)
  moreover have "wl_base cfg (replicate B 0) = replicate L 0"
    using sizes by (simp add: wl_base_def Let_def min_def)
  ultimately show ?thesis unfolding wl_holds_def by (intro exI [of _ "[]"]) simp
qed

section \<open>Consolidation\<close>

text \<open>The image consolidation leaves.\<close>

definition consolidated :: "u8 list \<Rightarrow> u8 list" where
  "consolidated C = C @ u64_image (fnv_64a_buf C FNV1A_64_INIT) @ replicate (B - (L + 8)) 0"

lemma consolidated_holds:
  assumes "length C = L"
  shows "wl_holds cfg (consolidated C) C (L + 8)"
proof -
  have "wl_log cfg (consolidated C) [] (L + 8)"
    by (rule wl_log_intro(1) [where pre = "C @ u64_image (fnv_64a_buf C FNV1A_64_INIT)"])
      (use assms sizes in \<open>auto simp: consolidated_def length_simps\<close>)
  moreover have "wl_base cfg (consolidated C) = C"
    using assms by (simp add: wl_base_def consolidated_def mem_get_def Let_def length_simps)
  ultimately show ?thesis unfolding wl_holds_def by (intro exI [of _ "[]"]) simp
qed

lemma consolidate_force_dev:
  assumes "dev (store w) m True" and "unlocked w" and len: "length (cache w) = L"
  shows "\<exists>s'. wear_leveling_consolidate_force cfg drv w
      = (WEAR_LEVELING_CONSOLIDATED, w\<lparr>store := s', write_address := L + 8\<rparr>)
    \<and> dev s' (consolidated (cache w)) True"
proof -
  let ?sum = "u64_image (fnv_64a_buf (cache w) FNV1A_64_INIT)"
  obtain s1 where e: "backing_store_erase drv (store w) = (True, s1)"
    and d1: "dev s1 ([] @ replicate (B - length ([] :: u8 list)) 0) True"
    using erase_law [OF assms(1)] by auto
  have n1: "length (cache w) = L div wsz cfg * wsz cfg" using len wsz_dvd(1) by simp
  obtain s2 where w1: "backing_store_write_bulk cfg drv 0 (cache w) (L div wsz cfg) s1 = (True, s2)"
    and d2: "dev s2 (cache w @ replicate (B - length (cache w)) 0) True"
    using write_bulk_dev [OF d1 _ n1] len sizes(1) by auto
  have n2: "length ?sum = 8 div wsz cfg * wsz cfg" using wsz_dvd(3) by (simp add: length_simps)
  have "\<exists>s3. backing_store_write_bulk cfg drv (length (cache w)) ?sum (8 div wsz cfg) s2 = (True, s3)
      \<and> dev s3 ((cache w @ ?sum) @ replicate (B - length (cache w @ ?sum)) 0) True"
    by (rule write_bulk_dev [OF d2 _ n2]) (use len sizes in \<open>auto simp: length_simps\<close>)
  then obtain s3 where w2: "backing_store_write_bulk cfg drv L ?sum (8 div wsz cfg) s2 = (True, s3)"
    and d3: "dev s3 (consolidated (cache w)) True"
    using len by (auto simp: consolidated_def length_simps)
  then show ?thesis using e w1 assms(2) len
    by (intro exI [of _ s3]) (simp add: wear_leveling_consolidate_force_def
      wear_leveling_write_consolidated_def wear_leveling_unlock_def)
qed

section \<open>Appending\<close>

definition append_outcome ::
  "u8 list \<Rightarrow> u8 list \<Rightarrow> 's wear_leveling \<Rightarrow> wear_leveling_status \<times> 's wear_leveling \<Rightarrow> bool" where
  "append_outcome pre bs w r \<longleftrightarrow>
     (\<exists>s'. r = (WEAR_LEVELING_SUCCESS, w\<lparr>store := s', write_address := length (pre @ bs)\<rparr>)
        \<and> dev s' ((pre @ bs) @ replicate (B - length (pre @ bs)) 0) True \<and> length (pre @ bs) < B)
     \<or> (\<exists>s'. r = (WEAR_LEVELING_CONSOLIDATED, w\<lparr>store := s', write_address := L + 8\<rparr>)
        \<and> dev s' (consolidated (cache w)) True)"

lemma append_raw_dev:
  assumes d: "dev (store w) (pre @ replicate (B - length pre) 0) True" and u: "unlocked w"
    and len: "length (cache w) = L" and wa: "write_address w = length pre" "length pre < B"
    and al: "length pre mod wsz cfg = 0" and v: "length v = wsz cfg"
  shows "append_outcome pre v w (wear_leveling_append_raw cfg drv v w)"
proof -
  obtain s1 where w1: "backing_store_write drv (length pre) v (store w) = (True, s1)"
    and d1: "dev s1 ((pre @ v) @ replicate (B - length (pre @ v)) 0) True"
    using write_next [OF d al wa(2) v] by auto
  let ?w = "w\<lparr>store := s1, write_address := length pre + wsz cfg\<rparr>"
  obtain s2 where c: "wear_leveling_consolidate_force cfg drv ?w
      = (WEAR_LEVELING_CONSOLIDATED, ?w\<lparr>store := s2, write_address := L + 8\<rparr>)"
    and d2: "dev s2 (consolidated (cache w)) True"
    using consolidate_force_dev [of ?w] d1 u len by auto
  show ?thesis
  proof (cases "B \<le> length pre + wsz cfg")
    case True
    then show ?thesis using w1 c d2 wa
      by (simp add: append_outcome_def wear_leveling_append_raw_def
        wear_leveling_consolidate_if_needed_def) metis
  next
    case False
    then show ?thesis using w1 d1 wa v
      by (simp add: append_outcome_def wear_leveling_append_raw_def
        wear_leveling_consolidate_if_needed_def) metis
  qed
qed

lemma append_items_dev:
  assumes "dev (store w) (pre @ replicate (B - length pre) 0) True" and "unlocked w"
    and "length (cache w) = L" and "write_address w = length pre" "length pre < B"
    and "length pre mod wsz cfg = 0" and "list_all (\<lambda>v. length v = wsz cfg) items"
  shows "append_outcome pre (concat items) w (append_items cfg drv items w)"
  using assms
proof (induction items arbitrary: pre w)
  case Nil
  then show ?case
    by (auto simp: append_outcome_def intro!: exI [of _ "store w"])
next
  case (Cons v items)
  have v: "length v = wsz cfg" using Cons.prems(7) by simp
  from append_raw_dev [OF Cons.prems(1-6) v] show ?case
    unfolding append_outcome_def [of pre v]
  proof (elim disjE exE conjE)
    fix s1
    assume a: "wear_leveling_append_raw cfg drv v w
        = (WEAR_LEVELING_SUCCESS, w\<lparr>store := s1, write_address := length (pre @ v)\<rparr>)"
      and d: "dev s1 ((pre @ v) @ replicate (B - length (pre @ v)) 0) True"
      and l: "length (pre @ v) < B"
    let ?w = "w\<lparr>store := s1, write_address := length (pre @ v)\<rparr>"
    have "append_outcome (pre @ v) (concat items) ?w (append_items cfg drv items ?w)"
      by (rule Cons.IH) (use Cons.prems d l v in \<open>auto simp: mod_add_self2\<close>)
    then show ?thesis using a by (simp add: append_outcome_def)
  next
    fix s1
    assume "wear_leveling_append_raw cfg drv v w
        = (WEAR_LEVELING_CONSOLIDATED, w\<lparr>store := s1, write_address := L + 8\<rparr>)"
      and "dev s1 (consolidated (cache w)) True"
    then show ?thesis by (auto simp: append_outcome_def)
  qed
qed

section \<open>The public functions\<close>

lemma init_dev:
  assumes off: "off (store w) m" and holds: "wl_holds cfg m C wa" and lenm: "length m = B"
  shows "\<exists>w' u. wear_leveling_init cfg drv w = Some (WEAR_LEVELING_SUCCESS, w')
    \<and> cache w' = C \<and> write_address w' = wa \<and> unlocked w' = unlocked w \<and> dev (store w') m u"
proof -
  obtain es where lg: "wl_log cfg m es wa" and C: "C = fold entry_apply es (wl_base cfg m)"
    using holds by (auto simp: wl_holds_def)
  note I = wl_log_image [OF lg]
  let ?w0 = "wear_leveling_clear_cache cfg w"
  obtain s1 u where i: "backing_store_init drv (store w) = Some (True, s1)" and d1: "dev s1 m u"
    using init_law [OF off] by auto
  have n1: "L div wsz cfg * wsz cfg = L" "8 div wsz cfg * wsz cfg = 8" using wsz_dvd by simp_all
  obtain s2 where r1: "backing_store_read_bulk cfg drv 0 (L div wsz cfg) s1 = ((True, take L m), s2)"
    and d2: "dev s2 m u"
    using read_bulk_dev [OF d1, of 0 "L div wsz cfg"] n1 sizes(1) by (auto simp: mem_get_def)
  obtain s3 where r2: "backing_store_read_bulk cfg drv L (8 div wsz cfg) s2 = ((True, mem_get L 8 m), s3)"
    and d3: "dev s3 m u"
    using read_bulk_dev [OF d2, of L "8 div wsz cfg"] n1 sizes by (auto simp: mem_get_def)
  have len8: "length (mem_get L 8 m) = 8" and lenL: "length (take L m) = L"
    using lenm sizes by (auto simp: mem_get_def)
  let ?w1 = "w\<lparr>cache := wl_base cfg m, write_address := L + 8, store := s3\<rparr>"
  have rc: "wear_leveling_read_consolidated cfg drv (?w0\<lparr>store := s1\<rparr>)
      = Some (WEAR_LEVELING_SUCCESS, ?w1)"
    using r1 r2 len8 lenL
    by (simp add: wear_leveling_read_consolidated_def wear_leveling_clear_cache_def mem_put_def
      wl_base_def Let_def)
  have "\<exists>s'. playback_loop cfg drv (length (take (L + 8) m)) ?w1
      = Some (WEAR_LEVELING_SUCCESS, length (take (L + 8) m) + length (log_bytes es),
          ?w1\<lparr>store := s', cache := fold entry_apply es (cache ?w1)\<rparr>) \<and> dev s' m u"
  proof (rule playback_loop_dev [OF I(3)])
    show "dev (store ?w1) m u" using d3 by simp
    show "m = take (L + 8) m @ log_bytes es
        @ replicate (B - (length (take (L + 8) m) + length (log_bytes es))) 0"
      using I(1) unfolding I(2) I(4) [symmetric] .
    show "length (take (L + 8) m) mod wsz cfg = 0" using wsz_dvd(4) unfolding I(2) by simp
    show "length (take (L + 8) m) + length (log_bytes es) \<le> B"
      using I(5) unfolding I(2) I(4) [symmetric] by simp
  qed
  then obtain s4 where p: "playback_loop cfg drv (L + 8) ?w1
      = Some (WEAR_LEVELING_SUCCESS, wa, ?w1\<lparr>store := s4, cache := C\<rparr>)" and d4: "dev s4 m u"
    using I(2,4) C by auto
  have pl: "wear_leveling_playback_log cfg drv ?w1
      = Some (WEAR_LEVELING_SUCCESS, ?w1\<lparr>store := s4, cache := C, write_address := wa\<rparr>)"
    using p I(5) by (simp add: wear_leveling_playback_log_def wear_leveling_consolidate_if_needed_def)
  show ?thesis
    using d4 i
    by (intro exI [of _ "?w1\<lparr>store := s4, cache := C, write_address := wa\<rparr>"] exI [of _ u])
      (simp add: wear_leveling_init_def rc pl Let_def frame_simps)
qed

lemma write_dev:
  assumes inv: "wl_inv cfg dev w" and room: "unat a + length p \<le> L"
  shows "\<exists>st w'. wear_leveling_write cfg drv a p w = Some (st, w') \<and> st \<noteq> WEAR_LEVELING_FAILED
    \<and> cache w' = mem_put (unat a) p (cache w) \<and> unlocked w' = unlocked w \<and> wl_inv cfg dev w'"
proof -
  obtain m u es where len: "length (cache w) = L" and d: "dev (store w) m u"
    and u: "unlocked w \<longrightarrow> u" and lg: "wl_log cfg m es (write_address w)"
    and C: "cache w = fold entry_apply es (wl_base cfg m)"
    using inv by (auto simp: wl_inv_def wl_holds_def)
  note I = wl_log_image [OF lg]
  have nowrap: "unat (a + of_nat (length p)) = unat a + length p"
    using room sizes(4) by (intro unat_add_small) simp
  show ?thesis
  proof (cases "p = mem_get (unat a) (length p) (cache w)")
    case True
    then have "mem_put (unat a) p (cache w) = cache w"
      using mem_put_unchanged [of "unat a" "length p" "cache w"] room len by simp
    then show ?thesis using True nowrap room len inv by (auto simp: wear_leveling_write_def)
  next
    case False
    let ?C = "mem_put (unat a) p (cache w)"
    let ?es = "log_entries ws a p"
    obtain s1 where d1: "dev s1 m True"
      and un: "wear_leveling_unlock drv (w\<lparr>cache := ?C\<rparr>)
        = (if unlocked w then STATUS_UNCHANGED else STATUS_SUCCESS,
           w\<lparr>cache := ?C, unlocked := True, store := s1\<rparr>)"
    proof (cases "unlocked w")
      case True
      then show ?thesis using that [of "store w"] d u by (simp add: wear_leveling_unlock_def)
    next
      case False
      then show ?thesis using that unlock_law [OF d] by (auto simp: wear_leveling_unlock_def)
    qed
    let ?w = "w\<lparr>cache := ?C, unlocked := True, store := s1\<rparr>"
    let ?pre = "take (L + 8) m @ log_bytes es"
    have lC: "length ?C = L" using len room by (simp add: length_simps)
    have items: "list_all (\<lambda>v. length v = wsz cfg) (concat (map (entry_items ws) ?es))"
      using log_entries_ok [OF room sizes(4)] entry_items_shape(1)
      by (auto simp: list_all_iff)
    have bytes: "concat (concat (map (entry_items ws) es')) = log_bytes es'" for es'
      by (induction es') (simp_all add: entry_bytes_def)
    have lpre: "length ?pre = write_address w" using I(2,4) by simp
    have pre: "?pre @ replicate (B - length ?pre) 0 = m"
      using I(1) unfolding lpre by simp
    have al: "length ?pre mod wsz cfg = 0"
      using wsz_dvd(4) length_log_bytes [OF I(3)] I(2) by (simp add: mod_eq_0_iff_dvd)
    have out: "append_outcome ?pre (log_bytes ?es) ?w (wear_leveling_write_raw cfg drv a p ?w)"
      unfolding write_raw_is_append_items bytes [of ?es, symmetric]
    proof (rule append_items_dev)
      show "dev (store ?w) (?pre @ replicate (B - length ?pre) 0) True"
        unfolding pre using d1 by simp
    qed (use lpre al lC items I(5) in simp_all)
    have "\<exists>st s' wa m'. wear_leveling_write_raw cfg drv a p ?w
          = (st, ?w\<lparr>store := s', write_address := wa\<rparr>)
        \<and> (st = WEAR_LEVELING_SUCCESS \<or> st = WEAR_LEVELING_CONSOLIDATED)
        \<and> wa < B \<and> dev s' m' True \<and> wl_holds cfg m' ?C wa"
      using out unfolding append_outcome_def
    proof (elim disjE exE conjE)
      fix s2
      let ?m = "(?pre @ log_bytes ?es) @ replicate (B - length (?pre @ log_bytes ?es)) 0"
      assume r: "wear_leveling_write_raw cfg drv a p ?w
          = (WEAR_LEVELING_SUCCESS, ?w\<lparr>store := s2, write_address := length (?pre @ log_bytes ?es)\<rparr>)"
        and d2: "dev s2 ?m True" and lt: "length (?pre @ log_bytes ?es) < B"
      have lg': "wl_log cfg ?m (es @ ?es) (length (?pre @ log_bytes ?es))"
        and tk: "take (L + 8) ?m = take (L + 8) m"
        using wl_log_intro [of "es @ ?es" "take (L + 8) m" ?m "length (?pre @ log_bytes ?es)"]
          log_entries_ok [OF room sizes(4)] I(2,3) lt by simp_all
      have "wl_base cfg ?m = wl_base cfg m"
        using wl_base_take [of ?m] wl_base_take [of m] tk by metis
      then have "wl_holds cfg ?m ?C (length (?pre @ log_bytes ?es))"
        using lg' C log_entries_apply [of a p "cache w" ws] room len sizes(4)
        unfolding wl_holds_def by (intro exI [of _ "es @ ?es"]) simp
      with r d2 lt show ?thesis by blast
    next
      fix s2
      assume "wear_leveling_write_raw cfg drv a p ?w
          = (WEAR_LEVELING_CONSOLIDATED, ?w\<lparr>store := s2, write_address := L + 8\<rparr>)"
        and "dev s2 (consolidated (cache ?w)) True"
      then show ?thesis using consolidated_holds [OF lC] sizes(5) by auto
    qed
    then obtain st s2 wa m' where r: "wear_leveling_write_raw cfg drv a p ?w
        = (st, ?w\<lparr>store := s2, write_address := wa\<rparr>)"
      and st: "st = WEAR_LEVELING_SUCCESS \<or> st = WEAR_LEVELING_CONSOLIDATED"
      and wa: "wa < B" and d2: "dev s2 m' True" and h: "wl_holds cfg m' ?C wa" by blast
    obtain s3 where lk: "backing_store_lock drv s2 = (True, s3)" and d3: "dev s3 m' False"
      using lock_law [OF d2] by auto
    let ?s = "if unlocked w then s2 else s3"
    let ?w' = "w\<lparr>cache := ?C, store := ?s, write_address := wa\<rparr>"
    have "wear_leveling_write cfg drv a p w = Some (st, ?w')"
      using st False nowrap room len un r lk wa
      by (auto simp: wear_leveling_write_def Let_def wear_leveling_consolidate_if_needed_def
        wear_leveling_lock_def split: if_splits)
    moreover have "wl_inv cfg dev ?w'"
      using d2 d3 h lC by (cases "unlocked w") (auto simp: wl_inv_def)
    ultimately show ?thesis using st by auto
  qed
qed

lemma erase_dev:
  assumes inv: "wl_inv cfg dev w"
  shows "\<exists>w'. wear_leveling_erase cfg drv w = (WEAR_LEVELING_SUCCESS, w')
    \<and> cache w' = replicate L 0 \<and> unlocked w' = unlocked w \<and> wl_inv cfg dev w'"
proof -
  obtain m u where d: "dev (store w) m u" and u: "unlocked w \<longrightarrow> u"
    using inv by (auto simp: wl_inv_def)
  obtain s1 where d1: "dev s1 m True"
    and un: "wear_leveling_unlock drv w = (if unlocked w then STATUS_UNCHANGED else STATUS_SUCCESS,
        w\<lparr>unlocked := True, store := s1\<rparr>)"
    using d u unlock_law [OF d] by (cases "unlocked w") (auto simp: wear_leveling_unlock_def)
  obtain s2 where e: "backing_store_erase drv s1 = (True, s2)" and d2: "dev s2 (replicate B 0) True"
    using erase_law [OF d1] by auto
  obtain s3 where lk: "backing_store_lock drv s2 = (True, s3)" and d3: "dev s3 (replicate B 0) False"
    using lock_law [OF d2] by auto
  let ?w = "w\<lparr>cache := replicate L 0, write_address := L + 8, store := if unlocked w then s2 else s3\<rparr>"
  have "wl_holds cfg (replicate B 0) (replicate L 0) (L + 8)"
    using blank_holds sizes(5) by simp
  then have "wl_inv cfg dev ?w"
    using d2 d3 by (cases "unlocked w") (auto simp: wl_inv_def)
  moreover have "wear_leveling_erase cfg drv w = (WEAR_LEVELING_SUCCESS, ?w)"
    using un e lk
    by (simp add: wear_leveling_erase_def wear_leveling_clear_cache_def wear_leveling_lock_def Let_def)
  ultimately show ?thesis by auto
qed

lemma boot_dev:
  assumes "wl_inv cfg dev w" and "store w0 = store w" and "\<not> unlocked w0"
  shows "\<exists>w'. wear_leveling_init cfg drv w0 = Some (WEAR_LEVELING_SUCCESS, w')
    \<and> cache w' = cache w \<and> write_address w' = write_address w \<and> \<not> unlocked w' \<and> wl_inv cfg dev w'"
proof -
  obtain m u where "dev (store w) m u" and h: "wl_holds cfg m (cache w) (write_address w)"
    and len: "length (cache w) = L"
    using assms(1) by (auto simp: wl_inv_def)
  then have "off (store w0) m" and "length m = B" using power_off image_size assms(2) by auto
  from init_dev [OF this(1) h this(2)] show ?thesis
    using assms(3) h len by (fastforce simp: wl_inv_def)
qed

end

section \<open>Histories\<close>

text \<open>The operations a client performs, and the loss of power, which resets the static variables
  and is followed by \<open>wear_leveling_init\<close>.\<close>

datatype wl_op = Wl_write u32 "u8 list" | Wl_erase | Wl_power_cycle

fun wl_step :: "wl_cfg \<Rightarrow> 's bs_driver \<Rightarrow> wl_op \<Rightarrow> 's wear_leveling \<Rightarrow> 's wear_leveling option" where
  "wl_step cfg drv (Wl_write a p) w = map_option snd (wear_leveling_write cfg drv a p w)"
| "wl_step cfg drv Wl_erase w = Some (snd (wear_leveling_erase cfg drv w))"
| "wl_step cfg drv Wl_power_cycle w =
     map_option snd (wear_leveling_init cfg drv
       (w\<lparr>cache := replicate (WEAR_LEVELING_LOGICAL_SIZE cfg) 0, write_address := 0,
         unlocked := False\<rparr>))"

fun wl_run :: "wl_cfg \<Rightarrow> 's bs_driver \<Rightarrow> wl_op list \<Rightarrow> 's wear_leveling \<Rightarrow> 's wear_leveling option" where
  "wl_run cfg drv [] w = Some w"
| "wl_run cfg drv (x # xs) w = Option.bind (wl_step cfg drv x w) (wl_run cfg drv xs)"

text \<open>The specification: an array of bytes. A write that does not fit is refused, a power cycle
  changes nothing.\<close>

fun array_step :: "wl_op \<Rightarrow> u8 list \<Rightarrow> u8 list" where
  "array_step (Wl_write a p) c = (if unat a + length p \<le> length c then mem_put (unat a) p c else c)"
| "array_step Wl_erase c = replicate (length c) 0"
| "array_step Wl_power_cycle c = c"

fun no_wrap :: "wl_op \<Rightarrow> bool" where
  "no_wrap (Wl_write a p) = (unat a + length p < 2 ^ 32)"
| "no_wrap _ = True"

context backing_driver
begin

lemma step_dev:
  assumes "wl_inv cfg dev w" and "no_wrap x"
  shows "\<exists>w'. wl_step cfg drv x w = Some w' \<and> wl_inv cfg dev w' \<and> cache w' = array_step x (cache w)"
proof (cases x)
  case (Wl_write a p)
  have len: "length (cache w) = L" using assms(1) by (simp add: wl_inv_def)
  show ?thesis
  proof (cases "unat a + length p \<le> L")
    case True
    then show ?thesis using write_dev [OF assms(1) True] Wl_write len by auto
  next
    case False
    have "unat (a + of_nat (length p)) = unat a + length p"
      using assms(2) Wl_write by (simp add: unat_word_ariths(1) unat_of_nat)
    then show ?thesis using False assms(1) Wl_write len by (simp add: wear_leveling_write_def)
  qed
next
  case Wl_erase
  have "length (cache w) = L" using assms(1) by (simp add: wl_inv_def)
  then show ?thesis using erase_dev [OF assms(1)] Wl_erase by auto
next
  case Wl_power_cycle
  then show ?thesis
    using boot_dev [OF assms(1), of "w\<lparr>cache := replicate L 0, write_address := 0, unlocked := False\<rparr>"]
    by auto
qed

lemma run_dev:
  assumes "wl_inv cfg dev w" and "list_all no_wrap xs"
  shows "\<exists>w'. wl_run cfg drv xs w = Some w' \<and> wl_inv cfg dev w'
    \<and> cache w' = fold array_step xs (cache w)"
  using assms
proof (induction xs arbitrary: w)
  case (Cons x xs)
  obtain w1 where "wl_step cfg drv x w = Some w1" "wl_inv cfg dev w1"
    "cache w1 = array_step x (cache w)"
    using step_dev [OF Cons.prems(1)] Cons.prems(2) by auto
  then show ?case using Cons.IH [of w1] Cons.prems(2) by auto
qed simp

section \<open>Power loss during a write\<close>

text \<open>A device on which only the first \<open>k\<close> entries of a write have been programmed.\<close>

lemma partial_write_dev:
  assumes inv: "wl_log cfg m es wa" and C: "c = fold entry_apply es (wl_base cfg m)"
    and es': "list_all (entry_ok cfg) es'" and room: "wa + length (log_bytes es') < B"
    and off: "off (store w0) (mem_put wa (log_bytes es') m)"
  shows "\<exists>w'. wear_leveling_init cfg drv w0 = Some (WEAR_LEVELING_SUCCESS, w')
    \<and> cache w' = fold entry_apply es' c"
proof -
  note I = wl_log_image [OF inv]
  let ?pre = "take (L + 8) m" and ?m = "mem_put wa (log_bytes es') m"
  let ?wa = "wa + length (log_bytes es')"
  have img: "(?pre @ log_bytes es) @ replicate (B - wa) 0 = m" using I(1) by simp
  have len: "length (?pre @ log_bytes es) = wa" using I(2,4) by simp
  have "mem_put wa (log_bytes es') ((?pre @ log_bytes es) @ replicate (B - wa) 0)
      = (?pre @ log_bytes es) @ log_bytes es' @ replicate (B - ?wa) 0"
    using mem_put_append [of "?pre @ log_bytes es" "log_bytes es'" "replicate (B - wa) 0"]
    unfolding len by simp
  then have m: "?m = ?pre @ log_bytes (es @ es') @ replicate (B - ?wa) 0"
    unfolding img by simp
  have ok: "list_all (entry_ok cfg) (es @ es')" using I(3) es' by simp
  have wa': "?wa = L + 8 + length (log_bytes (es @ es'))" using I(4) by simp
  note lg = wl_log_intro [OF ok I(2) m wa' room]
  have "wl_base cfg ?m = wl_base cfg m"
    using wl_base_take [of ?m] wl_base_take [of m] lg(2) by metis
  then have "wl_holds cfg ?m (fold entry_apply es' c) ?wa"
    using lg(1) C unfolding wl_holds_def by (intro exI [of _ "es @ es'"]) simp
  moreover have "length ?m = B" using lg(1) by (simp add: wl_log_def)
  ultimately show ?thesis using init_dev [OF off] by blast
qed

text \<open>A device on which only the first item of a multi-byte entry has been programmed.\<close>

definition page_of :: "u32 \<Rightarrow> u32" where
  "page_of a = push_bit 8 (drop_bit 8 a)"

lemma unat_page_of: "unat (page_of a) = unat a - unat a mod 256"
proof -
  have "take_bit 32 (unat a) = unat a"
    using unat_less_bits [of a] by (intro take_bit_nat_eq_self) simp
  then have "unat (page_of a) = take_bit 32 (push_bit 8 (drop_bit 8 (unat a)))"
    by (simp add: page_of_def unsigned_push_bit_eq unsigned_drop_bit_eq)
  also have "push_bit 8 (drop_bit 8 (unat a)) = unat a - unat a mod 256"
    by (simp add: push_bit_eq_mult drop_bit_eq_div minus_mod_eq_div_mult)
  also have "take_bit 32 (unat a - unat a mod 256) = unat a - unat a mod 256"
    using unat_less_bits [of a] by (intro take_bit_nat_eq_self) simp
  finally show ?thesis .
qed

lemma torn_entry_bytes:
  assumes "p \<noteq> []" and "length p \<le> 5"
  shows "entry_bytes WS2 (Multibyte (page_of a) (replicate (length p) 0))
      = take 2 (entry_bytes WS2 (Multibyte a p))
        @ replicate (length (entry_bytes WS2 (Multibyte a p)) - 2) 0"
proof -
  let ?l = "length p"
  have l: "1 \<le> ?l" "?l \<le> 5" using assms by (auto simp: Suc_le_eq)
  have E: "entry_bytes WS2 (Multibyte b q)
      = take (multibyte_size WS2 ?l) (take 3 (LOG_ENTRY_MAKE_MULTIBYTE b ?l) @ q @ replicate (5 - ?l) 0)"
    if "length q = ?l" for b q
    using multibyte_items_concat(1) [of "mem_put 3 q (LOG_ENTRY_MAKE_MULTIBYTE b ?l)" ?l WS2] l that
    by (simp add: entry_bytes_def multibyte_image length_make_multibyte)
  have b0: "ucast (drop_bit 16 (page_of a)) = (ucast (drop_bit 16 a) :: u8)"
    and b1: "ucast (drop_bit 8 (page_of a)) = (ucast (drop_bit 8 a) :: u8)"
    and b2: "(ucast (page_of a) :: u8) = 0"
    by (rule bit_word_eqI; auto simp: page_of_def bit_simps)+
  have "take 3 (LOG_ENTRY_MAKE_MULTIBYTE (page_of a) ?l)
      = take 2 (LOG_ENTRY_MAKE_MULTIBYTE a ?l) @ [0]"
    by (simp add: LOG_ENTRY_MAKE_MULTIBYTE_def b0 b1 b2 take_Cons')
  then have full: "take 3 (LOG_ENTRY_MAKE_MULTIBYTE (page_of a) ?l) @ replicate ?l 0 @ replicate (5 - ?l) 0
      = take 2 (take 3 (LOG_ENTRY_MAKE_MULTIBYTE a ?l)) @ replicate 6 0"
    using l replicate_add [of "?l" "5 - ?l" "0 :: u8"] replicate_add [of 1 5 "0 :: u8"]
    by (simp add: length_make_multibyte)
  have sz: "2 \<le> multibyte_size WS2 ?l" "multibyte_size WS2 ?l \<le> 8"
    using multibyte_size_bounds [OF l, of WS2] l by auto
  define n where "n = multibyte_size WS2 ?l"
  define h where "h = take 3 (LOG_ENTRY_MAKE_MULTIBYTE a ?l)"
  have h: "length h = 3" by (simp add: h_def length_make_multibyte)
  have n: "2 \<le> n" "n - 2 \<le> 6" "n \<le> 8" using sz by (auto simp: n_def)
  have Ea: "entry_bytes WS2 (Multibyte a p) = take n (h @ p @ replicate (5 - ?l) 0)"
    by (simp add: E n_def h_def)
  have "length (entry_bytes WS2 (Multibyte a p)) = n"
    unfolding Ea using h l n(3) by simp
  moreover have "take 2 (entry_bytes WS2 (Multibyte a p)) = take 2 h"
    unfolding Ea using h n(1) by (simp add: min_absorb1)
  moreover have "take n (take 2 h @ replicate 6 0) = take 2 h @ replicate (n - 2) 0"
    using h n by (simp add: min_absorb1)
  moreover have "entry_bytes WS2 (Multibyte (page_of a) (replicate ?l 0)) = take n (take 2 h @ replicate 6 0)"
    using E [of "replicate ?l 0" "page_of a"] full by (simp add: n_def h_def)
  ultimately show ?thesis by (simp only:)
qed

lemma torn_write_dev:
  assumes ws: "ws = WS2" and lg: "wl_log cfg m es wa" and C: "c = fold entry_apply es (wl_base cfg m)"
    and p: "p \<noteq> []" "length p \<le> 5" "unat a + length p \<le> L" and room: "wa + 8 < B"
    and off: "off (store w0) (mem_put wa (take 2 (entry_bytes WS2 (Multibyte a p))) m)"
  shows "\<exists>w'. wear_leveling_init cfg drv w0 = Some (WEAR_LEVELING_SUCCESS, w')
    \<and> cache w' = mem_put (unat a - unat a mod 256) (replicate (length p) 0) c"
proof -
  note I = wl_log_image [OF lg]
  let ?e = "Multibyte (page_of a) (replicate (length p) 0)"
  let ?t = "take 2 (entry_bytes WS2 (Multibyte a p))"
  let ?n = "length (entry_bytes WS2 (Multibyte a p)) - 2"
  have "1 \<le> length p" using p(1) by (cases p) auto
  then have pos: "unat a < 2 ^ 19" "unat a - unat a mod 256 < 2 ^ 19"
    using p(3) sizes(4) by simp_all
  have ok: "entry_ok cfg (Multibyte a p)" and ok': "list_all (entry_ok cfg) [?e]"
    using p sizes(4) unat_page_of [of a] pos by auto
  have n: "?n \<le> 6" and t: "length ?t = 2"
  proof -
    have "length (mem_put 3 p (LOG_ENTRY_MAKE_MULTIBYTE a (length p))) = 8"
      using p(2) by (simp add: multibyte_image length_make_multibyte)
    then have "length (entry_bytes WS2 (Multibyte a p)) \<le> 8"
      using multibyte_items_concat(1) [of _ "length p" WS2] p by (simp add: entry_bytes_def Suc_le_eq)
    moreover have "2 \<le> length (entry_bytes WS2 (Multibyte a p))"
      using entry_bytes_width(2) [OF ok] ws by simp
    ultimately show "?n \<le> 6" and "length ?t = 2" by simp_all
  qed
  have E: "log_bytes [?e] = ?t @ replicate ?n 0"
    using torn_entry_bytes [OF p(1,2)] ws by simp
  have len: "length (take (L + 8) m @ log_bytes es) = wa" using I(2,4) by simp
  have z: "replicate (B - wa) 0 = replicate 2 0 @ replicate ?n 0 @ replicate (B - (wa + 2 + ?n)) (0 :: u8)"
  proof -
    have "B - wa = 2 + (?n + (B - (wa + 2 + ?n)))" using room n by linarith
    then show ?thesis by (metis replicate_add)
  qed
  define X and Z :: "u8 list" where "X = take (L + 8) m @ log_bytes es"
    and "Z = replicate (B - (wa + 2 + ?n)) 0"
  have "m = X @ replicate 2 0 @ replicate ?n 0 @ Z"
    unfolding X_def Z_def using I(1) z by simp
  then have put: "mem_put wa v m = X @ v @ drop (length v) (replicate 2 0 @ replicate ?n 0 @ Z)" for v
    using mem_put_append [of X v "replicate 2 0 @ replicate ?n 0 @ Z"] len by (simp add: X_def)
  have "mem_put wa (log_bytes [?e]) m = mem_put wa ?t m"
    unfolding put E length_append t length_replicate by simp
  then have "off (store w0) (mem_put wa (log_bytes [?e]) m)" using off by simp
  moreover have "wa + length (log_bytes [?e]) < B"
    unfolding E using room n t by simp
  ultimately show ?thesis
    using partial_write_dev [OF lg C ok'] unat_page_of [of a] by simp
qed

end

end
