(* ===== verification/WlEfl.thy ===== *)
theory WlEfl
  imports WlRefine
begin

text \<open>
  The embedded-flash driver platforms/chibios/drivers/wear_leveling/wear_leveling_efl.c, over the
  flash interface of ChibiOS, which is not part of the repository and is the parameter \<open>fl\<close>. The
  driver is shown to honour the Backing Store contract for every flash that behaves as the
  ChibiOS documentation says: \<open>sublocale\<close> of \<open>backing_driver\<close>.
\<close>

section \<open>The ChibiOS interface\<close>

datatype flash_error = FLASH_NO_ERROR | FLASH_BUSY_ERASING | FLASH_OTHER_ERROR nat

text \<open>\<open>flash_load\<close> is a read of memory-mapped flash; its flag says that an ECC error interrupt
  came in during the read. The geometry comes from \<open>flashGetDescriptor\<close>.
  Offsets and counts are numbers; flash memories are far smaller than the 2^32 bytes at which the
  code's 32-bit ones would wrap around.\<close>

record 'f efl_ops =
  eflStart :: "'f \<Rightarrow> bool \<times> 'f"
  eflStop :: "'f \<Rightarrow> 'f"
  sectors_count :: nat
  flashGetSectorSize :: "nat \<Rightarrow> nat"
  flashGetSectorOffset :: "nat \<Rightarrow> nat"
  detect_flash_size :: nat
  flashStartEraseSector :: "nat \<Rightarrow> 'f \<Rightarrow> flash_error \<times> 'f"
  flashWaitErase :: "'f \<Rightarrow> flash_error \<times> 'f"
  flashProgram :: "nat \<Rightarrow> u8 list \<Rightarrow> 'f \<Rightarrow> flash_error \<times> 'f"
  flash_load :: "nat \<Rightarrow> nat \<Rightarrow> 'f \<Rightarrow> (u8 list \<times> bool) \<times> 'f"

section \<open>The driver\<close>

record 'f efl_state =
  base_offset :: nat
  first_sector :: nat
  sector_count :: nat
  flash :: 'f
  is_issuing_read :: bool
  ecc_error_occurred :: bool

text \<open>Compile-time options: the backing size, the width of an item in bytes, and whether
  WEAR_LEVELING_EFL_FIRST_SECTOR is given.\<close>

record efl_cfg =
  backing_size :: nat
  item_size :: nat
  EFL_FIRST_SECTOR :: "nat option"

definition efl_lock :: "'f efl_ops \<Rightarrow> 'f efl_state \<Rightarrow> bool \<times> 'f efl_state" where
  "efl_lock fl d = (True, d\<lparr>flash := eflStop fl (flash d)\<rparr>)"

definition efl_unlock :: "'f efl_ops \<Rightarrow> 'f efl_state \<Rightarrow> bool \<times> 'f efl_state" where
  "efl_unlock fl d = (case eflStart fl (flash d) of (ok, f) \<Rightarrow> (ok, d\<lparr>flash := f\<rparr>))"

text \<open>Forwards from the configured sector, \<open>n\<close> sectors left from index \<open>i\<close>.\<close>

fun efl_find_forwards ::
  "efl_cfg \<Rightarrow> 'f efl_ops \<Rightarrow> nat \<Rightarrow> nat \<Rightarrow> nat \<Rightarrow> 'f efl_state \<Rightarrow> 'f efl_state" where
  "efl_find_forwards ec fl i 0 counter d = d"
| "efl_find_forwards ec fl i (Suc n) counter d =
     (let counter = counter + flashGetSectorSize fl (first_sector d + i)
      in if backing_size ec \<le> counter
         then d\<lparr>sector_count := i + 1, base_offset := flashGetSectorOffset fl (first_sector d)\<rparr>
         else efl_find_forwards ec fl (i + 1) n counter d)"

text \<open>Backwards from the end of the flash; sectors that do not exist on this part are skipped.\<close>

fun efl_find_backwards ::
  "efl_cfg \<Rightarrow> 'f efl_ops \<Rightarrow> nat \<Rightarrow> nat \<Rightarrow> nat \<Rightarrow> nat \<Rightarrow> 'f efl_state \<Rightarrow> 'f efl_state" where
  "efl_find_backwards ec fl i 0 counter last_sector d = d"
| "efl_find_backwards ec fl i (Suc n) counter last_sector d =
     (let d = d\<lparr>first_sector := sectors_count fl - i - 1\<rparr>
      in if detect_flash_size fl \<le> flashGetSectorOffset fl (first_sector d)
         then efl_find_backwards ec fl (i + 1) n counter (first_sector d) d
         else let counter = counter + flashGetSectorSize fl (first_sector d)
         in if backing_size ec \<le> counter
            then d\<lparr>sector_count := last_sector - first_sector d,
                   base_offset := flashGetSectorOffset fl (first_sector d)\<rparr>
            else efl_find_backwards ec fl (i + 1) n counter last_sector d)"

text \<open>\<open>UINT16_MAX\<close> marks an unknown sector count; not finding the sectors halts the system in the
  forwards variant only.\<close>

definition efl_init :: "efl_cfg \<Rightarrow> 'f efl_ops \<Rightarrow> 'f efl_state \<Rightarrow> (bool \<times> 'f efl_state) option" where
  "efl_init ec fl d =
     (let d = snd (efl_lock fl d)
      in case EFL_FIRST_SECTOR ec of
        Some _ \<Rightarrow>
          let d = efl_find_forwards ec fl 0 (sectors_count fl - first_sector d) 0 d
          in if sector_count d = 65535 \<or> detect_flash_size fl \<le> base_offset d then None
             else Some (True, d)
      | None \<Rightarrow>
          Some (True, efl_find_backwards ec fl 0 (sectors_count fl) 0 (sectors_count fl) d))"

fun efl_erase_sectors :: "'f efl_ops \<Rightarrow> nat \<Rightarrow> nat \<Rightarrow> bool \<Rightarrow> 'f efl_state \<Rightarrow> bool \<times> 'f efl_state" where
  "efl_erase_sectors fl i 0 ret d = (ret, d)"
| "efl_erase_sectors fl i (Suc n) ret d =
     (case flashStartEraseSector fl (first_sector d + i) (flash d) of (status, f) \<Rightarrow>
      let ret = (if status \<noteq> FLASH_NO_ERROR \<and> status \<noteq> FLASH_BUSY_ERASING then False else ret)
      in case flashWaitErase fl f of (status, f) \<Rightarrow>
        let ret = (if status \<noteq> FLASH_NO_ERROR \<and> status \<noteq> FLASH_BUSY_ERASING then False else ret)
        in efl_erase_sectors fl (i + 1) n ret (d\<lparr>flash := f\<rparr>))"

definition efl_erase :: "'f efl_ops \<Rightarrow> 'f efl_state \<Rightarrow> bool \<times> 'f efl_state" where
  "efl_erase fl d = efl_erase_sectors fl 0 (sector_count d) True d"

definition efl_write :: "'f efl_ops \<Rightarrow> nat \<Rightarrow> u8 list \<Rightarrow> 'f efl_state \<Rightarrow> bool \<times> 'f efl_state" where
  "efl_write fl address val d =
     (let offset = base_offset d + address
      in case flashProgram fl offset (map NOT val) (flash d) of (status, f) \<Rightarrow>
        (status = FLASH_NO_ERROR, d\<lparr>flash := f\<rparr>))"

definition efl_safe_read ::
  "efl_cfg \<Rightarrow> 'f efl_ops \<Rightarrow> nat \<Rightarrow> 'f efl_state \<Rightarrow> u8 list \<times> 'f efl_state" where
  "efl_safe_read ec fl loc d =
     (let d = d\<lparr>is_issuing_read := True, ecc_error_occurred := False\<rparr>
      in case flash_load fl loc (item_size ec) (flash d) of ((bytes, ecc), f) \<Rightarrow>
        (map NOT bytes, d\<lparr>flash := f, ecc_error_occurred := ecc, is_issuing_read := False\<rparr>))"

definition efl_read ::
  "efl_cfg \<Rightarrow> 'f efl_ops \<Rightarrow> nat \<Rightarrow> 'f efl_state \<Rightarrow> (bool \<times> u8 list) \<times> 'f efl_state" where
  "efl_read ec fl address d =
     (let offset = base_offset d + address
      in case efl_safe_read ec fl offset d of (tmp, d) \<Rightarrow>
        if ecc_error_occurred d
        then ((False, replicate (item_size ec) 0), d\<lparr>ecc_error_occurred := False\<rparr>)
        else ((True, tmp), d))"

definition efl_driver :: "efl_cfg \<Rightarrow> 'f efl_ops \<Rightarrow> 'f efl_state bs_driver" where
  "efl_driver ec fl =
     \<lparr>backing_store_init = efl_init ec fl, backing_store_unlock = efl_unlock fl,
      backing_store_erase = efl_erase fl, backing_store_write = efl_write fl,
      backing_store_lock = efl_lock fl, backing_store_read = efl_read ec fl\<rparr>"

section \<open>What the driver relies on\<close>

text \<open>Offset of a sector, by the sizes of those before it.\<close>

definition sector_start :: "'f efl_ops \<Rightarrow> nat \<Rightarrow> nat" where
  "sector_start fl i = sum_list (map (flashGetSectorSize fl) [0..<i])"

text \<open>
  Laws of the ChibiOS flash API: \<open>mem f\<close> is the contents of the flash and \<open>started f\<close> says that
  the driver is in the ready state. Programming needs erased cells (0xFF), an erase fills its
  sector with 0xFF, and no read raises an ECC error. The flash has room for the backing store.
\<close>

locale efl_flash =
  fixes cfg :: wl_cfg and ec :: efl_cfg and fl :: "'f efl_ops"
    and mem :: "'f \<Rightarrow> u8 list" and started :: "'f \<Rightarrow> bool" and parts :: nat
  assumes cfg_ok: "wl_cfg_ok cfg"
    and options: "backing_size ec = WEAR_LEVELING_BACKING_SIZE cfg" "item_size ec = wsz cfg"
    and geometry: "i < sectors_count fl \<Longrightarrow> flashGetSectorOffset fl i = sector_start fl i"
      "i < sectors_count fl \<Longrightarrow> 0 < flashGetSectorSize fl i"
      "i < sectors_count fl \<Longrightarrow> flashGetSectorSize fl i mod wsz cfg = 0"
    and parts: "parts \<le> sectors_count fl" "sectors_count fl < 65535"
      "detect_flash_size fl = sector_start fl parts"
    and room: "(case EFL_FIRST_SECTOR ec of None \<Rightarrow> 0 | Some i \<Rightarrow> sector_start fl i)
        + WEAR_LEVELING_BACKING_SIZE cfg \<le> sector_start fl parts"
      "EFL_FIRST_SECTOR ec = Some i \<Longrightarrow> i < parts"
    and size: "length (mem f) = sector_start fl parts"
    and start: "\<exists>f'. eflStart fl f = (True, f') \<and> started f' \<and> mem f' = mem f"
    and stop: "mem (eflStop fl f) = mem f"
    and load: "a + n \<le> sector_start fl parts \<Longrightarrow>
      \<exists>f'. flash_load fl a n f = ((mem_get a n (mem f), False), f') \<and> mem f' = mem f
        \<and> started f' = started f"
    and program: "started f \<Longrightarrow> a + length v \<le> sector_start fl parts \<Longrightarrow> a mod wsz cfg = 0
      \<Longrightarrow> mem_get a (length v) (mem f) = replicate (length v) 0xFF
      \<Longrightarrow> \<exists>f'. flashProgram fl a v f = (FLASH_NO_ERROR, f') \<and> mem f' = mem_put a v (mem f) \<and> started f'"
    and erase: "started f \<Longrightarrow> i < parts \<Longrightarrow>
      \<exists>f1 f2. flashStartEraseSector fl i f = (FLASH_NO_ERROR, f1) \<and> flashWaitErase fl f1 = (FLASH_NO_ERROR, f2)
        \<and> mem f2 = mem_put (sector_start fl i) (replicate (flashGetSectorSize fl i) 0xFF) (mem f)
        \<and> started f2"
begin

abbreviation "B \<equiv> WEAR_LEVELING_BACKING_SIZE cfg"
abbreviation "start_of \<equiv> sector_start fl"

lemma start_Suc: "start_of (Suc i) = start_of i + flashGetSectorSize fl i"
  by (simp add: sector_start_def)

lemma start_mono: "i \<le> j \<Longrightarrow> start_of i \<le> start_of j"
  by (induction j) (auto simp: start_Suc le_Suc_eq intro: le_trans)

lemma start_strict: "i < j \<Longrightarrow> i < sectors_count fl \<Longrightarrow> start_of i < start_of j"
  using start_mono [of "Suc i" j] geometry(2) [of i] by (simp add: start_Suc)

lemma start_aligned: "i \<le> sectors_count fl \<Longrightarrow> start_of i mod wsz cfg = 0"
proof (induction i)
  case 0
  then show ?case by (simp add: sector_start_def)
next
  case (Suc i)
  then have "start_of i mod wsz cfg = 0" and "flashGetSectorSize fl i mod wsz cfg = 0"
    using geometry(3) [of i] by auto
  then show ?case unfolding start_Suc by (metis mod_add_eq add.right_neutral mod_0)
qed

lemma B_pos: "0 < B"
  using cfg_ok by (simp add: wl_cfg_ok_def)

text \<open>The sectors found: \<open>n\<close> of them from \<open>a\<close>, all on the part and large enough.\<close>

definition placed :: "nat \<Rightarrow> nat \<Rightarrow> bool" where
  "placed a n \<longleftrightarrow> a + n \<le> parts \<and> start_of a + B \<le> start_of (a + n)
     \<and> (case EFL_FIRST_SECTOR ec of None \<Rightarrow> True | Some i \<Rightarrow> a = i)"

lemma placed_room: "placed a n \<Longrightarrow> start_of a + B \<le> start_of parts"
  using start_mono [of "a + n" parts] by (auto simp: placed_def)

lemma backwards_finds:
  assumes "i + n = sectors_count fl" and "EFL_FIRST_SECTOR ec = None"
    and "parts \<le> n \<Longrightarrow> lst = n \<and> counter = 0"
    and "n < parts \<Longrightarrow> lst = parts \<and> start_of n + counter = start_of parts" and "counter < B"
  shows "\<exists>a k. placed a k \<and> (\<forall>d. efl_find_backwards ec fl i n counter lst d
    = d\<lparr>first_sector := a, sector_count := k, base_offset := start_of a\<rparr>)"
  using assms
proof (induction n arbitrary: i counter lst)
  case 0
  then have "start_of parts < B"
    using B_pos by (cases "parts = 0") (auto simp: sector_start_def)
  then show ?case using room(1) 0(2) by simp
next
  case (Suc n)
  have first: "sectors_count fl - i - 1 = n" and n: "n < sectors_count fl" using Suc.prems(1) by auto
  show ?case
  proof (cases "parts \<le> n")
    case True
    then have skip: "detect_flash_size fl \<le> flashGetSectorOffset fl n"
      using geometry(1) [OF n] parts(3) start_mono by simp
    obtain a k where "placed a k" and f: "\<forall>d. efl_find_backwards ec fl (i + 1) n 0 n d
        = d\<lparr>first_sector := a, sector_count := k, base_offset := start_of a\<rparr>"
      using Suc.IH [of "i + 1" n 0] Suc.prems(1,2) True B_pos by auto
    moreover have "counter = 0" using Suc.prems(3) True by simp
    ultimately show ?thesis using skip first by (intro exI [of _ a] exI [of _ k]) (simp add: Let_def)
  next
    case False
    then have keep: "\<not> detect_flash_size fl \<le> flashGetSectorOffset fl n"
      using geometry(1) [OF n] parts(3) start_strict [of n parts] n by simp
    have lst: "lst = parts" and sum: "start_of n + (counter + flashGetSectorSize fl n) = start_of parts"
      using False Suc.prems(3,4) start_Suc [of n] by (cases "parts = Suc n"; simp)+
    show ?thesis
    proof (cases "B \<le> counter + flashGetSectorSize fl n")
      case True
      have "placed n (parts - n)"
        using False True sum Suc.prems(2) by (simp add: placed_def)
      then show ?thesis using keep first lst True n geometry(1) [OF n] options(1)
        by (intro exI [of _ n] exI [of _ "parts - n"]) (simp add: Let_def)
    next
      case more: False
      obtain a k where "placed a k" and f: "\<forall>d. efl_find_backwards ec fl (i + 1) n
          (counter + flashGetSectorSize fl n) parts d
          = d\<lparr>first_sector := a, sector_count := k, base_offset := start_of a\<rparr>"
        using Suc.IH [of "i + 1" parts "counter + flashGetSectorSize fl n"] Suc.prems(1,2) False
          more sum by auto
      then show ?thesis using keep first lst more options(1)
        by (intro exI [of _ a] exI [of _ k]) (simp add: Let_def)
    qed
  qed
qed

lemma forwards_finds:
  assumes "EFL_FIRST_SECTOR ec = Some a" and "a + (i + n) = sectors_count fl"
    and "start_of a + counter = start_of (a + i)" and "counter < B"
  shows "\<exists>k. placed a k \<and> k < 65535 \<and> (\<forall>d. first_sector d = a \<longrightarrow> efl_find_forwards ec fl i n counter d
    = d\<lparr>sector_count := k, base_offset := start_of a\<rparr>)"
  using assms(2-)
proof (induction n arbitrary: i counter)
  case 0
  have "start_of parts \<le> start_of (a + i)" using 0 parts(1) start_mono by simp
  moreover have "start_of a + B \<le> start_of parts" using room(1) assms(1) by simp
  ultimately show ?case using 0 by simp
next
  case (Suc n)
  have a: "a < sectors_count fl" using Suc.prems(1) by simp
  have sum: "start_of a + (counter + flashGetSectorSize fl (a + i)) = start_of (a + (i + 1))"
    using Suc.prems(2) start_Suc [of "a + i"] by simp
  show ?case
  proof (cases "B \<le> counter + flashGetSectorSize fl (a + i)")
    case True
    have "a + i < parts"
    proof (rule ccontr)
      assume "\<not> a + i < parts"
      then have "start_of parts \<le> start_of (a + i)" using start_mono by simp
      then show False using room(1) assms(1) Suc.prems(2,3) by simp
    qed
    then have "placed a (i + 1)" using True sum assms(1) by (simp add: placed_def)
    then show ?thesis using True options(1) geometry(1) [OF a] Suc.prems(1) parts(2)
      by (intro exI [of _ "i + 1"]) (simp add: Let_def)
  next
    case False
    obtain k where "placed a k" "k < 65535" "\<forall>d. first_sector d = a \<longrightarrow>
        efl_find_forwards ec fl (i + 1) n (counter + flashGetSectorSize fl (a + i)) d
        = d\<lparr>sector_count := k, base_offset := start_of a\<rparr>"
      using Suc.IH [of "i + 1"] sum Suc.prems(1) False by auto
    then show ?thesis using False options(1) by (intro exI [of _ k]) (simp add: Let_def)
  qed
qed

definition found :: "nat \<Rightarrow> nat \<Rightarrow> bool" where
  "found a k \<longleftrightarrow> placed a k \<and> (\<forall>d. (EFL_FIRST_SECTOR ec \<noteq> None \<longrightarrow> first_sector d = a) \<longrightarrow>
     efl_init ec fl d = Some (True, d\<lparr>flash := eflStop fl (flash d), first_sector := a,
       sector_count := k, base_offset := start_of a\<rparr>))"

lemma init_finds: "\<exists>a k. found a k"
proof (cases "EFL_FIRST_SECTOR ec")
  case None
  have n: "0 + sectors_count fl = sectors_count fl" by simp
  obtain a k where "placed a k" "\<forall>d. efl_find_backwards ec fl 0 (sectors_count fl) 0 (sectors_count fl) d
      = d\<lparr>first_sector := a, sector_count := k, base_offset := start_of a\<rparr>"
    using backwards_finds [OF n None, of "sectors_count fl" 0] parts(1) B_pos by auto
  then show ?thesis using None
    by (intro exI [of _ a] exI [of _ k]) (simp add: found_def efl_init_def efl_lock_def)
next
  case (Some a)
  have a: "a < parts" using room(2) [OF Some] .
  then have n: "a + (0 + (sectors_count fl - a)) = sectors_count fl" using parts(1) by simp
  obtain k where "placed a k" "k < 65535" and
    f: "\<forall>d. first_sector d = a \<longrightarrow> efl_find_forwards ec fl 0 (sectors_count fl - a) 0 d
      = d\<lparr>sector_count := k, base_offset := start_of a\<rparr>"
    using forwards_finds [OF Some n, of 0] B_pos by auto
  moreover have "\<not> detect_flash_size fl \<le> start_of a"
    using parts a start_strict [of a parts] by simp
  ultimately show ?thesis using Some
    by (intro exI [of _ a] exI [of _ k]) (simp add: found_def efl_init_def efl_lock_def Let_def)
qed

text \<open>The abstraction: the image is the complement of the part of the flash behind the base.\<close>

definition efl_dev :: "'f efl_state \<Rightarrow> u8 list \<Rightarrow> bool \<Rightarrow> bool" where
  "efl_dev d m u \<longleftrightarrow> found (first_sector d) (sector_count d)
     \<and> base_offset d = start_of (first_sector d)
     \<and> m = map NOT (mem_get (base_offset d) B (mem (flash d))) \<and> (u \<longrightarrow> started (flash d))"

definition efl_off :: "'f efl_state \<Rightarrow> u8 list \<Rightarrow> bool" where
  "efl_off d m \<longleftrightarrow> (\<exists>a k. found a k \<and> (EFL_FIRST_SECTOR ec \<noteq> None \<longrightarrow> first_sector d = a)
     \<and> m = map NOT (mem_get (start_of a) B (mem (flash d))))"

lemma dev_room: "efl_dev d m u \<Longrightarrow> base_offset d + B \<le> length (mem (flash d))"
  using placed_room [of "first_sector d" "sector_count d"] by (auto simp: efl_dev_def found_def size)

lemma dev_base_aligned: "efl_dev d m u \<Longrightarrow> base_offset d mod wsz cfg = 0"
  using start_aligned [of "first_sector d"] parts(1) by (auto simp: efl_dev_def found_def placed_def)

lemma mem_get_part:
  "a + n \<le> k \<Longrightarrow> mem_get a n (mem_get b k xs) = mem_get (b + a) n xs"
  by (simp add: mem_get_def drop_take min_def add.commute)

lemma map_mem_get: "map f (mem_get a n xs) = mem_get a n (map f xs)"
  by (simp add: mem_get_def take_map drop_map)

lemma mem_get_put_within:
  assumes "a + length v \<le> k" and "b + k \<le> length xs"
  shows "mem_get b k (mem_put (b + a) v xs) = mem_put a v (mem_get b k xs)"
proof (rule nth_equalityI)
  show "length (mem_get b k (mem_put (b + a) v xs)) = length (mem_put a v (mem_get b k xs))"
    using assms by (simp add: length_simps)
  fix i assume "i < length (mem_get b k (mem_put (b + a) v xs))"
  then have "i < k" using assms by (simp add: length_simps)
  then show "mem_get b k (mem_put (b + a) v xs) ! i = mem_put a v (mem_get b k xs) ! i"
    using assms by (simp add: mem_get_nth mem_put_nth length_simps)
qed

lemma map_mem_put: "map f (mem_put a v xs) = mem_put a (map f v) (map f xs)"
  by (simp add: mem_put_def take_map drop_map)

lemma efl_write_law:
  assumes d: "efl_dev d m True" and al: "a mod wsz cfg = 0" and room: "a + wsz cfg \<le> B"
    and v: "length v = wsz cfg" and z: "mem_get a (wsz cfg) m = replicate (wsz cfg) 0"
  shows "\<exists>d'. efl_write fl a v d = (True, d') \<and> efl_dev d' (mem_put a v m) True"
proof -
  let ?x = "base_offset d + a"
  have m: "m = map NOT (mem_get (base_offset d) B (mem (flash d)))" and s: "started (flash d)"
    using d by (auto simp: efl_dev_def)
  have "mem_get ?x (wsz cfg) (mem (flash d)) = map NOT (mem_get a (wsz cfg) m)"
    unfolding m using mem_get_part [OF room] by (simp add: map_mem_get comp_def)
  also have "\<dots> = replicate (wsz cfg) 0xFF" unfolding z by simp
  finally have ff: "mem_get ?x (length (map NOT v)) (mem (flash d)) = replicate (length (map NOT v)) 0xFF"
    using v by simp
  have x: "?x mod wsz cfg = 0" using al dev_base_aligned [OF d] by (metis mod_add_eq add.right_neutral mod_0)
  have le: "?x + length (map NOT v) \<le> start_of parts"
    using dev_room [OF d] room v by (simp add: size)
  obtain f where p: "flashProgram fl ?x (map NOT v) (flash d) = (FLASH_NO_ERROR, f)"
    and mf: "mem f = mem_put ?x (map NOT v) (mem (flash d))" and sf: "started f"
    using program [OF s le x ff] by auto
  have "map NOT (mem_get (base_offset d) B (mem f)) = mem_put a v m"
    unfolding mf m using mem_get_put_within [of a "map NOT v" B "base_offset d" "mem (flash d)"]
      room v dev_room [OF d] by (simp add: map_mem_put comp_def)
  then show ?thesis using p sf d by (auto simp: efl_write_def efl_dev_def)
qed

lemma erase_sectors:
  assumes "started (flash d)" and "first_sector d + i + n \<le> parts"
  shows "\<exists>f. efl_erase_sectors fl i n True d = (True, d\<lparr>flash := f\<rparr>) \<and> started f
    \<and> mem f = mem_put (start_of (first_sector d + i))
        (replicate (start_of (first_sector d + i + n) - start_of (first_sector d + i)) 0xFF) (mem (flash d))"
  using assms
proof (induction n arbitrary: i d)
  case 0
  then show ?case by (intro exI [of _ "flash d"]) (simp add: mem_put_Nil)
next
  case (Suc n)
  let ?a = "first_sector d + i"
  obtain f1 f2 where e: "flashStartEraseSector fl ?a (flash d) = (FLASH_NO_ERROR, f1)"
      "flashWaitErase fl f1 = (FLASH_NO_ERROR, f2)"
    and m2: "mem f2 = mem_put (start_of ?a) (replicate (flashGetSectorSize fl ?a) 0xFF) (mem (flash d))"
    and s2: "started f2"
    using erase [OF Suc.prems(1), of ?a] Suc.prems(2) by auto
  obtain f where f: "efl_erase_sectors fl (i + 1) n True (d\<lparr>flash := f2\<rparr>) = (True, d\<lparr>flash := f\<rparr>)"
    and sf: "started f" and mf: "mem f = mem_put (start_of (Suc ?a))
        (replicate (start_of (Suc ?a + n) - start_of (Suc ?a)) 0xFF) (mem f2)"
    using Suc.IH [of "d\<lparr>flash := f2\<rparr>" "i + 1"] s2 Suc.prems(2) by auto
  have le: "start_of (Suc ?a) \<le> start_of (Suc ?a + n)" "start_of (Suc ?a + n) \<le> length (mem (flash d))"
    using start_mono Suc.prems(2) by (auto simp: size)
  have "mem f = mem_put (start_of ?a) (replicate (start_of (Suc ?a + n) - start_of ?a) 0xFF) (mem (flash d))"
    using mem_put_put [of "start_of ?a" "replicate (flashGetSectorSize fl ?a) 0xFF"
        "replicate (start_of (Suc ?a + n) - start_of (Suc ?a)) 0xFF" "mem (flash d)"] le
    unfolding mf m2 by (simp add: start_Suc flip: replicate_add)
  then show ?case using e f sf by (intro exI [of _ f]) (simp add: Let_def)
qed

lemma efl_erase_law:
  assumes d: "efl_dev d m True"
  shows "\<exists>d'. efl_erase fl d = (True, d') \<and> efl_dev d' (replicate B 0) True"
proof -
  let ?a = "first_sector d" and ?n = "sector_count d"
  have p: "placed ?a ?n" and s: "started (flash d)" and b: "base_offset d = start_of ?a"
    using d by (auto simp: efl_dev_def found_def)
  obtain f where e: "efl_erase_sectors fl 0 ?n True d = (True, d\<lparr>flash := f\<rparr>)" and sf: "started f"
    and mf: "mem f = mem_put (start_of ?a) (replicate (start_of (?a + ?n) - start_of ?a) 0xFF) (mem (flash d))"
    using erase_sectors [OF s, of 0 ?n] p by (auto simp: placed_def)
  have "start_of ?a \<le> length (mem (flash d))" using dev_room [OF d] b by simp
  moreover have "B \<le> start_of (?a + ?n) - start_of ?a" using p unfolding placed_def by linarith
  ultimately have "mem_get (start_of ?a) B (mem f) = replicate B 0xFF"
    unfolding mf by (simp add: mem_get_def mem_put_def min_def)
  then show ?thesis using e sf d b by (auto simp: efl_erase_def efl_dev_def)
qed

lemma efl_read_law:
  assumes d: "efl_dev d m u" and room: "a + wsz cfg \<le> B"
  shows "\<exists>d'. efl_read ec fl a d = ((True, mem_get a (wsz cfg) m), d') \<and> efl_dev d' m u"
proof -
  have m: "m = map NOT (mem_get (base_offset d) B (mem (flash d)))"
    using d by (auto simp: efl_dev_def)
  have "base_offset d + a + wsz cfg \<le> start_of parts" using dev_room [OF d] room by (simp add: size)
  from load [OF this, of "flash d"] obtain f where l: "flash_load fl (base_offset d + a) (wsz cfg) (flash d)
      = ((mem_get (base_offset d + a) (wsz cfg) (mem (flash d)), False), f)"
    and f: "mem f = mem (flash d)" "started f = started (flash d)" by auto
  have "map NOT (mem_get (base_offset d + a) (wsz cfg) (mem (flash d))) = mem_get a (wsz cfg) m"
    unfolding m using mem_get_part [OF room] by (simp add: map_mem_get)
  then show ?thesis using l f d
    by (auto simp: efl_read_def efl_safe_read_def options efl_dev_def Let_def)
qed

end

sublocale efl_flash \<subseteq> efl: backing_driver cfg "efl_driver ec fl" efl_off efl_dev
proof
  show "wl_cfg_ok cfg" by (rule cfg_ok)
  fix s s' m u a v
  show "length m = B" if "efl_dev s m u"
    using that dev_room [OF that] by (auto simp: efl_dev_def length_simps)
  show "efl_off s m" if "efl_dev s m u"
    using that by (auto simp: efl_dev_def efl_off_def found_def placed_def split: option.splits)
  show "\<exists>s' u. backing_store_init (efl_driver ec fl) s = Some (True, s') \<and> efl_dev s' m u"
    if off: "efl_off s m"
  proof -
    obtain x k where "found x k" "EFL_FIRST_SECTOR ec \<noteq> None \<longrightarrow> first_sector s = x"
      "m = map NOT (mem_get (start_of x) B (mem (flash s)))"
      using off by (auto simp: efl_off_def)
    then show ?thesis
      by (intro exI [of _ "s\<lparr>flash := eflStop fl (flash s), first_sector := x,
          sector_count := k, base_offset := start_of x\<rparr>"] exI [of _ False])
        (simp add: efl_driver_def efl_dev_def stop found_def)
  qed
  show "\<exists>s'. backing_store_unlock (efl_driver ec fl) s = (True, s') \<and> efl_dev s' m True"
    if "efl_dev s m u"
    using that start [of "flash s"] by (auto simp: efl_driver_def efl_unlock_def efl_dev_def)
  show "\<exists>s'. backing_store_lock (efl_driver ec fl) s = (True, s') \<and> efl_dev s' m False"
    if "efl_dev s m u"
    using that by (auto simp: efl_driver_def efl_lock_def efl_dev_def stop)
  show "\<exists>s'. backing_store_read (efl_driver ec fl) a s = ((True, mem_get a (wsz cfg) m), s')
      \<and> efl_dev s' m u" if "efl_dev s m u" "a mod wsz cfg = 0" "a + wsz cfg \<le> B"
    using efl_read_law [OF that(1,3)] by (simp add: efl_driver_def)
  show "\<exists>s'. backing_store_write (efl_driver ec fl) a v s = (True, s') \<and> efl_dev s' (mem_put a v m) True"
    if "efl_dev s m True" "a mod wsz cfg = 0" "a + wsz cfg \<le> B" "length v = wsz cfg"
      "mem_get a (wsz cfg) m = replicate (wsz cfg) 0"
    using efl_write_law [OF that] by (simp add: efl_driver_def)
  show "\<exists>s'. backing_store_erase (efl_driver ec fl) s = (True, s') \<and> efl_dev s' (replicate B 0) True"
    if "efl_dev s m True"
    using efl_erase_law [OF that] by (simp add: efl_driver_def)
qed

context efl_flash
begin

lemma efl_backing: "backing_driver cfg (efl_driver ec fl) efl_off efl_dev"
  by (rule efl.backing_driver_axioms)

end

end
