(* ===== verification/WlProps.thy ===== *)
theory WlProps
  imports WlEfl
begin

text \<open>
  The properties of the wear-leveling engine and of its embedded-flash driver, with a small NOR
  flash at which their hypotheses are seen to hold.
\<close>

section \<open>A NOR flash\<close>

text \<open>Two sectors of 128 bytes, contents and the ready flag of the flash driver.\<close>

definition nor_mem :: "u8 list \<times> bool \<Rightarrow> u8 list" where
  "nor_mem f = take 256 (fst f @ replicate 256 0xFF)"

definition nor_ops :: "(u8 list \<times> bool) efl_ops" where
  "nor_ops =
     \<lparr>eflStart = (\<lambda>f. (True, (fst f, True))), eflStop = (\<lambda>f. (fst f, False)),
      sectors_count = 2, flashGetSectorSize = (\<lambda>_. 128), flashGetSectorOffset = (\<lambda>i. 128 * i),
      detect_flash_size = 256,
      flashStartEraseSector = (\<lambda>i f. if snd f
        then (FLASH_NO_ERROR, (mem_put (128 * i) (replicate 128 0xFF) (nor_mem f), snd f))
        else (FLASH_OTHER_ERROR 0, f)),
      flashWaitErase = (\<lambda>f. (FLASH_NO_ERROR, f)),
      flashProgram = (\<lambda>a v f. if snd f then (FLASH_NO_ERROR, (mem_put a v (nor_mem f), True))
        else (FLASH_OTHER_ERROR 0, f)),
      flash_load = (\<lambda>a n f. ((mem_get a n (nor_mem f), False), f))\<rparr>"

definition nor_cfg :: wl_cfg where
  "nor_cfg = \<lparr>BACKING_STORE_WRITE_SIZE = WS2, WEAR_LEVELING_BACKING_SIZE = 192,
     WEAR_LEVELING_LOGICAL_SIZE = 96\<rparr>"

definition nor_efl_cfg :: efl_cfg where
  "nor_efl_cfg = \<lparr>backing_size = 192, item_size = 2, EFL_FIRST_SECTOR = None\<rparr>"

lemma nor_mem_put:
  "a + length v \<le> 256 \<Longrightarrow> nor_mem (mem_put a v (nor_mem f), b) = mem_put a v (nor_mem f)"
  by (simp add: nor_mem_def length_simps)

lemma nor_fields:
  "sectors_count nor_ops = 2" "flashGetSectorSize nor_ops i = 128"
  "flashGetSectorOffset nor_ops i = 128 * i" "detect_flash_size nor_ops = 256"
  "eflStart nor_ops f = (True, (fst f, True))" "eflStop nor_ops f = (fst f, False)"
  "flash_load nor_ops a n f = ((mem_get a n (nor_mem f), False), f)"
  "BACKING_STORE_WRITE_SIZE nor_cfg = WS2" "WEAR_LEVELING_BACKING_SIZE nor_cfg = 192"
  "WEAR_LEVELING_LOGICAL_SIZE nor_cfg = 96"
  "backing_size nor_efl_cfg = 192" "item_size nor_efl_cfg = 2" "EFL_FIRST_SECTOR nor_efl_cfg = None"
  by (simp_all add: nor_ops_def nor_cfg_def nor_efl_cfg_def)

lemma nor_start: "sector_start nor_ops i = 128 * i"
  by (induction i) (simp_all add: sector_start_def nor_ops_def)

interpretation nor: efl_flash nor_cfg nor_efl_cfg nor_ops nor_mem snd 2
proof
  show "wl_cfg_ok nor_cfg" by (simp add: wl_cfg_ok_def wl_static_asserts_def nor_cfg_def)
  show "backing_size nor_efl_cfg = WEAR_LEVELING_BACKING_SIZE nor_cfg"
    "item_size nor_efl_cfg = wsz nor_cfg" by (simp_all add: nor_efl_cfg_def nor_cfg_def)
  show "detect_flash_size nor_ops = sector_start nor_ops 2"
    by (simp add: nor_start) (simp add: nor_ops_def)
  show "length (nor_mem f) = sector_start nor_ops 2" for f by (simp add: nor_start nor_mem_def)
  show "\<exists>f1 f2. flashStartEraseSector nor_ops i f = (FLASH_NO_ERROR, f1)
      \<and> flashWaitErase nor_ops f1 = (FLASH_NO_ERROR, f2)
      \<and> nor_mem f2 = mem_put (sector_start nor_ops i) (replicate (flashGetSectorSize nor_ops i) 0xFF) (nor_mem f)
      \<and> snd f2" if "snd f" "i < 2" for i and f :: "u8 list \<times> bool"
    using that nor_mem_put [of "128 * i" "replicate 128 0xFF" f True]
    by (simp add: nor_start) (simp add: nor_ops_def, intro exI [of _ True], simp)
  show "\<exists>f'. flashProgram nor_ops a v f = (FLASH_NO_ERROR, f') \<and> nor_mem f' = mem_put a v (nor_mem f)
      \<and> snd f'" if "snd f" "a + length v \<le> sector_start nor_ops 2" for a v and f :: "u8 list \<times> bool"
    using that nor_mem_put [of a v f True]
    by (simp add: nor_start) (simp add: nor_ops_def, intro exI [of _ True], simp)
qed (auto simp: nor_start nor_fields nor_mem_def)

text \<open>The flash as delivered, with the base at the second half of the first sector's complement:
  both sectors are used, and the engine starts from a cleared cache.\<close>

definition nor_state :: "(u8 list \<times> bool) efl_state" where
  "nor_state = \<lparr>base_offset = 0, first_sector = 0, sector_count = 2, flash = ([], False),
     is_issuing_read = False, ecc_error_occurred = False\<rparr>"

definition nor_wl :: "(u8 list \<times> bool) efl_state wear_leveling" where
  "nor_wl = \<lparr>cache = replicate 96 0, write_address = 104, unlocked = False, store = nor_state\<rparr>"

abbreviation "nor_driver \<equiv> efl_driver nor_efl_cfg nor_ops"

lemma nor_backing: "backing_driver nor_cfg nor_driver nor.efl_off nor.efl_dev"
  by (rule nor.efl.backing_driver_axioms)

lemma nor_found: "nor.found 0 2"
proof -
  have "nor.placed 0 2"
    by (simp add: nor.placed_def nor_start nor_fields)
  moreover have "efl_find_backwards nor_efl_cfg nor_ops 0 2 0 2 d
      = d\<lparr>first_sector := 0, sector_count := 2, base_offset := 0\<rparr>" for d
    by (simp add: numeral_2_eq_2 Let_def nor_fields)
  ultimately show ?thesis
    by (simp add: nor.found_def nor_start efl_init_def efl_lock_def nor_fields)
qed

lemma nor_dev: "nor.efl_dev nor_state (replicate 192 0) False"
  using nor_found
  by (simp add: nor.efl_dev_def nor_state_def nor_start nor_fields nor_mem_def mem_get_def)

lemma nor_inv: "wl_inv nor_cfg nor.efl_dev nor_wl"
proof -
  have "wl_holds nor_cfg (replicate 192 0) (replicate 96 0) 104"
    using backing_driver.blank_holds [OF nor_backing] by (simp add: nor_fields)
  then show ?thesis
    using nor_dev unfolding wl_inv_def
    by (intro conjI exI [of _ "replicate 192 0"] exI [of _ False])
      (simp_all add: nor_wl_def nor_fields)
qed

section \<open>The emulated EEPROM is an array of bytes\<close>

text \<open>
  C1: On every device that honours the Backing Store contract, and from every state that satisfies
  the invariant, any sequence of writes, erases and power cycles, provided that no write reaches over
  the end of the 32-bit address space, runs without undefined behaviour and without a halt, keeps the
  invariant, and leaves in the cache what the same sequence leaves
  in a plain array of bytes; a power cycle therefore loses nothing.
\<close>

theorem wl_refines_array:
  assumes "backing_driver cfg drv off dev" and "wl_inv cfg dev w" and "list_all no_wrap xs"
  shows "\<exists>w'. wl_run cfg drv xs w = Some w' \<and> wl_inv cfg dev w'
    \<and> cache w' = fold array_step xs (cache w)"
  using backing_driver.run_dev [OF assms] .

theorem wl_refines_array_witness:
  "\<exists>w'. wl_run nor_cfg nor_driver [Wl_write 70 [1, 2, 3], Wl_power_cycle, Wl_write 2 [9], Wl_power_cycle] nor_wl
      = Some w' \<and> wl_inv nor_cfg nor.efl_dev w'
    \<and> cache w' = fold array_step [Wl_write 70 [1, 2, 3], Wl_power_cycle, Wl_write 2 [9], Wl_power_cycle]
        (cache nor_wl)"
  by (rule wl_refines_array [OF nor_backing nor_inv]) simp

text \<open>
  C2: Initialising after a loss of power, with arbitrary contents of the static variables, reports
  plain success and brings back the cache and the write address of before.
\<close>

theorem wl_power_cycle_restores:
  assumes "backing_driver cfg drv off dev" and "wl_inv cfg dev w"
    and "store w0 = store w" and "\<not> unlocked w0"
  shows "\<exists>w'. wear_leveling_init cfg drv w0 = Some (WEAR_LEVELING_SUCCESS, w')
    \<and> cache w' = cache w \<and> write_address w' = write_address w \<and> wl_inv cfg dev w'"
  using backing_driver.boot_dev [OF assms] by blast

theorem wl_power_cycle_restores_witness:
  "\<exists>w'. wear_leveling_init nor_cfg nor_driver (nor_wl\<lparr>cache := [], write_address := 7\<rparr>)
      = Some (WEAR_LEVELING_SUCCESS, w')
    \<and> cache w' = cache nor_wl \<and> write_address w' = write_address nor_wl
    \<and> wl_inv nor_cfg nor.efl_dev w'"
  by (rule wl_power_cycle_restores [OF nor_backing nor_inv]) (simp_all add: nor_wl_def)

text \<open>
  C4: A write inside the logical size succeeds, and reading any range afterwards returns the
  written bytes where the range meets the write and the old bytes elsewhere.
\<close>

theorem wl_read_after_write:
  assumes "backing_driver cfg drv off dev" and "wl_inv cfg dev w"
    and "unat a + length p \<le> WEAR_LEVELING_LOGICAL_SIZE cfg"
    and "unat b + n \<le> WEAR_LEVELING_LOGICAL_SIZE cfg"
  shows "\<exists>st w' v. wear_leveling_write cfg drv a p w = Some (st, w') \<and> st \<noteq> WEAR_LEVELING_FAILED
    \<and> wear_leveling_read cfg b n w' = Some (WEAR_LEVELING_SUCCESS, v) \<and> length v = n
    \<and> (\<forall>i<n. v ! i = (if unat a \<le> unat b + i \<and> unat b + i < unat a + length p
                      then p ! (unat b + i - unat a) else cache w ! (unat b + i)))"
proof -
  obtain st w' where w: "wear_leveling_write cfg drv a p w = Some (st, w')" "st \<noteq> WEAR_LEVELING_FAILED"
    and c: "cache w' = mem_put (unat a) p (cache w)" and inv: "wl_inv cfg dev w'"
    using backing_driver.write_dev [OF assms(1-3)] by blast
  have len: "length (cache w) = WEAR_LEVELING_LOGICAL_SIZE cfg"
    "length (cache w') = WEAR_LEVELING_LOGICAL_SIZE cfg"
    using assms(2) inv by (auto simp: wl_inv_def)
  have "unat (b + of_nat n) = unat b + n"
    using assms(4) backing_driver.sizes(4) [OF assms(1)] by (intro unat_add_small) simp
  then have "wear_leveling_read cfg b n w'
      = Some (WEAR_LEVELING_SUCCESS, mem_get (unat b) n (cache w'))"
    using assms(4) len by (simp add: wear_leveling_read_def)
  moreover have "mem_get (unat b) n (cache w') ! i
      = (if unat a \<le> unat b + i \<and> unat b + i < unat a + length p
         then p ! (unat b + i - unat a) else cache w ! (unat b + i))" if "i < n" for i
    using assms(3,4) len that by (simp add: c mem_get_nth mem_put_nth length_simps)
  moreover have "length (mem_get (unat b) n (cache w')) = n"
    using assms(4) len by (simp add: length_simps)
  ultimately show ?thesis using w by blast
qed

theorem wl_read_after_write_witness:
  "\<exists>st w' v. wear_leveling_write nor_cfg nor_driver 20 [4, 5] nor_wl = Some (st, w')
    \<and> st \<noteq> WEAR_LEVELING_FAILED
    \<and> wear_leveling_read nor_cfg 19 3 w' = Some (WEAR_LEVELING_SUCCESS, v) \<and> length v = 3
    \<and> (\<forall>i<3. v ! i = (if unat (20 :: u32) \<le> unat (19 :: u32) + i
          \<and> unat (19 :: u32) + i < unat (20 :: u32) + length [4, 5 :: u8]
        then [4, 5] ! (unat (19 :: u32) + i - unat (20 :: u32)) else cache nor_wl ! (unat (19 :: u32) + i)))"
  by (rule wl_read_after_write [OF nor_backing nor_inv]) (simp_all add: nor_fields)

text \<open>
  C3: The embedded-flash driver honours the Backing Store contract for every flash that obeys the
  laws of the ChibiOS interface: it finds sectors large enough, stores complements, erases exactly
  its sectors and reads back what it wrote.
\<close>

theorem efl_meets_contract:
  assumes "efl_flash cfg ec fl mem started parts"
  shows "backing_driver cfg (efl_driver ec fl) (efl_flash.efl_off cfg ec fl mem parts)
    (efl_flash.efl_dev cfg ec fl mem started parts)"
  using efl_flash.efl_backing [OF assms] .

theorem efl_meets_contract_witness:
  "backing_driver nor_cfg nor_driver (efl_flash.efl_off nor_cfg nor_efl_cfg nor_ops nor_mem 2)
    (efl_flash.efl_dev nor_cfg nor_efl_cfg nor_ops nor_mem snd 2)"
  by (rule efl_meets_contract [OF nor.efl_flash_axioms])

section \<open>Entries\<close>

text \<open>
  C5: Every entry the engine can write is played back to its meaning: the first item identifies
  its type, the following items are read exactly, the address moves behind the entry, and the
  cache changes as the logged write changes it.
\<close>

theorem log_entry_plays_back:
  assumes "backing_driver cfg drv off dev" and "entry_ok cfg e" and "dev (store w) m u"
    and "mem_get x (length (entry_bytes (BACKING_STORE_WRITE_SIZE cfg) e)) m
      = entry_bytes (BACKING_STORE_WRITE_SIZE cfg) e"
    and "x mod wsz cfg = 0"
    and "x + length (entry_bytes (BACKING_STORE_WRITE_SIZE cfg) e) \<le> WEAR_LEVELING_BACKING_SIZE cfg"
  shows "\<exists>s'. playback_entry cfg drv (x + wsz cfg) (mem_get x (wsz cfg) m) w
      = Playback_continue (x + length (entry_bytes (BACKING_STORE_WRITE_SIZE cfg) e))
          (w\<lparr>store := s', cache := entry_apply e (cache w)\<rparr>) \<and> dev s' m u"
  using backing_driver.playback_entry_dev [OF assms] .

text \<open>States of the NOR device with a given image.\<close>

definition nor_with :: "u8 list \<Rightarrow> (u8 list \<times> bool) efl_state" where
  "nor_with m = nor_state\<lparr>flash := (map NOT m, False)\<rparr>"

lemma nor_with_dev: "length m = 192 \<Longrightarrow> nor.efl_dev (nor_with m) m False"
  using nor_found
  by (simp add: nor.efl_dev_def nor_with_def nor_state_def nor_start nor_fields nor_mem_def
    mem_get_def comp_def)

lemma nor_with_off: "length m = 192 \<Longrightarrow> nor.efl_off (nor_with m) m"
  using nor_with_dev backing_driver.power_off [OF nor_backing] by blast

definition nor_word_image :: "u8 list" where
  "nor_word_image = replicate 104 0 @ [160, 5] @ replicate 86 0"

lemma nor_word_bytes: "entry_bytes WS2 (Word_01 10 1) = [160, 5]"
  by code_simp

theorem log_entry_plays_back_witness:
  "\<exists>s'. playback_entry nor_cfg nor_driver (104 + wsz nor_cfg) (mem_get 104 (wsz nor_cfg) nor_word_image)
        (nor_wl\<lparr>store := nor_with nor_word_image\<rparr>)
      = Playback_continue (104 + length (entry_bytes (BACKING_STORE_WRITE_SIZE nor_cfg) (Word_01 10 1)))
          (nor_wl\<lparr>store := nor_with nor_word_image,
             store := s', cache := entry_apply (Word_01 10 1) (cache nor_wl)\<rparr>)
    \<and> nor.efl_dev s' nor_word_image False"
  using log_entry_plays_back [OF nor_backing, of "Word_01 10 1" "nor_wl\<lparr>store := nor_with nor_word_image\<rparr>"
      nor_word_image False 104] nor_with_dev [of nor_word_image]
  by (simp add: nor_fields nor_word_bytes) (simp add: nor_word_image_def mem_get_def)

section \<open>Power loss and corruption\<close>

text \<open>
  C6: If power is lost between the entries of a write, the next initialisation succeeds and gives
  the old contents with exactly the programmed entries applied.
\<close>

theorem wl_partial_write:
  assumes "backing_driver cfg drv off dev"
    and "wl_log cfg m es wa" and "c = fold entry_apply es (wl_base cfg m)"
    and "list_all (entry_ok cfg) es'"
    and "wa + length (concat (map (entry_bytes (BACKING_STORE_WRITE_SIZE cfg)) es'))
      < WEAR_LEVELING_BACKING_SIZE cfg"
    and "off (store w0)
      (mem_put wa (concat (map (entry_bytes (BACKING_STORE_WRITE_SIZE cfg)) es')) m)"
  shows "\<exists>w'. wear_leveling_init cfg drv w0 = Some (WEAR_LEVELING_SUCCESS, w')
    \<and> cache w' = fold entry_apply es' c"
  using backing_driver.partial_write_dev [OF assms(1-4)] assms(5,6)
  by (simp add: backing_driver.log_bytes_def [OF assms(1)])

lemma nor_word_log: "wl_log nor_cfg nor_word_image [Word_01 10 1] 106"
  by (simp add: wl_log_def nor_fields nor_word_bytes) (simp add: nor_word_image_def)

theorem wl_partial_write_witness:
  "\<exists>w'. wear_leveling_init nor_cfg nor_driver
      (nor_wl\<lparr>store := nor_with (mem_put 106 [160, 5] nor_word_image)\<rparr>) = Some (WEAR_LEVELING_SUCCESS, w')
    \<and> cache w' = fold entry_apply [Word_01 10 1]
        (fold entry_apply [Word_01 10 1] (wl_base nor_cfg nor_word_image))"
  using wl_partial_write [OF nor_backing nor_word_log refl, of "[Word_01 10 1]"
      "nor_wl\<lparr>store := nor_with (mem_put 106 [160, 5] nor_word_image)\<rparr>"]
    nor_with_off [of "mem_put 106 [160, 5] nor_word_image"]
  by (simp add: nor_fields nor_word_bytes length_simps nor_word_image_def)

text \<open>
  C7: A power loss inside a multi-byte entry on a store with two-byte items, right after its first item
  and with room for another entry behind it, is not detected: the next initialisation reports success
  and zeroes as many bytes as the write had at the start of the 256-byte page of the written address,
  so at other addresses unless the write itself starts there.
\<close>

theorem wl_torn_entry_zeroes_page:
  assumes "backing_driver cfg drv off dev" and "BACKING_STORE_WRITE_SIZE cfg = WS2"
    and "wl_log cfg m es wa" and "c = fold entry_apply es (wl_base cfg m)"
    and "p \<noteq> []" and "length p \<le> 5" and "unat a + length p \<le> WEAR_LEVELING_LOGICAL_SIZE cfg"
    and "wa + 8 < WEAR_LEVELING_BACKING_SIZE cfg"
    and "off (store w0) (mem_put wa (take 2 (entry_bytes WS2 (Multibyte a p))) m)"
  shows "\<exists>w'. wear_leveling_init cfg drv w0 = Some (WEAR_LEVELING_SUCCESS, w')
    \<and> cache w' = mem_put (unat a - unat a mod 256) (replicate (length p) 0) c"
  using backing_driver.torn_write_dev [OF assms] .

lemma nor_torn_bytes: "take 2 (entry_bytes WS2 (Multibyte 70 [1, 2, 3])) = [24, 0]"
  by code_simp

theorem wl_torn_entry_zeroes_page_witness:
  "\<exists>w'. wear_leveling_init nor_cfg nor_driver
      (nor_wl\<lparr>store := nor_with (mem_put 106 [24, 0] nor_word_image)\<rparr>) = Some (WEAR_LEVELING_SUCCESS, w')
    \<and> cache w' = mem_put (unat (70 :: u32) - unat (70 :: u32) mod 256) [0, 0, 0]
        (fold entry_apply [Word_01 10 1] (wl_base nor_cfg nor_word_image))"
  using wl_torn_entry_zeroes_page [OF nor_backing _ nor_word_log refl, of "[1, 2, 3]" 70
      "nor_wl\<lparr>store := nor_with (mem_put 106 [24, 0] nor_word_image)\<rparr>"]
    nor_with_off [of "mem_put 106 [24, 0] nor_word_image"]
  by (simp add: nor_fields nor_torn_bytes length_simps nor_word_image_def)

text \<open>
  A corrupted entry whose three-bit length is 6 or 7 passes the bounds check of the playback,
  and the copy into the cache then reads behind the eight bytes of the entry: undefined behaviour.
\<close>

theorem wl_overlong_entry_undefined:
  assumes "backing_driver cfg drv off dev" and "dev (store w) m u" and "x mod wsz cfg = 0"
    and "x + 8 \<le> WEAR_LEVELING_BACKING_SIZE cfg"
    and "LOG_ENTRY_GET_TYPE (mem_get x 3 m) = LOG_ENTRY_TYPE_MULTIBYTE"
    and "5 < unat (LOG_ENTRY_MULTIBYTE_GET_LENGTH (mem_get x 3 m))"
    and "unat (LOG_ENTRY_MULTIBYTE_GET_ADDRESS (mem_get x 3 m))
      + unat (LOG_ENTRY_MULTIBYTE_GET_LENGTH (mem_get x 3 m)) \<le> WEAR_LEVELING_LOGICAL_SIZE cfg"
  shows "playback_entry cfg drv (x + wsz cfg) (mem_get x (wsz cfg) m) w = Playback_undefined"
  using backing_driver.playback_overlong_dev [OF assms] .

definition nor_overlong_image :: "u8 list" where
  "nor_overlong_image = replicate 104 0 @ [48, 0, 7] @ replicate 85 1"

lemma nor_overlong_fields:
  "LOG_ENTRY_GET_TYPE [48, 0, 7] = LOG_ENTRY_TYPE_MULTIBYTE"
  "unat (LOG_ENTRY_MULTIBYTE_GET_LENGTH [48, 0, 7]) = 6"
  "unat (LOG_ENTRY_MULTIBYTE_GET_ADDRESS [48, 0, 7]) = 7"
  by code_simp+

theorem wl_overlong_entry_undefined_witness:
  "playback_entry nor_cfg nor_driver (104 + wsz nor_cfg) (mem_get 104 (wsz nor_cfg) nor_overlong_image)
     (nor_wl\<lparr>store := nor_with nor_overlong_image\<rparr>) = Playback_undefined"
proof (rule wl_overlong_entry_undefined [OF nor_backing])
  show "nor.efl_dev (store (nor_wl\<lparr>store := nor_with nor_overlong_image\<rparr>)) nor_overlong_image False"
    using nor_with_dev [of nor_overlong_image] by (simp add: nor_overlong_image_def)
qed (simp_all add: nor_fields nor_overlong_image_def mem_get_def nor_overlong_fields)

text \<open>
  The bounds check of a write is computed in 32 bits: a write of two bytes at the last address
  of the address space passes it and accesses memory outside the cache.
\<close>

theorem wl_write_bounds_check_wraps:
  assumes "length (cache w) < 2 ^ 32 - 1" and "1 \<le> WEAR_LEVELING_LOGICAL_SIZE cfg"
  shows "wear_leveling_write cfg drv 0xFFFFFFFF [x, y] w = None"
proof -
  have "unat ((0xFFFFFFFF :: u32) + of_nat (length [x, y])) = 1" by simp
  then show ?thesis using assms by (simp add: wear_leveling_write_def)
qed

theorem wl_write_bounds_check_wraps_witness:
  "wear_leveling_write nor_cfg nor_driver 0xFFFFFFFF [1, 2] nor_wl = None"
  by (rule wl_write_bounds_check_wraps) (simp_all add: nor_wl_def nor_fields)

end
