(* ===== verification/Eeprom.thy ===== *)
theory Eeprom
  imports WlProps
begin

text \<open>
  The EEPROM interface of the firmware (drivers/eeprom/eeprom_driver.c) over its block functions,
  and the block functions of the wear-leveling implementation
  (drivers/eeprom/eeprom_wear_leveling.c). \<open>None\<close> stands for undefined behaviour or a halt.
\<close>

section \<open>Block functions\<close>

text \<open>The two functions a driver provides: a read gives the bytes stored into the buffer, which are
  none if the read is refused; errors are not reported to the caller.\<close>

record 'e eeprom_driver =
  eeprom_read_block :: "u32 \<Rightarrow> nat \<Rightarrow> 'e \<Rightarrow> u8 list option"
  eeprom_write_block :: "u32 \<Rightarrow> u8 list \<Rightarrow> 'e \<Rightarrow> 'e option"

definition wl_eeprom_init :: "wl_cfg \<Rightarrow> 's bs_driver \<Rightarrow> 's wear_leveling \<Rightarrow> 's wear_leveling option" where
  "wl_eeprom_init cfg drv w = map_option snd (wear_leveling_init cfg drv w)"

definition wl_eeprom_erase :: "wl_cfg \<Rightarrow> 's bs_driver \<Rightarrow> 's wear_leveling \<Rightarrow> 's wear_leveling" where
  "wl_eeprom_erase cfg drv w = snd (wear_leveling_erase cfg drv w)"

definition wl_eeprom_read_block :: "wl_cfg \<Rightarrow> u32 \<Rightarrow> nat \<Rightarrow> 's wear_leveling \<Rightarrow> u8 list option" where
  "wl_eeprom_read_block cfg addr len w = map_option snd (wear_leveling_read cfg addr len w)"

definition wl_eeprom_write_block ::
  "wl_cfg \<Rightarrow> 's bs_driver \<Rightarrow> u32 \<Rightarrow> u8 list \<Rightarrow> 's wear_leveling \<Rightarrow> 's wear_leveling option" where
  "wl_eeprom_write_block cfg drv addr buf w = map_option snd (wear_leveling_write cfg drv addr buf w)"

definition wl_eeprom :: "wl_cfg \<Rightarrow> 's bs_driver \<Rightarrow> 's wear_leveling eeprom_driver" where
  "wl_eeprom cfg drv = \<lparr>eeprom_read_block = wl_eeprom_read_block cfg,
     eeprom_write_block = wl_eeprom_write_block cfg drv\<rparr>"

section \<open>Bytes, words and blocks\<close>

text \<open>A scalar is the little-endian image of its bytes; its variable starts as 0, so what a refused
  read leaves is 0.\<close>

definition scalar_bytes :: "nat \<Rightarrow> nat \<Rightarrow> u8 list" where
  "scalar_bytes n x = map (\<lambda>i. of_nat (x div 256 ^ i)) [0..<n]"

fun bytes_scalar :: "u8 list \<Rightarrow> nat" where
  "bytes_scalar [] = 0"
| "bytes_scalar (b # bs) = unat b + 256 * bytes_scalar bs"

definition read_scalar :: "'e eeprom_driver \<Rightarrow> u32 \<Rightarrow> nat \<Rightarrow> 'e \<Rightarrow> nat option" where
  "read_scalar ee addr n e = map_option bytes_scalar (eeprom_read_block ee addr n e)"

definition eeprom_read_byte :: "'e eeprom_driver \<Rightarrow> u32 \<Rightarrow> 'e \<Rightarrow> u8 option" where
  "eeprom_read_byte ee addr e = map_option of_nat (read_scalar ee addr 1 e)"

definition eeprom_read_word :: "'e eeprom_driver \<Rightarrow> u32 \<Rightarrow> 'e \<Rightarrow> u16 option" where
  "eeprom_read_word ee addr e = map_option of_nat (read_scalar ee addr 2 e)"

definition eeprom_read_dword :: "'e eeprom_driver \<Rightarrow> u32 \<Rightarrow> 'e \<Rightarrow> u32 option" where
  "eeprom_read_dword ee addr e = map_option of_nat (read_scalar ee addr 4 e)"

definition eeprom_write_byte :: "'e eeprom_driver \<Rightarrow> u32 \<Rightarrow> u8 \<Rightarrow> 'e \<Rightarrow> 'e option" where
  "eeprom_write_byte ee addr v e = eeprom_write_block ee addr (scalar_bytes 1 (unat v)) e"

definition eeprom_write_word :: "'e eeprom_driver \<Rightarrow> u32 \<Rightarrow> u16 \<Rightarrow> 'e \<Rightarrow> 'e option" where
  "eeprom_write_word ee addr v e = eeprom_write_block ee addr (scalar_bytes 2 (unat v)) e"

definition eeprom_write_dword :: "'e eeprom_driver \<Rightarrow> u32 \<Rightarrow> u32 \<Rightarrow> 'e \<Rightarrow> 'e option" where
  "eeprom_write_dword ee addr v e = eeprom_write_block ee addr (scalar_bytes 4 (unat v)) e"

text \<open>The buffer of \<open>eeprom_update_block\<close> is not initialised: comparing it after a refused read is
  undefined.\<close>

definition eeprom_update_block :: "'e eeprom_driver \<Rightarrow> u32 \<Rightarrow> u8 list \<Rightarrow> 'e \<Rightarrow> 'e option" where
  "eeprom_update_block ee addr buf e =
     (case eeprom_read_block ee addr (length buf) e of
        None \<Rightarrow> None
      | Some read_buf \<Rightarrow>
          if length read_buf \<noteq> length buf then None
          else if buf \<noteq> read_buf then eeprom_write_block ee addr buf e else Some e)"

definition eeprom_update_byte :: "'e eeprom_driver \<Rightarrow> u32 \<Rightarrow> u8 \<Rightarrow> 'e \<Rightarrow> 'e option" where
  "eeprom_update_byte ee addr v e =
     (case eeprom_read_byte ee addr e of
        None \<Rightarrow> None
      | Some orig \<Rightarrow> if orig \<noteq> v then eeprom_write_byte ee addr v e else Some e)"

definition eeprom_update_word :: "'e eeprom_driver \<Rightarrow> u32 \<Rightarrow> u16 \<Rightarrow> 'e \<Rightarrow> 'e option" where
  "eeprom_update_word ee addr v e =
     (case eeprom_read_word ee addr e of
        None \<Rightarrow> None
      | Some orig \<Rightarrow> if orig \<noteq> v then eeprom_write_word ee addr v e else Some e)"

definition eeprom_update_dword :: "'e eeprom_driver \<Rightarrow> u32 \<Rightarrow> u32 \<Rightarrow> 'e \<Rightarrow> 'e option" where
  "eeprom_update_dword ee addr v e =
     (case eeprom_read_dword ee addr e of
        None \<Rightarrow> None
      | Some orig \<Rightarrow> if orig \<noteq> v then eeprom_write_dword ee addr v e else Some e)"

section \<open>Scalars and their bytes\<close>

lemma length_scalar_bytes [length_simps]: "length (scalar_bytes n x) = n"
  by (simp add: scalar_bytes_def)

lemma bytes_scalar_round_trip: "bytes_scalar (scalar_bytes n x) = x mod 256 ^ n"
proof (induction n arbitrary: x)
  case 0
  then show ?case by (simp add: scalar_bytes_def)
next
  case (Suc n)
  have "scalar_bytes (Suc n) x = of_nat x # scalar_bytes n (x div 256)"
    by (simp add: scalar_bytes_def upt_conv_Cons map_Suc_upt [symmetric] div_mult2_eq del: upt_Suc)
  then show ?case
    using Suc.IH [of "x div 256"] by (simp add: unat_of_nat mod_mult2_eq)
qed

section \<open>The contract of a working EEPROM\<close>

text \<open>What the clients rely on: the contents are an array of \<open>size_of\<close> bytes, in-range operations
  read and change exactly the addressed bytes and keep the invariant.\<close>

locale eeprom_store =
  fixes ee :: "'e eeprom_driver" and inv :: "'e \<Rightarrow> bool" and contents :: "'e \<Rightarrow> u8 list"
    and size_of :: nat
  assumes size_bound: "size_of \<le> 2 ^ 31"
    and contents_size: "inv e \<Longrightarrow> length (contents e) = size_of"
    and read_law: "inv e \<Longrightarrow> unat a + n \<le> size_of
      \<Longrightarrow> eeprom_read_block ee a n e = Some (mem_get (unat a) n (contents e))"
    and write_law: "inv e \<Longrightarrow> unat a + length p \<le> size_of
      \<Longrightarrow> \<exists>e'. eeprom_write_block ee a p e = Some e' \<and> inv e'
            \<and> contents e' = mem_put (unat a) p (contents e)"
begin

lemma read_byte: "inv e \<Longrightarrow> unat a < size_of \<Longrightarrow> eeprom_read_byte ee a e = Some (contents e ! unat a)"
  using read_law [of e a 1] contents_size [of e]
  by (simp add: eeprom_read_byte_def read_scalar_def mem_get_def drop_Suc_Cons
    take_Suc_conv_app_nth hd_drop_conv_nth flip: Cons_nth_drop_Suc)

lemma update_byte:
  assumes "inv e" and "unat a < size_of"
  shows "\<exists>e'. eeprom_update_byte ee a v e = Some e' \<and> inv e' \<and> contents e' = (contents e)[unat a := v]"
proof (cases "contents e ! unat a = v")
  case True
  then show ?thesis using assms read_byte by (auto simp: eeprom_update_byte_def)
next
  case False
  have "scalar_bytes 1 (unat v) = [v]" by (simp add: scalar_bytes_def)
  then show ?thesis
    using False assms read_byte write_law [of e a "[v]"] contents_size [of e]
    by (simp add: eeprom_update_byte_def eeprom_write_byte_def mem_put_def upd_conv_take_nth_drop)
qed

lemma update_block:
  assumes "inv e" and "unat a + length p \<le> size_of"
  shows "\<exists>e'. eeprom_update_block ee a p e = Some e' \<and> inv e' \<and> contents e' = mem_put (unat a) p (contents e)"
proof -
  have r: "eeprom_read_block ee a (length p) e = Some (mem_get (unat a) (length p) (contents e))"
    using read_law assms by simp
  have l: "length (mem_get (unat a) (length p) (contents e)) = length p"
    using assms contents_size [of e] by (simp add: length_simps)
  show ?thesis
  proof (cases "p = mem_get (unat a) (length p) (contents e)")
    case True
    then have "mem_put (unat a) p (contents e) = contents e"
      using mem_put_unchanged [of "unat a" "length p" "contents e"] assms contents_size [of e] by simp
    then show ?thesis using r l True assms by (simp add: eeprom_update_block_def)
  next
    case False
    then show ?thesis using r l write_law [OF assms] by (simp add: eeprom_update_block_def)
  qed
qed

lemma scalar_bytes_of_image:
  "length bs = n \<Longrightarrow> scalar_bytes n (bytes_scalar bs) = bs"
proof (induction bs arbitrary: n)
  case Nil
  then show ?case by (simp add: scalar_bytes_def)
next
  case (Cons b bs)
  let ?x = "bytes_scalar (b # bs)"
  have "scalar_bytes (Suc (length bs)) ?x = of_nat ?x # scalar_bytes (length bs) (?x div 256)"
    by (simp add: scalar_bytes_def upt_conv_Cons map_Suc_upt [symmetric] div_mult2_eq
      del: upt_Suc bytes_scalar.simps)
  moreover have "?x div 256 = bytes_scalar bs"
    using unat_less_bits [of b] by simp
  moreover have "(of_nat ?x :: u8) = b"
    unfolding word_unat_eq_iff unat_of_nat using unat_less_bits [of b] by simp
  ultimately show ?case using Cons by simp
qed

lemma bytes_scalar_less: "bytes_scalar bs < 256 ^ length bs"
proof (induction bs)
  case (Cons b bs)
  then show ?case using unat_less_bits [of b] by simp
qed simp

lemma read_scalar: "inv e \<Longrightarrow> unat a + n \<le> size_of
    \<Longrightarrow> read_scalar ee a n e = Some (bytes_scalar (mem_get (unat a) n (contents e)))"
  using read_law by (simp add: read_scalar_def)

lemma update_word:
  assumes "inv e" and "unat a + 2 \<le> size_of"
  shows "\<exists>e'. eeprom_update_word ee a v e = Some e' \<and> inv e'
    \<and> contents e' = mem_put (unat a) (scalar_bytes 2 (unat v)) (contents e)
    \<and> eeprom_read_word ee a e' = Some v"
proof -
  let ?old = "mem_get (unat a) 2 (contents e)"
  have len: "length ?old = 2" using assms contents_size [of e] by (simp add: length_simps)
  have r: "eeprom_read_word ee a e = Some (of_nat (bytes_scalar ?old))"
    using assms read_scalar by (simp add: eeprom_read_word_def)
  obtain e' where w: "eeprom_write_block ee a (scalar_bytes 2 (unat v)) e = Some e'" "inv e'"
    "contents e' = mem_put (unat a) (scalar_bytes 2 (unat v)) (contents e)"
    using write_law [OF assms(1), of a "scalar_bytes 2 (unat v)"] assms(2) by (auto simp: length_simps)
  have v: "bytes_scalar (scalar_bytes 2 (unat v)) = unat v"
    using unat_less_bits [of v] by (simp add: bytes_scalar_round_trip)
  have "mem_get (unat a) 2 (contents e') = scalar_bytes 2 (unat v)"
    using mem_get_put_same [of "unat a" "scalar_bytes 2 (unat v)" "contents e"] assms contents_size [of e]
    by (simp add: w(3) length_simps)
  then have r': "eeprom_read_word ee a e' = Some v"
    using read_scalar [OF w(2) assms(2)] v by (simp add: eeprom_read_word_def)
  show ?thesis
  proof (cases "of_nat (bytes_scalar ?old) = v")
    case True
    have "bytes_scalar ?old < 2 ^ 16" using bytes_scalar_less [of ?old] len by simp
    then have "bytes_scalar ?old = unat v" using True by (auto simp: unat_of_nat)
    then have "scalar_bytes 2 (unat v) = ?old" using scalar_bytes_of_image [OF len] by simp
    then have "mem_put (unat a) (scalar_bytes 2 (unat v)) (contents e) = contents e"
      using mem_put_unchanged [of "unat a" 2 "contents e"] assms contents_size [of e] by simp
    then show ?thesis using True r assms(1) by (simp add: eeprom_update_word_def)
  next
    case False
    then show ?thesis using r w r' by (simp add: eeprom_update_word_def eeprom_write_word_def)
  qed
qed

end

text \<open>The wear-leveling implementation on any device that honours its contract.\<close>

context backing_driver
begin

lemma wl_eeprom_store: "eeprom_store (wl_eeprom cfg drv) (wl_inv cfg dev) cache L"
proof
  show "L \<le> 2 ^ 31" using sizes(4) by simp
  fix e a n p
  assume inv: "wl_inv cfg dev e"
  then show len: "length (cache e) = L" by (simp add: wl_inv_def)
  show "eeprom_read_block (wl_eeprom cfg drv) a n e = Some (mem_get (unat a) n (cache e))"
    if "unat a + n \<le> L"
  proof -
    have "unat (a + of_nat n) = unat a + n"
      using that sizes(4) by (intro unat_add_small) simp
    then show ?thesis using that len
      by (simp add: wl_eeprom_def wl_eeprom_read_block_def wear_leveling_read_def)
  qed
  show "\<exists>e'. eeprom_write_block (wl_eeprom cfg drv) a p e = Some e' \<and> wl_inv cfg dev e'
      \<and> cache e' = mem_put (unat a) p (cache e)" if "unat a + length p \<le> L"
    using write_dev [OF inv that] by (auto simp: wl_eeprom_def wl_eeprom_write_block_def)
qed

end

interpretation nor_ee: eeprom_store "wl_eeprom nor_cfg nor_driver" "wl_inv nor_cfg nor.efl_dev" cache 96
  using backing_driver.wl_eeprom_store [OF nor_backing] by (simp add: nor_fields)

sublocale backing_driver \<subseteq> ee: eeprom_store "wl_eeprom cfg drv" "wl_inv cfg dev" cache L
  by (rule wl_eeprom_store)

section \<open>Properties\<close>

text \<open>
  Updating a 16-bit value of the emulated EEPROM stores it: reading it back gives the value,
  no byte outside its two changes, and this remains so after a power cycle.
\<close>

theorem eeprom_word_persists:
  assumes "backing_driver cfg drv off dev" and "wl_inv cfg dev w"
    and "unat a + 2 \<le> WEAR_LEVELING_LOGICAL_SIZE cfg"
  shows "\<exists>w' w''. eeprom_update_word (wl_eeprom cfg drv) a v w = Some w'
    \<and> eeprom_read_word (wl_eeprom cfg drv) a w' = Some v
    \<and> (\<forall>i < WEAR_LEVELING_LOGICAL_SIZE cfg. i < unat a \<or> unat a + 2 \<le> i \<longrightarrow> cache w' ! i = cache w ! i)
    \<and> wl_step cfg drv Wl_power_cycle w' = Some w''
    \<and> eeprom_read_word (wl_eeprom cfg drv) a w'' = Some v"
proof -
  note store = backing_driver.wl_eeprom_store [OF assms(1)]
  obtain w' where u: "eeprom_update_word (wl_eeprom cfg drv) a v w = Some w'" and i: "wl_inv cfg dev w'"
    and c: "cache w' = mem_put (unat a) (scalar_bytes 2 (unat v)) (cache w)"
    and r: "eeprom_read_word (wl_eeprom cfg drv) a w' = Some v"
    using eeprom_store.update_word [OF store assms(2,3)] by blast
  obtain w'' where p: "wl_step cfg drv Wl_power_cycle w' = Some w''" and i': "wl_inv cfg dev w''"
    and c': "cache w'' = cache w'"
    using backing_driver.step_dev [OF assms(1) i, of Wl_power_cycle] by auto
  have "eeprom_read_word (wl_eeprom cfg drv) a w'' = eeprom_read_word (wl_eeprom cfg drv) a w'"
    using eeprom_store.read_scalar [OF store i assms(3)] eeprom_store.read_scalar [OF store i' assms(3)]
    by (simp add: eeprom_read_word_def c')
  moreover have "length (cache w) = WEAR_LEVELING_LOGICAL_SIZE cfg"
    using assms(2) by (simp add: wl_inv_def)
  then have "\<forall>i < WEAR_LEVELING_LOGICAL_SIZE cfg. i < unat a \<or> unat a + 2 \<le> i
      \<longrightarrow> cache w' ! i = cache w ! i"
    using assms(3) by (simp add: c mem_put_nth length_simps)
  ultimately show ?thesis using u r p by auto
qed

theorem eeprom_word_persists_witness:
  "\<exists>w' w''. eeprom_update_word (wl_eeprom nor_cfg nor_driver) 30 513 nor_wl = Some w'
    \<and> eeprom_read_word (wl_eeprom nor_cfg nor_driver) 30 w' = Some 513
    \<and> (\<forall>i < WEAR_LEVELING_LOGICAL_SIZE nor_cfg. i < unat (30 :: u32) \<or> unat (30 :: u32) + 2 \<le> i
        \<longrightarrow> cache w' ! i = cache nor_wl ! i)
    \<and> wl_step nor_cfg nor_driver Wl_power_cycle w' = Some w''
    \<and> eeprom_read_word (wl_eeprom nor_cfg nor_driver) 30 w'' = Some 513"
  by (rule eeprom_word_persists [OF nor_backing nor_inv]) (simp add: nor_fields)

end
