(* ===== verification/Debounce.thy ===== *)
theory Debounce
  imports Prelude
begin

text \<open>
  Debouncing: the interface of quantum/debounce.h as a locale, the loops over the key matrix that
  the algorithms under quantum/debounce share, and the algorithms none and sym_defer_g, which have
  no per-key or per-row state. A row of the matrix is a word of any width of at least
  \<open>MATRIX_COLS\<close> bits; the time is the value of the free-running fast timer.
\<close>

section \<open>Timer\<close>

text \<open>TIMER_DIFF_FAST and the clamp of the elapsed time to a byte.\<close>

definition TIMER_DIFF_FAST :: "'t::len word \<Rightarrow> 't word \<Rightarrow> 't word" where
  "TIMER_DIFF_FAST a b = a - b"

definition clamp_u8 :: "'t::len word \<Rightarrow> u8" where
  "clamp_u8 e = (if 255 < unat e then 255 else ucast e)"

lemma unat_clamp_u8: "unat (clamp_u8 e) = min 255 (unat e)"
proof (cases "255 < unat e")
  case False
  then have "unat e < 2 ^ 8" by simp
  then have "unat (ucast e :: u8) = unat e" by (simp add: unsigned_ucast_eq take_bit_nat_eq_self)
  then show ?thesis using False by (simp add: clamp_u8_def)
qed (simp add: clamp_u8_def)

section \<open>Loops over the matrix\<close>

text \<open>The bodies of the algorithms visit the cells row by row with one running pointer.\<close>

definition cell_index :: "nat \<Rightarrow> nat \<Rightarrow> nat \<Rightarrow> nat" where
  "cell_index cols row col = row * cols + col"

lemma cell_index_less: "row < n \<Longrightarrow> col < cols \<Longrightarrow> cell_index cols row col < n * cols"
proof -
  assume a: "row < n" "col < cols"
  then have "row * cols + col < Suc row * cols" by simp
  also have "\<dots> \<le> n * cols" using a(1) by (intro mult_le_mono1) simp
  finally show ?thesis by (simp add: cell_index_def)
qed

lemma cell_index_inj:
  "col < cols \<Longrightarrow> col' < cols \<Longrightarrow> cell_index cols row col = cell_index cols row' col'
    \<longleftrightarrow> row = row' \<and> col = col'"
  unfolding cell_index_def
  by (metis add.commute add_left_cancel div_mult_self3 div_less add_0 mod_mult_self3 mod_less
    gr_implies_not0)

lemma cell_index_cover:
  assumes "i < n * cols"
  obtains row col where "row < n" and "col < cols" and "i = cell_index cols row col"
proof
  have "0 < cols" using assms by (cases cols) auto
  then show "i mod cols < cols" by simp
  show "i div cols < n" using assms by (simp add: less_mult_imp_div_less)
  show "i = cell_index cols (i div cols) (i mod cols)" by (simp add: cell_index_def)
qed

lemma fold_cells:
  "fold (\<lambda>row. fold (\<lambda>col. f (cell_index cols row col)) [0..<cols]) [0..<n] s
    = fold f [0..<n * cols] s"
proof (induction n)
  case (Suc n)
  have "fold (\<lambda>col. f (cell_index cols n col)) [0..<cols] t = fold f [n * cols..<n * cols + cols] t" for t
    using fold_map [of f "\<lambda>col. n * cols + col" "[0..<cols]"] map_add_upt [of "n * cols" cols]
    by (simp add: cell_index_def comp_def add.commute)
  moreover have "[0..<Suc n * cols] = [0..<n * cols] @ [n * cols..<n * cols + cols]"
    using upt_add_eq_append [of 0 "n * cols" cols] by (simp add: add.commute)
  ultimately show ?case using Suc by simp
qed simp

section \<open>The interface\<close>

text \<open>
  \<open>deb raw cooked changed now s\<close> is a call of \<open>debounce\<close>; the result is its return value, the new
  contents of \<open>cooked\<close> and the new static variables. Every algorithm gives each key its old
  output or its input, and reports a change exactly when it made one.
\<close>

locale debouncer =
  fixes deb :: "'r::len word list \<Rightarrow> 'r word list \<Rightarrow> bool \<Rightarrow> 't::len word \<Rightarrow> 's
      \<Rightarrow> bool \<times> 'r word list \<times> 's"
    and inv :: "'s \<Rightarrow> bool" and n :: nat
  assumes inv_law: "inv s \<Longrightarrow> length raw = n \<Longrightarrow> length cooked = n
      \<Longrightarrow> deb raw cooked changed now s = (res, cooked', s') \<Longrightarrow> inv s' \<and> length cooked' = n"
    and source_law: "inv s \<Longrightarrow> length raw = n \<Longrightarrow> length cooked = n
      \<Longrightarrow> deb raw cooked changed now s = (res, cooked', s') \<Longrightarrow> r < n
      \<Longrightarrow> bit (cooked' ! r) c = bit (cooked ! r) c \<or> bit (cooked' ! r) c = bit (raw ! r) c"
    and report_law: "inv s \<Longrightarrow> length raw = n \<Longrightarrow> length cooked = n
      \<Longrightarrow> deb raw cooked changed now s = (res, cooked', s') \<Longrightarrow> res \<longleftrightarrow> cooked' \<noteq> cooked"
begin

lemma settled:
  assumes "inv s" and "length raw = n" and "deb raw raw changed now s = (res, cooked', s')"
  shows "cooked' = raw \<and> \<not> res"
proof -
  have "length cooked' = n" using inv_law assms by blast
  moreover have "bit (cooked' ! r) c = bit (raw ! r) c" if "r < n" for r c
    using source_law [OF assms(1,2,2,3) that] by blast
  ultimately have "cooked' = raw"
    using assms(2) by (intro nth_equalityI) (auto intro: bit_word_eqI)
  then show ?thesis using report_law [OF assms(1,2,2,3)] by blast
qed

text \<open>A sequence of scans, each with the matrix read, the changed flag and the time.\<close>

fun scans :: "('r word list \<times> bool \<times> 't word) list \<Rightarrow> 'r word list \<Rightarrow> 's \<Rightarrow> 'r word list \<times> 's" where
  "scans [] cooked s = (cooked, s)"
| "scans ((raw, changed, now) # xs) cooked s =
     (case deb raw cooked changed now s of (res, cooked, s) \<Rightarrow> scans xs cooked s)"

lemma no_phantom:
  assumes "inv s" and "length cooked = n" and "\<forall>(raw, ch, t) \<in> set xs. length raw = n" and "r < n"
  shows "bit (fst (scans xs cooked s) ! r) c = bit (cooked ! r) c
    \<or> (\<exists>(raw, ch, t) \<in> set xs. bit (fst (scans xs cooked s) ! r) c = bit (raw ! r) c)"
  using assms(1-3)
proof (induction xs arbitrary: cooked s)
  case (Cons x xs)
  obtain raw ch t where x: "x = (raw, ch, t)" by (cases x)
  obtain res cooked1 s1 where d: "deb raw cooked ch t s = (res, cooked1, s1)"
    by (metis prod.exhaust)
  have raw: "length raw = n" using Cons.prems(3) x by auto
  note L = inv_law [OF Cons.prems(1) raw Cons.prems(2) d] source_law [OF Cons.prems(1) raw Cons.prems(2) d assms(4), of c]
  have "bit (fst (scans xs cooked1 s1) ! r) c = bit (cooked1 ! r) c
      \<or> (\<exists>(raw, ch, t) \<in> set xs. bit (fst (scans xs cooked1 s1) ! r) c = bit (raw ! r) c)"
    using L(1) Cons.prems(3) by (intro Cons.IH) auto
  then show ?case using L(2) x d by auto
qed simp

end

section \<open>No debouncing, and one timer for the whole matrix\<close>

definition none_debounce ::
  "'r::len word list \<Rightarrow> 'r word list \<Rightarrow> bool \<Rightarrow> 't::len word \<Rightarrow> unit \<Rightarrow> bool \<times> 'r word list \<times> unit" where
  "none_debounce raw cooked changed now s =
     (if changed
      then if cooked \<noteq> raw then (True, raw, s) else (False, cooked, s)
      else (False, cooked, s))"

record 'w defer_g_state =
  debouncing :: bool
  debouncing_time :: 'w

definition defer_g_debounce ::
  "nat \<Rightarrow> 'r::len word list \<Rightarrow> 'r word list \<Rightarrow> bool \<Rightarrow> 't::len word \<Rightarrow> 't word defer_g_state
    \<Rightarrow> bool \<times> 'r word list \<times> 't word defer_g_state" where
  "defer_g_debounce D raw cooked changed now s =
     (if changed
      then (False, cooked, s\<lparr>debouncing := True, debouncing_time := now\<rparr>)
      else if debouncing s \<and> D \<le> unat (TIMER_DIFF_FAST now (debouncing_time s))
      then if cooked \<noteq> raw then (True, raw, s\<lparr>debouncing := False\<rparr>)
           else (False, cooked, s\<lparr>debouncing := False\<rparr>)
      else (False, cooked, s))"

interpretation none: debouncer none_debounce "\<lambda>_. True" n
  by unfold_locales (auto simp: none_debounce_def split: if_splits)

interpretation defer_g: debouncer "defer_g_debounce D" "\<lambda>_. True" n
  by unfold_locales (auto simp: defer_g_debounce_def split: if_splits)

end
