(* ===== verification/DebounceEager.thy ===== *)
theory DebounceEager
  imports Debounce
begin

text \<open>
  The eager algorithms: quantum/debounce/sym_eager_pk.c, which reports a key's change at once and
  then ignores that key for DEBOUNCE milliseconds, and sym_eager_pr.c, which does the same for
  whole rows. Both keep the static variables of \<open>debounce_state\<close>.
\<close>

record 'w debounce_state =
  debounce_counters :: "u8 list"
  last_time :: 'w
  counters_need_update :: bool
  matrix_need_update :: bool
  cooked_changed :: bool

section \<open>Per key\<close>

definition epk_init :: "nat \<Rightarrow> nat \<Rightarrow> 't::len word debounce_state" where
  "epk_init cols n =
     \<lparr>debounce_counters = fold (\<lambda>i xs. xs @ [0]) [0..<n * cols] [], last_time = 0,
      counters_need_update = False, matrix_need_update = False, cooked_changed = False\<rparr>"

definition epk_update_cell :: "u8 \<Rightarrow> nat \<Rightarrow> 't::len word debounce_state \<Rightarrow> 't word debounce_state" where
  "epk_update_cell elapsed i s =
     (let p = debounce_counters s ! i
      in if p \<noteq> 0
         then if p \<le> elapsed
              then s\<lparr>debounce_counters := (debounce_counters s)[i := 0], matrix_need_update := True\<rparr>
              else s\<lparr>debounce_counters := (debounce_counters s)[i := p - elapsed],
                     counters_need_update := True\<rparr>
         else s)"

definition epk_update_debounce_counters ::
  "nat \<Rightarrow> nat \<Rightarrow> u8 \<Rightarrow> 't::len word debounce_state \<Rightarrow> 't word debounce_state" where
  "epk_update_debounce_counters cols n elapsed s =
     fold (\<lambda>row. fold (\<lambda>col. epk_update_cell elapsed (cell_index cols row col)) [0..<cols]) [0..<n]
       (s\<lparr>counters_need_update := False, matrix_need_update := False\<rparr>)"

definition epk_transfer_cell ::
  "nat \<Rightarrow> u8 \<Rightarrow> 'r::len word \<Rightarrow> nat \<Rightarrow> nat \<Rightarrow> 't::len word debounce_state \<times> 'r word
    \<Rightarrow> 't word debounce_state \<times> 'r word" where
  "epk_transfer_cell cols D delta row col x =
     (case x of (s, existing_row) \<Rightarrow>
        let col_mask = push_bit col 1; i = cell_index cols row col
        in if delta AND col_mask \<noteq> 0
           then if debounce_counters s ! i = 0
                then (s\<lparr>debounce_counters := (debounce_counters s)[i := D],
                        counters_need_update := True, cooked_changed := True\<rparr>,
                      existing_row XOR col_mask)
                else (s, existing_row)
           else (s, existing_row))"

definition epk_transfer_row ::
  "nat \<Rightarrow> u8 \<Rightarrow> 'r::len word list \<Rightarrow> nat \<Rightarrow> 't::len word debounce_state \<times> 'r word list
    \<Rightarrow> 't word debounce_state \<times> 'r word list" where
  "epk_transfer_row cols D raw row x =
     (case x of (s, cooked) \<Rightarrow>
        let delta = raw ! row XOR cooked ! row
        in case fold (epk_transfer_cell cols D delta row) [0..<cols] (s, cooked ! row) of
          (s, existing_row) \<Rightarrow> (s, cooked[row := existing_row]))"

definition epk_transfer_matrix_values ::
  "nat \<Rightarrow> u8 \<Rightarrow> 'r::len word list \<Rightarrow> 'r word list \<Rightarrow> nat \<Rightarrow> 't::len word debounce_state
    \<Rightarrow> 't word debounce_state \<times> 'r word list" where
  "epk_transfer_matrix_values cols D raw cooked n s =
     fold (epk_transfer_row cols D raw) [0..<n] (s\<lparr>matrix_need_update := False\<rparr>, cooked)"

definition epk_debounce ::
  "nat \<Rightarrow> u8 \<Rightarrow> nat \<Rightarrow> 'r::len word list \<Rightarrow> 'r word list \<Rightarrow> bool \<Rightarrow> 't::len word
    \<Rightarrow> 't word debounce_state \<Rightarrow> bool \<times> 'r word list \<times> 't word debounce_state" where
  "epk_debounce cols D n raw cooked changed now s =
     (let s = s\<lparr>cooked_changed := False\<rparr>;
          (updated_last, s) =
            (if counters_need_update s
             then let elapsed_time = TIMER_DIFF_FAST now (last_time s);
                      s = s\<lparr>last_time := now\<rparr>
                  in (True, if 0 < clamp_u8 elapsed_time
                            then epk_update_debounce_counters cols n (clamp_u8 elapsed_time) s else s)
             else (False, s))
      in if changed \<or> matrix_need_update s
         then case epk_transfer_matrix_values cols D raw cooked n
                     (if updated_last then s else s\<lparr>last_time := now\<rparr>) of
           (s, cooked) \<Rightarrow> (cooked_changed s, cooked, s)
         else (cooked_changed s, cooked, s))"

subsection \<open>What the loops compute\<close>

definition count_down :: "u8 \<Rightarrow> u8 \<Rightarrow> u8" where
  "count_down elapsed p = (if p \<le> elapsed then 0 else p - elapsed)"

lemma unat_count_down: "unat (count_down e p) = unat p - unat e"
  by (auto simp: count_down_def word_le_nat_alt unat_sub)

lemma count_down_0: "count_down e p = 0 \<longleftrightarrow> p \<le> e"
  using unat_count_down [of e p] by (simp add: word_le_nat_alt flip: unat_eq_0)

lemma epk_update_counters:
  fixes s :: "'t::len word debounce_state"
  assumes "n * cols \<le> length (debounce_counters s)" and "s' = epk_update_debounce_counters cols n e s"
  shows "length (debounce_counters s') = length (debounce_counters s)"
    and "i < n * cols \<Longrightarrow> debounce_counters s' ! i = count_down e (debounce_counters s ! i)"
    and "counters_need_update s' \<longleftrightarrow> (\<exists>i < n * cols. debounce_counters s' ! i \<noteq> 0)"
    and "matrix_need_update s'
      \<longleftrightarrow> (\<exists>i < n * cols. debounce_counters s ! i \<noteq> 0 \<and> debounce_counters s' ! i = 0)"
    and "last_time s' = last_time s" and "cooked_changed s' = cooked_changed s"
proof -
  let ?s0 = "s\<lparr>counters_need_update := False, matrix_need_update := False\<rparr>"
  let ?c = "\<lambda>i. debounce_counters s ! i"
  let ?P = "\<lambda>V (t :: 't word debounce_state). length (debounce_counters t) = length (debounce_counters s)
    \<and> (\<forall>i < n * cols. debounce_counters t ! i = (if i \<in> V then count_down e (?c i) else ?c i))
    \<and> (counters_need_update t \<longleftrightarrow> (\<exists>i \<in> V. count_down e (?c i) \<noteq> 0))
    \<and> (matrix_need_update t \<longleftrightarrow> (\<exists>i \<in> V. ?c i \<noteq> 0 \<and> count_down e (?c i) = 0))
    \<and> last_time t = last_time s \<and> cooked_changed t = cooked_changed s"
  have s': "s' = fold (epk_update_cell e) [0..<n * cols] ?s0"
    unfolding assms(2) epk_update_debounce_counters_def fold_cells ..
  have "?P (set [0..<n * cols]) s'"
    unfolding s'
  proof (rule fold_visited)
    fix V i t
    assume i: "i \<in> set [0..<n * cols]" "i \<notin> V" and P: "?P V t"
    then show "?P (insert i V) (epk_update_cell e i t)"
      using assms(1)
      by (auto simp: epk_update_cell_def Let_def count_down_def nth_list_update)
  qed auto
  then show "length (debounce_counters s') = length (debounce_counters s)"
    and "i < n * cols \<Longrightarrow> debounce_counters s' ! i = count_down e (?c i)"
    and "counters_need_update s' \<longleftrightarrow> (\<exists>i < n * cols. debounce_counters s' ! i \<noteq> 0)"
    and "matrix_need_update s'
      \<longleftrightarrow> (\<exists>i < n * cols. ?c i \<noteq> 0 \<and> debounce_counters s' ! i = 0)"
    and "last_time s' = last_time s" and "cooked_changed s' = cooked_changed s"
    by auto
qed

text \<open>A key fires if its input differs from its output and its counter has elapsed.\<close>

definition fires :: "nat \<Rightarrow> 'r::len word list \<Rightarrow> 'r word list \<Rightarrow> u8 list \<Rightarrow> nat \<Rightarrow> nat \<Rightarrow> bool" where
  "fires cols raw cooked cs r c \<longleftrightarrow>
     bit (raw ! r) c \<noteq> bit (cooked ! r) c \<and> cs ! cell_index cols r c = 0"

lemma bit_xor_mask: "bit (x XOR push_bit c (1 :: 'r::len word)) k
    \<longleftrightarrow> (if k = c \<and> c < LENGTH('r) then \<not> bit x k else bit x k)"
  by (auto simp: bit_simps dest: bit_imp_le_length)

lemma epk_transfer_row_cells:
  fixes s :: "'t::len word debounce_state" and delta existing :: "'r::len word"
  assumes "cols \<le> LENGTH('r)" and "row < n" and "n * cols \<le> length (debounce_counters s)"
    and "(s', existing') = fold (epk_transfer_cell cols D delta row) [0..<cols] (s, existing)"
  defines "fire \<equiv> \<lambda>c. c < cols \<and> bit delta c \<and> debounce_counters s ! cell_index cols row c = 0"
  shows "length (debounce_counters s') = length (debounce_counters s)"
    and "r < n \<Longrightarrow> c < cols \<Longrightarrow> debounce_counters s' ! cell_index cols r c
      = (if r = row \<and> fire c then D else debounce_counters s ! cell_index cols r c)"
    and "bit existing' k = (if fire k then \<not> bit existing k else bit existing k)"
    and "counters_need_update s' \<longleftrightarrow> counters_need_update s \<or> (\<exists>c. fire c)"
    and "cooked_changed s' \<longleftrightarrow> cooked_changed s \<or> (\<exists>c. fire c)"
    and "matrix_need_update s' = matrix_need_update s" and "last_time s' = last_time s"
proof -
  let ?P = "\<lambda>V (x :: 't word debounce_state \<times> 'r word).
    length (debounce_counters (fst x)) = length (debounce_counters s)
    \<and> (\<forall>r < n. \<forall>c < cols. debounce_counters (fst x) ! cell_index cols r c
        = (if r = row \<and> c \<in> V \<and> fire c then D else debounce_counters s ! cell_index cols r c))
    \<and> (\<forall>k. bit (snd x) k = (if k \<in> V \<and> fire k then \<not> bit existing k else bit existing k))
    \<and> (counters_need_update (fst x) \<longleftrightarrow> counters_need_update s \<or> (\<exists>c \<in> V. fire c))
    \<and> (cooked_changed (fst x) \<longleftrightarrow> cooked_changed s \<or> (\<exists>c \<in> V. fire c))
    \<and> matrix_need_update (fst x) = matrix_need_update s \<and> last_time (fst x) = last_time s"
  have "?P (set [0..<cols]) (s', existing')"
    unfolding assms(4)
  proof (rule fold_visited)
    fix V c and x :: "'t word debounce_state \<times> 'r word"
    assume c: "c \<in> set [0..<cols]" "c \<notin> V" and P: "?P V x"
    obtain t e where x: "x = (t, e)" by (cases x)
    have cc: "c < cols" "c < LENGTH('r)" using c(1) assms(1) by auto
    have i: "cell_index cols row c < length (debounce_counters t)"
      using cell_index_less [OF assms(2) cc(1)] assms(3) P x by simp
    have now: "debounce_counters t ! cell_index cols row c = debounce_counters s ! cell_index cols row c"
      using P c(2) assms(2) cc(1) x by simp
    have m: "delta AND push_bit c 1 \<noteq> 0 \<longleftrightarrow> bit delta c" by (rule and_one_shift_neq_0)
    show "?P (insert c V) (epk_transfer_cell cols D delta row c x)"
    proof (cases "fire c")
      case True
      let ?t = "t\<lparr>debounce_counters := (debounce_counters t)[cell_index cols row c := D],
               counters_need_update := True, cooked_changed := True\<rparr>"
      have cells: "debounce_counters ?t ! cell_index cols r c'
          = (if r = row \<and> c' \<in> insert c V \<and> fire c' then D
             else debounce_counters s ! cell_index cols r c')" if "r < n" "c' < cols" for r c'
      proof (cases "r = row \<and> c' = c")
        case True
        then show ?thesis using i \<open>fire c\<close> by simp
      next
        case False
        then have "cell_index cols row c \<noteq> cell_index cols r c'"
          unfolding cell_index_inj [OF cc(1) that(2)] by auto
        then have "debounce_counters ?t ! cell_index cols r c' = debounce_counters t ! cell_index cols r c'"
          by simp
        also have "\<dots> = (if r = row \<and> c' \<in> V \<and> fire c' then D
            else debounce_counters s ! cell_index cols r c')"
          using P that x by simp
        finally show ?thesis using False by (simp only: insert_iff) auto
      qed
      have bits: "bit (e XOR push_bit c 1) k
          = (if k \<in> insert c V \<and> fire k then \<not> bit existing k else bit existing k)" for k
      proof (cases "k = c")
        case True
        then show ?thesis using P c(2) cc(2) \<open>fire c\<close> x unfolding bit_xor_mask by simp
      next
        case False
        then show ?thesis using P x unfolding bit_xor_mask by simp
      qed
      have step: "epk_transfer_cell cols D delta row c x = (?t, e XOR push_bit c 1)"
        using True m now x by (simp add: epk_transfer_cell_def fire_def)
      show ?thesis
        unfolding step fst_conv snd_conv
        apply (intro conjI)
        subgoal using P x by simp
        subgoal using cells by blast
        subgoal using bits by blast
        subgoal using \<open>fire c\<close> by simp
        subgoal using \<open>fire c\<close> by simp
        subgoal using P x by simp
        subgoal using P x by simp
        done
    next
      case False
      then have "epk_transfer_cell cols D delta row c x = x"
        using m now x cc by (auto simp: epk_transfer_cell_def fire_def Let_def)
      then show ?thesis using P False by auto
    qed
  qed auto
  then show "length (debounce_counters s') = length (debounce_counters s)"
    and "r < n \<Longrightarrow> c < cols \<Longrightarrow> debounce_counters s' ! cell_index cols r c
      = (if r = row \<and> fire c then D else debounce_counters s ! cell_index cols r c)"
    and "bit existing' k = (if fire k then \<not> bit existing k else bit existing k)"
    and "counters_need_update s' \<longleftrightarrow> counters_need_update s \<or> (\<exists>c. fire c)"
    and "cooked_changed s' \<longleftrightarrow> cooked_changed s \<or> (\<exists>c. fire c)"
    and "matrix_need_update s' = matrix_need_update s" and "last_time s' = last_time s"
    by (auto simp: fire_def)
qed

lemma epk_transfer:
  fixes s :: "'t::len word debounce_state" and raw cooked :: "'r::len word list"
  assumes "cols \<le> LENGTH('r)" and "length cooked = n" and "n * cols \<le> length (debounce_counters s)"
    and "(s', cooked') = epk_transfer_matrix_values cols D raw cooked n s"
  defines "fire \<equiv> fires cols raw cooked (debounce_counters s)"
  shows "length (debounce_counters s') = length (debounce_counters s)" and "length cooked' = n"
    and "r < n \<Longrightarrow> c < cols \<Longrightarrow> debounce_counters s' ! cell_index cols r c
      = (if fire r c then D else debounce_counters s ! cell_index cols r c)"
    and "r < n \<Longrightarrow> bit (cooked' ! r) k = (if k < cols \<and> fire r k then \<not> bit (cooked ! r) k else bit (cooked ! r) k)"
    and "counters_need_update s' \<longleftrightarrow> counters_need_update s \<or> (\<exists>r < n. \<exists>c < cols. fire r c)"
    and "cooked_changed s' \<longleftrightarrow> cooked_changed s \<or> (\<exists>r < n. \<exists>c < cols. fire r c)"
    and "\<not> matrix_need_update s'" and "last_time s' = last_time s"
proof -
  let ?P = "\<lambda>V (x :: 't word debounce_state \<times> 'r word list).
    length (debounce_counters (fst x)) = length (debounce_counters s) \<and> length (snd x) = n
    \<and> (\<forall>r < n. \<forall>c < cols. debounce_counters (fst x) ! cell_index cols r c
        = (if r \<in> V \<and> fire r c then D else debounce_counters s ! cell_index cols r c))
    \<and> (\<forall>r < n. \<forall>k. bit (snd x ! r) k
        = (if r \<in> V \<and> k < cols \<and> fire r k then \<not> bit (cooked ! r) k else bit (cooked ! r) k))
    \<and> (counters_need_update (fst x) \<longleftrightarrow> counters_need_update s \<or> (\<exists>r \<in> V. \<exists>c < cols. fire r c))
    \<and> (cooked_changed (fst x) \<longleftrightarrow> cooked_changed s \<or> (\<exists>r \<in> V. \<exists>c < cols. fire r c))
    \<and> \<not> matrix_need_update (fst x) \<and> last_time (fst x) = last_time s"
  have "?P (set [0..<n]) (s', cooked')"
    unfolding assms(4) epk_transfer_matrix_values_def
  proof (rule fold_visited)
    fix V row and x :: "'t word debounce_state \<times> 'r word list"
    assume row: "row \<in> set [0..<n]" "row \<notin> V" and P: "?P V x"
    obtain t ck where x: "x = (t, ck)" by (cases x)
    have rn: "row < n" using row(1) by simp
    have same: "ck ! row = cooked ! row"
      using P row(2) rn x by (intro bit_word_eqI) simp
    let ?delta = "raw ! row XOR ck ! row"
    obtain t' e where f: "(t', e) = fold (epk_transfer_cell cols D ?delta row) [0..<cols] (t, ck ! row)"
      by (metis prod.collapse)
    have nt: "n * cols \<le> length (debounce_counters t)" using P x assms(3) by simp
    have fire: "(c < cols \<and> bit ?delta c \<and> debounce_counters t ! cell_index cols row c = 0)
        \<longleftrightarrow> c < cols \<and> fire row c" for c
      using P rn row(2) x same by (auto simp: fire_def fires_def bit_xor_iff)
    note R = epk_transfer_row_cells [OF assms(1) rn nt f, unfolded fire]
    have "epk_transfer_row cols D raw row x = (t', ck[row := e])"
      using f [symmetric] by (simp add: epk_transfer_row_def x)
    then show "?P (insert row V) (epk_transfer_row cols D raw row x)"
      using P R rn x row(2) same by (auto simp: nth_list_update)
  qed (use assms(2) in auto)
  then show "length (debounce_counters s') = length (debounce_counters s)" and "length cooked' = n"
    and "r < n \<Longrightarrow> c < cols \<Longrightarrow> debounce_counters s' ! cell_index cols r c
      = (if fire r c then D else debounce_counters s ! cell_index cols r c)"
    and "r < n \<Longrightarrow> bit (cooked' ! r) k = (if k < cols \<and> fire r k then \<not> bit (cooked ! r) k else bit (cooked ! r) k)"
    and "counters_need_update s' \<longleftrightarrow> counters_need_update s \<or> (\<exists>r < n. \<exists>c < cols. fire r c)"
    and "cooked_changed s' \<longleftrightarrow> cooked_changed s \<or> (\<exists>r < n. \<exists>c < cols. fire r c)"
    and "\<not> matrix_need_update s'" and "last_time s' = last_time s"
    by (simp_all add: Bex_def)
qed

subsection \<open>The step of one key\<close>

text \<open>What a call does to the counter and the output of one key: \<open>active\<close> says whether the matrix
  is transferred at all.\<close>

definition epk_key :: "u8 \<Rightarrow> u8 \<Rightarrow> bool \<Rightarrow> bool \<Rightarrow> u8 \<times> bool \<Rightarrow> u8 \<times> bool" where
  "epk_key D elapsed active input key =
     (let p = count_down elapsed (fst key)
      in if active \<and> input \<noteq> snd key \<and> p = 0 then (D, \<not> snd key) else (p, snd key))"

definition epk_inv :: "nat \<Rightarrow> nat \<Rightarrow> 't::len word debounce_state \<Rightarrow> bool" where
  "epk_inv cols n s \<longleftrightarrow> length (debounce_counters s) = n * cols \<and> \<not> matrix_need_update s
     \<and> (counters_need_update s \<longleftrightarrow> (\<exists>i < n * cols. debounce_counters s ! i \<noteq> 0))"

text \<open>Milliseconds by which the call at \<open>now\<close> ages the counters, and whether it transfers.\<close>

definition epk_elapsed :: "'t::len word \<Rightarrow> 't word debounce_state \<Rightarrow> u8" where
  "epk_elapsed now s = (if counters_need_update s then clamp_u8 (TIMER_DIFF_FAST now (last_time s)) else 0)"

definition epk_active :: "nat \<Rightarrow> nat \<Rightarrow> bool \<Rightarrow> 't::len word \<Rightarrow> 't word debounce_state \<Rightarrow> bool" where
  "epk_active cols n changed now s \<longleftrightarrow> changed \<or>
     (\<exists>i < n * cols. debounce_counters s ! i \<noteq> 0 \<and> count_down (epk_elapsed now s) (debounce_counters s ! i) = 0)"

lemma count_down_by_0 [simp]: "count_down 0 p = p"
  by (simp add: count_down_def)

lemma epk_step:
  fixes s :: "'t::len word debounce_state" and raw cooked :: "'r::len word list"
  assumes cols: "cols \<le> LENGTH('r)" and D: "D \<noteq> 0" and inv: "epk_inv cols n s"
    and len: "length cooked = n"
    and deb: "epk_debounce cols D n raw cooked changed now s = (res, cooked', s')"
  defines "fire \<equiv> \<lambda>r c. epk_active cols n changed now s \<and> bit (raw ! r) c \<noteq> bit (cooked ! r) c
      \<and> count_down (epk_elapsed now s) (debounce_counters s ! cell_index cols r c) = 0"
  shows "epk_inv cols n s'" and "length cooked' = n"
    and "res \<longleftrightarrow> (\<exists>r < n. \<exists>c < cols. fire r c)"
    and "r < n \<Longrightarrow> c < cols \<Longrightarrow>
      (debounce_counters s' ! cell_index cols r c, bit (cooked' ! r) c)
        = epk_key D (epk_elapsed now s) (epk_active cols n changed now s) (bit (raw ! r) c)
            (debounce_counters s ! cell_index cols r c, bit (cooked ! r) c)"
    and "r < n \<Longrightarrow> \<not> c < cols \<Longrightarrow> bit (cooked' ! r) c = bit (cooked ! r) c"
    and "counters_need_update s' \<Longrightarrow> last_time s' = now"
proof -
  let ?el = "epk_elapsed now s"
  let ?c = "\<lambda>i. debounce_counters s ! i"
  have L: "length (debounce_counters s) = n * cols" and m0: "\<not> matrix_need_update s"
    and cnu: "counters_need_update s \<longleftrightarrow> (\<exists>i < n * cols. ?c i \<noteq> 0)"
    using inv by (auto simp: epk_inv_def)
  define s1 where "s1 = (let s = s\<lparr>cooked_changed := False\<rparr> in
      if counters_need_update s
      then if 0 < ?el then epk_update_debounce_counters cols n ?el (s\<lparr>last_time := now\<rparr>)
           else s\<lparr>last_time := now\<rparr>
      else s)"
  have s1: "length (debounce_counters s1) = n * cols"
      "\<And>i. i < n * cols \<Longrightarrow> debounce_counters s1 ! i = count_down ?el (?c i)"
      "counters_need_update s1 \<longleftrightarrow> (\<exists>i < n * cols. debounce_counters s1 ! i \<noteq> 0)"
      "matrix_need_update s1 \<longleftrightarrow> (\<exists>i < n * cols. ?c i \<noteq> 0 \<and> count_down ?el (?c i) = 0)"
      "\<not> cooked_changed s1" "counters_need_update s \<Longrightarrow> last_time s1 = now"
  proof -
    consider (idle) "\<not> counters_need_update s" | (zero) "counters_need_update s" "?el = 0"
      | (up) "counters_need_update s" "0 < ?el" by (meson word_neq_0_conv)
    then have "length (debounce_counters s1) = n * cols
      \<and> (\<forall>i < n * cols. debounce_counters s1 ! i = count_down ?el (?c i))
      \<and> (counters_need_update s1 \<longleftrightarrow> (\<exists>i < n * cols. debounce_counters s1 ! i \<noteq> 0))
      \<and> (matrix_need_update s1 \<longleftrightarrow> (\<exists>i < n * cols. ?c i \<noteq> 0 \<and> count_down ?el (?c i) = 0))
      \<and> \<not> cooked_changed s1 \<and> (counters_need_update s \<longrightarrow> last_time s1 = now)"
    proof cases
      case idle
      then have el: "?el = 0" and e: "s1 = s\<lparr>cooked_changed := False\<rparr>"
        by (simp_all add: s1_def epk_elapsed_def)
      show ?thesis unfolding el e using L m0 cnu idle by simp
    next
      case zero
      then have e: "s1 = s\<lparr>cooked_changed := False, last_time := now\<rparr>" by (simp add: s1_def)
      show ?thesis unfolding zero(2) e using L m0 cnu by simp
    next
      case up
      let ?t = "s\<lparr>cooked_changed := False, last_time := now\<rparr>"
      have e: "s1 = epk_update_debounce_counters cols n ?el ?t" using up by (simp add: s1_def)
      have l: "n * cols \<le> length (debounce_counters ?t)" using L by simp
      note U = epk_update_counters [OF l e]
      have cs: "debounce_counters s1 ! i = count_down ?el (?c i)" if "i < n * cols" for i
        using U(2) [OF that] by simp
      then show ?thesis using U(1,3,5,6) L U(4) by (auto simp: cs)
    qed
    then show "length (debounce_counters s1) = n * cols"
      "\<And>i. i < n * cols \<Longrightarrow> debounce_counters s1 ! i = count_down ?el (?c i)"
      "counters_need_update s1 \<longleftrightarrow> (\<exists>i < n * cols. debounce_counters s1 ! i \<noteq> 0)"
      "matrix_need_update s1 \<longleftrightarrow> (\<exists>i < n * cols. ?c i \<noteq> 0 \<and> count_down ?el (?c i) = 0)"
      "\<not> cooked_changed s1" "counters_need_update s \<Longrightarrow> last_time s1 = now" by blast+
  qed
  have act: "epk_active cols n changed now s \<longleftrightarrow> changed \<or> matrix_need_update s1"
    using s1(4) by (simp add: epk_active_def)
  have d: "epk_debounce cols D n raw cooked changed now s =
      (if changed \<or> matrix_need_update s1
       then case epk_transfer_matrix_values cols D raw cooked n
              (if counters_need_update s then s1 else s1\<lparr>last_time := now\<rparr>) of
         (s, cooked) \<Rightarrow> (cooked_changed s, cooked, s)
       else (cooked_changed s1, cooked, s1))"
    by (simp add: epk_debounce_def s1_def epk_elapsed_def Let_def)
  have "epk_inv cols n s' \<and> length cooked' = n
    \<and> (res \<longleftrightarrow> (\<exists>r < n. \<exists>c < cols. fire r c))
    \<and> (\<forall>r < n. \<forall>c < cols. (debounce_counters s' ! cell_index cols r c, bit (cooked' ! r) c)
        = epk_key D ?el (epk_active cols n changed now s) (bit (raw ! r) c)
            (?c (cell_index cols r c), bit (cooked ! r) c))
    \<and> (\<forall>r < n. \<forall>c. \<not> c < cols \<longrightarrow> bit (cooked' ! r) c = bit (cooked ! r) c)
    \<and> (counters_need_update s' \<longrightarrow> last_time s' = now)"
  proof (cases "epk_active cols n changed now s")
    case False
    then have out: "res = False" "cooked' = cooked" "s' = s1" using deb d act s1(5) by auto
    have "last_time s1 = now" if cn: "counters_need_update s1"
    proof -
      obtain i where i: "i < n * cols" "debounce_counters s1 ! i \<noteq> 0"
        using cn unfolding s1(3) by blast
      then have "?c i \<noteq> 0" using s1(2) [OF i(1)] by (auto simp: count_down_def)
      then show ?thesis using cnu i(1) s1(6) by blast
    qed
    moreover have "epk_inv cols n s1" using s1(1,3) False act by (simp add: epk_inv_def)
    moreover have "debounce_counters s1 ! cell_index cols r c = count_down ?el (?c (cell_index cols r c))"
      if "r < n" "c < cols" for r c using s1(2) cell_index_less [OF that] by simp
    ultimately show ?thesis
      using False len by (simp add: out fire_def epk_key_def)
  next
    case True
    define t where "t = (if counters_need_update s then s1 else s1\<lparr>last_time := now\<rparr>)"
    have t: "debounce_counters t = debounce_counters s1" "\<not> cooked_changed t"
      "counters_need_update t = counters_need_update s1" "last_time t = now"
      using s1(5,6) by (simp_all add: t_def)
    have tr: "(s', cooked') = epk_transfer_matrix_values cols D raw cooked n t" and res: "res = cooked_changed s'"
      using deb d act True by (auto simp: t_def split: prod.splits)
    have l: "n * cols \<le> length (debounce_counters t)" using s1(1) t(1) by simp
    have f: "fires cols raw cooked (debounce_counters t) r c \<longleftrightarrow> fire r c" if "r < n" "c < cols" for r c
      using True s1(2) cell_index_less [OF that] unfolding t(1) by (simp add: fires_def fire_def)
    note T = epk_transfer [OF cols len l tr]
    have cs: "debounce_counters s' ! cell_index cols r c
        = (if fire r c then D else count_down ?el (?c (cell_index cols r c)))" if "r < n" "c < cols" for r c
      using T(3) [OF that] f [OF that] s1(2) cell_index_less [OF that] unfolding t(1) by simp
    have "counters_need_update s' \<longleftrightarrow> (\<exists>i < n * cols. debounce_counters s' ! i \<noteq> 0)"
    proof
      assume "counters_need_update s'"
      then consider "counters_need_update s1" | r c where "r < n" "c < cols" "fire r c"
        using T(5) f t(3) by auto
      then show "\<exists>i < n * cols. debounce_counters s' ! i \<noteq> 0"
      proof cases
        case 1
        then obtain i where i: "i < n * cols" "debounce_counters s1 ! i \<noteq> 0" using s1(3) by blast
        obtain r c where rc: "r < n" "c < cols" "i = cell_index cols r c" using cell_index_cover [OF i(1)] .
        then show ?thesis using cs [OF rc(1,2)] D i s1(2) by (metis)
      next
        case 2
        then show ?thesis using cs D cell_index_less by metis
      qed
    next
      assume "\<exists>i < n * cols. debounce_counters s' ! i \<noteq> 0"
      then obtain i where i: "i < n * cols" "debounce_counters s' ! i \<noteq> 0" by blast
      obtain r c where rc: "r < n" "c < cols" "i = cell_index cols r c" using cell_index_cover [OF i(1)] .
      show "counters_need_update s'"
      proof (cases "fire r c")
        case True
        then show ?thesis using T(5) f rc by blast
      next
        case False
        then have "debounce_counters s1 ! i \<noteq> 0" using cs [OF rc(1,2)] i rc(3) s1(2) by simp
        then have "counters_need_update s1" using s1(3) i(1) by blast
        then show ?thesis using T(5) t(3) by simp
      qed
    qed
    then have "epk_inv cols n s'" using T(1,7) s1(1) t(1) by (simp add: epk_inv_def)
    moreover have "res \<longleftrightarrow> (\<exists>r < n. \<exists>c < cols. fire r c)"
      using T(6) t(2) f res by auto
    moreover have "last_time s' = now" using T(8) t(4) by simp
    ultimately show ?thesis
      using T(2,4) cs f True by (auto simp: epk_key_def fire_def Let_def)
  qed
  then show "epk_inv cols n s'" and "length cooked' = n"
    and "res \<longleftrightarrow> (\<exists>r < n. \<exists>c < cols. fire r c)"
    and "r < n \<Longrightarrow> c < cols \<Longrightarrow>
      (debounce_counters s' ! cell_index cols r c, bit (cooked' ! r) c)
        = epk_key D ?el (epk_active cols n changed now s) (bit (raw ! r) c)
            (?c (cell_index cols r c), bit (cooked ! r) c)"
    and "r < n \<Longrightarrow> \<not> c < cols \<Longrightarrow> bit (cooked' ! r) c = bit (cooked ! r) c"
    and "counters_need_update s' \<Longrightarrow> last_time s' = now"
    by blast+
qed

lemma epk_key_out: "snd (epk_key D e a i key) = snd key \<or> snd (epk_key D e a i key) = i"
  by (auto simp: epk_key_def Let_def)

lemma epk_reports:
  fixes s :: "'t::len word debounce_state" and raw cooked :: "'r::len word list"
  assumes cols: "cols \<le> LENGTH('r)" and D: "D \<noteq> 0" and inv: "epk_inv cols n s"
    and len: "length cooked = n"
    and deb: "epk_debounce cols D n raw cooked changed now s = (res, cooked', s')"
  shows "res \<longleftrightarrow> cooked' \<noteq> cooked"
proof -
  note E = epk_step [OF cols D inv len deb]
  let ?fire = "\<lambda>r c. epk_active cols n changed now s \<and> bit (raw ! r) c \<noteq> bit (cooked ! r) c
      \<and> count_down (epk_elapsed now s) (debounce_counters s ! cell_index cols r c) = 0"
  have flip: "bit (cooked' ! r) c \<noteq> bit (cooked ! r) c \<longleftrightarrow> c < cols \<and> ?fire r c" if "r < n" for r c
    using E(4,5) [OF that, of c] by (cases "c < cols") (auto simp: epk_key_def Let_def split: if_splits)
  show ?thesis
  proof
    assume res
    then obtain r c where "r < n" "c < cols" "?fire r c" using E(3) by blast
    then show "cooked' \<noteq> cooked" using flip by metis
  next
    assume "cooked' \<noteq> cooked"
    then obtain r where "r < n" "cooked' ! r \<noteq> cooked ! r"
      using E(2) len by (metis nth_equalityI)
    moreover then obtain c where "bit (cooked' ! r) c \<noteq> bit (cooked ! r) c"
      by (metis bit_word_eqI)
    ultimately show res using flip E(3) by blast
  qed
qed

lemma epk_debouncer:
  assumes cols: "cols \<le> LENGTH('r::len)" and D: "D \<noteq> 0"
  shows "debouncer (epk_debounce cols D n :: 'r word list \<Rightarrow> _ \<Rightarrow> _ \<Rightarrow> 't::len word \<Rightarrow> _)
    (epk_inv cols n) n"
proof
  fix s s' :: "'t word debounce_state" and raw cooked cooked' :: "'r word list" and changed res now r c
  assume inv: "epk_inv cols n s" and len: "length cooked = n"
    and deb: "epk_debounce cols D n raw cooked changed now s = (res, cooked', s')"
  note E = epk_step [OF cols D inv len deb]
  show "epk_inv cols n s' \<and> length cooked' = n" using E(1,2) by blast
  show "r < n \<Longrightarrow> bit (cooked' ! r) c = bit (cooked ! r) c \<or> bit (cooked' ! r) c = bit (raw ! r) c"
    using E(4,5) [of r c] epk_key_out by (metis snd_conv)
  show "res \<longleftrightarrow> cooked' \<noteq> cooked" by (rule epk_reports [OF cols D inv len deb])
qed

subsection \<open>The lock-out and the settling of a key\<close>

text \<open>Scans at real times in milliseconds; the timer shows them modulo its width.\<close>

fun epk_scans ::
  "nat \<Rightarrow> u8 \<Rightarrow> nat \<Rightarrow> ('r::len word list \<times> bool \<times> nat) list \<Rightarrow> 'r word list
    \<Rightarrow> 't::len word debounce_state \<Rightarrow> 'r word list \<times> 't word debounce_state" where
  "epk_scans cols D n [] cooked s = (cooked, s)"
| "epk_scans cols D n ((raw, changed, t) # xs) cooked s =
     (case epk_debounce cols D n raw cooked changed (of_nat t) s of
        (res, cooked, s) \<Rightarrow> epk_scans cols D n xs cooked s)"

lemma elapsed_exact:
  assumes "8 \<le> LENGTH('t::len)" and "a \<le> b" and "b - a < 256"
  shows "unat (clamp_u8 (TIMER_DIFF_FAST (of_nat b) (of_nat a :: 't word))) = b - a"
proof -
  have "(2 :: nat) ^ 8 \<le> 2 ^ LENGTH('t)" using assms(1) by (rule power_increasing) simp
  then have "b - a < 2 ^ LENGTH('t)" using assms(3) by simp
  moreover have "TIMER_DIFF_FAST (of_nat b) (of_nat a :: 't word) = of_nat (b - a)"
    using assms(2) by (simp add: TIMER_DIFF_FAST_def)
  ultimately show ?thesis using assms(3) by (simp add: unat_clamp_u8 unat_of_nat)
qed

lemma epk_locked:
  fixes s :: "'t::len word debounce_state" and cooked :: "'r::len word list"
  assumes cols: "cols \<le> LENGTH('r)" and D: "D \<noteq> 0" and T: "8 \<le> LENGTH('t)" and rc: "r < n" "c < cols"
    and "epk_inv cols n s" and "length cooked = n"
    and "last_time s = of_nat a" and "t0 \<le> a"
    and "t0 + unat D \<le> a + unat (debounce_counters s ! cell_index cols r c)"
    and "\<forall>(raw, ch, t) \<in> set xs. a \<le> t \<and> t < t0 + unat D" and "sorted (map (\<lambda>(raw, ch, t). t) xs)"
  shows "bit (fst (epk_scans cols D n xs cooked s) ! r) c = bit (cooked ! r) c"
  using assms(6-)
proof (induction xs arbitrary: cooked s a)
  case (Cons x xs)
  obtain raw ch t where x: "x = (raw, ch, t)" by (cases x)
  let ?p = "debounce_counters s ! cell_index cols r c"
  obtain res cooked1 s1 where d: "epk_debounce cols D n raw cooked ch (of_nat t) s = (res, cooked1, s1)"
    by (metis prod.exhaust)
  note E = epk_step [OF cols D Cons.prems(1,2) d]
  have t: "a \<le> t" "t < t0 + unat D" using Cons.prems(6) x by auto
  have D8: "unat D < 256" using unat_less_bits [of D] by simp
  have i: "cell_index cols r c < n * cols" by (rule cell_index_less [OF rc])
  have p: "t - a < unat ?p" using Cons.prems(4,5) t by linarith
  then have p0: "?p \<noteq> 0" by auto
  then have "counters_need_update s" using Cons.prems(1) i unfolding epk_inv_def by blast
  moreover have "t - a < 256" using t Cons.prems(4) D8 by linarith
  ultimately have el: "unat (epk_elapsed (of_nat t) s) = t - a"
    using elapsed_exact [OF T t(1)] Cons.prems(3) by (simp add: epk_elapsed_def)
  then have q: "unat (count_down (epk_elapsed (of_nat t) s) ?p) = unat ?p - (t - a)"
    by (simp add: unat_count_down)
  then have q0: "count_down (epk_elapsed (of_nat t) s) ?p \<noteq> 0" using p by auto
  have out: "bit (cooked1 ! r) c = bit (cooked ! r) c"
    and cnt: "debounce_counters s1 ! cell_index cols r c = count_down (epk_elapsed (of_nat t) s) ?p"
    using E(4) [OF rc] q0 by (simp_all add: epk_key_def Let_def)
  have "counters_need_update s1" using E(1) cnt q0 i unfolding epk_inv_def by metis
  then have last: "last_time s1 = of_nat t" by (rule E(6))
  have "bit (fst (epk_scans cols D n xs cooked1 s1) ! r) c = bit (cooked1 ! r) c"
  proof (rule Cons.IH [OF E(1,2) last])
    show "t0 \<le> t" using Cons.prems(4) t by simp
    show "t0 + unat D \<le> t + unat (debounce_counters s1 ! cell_index cols r c)"
      unfolding cnt q using Cons.prems(5) p t by linarith
    show "\<forall>(raw, ch, u) \<in> set xs. t \<le> u \<and> u < t0 + unat D"
      using Cons.prems(6,7) x by fastforce
    show "sorted (map (\<lambda>(raw, ch, t). t) xs)" using Cons.prems(7) by simp
  qed
  then show ?case using x d out by simp
qed simp

text \<open>Before a call, with the matrix of the previous one, every difference is still counted.\<close>

definition epk_tracks ::
  "nat \<Rightarrow> u8 \<Rightarrow> nat \<Rightarrow> 'r::len word list \<Rightarrow> 'r word list \<Rightarrow> 't::len word debounce_state \<Rightarrow> bool" where
  "epk_tracks cols D n prev cooked s \<longleftrightarrow> epk_inv cols n s \<and> length cooked = n
     \<and> (\<forall>r < n. \<forall>c < cols. debounce_counters s ! cell_index cols r c \<le> D)
     \<and> (\<forall>r < n. \<forall>c < cols. bit (prev ! r) c \<noteq> bit (cooked ! r) c
          \<longrightarrow> debounce_counters s ! cell_index cols r c \<noteq> 0)"

lemma epk_tracks_step:
  fixes s :: "'t::len word debounce_state" and raw cooked :: "'r::len word list"
  assumes cols: "cols \<le> LENGTH('r)" and D: "D \<noteq> 0" and tr: "epk_tracks cols D n prev cooked s"
    and ch: "raw \<noteq> prev \<Longrightarrow> changed"
    and deb: "epk_debounce cols D n raw cooked changed now s = (res, cooked', s')"
  shows "epk_tracks cols D n raw cooked' s'"
proof -
  have inv: "epk_inv cols n s" and len: "length cooked = n" using tr by (auto simp: epk_tracks_def)
  note E = epk_step [OF cols D inv len deb]
  have "debounce_counters s' ! cell_index cols r c \<noteq> 0"
    if rc: "r < n" "c < cols" and diff: "bit (raw ! r) c \<noteq> bit (cooked' ! r) c" for r c
  proof
    assume z: "debounce_counters s' ! cell_index cols r c = 0"
    let ?p = "debounce_counters s ! cell_index cols r c"
    have K: "(0, bit (cooked' ! r) c) = epk_key D (epk_elapsed now s) (epk_active cols n changed now s)
        (bit (raw ! r) c) (?p, bit (cooked ! r) c)"
      using E(4) [OF rc] z by simp
    then have cd: "count_down (epk_elapsed now s) ?p = 0" and same: "bit (cooked' ! r) c = bit (cooked ! r) c"
      and idle: "\<not> epk_active cols n changed now s"
      using D diff by (auto simp: epk_key_def Let_def split: if_splits)
    then have "\<not> changed" and "\<not> (?p \<noteq> 0)"
      using cell_index_less [OF rc] by (auto simp: epk_active_def)
    then show False using ch tr diff same rc unfolding epk_tracks_def by metis
  qed
  moreover have "debounce_counters s' ! cell_index cols r c \<le> D" if rc: "r < n" "c < cols" for r c
  proof -
    have "debounce_counters s ! cell_index cols r c \<le> D" using tr rc by (simp add: epk_tracks_def)
    moreover have "count_down (epk_elapsed now s) p \<le> p" for p
      by (simp add: word_le_nat_alt unat_count_down)
    ultimately show ?thesis
      using E(4) [OF rc] by (auto simp: epk_key_def Let_def split: if_splits intro: order_trans)
  qed
  ultimately show ?thesis using E(1,2) by (simp add: epk_tracks_def)
qed

lemma epk_settled:
  fixes s :: "'t::len word debounce_state" and raw cooked :: "'r::len word list"
  assumes cols: "cols \<le> LENGTH('r)" and D: "D \<noteq> 0" and tr: "epk_tracks cols D n prev cooked s"
    and ch: "raw \<noteq> prev \<Longrightarrow> changed"
    and d1: "epk_debounce cols D n raw cooked changed (of_nat t1) s = (res1, cooked1, s1)"
    and d2: "epk_debounce cols D n raw cooked1 False (of_nat t2) s1 = (res2, cooked2, s2)"
    and t: "t1 + unat D \<le> t2" "t2 - t1 < 2 ^ LENGTH('t)" and rc: "r < n" "c < cols"
  shows "bit (cooked2 ! r) c = bit (raw ! r) c"
proof -
  have tr1: "epk_tracks cols D n raw cooked1 s1" by (rule epk_tracks_step [OF cols D tr ch d1])
  then have inv1: "epk_inv cols n s1" and len1: "length cooked1 = n" by (auto simp: epk_tracks_def)
  have inv: "epk_inv cols n s" and len: "length cooked = n" using tr by (auto simp: epk_tracks_def)
  note E2 = epk_step(4) [OF cols D inv1 len1 d2 rc]
  let ?p = "debounce_counters s1 ! cell_index cols r c"
  show ?thesis
  proof (cases "bit (raw ! r) c = bit (cooked1 ! r) c")
    case True
    then show ?thesis using E2 by (simp add: epk_key_def Let_def)
  next
    case False
    then have p: "?p \<noteq> 0" "?p \<le> D" using tr1 rc by (auto simp: epk_tracks_def)
    have i: "cell_index cols r c < n * cols" by (rule cell_index_less [OF rc])
    then have cnu: "counters_need_update s1" using inv1 p unfolding epk_inv_def by blast
    then have last: "last_time s1 = of_nat t1" by (rule epk_step(6) [OF cols D inv len d1])
    have "TIMER_DIFF_FAST (of_nat t2) (of_nat t1 :: 't word) = of_nat (t2 - t1)"
      using t(1) by (simp add: TIMER_DIFF_FAST_def)
    then have "unat (epk_elapsed (of_nat t2) s1) = min 255 (t2 - t1)"
      using cnu last t(2) by (simp add: epk_elapsed_def unat_clamp_u8 unat_of_nat)
    moreover have "unat ?p \<le> unat D" "unat D \<le> 255"
      using p(2) unat_less_bits [of D] by (simp_all add: word_le_nat_alt)
    ultimately have "count_down (epk_elapsed (of_nat t2) s1) ?p = 0"
      using t(1) by (simp add: count_down_0 word_le_nat_alt)
    moreover then have "epk_active cols n False (of_nat t2) s1"
      using i p(1) by (auto simp: epk_active_def)
    ultimately show ?thesis using E2 False by (simp add: epk_key_def Let_def)
  qed
qed

section \<open>Per row\<close>

definition epr_update_row :: "u8 \<Rightarrow> nat \<Rightarrow> 't::len word debounce_state \<Rightarrow> 't word debounce_state" where
  "epr_update_row elapsed row s =
     (let p = debounce_counters s ! row
      in if p \<noteq> 0
         then if p \<le> elapsed
              then s\<lparr>debounce_counters := (debounce_counters s)[row := 0], matrix_need_update := True\<rparr>
              else s\<lparr>debounce_counters := (debounce_counters s)[row := p - elapsed],
                     counters_need_update := True\<rparr>
         else s)"

definition epr_update_debounce_counters ::
  "nat \<Rightarrow> u8 \<Rightarrow> 't::len word debounce_state \<Rightarrow> 't word debounce_state" where
  "epr_update_debounce_counters n elapsed s =
     fold (epr_update_row elapsed) [0..<n] (s\<lparr>counters_need_update := False, matrix_need_update := False\<rparr>)"

definition epr_transfer_row ::
  "u8 \<Rightarrow> 'r::len word list \<Rightarrow> nat \<Rightarrow> 't::len word debounce_state \<times> 'r word list
    \<Rightarrow> 't word debounce_state \<times> 'r word list" where
  "epr_transfer_row D raw row x =
     (case x of (s, cooked) \<Rightarrow>
        let existing_row = cooked ! row; raw_row = raw ! row
        in if existing_row \<noteq> raw_row
           then if debounce_counters s ! row = 0
                then (s\<lparr>debounce_counters := (debounce_counters s)[row := D],
                        cooked_changed := cooked_changed s \<or> cooked ! row XOR raw_row \<noteq> 0,
                        counters_need_update := True\<rparr>,
                      cooked[row := raw_row])
                else (s, cooked)
           else (s, cooked))"

definition epr_transfer_matrix_values ::
  "u8 \<Rightarrow> 'r::len word list \<Rightarrow> 'r word list \<Rightarrow> nat \<Rightarrow> 't::len word debounce_state
    \<Rightarrow> 't word debounce_state \<times> 'r word list" where
  "epr_transfer_matrix_values D raw cooked n s =
     fold (epr_transfer_row D raw) [0..<n] (s\<lparr>matrix_need_update := False\<rparr>, cooked)"

definition epr_debounce ::
  "u8 \<Rightarrow> nat \<Rightarrow> 'r::len word list \<Rightarrow> 'r word list \<Rightarrow> bool \<Rightarrow> 't::len word
    \<Rightarrow> 't word debounce_state \<Rightarrow> bool \<times> 'r word list \<times> 't word debounce_state" where
  "epr_debounce D n raw cooked changed now s =
     (let s = s\<lparr>cooked_changed := False\<rparr>;
          (updated_last, s) =
            (if counters_need_update s
             then let elapsed_time = TIMER_DIFF_FAST now (last_time s);
                      s = s\<lparr>last_time := now\<rparr>
                  in (True, if 0 < clamp_u8 elapsed_time
                            then epr_update_debounce_counters n (clamp_u8 elapsed_time) s else s)
             else (False, s))
      in if changed \<or> matrix_need_update s
         then case epr_transfer_matrix_values D raw cooked n
                     (if updated_last then s else s\<lparr>last_time := now\<rparr>) of
           (s, cooked) \<Rightarrow> (cooked_changed s, cooked, s)
         else (cooked_changed s, cooked, s))"

lemma xor_eq_0: "(x :: 'a::len word) XOR y = 0 \<longleftrightarrow> x = y"
  by (metis xor_self_eq xor_cancel_left)

lemma epr_transfer:
  fixes s :: "'t::len word debounce_state" and raw cooked :: "'r::len word list"
  assumes "length cooked = n" and "\<not> cooked_changed s"
    and "(s', cooked') = epr_transfer_matrix_values D raw cooked n s"
  shows "length cooked' = n"
    and "r < n \<Longrightarrow> cooked' ! r = (if debounce_counters s ! r = 0 then raw ! r else cooked ! r)"
    and "cooked_changed s' \<longleftrightarrow> (\<exists>r < n. debounce_counters s ! r = 0 \<and> raw ! r \<noteq> cooked ! r)"
    and "length (debounce_counters s') = length (debounce_counters s)"
proof -
  let ?v = "\<lambda>r. if debounce_counters s ! r = 0 then raw ! r else cooked ! r"
  let ?P = "\<lambda>V (x :: 't word debounce_state \<times> 'r word list).
    length (snd x) = n \<and> length (debounce_counters (fst x)) = length (debounce_counters s)
    \<and> (\<forall>r < n. r \<notin> V \<longrightarrow> debounce_counters (fst x) ! r = debounce_counters s ! r)
    \<and> (\<forall>r < n. snd x ! r = (if r \<in> V then ?v r else cooked ! r))
    \<and> (cooked_changed (fst x) \<longleftrightarrow> (\<exists>r \<in> V. ?v r \<noteq> cooked ! r))"
  have "?P (set [0..<n]) (s', cooked')"
    unfolding assms(3) epr_transfer_matrix_values_def
  proof (rule fold_visited)
    fix V row and x :: "'t word debounce_state \<times> 'r word list"
    assume row: "row \<in> set [0..<n]" "row \<notin> V" and P: "?P V x"
    obtain t ck where x: "x = (t, ck)" by (cases x)
    have rn: "row < n" and ck: "ck ! row = cooked ! row" and cs: "debounce_counters t ! row = debounce_counters s ! row"
      using row P x by auto
    show "?P (insert row V) (epr_transfer_row D raw row x)"
    proof (cases "cooked ! row \<noteq> raw ! row \<and> debounce_counters s ! row = 0")
      case True
      then show ?thesis
        using P x row(2) rn ck cs by (auto simp: epr_transfer_row_def nth_list_update xor_eq_0)
    next
      case False
      then have "epr_transfer_row D raw row x = x"
        using x ck cs by (auto simp: epr_transfer_row_def Let_def)
      then show ?thesis using P False x by auto
    qed
  qed (use assms(1,2) in auto)
  then show "length cooked' = n"
    and "r < n \<Longrightarrow> cooked' ! r = ?v r"
    and "cooked_changed s' \<longleftrightarrow> (\<exists>r < n. debounce_counters s ! r = 0 \<and> raw ! r \<noteq> cooked ! r)"
    and "length (debounce_counters s') = length (debounce_counters s)"
    by (auto simp: Bex_def split: if_splits)
qed

lemma epr_update_frame:
  "cooked_changed (epr_update_debounce_counters n e s) = cooked_changed s"
  "length (debounce_counters (epr_update_debounce_counters n e s)) = length (debounce_counters s)"
proof -
  have "cooked_changed (fold (epr_update_row e) xs t) = cooked_changed t
      \<and> length (debounce_counters (fold (epr_update_row e) xs t)) = length (debounce_counters t)"
    for xs and t :: "'a word debounce_state"
    by (induction xs arbitrary: t) (simp_all add: epr_update_row_def Let_def)
  then show "cooked_changed (epr_update_debounce_counters n e s) = cooked_changed s"
    "length (debounce_counters (epr_update_debounce_counters n e s)) = length (debounce_counters s)"
    by (simp_all add: epr_update_debounce_counters_def)
qed

lemma epr_debounce_cases:
  assumes "length cooked = n" and "epr_debounce D n raw cooked changed now s = (res, cooked', s')"
  shows "length cooked' = n" and "r < n \<Longrightarrow> cooked' ! r = cooked ! r \<or> cooked' ! r = raw ! r"
    and "res \<longleftrightarrow> cooked' \<noteq> cooked"
proof -
  obtain t where nc: "\<not> cooked_changed t"
    and "res = False \<and> cooked' = cooked \<or>
      ((s', cooked') = epr_transfer_matrix_values D raw cooked n t \<and> res = cooked_changed s')"
  proof -
    define t where "t = (let s = s\<lparr>cooked_changed := False\<rparr> in if counters_need_update s
      then if 0 < clamp_u8 (TIMER_DIFF_FAST now (last_time s))
           then epr_update_debounce_counters n (clamp_u8 (TIMER_DIFF_FAST now (last_time s))) (s\<lparr>last_time := now\<rparr>)
           else s\<lparr>last_time := now\<rparr>
      else s)"
    define u where "u = (if counters_need_update s then t else t\<lparr>last_time := now\<rparr>)"
    have "\<not> cooked_changed t" by (simp add: t_def Let_def epr_update_frame)
    then have "\<not> cooked_changed u" by (simp add: u_def)
    moreover have "epr_debounce D n raw cooked changed now s =
        (if changed \<or> matrix_need_update t
         then case epr_transfer_matrix_values D raw cooked n u of
           (s, cooked) \<Rightarrow> (cooked_changed s, cooked, s)
         else (cooked_changed t, cooked, t))"
      by (simp add: epr_debounce_def t_def u_def Let_def)
    ultimately show ?thesis
      using assms(2) \<open>\<not> cooked_changed t\<close> that [of u] by (auto split: if_splits prod.splits)
  qed
  then consider "res = False" "cooked' = cooked"
    | "(s', cooked') = epr_transfer_matrix_values D raw cooked n t" "res = cooked_changed s'" by blast
  then have "length cooked' = n \<and> (\<forall>r < n. cooked' ! r = cooked ! r \<or> cooked' ! r = raw ! r)
      \<and> (res \<longleftrightarrow> cooked' \<noteq> cooked)"
  proof cases
    case 1
    then show ?thesis using assms(1) by simp
  next
    case 2
    note T = epr_transfer [OF assms(1) nc 2(1)]
    have "cooked' \<noteq> cooked \<longleftrightarrow> (\<exists>r < n. cooked' ! r \<noteq> cooked ! r)"
      using T(1) assms(1) by (metis nth_equalityI)
    also have "\<dots> \<longleftrightarrow> cooked_changed s'"
      unfolding T(3) using T(2) by (auto split: if_splits)
    finally show ?thesis using T(1,2) 2(2) by auto
  qed
  then show "length cooked' = n" and "r < n \<Longrightarrow> cooked' ! r = cooked ! r \<or> cooked' ! r = raw ! r"
    and "res \<longleftrightarrow> cooked' \<noteq> cooked" by auto
qed

interpretation epr: debouncer "epr_debounce D n" "\<lambda>_. True" n
proof
  fix raw cooked cooked' :: "'a word list" and changed now res r c and s s' :: "'b word debounce_state"
  assume "length cooked = n" and "epr_debounce D n raw cooked changed now s = (res, cooked', s')"
  note E = epr_debounce_cases [OF this]
  show "True \<and> length cooked' = n" using E(1) by simp
  show "bit (cooked' ! r) c = bit (cooked ! r) c \<or> bit (cooked' ! r) c = bit (raw ! r) c" if "r < n"
    using E(2) [OF that] by auto
  show "res \<longleftrightarrow> cooked' \<noteq> cooked" by (rule E(3))
qed

section \<open>Properties\<close>

text \<open>The keyboard of the repository's owner: 6 rows of 16 columns, 20 ms.\<close>

interpretation q10: debouncer
  "epk_debounce 16 20 6 :: 16 word list \<Rightarrow> 16 word list \<Rightarrow> bool \<Rightarrow> 32 word \<Rightarrow> _" "epk_inv 16 6" 6
  by (rule epk_debouncer) simp_all

text \<open>
  C31: One call of the eager per-key algorithm is the independent step of each key, whatever the
  matrix, the flags and the time: counters age by the elapsed time, a key whose input differs and
  whose counter has elapsed flips and starts its counter, and no other bit of the output changes.
  The return value says exactly whether the output changed.
\<close>

theorem epk_refines_keys:
  fixes s :: "'t::len word debounce_state" and raw cooked :: "'r::len word list"
  assumes "cols \<le> LENGTH('r)" and "D \<noteq> 0" and "epk_inv cols n s" and "length cooked = n"
    and "epk_debounce cols D n raw cooked changed now s = (res, cooked', s')"
  shows "epk_inv cols n s' \<and> length cooked' = n \<and> (res \<longleftrightarrow> cooked' \<noteq> cooked)
    \<and> (\<forall>r < n. \<forall>c < cols. (debounce_counters s' ! cell_index cols r c, bit (cooked' ! r) c)
        = epk_key D (epk_elapsed now s) (epk_active cols n changed now s) (bit (raw ! r) c)
            (debounce_counters s ! cell_index cols r c, bit (cooked ! r) c))
    \<and> (\<forall>r < n. \<forall>c \<ge> cols. bit (cooked' ! r) c = bit (cooked ! r) c)"
proof -
  note E = epk_step [OF assms]
  have "res \<longleftrightarrow> cooked' \<noteq> cooked"
    by (rule epk_reports [OF assms])
  then show ?thesis using E by auto
qed

text \<open>One row of two keys; the first key is pressed at 7 ms.\<close>

definition epk_demo_state :: "16 word debounce_state" where
  "epk_demo_state = \<lparr>debounce_counters = [3, 0], last_time = 7, counters_need_update = True,
     matrix_need_update = False, cooked_changed = True\<rparr>"

lemma epk_demo_init: "epk_inv 2 1 (epk_init 2 1 :: 16 word debounce_state)"
  by (simp add: epk_inv_def epk_init_def numeral_2_eq_2 All_less_Suc Ex_less_Suc)

lemma epk_demo_tracks: "epk_tracks 2 3 1 [0] [0 :: 8 word] (epk_init 2 1 :: 16 word debounce_state)"
  using epk_demo_init
  by (simp add: epk_tracks_def) (simp add: epk_init_def numeral_2_eq_2 cell_index_def less_Suc_eq)

lemma epk_demo_press:
  "epk_debounce 2 3 1 [1 :: 8 word] [0] True (of_nat 7) (epk_init 2 1) = (True, [1], epk_demo_state)"
  by code_simp

lemma epk_demo_release:
  "epk_debounce 2 3 1 [0 :: 8 word] [1] True (of_nat 9) epk_demo_state
    = (False, [1], epk_demo_state\<lparr>debounce_counters := [1, 0], last_time := 9, cooked_changed := False\<rparr>)"
  by code_simp

theorem epk_refines_keys_witness:
  "epk_inv 2 1 epk_demo_state
    \<and> (debounce_counters epk_demo_state ! cell_index 2 0 0, bit ([1 :: 8 word] ! 0) 0)
      = epk_key 3 (epk_elapsed (of_nat 7) (epk_init 2 1 :: 16 word debounce_state))
          (epk_active 2 1 True (of_nat 7) (epk_init 2 1 :: 16 word debounce_state)) (bit ([1 :: 8 word] ! 0) 0)
          (debounce_counters (epk_init 2 1 :: 16 word debounce_state) ! cell_index 2 0 0, bit ([0 :: 8 word] ! 0) 0)"
proof -
  note E = epk_refines_keys [OF _ _ epk_demo_init _ epk_demo_press]
  show ?thesis
    by (intro conjI E [THEN conjunct1] E [THEN conjunct2, THEN conjunct2, THEN conjunct2, THEN conjunct1, rule_format])
      simp_all
qed

text \<open>
  Lock-out: once the eager algorithm has reported a change of a key, no sequence of scans
  within the next DEBOUNCE milliseconds of real time changes that key's output again, however
  its input bounces and even if the timer wraps around.
\<close>

theorem epk_lockout:
  fixes s :: "'t::len word debounce_state" and raw cooked :: "'r::len word list"
  assumes "cols \<le> LENGTH('r)" and "D \<noteq> 0" and "8 \<le> LENGTH('t)" and "r < n" and "c < cols"
    and "epk_inv cols n s" and "length cooked = n"
    and "epk_debounce cols D n raw cooked changed (of_nat t0) s = (res, cooked1, s1)"
    and "bit (cooked1 ! r) c \<noteq> bit (cooked ! r) c"
    and "\<forall>(raw, ch, t) \<in> set xs. t0 \<le> t \<and> t < t0 + unat D" and "sorted (map (\<lambda>(raw, ch, t). t) xs)"
  shows "bit (fst (epk_scans cols D n xs cooked1 s1) ! r) c = bit (cooked1 ! r) c"
proof -
  note E = epk_step [OF assms(1,2,6,7,8)]
  have cnt: "debounce_counters s1 ! cell_index cols r c = D"
    using E(4) [OF assms(4,5)] assms(9) by (auto simp: epk_key_def Let_def split: if_splits)
  have "counters_need_update s1"
    using E(1) cnt assms(2) cell_index_less [OF assms(4,5)] unfolding epk_inv_def by metis
  then have last: "last_time s1 = of_nat t0" by (rule E(6))
  show ?thesis
    by (rule epk_locked [OF assms(1-5) E(1,2) last, of t0]) (use cnt assms(10,11) in simp_all)
qed

theorem epk_lockout_witness:
  "bit (fst (epk_scans 2 3 1 [([0], True, 8), ([1], True, 9)] [1 :: 8 word] epk_demo_state) ! 0) 0
     = bit ([1 :: 8 word] ! 0) 0"
  by (rule epk_lockout [OF _ _ _ _ _ epk_demo_init _ epk_demo_press]) simp_all

text \<open>
  Settling: from the initial state and after any history of scans whose changed flags are
  truthful (\<open>epk_tracks\<close>, which such scans keep), two scans of the same matrix at least DEBOUNCE
  milliseconds apart make the output equal to the input, so no change is lost by the lock-out.
\<close>

theorem epk_settles:
  fixes s :: "'t::len word debounce_state" and raw cooked :: "'r::len word list"
  assumes "cols \<le> LENGTH('r)" and "D \<noteq> 0" and "epk_tracks cols D n prev cooked s"
    and "raw \<noteq> prev \<Longrightarrow> changed"
    and "epk_debounce cols D n raw cooked changed (of_nat t1) s = (res1, cooked1, s1)"
    and "epk_debounce cols D n raw cooked1 False (of_nat t2) s1 = (res2, cooked2, s2)"
    and "t1 + unat D \<le> t2" and "t2 - t1 < 2 ^ LENGTH('t)"
  shows "epk_tracks cols D n raw cooked1 s1
    \<and> (\<forall>r < n. \<forall>c < cols. bit (cooked2 ! r) c = bit (raw ! r) c)"
  using epk_tracks_step [OF assms(1-5)] epk_settled [OF assms] by blast

lemma epk_demo_settle:
  "epk_debounce 2 3 1 [0 :: 8 word] [1] False (of_nat 12)
     (epk_demo_state\<lparr>debounce_counters := [1, 0], last_time := 9, cooked_changed := False\<rparr>)
    = (True, [0], epk_demo_state\<lparr>last_time := 12\<rparr>)"
  by code_simp

theorem epk_settles_witness:
  "epk_tracks 2 3 1 [0 :: 8 word] [1] (epk_demo_state\<lparr>debounce_counters := [1, 0], last_time := 9, cooked_changed := False\<rparr>)"
proof -
  have "epk_tracks 2 3 1 [1 :: 8 word] [1] epk_demo_state"
    by (rule epk_tracks_step [OF _ _ epk_demo_tracks _ epk_demo_press]) simp_all
  then show ?thesis
    using epk_settles [OF _ _ _ _ epk_demo_release epk_demo_settle] by simp
qed

end
