(* ===== verification/DebounceDefer.thy ===== *)
theory DebounceDefer
  imports DebounceEager
begin

text \<open>
  The deferring algorithms: quantum/debounce/sym_defer_pk.c, which reports a key's change once its
  input has differed from its output for DEBOUNCE milliseconds, sym_defer_pr.c, which does so for
  whole rows, and asym_eager_defer_pk.c, which is eager for a press and defers a release.
\<close>

section \<open>Loops that change the output cell by cell\<close>

text \<open>What the body may do at one cell: only the bit of that cell changes, to that of the input, and
  the flag \<open>cc\<close> records the change.\<close>

definition cell_step ::
  "('s \<Rightarrow> bool) \<Rightarrow> 'r::len word list \<Rightarrow> nat \<Rightarrow> nat \<Rightarrow> nat \<Rightarrow> 's \<times> 'r word list \<Rightarrow> 's \<times> 'r word list \<Rightarrow> bool" where
  "cell_step cc raw n row col x y \<longleftrightarrow> length (snd y) = n
     \<and> (\<forall>r < n. \<forall>k. (r, k) \<noteq> (row, col) \<longrightarrow> bit (snd y ! r) k = bit (snd x ! r) k)
     \<and> (bit (snd y ! row) col = bit (snd x ! row) col \<or> bit (snd y ! row) col = bit (raw ! row) col)
     \<and> (cc (fst y) \<longleftrightarrow> cc (fst x) \<or> bit (snd y ! row) col \<noteq> bit (snd x ! row) col)"

lemma row_loop:
  fixes x y :: "'s \<times> 'r::len word list"
  assumes step: "\<And>col z. col < cols \<Longrightarrow> length (snd z) = n \<Longrightarrow> bit (snd z ! row) col = bit old col
      \<Longrightarrow> cell_step cc raw n row col z (g col z)"
    and len: "length (snd x) = n" and row: "row < n" and old: "old = snd x ! row"
    and y: "y = fold g [0..<cols] x"
  shows "length (snd y) = n" and "r < n \<Longrightarrow> r \<noteq> row \<Longrightarrow> snd y ! r = snd x ! r"
    and "bit (snd y ! row) k = bit (snd x ! row) k \<or> bit (snd y ! row) k = bit (raw ! row) k"
    and "cc (fst y) \<longleftrightarrow> cc (fst x) \<or> snd y ! row \<noteq> snd x ! row"
proof -
  let ?P = "\<lambda>V (z :: 's \<times> 'r word list). length (snd z) = n
    \<and> (\<forall>r < n. \<forall>k. r \<noteq> row \<or> k \<notin> V \<longrightarrow> bit (snd z ! r) k = bit (snd x ! r) k)
    \<and> (\<forall>k. bit (snd z ! row) k = bit (snd x ! row) k \<or> bit (snd z ! row) k = bit (raw ! row) k)
    \<and> (cc (fst z) \<longleftrightarrow> cc (fst x) \<or> (\<exists>k. bit (snd z ! row) k \<noteq> bit (snd x ! row) k))"
  have P: "?P (set [0..<cols]) y"
    unfolding y
  proof (rule fold_visited)
    fix V c z
    assume c: "c \<in> set [0..<cols]" "c \<notin> V" and P: "?P V z"
    have "cell_step cc raw n row c z (g c z)"
      using c P row old by (intro step) auto
    note C = this [unfolded cell_step_def]
    have same: "bit (snd z ! row) c = bit (snd x ! row) c" using P c row by blast
    have rest: "bit (snd (g c z) ! row) k = bit (snd z ! row) k" if "k \<noteq> c" for k
      using C row that by blast
    show "?P (insert c V) (g c z)"
    proof (intro conjI)
      show "length (snd (g c z)) = n" using C by blast
      show "\<forall>r < n. \<forall>k. r \<noteq> row \<or> k \<notin> insert c V \<longrightarrow> bit (snd (g c z) ! r) k = bit (snd x ! r) k"
        using C P by (metis insertCI prod.inject)
      show "\<forall>k. bit (snd (g c z) ! row) k = bit (snd x ! row) k \<or> bit (snd (g c z) ! row) k = bit (raw ! row) k"
        using C P same rest by metis
      show "cc (fst (g c z)) \<longleftrightarrow> cc (fst x) \<or> (\<exists>k. bit (snd (g c z) ! row) k \<noteq> bit (snd x ! row) k)"
        using C P same rest by metis
    qed
  qed (use len in auto)
  show "length (snd y) = n" using P by blast
  show "snd y ! r = snd x ! r" if "r < n" "r \<noteq> row"
    using P that by (intro bit_word_eqI) blast
  show "bit (snd y ! row) k = bit (snd x ! row) k \<or> bit (snd y ! row) k = bit (raw ! row) k"
    using P by blast
  have "(\<exists>k. bit (snd y ! row) k \<noteq> bit (snd x ! row) k) \<longleftrightarrow> snd y ! row \<noteq> snd x ! row"
    by (metis bit_word_eqI)
  then show "cc (fst y) \<longleftrightarrow> cc (fst x) \<or> snd y ! row \<noteq> snd x ! row" using P by blast
qed

lemma matrix_loop:
  fixes x y :: "'s \<times> 'r::len word list"
  assumes step: "\<And>row col old z. row < n \<Longrightarrow> col < cols \<Longrightarrow> length (snd z) = n
      \<Longrightarrow> bit (snd z ! row) col = bit old col \<Longrightarrow> cell_step cc raw n row col z (g row old col z)"
    and len: "length (snd x) = n"
    and y: "y = fold (\<lambda>row z. fold (g row (snd z ! row)) [0..<cols] z) [0..<n] x"
  shows "length (snd y) = n"
    and "r < n \<Longrightarrow> bit (snd y ! r) k = bit (snd x ! r) k \<or> bit (snd y ! r) k = bit (raw ! r) k"
    and "cc (fst y) \<longleftrightarrow> cc (fst x) \<or> snd y \<noteq> snd x"
proof -
  let ?P = "\<lambda>V (z :: 's \<times> 'r word list). length (snd z) = n
    \<and> (\<forall>r < n. r \<notin> V \<longrightarrow> snd z ! r = snd x ! r)
    \<and> (\<forall>r < n. \<forall>k. bit (snd z ! r) k = bit (snd x ! r) k \<or> bit (snd z ! r) k = bit (raw ! r) k)
    \<and> (cc (fst z) \<longleftrightarrow> cc (fst x) \<or> (\<exists>r < n. snd z ! r \<noteq> snd x ! r))"
  have P: "?P (set [0..<n]) y"
    unfolding y
  proof (rule fold_visited)
    fix V row z
    assume row: "row \<in> set [0..<n]" "row \<notin> V" and P: "?P V z"
    let ?z = "fold (g row (snd z ! row)) [0..<cols] z"
    have rn: "row < n" using row by simp
    have st: "cell_step cc raw n row col u (g row (snd z ! row) col u)"
      if "col < cols" "length (snd u) = n" "bit (snd u ! row) col = bit (snd z ! row) col" for col u
      by (rule step [OF rn that])
    have lz: "length (snd z) = n" using P by blast
    have R: "length (snd ?z) = n" "r < n \<Longrightarrow> r \<noteq> row \<Longrightarrow> snd ?z ! r = snd z ! r"
      "bit (snd ?z ! row) k = bit (snd z ! row) k \<or> bit (snd ?z ! row) k = bit (raw ! row) k"
      "cc (fst ?z) \<longleftrightarrow> cc (fst z) \<or> snd ?z ! row \<noteq> snd z ! row" for r k
      by (rule row_loop [where cols = cols, OF st lz rn refl refl]; assumption)+
    have same: "snd z ! row = snd x ! row" using P row rn by blast
    show "?P (insert row V) ?z"
    proof (intro conjI)
      show "length (snd ?z) = n" by (rule R(1))
      show "\<forall>r < n. r \<notin> insert row V \<longrightarrow> snd ?z ! r = snd x ! r" using R(2) P by auto
      show "\<forall>r < n. \<forall>k. bit (snd ?z ! r) k = bit (snd x ! r) k \<or> bit (snd ?z ! r) k = bit (raw ! r) k"
      proof (intro allI impI)
        fix r k
        assume "r < n"
        then show "bit (snd ?z ! r) k = bit (snd x ! r) k \<or> bit (snd ?z ! r) k = bit (raw ! r) k"
          using R(2) R(3) [of k] P same by (cases "r = row") simp_all
      qed
      have "(\<exists>r < n. snd ?z ! r \<noteq> snd x ! r)
          \<longleftrightarrow> (\<exists>r < n. snd z ! r \<noteq> snd x ! r) \<or> snd ?z ! row \<noteq> snd z ! row"
        using R(2) same rn by metis
      then show "cc (fst ?z) \<longleftrightarrow> cc (fst x) \<or> (\<exists>r < n. snd ?z ! r \<noteq> snd x ! r)"
        using R(4) P by blast
    qed
  qed (use len in auto)
  show "length (snd y) = n" using P by blast
  show "r < n \<Longrightarrow> bit (snd y ! r) k = bit (snd x ! r) k \<or> bit (snd y ! r) k = bit (raw ! r) k"
    using P by blast
  have "(\<exists>r < n. snd y ! r \<noteq> snd x ! r) \<longleftrightarrow> snd y \<noteq> snd x"
    using P len by (metis nth_equalityI)
  then show "cc (fst y) \<longleftrightarrow> cc (fst x) \<or> snd y \<noteq> snd x" using P by blast
qed

text \<open>Copying one bit of the input.\<close>

definition copy_bit :: "nat \<Rightarrow> 'r::len word \<Rightarrow> 'r word \<Rightarrow> 'r word" where
  "copy_bit col to from = (to AND NOT (push_bit col 1)) OR (from AND push_bit col 1)"

lemma bit_copy_bit: "bit (copy_bit c a b) k = (if k = c then bit b k else bit a k)"
  by (auto simp: copy_bit_def bit_simps dest: bit_imp_le_length)

lemma cell_step_copy:
  assumes "length (snd z) = n" and "row < n"
    and "cc s' \<longleftrightarrow> cc (fst z) \<or> (snd z ! row) XOR copy_bit col (snd z ! row) (raw ! row) \<noteq> 0"
  shows "cell_step cc raw n row col z
    (s', (snd z)[row := copy_bit col (snd z ! row) (raw ! row)])"
proof -
  have "(snd z ! row) XOR copy_bit col (snd z ! row) (raw ! row) \<noteq> 0
      \<longleftrightarrow> bit (raw ! row) col \<noteq> bit (snd z ! row) col"
    unfolding xor_eq_0 by (metis bit_copy_bit bit_word_eqI)
  then show ?thesis
    using assms by (auto simp: cell_step_def nth_list_update bit_copy_bit)
qed

lemma copy_step:
  "length b = n \<Longrightarrow> row < n
    \<Longrightarrow> cc s' \<longleftrightarrow> cc a \<or> b ! row XOR copy_bit col (b ! row) (raw ! row) \<noteq> 0
    \<Longrightarrow> cell_step cc raw n row col (a, b) (s', b[row := copy_bit col (b ! row) (raw ! row)])"
  using cell_step_copy [of "(a, b)" n row cc s' col raw] by simp

lemma idle_step:
  "length b = n \<Longrightarrow> cc s' = cc a \<Longrightarrow> cell_step cc raw n row col (a, b) (s', b)"
  by (auto simp: cell_step_def)

section \<open>sym_defer_pk\<close>

text \<open>The state is that of the eager algorithms without the flag \<open>matrix_need_update\<close>, which stays
  false.\<close>

definition dpk_update_cell ::
  "nat \<Rightarrow> 'r::len word list \<Rightarrow> u8 \<Rightarrow> nat \<Rightarrow> nat \<Rightarrow> 't::len word debounce_state \<times> 'r word list
    \<Rightarrow> 't word debounce_state \<times> 'r word list" where
  "dpk_update_cell cols raw elapsed row col x =
     (case x of (s, cooked) \<Rightarrow>
        let i = cell_index cols row col; p = debounce_counters s ! i
        in if p \<noteq> 0
           then if p \<le> elapsed
                then let cooked_next = copy_bit col (cooked ! row) (raw ! row)
                     in (s\<lparr>debounce_counters := (debounce_counters s)[i := 0],
                           cooked_changed := cooked_changed s \<or> cooked ! row XOR cooked_next \<noteq> 0\<rparr>,
                         cooked[row := cooked_next])
                else (s\<lparr>debounce_counters := (debounce_counters s)[i := p - elapsed],
                        counters_need_update := True\<rparr>, cooked)
           else (s, cooked))"

definition dpk_update ::
  "nat \<Rightarrow> 'r::len word list \<Rightarrow> 'r word list \<Rightarrow> nat \<Rightarrow> u8 \<Rightarrow> 't::len word debounce_state
    \<Rightarrow> 't word debounce_state \<times> 'r word list" where
  "dpk_update cols raw cooked n elapsed s =
     fold (\<lambda>row. fold (dpk_update_cell cols raw elapsed row) [0..<cols]) [0..<n]
       (s\<lparr>counters_need_update := False\<rparr>, cooked)"

definition dpk_start_cell ::
  "nat \<Rightarrow> u8 \<Rightarrow> 'r::len word \<Rightarrow> nat \<Rightarrow> nat \<Rightarrow> 't::len word debounce_state \<Rightarrow> 't word debounce_state" where
  "dpk_start_cell cols D delta row col s =
     (let i = cell_index cols row col
      in if delta AND push_bit col 1 \<noteq> 0
         then if debounce_counters s ! i = 0
              then s\<lparr>debounce_counters := (debounce_counters s)[i := D], counters_need_update := True\<rparr>
              else s
         else s\<lparr>debounce_counters := (debounce_counters s)[i := 0]\<rparr>)"

definition dpk_start ::
  "nat \<Rightarrow> u8 \<Rightarrow> 'r::len word list \<Rightarrow> 'r word list \<Rightarrow> nat \<Rightarrow> 't::len word debounce_state
    \<Rightarrow> 't word debounce_state" where
  "dpk_start cols D raw cooked n s =
     fold (\<lambda>row. fold (dpk_start_cell cols D (raw ! row XOR cooked ! row) row) [0..<cols]) [0..<n] s"

definition dpk_debounce ::
  "nat \<Rightarrow> u8 \<Rightarrow> nat \<Rightarrow> 'r::len word list \<Rightarrow> 'r word list \<Rightarrow> bool \<Rightarrow> 't::len word
    \<Rightarrow> 't word debounce_state \<Rightarrow> bool \<times> 'r word list \<times> 't word debounce_state" where
  "dpk_debounce cols D n raw cooked changed now s =
     (let s = s\<lparr>cooked_changed := False\<rparr>;
          (updated_last, s, cooked) =
            (if counters_need_update s
             then let elapsed_time = TIMER_DIFF_FAST now (last_time s);
                      s = s\<lparr>last_time := now\<rparr>
                  in (True, if 0 < clamp_u8 elapsed_time
                            then dpk_update cols raw cooked n (clamp_u8 elapsed_time) s
                            else (s, cooked))
             else (False, s, cooked))
      in if changed
         then let s = dpk_start cols D raw cooked n (if updated_last then s else s\<lparr>last_time := now\<rparr>)
              in (cooked_changed s, cooked, s)
         else (cooked_changed s, cooked, s))"

lemma dpk_update_cell_step:
  "length (snd x) = n \<Longrightarrow> row < n
    \<Longrightarrow> cell_step cooked_changed raw n row col x (dpk_update_cell cols raw e row col x)"
  by (cases x) (auto simp: dpk_update_cell_def Let_def intro!: copy_step idle_step)

lemma dpk_update_contract:
  assumes "length cooked = n" and "\<not> cooked_changed s" and "(s', cooked') = dpk_update cols raw cooked n e s"
  shows "length cooked' = n"
    and "r < n \<Longrightarrow> bit (cooked' ! r) k = bit (cooked ! r) k \<or> bit (cooked' ! r) k = bit (raw ! r) k"
    and "cooked_changed s' \<longleftrightarrow> cooked' \<noteq> cooked"
proof -
  let ?x = "(s\<lparr>counters_need_update := False\<rparr>, cooked)"
  have y: "(s', cooked') = fold (\<lambda>row z. fold ((\<lambda>row _. dpk_update_cell cols raw e row) row (snd z ! row)) [0..<cols] z)
      [0..<n] ?x"
    using assms(3) by (simp add: dpk_update_def)
  have len: "length (snd ?x) = n" using assms(1) by simp
  note M = matrix_loop [where g = "\<lambda>row _. dpk_update_cell cols raw e row" and cc = cooked_changed
      and raw = raw, OF dpk_update_cell_step len y]
  show "length cooked' = n" using M(1) by simp
  show "r < n \<Longrightarrow> bit (cooked' ! r) k = bit (cooked ! r) k \<or> bit (cooked' ! r) k = bit (raw ! r) k"
    using M(2) [of r k] by simp
  show "cooked_changed s' \<longleftrightarrow> cooked' \<noteq> cooked" using M(3) assms(2) by simp
qed

lemma dpk_start_frame: "cooked_changed (dpk_start cols D raw cooked n s) = cooked_changed s"
  unfolding dpk_start_def
  by (rule fold_keeps [where P = "\<lambda>t. cooked_changed t = cooked_changed s"], simp,
    rule fold_keeps [where P = "\<lambda>t. cooked_changed t = cooked_changed s"])
    (simp_all add: dpk_start_cell_def Let_def)

lemma dpk_debounce_contract:
  assumes "length cooked = n" and "dpk_debounce cols D n raw cooked changed now s = (res, cooked', s')"
  shows "length cooked' = n"
    and "r < n \<Longrightarrow> bit (cooked' ! r) k = bit (cooked ! r) k \<or> bit (cooked' ! r) k = bit (raw ! r) k"
    and "res \<longleftrightarrow> cooked' \<noteq> cooked"
proof -
  let ?e = "clamp_u8 (TIMER_DIFF_FAST now (last_time s))"
  obtain t ck where t: "(t, ck) = (if counters_need_update s \<and> 0 < ?e
      then dpk_update cols raw cooked n ?e (s\<lparr>cooked_changed := False, last_time := now\<rparr>)
      else (if counters_need_update s then s\<lparr>cooked_changed := False, last_time := now\<rparr>
            else s\<lparr>cooked_changed := False\<rparr>, cooked))"
    by (metis prod.collapse)
  have out: "cooked' = ck" "res = cooked_changed t"
    using assms(2) t by (auto simp: dpk_debounce_def Let_def dpk_start_frame split: if_splits prod.splits)
  have "length ck = n \<and> (\<forall>r < n. \<forall>k. bit (ck ! r) k = bit (cooked ! r) k \<or> bit (ck ! r) k = bit (raw ! r) k)
      \<and> (cooked_changed t \<longleftrightarrow> ck \<noteq> cooked)"
  proof (cases "counters_need_update s \<and> 0 < ?e")
    case True
    then have u: "(t, ck) = dpk_update cols raw cooked n ?e (s\<lparr>cooked_changed := False, last_time := now\<rparr>)"
      using t by simp
    show ?thesis using dpk_update_contract [OF assms(1) _ u] by simp
  next
    case False
    then show ?thesis using t assms(1) by (auto split: if_splits)
  qed
  then show "length cooked' = n"
    and "r < n \<Longrightarrow> bit (cooked' ! r) k = bit (cooked ! r) k \<or> bit (cooked' ! r) k = bit (raw ! r) k"
    and "res \<longleftrightarrow> cooked' \<noteq> cooked" unfolding out by auto
qed

interpretation dpk: debouncer "dpk_debounce cols D n" "\<lambda>_. True" n
proof
  fix raw cooked cooked' :: "'a word list" and changed now res r c and s s' :: "'b word debounce_state"
  assume "length cooked = n" and "dpk_debounce cols D n raw cooked changed now s = (res, cooked', s')"
  note E = dpk_debounce_contract [OF this]
  show "True \<and> length cooked' = n" using E(1) by simp
  show "bit (cooked' ! r) c = bit (cooked ! r) c \<or> bit (cooked' ! r) c = bit (raw ! r) c" if "r < n"
    by (rule E(2) [OF that])
  show "res \<longleftrightarrow> cooked' \<noteq> cooked" by (rule E(3))
qed

section \<open>asym_eager_defer_pk\<close>

text \<open>A counter is one byte: a flag for the direction and seven bits of time.\<close>

record asym_counter =
  pressed :: bool
  time :: "7 word"

record 'w asym_state =
  asym_counters :: "asym_counter list"
  asym_last_time :: 'w
  asym_counters_need_update :: bool
  asym_matrix_need_update :: bool
  asym_cooked_changed :: bool

definition asym_update_cell ::
  "nat \<Rightarrow> 'r::len word list \<Rightarrow> u8 \<Rightarrow> nat \<Rightarrow> nat \<Rightarrow> 't::len word asym_state \<times> 'r word list
    \<Rightarrow> 't word asym_state \<times> 'r word list" where
  "asym_update_cell cols raw elapsed row col x =
     (case x of (s, cooked) \<Rightarrow>
        let i = cell_index cols row col; p = asym_counters s ! i
        in if time p \<noteq> 0
           then if unat (time p) \<le> unat elapsed
                then let s = s\<lparr>asym_counters := (asym_counters s)[i := p\<lparr>time := 0\<rparr>]\<rparr>
                     in if pressed p
                        then (s\<lparr>asym_matrix_need_update := True\<rparr>, cooked)
                        else let cooked_next = copy_bit col (cooked ! row) (raw ! row)
                             in (s\<lparr>asym_cooked_changed := asym_cooked_changed s
                                     \<or> cooked ! row XOR cooked_next \<noteq> 0\<rparr>,
                                 cooked[row := cooked_next])
                else (s\<lparr>asym_counters := (asym_counters s)[i := p\<lparr>time := time p - ucast elapsed\<rparr>],
                        asym_counters_need_update := True\<rparr>, cooked)
           else (s, cooked))"

definition asym_update ::
  "nat \<Rightarrow> 'r::len word list \<Rightarrow> 'r word list \<Rightarrow> nat \<Rightarrow> u8 \<Rightarrow> 't::len word asym_state
    \<Rightarrow> 't word asym_state \<times> 'r word list" where
  "asym_update cols raw cooked n elapsed s =
     fold (\<lambda>row. fold (asym_update_cell cols raw elapsed row) [0..<cols]) [0..<n]
       (s\<lparr>asym_counters_need_update := False, asym_matrix_need_update := False\<rparr>, cooked)"

definition asym_transfer_cell ::
  "nat \<Rightarrow> 7 word \<Rightarrow> 'r::len word list \<Rightarrow> 'r word \<Rightarrow> nat \<Rightarrow> nat \<Rightarrow> 't::len word asym_state \<times> 'r word list
    \<Rightarrow> 't word asym_state \<times> 'r word list" where
  "asym_transfer_cell cols D raw delta row col x =
     (case x of (s, cooked) \<Rightarrow>
        let i = cell_index cols row col; p = asym_counters s ! i; col_mask = push_bit col 1
        in if delta AND col_mask \<noteq> 0
           then if time p = 0
                then let down = (raw ! row AND col_mask \<noteq> 0);
                         s = s\<lparr>asym_counters := (asym_counters s)[i := \<lparr>pressed = down, time = D\<rparr>],
                               asym_counters_need_update := True\<rparr>
                     in if down
                        then (s\<lparr>asym_cooked_changed := True\<rparr>, cooked[row := cooked ! row XOR col_mask])
                        else (s, cooked)
                else (s, cooked)
           else if time p \<noteq> 0
           then if \<not> pressed p
                then (s\<lparr>asym_counters := (asym_counters s)[i := p\<lparr>time := 0\<rparr>]\<rparr>, cooked)
                else (s, cooked)
           else (s, cooked))"

definition asym_transfer_matrix_values ::
  "nat \<Rightarrow> 7 word \<Rightarrow> 'r::len word list \<Rightarrow> 'r word list \<Rightarrow> nat \<Rightarrow> 't::len word asym_state
    \<Rightarrow> 't word asym_state \<times> 'r word list" where
  "asym_transfer_matrix_values cols D raw cooked n s =
     fold (\<lambda>row z. fold (asym_transfer_cell cols D raw (raw ! row XOR snd z ! row) row) [0..<cols] z)
       [0..<n] (s\<lparr>asym_matrix_need_update := False\<rparr>, cooked)"

definition asym_debounce ::
  "nat \<Rightarrow> 7 word \<Rightarrow> nat \<Rightarrow> 'r::len word list \<Rightarrow> 'r word list \<Rightarrow> bool \<Rightarrow> 't::len word
    \<Rightarrow> 't word asym_state \<Rightarrow> bool \<times> 'r word list \<times> 't word asym_state" where
  "asym_debounce cols D n raw cooked changed now s =
     (let s = s\<lparr>asym_cooked_changed := False\<rparr>;
          (updated_last, s, cooked) =
            (if asym_counters_need_update s
             then let elapsed_time = TIMER_DIFF_FAST now (asym_last_time s);
                      s = s\<lparr>asym_last_time := now\<rparr>
                  in (True, if 0 < clamp_u8 elapsed_time
                            then asym_update cols raw cooked n (clamp_u8 elapsed_time) s
                            else (s, cooked))
             else (False, s, cooked))
      in if changed \<or> asym_matrix_need_update s
         then case asym_transfer_matrix_values cols D raw cooked n
                     (if updated_last then s else s\<lparr>asym_last_time := now\<rparr>) of
           (s, cooked) \<Rightarrow> (asym_cooked_changed s, cooked, s)
         else (asym_cooked_changed s, cooked, s))"

lemma asym_update_cell_step:
  "length (snd x) = n \<Longrightarrow> row < n
    \<Longrightarrow> cell_step asym_cooked_changed raw n row col x (asym_update_cell cols raw e row col x)"
  by (cases x) (auto simp: asym_update_cell_def Let_def intro!: copy_step idle_step)

lemma flip_is_copy:
  fixes a b :: "'r::len word"
  assumes "bit b c" and "\<not> bit a c"
  shows "a XOR push_bit c 1 = copy_bit c a b"
proof (rule bit_word_eqI)
  fix k
  have "c < LENGTH('r)" using assms(1) by (rule bit_imp_le_length)
  then show "bit (a XOR push_bit c 1) k = bit (copy_bit c a b) k"
    unfolding bit_xor_mask bit_copy_bit using assms by auto
qed

lemma asym_transfer_cell_step:
  assumes "length (snd x) = n" and "row < n" and "bit (snd x ! row) col = bit old col"
  shows "cell_step asym_cooked_changed raw n row col x
    (asym_transfer_cell cols D raw (raw ! row XOR old) row col x)"
proof (cases x)
  case (Pair s ck)
  let ?p = "asym_counters s ! cell_index cols row col"
  have m: "(raw ! row XOR old) AND push_bit col 1 \<noteq> 0 \<longleftrightarrow> bit (raw ! row) col \<noteq> bit (ck ! row) col"
    unfolding and_one_shift_neq_0 using assms(3) Pair by (auto simp: bit_xor_iff)
  have dn: "raw ! row AND push_bit col 1 \<noteq> 0 \<longleftrightarrow> bit (raw ! row) col" by (rule and_one_shift_neq_0)
  show ?thesis
  proof (cases "bit (raw ! row) col \<and> \<not> bit (ck ! row) col \<and> time ?p = 0")
    case True
    let ?s = "s\<lparr>asym_counters := (asym_counters s)[cell_index cols row col := \<lparr>pressed = True, time = D\<rparr>],
        asym_counters_need_update := True, asym_cooked_changed := True\<rparr>"
    have ne: "ck ! row XOR copy_bit col (ck ! row) (raw ! row) \<noteq> 0"
      unfolding xor_eq_0 using True by (metis bit_copy_bit)
    have "asym_transfer_cell cols D raw (raw ! row XOR old) row col x
        = (?s, ck[row := ck ! row XOR push_bit col 1])"
      using True m dn Pair by (simp add: asym_transfer_cell_def Let_def)
    also have "\<dots> = (?s, ck[row := copy_bit col (ck ! row) (raw ! row)])"
      using flip_is_copy True by metis
    finally show ?thesis
      using copy_step [of ck n row asym_cooked_changed ?s s col raw] assms(1,2) ne Pair by simp
  next
    case False
    let ?y = "asym_transfer_cell cols D raw (raw ! row XOR old) row col x"
    have "snd ?y = ck \<and> asym_cooked_changed (fst ?y) = asym_cooked_changed s"
      unfolding asym_transfer_cell_def Let_def Pair prod.case m dn using False by auto
    then show ?thesis
      using idle_step [of ck n asym_cooked_changed "fst ?y" s] assms(1) Pair by (cases ?y) simp
  qed
qed

lemma asym_debounce_contract:
  assumes len: "length cooked = n"
    and deb: "asym_debounce cols D n raw cooked changed now s = (res, cooked', s')"
  shows "length cooked' = n"
    and "r < n \<Longrightarrow> bit (cooked' ! r) k = bit (cooked ! r) k \<or> bit (cooked' ! r) k = bit (raw ! r) k"
    and "res \<longleftrightarrow> cooked' \<noteq> cooked"
proof -
  let ?e = "clamp_u8 (TIMER_DIFF_FAST now (asym_last_time s))"
  obtain t ck where t: "(t, ck) = (if asym_counters_need_update s \<and> 0 < ?e
      then asym_update cols raw cooked n ?e (s\<lparr>asym_cooked_changed := False, asym_last_time := now\<rparr>)
      else (if asym_counters_need_update s then s\<lparr>asym_cooked_changed := False, asym_last_time := now\<rparr>
            else s\<lparr>asym_cooked_changed := False\<rparr>, cooked))"
    by (metis prod.collapse)
  have ck: "length ck = n \<and> (\<forall>r < n. \<forall>k. bit (ck ! r) k = bit (cooked ! r) k \<or> bit (ck ! r) k = bit (raw ! r) k)
      \<and> (asym_cooked_changed t \<longleftrightarrow> ck \<noteq> cooked)"
  proof (cases "asym_counters_need_update s \<and> 0 < ?e")
    case True
    let ?x = "(s\<lparr>asym_cooked_changed := False, asym_last_time := now, asym_counters_need_update := False,
        asym_matrix_need_update := False\<rparr>, cooked)"
    have y: "(t, ck) = fold (\<lambda>row z. fold ((\<lambda>row _. asym_update_cell cols raw ?e row) row (snd z ! row))
        [0..<cols] z) [0..<n] ?x"
      using t True by (simp add: asym_update_def)
    have lx: "length (snd ?x) = n" using len by simp
    note M = matrix_loop [where g = "\<lambda>row _. asym_update_cell cols raw ?e row" and cc = asym_cooked_changed
        and raw = raw, OF asym_update_cell_step lx y]
    show ?thesis using M by simp
  next
    case False
    then show ?thesis using t len by (auto split: if_splits)
  qed
  have "length cooked' = n \<and> (\<forall>r < n. \<forall>k. bit (cooked' ! r) k = bit (ck ! r) k \<or> bit (cooked' ! r) k = bit (raw ! r) k)
      \<and> (res \<longleftrightarrow> ck \<noteq> cooked \<or> cooked' \<noteq> ck)"
  proof (cases "changed \<or> asym_matrix_need_update t")
    case True
    let ?t = "if asym_counters_need_update s then t else t\<lparr>asym_last_time := now\<rparr>"
    let ?x = "(?t\<lparr>asym_matrix_need_update := False\<rparr>, ck)"
    have "(s', cooked') = asym_transfer_matrix_values cols D raw ck n ?t" and res: "res = asym_cooked_changed s'"
      using deb t True by (auto simp: asym_debounce_def Let_def split: if_splits prod.splits)
    from this(1) have y: "(s', cooked') = fold (\<lambda>row z. fold
        ((\<lambda>row old. asym_transfer_cell cols D raw (raw ! row XOR old) row) row (snd z ! row)) [0..<cols] z)
        [0..<n] ?x"
      by (simp add: asym_transfer_matrix_values_def)
    have lx: "length (snd ?x) = n" using ck by simp
    have M: "length (snd (s', cooked')) = n"
      "r < n \<Longrightarrow> bit (snd (s', cooked') ! r) k = bit (snd ?x ! r) k \<or> bit (snd (s', cooked') ! r) k = bit (raw ! r) k"
      "asym_cooked_changed (fst (s', cooked')) \<longleftrightarrow> asym_cooked_changed (fst ?x) \<or> snd (s', cooked') \<noteq> snd ?x" for r k
      by (rule matrix_loop [OF _ lx y]; (rule asym_transfer_cell_step)?; assumption)+
    have "length cooked' = n" using M(1) by simp
    moreover have "bit (cooked' ! r) k = bit (ck ! r) k \<or> bit (cooked' ! r) k = bit (raw ! r) k"
      if "r < n" for r k using M(2) [OF that, of k] by simp
    moreover have "res \<longleftrightarrow> ck \<noteq> cooked \<or> cooked' \<noteq> ck" using M(3) ck res by simp
    ultimately show ?thesis by blast
  next
    case False
    then have "cooked' = ck \<and> res = asym_cooked_changed t"
      using deb t by (auto simp: asym_debounce_def Let_def split: if_splits prod.splits)
    then show ?thesis using ck by simp
  qed
  note fin = this
  show "length cooked' = n" using fin by blast
  show "r < n \<Longrightarrow> bit (cooked' ! r) k = bit (cooked ! r) k \<or> bit (cooked' ! r) k = bit (raw ! r) k"
    using fin ck by metis
  have "cooked' \<noteq> cooked" if ne: "ck \<noteq> cooked"
  proof -
    obtain r where r: "r < n" "ck ! r \<noteq> cooked ! r" using ne ck len by (metis nth_equalityI)
    then obtain k where k: "bit (ck ! r) k \<noteq> bit (cooked ! r) k" by (metis bit_word_eqI)
    then have "bit (cooked' ! r) k \<noteq> bit (cooked ! r) k" using fin ck r(1) by metis
    then show ?thesis by auto
  qed
  then show "res \<longleftrightarrow> cooked' \<noteq> cooked" using fin by blast
qed

interpretation asym: debouncer "asym_debounce cols D n" "\<lambda>_. True" n
proof
  fix raw cooked cooked' :: "'a word list" and changed now res r c and s s' :: "'b word asym_state"
  assume "length cooked = n" and "asym_debounce cols D n raw cooked changed now s = (res, cooked', s')"
  note E = asym_debounce_contract [OF this]
  show "True \<and> length cooked' = n" using E(1) by simp
  show "bit (cooked' ! r) c = bit (cooked ! r) c \<or> bit (cooked' ! r) c = bit (raw ! r) c" if "r < n"
    by (rule E(2) [OF that])
  show "res \<longleftrightarrow> cooked' \<noteq> cooked" by (rule E(3))
qed

section \<open>sym_defer_pr\<close>

text \<open>DEBOUNCE is not clamped here: it is converted to a byte when a countdown starts.\<close>

record 'x dpr_state =
  dpr_last_time :: u16
  countdowns :: "u8 list"
  last_raw :: "'x list"

definition dpr_init :: "nat \<Rightarrow> u16 \<Rightarrow> 'r::len word dpr_state" where
  "dpr_init n now = \<lparr>dpr_last_time = now, countdowns = replicate n 0, last_raw = replicate n 0\<rparr>"

definition dpr_row ::
  "nat \<Rightarrow> 'r::len word list \<Rightarrow> u8 \<Rightarrow> nat \<Rightarrow> (bool \<times> 'r word dpr_state) \<times> 'r word list
    \<Rightarrow> (bool \<times> 'r word dpr_state) \<times> 'r word list" where
  "dpr_row D raw elapsed row x =
     (case x of ((chg, s), cooked) \<Rightarrow>
        let raw_row = raw ! row; countdown = countdowns s ! row
        in if raw_row \<noteq> last_raw s ! row
           then ((chg, s\<lparr>countdowns := (countdowns s)[row := of_nat D],
                   last_raw := (last_raw s)[row := raw_row]\<rparr>), cooked)
           else if elapsed < countdown
           then ((chg, s\<lparr>countdowns := (countdowns s)[row := countdown - elapsed]\<rparr>), cooked)
           else if countdown \<noteq> 0
           then ((chg \<or> cooked ! row XOR raw_row \<noteq> 0,
                   s\<lparr>countdowns := (countdowns s)[row := 0]\<rparr>), cooked[row := raw_row])
           else ((chg, s), cooked))"

definition dpr_debounce ::
  "nat \<Rightarrow> nat \<Rightarrow> 'r::len word list \<Rightarrow> 'r word list \<Rightarrow> bool \<Rightarrow> 16 word
    \<Rightarrow> 'r word dpr_state \<Rightarrow> bool \<times> 'r word list \<times> 'r word dpr_state" where
  "dpr_debounce D n raw cooked changed now s =
     (let elapsed = clamp_u8 (TIMER_DIFF_FAST now (dpr_last_time s))
      in case fold (dpr_row D raw elapsed) [0..<n] ((False, s\<lparr>dpr_last_time := now\<rparr>), cooked) of
        ((chg, s), cooked) \<Rightarrow> (chg, cooked, s))"

lemma dpr_loop:
  fixes x y :: "(bool \<times> 'r::len word dpr_state) \<times> 'r word list"
  assumes len: "length (snd x) = n" and y: "y = fold (dpr_row D raw e) [0..<n] x"
  shows "length (snd y) = n" and "r < n \<Longrightarrow> snd y ! r = snd x ! r \<or> snd y ! r = raw ! r"
    and "fst (fst y) \<longleftrightarrow> fst (fst x) \<or> snd y \<noteq> snd x"
proof -
  let ?P = "\<lambda>V (z :: (bool \<times> 'r word dpr_state) \<times> 'r word list). length (snd z) = n
    \<and> (\<forall>r < n. r \<notin> V \<longrightarrow> snd z ! r = snd x ! r)
    \<and> (\<forall>r < n. snd z ! r = snd x ! r \<or> snd z ! r = raw ! r)
    \<and> (fst (fst z) \<longleftrightarrow> fst (fst x) \<or> (\<exists>r < n. snd z ! r \<noteq> snd x ! r))"
  have P: "?P (set [0..<n]) y"
    unfolding y
  proof (rule fold_visited)
    fix V row z
    assume row: "row \<in> set [0..<n]" "row \<notin> V" and P: "?P V z"
    obtain b s ck where z: "z = ((b, s), ck)" by (metis prod.collapse)
    have rn: "row < n" and same: "ck ! row = snd x ! row" and lc: "length ck = n"
      using row P z by auto
    let ?z = "dpr_row D raw e row z"
    have step: "snd ?z = ck \<and> fst (fst ?z) = b
        \<or> snd ?z = ck[row := raw ! row] \<and> (fst (fst ?z) \<longleftrightarrow> b \<or> ck ! row \<noteq> raw ! row)"
      unfolding z dpr_row_def Let_def prod.case xor_eq_0 by auto
    then show "?P (insert row V) ?z"
    proof (elim disjE conjE)
      assume "snd ?z = ck" "fst (fst ?z) = b"
      then show ?thesis using P z by simp
    next
      assume c: "snd ?z = ck[row := raw ! row]" and b: "fst (fst ?z) \<longleftrightarrow> b \<or> ck ! row \<noteq> raw ! row"
      have "(\<exists>r < n. snd ?z ! r \<noteq> snd x ! r) \<longleftrightarrow> (\<exists>r < n. ck ! r \<noteq> snd x ! r) \<or> ck ! row \<noteq> raw ! row"
        unfolding c using rn same lc by (metis nth_list_update)
      then have "fst (fst ?z) \<longleftrightarrow> fst (fst x) \<or> (\<exists>r < n. snd ?z ! r \<noteq> snd x ! r)"
        using b P z by auto
      moreover have "\<forall>r < n. snd ?z ! r = snd x ! r \<or> snd ?z ! r = raw ! r"
        unfolding c using P z rn lc by (simp add: nth_list_update)
      moreover have "\<forall>r < n. r \<notin> insert row V \<longrightarrow> snd ?z ! r = snd x ! r"
        unfolding c using P z by auto
      ultimately show ?thesis using lc unfolding c length_list_update by blast
    qed
  qed (use len in auto)
  show "length (snd y) = n" using P by blast
  show "r < n \<Longrightarrow> snd y ! r = snd x ! r \<or> snd y ! r = raw ! r" using P by blast
  have "(\<exists>r < n. snd y ! r \<noteq> snd x ! r) \<longleftrightarrow> snd y \<noteq> snd x"
    using P len by (metis nth_equalityI)
  then show "fst (fst y) \<longleftrightarrow> fst (fst x) \<or> snd y \<noteq> snd x" using P by blast
qed

interpretation dpr: debouncer "dpr_debounce D n" "\<lambda>_. True" n
proof
  fix raw cooked cooked' :: "'a word list" and changed now res r c and s s' :: "'a word dpr_state"
  assume len: "length cooked = n" and deb: "dpr_debounce D n raw cooked changed now s = (res, cooked', s')"
  let ?x = "((False, s\<lparr>dpr_last_time := now\<rparr>), cooked)"
  let ?e = "clamp_u8 (TIMER_DIFF_FAST now (dpr_last_time s))"
  have y: "((res, s'), cooked') = fold (dpr_row D raw ?e) [0..<n] ?x"
    using deb by (auto simp: dpr_debounce_def split: prod.splits)
  have lx: "length (snd ?x) = n" using len by simp
  note L = dpr_loop [OF lx y]
  show "True \<and> length cooked' = n" using L(1) by simp
  show "bit (cooked' ! r) c = bit (cooked ! r) c \<or> bit (cooked' ! r) c = bit (raw ! r) c" if "r < n"
    using L(2) [OF that] by auto
  show "res \<longleftrightarrow> cooked' \<noteq> cooked" using L(3) by simp
qed

text \<open>With a DEBOUNCE that is zero as a byte no countdown ever starts.\<close>

lemma dpr_dead_step:
  fixes s :: "'r::len word dpr_state"
  assumes "of_nat D = (0 :: u8)" and "\<forall>r < n. countdowns s ! r = 0" and "length (countdowns s) = n"
  shows "\<exists>s'. dpr_debounce D n raw cooked changed now s = (False, cooked, s')
    \<and> (\<forall>r < n. countdowns s' ! r = 0) \<and> length (countdowns s') = n"
proof -
  let ?e = "clamp_u8 (TIMER_DIFF_FAST now (dpr_last_time s))"
  let ?P = "\<lambda>z :: (bool \<times> 'r word dpr_state) \<times> 'r word list. fst (fst z) = False \<and> snd z = cooked
    \<and> (\<forall>r < n. countdowns (snd (fst z)) ! r = 0) \<and> length (countdowns (snd (fst z))) = n"
  have "?P (fold (dpr_row D raw ?e) [0..<n] ((False, s\<lparr>dpr_last_time := now\<rparr>), cooked))"
  proof (rule fold_keeps)
    fix row z
    assume "row \<in> set [0..<n]" and "?P z"
    then show "?P (dpr_row D raw ?e row z)"
      using assms(1) by (cases z) (auto simp: dpr_row_def Let_def nth_list_update split: if_splits)
  qed (use assms(2,3) in simp)
  then show ?thesis by (auto simp: dpr_debounce_def split: prod.splits)
qed

lemma dpr_dead:
  assumes "of_nat D = (0 :: u8)" and "\<forall>r < n. countdowns s ! r = 0" and "length (countdowns s) = n"
  shows "fst (debouncer.scans (dpr_debounce D n) xs cooked s) = cooked"
  using assms(2,3)
proof (induction xs arbitrary: s)
  case Nil
  then show ?case by (simp add: dpr.scans.simps)
next
  case (Cons x xs)
  obtain raw ch t where x: "x = (raw, ch, t)" by (cases x)
  obtain s' where "dpr_debounce D n raw cooked ch t s = (False, cooked, s')"
    "\<forall>r < n. countdowns s' ! r = 0" "length (countdowns s') = n"
    using dpr_dead_step [OF assms(1) Cons.prems] by blast
  then show ?case using Cons.IH [of s'] x by (simp add: dpr.scans.simps)
qed

section \<open>Properties\<close>

definition heard ::
  "'r::len word list \<Rightarrow> ('r word list \<times> bool \<times> 't::len word) list \<Rightarrow> 'r word list \<Rightarrow> nat \<Rightarrow> nat \<Rightarrow> bool" where
  "heard cooked xs out r c \<longleftrightarrow> bit (out ! r) c = bit (cooked ! r) c
     \<or> (\<exists>(raw, ch, t) \<in> set xs. bit (out ! r) c = bit (raw ! r) c)"

text \<open>
  C32: No phantom keys: after any sequence of scans, under each of the seven algorithms and whatever
  the times and the changed flags, each key is reported either as it was at the start or as one of
  the scans read it. No time-out, wrap-around of a timer or state of another key invents a value.
\<close>

theorem debounce_no_phantom:
  fixes cooked :: "'r::len word list" and xs :: "('r word list \<times> bool \<times> 16 word) list"
  assumes "length cooked = n" and "\<forall>(raw, ch, t) \<in> set xs. length raw = n" and "r < n"
    and "cols \<le> LENGTH('r)" and "E \<noteq> 0" and "epk_inv cols n s4"
  shows "heard cooked xs (fst (debouncer.scans none_debounce xs cooked ())) r c
    \<and> heard cooked xs (fst (debouncer.scans (defer_g_debounce D) xs cooked s1)) r c
    \<and> heard cooked xs (fst (debouncer.scans (dpk_debounce cols E n) xs cooked s2)) r c
    \<and> heard cooked xs (fst (debouncer.scans (asym_debounce cols F n) xs cooked s3)) r c
    \<and> heard cooked xs (fst (debouncer.scans (epk_debounce cols E n) xs cooked s4)) r c
    \<and> heard cooked xs (fst (debouncer.scans (epr_debounce E n) xs cooked s5)) r c
    \<and> heard cooked xs (fst (debouncer.scans (dpr_debounce D n) xs cooked s6)) r c"
  unfolding heard_def
  by (intro conjI none.no_phantom [where n = n] defer_g.no_phantom [where n = n] dpk.no_phantom asym.no_phantom epr.no_phantom
      dpr.no_phantom debouncer.no_phantom [OF epk_debouncer [OF assms(4,5)] assms(6)] TrueI assms(1-3))

theorem debounce_no_phantom_witness:
  "heard [0 :: 8 word] [([1], True, 3 :: 16 word), ([0], True, 4)]
    (fst (debouncer.scans (dpk_debounce 2 5 1) [([1], True, 3 :: 16 word), ([0], True, 4)] [0] (epk_init 2 1))) 0 0"
  by (rule debounce_no_phantom [of "[0 :: 8 word]" 1 "[([1], True, 3), ([0], True, 4)]" 0 2 5 "epk_init 2 1",
        THEN conjunct2, THEN conjunct2, THEN conjunct1])
    (use epk_demo_init in simp_all)

text \<open>
  With DEBOUNCE set to 0, or to any multiple of 256, the per-row deferring algorithm never
  transfers a change: from the initial state and after any sequence of scans the reported matrix is
  the one at the start, so that no key press is ever seen.
\<close>

theorem dpr_zero_debounce_is_dead:
  assumes "D mod 256 = 0"
  shows "fst (debouncer.scans (dpr_debounce D n) xs cooked (dpr_init n t0)) = cooked"
proof (rule dpr_dead)
  show "of_nat D = (0 :: u8)"
    using assms by (simp add: word_of_nat_eq_0_iff mod_eq_0_iff_dvd)
qed (simp_all add: dpr_init_def)

theorem dpr_zero_debounce_is_dead_witness:
  "fst (debouncer.scans (dpr_debounce 256 1) [([1], True, 10), ([1], False, 20), ([1], False, 3000)]
    [0 :: 8 word] (dpr_init 1 0)) = [0]"
  by (rule dpr_zero_debounce_is_dead) simp

end
