(* ===== verification/Report.thy ===== *)
theory Report
  imports Prelude Bitwise
begin

text \<open>
  The keyboard reports of tmk_core/protocol/report.c: the array of six keys every host
  understands, the bitmap of 240 keys of the n-key rollover (NKRO) report, and the adaptive mode
  that fills the array first and the bitmap after it. The preprocessor symbols that select one of
  the three are the parameter \<open>build\<close>; the ring-buffered array is not modelled.
\<close>

section \<open>State\<close>

datatype build = SIX_KRO | NKRO_ENABLE | APDAPTIVE_NKRO_ENABLE

text \<open>
  \<open>kb_mods\<close> and \<open>keys\<close> are the fields of \<open>keyboard_report\<close>, \<open>nkro_mods\<close> and \<open>bits\<close> those of
  \<open>nkro_report\<close> (the report id and the reserved byte are constants); \<open>nkro\<close> is \<open>keymap_config.nkro\<close>;
  the last three exist in the adaptive build only.
\<close>

record report_state =
  kb_mods :: u8
  keys :: "u8 list"
  nkro_mods :: u8
  bits :: "u8 list"
  keyboard_protocol :: bool
  nkro :: bool
  kb_keys_count :: u8
  nkro_bit_count :: u8
  kb_report_changed :: u8

definition KEYBOARD_REPORT_KEYS :: nat where
  "KEYBOARD_REPORT_KEYS = 6"

definition NKRO_REPORT_BITS :: nat where
  "NKRO_REPORT_BITS = 30"

definition KB_RPT_STD :: u8 where
  "KB_RPT_STD = push_bit 0 1"

definition KB_RPT_NKRO :: u8 where
  "KB_RPT_NKRO = push_bit 1 1"

definition KC_NO :: u8 where
  "KC_NO = 0"

definition report_init :: "bool \<Rightarrow> bool \<Rightarrow> report_state" where
  "report_init protocol nk =
     \<lparr>kb_mods = 0, keys = replicate KEYBOARD_REPORT_KEYS 0, nkro_mods = 0,
      bits = replicate NKRO_REPORT_BITS 0, keyboard_protocol = protocol, nkro = nk,
      kb_keys_count = 0, nkro_bit_count = 0, kb_report_changed = 0\<rparr>"

section \<open>Operations\<close>

text \<open>The number of non-zero bytes of an array.\<close>

definition count_bytes :: "u8 list \<Rightarrow> u8" where
  "count_bytes p = fold (\<lambda>b cnt. if b \<noteq> 0 then cnt + 1 else cnt) p 0"

definition has_anykey :: "build \<Rightarrow> report_state \<Rightarrow> u8" where
  "has_anykey b s =
     (if b = APDAPTIVE_NKRO_ENABLE then kb_keys_count s + nkro_bit_count s
      else if b = NKRO_ENABLE \<and> keyboard_protocol s \<and> nkro s then count_bytes (bits s)
      else count_bytes (keys s))"

text \<open>
  The loop of \<open>get_first_key\<close> stops at the first non-zero byte or at the end of the array; reading
  the byte behind the end is None.
\<close>

fun first_byte :: "u8 list \<Rightarrow> nat \<Rightarrow> nat" where
  "first_byte [] i = i"
| "first_byte (x # xs) i = (if x = 0 then first_byte xs (Suc i) else i)"

definition get_first_key :: "build \<Rightarrow> report_state \<Rightarrow> u8 option" where
  "get_first_key b s =
     (if b = NKRO_ENABLE \<and> keyboard_protocol s \<and> nkro s
      then let i = first_byte (bits s) 0
           in if i < NKRO_REPORT_BITS then Some (of_nat (i * 8) OR biton (bits s ! i)) else None
      else Some (keys s ! 0))"

definition byte_of :: "u8 \<Rightarrow> nat" where
  "byte_of code = unat (drop_bit 3 code)"

definition mask_of :: "u8 \<Rightarrow> u8" where
  "mask_of code = push_bit (unat (code AND 7)) 1"

definition is_key_pressed :: "build \<Rightarrow> u8 \<Rightarrow> report_state \<Rightarrow> bool" where
  "is_key_pressed b key s =
     (if key = KC_NO then False
      else if b = APDAPTIVE_NKRO_ENABLE \<and> keyboard_protocol s \<and> nkro_bit_count s \<noteq> 0
              \<and> byte_of key < NKRO_REPORT_BITS \<and> bits s ! byte_of key AND mask_of key \<noteq> 0
      then True
      else if b = NKRO_ENABLE \<and> keyboard_protocol s \<and> nkro s
      then if byte_of key < NKRO_REPORT_BITS then bits s ! byte_of key AND mask_of key \<noteq> 0 else False
      else \<exists>k \<in> set (keys s). k = key)"

text \<open>The scan of \<open>add_key_byte\<close>: the index where it stops and the first empty slot it passed.\<close>

fun scan_keys :: "u8 \<Rightarrow> u8 list \<Rightarrow> nat \<Rightarrow> nat option \<Rightarrow> nat \<times> nat option" where
  "scan_keys code [] i spare = (i, spare)"
| "scan_keys code (k # ks) i spare =
     (if k = code then (i, spare)
      else scan_keys code ks (Suc i) (if spare = None \<and> k = 0 then Some i else spare))"

definition add_key_byte :: "build \<Rightarrow> u8 \<Rightarrow> report_state \<Rightarrow> report_state" where
  "add_key_byte b code s =
     (case scan_keys code (keys s) 0 None of (i, spare) \<Rightarrow>
        if i = KEYBOARD_REPORT_KEYS
        then case spare of
               None \<Rightarrow> s
             | Some e \<Rightarrow>
                 let s = s\<lparr>keys := (keys s)[e := code]\<rparr>
                 in if b = APDAPTIVE_NKRO_ENABLE
                    then s\<lparr>kb_report_changed := kb_report_changed s OR KB_RPT_STD,
                           kb_keys_count := kb_keys_count s + 1\<rparr>
                    else s
        else s)"

definition del_key_slot :: "build \<Rightarrow> u8 \<Rightarrow> nat \<Rightarrow> report_state \<Rightarrow> report_state" where
  "del_key_slot b code i s =
     (if keys s ! i = code
      then let s = s\<lparr>keys := (keys s)[i := 0]\<rparr>
           in if b = APDAPTIVE_NKRO_ENABLE
              then s\<lparr>kb_report_changed := kb_report_changed s OR KB_RPT_STD,
                     kb_keys_count := kb_keys_count s - 1\<rparr>
              else s
      else s)"

definition del_key_byte :: "build \<Rightarrow> u8 \<Rightarrow> report_state \<Rightarrow> report_state" where
  "del_key_byte b code s = fold (del_key_slot b code) [0..<KEYBOARD_REPORT_KEYS] s"

definition add_key_bit :: "build \<Rightarrow> u8 \<Rightarrow> report_state \<Rightarrow> report_state" where
  "add_key_bit b code s =
     (if byte_of code < NKRO_REPORT_BITS
      then let s = s\<lparr>bits := (bits s)[byte_of code := bits s ! byte_of code OR mask_of code]\<rparr>
           in if b = APDAPTIVE_NKRO_ENABLE
              then s\<lparr>kb_report_changed := kb_report_changed s OR KB_RPT_NKRO,
                     nkro_bit_count := nkro_bit_count s + 1\<rparr>
              else s
      else s)"

definition del_key_bit :: "build \<Rightarrow> u8 \<Rightarrow> report_state \<Rightarrow> bool \<times> report_state" where
  "del_key_bit b code s =
     (if byte_of code < NKRO_REPORT_BITS
      then let s' = s\<lparr>bits := (bits s)[byte_of code := bits s ! byte_of code AND NOT (mask_of code)]\<rparr>
           in if b = APDAPTIVE_NKRO_ENABLE
              then if bits s ! byte_of code AND mask_of code \<noteq> 0
                   then (True, s'\<lparr>kb_report_changed := kb_report_changed s' OR KB_RPT_NKRO,
                                  nkro_bit_count := nkro_bit_count s' - 1\<rparr>)
                   else (False, s)
              else (True, s')
      else (False, s))"

definition add_key_to_report :: "build \<Rightarrow> u8 \<Rightarrow> report_state \<Rightarrow> report_state" where
  "add_key_to_report b key s =
     (if b = APDAPTIVE_NKRO_ENABLE \<and> keyboard_protocol s \<and> kb_keys_count s = of_nat KEYBOARD_REPORT_KEYS
         \<or> b = NKRO_ENABLE \<and> keyboard_protocol s \<and> nkro s
      then add_key_bit b key s
      else add_key_byte b key s)"

definition del_key_from_report :: "build \<Rightarrow> u8 \<Rightarrow> report_state \<Rightarrow> report_state" where
  "del_key_from_report b key s =
     (if b = APDAPTIVE_NKRO_ENABLE \<and> keyboard_protocol s \<and> nkro_bit_count s \<noteq> 0
      then case del_key_bit b key s of (removed, s) \<Rightarrow> if removed then s else del_key_byte b key s
      else if b = NKRO_ENABLE \<and> keyboard_protocol s \<and> nkro s
      then snd (del_key_bit b key s)
      else del_key_byte b key s)"

definition clear_keys_from_report :: "build \<Rightarrow> report_state \<Rightarrow> report_state" where
  "clear_keys_from_report b s =
     (if b = APDAPTIVE_NKRO_ENABLE
      then let s = s\<lparr>bits := replicate NKRO_REPORT_BITS 0\<rparr>;
               s = (if nkro_bit_count s \<noteq> 0
                    then s\<lparr>kb_report_changed := kb_report_changed s OR KB_RPT_NKRO, nkro_bit_count := 0\<rparr>
                    else s);
               s = s\<lparr>keys := replicate KEYBOARD_REPORT_KEYS 0\<rparr>
           in if kb_keys_count s \<noteq> 0
              then s\<lparr>kb_report_changed := kb_report_changed s OR KB_RPT_STD, kb_keys_count := 0\<rparr>
              else s
      else if b = NKRO_ENABLE \<and> keyboard_protocol s \<and> nkro s
      then s\<lparr>bits := replicate NKRO_REPORT_BITS 0\<rparr>
      else s\<lparr>keys := replicate KEYBOARD_REPORT_KEYS 0\<rparr>)"

section \<open>The array\<close>

definition byte_keys :: "report_state \<Rightarrow> u8 set" where
  "byte_keys s = set (keys s) - {0}"

text \<open>The occupied slots hold different keys.\<close>

definition slots_ok :: "u8 list \<Rightarrow> bool" where
  "slots_ok ks \<longleftrightarrow> length ks = 6 \<and> (\<forall>i < 6. \<forall>j < 6. ks ! i \<noteq> 0 \<longrightarrow> ks ! i = ks ! j \<longrightarrow> i = j)"

lemma finite_byte_keys [simp]: "finite (byte_keys s)"
  by (simp add: byte_keys_def)

lemma card_byte_keys:
  assumes "slots_ok (keys s)"
  shows "card (byte_keys s) \<le> 6" and "card (byte_keys s) = 6 \<longleftrightarrow> 0 \<notin> set (keys s)"
proof -
  have len: "length (keys s) = 6" using assms by (simp add: slots_ok_def)
  have le: "card (set (keys s)) \<le> 6" using card_length [of "keys s"] len by simp
  show "card (byte_keys s) \<le> 6"
    using le card_mono [of "set (keys s)" "byte_keys s"] by (simp add: byte_keys_def)
  show "card (byte_keys s) = 6 \<longleftrightarrow> 0 \<notin> set (keys s)"
  proof
    assume "card (byte_keys s) = 6"
    then show "0 \<notin> set (keys s)"
      using le card_Suc_Diff1 [of "set (keys s)" 0] by (auto simp: byte_keys_def)
  next
    assume nz: "0 \<notin> set (keys s)"
    have "distinct (keys s)"
      unfolding distinct_conv_nth
    proof (intro allI impI)
      fix i j
      assume ij: "i < length (keys s)" "j < length (keys s)" "i \<noteq> j"
      then have "keys s ! i \<noteq> 0" using nz by (metis nth_mem)
      then show "keys s ! i \<noteq> keys s ! j" using assms ij len unfolding slots_ok_def by metis
    qed
    then show "card (byte_keys s) = 6" using nz len by (simp add: byte_keys_def distinct_card)
  qed
qed

lemma scan_keys_found: "code \<in> set ks \<Longrightarrow> fst (scan_keys code ks i e) < i + length ks"
proof (induction ks arbitrary: i e)
  case (Cons k ks)
  then show ?case
    using Cons.IH [of "Suc i" "if e = None \<and> k = 0 then Some i else e"] by auto
qed simp

lemma scan_keys_absent:
  "code \<notin> set ks \<Longrightarrow> scan_keys code ks i e = (i + length ks,
     if e \<noteq> None then e else if 0 \<in> set ks then Some (i + length (takeWhile (\<lambda>k. k \<noteq> 0) ks)) else None)"
  by (induction ks arbitrary: i e) auto

text \<open>The first empty slot, and the three cases of \<open>add_key_byte\<close>.\<close>

definition free_slot :: "u8 list \<Rightarrow> nat" where
  "free_slot ks = length (takeWhile (\<lambda>k. k \<noteq> 0) ks)"

lemma free_slot: "0 \<in> set ks \<Longrightarrow> free_slot ks < length ks \<and> ks ! free_slot ks = 0"
  unfolding free_slot_def using nth_length_takeWhile [of "\<lambda>k. k \<noteq> 0" ks]
  by (metis (mono_tags, lifting) length_takeWhile_le nat_less_le takeWhile_eq_all_conv takeWhile_eq_take take_all_iff
      order_refl)

definition note_change :: "build \<Rightarrow> u8 \<Rightarrow> report_state \<Rightarrow> report_state" where
  "note_change b m s =
     (if b = APDAPTIVE_NKRO_ENABLE then s\<lparr>kb_report_changed := kb_report_changed s OR m\<rparr> else s)"

lemma add_key_byte_cases:
  assumes len: "length (keys s) = 6"
  shows "code \<in> set (keys s) \<Longrightarrow> add_key_byte b code s = s"
    and "code \<notin> set (keys s) \<Longrightarrow> 0 \<notin> set (keys s) \<Longrightarrow> add_key_byte b code s = s"
    and "code \<notin> set (keys s) \<Longrightarrow> 0 \<in> set (keys s) \<Longrightarrow> add_key_byte b code s =
      note_change b KB_RPT_STD (s\<lparr>keys := (keys s)[free_slot (keys s) := code],
        kb_keys_count := (if b = APDAPTIVE_NKRO_ENABLE then kb_keys_count s + 1 else kb_keys_count s)\<rparr>)"
  using scan_keys_found [of code "keys s" 0 None] len
  by (auto simp: add_key_byte_def scan_keys_absent KEYBOARD_REPORT_KEYS_def note_change_def free_slot_def
      split: prod.splits)

text \<open>Deleting empties every slot that holds the key.\<close>

lemma del_key_byte_eq:
  assumes len: "length (keys s) = 6"
  shows "del_key_byte b code s = (s\<lparr>keys := map (\<lambda>k. if k = code then 0 else k) (keys s),
      kb_keys_count := (if b = APDAPTIVE_NKRO_ENABLE
        then kb_keys_count s - of_nat (card {i. i < 6 \<and> keys s ! i = code}) else kb_keys_count s),
      kb_report_changed := (if b = APDAPTIVE_NKRO_ENABLE \<and> code \<in> set (keys s)
        then kb_report_changed s OR KB_RPT_STD else kb_report_changed s)\<rparr>)"
proof -
  let ?K = "\<lambda>D. map (\<lambda>i. if i \<in> D \<and> keys s ! i = code then 0 else keys s ! i) [0..<6]"
  let ?P = "\<lambda>D t. t = s\<lparr>keys := ?K D,
      kb_keys_count := (if b = APDAPTIVE_NKRO_ENABLE
        then kb_keys_count s - of_nat (card {i \<in> D. keys s ! i = code}) else kb_keys_count s),
      kb_report_changed := (if b = APDAPTIVE_NKRO_ENABLE \<and> (\<exists>i \<in> D. keys s ! i = code)
        then kb_report_changed s OR KB_RPT_STD else kb_report_changed s)\<rparr>"
  have P: "?P (set [0..<6]) (del_key_byte b code s)"
    unfolding del_key_byte_def KEYBOARD_REPORT_KEYS_def
  proof (rule fold_visited)
    have "map ((!) (keys s)) [0..<6] = keys s" using map_nth [of "keys s"] len by simp
    then show "?P {} s" by simp
  next
    fix D i t
    assume i: "i \<in> set [0..<6]" "i \<notin> D" "D \<subseteq> set [0..<6]" and P: "?P D t"
    have ki: "keys t ! i = keys s ! i" using P i by simp
    have K: "(?K D)[i := 0] = ?K (insert i D)" if "keys s ! i = code"
      using i that by (intro nth_equalityI) (auto simp: nth_list_update)
    have K': "?K D = ?K (insert i D)" if "keys s ! i \<noteq> code"
      using i that by (intro map_cong) auto
    have fin: "finite D" using i(3) finite_subset by blast
    have C: "card {j \<in> insert i D. keys s ! j = code} = Suc (card {j \<in> D. keys s ! j = code})"
      if "keys s ! i = code"
    proof -
      have "{j \<in> insert i D. keys s ! j = code} = insert i {j \<in> D. keys s ! j = code}" using that by auto
      then show ?thesis using i(2) fin by simp
    qed
    have C': "{j \<in> insert i D. keys s ! j = code} = {j \<in> D. keys s ! j = code}" if "keys s ! i \<noteq> code"
      using that by auto
    show "?P (insert i D) (del_key_slot b code i t)"
    proof (cases "keys s ! i = code")
      case True
      then show ?thesis
        unfolding del_key_slot_def ki C [OF True]
        by (simp add: P K [OF True] Let_def algebra_simps or.assoc)
    next
      case False
      then show ?thesis
        unfolding del_key_slot_def ki C' [OF False] K' [OF False, symmetric] using P by simp
    qed
  qed simp
  have "?K (set [0..<6]) = map (\<lambda>k. if k = code then 0 else k) (keys s)"
    using len by (intro nth_equalityI) auto
  moreover have "{i \<in> set [0..<6]. keys s ! i = code} = {i. i < 6 \<and> keys s ! i = code}" by auto
  moreover have "(\<exists>i \<in> set [0..<6]. keys s ! i = code) \<longleftrightarrow> code \<in> set (keys s)"
    using len by (auto simp: in_set_conv_nth)
  ultimately show ?thesis using P by simp
qed

section \<open>The bitmap\<close>

definition in_bits :: "u8 list \<Rightarrow> u8 \<Rightarrow> bool" where
  "in_bits bs k \<longleftrightarrow> byte_of k < 30 \<and> bit (bs ! byte_of k) (unat (k AND 7))"

definition bit_keys :: "report_state \<Rightarrow> u8 set" where
  "bit_keys s = {k. in_bits (bits s) k}"

lemma byte_of_eq: "byte_of k = unat k div 8"
  unfolding byte_of_def unsigned_drop_bit_eq
  using unat_less_bits [of k] by (simp add: take_bit_nat_eq_self drop_bit_eq_div)

lemma bit_index: "unat (k AND 7 :: u8) = unat k mod 8"
proof -
  have "k AND 7 = take_bit 3 k" unfolding take_bit_eq_mask by (simp add: mask_eq_exp_minus_1)
  then have "unat (k AND 7) = take_bit 3 (unat k)" by (simp only: unsigned_take_bit_eq)
  then show ?thesis by (simp add: take_bit_eq_mod)
qed

lemma key_position:
  "byte_of k = byte_of k' \<and> unat (k AND 7) = unat (k' AND 7) \<longleftrightarrow> k = k'"
proof
  assume "byte_of k = byte_of k' \<and> unat (k AND 7) = unat (k' AND 7)"
  then have "unat k = unat k'"
    unfolding byte_of_eq bit_index by (metis div_mult_mod_eq)
  then show "k = k'" by (rule word_unat_eq_iff [THEN iffD2])
qed auto

lemma mask_test: "x AND mask_of k \<noteq> 0 \<longleftrightarrow> bit x (unat (k AND 7))"
  unfolding mask_of_def by (rule and_one_shift_neq_0)

lemma bit_mask_of: "bit (mask_of k) i \<longleftrightarrow> i = unat (k AND 7)"
proof -
  have "unat (k AND 7) < 8" unfolding bit_index by simp
  then show ?thesis unfolding mask_of_def bit_push_bit_iff bit_1_iff by auto
qed

lemma in_bits_or:
  assumes "length bs = 30" and "byte_of k < 30"
  shows "in_bits (bs[byte_of k := bs ! byte_of k OR mask_of k]) k' \<longleftrightarrow> in_bits bs k' \<or> k' = k"
  using assms key_position [of k k']
  by (auto simp: in_bits_def nth_list_update bit_or_iff bit_mask_of)

lemma in_bits_and_not:
  assumes "length bs = 30" and "byte_of k < 30"
  shows "in_bits (bs[byte_of k := bs ! byte_of k AND NOT (mask_of k)]) k' \<longleftrightarrow> in_bits bs k' \<and> k' \<noteq> k"
  using assms key_position [of k k'] bit_index [of k']
  by (auto simp: in_bits_def nth_list_update bit_and_iff bit_not_iff bit_mask_of)

lemma card_bit_keys_le: "card (bit_keys s) \<le> 240"
proof -
  have "unat ` bit_keys s \<subseteq> {..<240}" by (auto simp: bit_keys_def in_bits_def byte_of_eq)
  moreover have "inj_on unat (bit_keys s)" by (rule inj_onI) (rule unsigned_word_eqI)
  ultimately show ?thesis using card_inj_on_le [of unat "bit_keys s" "{..<240}"] by simp
qed

lemma card_bit_keys: "card (bit_keys s) < 256"
  using card_bit_keys_le [of s] by simp

section \<open>A report as a set of keys\<close>

text \<open>
  \<open>add k\<close> and \<open>del k\<close> change the keys of the report, \<open>held\<close>; \<open>room\<close> says when a further key fits.
  The client presses a key that is already in the report by releasing it first, as
  \<open>register_code\<close> does.
\<close>

datatype key_event = Press u8 | Release u8

fun event_key :: "key_event \<Rightarrow> u8" where
  "event_key (Press k) = k"
| "event_key (Release k) = k"

text \<open>The keys really held after a sequence of events, and that they fit at every moment.\<close>

fun keys_down :: "key_event list \<Rightarrow> u8 set \<Rightarrow> u8 set" where
  "keys_down [] K = K"
| "keys_down (Press k # es) K = keys_down es (insert k K)"
| "keys_down (Release k # es) K = keys_down es (K - {k})"

fun all_fit :: "(u8 set \<Rightarrow> u8 \<Rightarrow> bool) \<Rightarrow> key_event list \<Rightarrow> u8 set \<Rightarrow> bool" where
  "all_fit room [] K \<longleftrightarrow> True"
| "all_fit room (Press k # es) K \<longleftrightarrow> k \<noteq> 0 \<and> room (K - {k}) k \<and> all_fit room es (insert k K)"
| "all_fit room (Release k # es) K \<longleftrightarrow> k \<noteq> 0 \<and> all_fit room es (K - {k})"

locale key_report =
  fixes add del :: "u8 \<Rightarrow> 's \<Rightarrow> 's" and clear :: "'s \<Rightarrow> 's" and is_pressed :: "u8 \<Rightarrow> 's \<Rightarrow> bool"
    and ok :: "'s \<Rightarrow> bool" and held :: "'s \<Rightarrow> u8 set" and room :: "u8 set \<Rightarrow> u8 \<Rightarrow> bool"
  assumes add_law: "ok s \<Longrightarrow> k \<noteq> 0 \<Longrightarrow> k \<notin> held s \<Longrightarrow> room (held s) k \<Longrightarrow> ok (add k s) \<and> held (add k s) = insert k (held s)"
    and full_law: "ok s \<Longrightarrow> k \<noteq> 0 \<Longrightarrow> k \<notin> held s \<Longrightarrow> \<not> room (held s) k \<Longrightarrow> ok (add k s) \<and> held (add k s) \<subseteq> insert k (held s)"
    and del_law: "ok s \<Longrightarrow> k \<noteq> 0 \<Longrightarrow> ok (del k s) \<and> held (del k s) = held s - {k}"
    and clear_law: "ok s \<Longrightarrow> ok (clear s) \<and> held (clear s) = {}"
    and pressed_law: "ok s \<Longrightarrow> k \<noteq> 0 \<Longrightarrow> is_pressed k s \<longleftrightarrow> k \<in> held s"
    and room_mono: "A \<subseteq> B \<Longrightarrow> finite B \<Longrightarrow> room B k \<Longrightarrow> room A k"
begin

fun event :: "key_event \<Rightarrow> 's \<Rightarrow> 's" where
  "event (Press k) s = (if is_pressed k s then add k (del k s) else add k s)"
| "event (Release k) s = del k s"

lemma event_bounds:
  assumes ok: "ok s" and nz: "event_key e \<noteq> 0"
  shows "ok (event e s) \<and> held (event e s) \<subseteq> insert (event_key e) (held s)"
proof (cases e)
  case (Press k)
  from nz have k: "k \<noteq> 0" using Press by simp
  define t where "t = (if is_pressed k s then del k s else s)"
  have t: "ok t" "k \<notin> held t" "held t \<subseteq> held s"
    using del_law [OF ok k] pressed_law [OF ok k] ok unfolding t_def by auto
  have "ok (add k t) \<and> held (add k t) \<subseteq> insert k (held t)"
    using add_law [OF t(1) k t(2)] full_law [OF t(1) k t(2)] by blast
  moreover have "event e s = add k t" using Press unfolding t_def by simp
  ultimately show ?thesis using t(3) Press by auto
qed (use del_law ok nz in auto)

lemmas event_ok = event_bounds [THEN conjunct1] and event_held = event_bounds [THEN conjunct2]

lemma press_tracks:
  assumes ok: "ok s" and k: "k \<noteq> 0" and "room (held s - {k}) k"
  shows "ok (event (Press k) s) \<and> held (event (Press k) s) = insert k (held s)"
proof -
  let ?t = "if is_pressed k s then del k s else s"
  have t: "ok ?t" "held ?t = held s - {k}"
    using del_law [OF ok k] pressed_law [OF ok k] ok by auto
  have "ok (add k ?t) \<and> held (add k ?t) = insert k (held ?t)"
    using assms t by (intro add_law) auto
  then show ?thesis using t by (auto split: if_splits)
qed

lemma tracks_held:
  assumes "ok s" and "all_fit room es (held s)"
  shows "ok (fold event es s) \<and> held (fold event es s) = keys_down es (held s)"
  using assms
proof (induction es arbitrary: s)
  case (Cons e es)
  show ?case
  proof (cases e)
    case (Press k)
    then have "ok (event (Press k) s) \<and> held (event (Press k) s) = insert k (held s)"
      using Cons.prems by (intro press_tracks) auto
    then show ?thesis using Cons.IH [of "event e s"] Cons.prems(2) Press by simp
  next
    case (Release k)
    then show ?thesis using Cons.IH [of "event e s"] Cons.prems del_law by simp
  qed
qed simp

lemma pressed_exact:
  assumes "ok s" and "all_fit room es (held s)" and "k \<noteq> 0"
  shows "is_pressed k (fold event es s) \<longleftrightarrow> k \<in> keys_down es (held s)"
  using tracks_held [OF assms(1,2)] pressed_law assms(3) by blast

lemma nothing_invented:
  assumes "ok s" and "\<forall>e \<in> set es. event_key e \<noteq> 0"
  shows "ok (fold event es s) \<and> held (fold event es s) \<subseteq> held s \<union> event_key ` set es"
  using assms
proof (induction es arbitrary: s)
  case (Cons e es)
  have k: "event_key e \<noteq> 0" and ok: "ok (event e s)" using Cons.prems event_ok by auto
  have "held (event e s) \<subseteq> insert (event_key e) (held s)" using event_held Cons.prems(1) k by blast
  then show ?case using Cons.IH [OF ok] Cons.prems(2) by auto
qed simp

end

section \<open>The three builds\<close>

datatype mode = Array | Bitmap | Both

definition report_mode :: "build \<Rightarrow> bool \<Rightarrow> bool \<Rightarrow> mode" where
  "report_mode b p q =
     (if b = APDAPTIVE_NKRO_ENABLE \<and> p then Both
      else if b = NKRO_ENABLE \<and> p \<and> q then Bitmap else Array)"

definition report_held :: "build \<Rightarrow> bool \<Rightarrow> bool \<Rightarrow> report_state \<Rightarrow> u8 set" where
  "report_held b p q s = (case report_mode b p q of
     Array \<Rightarrow> byte_keys s | Bitmap \<Rightarrow> bit_keys s | Both \<Rightarrow> byte_keys s \<union> bit_keys s)"

definition report_room :: "build \<Rightarrow> bool \<Rightarrow> bool \<Rightarrow> u8 set \<Rightarrow> u8 \<Rightarrow> bool" where
  "report_room b p q K k = (case report_mode b p q of
     Array \<Rightarrow> card K < 6 | Bitmap \<Rightarrow> byte_of k < 30 | Both \<Rightarrow> card K < 6 \<or> byte_of k < 30)"

definition report_ok :: "build \<Rightarrow> bool \<Rightarrow> bool \<Rightarrow> report_state \<Rightarrow> bool" where
  "report_ok b p q s \<longleftrightarrow> slots_ok (keys s) \<and> length (bits s) = 30 \<and> keyboard_protocol s = p \<and> nkro s = q
     \<and> (b = APDAPTIVE_NKRO_ENABLE \<longrightarrow> kb_keys_count s = of_nat (card (byte_keys s)))
     \<and> (report_mode b p q = Both \<longrightarrow>
          nkro_bit_count s = of_nat (card (bit_keys s)) \<and> byte_keys s \<inter> bit_keys s = {})"

lemma note_change_frame [simp]:
  "keys (note_change b m s) = keys s" "bits (note_change b m s) = bits s"
  "keyboard_protocol (note_change b m s) = keyboard_protocol s" "nkro (note_change b m s) = nkro s"
  "kb_keys_count (note_change b m s) = kb_keys_count s"
  "nkro_bit_count (note_change b m s) = nkro_bit_count s"
  by (simp_all add: note_change_def)

lemma slots_ok_length: "slots_ok ks \<Longrightarrow> length ks = 6"
  by (simp add: slots_ok_def)

lemma slots_inj:
  assumes "slots_ok ks" and "i < 6" and "j < 6" and "ks ! i \<noteq> 0" and "ks ! i = ks ! j"
  shows "i = j"
  by (rule assms(1) [unfolded slots_ok_def, THEN conjunct2, rule_format, OF assms(2-5)])

lemma array_add:
  assumes ok: "slots_ok (keys s)" and k: "k \<noteq> 0" "k \<notin> byte_keys s" and room: "card (byte_keys s) < 6"
  shows "slots_ok (keys (add_key_byte b k s)) \<and> byte_keys (add_key_byte b k s) = insert k (byte_keys s)
    \<and> kb_keys_count (add_key_byte b k s)
      = (if b = APDAPTIVE_NKRO_ENABLE then kb_keys_count s + 1 else kb_keys_count s)"
proof -
  have len: "length (keys s) = 6" using ok by (rule slots_ok_length)
  have z: "0 \<in> set (keys s)" using card_byte_keys [OF ok] room by simp
  have nk: "k \<notin> set (keys s)" using k by (auto simp: byte_keys_def)
  let ?j = "free_slot (keys s)"
  note f = free_slot [OF z]
  note A = add_key_byte_cases(3) [OF len nk z, of b]
  have "slots_ok ((keys s)[?j := k])"
    using ok nk f len unfolding slots_ok_def by (auto simp: nth_list_update)
  moreover have "set ((keys s)[?j := k]) - {0} = insert k (set (keys s) - {0})"
  proof (intro equalityI subsetI)
    fix x
    assume x: "x \<in> insert k (set (keys s) - {0})"
    show "x \<in> set ((keys s)[?j := k]) - {0}"
    proof (cases "x = k")
      case True
      then show ?thesis using f k(1) by (simp add: set_update_memI)
    next
      case False
      with x obtain i where i: "i < 6" "keys s ! i = x" "x \<noteq> 0" using len by (auto simp: in_set_conv_nth)
      then have "i \<noteq> ?j" using f by metis
      then have "(keys s)[?j := k] ! i = x" using i by simp
      then show ?thesis using i len by (metis Diff_iff length_list_update nth_mem singletonD)
    qed
  next
    fix x
    assume "x \<in> set ((keys s)[?j := k]) - {0}"
    then show "x \<in> insert k (set (keys s) - {0})" using set_update_subset_insert by fastforce
  qed
  ultimately show ?thesis by (simp add: A byte_keys_def)
qed

lemma array_add_full:
  assumes ok: "slots_ok (keys s)" and "k \<notin> byte_keys s" "k \<noteq> 0" and "\<not> card (byte_keys s) < 6"
  shows "add_key_byte b k s = s"
proof -
  have "0 \<notin> set (keys s)" using card_byte_keys [OF ok] assms(4) by simp
  then show ?thesis
    using add_key_byte_cases [OF slots_ok_length [OF ok]] by metis
qed

lemma slot_card:
  assumes ok: "slots_ok (keys s)" and k: "k \<noteq> 0"
  shows "card {i. i < 6 \<and> keys s ! i = k} = (if k \<in> byte_keys s then 1 else 0)"
proof (cases "k \<in> byte_keys s")
  case True
  then have "k \<in> set (keys s)" by (simp add: byte_keys_def)
  then obtain i where i: "i < 6" "keys s ! i = k"
    using slots_ok_length [OF ok] unfolding in_set_conv_nth by metis
  have "j = i" if "j < 6" "keys s ! j = k" for j
  proof (rule slots_inj [OF ok that(1) i(1)])
    show "keys s ! j \<noteq> 0" unfolding that(2) by (rule k)
    show "keys s ! j = keys s ! i" unfolding that(2) i(2) ..
  qed
  with i have "{i. i < 6 \<and> keys s ! i = k} = {i}" by blast
  then show ?thesis using True by simp
next
  case False
  then have "{i. i < 6 \<and> keys s ! i = k} = {}"
    using k slots_ok_length [OF ok] by (auto simp: byte_keys_def)
  then show ?thesis using False by simp
qed

lemma array_del:
  assumes ok: "slots_ok (keys s)" and k: "k \<noteq> 0"
  shows "slots_ok (keys (del_key_byte b k s)) \<and> byte_keys (del_key_byte b k s) = byte_keys s - {k}
    \<and> kb_keys_count (del_key_byte b k s) = (if b = APDAPTIVE_NKRO_ENABLE \<and> k \<in> byte_keys s
        then kb_keys_count s - 1 else kb_keys_count s)"
proof -
  note len = slots_ok_length [OF ok]
  note D = del_key_byte_eq [OF len, of b k, unfolded slot_card [OF ok k]]
  have "slots_ok (map (\<lambda>x. if x = k then 0 else x) (keys s))"
    using ok len unfolding slots_ok_def by auto
  moreover have "set (map (\<lambda>x. if x = k then 0 else x) (keys s)) - {0} = set (keys s) - {0} - {k}"
    by auto
  ultimately show ?thesis by (simp add: D byte_keys_def)
qed

lemma byte_frame [simp]:
  "bits (add_key_byte b k s) = bits s" "nkro_bit_count (add_key_byte b k s) = nkro_bit_count s"
  "keyboard_protocol (add_key_byte b k s) = keyboard_protocol s" "nkro (add_key_byte b k s) = nkro s"
  by (simp_all add: add_key_byte_def Let_def split: prod.splits option.splits)

lemma byte_frame_del [simp]:
  assumes "length (keys s) = 6"
  shows "bits (del_key_byte b k s) = bits s" "nkro_bit_count (del_key_byte b k s) = nkro_bit_count s"
  "keyboard_protocol (del_key_byte b k s) = keyboard_protocol s" "nkro (del_key_byte b k s) = nkro s"
  by (simp_all add: del_key_byte_eq [OF assms])

lemma bitmap_add:
  assumes "length (bits s) = 30" and "byte_of k < 30"
  shows "bit_keys (add_key_bit b k s) = insert k (bit_keys s) \<and> length (bits (add_key_bit b k s)) = 30
    \<and> nkro_bit_count (add_key_bit b k s)
      = (if b = APDAPTIVE_NKRO_ENABLE then nkro_bit_count s + 1 else nkro_bit_count s)"
  using assms in_bits_or [OF assms]
  by (auto simp: add_key_bit_def Let_def NKRO_REPORT_BITS_def bit_keys_def)

lemma bitmap_full: "\<not> byte_of k < 30 \<Longrightarrow> add_key_bit b k s = s"
  by (simp add: add_key_bit_def NKRO_REPORT_BITS_def)

lemma bitmap_del:
  assumes "length (bits s) = 30"
  shows "bit_keys (snd (del_key_bit b k s)) = bit_keys s - {k} \<and> length (bits (snd (del_key_bit b k s))) = 30
    \<and> nkro_bit_count (snd (del_key_bit b k s))
      = (if b = APDAPTIVE_NKRO_ENABLE \<and> k \<in> bit_keys s then nkro_bit_count s - 1 else nkro_bit_count s)
    \<and> (b = APDAPTIVE_NKRO_ENABLE \<longrightarrow> (fst (del_key_bit b k s) \<longleftrightarrow> k \<in> bit_keys s)
        \<and> (k \<notin> bit_keys s \<longrightarrow> snd (del_key_bit b k s) = s))"
proof (cases "byte_of k < 30")
  case True
  have "k \<in> bit_keys s \<longleftrightarrow> bits s ! byte_of k AND mask_of k \<noteq> 0"
    using True by (simp add: bit_keys_def in_bits_def mask_test)
  moreover have "{x. in_bits ((bits s)[byte_of k := bits s ! byte_of k AND NOT (mask_of k)]) x} = bit_keys s - {k}"
    using in_bits_and_not [OF assms True] by (auto simp: bit_keys_def)
  ultimately show ?thesis
    using True assms by (auto simp: del_key_bit_def Let_def NKRO_REPORT_BITS_def bit_keys_def)
next
  case False
  then have "k \<notin> bit_keys s" by (simp add: bit_keys_def in_bits_def)
  then show ?thesis using False assms by (simp add: del_key_bit_def NKRO_REPORT_BITS_def)
qed

lemma bit_frame [simp]:
  "keys (add_key_bit b k s) = keys s" "kb_keys_count (add_key_bit b k s) = kb_keys_count s"
  "keyboard_protocol (add_key_bit b k s) = keyboard_protocol s" "nkro (add_key_bit b k s) = nkro s"
  "keys (snd (del_key_bit b k s)) = keys s" "kb_keys_count (snd (del_key_bit b k s)) = kb_keys_count s"
  "keyboard_protocol (snd (del_key_bit b k s)) = keyboard_protocol s" "nkro (snd (del_key_bit b k s)) = nkro s"
  by (simp_all add: add_key_bit_def del_key_bit_def Let_def)

lemma keys_frame [simp]:
  "bit_keys (add_key_byte b k s) = bit_keys s" "byte_keys (add_key_bit b k s) = byte_keys s"
  "byte_keys (snd (del_key_bit b k s)) = byte_keys s"
  by (simp_all add: bit_keys_def byte_keys_def)

lemma clear_frame:
  "keys (clear_keys_from_report b s) = (if b = NKRO_ENABLE \<and> keyboard_protocol s \<and> nkro s
     then keys s else replicate 6 0)"
  "bits (clear_keys_from_report b s) = (if b = APDAPTIVE_NKRO_ENABLE \<or> b = NKRO_ENABLE \<and> keyboard_protocol s \<and> nkro s
     then replicate 30 0 else bits s)"
  "keyboard_protocol (clear_keys_from_report b s) = keyboard_protocol s"
  "nkro (clear_keys_from_report b s) = nkro s"
  "b = APDAPTIVE_NKRO_ENABLE \<Longrightarrow> kb_keys_count (clear_keys_from_report b s) = 0
     \<and> nkro_bit_count (clear_keys_from_report b s) = 0"
  by (auto simp: clear_keys_from_report_def Let_def KEYBOARD_REPORT_KEYS_def NKRO_REPORT_BITS_def)

lemma small_word_eq_0: "n < 256 \<Longrightarrow> (of_nat n :: u8) = 0 \<longleftrightarrow> n = 0"
  by (auto simp: word_of_nat_eq_0_iff dest: nat_dvd_not_less)

lemma of_nat_card_remove: "finite A \<Longrightarrow> x \<in> A \<Longrightarrow> of_nat (card A) - 1 = (of_nat (card (A - {x})) :: u8)"
  using card.remove [of A x] by simp

lemma empty_report:
  "byte_keys s = {}" if "keys s = replicate 6 0"
  using that by (simp add: byte_keys_def)

lemma empty_bitmap: "bit_keys s = {}" if "bits s = replicate 30 0"
  using that by (auto simp: bit_keys_def in_bits_def)

lemma slots_ok_empty: "slots_ok (replicate 6 0)"
  by (simp add: slots_ok_def)

lemma report_ok_init: "report_ok b p q (report_init p q)"
  and report_held_init: "report_held b p q (report_init p q) = {}"
  by (simp_all add: report_ok_def report_held_def report_init_def KEYBOARD_REPORT_KEYS_def
      NKRO_REPORT_BITS_def slots_ok_empty empty_report empty_bitmap split: mode.split)

lemma report_mode_cases:
  obtains (Array) "report_mode b p q = Array" "b \<noteq> APDAPTIVE_NKRO_ENABLE \<or> \<not> p" "\<not> (b = NKRO_ENABLE \<and> p \<and> q)"
  | (Bitmap) "report_mode b p q = Bitmap" "b = NKRO_ENABLE" p q
  | (Both) "report_mode b p q = Both" "b = APDAPTIVE_NKRO_ENABLE" p
  by (cases "b = APDAPTIVE_NKRO_ENABLE \<and> p"; cases "b = NKRO_ENABLE \<and> p \<and> q") (simp_all add: report_mode_def)

lemma report_add:
  assumes ok: "report_ok b p q s" and k: "k \<noteq> 0" "k \<notin> report_held b p q s"
  shows "report_ok b p q (add_key_to_report b k s)
    \<and> report_held b p q (add_key_to_report b k s) \<subseteq> insert k (report_held b p q s)
    \<and> (report_room b p q (report_held b p q s) k \<longrightarrow>
        report_held b p q (add_key_to_report b k s) = insert k (report_held b p q s))"
proof -
  note O = ok [unfolded report_ok_def]
  have sl: "slots_ok (keys s)" and lb: "length (bits s) = 30" and p: "keyboard_protocol s = p" "nkro s = q"
    using O by auto
  have byte: "k \<notin> byte_keys s \<Longrightarrow> slots_ok (keys (add_key_byte b k s))
      \<and> byte_keys (add_key_byte b k s) = (if card (byte_keys s) < 6 then insert k (byte_keys s) else byte_keys s)
      \<and> kb_keys_count (add_key_byte b k s) = (if b = APDAPTIVE_NKRO_ENABLE \<and> card (byte_keys s) < 6
          then kb_keys_count s + 1 else kb_keys_count s)"
    using array_add [OF sl k(1)] array_add_full [OF sl _ k(1)] sl by (cases "card (byte_keys s) < 6") auto
  show ?thesis
  proof (cases rule: report_mode_cases [of b p q])
    case Array
    then have eq: "add_key_to_report b k s = add_key_byte b k s"
      by (auto simp: add_key_to_report_def p)
    have "k \<notin> byte_keys s" using k Array by (simp add: report_held_def)
    then show ?thesis
      unfolding eq using byte O Array by (auto simp: report_ok_def report_held_def report_room_def)
  next
    case Bitmap
    then have eq: "add_key_to_report b k s = add_key_bit b k s"
      by (simp add: add_key_to_report_def p)
    have held: "report_held b p q t = bit_keys t" for t using Bitmap by (simp add: report_held_def)
    have same: "report_ok b p q (add_key_bit b k s)" if "length (bits (add_key_bit b k s)) = 30"
      using O that Bitmap by (simp add: report_ok_def)
    show ?thesis
    proof (cases "byte_of k < 30")
      case True
      then show ?thesis using bitmap_add [OF lb True, of b] same by (simp add: eq held)
    next
      case False
      then have "add_key_bit b k s = s" by (rule bitmap_full)
      moreover have "\<not> report_room b p q (report_held b p q s) k" using False Bitmap by (simp add: report_room_def)
      ultimately show ?thesis using ok unfolding eq by (simp add: subset_insertI)
    qed
  next
    case Both
    have nk: "k \<notin> byte_keys s" "k \<notin> bit_keys s" using k Both by (auto simp: report_held_def)
    have cnt: "kb_keys_count s = of_nat (card (byte_keys s))" "nkro_bit_count s = of_nat (card (bit_keys s))"
      "byte_keys s \<inter> bit_keys s = {}" using O Both by auto
    have le: "card (byte_keys s) \<le> 6" by (rule card_byte_keys(1) [OF sl])
    have full: "kb_keys_count s = of_nat KEYBOARD_REPORT_KEYS \<longleftrightarrow> \<not> card (byte_keys s) < 6"
      unfolding cnt(1) KEYBOARD_REPORT_KEYS_def using le
      by (simp add: word_unat_eq_iff unat_of_nat)
    show ?thesis
    proof (cases "card (byte_keys s) < 6")
      case True
      then have eq: "add_key_to_report b k s = add_key_byte b k s"
        using full Both by (simp add: add_key_to_report_def)
      show ?thesis
        unfolding eq using byte [OF nk(1)] True O Both nk cnt
        by (simp add: report_ok_def report_held_def)
    next
      case False
      then have eq: "add_key_to_report b k s = add_key_bit b k s"
        using full Both by (simp add: add_key_to_report_def p)
      have room: "byte_of k < 30" if "report_room b p q (report_held b p q s) k"
        using that False Both card_mono [of "byte_keys s \<union> bit_keys s" "byte_keys s"]
        by (auto simp: report_room_def report_held_def)
      show ?thesis
      proof (cases "byte_of k < 30")
        case True
        then show ?thesis
          unfolding eq using bitmap_add [OF lb True, of b] O Both nk cnt
          by (simp add: report_ok_def report_held_def)
      next
        case False
        then show ?thesis unfolding eq using room ok bitmap_full [OF False] by auto
      qed
    qed
  qed
qed

lemma report_del:
  assumes ok: "report_ok b p q s" and k: "k \<noteq> 0"
  shows "report_ok b p q (del_key_from_report b k s)
    \<and> report_held b p q (del_key_from_report b k s) = report_held b p q s - {k}"
proof -
  note O = ok [unfolded report_ok_def]
  have sl: "slots_ok (keys s)" and lb: "length (bits s) = 30" and p: "keyboard_protocol s = p" "nkro s = q"
    using O by auto
  note len = slots_ok_length [OF sl]
  note A = array_del [OF sl k, of b]
  have cd: "kb_keys_count (del_key_byte b k s) = of_nat (card (byte_keys (del_key_byte b k s)))"
    if "b = APDAPTIVE_NKRO_ENABLE"
    using A O that of_nat_card_remove [OF finite_byte_keys, of k s] by (cases "k \<in> byte_keys s") simp_all
  have byte: "report_ok b p q (del_key_byte b k s)" if "report_mode b p q = Both \<Longrightarrow> k \<notin> bit_keys s"
    using A O that cd byte_frame_del [OF len]
    by (auto simp: report_ok_def bit_keys_def)
  show ?thesis
  proof (cases rule: report_mode_cases [of b p q])
    case Array
    then have "del_key_from_report b k s = del_key_byte b k s"
      by (auto simp: del_key_from_report_def p)
    then show ?thesis using byte A Array by (simp add: report_held_def)
  next
    case Bitmap
    then have eq: "del_key_from_report b k s = snd (del_key_bit b k s)"
      by (simp add: del_key_from_report_def p)
    show ?thesis
      unfolding eq using bitmap_del [OF lb, of b k] O Bitmap by (simp add: report_ok_def report_held_def)
  next
    case Both
    have cnt: "nkro_bit_count s = of_nat (card (bit_keys s))" "byte_keys s \<inter> bit_keys s = {}"
      using O Both by auto
    have z: "nkro_bit_count s = 0 \<longleftrightarrow> bit_keys s = {}"
      unfolding cnt(1) small_word_eq_0 [OF card_bit_keys] by simp
    show ?thesis
    proof (cases "k \<in> bit_keys s")
      case True
      then have eq: "del_key_from_report b k s = snd (del_key_bit b k s)"
        using bitmap_del [OF lb, of b k] z Both unfolding del_key_from_report_def p split_beta by auto
      have n: "of_nat (card (bit_keys s)) - 1 = (of_nat (card (bit_keys s - {k})) :: u8)"
        using True by (intro of_nat_card_remove) simp_all
      let ?t = "snd (del_key_bit b k s)"
      have t: "byte_keys ?t = byte_keys s" "bit_keys ?t = bit_keys s - {k}" "length (bits ?t) = 30"
        "nkro_bit_count ?t = of_nat (card (bit_keys ?t))"
        using bitmap_del [OF lb, of b k] True Both n cnt(1) by simp_all
      have "k \<notin> byte_keys s" using cnt(2) True by blast
      then have "report_held b p q ?t = report_held b p q s - {k}"
        using Both t by (auto simp: report_held_def)
      moreover have "report_ok b p q ?t"
        using O t cnt(2) unfolding report_ok_def by auto
      ultimately show ?thesis unfolding eq by blast
    next
      case False
      then have eq: "del_key_from_report b k s = del_key_byte b k s"
        using bitmap_del [OF lb, of b k] Both unfolding del_key_from_report_def p split_beta by auto
      have "bit_keys (del_key_byte b k s) = bit_keys s" by (simp add: bit_keys_def byte_frame_del [OF len])
      then show ?thesis
        unfolding eq using byte A Both False by (auto simp: report_held_def)
    qed
  qed
qed

lemma report_clear:
  assumes ok: "report_ok b p q s"
  shows "report_ok b p q (clear_keys_from_report b s) \<and> report_held b p q (clear_keys_from_report b s) = {}"
proof -
  let ?s = "clear_keys_from_report b s"
  note C = clear_frame [of b s] empty_report [of ?s] empty_bitmap [of ?s]
  show ?thesis
    using ok C by (cases rule: report_mode_cases [of b p q])
      (auto simp: report_ok_def report_held_def slots_ok_empty byte_keys_def)
qed

lemma report_pressed:
  assumes ok: "report_ok b p q s" and k: "k \<noteq> 0"
  shows "is_key_pressed b k s \<longleftrightarrow> k \<in> report_held b p q s"
proof -
  have z: "nkro_bit_count s = 0 \<longleftrightarrow> bit_keys s = {}" if "report_mode b p q = Both"
    using ok that small_word_eq_0 [OF card_bit_keys] by (simp add: report_ok_def)
  show ?thesis
    using ok k z
    by (cases rule: report_mode_cases [of b p q])
      (auto simp: is_key_pressed_def KC_NO_def report_ok_def report_held_def byte_keys_def bit_keys_def
        in_bits_def NKRO_REPORT_BITS_def mask_test)
qed

interpretation report: key_report "add_key_to_report b" "del_key_from_report b" "clear_keys_from_report b"
  "is_key_pressed b" "report_ok b p q" "report_held b p q" "report_room b p q"
proof
  show "report_room b p q A k" if "A \<subseteq> B" "finite B" "report_room b p q B k" for A B k
    using that card_mono [OF that(2,1)] by (auto simp: report_room_def split: mode.splits)
next
  fix s and k :: u8
  assume ok: "report_ok b p q s" and k: "k \<noteq> 0"
  show "report_ok b p q (del_key_from_report b k s)
      \<and> report_held b p q (del_key_from_report b k s) = report_held b p q s - {k}"
    by (rule report_del [OF ok k])
  show "is_key_pressed b k s \<longleftrightarrow> k \<in> report_held b p q s"
    by (rule report_pressed [OF ok k])
  assume new: "k \<notin> report_held b p q s"
  note A = report_add [OF ok k new]
  show "report_ok b p q (add_key_to_report b k s)
      \<and> report_held b p q (add_key_to_report b k s) = insert k (report_held b p q s)"
    if "report_room b p q (report_held b p q s) k"
    using A that by blast
  show "report_ok b p q (add_key_to_report b k s)
      \<and> report_held b p q (add_key_to_report b k s) \<subseteq> insert k (report_held b p q s)"
    using A by blast
qed (rule report_clear)

end
