(* ===== verification/ReportProps.thy ===== *)
theory ReportProps
  imports Report
begin

text \<open>
  What the keyboard report promises its client: it is exact while the keys fit, never holds a key
  that was not pressed, and \<open>has_anykey\<close> and \<open>get_first_key\<close> describe it. The client is
  \<open>register_code\<close>, through the interface \<open>key_report\<close>.
\<close>

section \<open>Properties\<close>

text \<open>How \<open>register_code\<close> and \<open>unregister_code\<close> use the report: a key that is already in it is
  released first.\<close>

fun report_event :: "build \<Rightarrow> key_event \<Rightarrow> report_state \<Rightarrow> report_state" where
  "report_event b (Press k) s =
     (if is_key_pressed b k s then add_key_to_report b k (del_key_from_report b k s) else add_key_to_report b k s)"
| "report_event b (Release k) s = del_key_from_report b k s"

lemma report_event_eq:
  "report_event b = key_report.event (add_key_to_report b) (del_key_from_report b) (is_key_pressed b)"
proof (intro ext)
  show "report_event b e s
      = key_report.event (add_key_to_report b) (del_key_from_report b) (is_key_pressed b) e s" for e s
    by (cases e) (simp_all add: report.event.simps)
qed

text \<open>
  C33: The report is exact: in each of the three builds and in boot and report protocol, after any
  sequence of presses and releases of keys that fit the report (six keys, the 240 keys of the
  bitmap, or either of them in the adaptive build) a key is in the report iff it is held.
\<close>

theorem report_tracks_keys:
  assumes "all_fit (report_room b p q) es {}" and "k \<noteq> 0"
  shows "is_key_pressed b k (fold (report_event b) es (report_init p q)) \<longleftrightarrow> k \<in> keys_down es {}"
  using report.pressed_exact [OF report_ok_init _ assms(2), of b p q es] assms(1)
  by (simp add: report_held_init report_event_eq)

theorem report_tracks_keys_witness:
  "is_key_pressed APDAPTIVE_NKRO_ENABLE 10 (fold (report_event APDAPTIVE_NKRO_ENABLE)
      [Press 4, Press 5, Press 6, Press 7, Press 8, Press 9, Press 10, Release 4] (report_init True True))
    \<longleftrightarrow> (10 :: u8) \<in> keys_down [Press 4, Press 5, Press 6, Press 7, Press 8, Press 9, Press 10, Release 4] {}"
  by (rule report_tracks_keys) (simp_all add: report_room_def report_mode_def byte_of_eq)

text \<open>
  No ghost keys: whatever keys are pressed, also more than fit, the report holds only keys that
  were pressed, the slots of the array stay free of duplicates and the counters of the adaptive
  build stay exact.
\<close>

theorem report_no_ghosts:
  assumes "\<forall>e \<in> set es. event_key e \<noteq> 0"
  shows "report_ok b p q (fold (report_event b) es (report_init p q))
    \<and> report_held b p q (fold (report_event b) es (report_init p q)) \<subseteq> event_key ` set es"
  using report.nothing_invented [OF report_ok_init, of es b p q] assms
  by (simp add: report_held_init report_event_eq)

theorem report_no_ghosts_witness:
  "report_ok SIX_KRO True True (fold (report_event SIX_KRO)
    [Press 4, Press 5, Press 6, Press 7, Press 8, Press 9, Press 10] (report_init True True))"
  using report_no_ghosts [of "[Press 4, Press 5, Press 6, Press 7, Press 8, Press 9, Press 10]" SIX_KRO True True]
  by simp

lemma count_bytes_eq: "unat (count_bytes p) = length (filter (\<lambda>b. b \<noteq> 0) p)" if "length p < 256"
proof -
  have "fold (\<lambda>b cnt. if b \<noteq> 0 then cnt + 1 else cnt) p (of_nat n :: u8)
      = of_nat (n + length (filter (\<lambda>b. b \<noteq> 0) p))" for n
  proof (induction p arbitrary: n)
    case (Cons x p)
    then show ?case using Cons.IH [of "Suc n"] by (simp add: add.commute)
  qed simp
  from this [of 0] have "count_bytes p = of_nat (length (filter (\<lambda>b. b \<noteq> 0) p))"
    by (simp add: count_bytes_def)
  then show ?thesis
    using that le_less_trans [OF length_filter_le [of "\<lambda>b. b \<noteq> 0" p]] by (simp add: unat_of_nat)
qed

lemma count_bytes_0: "length p < 256 \<Longrightarrow> count_bytes p = 0 \<longleftrightarrow> (\<forall>b \<in> set p. b = 0)"
  using count_bytes_eq [of p] by (simp add: word_unat_eq_iff filter_empty_conv)

lemma bit_keys_empty:
  assumes "length (bits s) = 30"
  shows "bit_keys s = {} \<longleftrightarrow> (\<forall>b \<in> set (bits s). b = 0)"
proof
  assume none: "bit_keys s = {}"
  show "\<forall>b \<in> set (bits s). b = 0"
  proof
    fix x
    assume "x \<in> set (bits s)"
    then obtain i where i: "i < 30" "bits s ! i = x" using assms by (metis in_set_conv_nth)
    show "x = 0"
    proof (rule ccontr)
      assume "x \<noteq> 0"
      then obtain j where j: "bit x j" by (auto simp: word_neq_0_bit)
      then have "j < 8" by (rule bit_u8_iff_less)
      define k :: u8 where "k = of_nat (8 * i + j)"
      have "8 * i + j < 256" using i(1) \<open>j < 8\<close> by simp
      then have "unat k = 8 * i + j" unfolding k_def by (simp only: unat_of_nat) simp
      then have "byte_of k = i" "unat (k AND 7) = j"
        using \<open>j < 8\<close> unfolding byte_of_eq bit_index by simp_all
      then have "k \<in> bit_keys s" using i j by (simp add: bit_keys_def in_bits_def)
      then show False using none by simp
    qed
  qed
next
  assume "\<forall>b \<in> set (bits s). b = 0"
  then have "in_bits (bits s) k \<Longrightarrow> False" for k
    using assms nth_mem [of "byte_of k" "bits s"] by (fastforce simp: in_bits_def)
  then show "bit_keys s = {}" by (auto simp: bit_keys_def)
qed

lemma byte_keys_empty: "byte_keys s = {} \<longleftrightarrow> (\<forall>b \<in> set (keys s). b = 0)"
  by (auto simp: byte_keys_def)

lemma has_anykey_iff:
  assumes ok: "report_ok b p q s"
  shows "has_anykey b s \<noteq> 0 \<longleftrightarrow>
    (if b = APDAPTIVE_NKRO_ENABLE \<and> \<not> p then kb_keys_count s + nkro_bit_count s \<noteq> 0 else report_held b p q s \<noteq> {})"
proof -
  note O = ok [unfolded report_ok_def]
  have sl: "slots_ok (keys s)" and lb: "length (bits s) = 30" and p: "keyboard_protocol s = p" "nkro s = q"
    using O by auto
  have lk: "length (keys s) < 256" "length (bits s) < 256" using slots_ok_length [OF sl] lb by simp_all
  show ?thesis
  proof (cases rule: report_mode_cases [of b p q])
    case Array
    then have "has_anykey b s = (if b = APDAPTIVE_NKRO_ENABLE then kb_keys_count s + nkro_bit_count s
        else count_bytes (keys s))"
      by (auto simp: has_anykey_def p)
    then show ?thesis
      using Array count_bytes_0 [OF lk(1)] byte_keys_empty [of s] by (simp add: report_held_def)
  next
    case Bitmap
    then have "has_anykey b s = count_bytes (bits s)" by (simp add: has_anykey_def p)
    then show ?thesis
      using Bitmap count_bytes_0 [OF lk(2)] bit_keys_empty [OF lb] by (simp add: report_held_def)
  next
    case Both
    have le: "card (byte_keys s) \<le> 6" by (rule card_byte_keys(1) [OF sl])
    have lb: "card (bit_keys s) \<le> 240" by (rule card_bit_keys_le)
    have "has_anykey b s = of_nat (card (byte_keys s) + card (bit_keys s))"
      using Both O by (simp add: has_anykey_def)
    then have "has_anykey b s \<noteq> 0 \<longleftrightarrow> card (byte_keys s) + card (bit_keys s) \<noteq> 0"
      using le lb small_word_eq_0 [of "card (byte_keys s) + card (bit_keys s)"] by simp
    then show ?thesis using Both by (simp add: report_held_def)
  qed
qed

text \<open>has_anykey is non-zero exactly when the report holds a key, in each build (in the adaptive
  build while the protocol is not the boot protocol, in which its second counter is not maintained).
\<close>

theorem has_anykey_exact:
  assumes "report_ok b p q s" and "b = APDAPTIVE_NKRO_ENABLE \<longrightarrow> p"
  shows "has_anykey b s \<noteq> 0 \<longleftrightarrow> report_held b p q s \<noteq> {}"
  using has_anykey_iff [OF assms(1)] assms(2) by auto

theorem has_anykey_exact_witness:
  "has_anykey NKRO_ENABLE (report_init True True) = 0"
  using has_anykey_exact [OF report_ok_init, of NKRO_ENABLE True True] by (simp add: report_held_init)

text \<open>
  Adding a key twice, which the guard of \<open>register_code\<close> prevents but \<open>add_key\<close> does not, leaks
  in the adaptive build: once the array is full the counter of the bitmap is increased although the
  bit is set already, and after the key is deleted the report is what it was before while the
  counter, and with it \<open>has_anykey\<close>, stays one too high for good.
\<close>

theorem adaptive_counter_leaks:
  assumes "report_ok APDAPTIVE_NKRO_ENABLE True q s" and "card (byte_keys s) = 6"
    and "k \<noteq> 0" and "k \<notin> report_held APDAPTIVE_NKRO_ENABLE True q s" and "byte_of k < 30"
  shows "let b = APDAPTIVE_NKRO_ENABLE;
             t = del_key_from_report b k (add_key_to_report b k (add_key_to_report b k s))
         in report_held b True q t = report_held b True q s \<and> has_anykey b t = has_anykey b s + 1"
proof -
  let ?b = "APDAPTIVE_NKRO_ENABLE"
  note O = assms(1) [unfolded report_ok_def]
  have lb: "length (bits s) = 30" and p: "keyboard_protocol s"
    and full: "kb_keys_count s = of_nat KEYBOARD_REPORT_KEYS"
    using O assms(2) by (simp_all add: KEYBOARD_REPORT_KEYS_def)
  have mode: "report_mode ?b True q = Both" by (simp add: report_mode_def)
  have cnt: "nkro_bit_count s = of_nat (card (bit_keys s))" using O mode by simp
  have nk: "k \<notin> bit_keys s" using assms(4) mode by (simp add: report_held_def)
  define t1 where "t1 = add_key_bit ?b k s"
  define t2 where "t2 = add_key_bit ?b k t1"
  define t3 where "t3 = snd (del_key_bit ?b k t2)"
  have t1: "bit_keys t1 = insert k (bit_keys s)" "length (bits t1) = 30" "nkro_bit_count t1 = nkro_bit_count s + 1"
    using bitmap_add [OF lb assms(5), of ?b] by (simp_all add: t1_def)
  have t2: "bit_keys t2 = insert k (bit_keys s)" "length (bits t2) = 30" "nkro_bit_count t2 = nkro_bit_count s + 2"
    using bitmap_add [OF t1(2) assms(5), of ?b] t1 by (simp_all add: t2_def)
  have t3: "bit_keys t3 = bit_keys s" "nkro_bit_count t3 = nkro_bit_count s + 1" "fst (del_key_bit ?b k t2)"
    using bitmap_del [OF t2(2), of ?b k] t2 nk by (simp_all add: t3_def)
  have "card (bit_keys s) + 2 < 256" using card_bit_keys_le [of s] by simp
  moreover have "nkro_bit_count t2 = of_nat (card (bit_keys s) + 2)" by (simp add: t2 cnt)
  ultimately have nz: "nkro_bit_count t2 \<noteq> 0" by (simp only: small_word_eq_0)
  have a1: "add_key_to_report ?b k s = t1" using p full by (simp add: add_key_to_report_def t1_def)
  have a2: "add_key_to_report ?b k t1 = t2" using p full by (simp add: add_key_to_report_def t2_def t1_def)
  have "keyboard_protocol t2" using p by (simp add: t1_def t2_def)
  then have a3: "del_key_from_report ?b k t2 = t3"
    using nz t3(3) by (simp add: del_key_from_report_def t3_def split_beta)
  have "report_held ?b True q t3 = report_held ?b True q s"
    using mode t3(1) by (simp add: report_held_def t3_def t2_def t1_def)
  moreover have "has_anykey ?b t3 = has_anykey ?b s + 1"
    using t3(2) by (simp add: has_anykey_def t3_def t2_def t1_def)
  ultimately show ?thesis by (simp add: a1 a2 a3 Let_def)
qed

definition report_demo :: report_state where
  "report_demo = (report_init True True)\<lparr>keys := [4, 5, 6, 7, 8, 9], kb_keys_count := 6\<rparr>"

lemma report_demo_keys: "byte_keys report_demo = {4, 5, 6, 7, 8, 9}"
  by (auto simp: byte_keys_def report_demo_def)

lemma report_demo_bits: "bit_keys report_demo = {}"
  by (rule empty_bitmap) (simp add: report_demo_def report_init_def NKRO_REPORT_BITS_def)

lemma report_demo_full: "card (byte_keys report_demo) = 6"
  by (simp add: report_demo_keys)

lemma report_demo_held: "report_held APDAPTIVE_NKRO_ENABLE True True report_demo = {4, 5, 6, 7, 8, 9}"
  by (simp add: report_held_def report_mode_def report_demo_keys report_demo_bits)

lemma report_demo_slots: "slots_ok [4, 5, 6, 7, 8, 9 :: u8]"
  by code_simp

lemma report_demo_ok: "report_ok APDAPTIVE_NKRO_ENABLE True True report_demo"
  unfolding report_ok_def report_demo_full report_demo_bits
  using report_demo_slots by (simp add: report_demo_def report_init_def NKRO_REPORT_BITS_def)

theorem adaptive_counter_leaks_witness:
  "let b = APDAPTIVE_NKRO_ENABLE;
       s = report_demo;
       t = del_key_from_report b 10 (add_key_to_report b 10 (add_key_to_report b 10 s))
   in report_held b True True t = report_held b True True s \<and> has_anykey b t = has_anykey b s + 1"
  using adaptive_counter_leaks [OF report_demo_ok report_demo_full, of 10] by (simp add: report_demo_held byte_of_eq)

text \<open>
  get_first_key in the NKRO mode returns a held key, the highest one among those of the lowest
  non-empty byte; when no key is held it reads behind the end of the bitmap.
\<close>

lemma first_byte_spec:
  "first_byte xs i = i + length (takeWhile (\<lambda>x. x = 0) xs)"
  by (induction xs arbitrary: i) auto

lemma first_key_number: "i < 30 \<Longrightarrow> m < 8 \<Longrightarrow> of_nat (i * 8) OR of_nat m = (of_nat (i * 8 + m) :: u8)"
proof -
  have "list_all (\<lambda>i. list_all (\<lambda>m. of_nat (i * 8) OR of_nat m = (of_nat (i * 8 + m) :: u8)) [0..<8]) [0..<30]"
    by code_simp
  moreover assume "i < 30" "m < 8"
  ultimately show ?thesis by (auto simp: list_all_iff)
qed

lemma get_first_key_some:
  assumes len: "length (bits s) = 30" and i: "i = first_byte (bits s) 0" "i < 30"
    and k: "k = of_nat (i * 8) OR biton (bits s ! i)"
  shows "k \<in> bit_keys s" and "k' \<in> bit_keys s \<Longrightarrow> byte_of k < byte_of k' \<or> byte_of k = byte_of k' \<and> k' \<le> k"
proof -
  have tw: "length (takeWhile (\<lambda>x. x = 0) (bits s)) = i" using i(1) by (simp add: first_byte_spec)
  have nz: "bits s ! i \<noteq> 0" using nth_length_takeWhile [of "\<lambda>x. x = 0" "bits s"] tw i(2) len by simp
  have z: "bits s ! j = 0" if "j < i" for j
    using that tw nth_mem [of j "takeWhile (\<lambda>x. x = 0) (bits s)"] takeWhile_nth [of j "\<lambda>x. x = 0" "bits s"]
    by (auto dest: set_takeWhileD)
  define m where "m = unat (biton (bits s ! i))"
  have m: "m = Max (bits_of (bits s ! i))" using biton_max [OF nz] by (simp add: m_def)
  have ne: "bits_of (bits s ! i) \<noteq> {}" using nz by (auto simp: bits_of_def word_neq_0_bit)
  then have bm: "bit (bits s ! i) m" using Max_in [OF finite_bits_of ne] m by (simp add: bits_of_def)
  then have m8: "m < 8" by (rule bit_u8_iff_less)
  have "biton (bits s ! i) = of_nat m" by (simp add: m_def)
  then have "k = of_nat (i * 8 + m)" using k first_key_number [OF i(2) m8] by simp
  then have un: "unat k = i * 8 + m" using i(2) m8 by (simp only: unat_of_nat) simp
  have pos: "byte_of k = i" "unat (k AND 7) = m" using un m8 unfolding byte_of_eq bit_index by simp_all
  show "k \<in> bit_keys s" using bm pos i(2) by (simp add: bit_keys_def in_bits_def)
  show "byte_of k < byte_of k' \<or> byte_of k = byte_of k' \<and> k' \<le> k" if "k' \<in> bit_keys s"
  proof -
    have b: "byte_of k' < 30" "bit (bits s ! byte_of k') (unat (k' AND 7))"
      using that by (simp_all add: bit_keys_def in_bits_def)
    then have "\<not> byte_of k' < i" using z by auto
    moreover have "k' \<le> k" if e: "byte_of k' = i"
    proof -
      have "unat (k' AND 7) \<in> bits_of (bits s ! i)" using b(2) e by (simp add: bits_of_def)
      then have "unat (k' AND 7) \<le> m" unfolding m by (rule Max_ge [OF finite_bits_of])
      moreover have "unat k' = i * 8 + unat (k' AND 7)"
        using e unfolding byte_of_eq bit_index by (metis div_mult_mod_eq)
      ultimately show ?thesis using un by (simp add: word_le_nat_alt)
    qed
    ultimately show ?thesis using pos(1) by linarith
  qed
qed

lemma first_byte_all: "i + length xs \<le> first_byte xs i \<Longrightarrow> \<forall>x \<in> set xs. x = 0"
proof (induction xs arbitrary: i)
  case (Cons x xs)
  then show ?case using Cons.IH [of "Suc i"] by (simp split: if_splits)
qed simp

theorem get_first_key_nkro:
  assumes "report_ok NKRO_ENABLE True True s"
  shows "case get_first_key NKRO_ENABLE s of
           None \<Rightarrow> report_held NKRO_ENABLE True True s = {}
         | Some k \<Rightarrow> k \<in> report_held NKRO_ENABLE True True s
             \<and> (\<forall>k' \<in> report_held NKRO_ENABLE True True s. byte_of k < byte_of k' \<or> byte_of k = byte_of k' \<and> k' \<le> k)"
proof -
  have len: "length (bits s) = 30" and p: "keyboard_protocol s" "nkro s"
    using assms by (simp_all add: report_ok_def)
  have held: "report_held NKRO_ENABLE True True s = bit_keys s" by (simp add: report_held_def report_mode_def)
  let ?i = "first_byte (bits s) 0"
  show ?thesis
  proof (cases "?i < 30")
    case True
    then have "get_first_key NKRO_ENABLE s = Some (of_nat (?i * 8) OR biton (bits s ! ?i))"
      using p by (simp add: get_first_key_def Let_def NKRO_REPORT_BITS_def)
    then show ?thesis unfolding held using get_first_key_some [OF len refl True refl] by simp
  next
    case False
    then have none: "get_first_key NKRO_ENABLE s = None"
      using p by (simp add: get_first_key_def Let_def NKRO_REPORT_BITS_def)
    have "\<forall>x \<in> set (bits s). x = 0" using False len by (intro first_byte_all [of 0]) simp
    then show ?thesis unfolding held none using bit_keys_empty [OF len] by simp
  qed
qed

theorem get_first_key_nkro_witness:
  "get_first_key NKRO_ENABLE (report_init True True) = None
    \<and> report_held NKRO_ENABLE True True (report_init True True) = {}"
proof -
  have none: "get_first_key NKRO_ENABLE (report_init True True) = None"
    by (simp add: get_first_key_def report_init_def first_byte_spec NKRO_REPORT_BITS_def)
  show ?thesis using get_first_key_nkro [OF report_ok_init, unfolded none option.case] none by blast
qed

end
