(* ===== verification/Keyevent.thy ===== *)
theory Keyevent
  imports Prelude
begin

text \<open>
  Matrix positions and key events (quantum/keyboard.h), the vocabulary of layers, tapping and
  actions.
\<close>

record keypos =
  col :: u8
  row :: u8

datatype keyevent_type = TICK_EVENT | KEY_EVENT | ENCODER_CW_EVENT | ENCODER_CCW_EVENT | COMBO_EVENT

record keyevent =
  key :: keypos
  time :: u16
  event_type :: keyevent_type
  pressed :: bool

definition KEYEQ :: "keypos \<Rightarrow> keypos \<Rightarrow> bool" where
  "KEYEQ a b \<longleftrightarrow> row a = row b \<and> col a = col b"

definition KEYLOC_ENCODER_CW :: u8 where
  "KEYLOC_ENCODER_CW = 253"

definition KEYLOC_ENCODER_CCW :: u8 where
  "KEYLOC_ENCODER_CCW = 252"

definition IS_NOEVENT :: "keyevent \<Rightarrow> bool" where
  "IS_NOEVENT event \<longleftrightarrow> event_type event = TICK_EVENT"

definition IS_EVENT :: "keyevent \<Rightarrow> bool" where
  "IS_EVENT event \<longleftrightarrow> event_type event \<noteq> TICK_EVENT"

definition IS_KEYEVENT :: "keyevent \<Rightarrow> bool" where
  "IS_KEYEVENT event \<longleftrightarrow> event_type event = KEY_EVENT"

definition IS_COMBOEVENT :: "keyevent \<Rightarrow> bool" where
  "IS_COMBOEVENT event \<longleftrightarrow> event_type event = COMBO_EVENT"

definition IS_ENCODEREVENT :: "keyevent \<Rightarrow> bool" where
  "IS_ENCODEREVENT event \<longleftrightarrow> event_type event = ENCODER_CW_EVENT \<or> event_type event = ENCODER_CCW_EVENT"

definition MAKE_EVENT :: "u8 \<Rightarrow> u8 \<Rightarrow> bool \<Rightarrow> keyevent_type \<Rightarrow> u16 \<Rightarrow> keyevent" where
  "MAKE_EVENT row_num col_num press ty now =
     \<lparr>key = \<lparr>col = col_num, row = row_num\<rparr>, time = now, event_type = ty, pressed = press\<rparr>"

definition TIMER_DIFF_16 :: "u16 \<Rightarrow> u16 \<Rightarrow> u16" where
  "TIMER_DIFF_16 a b = a - b"

lemma KEYEQ_iff [simp]: "KEYEQ a b \<longleftrightarrow> a = b"
  by (cases a; cases b) (auto simp: KEYEQ_def)

end
