(* ===== verification/LayerState.thy ===== *)
theory LayerState
  imports Keyevent Bitwise
begin

text \<open>
  The layers of quantum/action_layer.c: the bit masks of the active and of the default layers, the
  search for the layer a key takes its action from, and the cache of source layers that makes the
  release of a key use the layer of its press. The layer mask has the width of
  \<open>layer_state_t\<close>; the keymap and the hooks \<open>layer_state_set_kb\<close>, which a keyboard may
  override, are parameters. Without STRICT_LAYER_RELEASE the setters have no further effect.
\<close>

section \<open>State\<close>

record layer_cfg =
  MATRIX_ROWS :: nat
  MATRIX_COLS :: nat
  NUM_ENCODERS :: nat
  ENCODER_MAP_ENABLE :: bool
  MAX_LAYER :: nat
  MAX_LAYER_BITS :: nat

record 'w layers =
  default_layer_state :: 'w
  layer_state :: 'w
  source_layers_cache :: "u8 list list"
  encoder_source_layers_cache :: "u8 list list"
  disable_action_cache :: bool

type_synonym keymap = "u8 \<Rightarrow> keypos \<Rightarrow> u16"

definition ACTION_TRANSPARENT :: u16 where
  "ACTION_TRANSPARENT = 1"

section \<open>Setting layers\<close>

definition one_shl :: "u8 \<Rightarrow> 'w::len word" where
  "one_shl layer = push_bit (unat layer) 1"

definition default_layer_state_set ::
  "('w word \<Rightarrow> 'w word) \<Rightarrow> 'w word \<Rightarrow> 'w::len word layers \<Rightarrow> 'w word layers" where
  "default_layer_state_set default_layer_state_set_kb state s =
     s\<lparr>default_layer_state := default_layer_state_set_kb state\<rparr>"

definition default_layer_or where
  "default_layer_or kb state s = default_layer_state_set kb (default_layer_state s OR state) s"

definition default_layer_and where
  "default_layer_and kb state s = default_layer_state_set kb (default_layer_state s AND state) s"

definition default_layer_xor where
  "default_layer_xor kb state s = default_layer_state_set kb (default_layer_state s XOR state) s"

definition layer_state_set ::
  "('w word \<Rightarrow> 'w word) \<Rightarrow> 'w word \<Rightarrow> 'w::len word layers \<Rightarrow> 'w word layers" where
  "layer_state_set layer_state_set_kb state s = s\<lparr>layer_state := layer_state_set_kb state\<rparr>"

definition layer_clear where
  "layer_clear kb s = layer_state_set kb 0 s"

definition layer_state_cmp :: "'w::len word \<Rightarrow> u8 \<Rightarrow> bool" where
  "layer_state_cmp cmp_layer_state layer =
     (if cmp_layer_state = 0 then layer = 0 else cmp_layer_state AND one_shl layer \<noteq> 0)"

definition layer_state_is :: "u8 \<Rightarrow> 'w::len word layers \<Rightarrow> bool" where
  "layer_state_is layer s = layer_state_cmp (layer_state s) layer"

definition layer_move where
  "layer_move kb layer s = layer_state_set kb (one_shl layer) s"

definition layer_on where
  "layer_on kb layer s = layer_state_set kb (layer_state s OR one_shl layer) s"

definition layer_off where
  "layer_off kb layer s = layer_state_set kb (layer_state s AND NOT (one_shl layer)) s"

definition layer_invert where
  "layer_invert kb layer s = layer_state_set kb (layer_state s XOR one_shl layer) s"

definition layer_or where
  "layer_or kb state s = layer_state_set kb (layer_state s OR state) s"

definition layer_and where
  "layer_and kb state s = layer_state_set kb (layer_state s AND state) s"

definition layer_xor where
  "layer_xor kb state s = layer_state_set kb (layer_state s XOR state) s"

definition update_tri_layer_state :: "'w::len word \<Rightarrow> u8 \<Rightarrow> u8 \<Rightarrow> u8 \<Rightarrow> 'w word" where
  "update_tri_layer_state state layer1 layer2 layer3 =
     (let mask12 = one_shl layer1 OR one_shl layer2; mask3 = one_shl layer3
      in if state AND mask12 = mask12 then state OR mask3 else state AND NOT mask3)"

definition update_tri_layer where
  "update_tri_layer kb layer1 layer2 layer3 s =
     layer_state_set kb (update_tri_layer_state (layer_state s) layer1 layer2 layer3) s"

section \<open>The cache of source layers\<close>

text \<open>
  The cache stores a layer number bit-sliced: bit \<open>b\<close> of the layer of entry \<open>e\<close> is bit \<open>e mod 8\<close> of
  \<open>cache[e div 8][b]\<close>. An access behind the end of the array is None.
\<close>

definition CHAR_BIT :: nat where
  "CHAR_BIT = 8"

definition cache_update_bit :: "u8 \<Rightarrow> nat \<Rightarrow> nat \<Rightarrow> u8 list \<Rightarrow> u8 list" where
  "cache_update_bit layer storage_bit bit_number r =
     r[bit_number := r ! bit_number XOR
        (((if layer AND push_bit bit_number 1 \<noteq> 0 then -1 else 0) XOR r ! bit_number) AND push_bit storage_bit 1)]"

definition update_source_layers_cache_impl ::
  "nat \<Rightarrow> u8 \<Rightarrow> u16 \<Rightarrow> u8 list list \<Rightarrow> u8 list list option" where
  "update_source_layers_cache_impl layer_bits layer entry_number cache =
     (let storage_idx = unat entry_number div CHAR_BIT; storage_bit = unat entry_number mod CHAR_BIT
      in if storage_idx < length cache
         then Some (cache[storage_idx :=
                fold (cache_update_bit layer storage_bit) [0..<layer_bits] (cache ! storage_idx)])
         else None)"

definition read_source_layers_cache_impl :: "nat \<Rightarrow> u16 \<Rightarrow> u8 list list \<Rightarrow> u8 option" where
  "read_source_layers_cache_impl layer_bits entry_number cache =
     (let storage_idx = unat entry_number div CHAR_BIT; storage_bit = unat entry_number mod CHAR_BIT
      in if storage_idx < length cache
         then Some (fold (\<lambda>bit_number layer. layer OR
                push_bit bit_number (if cache ! storage_idx ! bit_number AND push_bit storage_bit 1 \<noteq> 0 then 1 else 0))
              [0..<layer_bits] 0)
         else None)"

definition on_matrix :: "layer_cfg \<Rightarrow> keypos \<Rightarrow> bool" where
  "on_matrix c k \<longleftrightarrow> unat (row k) < MATRIX_ROWS c \<and> unat (col k) < MATRIX_COLS c"

definition on_encoder :: "layer_cfg \<Rightarrow> keypos \<Rightarrow> bool" where
  "on_encoder c k \<longleftrightarrow> ENCODER_MAP_ENABLE c \<and> (row k = KEYLOC_ENCODER_CW \<or> row k = KEYLOC_ENCODER_CCW)"

definition entry_number :: "layer_cfg \<Rightarrow> keypos \<Rightarrow> u16" where
  "entry_number c k = of_nat (unat (row k) * MATRIX_COLS c) + ucast (col k)"

definition update_source_layers_cache ::
  "layer_cfg \<Rightarrow> keypos \<Rightarrow> u8 \<Rightarrow> 'w::len word layers \<Rightarrow> 'w word layers option" where
  "update_source_layers_cache c k layer s =
     (if on_matrix c k
      then map_option (\<lambda>cache. s\<lparr>source_layers_cache := cache\<rparr>)
             (update_source_layers_cache_impl (MAX_LAYER_BITS c) layer (entry_number c k) (source_layers_cache s))
      else if on_encoder c k
      then map_option (\<lambda>cache. s\<lparr>encoder_source_layers_cache := cache\<rparr>)
             (update_source_layers_cache_impl (MAX_LAYER_BITS c) layer (ucast (col k)) (encoder_source_layers_cache s))
      else Some s)"

definition read_source_layers_cache :: "layer_cfg \<Rightarrow> keypos \<Rightarrow> 'w::len word layers \<Rightarrow> u8 option" where
  "read_source_layers_cache c k s =
     (if on_matrix c k
      then read_source_layers_cache_impl (MAX_LAYER_BITS c) (entry_number c k) (source_layers_cache s)
      else if on_encoder c k
      then read_source_layers_cache_impl (MAX_LAYER_BITS c) (ucast (col k)) (encoder_source_layers_cache s)
      else Some 0)"

section \<open>From a key to its action\<close>

fun layer_search :: "keymap \<Rightarrow> 'w::len word \<Rightarrow> keypos \<Rightarrow> nat \<Rightarrow> u8" where
  "layer_search action_for_key layers k 0 = 0"
| "layer_search action_for_key layers k (Suc i) =
     (if layers AND push_bit i 1 \<noteq> 0
      then if action_for_key (of_nat i) k \<noteq> ACTION_TRANSPARENT then of_nat i
           else layer_search action_for_key layers k i
      else layer_search action_for_key layers k i)"

definition layer_switch_get_layer :: "layer_cfg \<Rightarrow> keymap \<Rightarrow> keypos \<Rightarrow> 'w::len word layers \<Rightarrow> u8" where
  "layer_switch_get_layer c action_for_key k s =
     layer_search action_for_key (layer_state s OR default_layer_state s) k (MAX_LAYER c)"

definition layer_switch_get_action :: "layer_cfg \<Rightarrow> keymap \<Rightarrow> keypos \<Rightarrow> 'w::len word layers \<Rightarrow> u16" where
  "layer_switch_get_action c action_for_key k s =
     action_for_key (layer_switch_get_layer c action_for_key k s) k"

definition store_or_get_action ::
  "layer_cfg \<Rightarrow> keymap \<Rightarrow> bool \<Rightarrow> keypos \<Rightarrow> 'w::len word layers \<Rightarrow> (u16 \<times> 'w word layers) option" where
  "store_or_get_action c action_for_key press k s =
     (if disable_action_cache s then Some (layer_switch_get_action c action_for_key k s, s)
      else if press
      then let layer = layer_switch_get_layer c action_for_key k s
           in map_option (\<lambda>s. (action_for_key layer k, s)) (update_source_layers_cache c k layer s)
      else map_option (\<lambda>layer. (action_for_key layer k, s)) (read_source_layers_cache c k s))"

section \<open>What the cache stores\<close>

lemma bit_cache_byte:
  fixes x :: u8
  assumes "sb < 8"
  shows "bit (x XOR (((if p then -1 else 0) XOR x) AND push_bit sb 1)) j \<longleftrightarrow> (if j = sb then p else bit x j)"
  using assms by (cases "j < 8") (auto simp: bit_simps dest: bit_u8_iff_less)

lemma cache_update_bit_nth:
  assumes "sb < 8" and "i < length t"
  shows "bit (cache_update_bit layer sb i t ! b) j \<longleftrightarrow> (if b = i \<and> j = sb then bit layer i else bit (t ! b) j)"
proof (cases "b = i")
  case True
  show ?thesis
    unfolding True cache_update_bit_def and_one_shift_neq_0 nth_list_update_eq [OF assms(2)]
      bit_cache_byte [OF assms(1)] by simp
qed (simp add: cache_update_bit_def)

lemma length_cache_update_bit [simp]: "length (cache_update_bit layer sb i t) = length t"
  by (simp add: cache_update_bit_def)

lemma cache_update_row:
  assumes "sb < 8" and "length r = n"
  shows "length (fold (cache_update_bit layer sb) [0..<n] r) = n"
    and "b < n \<Longrightarrow> bit (fold (cache_update_bit layer sb) [0..<n] r ! b) j
      \<longleftrightarrow> (if j = sb then bit layer b else bit (r ! b) j)"
proof -
  let ?P = "\<lambda>D (t :: u8 list). length t = n \<and> (\<forall>b < n. \<forall>j. bit (t ! b) j
      \<longleftrightarrow> (if b \<in> D \<and> j = sb then bit layer b else bit (r ! b) j))"
  have "?P (set [0..<n]) (fold (cache_update_bit layer sb) [0..<n] r)"
  proof (rule fold_visited)
    fix D i t
    assume i: "i \<in> set [0..<n]" "i \<notin> D" and P: "?P D t"
    then show "?P (insert i D) (cache_update_bit layer sb i t)"
      by (auto simp: cache_update_bit_nth [OF assms(1)])
  qed (use assms(2) in auto)
  then show "length (fold (cache_update_bit layer sb) [0..<n] r) = n"
    and "b < n \<Longrightarrow> bit (fold (cache_update_bit layer sb) [0..<n] r ! b) j
      \<longleftrightarrow> (if j = sb then bit layer b else bit (r ! b) j)"
    by auto
qed

lemma bit_read_fold:
  "n \<le> 8 \<Longrightarrow> bit (fold (\<lambda>b layer. layer OR push_bit b (if f b then 1 else 0)) [0..<n] (0 :: u8)) j
    \<longleftrightarrow> j < n \<and> f j"
  by (induction n) (auto simp: bit_or_iff bit_push_bit_iff bit_1_iff less_Suc_eq)

text \<open>The layer stored for an entry.\<close>

definition stored :: "nat \<Rightarrow> u16 \<Rightarrow> u8 list list \<Rightarrow> u8" where
  "stored n e cache = fold (\<lambda>b layer. layer OR
     push_bit b (if bit (cache ! (unat e div 8) ! b) (unat e mod 8) then 1 else 0)) [0..<n] 0"

lemma bit_stored: "n \<le> 8 \<Longrightarrow> bit (stored n e cache) j \<longleftrightarrow> j < n \<and> bit (cache ! (unat e div 8) ! j) (unat e mod 8)"
  unfolding stored_def by (rule bit_read_fold)

lemma cache_read:
  "read_source_layers_cache_impl n e cache = (if unat e div 8 < length cache then Some (stored n e cache) else None)"
  unfolding read_source_layers_cache_impl_def stored_def CHAR_BIT_def and_one_shift_neq_0 Let_def ..

definition cache_ok :: "nat \<Rightarrow> nat \<Rightarrow> u8 list list \<Rightarrow> bool" where
  "cache_ok n entries cache \<longleftrightarrow> length cache = (entries + 7) div 8 \<and> (\<forall>i < length cache. length (cache ! i) = n)"

lemma cache_update:
  assumes ok: "cache_ok n entries cache" and n: "n \<le> 8" and e: "unat e < entries"
  shows "\<exists>cache'. update_source_layers_cache_impl n layer e cache = Some cache' \<and> cache_ok n entries cache'
    \<and> (unat layer < 2 ^ n \<longrightarrow> stored n e cache' = layer)
    \<and> (\<forall>e'. e' \<noteq> e \<longrightarrow> stored n e' cache' = stored n e' cache)"
proof -
  let ?i = "unat e div 8" and ?sb = "unat e mod 8"
  let ?r = "fold (cache_update_bit layer ?sb) [0..<n] (cache ! ?i)"
  let ?c = "cache[?i := ?r]"
  have i: "?i < length cache" using ok e unfolding cache_ok_def by linarith
  then have len: "length (cache ! ?i) = n" using ok by (simp add: cache_ok_def)
  have sb: "?sb < 8" by simp
  note R = cache_update_row [OF sb len, where layer = layer]
  have upd: "update_source_layers_cache_impl n layer e cache = Some ?c"
    using i by (simp add: update_source_layers_cache_impl_def CHAR_BIT_def Let_def)
  have ok': "cache_ok n entries ?c"
    using ok R(1) i by (auto simp: cache_ok_def nth_list_update)
  have new: "stored n e ?c = layer" if "unat layer < 2 ^ n"
  proof (rule bit_word_eqI)
    fix j
    show "bit (stored n e ?c) j \<longleftrightarrow> bit layer j"
      using i R(2) [of j ?sb] less_exp_no_bit [OF that, of j] by (cases "j < n") (simp_all add: bit_stored [OF n])
  qed
  have old: "stored n e' ?c = stored n e' cache" if "e' \<noteq> e" for e'
  proof (rule bit_word_eqI)
    fix j
    have "unat e' div 8 \<noteq> ?i \<or> unat e' mod 8 \<noteq> ?sb"
      using that by (metis div_mult_mod_eq unsigned_word_eqI)
    then show "bit (stored n e' ?c) j \<longleftrightarrow> bit (stored n e' cache) j"
      using i R(2) [of j "unat e' mod 8"]
      by (cases "unat e' div 8 = ?i") (auto simp: bit_stored [OF n])
  qed
  show ?thesis using upd ok' new old by blast
qed

section \<open>The interface of the cache\<close>

text \<open>
  What \<open>store_or_get_action\<close> needs: an entry keeps the layer stored last, and storing for another
  key does not disturb it. \<open>clash\<close> says which keys share an entry.
\<close>

locale layer_cache =
  fixes update :: "'k \<Rightarrow> u8 \<Rightarrow> 's \<Rightarrow> 's option" and look :: "'k \<Rightarrow> 's \<Rightarrow> u8 option"
    and ok :: "'s \<Rightarrow> bool" and valid :: "'k \<Rightarrow> bool" and clash :: "'k \<Rightarrow> 'k \<Rightarrow> bool" and layers :: nat
  assumes update_law: "ok s \<Longrightarrow> valid k \<Longrightarrow> unat l < layers \<Longrightarrow>
      \<exists>s'. update k l s = Some s' \<and> ok s' \<and> look k s' = Some l"
    and other_law: "ok s \<Longrightarrow> valid k \<Longrightarrow> valid k' \<Longrightarrow> \<not> clash k k' \<Longrightarrow> update k' l s = Some s' \<Longrightarrow>
      look k s' = look k s"
begin

fun updates :: "('k \<times> u8) list \<Rightarrow> 's \<Rightarrow> 's option" where
  "updates [] s = Some s"
| "updates ((k, l) # us) s = (case update k l s of None \<Rightarrow> None | Some s \<Rightarrow> updates us s)"

lemma updates_total:
  "ok s \<Longrightarrow> \<forall>(k, l) \<in> set us. valid k \<and> unat l < layers \<Longrightarrow> \<exists>s'. updates us s = Some s' \<and> ok s'"
proof (induction us arbitrary: s)
  case (Cons u us)
  then show ?case using update_law [of s "fst u" "snd u"] by (cases u) fastforce
qed simp

lemma updates_keep:
  "ok s \<Longrightarrow> valid k \<Longrightarrow> \<forall>(k', l) \<in> set us. valid k' \<and> unat l < layers \<and> \<not> clash k k' \<Longrightarrow>
    updates us s = Some s' \<Longrightarrow> look k s' = look k s"
proof (induction us arbitrary: s)
  case (Cons u us)
  obtain k' l where u: "u = (k', l)" by (cases u)
  obtain t where t: "update k' l s = Some t" "ok t" using update_law [of s k' l] Cons.prems u by auto
  have "look k t = look k s" using other_law [OF Cons.prems(1,2) _ _ t(1)] Cons.prems(3) u by simp
  moreover have "look k s' = look k t" using Cons t u by auto
  ultimately show ?case by simp
qed simp

end

text \<open>The cache of the code.\<close>

definition cfg_ok :: "layer_cfg \<Rightarrow> bool" where
  "cfg_ok c \<longleftrightarrow> MATRIX_ROWS c * MATRIX_COLS c \<le> 65536 \<and> MAX_LAYER_BITS c \<le> 5 \<and> MAX_LAYER c \<le> 2 ^ MAX_LAYER_BITS c"

definition layers_ok :: "layer_cfg \<Rightarrow> 'w::len word layers \<Rightarrow> bool" where
  "layers_ok c s \<longleftrightarrow> cache_ok (MAX_LAYER_BITS c) (MATRIX_ROWS c * MATRIX_COLS c) (source_layers_cache s)
     \<and> cache_ok (MAX_LAYER_BITS c) (NUM_ENCODERS c) (encoder_source_layers_cache s)"

definition key_ok :: "layer_cfg \<Rightarrow> keypos \<Rightarrow> bool" where
  "key_ok c k \<longleftrightarrow> on_matrix c k \<or> on_encoder c k \<and> unat (col k) < NUM_ENCODERS c"

definition clash :: "layer_cfg \<Rightarrow> keypos \<Rightarrow> keypos \<Rightarrow> bool" where
  "clash c k k' \<longleftrightarrow> k = k' \<or> \<not> on_matrix c k \<and> \<not> on_matrix c k' \<and> col k = col k'"

lemma unat_entry_number:
  assumes "cfg_ok c" and "on_matrix c k"
  shows "unat (entry_number c k) = unat (row k) * MATRIX_COLS c + unat (col k)"
    and "unat (entry_number c k) < MATRIX_ROWS c * MATRIX_COLS c"
proof -
  let ?n = "unat (row k) * MATRIX_COLS c + unat (col k)"
  have "?n < Suc (unat (row k)) * MATRIX_COLS c" using assms(2) by (simp add: on_matrix_def)
  also have "\<dots> \<le> MATRIX_ROWS c * MATRIX_COLS c"
    using assms(2) by (intro mult_le_mono1) (simp add: on_matrix_def Suc_leI)
  finally have less: "?n < MATRIX_ROWS c * MATRIX_COLS c" .
  then have small: "?n < 65536" using assms(1) unfolding cfg_ok_def by linarith
  have "entry_number c k = of_nat ?n" by (simp add: entry_number_def)
  then have "unat (entry_number c k) = ?n" using small by (simp only: unat_of_nat) simp
  then show "unat (entry_number c k) = ?n" and "unat (entry_number c k) < MATRIX_ROWS c * MATRIX_COLS c"
    using less by simp_all
qed

lemma entry_number_inj:
  assumes "cfg_ok c" and "on_matrix c k" and "on_matrix c k'" and "entry_number c k = entry_number c k'"
  shows "k = k'"
proof -
  have "unat (row k) * MATRIX_COLS c + unat (col k) = unat (row k') * MATRIX_COLS c + unat (col k')"
    using assms unat_entry_number(1) by metis
  moreover have "unat (col k) < MATRIX_COLS c" "unat (col k') < MATRIX_COLS c"
    using assms(2,3) by (simp_all add: on_matrix_def)
  ultimately have "unat (row k) = unat (row k') \<and> unat (col k) = unat (col k')"
    by (metis add.commute add_right_cancel div_less div_mult_self3 add_0 mod_less mod_mult_self3 gr_implies_not0)
  then have "row k = row k'" "col k = col k'" by (metis unsigned_word_eqI)+
  then show ?thesis by simp
qed

text \<open>The layer the cache holds for a key.\<close>

definition look_layer :: "layer_cfg \<Rightarrow> keypos \<Rightarrow> 'w::len word layers \<Rightarrow> u8" where
  "look_layer c k s =
     (if on_matrix c k then stored (MAX_LAYER_BITS c) (entry_number c k) (source_layers_cache s)
      else stored (MAX_LAYER_BITS c) (ucast (col k)) (encoder_source_layers_cache s))"

lemma unat_ucast_u16: "unat (ucast (x :: u8) :: u16) = unat x"
proof -
  have "unat x < 2 ^ 16" using unat_less_bits [of x] by simp
  then show ?thesis by (simp add: unsigned_ucast_eq take_bit_nat_eq_self)
qed

lemma read_ok:
  assumes c: "cfg_ok c" and ok: "layers_ok c s" and k: "key_ok c k"
  shows "read_source_layers_cache c k s = Some (look_layer c k s)"
proof (cases "on_matrix c k")
  case True
  then have "unat (entry_number c k) div 8 < length (source_layers_cache s)"
    using unat_entry_number(2) [OF c True] ok unfolding layers_ok_def cache_ok_def by linarith
  then show ?thesis using True by (simp add: read_source_layers_cache_def cache_read look_layer_def)
next
  case False
  then have e: "on_encoder c k" "unat (col k) < NUM_ENCODERS c" using k by (auto simp: key_ok_def)
  then have "unat (col k) div 8 < length (encoder_source_layers_cache s)"
    using ok unfolding layers_ok_def cache_ok_def by linarith
  then show ?thesis using False e by (simp add: read_source_layers_cache_def cache_read look_layer_def unat_ucast_u16)
qed

lemma update_ok:
  assumes c: "cfg_ok c" and ok: "layers_ok c s" and k: "key_ok c k"
  shows "\<exists>s'. update_source_layers_cache c k l s = Some s' \<and> layers_ok c s'
    \<and> layer_state s' = layer_state s \<and> default_layer_state s' = default_layer_state s
    \<and> disable_action_cache s' = disable_action_cache s
    \<and> (unat l < 2 ^ MAX_LAYER_BITS c \<longrightarrow> look_layer c k s' = l)
    \<and> (\<forall>k'. key_ok c k' \<longrightarrow> \<not> clash c k k' \<longrightarrow> look_layer c k' s' = look_layer c k' s)"
proof -
  have n: "MAX_LAYER_BITS c \<le> 8" using c by (simp add: cfg_ok_def)
  have cok: "cache_ok (MAX_LAYER_BITS c) (MATRIX_ROWS c * MATRIX_COLS c) (source_layers_cache s)"
    "cache_ok (MAX_LAYER_BITS c) (NUM_ENCODERS c) (encoder_source_layers_cache s)"
    using ok by (simp_all add: layers_ok_def)
  show ?thesis
  proof (cases "on_matrix c k")
    case True
    obtain cache' where U: "update_source_layers_cache_impl (MAX_LAYER_BITS c) l (entry_number c k) (source_layers_cache s) = Some cache'"
      and C: "cache_ok (MAX_LAYER_BITS c) (MATRIX_ROWS c * MATRIX_COLS c) cache'"
      and new: "unat l < 2 ^ MAX_LAYER_BITS c \<longrightarrow> stored (MAX_LAYER_BITS c) (entry_number c k) cache' = l"
      and old: "\<forall>e'. e' \<noteq> entry_number c k \<longrightarrow> stored (MAX_LAYER_BITS c) e' cache'
        = stored (MAX_LAYER_BITS c) e' (source_layers_cache s)"
      using cache_update [OF cok(1) n unat_entry_number(2) [OF c True], of l] by blast
    have "look_layer c k' (s\<lparr>source_layers_cache := cache'\<rparr>) = look_layer c k' s" if "\<not> clash c k k'" for k'
    proof (cases "on_matrix c k'")
      case m: True
      then have "entry_number c k' \<noteq> entry_number c k"
        using that entry_number_inj [OF c True m] by (auto simp: clash_def)
      then show ?thesis using m old by (simp add: look_layer_def)
    qed (simp add: look_layer_def)
    then show ?thesis
      using True U C new cok(2) by (auto simp: update_source_layers_cache_def layers_ok_def look_layer_def)
  next
    case False
    then have e: "on_encoder c k" "unat (col k) < NUM_ENCODERS c" using k by (auto simp: key_ok_def)
    obtain cache' where U: "update_source_layers_cache_impl (MAX_LAYER_BITS c) l (ucast (col k)) (encoder_source_layers_cache s) = Some cache'"
      and C: "cache_ok (MAX_LAYER_BITS c) (NUM_ENCODERS c) cache'"
      and new: "unat l < 2 ^ MAX_LAYER_BITS c \<longrightarrow> stored (MAX_LAYER_BITS c) (ucast (col k)) cache' = l"
      and old: "\<forall>e'. e' \<noteq> ucast (col k) \<longrightarrow> stored (MAX_LAYER_BITS c) e' cache'
        = stored (MAX_LAYER_BITS c) e' (encoder_source_layers_cache s)"
      using cache_update [OF cok(2) n, of "ucast (col k)" l] e(2) by (auto simp: unat_ucast_u16)
    have "look_layer c k' (s\<lparr>encoder_source_layers_cache := cache'\<rparr>) = look_layer c k' s" if "\<not> clash c k k'" for k'
    proof (cases "on_matrix c k'")
      case m: False
      then have "col k \<noteq> col k'" using that False by (simp add: clash_def)
      then have "ucast (col k') \<noteq> (ucast (col k) :: u16)" by (metis unat_ucast_u16 unsigned_word_eqI)
      then show ?thesis using m old by (simp add: look_layer_def)
    qed (simp add: look_layer_def)
    then show ?thesis
      using False e U C new cok(1) by (auto simp: update_source_layers_cache_def layers_ok_def look_layer_def)
  qed
qed

text \<open>With a legal configuration as hypothesis the operations obey the laws; the locale is
  interpreted on the code with the check of the configuration in \<open>ok\<close>.\<close>

interpretation src: layer_cache "update_source_layers_cache c" "read_source_layers_cache c"
  "\<lambda>s. cfg_ok c \<and> layers_ok c s" "key_ok c" "clash c" "2 ^ MAX_LAYER_BITS c"
proof
  fix s :: "'a word layers" and k and l :: u8
  assume ok: "cfg_ok c \<and> layers_ok c s" and k: "key_ok c k"
  obtain s' where s': "update_source_layers_cache c k l s = Some s'" "layers_ok c s'"
    "unat l < 2 ^ MAX_LAYER_BITS c \<longrightarrow> look_layer c k s' = l"
    using update_ok [OF ok [THEN conjunct1] ok [THEN conjunct2] k, of l] by blast
  then show "\<exists>s'. update_source_layers_cache c k l s = Some s' \<and> (cfg_ok c \<and> layers_ok c s')
      \<and> read_source_layers_cache c k s' = Some l" if "unat l < 2 ^ MAX_LAYER_BITS c"
    using ok that read_ok [of c s' k] k by auto
next
  fix s s' :: "'a word layers" and k k' and l :: u8
  assume ok: "cfg_ok c \<and> layers_ok c s" and k: "key_ok c k" "key_ok c k'" and nc: "\<not> clash c k k'"
    and u: "update_source_layers_cache c k' l s = Some s'"
  have nc': "\<not> clash c k' k" using nc by (auto simp: clash_def)
  obtain t where t: "update_source_layers_cache c k' l s = Some t" "layers_ok c t" "look_layer c k t = look_layer c k s"
    using update_ok [OF ok [THEN conjunct1] ok [THEN conjunct2] k(2), of l] k(1) nc' by blast
  then show "read_source_layers_cache c k s' = read_source_layers_cache c k s"
    using u ok k(1) by (simp add: read_ok)
qed

end
