(* ===== verification/LayerProps.thy ===== *)
theory LayerProps
  imports LayerState
begin

text \<open>
  The layer operations as operations on the set of active layers, the search as the highest
  active layer with an action, and the promise of the cache: a key is released on the layer it
  was pressed on.
\<close>

section \<open>Layer sets\<close>

lemma bit_one_shl: "bit (one_shl l :: 'w::len word) i \<longleftrightarrow> i = unat l \<and> i < LENGTH('w)"
  unfolding one_shl_def bit_push_bit_iff bit_1_iff by auto

lemma bits_one_shl: "bits_of (one_shl l :: 'w::len word) = (if unat l < LENGTH('w) then {unat l} else {})"
  by (auto simp: bits_of_def bit_one_shl)

lemma bits_of_ops:
  fixes a b :: "'w::len word"
  shows "bits_of (a OR b) = bits_of a \<union> bits_of b" "bits_of (a AND b) = bits_of a \<inter> bits_of b"
    "bits_of (a AND NOT b) = bits_of a - bits_of b"
    "bits_of (a XOR b) = (bits_of a - bits_of b) \<union> (bits_of b - bits_of a)"
  by (auto simp: bits_of_def bit_simps dest: bit_imp_le_length)

text \<open>On the set of active layers the setters are the set operations their names say, when no hook
  changes the mask and the layer is in range; a test of an active mask is membership, and of the
  empty mask it is the test for layer 0.
\<close>

theorem layer_ops_are_set_ops:
  fixes s :: "'w::len word layers"
  assumes "unat l < LENGTH('w)"
  shows "bits_of (layer_state (layer_on id l s)) = insert (unat l) (bits_of (layer_state s))
    \<and> bits_of (layer_state (layer_off id l s)) = bits_of (layer_state s) - {unat l}
    \<and> bits_of (layer_state (layer_move id l s)) = {unat l}
    \<and> bits_of (layer_state (layer_clear id s)) = {}
    \<and> bits_of (layer_state (layer_invert id l s))
      = (if unat l \<in> bits_of (layer_state s) then bits_of (layer_state s) - {unat l}
         else insert (unat l) (bits_of (layer_state s)))
    \<and> (layer_state_is l s \<longleftrightarrow> (if bits_of (layer_state s) = {} then l = 0 else unat l \<in> bits_of (layer_state s)))"
proof -
  have test: "x AND one_shl l \<noteq> 0 \<longleftrightarrow> unat l \<in> bits_of x" for x :: "'w word"
    unfolding one_shl_def bits_of_def by (simp only: and_one_shift_neq_0 mem_Collect_eq)
  have zero: "x = 0 \<longleftrightarrow> bits_of x = {}" for x :: "'w word"
    using word_neq_0_bit [of x] by (auto simp: bits_of_def)
  have ops: "layer_state (layer_on id l s) = layer_state s OR one_shl l"
    "layer_state (layer_off id l s) = layer_state s AND NOT (one_shl l)"
    "layer_state (layer_move id l s) = one_shl l" "layer_state (layer_clear id s) = 0"
    "layer_state (layer_invert id l s) = layer_state s XOR one_shl l"
    by (simp_all add: layer_on_def layer_off_def layer_move_def layer_clear_def layer_invert_def layer_state_set_def)
  show ?thesis
    unfolding ops bits_of_ops(3) bits_one_shl
    unfolding bits_of_ops bits_one_shl layer_state_is_def layer_state_cmp_def test zero using assms by auto
qed

theorem layer_ops_are_set_ops_witness:
  "bits_of (layer_state (layer_on id 3 (\<lparr>default_layer_state = 1, layer_state = 0 :: u16,
      source_layers_cache = [], encoder_source_layers_cache = [], disable_action_cache = False\<rparr>))) = {3}"
  using layer_ops_are_set_ops [of 3 "\<lparr>default_layer_state = 1, layer_state = 0 :: u16,
      source_layers_cache = [], encoder_source_layers_cache = [], disable_action_cache = False\<rparr>"] by simp

text \<open>
  The tri-layer rule: layer 3 is active afterwards iff both layer 1 and layer 2 were, and no
  other layer changes.
\<close>

theorem tri_layer_rule:
  fixes state :: "'w::len word"
  assumes "unat l1 < LENGTH('w)" and "unat l2 < LENGTH('w)" and "unat l3 < LENGTH('w)"
  shows "bit (update_tri_layer_state state l1 l2 l3) i
    \<longleftrightarrow> (if i = unat l3 then bit state (unat l1) \<and> bit state (unat l2) else bit state i)"
proof -
  have both: "state AND (one_shl l1 OR one_shl l2) = one_shl l1 OR one_shl l2
      \<longleftrightarrow> bit state (unat l1) \<and> bit state (unat l2)"
  proof
    assume e: "state AND (one_shl l1 OR one_shl l2) = one_shl l1 OR one_shl l2"
    have "bit (one_shl l1 OR one_shl l2 :: 'w word) (unat l1)" "bit (one_shl l1 OR one_shl l2 :: 'w word) (unat l2)"
      using assms by (simp_all add: bit_or_iff bit_one_shl)
    then show "bit state (unat l1) \<and> bit state (unat l2)" by (metis e bit_and_iff)
  next
    assume b: "bit state (unat l1) \<and> bit state (unat l2)"
    show "state AND (one_shl l1 OR one_shl l2) = one_shl l1 OR one_shl l2"
      by (rule bit_word_eqI) (use b in \<open>auto simp: bit_and_iff bit_or_iff bit_one_shl\<close>)
  qed
  show ?thesis
    using assms(3) unfolding update_tri_layer_state_def Let_def both
    by (auto simp: bit_or_iff bit_and_iff bit_not_iff bit_one_shl dest: bit_imp_le_length)
qed

theorem tri_layer_rule_witness: "bit (update_tri_layer_state (0b110 :: u16) 1 2 3) 3"
  using tri_layer_rule [where 'w = 16, of 1 2 3 "0b110" 3] by simp

section \<open>The layer of a key\<close>

definition opaque_layers :: "keymap \<Rightarrow> 'w::len word \<Rightarrow> keypos \<Rightarrow> nat \<Rightarrow> nat set" where
  "opaque_layers km ls k n = {i. i < n \<and> bit ls i \<and> km (of_nat i) k \<noteq> ACTION_TRANSPARENT}"

lemma layer_search_highest:
  "layer_search km ls k n = (if opaque_layers km ls k n = {} then 0 else of_nat (Max (opaque_layers km ls k n)))"
proof (induction n)
  case (Suc n)
  show ?case
  proof (cases "bit ls n \<and> km (of_nat n) k \<noteq> ACTION_TRANSPARENT")
    case True
    then have "n \<in> opaque_layers km ls k (Suc n)" by (simp add: opaque_layers_def)
    moreover have "Max (opaque_layers km ls k (Suc n)) = n"
      using True by (intro Max_eqI) (auto simp: opaque_layers_def)
    moreover have "layer_search km ls k (Suc n) = of_nat n"
      using True by (simp only: layer_search.simps and_one_shift_neq_0 simp_thms if_True)
    ultimately show ?thesis by auto
  next
    case False
    then have "opaque_layers km ls k (Suc n) = opaque_layers km ls k n"
      by (auto simp: opaque_layers_def less_Suc_eq)
    moreover have "layer_search km ls k (Suc n) = layer_search km ls k n"
      using False by (simp only: layer_search.simps and_one_shift_neq_0) auto
    ultimately show ?thesis using Suc by simp
  qed
qed (simp add: opaque_layers_def)

text \<open>
  C35: A key takes its action from the highest active layer (default layers included) whose entry
  is not transparent, and from layer 0 when there is none.
\<close>

theorem layer_of_key_is_highest_opaque:
  "layer_switch_get_layer c km k s =
     (let L = {i. i < MAX_LAYER c \<and> (bit (layer_state s) i \<or> bit (default_layer_state s) i)
                \<and> km (of_nat i) k \<noteq> ACTION_TRANSPARENT}
      in if L = {} then 0 else of_nat (Max L))"
  unfolding layer_switch_get_layer_def layer_search_highest opaque_layers_def bit_or_iff Let_def ..

section \<open>Release matches press\<close>

lemma layer_search_bound: "n \<le> 256 \<Longrightarrow> 0 < n \<Longrightarrow> unat (layer_search km ls k n) < n"
proof (induction n)
  case (Suc n)
  have "unat (of_nat n :: u8) = n" using Suc.prems by (simp add: unat_of_nat)
  moreover have "unat (layer_search km ls k n) < Suc n"
    using Suc by (cases n) (auto intro: less_SucI)
  ultimately show ?case by simp
qed simp

text \<open>What may happen between the press and the release of a key.\<close>

datatype 'w layer_event =
    SetLayers 'w
  | SetDefault 'w
  | KeyAction bool keypos

fun layer_step :: "layer_cfg \<Rightarrow> keymap \<Rightarrow> 'w word layer_event \<Rightarrow> 'w::len word layers \<Rightarrow> 'w word layers option" where
  "layer_step c km (SetLayers m) s = Some (layer_state_set id m s)"
| "layer_step c km (SetDefault m) s = Some (default_layer_state_set id m s)"
| "layer_step c km (KeyAction p k) s = map_option snd (store_or_get_action c km p k s)"

fun layer_run :: "layer_cfg \<Rightarrow> keymap \<Rightarrow> 'w word layer_event list \<Rightarrow> 'w::len word layers \<Rightarrow> 'w word layers option" where
  "layer_run c km [] s = Some s"
| "layer_run c km (e # es) s = (case layer_step c km e s of None \<Rightarrow> None | Some s \<Rightarrow> layer_run c km es s)"

definition apart :: "layer_cfg \<Rightarrow> keypos \<Rightarrow> 'w layer_event \<Rightarrow> bool" where
  "apart c k e = (case e of KeyAction p k' \<Rightarrow> key_ok c k' \<and> \<not> clash c k k' | _ \<Rightarrow> True)"

lemma layer_switch_bound:
  "cfg_ok c \<Longrightarrow> 0 < MAX_LAYER c \<Longrightarrow> unat (layer_switch_get_layer c km k s) < 2 ^ MAX_LAYER_BITS c"
proof -
  assume c: "cfg_ok c" "0 < MAX_LAYER c"
  have "(2 :: nat) ^ MAX_LAYER_BITS c \<le> 2 ^ 5" using c by (intro power_increasing) (auto simp: cfg_ok_def)
  then have "MAX_LAYER c \<le> 256" using c by (simp add: cfg_ok_def)
  then have "unat (layer_switch_get_layer c km k s) < MAX_LAYER c"
    unfolding layer_switch_get_layer_def using c(2) by (rule layer_search_bound)
  then show ?thesis using c by (simp add: cfg_ok_def)
qed

lemma layer_step_keeps:
  assumes c: "cfg_ok c" "0 < MAX_LAYER c" and ok: "layers_ok c s" "\<not> disable_action_cache s" and k: "key_ok c k"
    and e: "apart c k e"
  shows "\<exists>s'. layer_step c km e s = Some s' \<and> layers_ok c s' \<and> \<not> disable_action_cache s'
    \<and> look_layer c k s' = look_layer c k s"
proof (cases e)
  case (KeyAction p k')
  then have k': "key_ok c k'" "\<not> clash c k k'" using e by (simp_all add: apart_def)
  show ?thesis
  proof (cases p)
    case True
    have "\<not> clash c k' k" using k'(2) by (auto simp: clash_def)
    then show ?thesis
      using update_ok [OF c(1) ok(1) k'(1), of "layer_switch_get_layer c km k' s"] ok(2) k True KeyAction
      by (auto simp: store_or_get_action_def)
  next
    case False
    then show ?thesis using KeyAction ok read_ok [OF c(1) ok(1) k'(1)] by (simp add: store_or_get_action_def)
  qed
qed (use ok in \<open>auto simp: layer_state_set_def default_layer_state_set_def layers_ok_def look_layer_def\<close>)

lemma layer_run_keeps:
  assumes c: "cfg_ok c" "0 < MAX_LAYER c" and "layers_ok c s" "\<not> disable_action_cache s" and k: "key_ok c k"
    and "\<forall>e \<in> set es. apart c k e"
  shows "\<exists>s'. layer_run c km es s = Some s' \<and> layers_ok c s' \<and> \<not> disable_action_cache s'
    \<and> look_layer c k s' = look_layer c k s"
  using assms(3,4,6)
proof (induction es arbitrary: s)
  case (Cons e es)
  obtain t where t: "layer_step c km e s = Some t" "layers_ok c t" "\<not> disable_action_cache t"
    "look_layer c k t = look_layer c k s"
    using layer_step_keeps [OF c Cons.prems(1,2) k, of e km] Cons.prems(3) by auto
  then show ?case using Cons.IH [OF t(2,3)] Cons.prems(3) by auto
qed simp

text \<open>
  C34: A key is released with the action it was pressed with: whatever layers and default layers are
  set and whatever other keys are pressed and released in between, the release looks up the action
  of the press, and no access to the cache leaves it.
\<close>

theorem release_matches_press:
  fixes s :: "'w::len word layers"
  assumes "cfg_ok c" and "0 < MAX_LAYER c" and "layers_ok c s" and "\<not> disable_action_cache s" and "key_ok c k"
    and "\<forall>e \<in> set es. apart c k e"
  shows "\<exists>a s1 s2. store_or_get_action c km True k s = Some (a, s1)
    \<and> a = layer_switch_get_action c km k s
    \<and> layer_run c km es s1 = Some s2
    \<and> store_or_get_action c km False k s2 = Some (a, s2)"
proof -
  let ?l = "layer_switch_get_layer c km k s"
  obtain s1 where s1: "update_source_layers_cache c k ?l s = Some s1" "layers_ok c s1"
    "\<not> disable_action_cache s1" "look_layer c k s1 = ?l"
    using update_ok [OF assms(1,3,5), of ?l] layer_switch_bound [OF assms(1,2)] assms(4) by auto
  obtain s2 where s2: "layer_run c km es s1 = Some s2" "layers_ok c s2" "\<not> disable_action_cache s2"
    "look_layer c k s2 = ?l"
    using layer_run_keeps [OF assms(1,2) s1(2,3) assms(5,6), of km] s1(4) by auto
  have "store_or_get_action c km False k s2 = Some (km ?l k, s2)"
    using s2 read_ok [OF assms(1) s2(2) assms(5)] by (simp add: store_or_get_action_def)
  moreover have "store_or_get_action c km True k s = Some (km ?l k, s1)"
    using s1(1) assms(4) by (simp add: store_or_get_action_def)
  ultimately show ?thesis using s2(1) by (auto simp: layer_switch_get_action_def)
qed

definition demo_cfg :: layer_cfg where
  "demo_cfg = \<lparr>MATRIX_ROWS = 2, MATRIX_COLS = 4, NUM_ENCODERS = 1, ENCODER_MAP_ENABLE = True, MAX_LAYER = 4,
     MAX_LAYER_BITS = 3\<rparr>"

definition demo_layers :: "8 word layers" where
  "demo_layers = \<lparr>default_layer_state = 1, layer_state = 2, source_layers_cache = [[0, 0, 0]],
     encoder_source_layers_cache = [[0, 0, 0]], disable_action_cache = False\<rparr>"

theorem release_matches_press_witness:
  "\<exists>a s1 s2. store_or_get_action demo_cfg (\<lambda>l k. 2 + ucast l) True \<lparr>col = 1, row = 1\<rparr> demo_layers = Some (a, s1)
    \<and> a = layer_switch_get_action demo_cfg (\<lambda>l k. 2 + ucast l) \<lparr>col = 1, row = 1\<rparr> demo_layers
    \<and> layer_run demo_cfg (\<lambda>l k. 2 + ucast l) [SetLayers 0, KeyAction True \<lparr>col = 0, row = 1\<rparr>, SetDefault 4] s1 = Some s2
    \<and> store_or_get_action demo_cfg (\<lambda>l k. 2 + ucast l) False \<lparr>col = 1, row = 1\<rparr> s2 = Some (a, s2)"
  by (rule release_matches_press)
    (simp_all add: demo_cfg_def demo_layers_def cfg_ok_def layers_ok_def cache_ok_def key_ok_def on_matrix_def
      apart_def clash_def)

end
