(* ===== verification/ActionUtil.thy ===== *)
theory ActionUtil
  imports Report LayerState
begin

text \<open>
  The modifiers, one-shot keys and the sending of reports of quantum/action_util.c. The state is
  that of the report and of the layers with the static variables of the file; what leaves the
  component (reports handed to the host driver, the keymap configuration written to the EEPROM)
  is appended to \<open>effects\<close>. A function that reads the timer takes its value \<open>now\<close>. The hooks
  \<open>oneshot_*_changed_kb\<close> are empty unless a keymap overrides them and are left out, as is
  \<open>neutralize_flashing_modifiers\<close>, which taps a key.
\<close>

section \<open>State\<close>

text \<open>\<open>ONESHOT_TIMEOUT\<close> is 0 when the option is not set.\<close>

record 'w util_cfg =
  variant :: build
  ONESHOT_TIMEOUT :: nat
  layer_state_set_kb :: "'w \<Rightarrow> 'w"

datatype effect =
    HostKeyboard u8 "u8 list"
  | HostNkro u8 "u8 list"
  | HostSystem u16
  | HostConsumer u16
  | Mouse u8 bool
  | LedSet u8
  | EeconfigKeymap bool

datatype swap_hands_state = SHO_OFF | SHO_ACTIVE | SHO_PRESSED | SHO_USED

record 'w util_state =
  report :: report_state
  layers :: "'w layers"
  real_mods :: u8
  weak_mods :: u8
  weak_override_mods :: u8
  suppressed_mods :: u8
  oneshot_mods :: u8
  oneshot_locked_mods :: u8
  oneshot_time :: u16
  oneshot_layer_data :: u8
  oneshot_layer_time :: u16
  swap_hands_oneshot :: swap_hands_state
  swap_hands :: bool
  oneshot_swaphands_time :: u16
  oneshot_enable :: bool
  last_report :: "u8 \<times> u8 list"
  last_nkro_report :: "u8 \<times> u8 list"
  effects :: "effect list"

definition emit :: "effect \<Rightarrow> 'w util_state \<Rightarrow> 'w util_state" where
  "emit e s = s\<lparr>effects := effects s @ [e]\<rparr>"

definition std_changed :: "'w util_cfg \<Rightarrow> 'w util_state \<Rightarrow> 'w util_state" where
  "std_changed c s = s\<lparr>report := note_change (variant c) KB_RPT_STD (report s)\<rparr>"

section \<open>Locked one-shot modifiers\<close>

definition add_oneshot_locked_mods :: "u8 \<Rightarrow> 'w util_state \<Rightarrow> 'w util_state" where
  "add_oneshot_locked_mods mods s =
     (if oneshot_locked_mods s AND mods \<noteq> mods
      then s\<lparr>oneshot_locked_mods := oneshot_locked_mods s OR mods\<rparr> else s)"

definition set_oneshot_locked_mods :: "u8 \<Rightarrow> 'w util_state \<Rightarrow> 'w util_state" where
  "set_oneshot_locked_mods mods s =
     (if mods \<noteq> oneshot_locked_mods s then s\<lparr>oneshot_locked_mods := mods\<rparr> else s)"

definition clear_oneshot_locked_mods :: "'w util_state \<Rightarrow> 'w util_state" where
  "clear_oneshot_locked_mods s =
     (if oneshot_locked_mods s \<noteq> 0 then s\<lparr>oneshot_locked_mods := 0\<rparr> else s)"

definition del_oneshot_locked_mods :: "u8 \<Rightarrow> 'w util_state \<Rightarrow> 'w util_state" where
  "del_oneshot_locked_mods mods s =
     (if oneshot_locked_mods s AND mods \<noteq> 0
      then s\<lparr>oneshot_locked_mods := oneshot_locked_mods s AND NOT mods\<rparr> else s)"

definition has_oneshot_mods_timed_out :: "'w util_cfg \<Rightarrow> u16 \<Rightarrow> 'w util_state \<Rightarrow> bool" where
  "has_oneshot_mods_timed_out c now s \<longleftrightarrow>
     0 < ONESHOT_TIMEOUT c \<and> ONESHOT_TIMEOUT c \<le> unat (TIMER_DIFF_16 now (oneshot_time s))"

section \<open>The one-shot layer\<close>

definition ONESHOT_PRESSED :: u8 where "ONESHOT_PRESSED = 0b01"
definition ONESHOT_OTHER_KEY_PRESSED :: u8 where "ONESHOT_OTHER_KEY_PRESSED = 0b10"
definition ONESHOT_START :: u8 where "ONESHOT_START = 0b11"
definition ONESHOT_TOGGLED :: u8 where "ONESHOT_TOGGLED = 0b100"

lemmas oneshot_codes = ONESHOT_PRESSED_def ONESHOT_OTHER_KEY_PRESSED_def ONESHOT_START_def ONESHOT_TOGGLED_def

definition get_oneshot_layer :: "'w util_state \<Rightarrow> u8" where
  "get_oneshot_layer s = drop_bit 3 (oneshot_layer_data s)"

definition get_oneshot_layer_state :: "'w util_state \<Rightarrow> u8" where
  "get_oneshot_layer_state s = oneshot_layer_data s AND 0b111"

definition has_oneshot_layer_timed_out :: "'w util_cfg \<Rightarrow> u16 \<Rightarrow> 'w util_state \<Rightarrow> bool" where
  "has_oneshot_layer_timed_out c now s \<longleftrightarrow> 0 < ONESHOT_TIMEOUT c
     \<and> ONESHOT_TIMEOUT c \<le> unat (TIMER_DIFF_16 now (oneshot_layer_time s))
     \<and> get_oneshot_layer_state s AND ONESHOT_TOGGLED = 0"

definition set_oneshot_layer :: "'w word util_cfg \<Rightarrow> u8 \<Rightarrow> u8 \<Rightarrow> u16 \<Rightarrow> 'w::len word util_state \<Rightarrow> 'w word util_state" where
  "set_oneshot_layer c layer state now s =
     (if oneshot_enable s
      then let s = s\<lparr>oneshot_layer_data := push_bit 3 layer OR state\<rparr>;
               s = s\<lparr>layers := layer_on (layer_state_set_kb c) layer (layers s)\<rparr>
           in if 0 < ONESHOT_TIMEOUT c then s\<lparr>oneshot_layer_time := now\<rparr> else s
      else s\<lparr>layers := layer_on (layer_state_set_kb c) layer (layers s)\<rparr>)"

definition reset_oneshot_layer :: "'w util_cfg \<Rightarrow> 'w util_state \<Rightarrow> 'w util_state" where
  "reset_oneshot_layer c s =
     (let s = s\<lparr>oneshot_layer_data := 0\<rparr>
      in if 0 < ONESHOT_TIMEOUT c then s\<lparr>oneshot_layer_time := 0\<rparr> else s)"

definition clear_oneshot_layer_state :: "'w word util_cfg \<Rightarrow> u8 \<Rightarrow> 'w::len word util_state \<Rightarrow> 'w word util_state" where
  "clear_oneshot_layer_state c state s =
     (let start_state = oneshot_layer_data s;
          s = s\<lparr>oneshot_layer_data := oneshot_layer_data s AND NOT state\<rparr>
      in if get_oneshot_layer_state s = 0 \<and> start_state \<noteq> oneshot_layer_data s \<and> oneshot_enable s
         then reset_oneshot_layer c (s\<lparr>layers := layer_off (layer_state_set_kb c) (get_oneshot_layer s) (layers s)\<rparr>)
         else s)"

definition is_oneshot_layer_active :: "'w util_state \<Rightarrow> bool" where
  "is_oneshot_layer_active s \<longleftrightarrow> get_oneshot_layer_state s \<noteq> 0"

definition oneshot_set :: "'w word util_cfg \<Rightarrow> bool \<Rightarrow> 'w::len word util_state \<Rightarrow> 'w word util_state" where
  "oneshot_set c active s =
     (if oneshot_enable s \<noteq> active
      then clear_oneshot_layer_state c ONESHOT_OTHER_KEY_PRESSED
             (emit (EeconfigKeymap active) (s\<lparr>oneshot_enable := active\<rparr>))
      else s)"

definition oneshot_toggle :: "'w word util_cfg \<Rightarrow> 'w::len word util_state \<Rightarrow> 'w word util_state" where
  "oneshot_toggle c s = oneshot_set c (\<not> oneshot_enable s) s"

definition oneshot_enabled :: "'w word util_cfg \<Rightarrow> 'w::len word util_state \<Rightarrow> 'w word util_state" where
  "oneshot_enabled c s = oneshot_set c True s"

definition oneshot_disable :: "'w word util_cfg \<Rightarrow> 'w::len word util_state \<Rightarrow> 'w word util_state" where
  "oneshot_disable c s = oneshot_set c False s"

section \<open>One-shot swap hands\<close>

definition has_oneshot_swaphands_timed_out :: "'w util_cfg \<Rightarrow> u16 \<Rightarrow> 'w util_state \<Rightarrow> bool" where
  "has_oneshot_swaphands_timed_out c now s \<longleftrightarrow> 0 < ONESHOT_TIMEOUT c
     \<and> ONESHOT_TIMEOUT c \<le> unat (TIMER_DIFF_16 now (oneshot_swaphands_time s)) \<and> swap_hands_oneshot s = SHO_ACTIVE"

definition set_oneshot_swaphands :: "'w util_cfg \<Rightarrow> u16 \<Rightarrow> 'w util_state \<Rightarrow> 'w util_state" where
  "set_oneshot_swaphands c now s =
     (let s = s\<lparr>swap_hands_oneshot := SHO_PRESSED, swap_hands := True\<rparr>
      in if 0 < ONESHOT_TIMEOUT c
         then let s = s\<lparr>oneshot_swaphands_time := now\<rparr>
              in if oneshot_layer_time s \<noteq> 0 then s\<lparr>oneshot_layer_time := oneshot_swaphands_time s\<rparr> else s
         else s)"

definition clear_oneshot_swaphands :: "'w util_cfg \<Rightarrow> 'w util_state \<Rightarrow> 'w util_state" where
  "clear_oneshot_swaphands c s =
     (let s = s\<lparr>swap_hands_oneshot := SHO_OFF, swap_hands := False\<rparr>
      in if 0 < ONESHOT_TIMEOUT c then s\<lparr>oneshot_swaphands_time := 0\<rparr> else s)"

definition release_oneshot_swaphands :: "'w util_cfg \<Rightarrow> 'w util_state \<Rightarrow> 'w util_state" where
  "release_oneshot_swaphands c s =
     (let s = (if swap_hands_oneshot s = SHO_PRESSED then s\<lparr>swap_hands_oneshot := SHO_ACTIVE\<rparr> else s)
      in if swap_hands_oneshot s = SHO_USED then clear_oneshot_swaphands c s else s)"

definition use_oneshot_swaphands :: "'w util_cfg \<Rightarrow> 'w util_state \<Rightarrow> 'w util_state" where
  "use_oneshot_swaphands c s =
     (let s = (if swap_hands_oneshot s = SHO_PRESSED then s\<lparr>swap_hands_oneshot := SHO_USED\<rparr> else s)
      in if swap_hands_oneshot s = SHO_ACTIVE then clear_oneshot_swaphands c s else s)"

section \<open>One-shot modifiers\<close>

definition stamp :: "'w util_cfg \<Rightarrow> u16 \<Rightarrow> 'w util_state \<Rightarrow> 'w util_state" where
  "stamp c t s = (if 0 < ONESHOT_TIMEOUT c then s\<lparr>oneshot_time := t\<rparr> else s)"

definition add_oneshot_mods :: "'w util_cfg \<Rightarrow> u8 \<Rightarrow> u16 \<Rightarrow> 'w util_state \<Rightarrow> 'w util_state" where
  "add_oneshot_mods c mods now s =
     (if oneshot_mods s AND mods \<noteq> mods
      then let s = stamp c now s in s\<lparr>oneshot_mods := oneshot_mods s OR mods\<rparr>
      else s)"

definition del_oneshot_mods :: "'w util_cfg \<Rightarrow> u8 \<Rightarrow> u16 \<Rightarrow> 'w util_state \<Rightarrow> 'w util_state" where
  "del_oneshot_mods c mods now s =
     (if oneshot_mods s AND mods \<noteq> 0
      then let s = s\<lparr>oneshot_mods := oneshot_mods s AND NOT mods\<rparr>
           in stamp c (if oneshot_mods s \<noteq> 0 then now else 0) s
      else s)"

definition set_oneshot_mods :: "'w util_cfg \<Rightarrow> u8 \<Rightarrow> u16 \<Rightarrow> 'w util_state \<Rightarrow> 'w util_state" where
  "set_oneshot_mods c mods now s =
     (if oneshot_enable s
      then if oneshot_mods s \<noteq> mods
           then let s = stamp c now s in s\<lparr>oneshot_mods := mods\<rparr>
           else s
      else s)"

definition clear_oneshot_mods :: "'w util_cfg \<Rightarrow> 'w util_state \<Rightarrow> 'w util_state" where
  "clear_oneshot_mods c s =
     (if oneshot_mods s \<noteq> 0
      then let s = s\<lparr>oneshot_mods := 0\<rparr> in stamp c 0 s
      else s)"

section \<open>Modifiers\<close>

definition add_mods :: "'w util_cfg \<Rightarrow> u8 \<Rightarrow> 'w util_state \<Rightarrow> 'w util_state" where
  "add_mods c mods s = std_changed c (s\<lparr>real_mods := real_mods s OR mods\<rparr>)"

definition del_mods :: "'w util_cfg \<Rightarrow> u8 \<Rightarrow> 'w util_state \<Rightarrow> 'w util_state" where
  "del_mods c mods s = std_changed c (s\<lparr>real_mods := real_mods s AND NOT mods\<rparr>)"

definition set_mods :: "'w util_cfg \<Rightarrow> u8 \<Rightarrow> 'w util_state \<Rightarrow> 'w util_state" where
  "set_mods c mods s = std_changed c (s\<lparr>real_mods := mods\<rparr>)"

definition clear_mods :: "'w util_cfg \<Rightarrow> 'w util_state \<Rightarrow> 'w util_state" where
  "clear_mods c s = (if real_mods s \<noteq> 0 then std_changed c s else s)\<lparr>real_mods := 0\<rparr>"

definition add_weak_mods :: "'w util_cfg \<Rightarrow> u8 \<Rightarrow> 'w util_state \<Rightarrow> 'w util_state" where
  "add_weak_mods c mods s = std_changed c (s\<lparr>weak_mods := weak_mods s OR mods\<rparr>)"

definition del_weak_mods :: "'w util_cfg \<Rightarrow> u8 \<Rightarrow> 'w util_state \<Rightarrow> 'w util_state" where
  "del_weak_mods c mods s = std_changed c (s\<lparr>weak_mods := weak_mods s AND NOT mods\<rparr>)"

definition set_weak_mods :: "'w util_cfg \<Rightarrow> u8 \<Rightarrow> 'w util_state \<Rightarrow> 'w util_state" where
  "set_weak_mods c mods s = (if weak_mods s \<noteq> mods then std_changed c s else s)\<lparr>weak_mods := mods\<rparr>"

definition clear_weak_mods :: "'w util_cfg \<Rightarrow> 'w util_state \<Rightarrow> 'w util_state" where
  "clear_weak_mods c s = (if weak_mods s \<noteq> 0 then std_changed c s else s)\<lparr>weak_mods := 0\<rparr>"

definition set_weak_override_mods :: "'w util_cfg \<Rightarrow> u8 \<Rightarrow> 'w util_state \<Rightarrow> 'w util_state" where
  "set_weak_override_mods c mods s =
     (if weak_override_mods s \<noteq> mods then std_changed c s else s)\<lparr>weak_override_mods := mods\<rparr>"

definition clear_weak_override_mods :: "'w util_cfg \<Rightarrow> 'w util_state \<Rightarrow> 'w util_state" where
  "clear_weak_override_mods c s =
     (if weak_override_mods s \<noteq> 0 then std_changed c s else s)\<lparr>weak_override_mods := 0\<rparr>"

definition set_suppressed_override_mods :: "'w util_cfg \<Rightarrow> u8 \<Rightarrow> 'w util_state \<Rightarrow> 'w util_state" where
  "set_suppressed_override_mods c mods s =
     (if suppressed_mods s \<noteq> mods then std_changed c s else s)\<lparr>suppressed_mods := mods\<rparr>"

definition clear_suppressed_override_mods :: "'w util_cfg \<Rightarrow> 'w util_state \<Rightarrow> 'w util_state" where
  "clear_suppressed_override_mods c s =
     (if suppressed_mods s \<noteq> 0 then std_changed c s else s)\<lparr>suppressed_mods := 0\<rparr>"

definition has_anymod :: "'w util_state \<Rightarrow> u8" where
  "has_anymod s = bitpop (real_mods s)"

section \<open>Sending reports\<close>

text \<open>The modifiers of the next report; one-shot modifiers that have timed out are dropped, and those
  that go out together with a key are consumed. Without key overrides the last two masks are 0.\<close>

definition get_mods_for_report :: "'w util_cfg \<Rightarrow> u16 \<Rightarrow> 'w util_state \<Rightarrow> u8 \<times> 'w util_state" where
  "get_mods_for_report c now s =
     (let mods = real_mods s OR weak_mods s;
          (mods, s) =
            (if oneshot_mods s \<noteq> 0
             then let s = (if 0 < ONESHOT_TIMEOUT c \<and> has_oneshot_mods_timed_out c now s
                           then clear_oneshot_mods c s else s);
                      mods = mods OR oneshot_mods s
                  in (mods, if has_anykey (variant c) (report s) \<noteq> 0 then clear_oneshot_mods c s else s)
             else (mods, s))
      in ((mods AND NOT (suppressed_mods s)) OR weak_override_mods s, s))"

definition send_6kro_report :: "'w util_cfg \<Rightarrow> u16 \<Rightarrow> 'w util_state \<Rightarrow> 'w util_state" where
  "send_6kro_report c now s =
     (let (mods, s) = get_mods_for_report c now s;
          s = s\<lparr>report := (report s)\<lparr>kb_mods := mods\<rparr>\<rparr>;
          r = (kb_mods (report s), keys (report s));
          s = (if r \<noteq> last_report s then emit (HostKeyboard (fst r) (snd r)) (s\<lparr>last_report := r\<rparr>) else s)
      in if variant c = APDAPTIVE_NKRO_ENABLE
         then s\<lparr>report := (report s)\<lparr>kb_report_changed := kb_report_changed (report s) AND NOT KB_RPT_STD\<rparr>\<rparr>
         else s)"

definition send_nkro_report :: "'w util_cfg \<Rightarrow> u16 \<Rightarrow> 'w util_state \<Rightarrow> 'w util_state" where
  "send_nkro_report c now s =
     (let s = (if variant c \<noteq> APDAPTIVE_NKRO_ENABLE
               then case get_mods_for_report c now s of (mods, s) \<Rightarrow> s\<lparr>report := (report s)\<lparr>nkro_mods := mods\<rparr>\<rparr>
               else s);
          r = (nkro_mods (report s), bits (report s));
          s = (if r \<noteq> last_nkro_report s then emit (HostNkro (fst r) (snd r)) (s\<lparr>last_nkro_report := r\<rparr>) else s)
      in if variant c = APDAPTIVE_NKRO_ENABLE
         then s\<lparr>report := (report s)\<lparr>kb_report_changed := kb_report_changed (report s) AND NOT KB_RPT_NKRO\<rparr>\<rparr>
         else s)"

definition send_keyboard_report :: "'w util_cfg \<Rightarrow> u16 \<Rightarrow> 'w util_state \<Rightarrow> 'w util_state" where
  "send_keyboard_report c now s =
     (case variant c of
        APDAPTIVE_NKRO_ENABLE \<Rightarrow>
          let s = (if keyboard_protocol (report s) \<and> kb_report_changed (report s) AND KB_RPT_NKRO \<noteq> 0
                   then send_nkro_report c now s else s)
          in if kb_report_changed (report s) AND KB_RPT_STD \<noteq> 0 then send_6kro_report c now s else s
      | NKRO_ENABLE \<Rightarrow>
          if keyboard_protocol (report s) \<and> nkro (report s) then send_nkro_report c now s else send_6kro_report c now s
      | SIX_KRO \<Rightarrow> send_6kro_report c now s)"

end
