(* ===== verification/ActionUtilProps.thy ===== *)
theory ActionUtilProps
  imports ActionUtil
begin

text \<open>
  What quantum/action_util.c promises: the host always holds the current report, one-shot
  modifiers apply to one key, a one-shot layer ends with the next key; and where it does not:
  a one-shot layer that is active when the feature is disabled, and one-shot modifiers before
  the seventh key of the adaptive build.
\<close>

section \<open>The host's view\<close>

fun host_keyboard :: "effect list \<Rightarrow> u8 \<times> u8 list \<Rightarrow> u8 \<times> u8 list" where
  "host_keyboard [] r = r"
| "host_keyboard (HostKeyboard m k # es) r = host_keyboard es (m, k)"
| "host_keyboard (_ # es) r = host_keyboard es r"

fun host_nkro :: "effect list \<Rightarrow> u8 \<times> u8 list \<Rightarrow> u8 \<times> u8 list" where
  "host_nkro [] r = r"
| "host_nkro (HostNkro m k # es) r = host_nkro es (m, k)"
| "host_nkro (_ # es) r = host_nkro es r"

lemma host_keyboard_snoc:
  "host_keyboard (es @ [e]) r = (case e of HostKeyboard m k \<Rightarrow> (m, k) | _ \<Rightarrow> host_keyboard es r)"
  by (induction es r rule: host_keyboard.induct) (auto split: effect.split)

lemma host_nkro_snoc:
  "host_nkro (es @ [e]) r = (case e of HostNkro m k \<Rightarrow> (m, k) | _ \<Rightarrow> host_nkro es r)"
  by (induction es r rule: host_nkro.induct) (auto split: effect.split)

text \<open>The static copies are what the host saw last; \<open>r\<close> and \<open>n\<close> are what it held at the start.\<close>

definition host_ok :: "u8 \<times> u8 list \<Rightarrow> u8 \<times> u8 list \<Rightarrow> 'w util_state \<Rightarrow> bool" where
  "host_ok r n s \<longleftrightarrow> last_report s = host_keyboard (effects s) r \<and> last_nkro_report s = host_nkro (effects s) n"

lemma clear_oneshot_mods_frame [simp]:
  "report (clear_oneshot_mods c s) = report s" "effects (clear_oneshot_mods c s) = effects s"
  "last_report (clear_oneshot_mods c s) = last_report s"
  "last_nkro_report (clear_oneshot_mods c s) = last_nkro_report s"
  "oneshot_mods (clear_oneshot_mods c s) = 0" "suppressed_mods (clear_oneshot_mods c s) = suppressed_mods s"
  "weak_override_mods (clear_oneshot_mods c s) = weak_override_mods s"
  "real_mods (clear_oneshot_mods c s) = real_mods s" "weak_mods (clear_oneshot_mods c s) = weak_mods s"
  by (simp_all add: clear_oneshot_mods_def stamp_def Let_def)

lemma get_mods_frame:
  assumes "get_mods_for_report c now s = (m, s')"
  shows "report s' = report s" "effects s' = effects s" "last_report s' = last_report s"
    "last_nkro_report s' = last_nkro_report s"
  using assms by (auto simp: get_mods_for_report_def Let_def split: if_splits)

lemma send_6kro:
  assumes ok: "host_ok r n s"
  shows "host_ok r n (send_6kro_report c now s)
    \<and> last_report (send_6kro_report c now s) = (fst (get_mods_for_report c now s), keys (report s))
    \<and> keys (report (send_6kro_report c now s)) = keys (report s)
    \<and> effects (send_6kro_report c now s) = effects s
      @ (if (fst (get_mods_for_report c now s), keys (report s)) = last_report s then []
         else [HostKeyboard (fst (get_mods_for_report c now s)) (keys (report s))])"
proof -
  obtain m t where g: "get_mods_for_report c now s = (m, t)" by (cases "get_mods_for_report c now s")
  note F = get_mods_frame [OF g]
  show ?thesis
    using ok F by (auto simp: send_6kro_report_def g Let_def host_ok_def emit_def host_keyboard_snoc host_nkro_snoc)
qed

lemma send_nkro:
  assumes ok: "host_ok r n s" and v: "variant c \<noteq> APDAPTIVE_NKRO_ENABLE"
  shows "host_ok r n (send_nkro_report c now s)
    \<and> last_nkro_report (send_nkro_report c now s) = (fst (get_mods_for_report c now s), bits (report s))
    \<and> bits (report (send_nkro_report c now s)) = bits (report s)
    \<and> effects (send_nkro_report c now s) = effects s
      @ (if (fst (get_mods_for_report c now s), bits (report s)) = last_nkro_report s then []
         else [HostNkro (fst (get_mods_for_report c now s)) (bits (report s))])"
proof -
  obtain m t where g: "get_mods_for_report c now s = (m, t)" by (cases "get_mods_for_report c now s")
  note F = get_mods_frame [OF g]
  show ?thesis
    using ok F v by (auto simp: send_nkro_report_def g Let_def host_ok_def emit_def host_keyboard_snoc host_nkro_snoc)
qed

text \<open>
  The host is up to date: in the builds without the adaptive mode, after send_keyboard_report
  the host holds the current modifiers and keys in the report of the active kind; a report is sent
  only when it differs from the one the host holds.
\<close>

theorem send_keeps_host_current:
  assumes "host_ok r n s" and "variant c \<noteq> APDAPTIVE_NKRO_ENABLE"
  shows "let mods = fst (get_mods_for_report c now s); s' = send_keyboard_report c now s
    in host_ok r n s'
      \<and> (if variant c = NKRO_ENABLE \<and> keyboard_protocol (report s) \<and> nkro (report s)
         then host_nkro (effects s') n = (mods, bits (report s))
           \<and> effects s' = effects s @ (if host_nkro (effects s) n = (mods, bits (report s)) then []
               else [HostNkro mods (bits (report s))])
         else host_keyboard (effects s') r = (mods, keys (report s))
           \<and> effects s' = effects s @ (if host_keyboard (effects s) r = (mods, keys (report s)) then []
               else [HostKeyboard mods (keys (report s))]))"
  using send_6kro [OF assms(1), of c now] send_nkro [OF assms, of now] assms
  by (cases "variant c") (auto simp: send_keyboard_report_def Let_def host_ok_def)

definition demo_util :: "8 word util_cfg" where
  "demo_util = \<lparr>variant = SIX_KRO, ONESHOT_TIMEOUT = 0, layer_state_set_kb = id\<rparr>"

definition demo_state :: "bool \<Rightarrow> 8 word util_state" where
  "demo_state en = \<lparr>report = report_init True True, layers = \<lparr>default_layer_state = 1, layer_state = 0,
       source_layers_cache = [], encoder_source_layers_cache = [], disable_action_cache = False\<rparr>,
     real_mods = 0, weak_mods = 0, weak_override_mods = 0, suppressed_mods = 0, oneshot_mods = 0,
     oneshot_locked_mods = 0, oneshot_time = 0, oneshot_layer_data = 0, oneshot_layer_time = 0,
     swap_hands_oneshot = SHO_OFF, swap_hands = False, oneshot_swaphands_time = 0, oneshot_enable = en,
     last_report = (0, replicate 6 0), last_nkro_report = (0, replicate 30 0), effects = []\<rparr>"

lemma demo_host_ok: "host_ok (0, replicate 6 0) (0, replicate 30 0) (demo_state True)"
  by (simp add: host_ok_def demo_state_def)

theorem send_keeps_host_current_witness:
  "host_ok (0, replicate 6 0) (0, replicate 30 0) (send_keyboard_report demo_util 5 (demo_state True))"
proof -
  have "variant demo_util \<noteq> APDAPTIVE_NKRO_ENABLE" by (simp add: demo_util_def)
  from send_keeps_host_current [OF demo_host_ok this, of 5] show ?thesis by (simp add: Let_def)
qed

section \<open>One-shot modifiers\<close>

text \<open>
  One-shot modifiers apply to one key: they are part of every report until one that holds a
  key, which consumes them; once they have timed out they are dropped instead. Key overrides are
  applied last.
\<close>

theorem oneshot_mods_apply_once:
  "case get_mods_for_report c now s of (mods, s') \<Rightarrow>
    let live = (if has_oneshot_mods_timed_out c now s then 0 else oneshot_mods s)
    in mods = (((real_mods s OR weak_mods s OR live) AND NOT (suppressed_mods s)) OR weak_override_mods s)
      \<and> oneshot_mods s' = (if has_anykey (variant c) (report s) \<noteq> 0 then 0 else live)
      \<and> real_mods s' = real_mods s \<and> weak_mods s' = weak_mods s \<and> report s' = report s"
  by (cases "oneshot_mods s = 0")
    (auto simp: get_mods_for_report_def Let_def has_oneshot_mods_timed_out_def or.assoc)

text \<open>
  In the adaptive build the seventh key misses the one-shot modifiers: with six keys held,
  pressing a further key sends its NKRO report only, with the modifier byte the report had, and the
  one-shot modifiers are neither sent nor consumed.
\<close>

theorem adaptive_oneshot_misses_key:
  fixes s :: "'w util_state"
  assumes "variant c = APDAPTIVE_NKRO_ENABLE" and "keyboard_protocol (report s)"
    and "kb_keys_count (report s) = of_nat KEYBOARD_REPORT_KEYS" and "kb_report_changed (report s) = 0"
    and "byte_of k < 30"
  shows "let s1 = s\<lparr>report := add_key_to_report (variant c) k (report s)\<rparr>;
             s2 = send_keyboard_report c now s1; r = (nkro_mods (report s), bits (report s1))
    in effects s2 = effects s @ (if r = last_nkro_report s then [] else [HostNkro (fst r) (snd r)])
      \<and> oneshot_mods s2 = oneshot_mods s"
proof -
  have std: "KB_RPT_NKRO AND NOT KB_RPT_NKRO AND KB_RPT_STD = 0" "KB_RPT_NKRO AND KB_RPT_NKRO \<noteq> 0"
    "KB_RPT_NKRO AND KB_RPT_STD = 0"
    by (simp_all add: KB_RPT_NKRO_def KB_RPT_STD_def)
  have add: "add_key_to_report (variant c) k (report s) = add_key_bit APDAPTIVE_NKRO_ENABLE k (report s)"
    using assms by (simp add: add_key_to_report_def)
  have ch: "kb_report_changed (add_key_bit APDAPTIVE_NKRO_ENABLE k (report s)) = KB_RPT_NKRO"
    "nkro_mods (add_key_bit APDAPTIVE_NKRO_ENABLE k (report s)) = nkro_mods (report s)"
    using assms by (simp_all add: add_key_bit_def Let_def NKRO_REPORT_BITS_def)
  show ?thesis
    unfolding add Let_def using assms(1,2) std
    by (simp add: send_keyboard_report_def send_nkro_report_def ch Let_def emit_def)
qed

theorem adaptive_oneshot_misses_key_witness:
  "oneshot_mods (send_keyboard_report (demo_util\<lparr>variant := APDAPTIVE_NKRO_ENABLE\<rparr>) 5
    ((demo_state True)\<lparr>oneshot_mods := 2, report := add_key_to_report APDAPTIVE_NKRO_ENABLE 10
      ((report_init True True)\<lparr>keys := [4, 5, 6, 7, 8, 9], kb_keys_count := 6\<rparr>)\<rparr>)) = 2"
proof -
  let ?s = "(demo_state True)\<lparr>oneshot_mods := 2,
    report := (report_init True True)\<lparr>keys := [4, 5, 6, 7, 8, 9], kb_keys_count := 6\<rparr>\<rparr>"
  show ?thesis
    using adaptive_oneshot_misses_key [of "demo_util\<lparr>variant := APDAPTIVE_NKRO_ENABLE\<rparr>" ?s 10 5]
    by (simp add: report_init_def KEYBOARD_REPORT_KEYS_def byte_of_eq Let_def)
qed

section \<open>One-shot layers\<close>

lemma osl_bit: "unat (l :: u8) < 32 \<Longrightarrow> bit l j \<Longrightarrow> j < 5"
  by (rule ccontr) (use less_exp_no_bit [of l 5 j] in simp)

lemma osl_state_bit: "unat (st :: u8) < 8 \<Longrightarrow> bit st j \<Longrightarrow> j < 3"
  by (rule ccontr) (use less_exp_no_bit [of st 3 j] in simp)

lemma osl_data:
  fixes l st m :: u8
  assumes l: "unat l < 32" and st: "unat st < 8" and m: "unat m < 8"
  shows "drop_bit 3 (push_bit 3 l OR st) = l" and "(push_bit 3 l OR st) AND 0b111 = st"
    and "(push_bit 3 l OR st) AND NOT m = push_bit 3 l OR (st AND NOT m)"
proof -
  have seven: "(0b111 :: u8) = mask 3" by (simp add: mask_eq_exp_minus_1)
  show "drop_bit 3 (push_bit 3 l OR st) = l"
    by (rule bit_word_eqI)
      (use osl_bit [OF l] osl_state_bit [OF st] in \<open>auto simp: bit_drop_bit_eq bit_or_iff bit_push_bit_iff\<close>)
  show "(push_bit 3 l OR st) AND 0b111 = st"
    unfolding seven
    by (rule bit_word_eqI)
      (use osl_state_bit [OF st] in \<open>auto simp: bit_and_iff bit_mask_iff bit_or_iff bit_push_bit_iff\<close>)
  show "(push_bit 3 l OR st) AND NOT m = push_bit 3 l OR (st AND NOT m)"
    by (rule bit_word_eqI)
      (auto simp: bit_and_iff bit_not_iff bit_or_iff bit_push_bit_iff dest!: osl_state_bit [OF m])
qed

text \<open>A one-shot layer \<open>l\<close> that still waits for the codes in \<open>st\<close>, and one that is over.\<close>

definition osl_waits :: "u8 \<Rightarrow> u8 \<Rightarrow> 'w::len word util_state \<Rightarrow> bool" where
  "osl_waits l st s \<longleftrightarrow> oneshot_enable s \<and> oneshot_layer_data s = push_bit 3 l OR st
     \<and> unat l \<in> bits_of (layer_state (layers s))"

definition osl_over :: "u8 \<Rightarrow> 'w::len word util_state \<Rightarrow> bool" where
  "osl_over l s \<longleftrightarrow> oneshot_layer_data s = 0 \<and> unat l \<notin> bits_of (layer_state (layers s))"

lemma bits_layer_on:
  fixes x :: "'w::len word layers"
  shows "unat l < LENGTH('w) \<Longrightarrow> bits_of (layer_state (layer_on id l x)) = insert (unat l) (bits_of (layer_state x))"
  and "bits_of (layer_state (layer_off id l x)) = bits_of (layer_state x) - {unat l}"
  by (auto simp: layer_on_def layer_off_def layer_state_set_def bits_of_def one_shl_def bit_or_iff bit_and_iff
      bit_not_iff bit_push_bit_iff bit_1_iff simp del: push_bit_of_1 dest: bit_imp_le_length)

lemma osl_clear:
  fixes s :: "'w::len word util_state"
  assumes kb: "layer_state_set_kb c = id" and l: "unat l < 32" and st: "unat st < 8" and m: "unat m < 8"
    and w: "osl_waits l st s" and nz: "st \<noteq> 0"
  shows "if st AND NOT m = 0 then osl_over l (clear_oneshot_layer_state c m s)
      else osl_waits l (st AND NOT m) (clear_oneshot_layer_state c m s)"
    and "bits_of (layer_state (layers (clear_oneshot_layer_state c m s))) - {unat l}
      = bits_of (layer_state (layers s)) - {unat l}"
proof -
  have W: "oneshot_enable s" "oneshot_layer_data s = push_bit 3 l OR st" "unat l \<in> bits_of (layer_state (layers s))"
    using w by (simp_all add: osl_waits_def)
  have st': "unat (st AND NOT m) < 8"
    using st by (rule le_less_trans [rotated]) (simp add: word_and_le2 flip: word_le_nat_alt)
  note D = osl_data [OF l st m] and D' = osl_data [OF l st' m]
  have P0: "drop_bit 3 (push_bit 3 l) = l" "push_bit 3 l AND 7 = 0" using osl_data [of l 0 0] l by simp_all
  have changed: "push_bit 3 l OR st \<noteq> push_bit 3 l OR (st AND NOT m)" if "st AND NOT m = 0"
    using D(2) D'(2) that nz by metis
  show "if st AND NOT m = 0 then osl_over l (clear_oneshot_layer_state c m s)
      else osl_waits l (st AND NOT m) (clear_oneshot_layer_state c m s)"
    using W changed
    by (auto simp: clear_oneshot_layer_state_def Let_def get_oneshot_layer_state_def get_oneshot_layer_def D D' P0
        osl_over_def osl_waits_def reset_oneshot_layer_def kb bits_layer_on simp del: or_eq_0_iff)
  show "bits_of (layer_state (layers (clear_oneshot_layer_state c m s))) - {unat l}
      = bits_of (layer_state (layers s)) - {unat l}"
    using W changed
    by (auto simp: clear_oneshot_layer_state_def Let_def get_oneshot_layer_state_def get_oneshot_layer_def D D' P0
        reset_oneshot_layer_def kb bits_layer_on simp del: or_eq_0_iff)
qed

lemma osl_clear_over: "osl_over l s \<Longrightarrow> clear_oneshot_layer_state c m s = s"
  by (simp add: osl_over_def clear_oneshot_layer_state_def Let_def)

lemma osl_fold:
  fixes s :: "'w::len word util_state"
  assumes kb: "layer_state_set_kb c = id" and l: "unat l < 32" and "unat st < 8" and "\<forall>m \<in> set cs. unat m < 8"
    and "osl_waits l st s" and "st \<noteq> 0"
  shows "(if fold (\<lambda>m st. st AND NOT m) cs st = 0 then osl_over l (fold (clear_oneshot_layer_state c) cs s)
      else osl_waits l (fold (\<lambda>m st. st AND NOT m) cs st) (fold (clear_oneshot_layer_state c) cs s))
    \<and> bits_of (layer_state (layers (fold (clear_oneshot_layer_state c) cs s))) - {unat l}
      = bits_of (layer_state (layers s)) - {unat l}"
  using assms(3-)
proof (induction cs arbitrary: st s)
  case (Cons m cs)
  have m: "unat m < 8" using Cons.prems by simp
  note C = osl_clear [OF kb l Cons.prems(1) m Cons.prems(3,4)]
  have st': "unat (st AND NOT m) < 8"
    using Cons.prems(1) by (rule le_less_trans [rotated]) (simp add: word_and_le2 flip: word_le_nat_alt)
  show ?case
  proof (cases "st AND NOT m = 0")
    case True
    then have over: "osl_over l (clear_oneshot_layer_state c m s)" using C(1) by simp
    have stay: "fold (clear_oneshot_layer_state c) ms t = t" if "osl_over l t" for ms and t :: "'w word util_state"
      using osl_clear_over [OF that] by (induction ms) simp_all
    have "fold (\<lambda>m st. st AND NOT m) ms 0 = (0 :: u8)" for ms by (induction ms) simp_all
    then show ?thesis using over C(2) stay [OF over] True by simp
  next
    case False
    then have w: "osl_waits l (st AND NOT m) (clear_oneshot_layer_state c m s)" using C(1) by simp
    show ?thesis using Cons.IH [OF st' _ w False] Cons.prems(2) C(2) by simp
  qed
qed simp

lemma bit_fold_clear: "bit (fold (\<lambda>m st. st AND NOT m) cs st) j \<longleftrightarrow> bit (st :: u8) j \<and> (\<forall>m \<in> set cs. \<not> bit m j)"
  by (induction cs arbitrary: st) (auto simp: bit_and_iff bit_not_iff dest: bit_u8_iff_less)

lemma fold_clear_start:
  assumes "set cs \<subseteq> {ONESHOT_PRESSED, ONESHOT_OTHER_KEY_PRESSED}"
  shows "fold (\<lambda>m st. st AND NOT m) cs ONESHOT_START = 0 \<longleftrightarrow> {ONESHOT_PRESSED, ONESHOT_OTHER_KEY_PRESSED} \<subseteq> set cs"
proof -
  have one: "bit ONESHOT_PRESSED j \<longleftrightarrow> j = 0" for j by (simp add: oneshot_codes bit_1_iff)
  have two: "bit ONESHOT_OTHER_KEY_PRESSED j \<longleftrightarrow> j = 1" for j
    by (cases j) (auto simp: oneshot_codes bit_Suc bit_1_iff dest: bit_u8_iff_less)
  have three: "bit ONESHOT_START j \<longleftrightarrow> j = 0 \<or> j = 1" for j
  proof -
    have start: "ONESHOT_START = ONESHOT_PRESSED OR ONESHOT_OTHER_KEY_PRESSED" by (simp add: oneshot_codes)
    show ?thesis unfolding start bit_or_iff one two ..
  qed
  have "fold (\<lambda>m st. st AND NOT m) cs ONESHOT_START = 0
      \<longleftrightarrow> (\<exists>m \<in> set cs. bit m 0) \<and> (\<exists>m \<in> set cs. bit m 1)"
    using word_neq_0_bit [of "fold (\<lambda>m st. st AND NOT m) cs ONESHOT_START"]
    by (auto simp: bit_fold_clear three)
  also have "\<dots> \<longleftrightarrow> {ONESHOT_PRESSED, ONESHOT_OTHER_KEY_PRESSED} \<subseteq> set cs"
  proof -
    have "bit ONESHOT_PRESSED 0" "\<not> bit ONESHOT_PRESSED 1" "bit ONESHOT_OTHER_KEY_PRESSED 1"
      "\<not> bit ONESHOT_OTHER_KEY_PRESSED 0"
      unfolding one two by simp_all
    then show ?thesis using assms by blast
  qed
  finally show ?thesis .
qed

lemma osl_set:
  fixes s :: "'w::len word util_state"
  assumes "layer_state_set_kb c = id" and "unat l < LENGTH('w)" and "oneshot_enable s"
  shows "osl_waits l st (set_oneshot_layer c l st now s)"
    and "bits_of (layer_state (layers (set_oneshot_layer c l st now s))) - {unat l}
      = bits_of (layer_state (layers s)) - {unat l}"
  using assms by (simp_all add: set_oneshot_layer_def Let_def osl_waits_def bits_layer_on)

lemma osl_active: "osl_waits l st s \<Longrightarrow> unat l < 32 \<Longrightarrow> unat st < 8 \<Longrightarrow> st \<noteq> 0 \<Longrightarrow> is_oneshot_layer_active s"
  using osl_data(2) [of l st 0] by (simp add: osl_waits_def is_oneshot_layer_active_def get_oneshot_layer_state_def)

text \<open>
  A one-shot layer ends with the next key: from \<open>set_oneshot_layer\<close> on, the layer stays active
  until both the one-shot key was released and another key was pressed, in either order and however
  often either happens, and is off from then on; the other layers are not touched.
\<close>

theorem oneshot_layer_ends_with_next_key:
  fixes s :: "'w::len word util_state"
  assumes "layer_state_set_kb c = id" and "unat l < 32" and "unat l < LENGTH('w)" and "oneshot_enable s"
    and "set cs \<subseteq> {ONESHOT_PRESSED, ONESHOT_OTHER_KEY_PRESSED}"
  shows "let s' = fold (clear_oneshot_layer_state c) cs (set_oneshot_layer c l ONESHOT_START now s);
             over = ({ONESHOT_PRESSED, ONESHOT_OTHER_KEY_PRESSED} \<subseteq> set cs)
    in (is_oneshot_layer_active s' \<longleftrightarrow> \<not> over)
      \<and> bits_of (layer_state (layers s')) - {unat l} = bits_of (layer_state (layers s)) - {unat l}
      \<and> (unat l \<in> bits_of (layer_state (layers s')) \<longleftrightarrow> \<not> over)"
proof -
  let ?s0 = "set_oneshot_layer c l ONESHOT_START now s"
  let ?st = "fold (\<lambda>m st. st AND NOT m) cs ONESHOT_START"
  have start: "unat ONESHOT_START < 8" "ONESHOT_START \<noteq> 0" by (simp_all add: oneshot_codes)
  have small: "\<forall>m \<in> set cs. unat m < 8" using assms(5) by (auto simp: oneshot_codes)
  have F: "(if ?st = 0 then osl_over l (fold (clear_oneshot_layer_state c) cs ?s0)
      else osl_waits l ?st (fold (clear_oneshot_layer_state c) cs ?s0))
    \<and> bits_of (layer_state (layers (fold (clear_oneshot_layer_state c) cs ?s0))) - {unat l}
      = bits_of (layer_state (layers s)) - {unat l}"
    using osl_fold [OF assms(1,2) start(1) small osl_set(1) [OF assms(1,3,4)] start(2), of now]
    unfolding osl_set(2) [OF assms(1,3,4)] .
  have st: "unat ?st < 8"
  proof -
    have eq: "take_bit 3 ?st = ?st"
      by (rule bit_word_eqI) (use osl_state_bit [OF start(1)] in \<open>auto simp: bit_take_bit_iff bit_fold_clear\<close>)
    have "unat (take_bit 3 ?st) < 2 ^ 3"
      unfolding unsigned_take_bit_eq by (rule take_bit_nat_less_exp)
    then show ?thesis unfolding eq by simp
  qed
  show ?thesis
  proof (cases "?st = 0")
    case True
    then show ?thesis
      using F fold_clear_start [OF assms(5)]
      by (auto simp: Let_def osl_over_def is_oneshot_layer_active_def get_oneshot_layer_state_def)
  next
    case False
    then have w: "osl_waits l ?st (fold (clear_oneshot_layer_state c) cs ?s0)" using F by simp
    show ?thesis
      using F fold_clear_start [OF assms(5)] False osl_active [OF w assms(2) st False] w
      by (auto simp: Let_def osl_waits_def)
  qed
qed

theorem oneshot_layer_ends_with_next_key_witness:
  "let s' = fold (clear_oneshot_layer_state demo_util) [ONESHOT_PRESSED, ONESHOT_OTHER_KEY_PRESSED]
         (set_oneshot_layer demo_util 2 ONESHOT_START 7 (demo_state True));
       over = ({ONESHOT_PRESSED, ONESHOT_OTHER_KEY_PRESSED} \<subseteq> set [ONESHOT_PRESSED, ONESHOT_OTHER_KEY_PRESSED])
    in (is_oneshot_layer_active s' \<longleftrightarrow> \<not> over)
      \<and> bits_of (layer_state (layers s')) - {unat (2 :: u8)} = bits_of (layer_state (layers (demo_state True))) - {unat (2 :: u8)}
      \<and> (unat (2 :: u8) \<in> bits_of (layer_state (layers s')) \<longleftrightarrow> \<not> over)"
  by (rule oneshot_layer_ends_with_next_key) (simp_all add: demo_util_def demo_state_def)

text \<open>
  Disabling one-shot keys while a one-shot layer is active leaves the layer on for good: the
  handler clears the enable flag before it tries to end the layer, and no later release or key
  press turns the layer off.
\<close>

lemma osl_disabled_clear:
  fixes s :: "'w::len word util_state"
  assumes "\<not> oneshot_enable s"
  shows "layers (clear_oneshot_layer_state c m s) = layers s" and "\<not> oneshot_enable (clear_oneshot_layer_state c m s)"
  using assms by (simp_all add: clear_oneshot_layer_state_def Let_def)

theorem oneshot_layer_stuck_when_disabled:
  fixes s :: "'w::len word util_state"
  assumes "layer_state_set_kb c = id" and "unat l < LENGTH('w)"
  shows "unat l \<in> bits_of (layer_state (layers
    (fold (clear_oneshot_layer_state c) cs (oneshot_disable c (set_oneshot_layer c l ONESHOT_START now s)))))"
proof -
  let ?s1 = "set_oneshot_layer c l ONESHOT_START now s"
  have on: "unat l \<in> bits_of (layer_state (layers ?s1))"
    using assms by (simp add: set_oneshot_layer_def Let_def bits_layer_on)
  have "layers (oneshot_disable c ?s1) = layers ?s1 \<and> \<not> oneshot_enable (oneshot_disable c ?s1)"
    by (auto simp: oneshot_disable_def oneshot_set_def emit_def osl_disabled_clear)
  moreover have "layers (fold (clear_oneshot_layer_state c) cs t) = layers t" if "\<not> oneshot_enable t" for t
    using that by (induction cs arbitrary: t) (simp_all add: osl_disabled_clear)
  ultimately show ?thesis using on by simp
qed

theorem oneshot_layer_stuck_when_disabled_witness:
  "unat (2 :: u8) \<in> bits_of (layer_state (layers
    (fold (clear_oneshot_layer_state demo_util) [ONESHOT_PRESSED, ONESHOT_OTHER_KEY_PRESSED]
      (oneshot_disable demo_util (set_oneshot_layer demo_util 2 ONESHOT_START 7 (demo_state True))))))"
  by (rule oneshot_layer_stuck_when_disabled) (simp_all add: demo_util_def)

section \<open>One-shot swap hands\<close>

datatype swap_event = SetSwap u16 | ReleaseSwap | UseSwap | ClearSwap

fun swap_step :: "'w util_cfg \<Rightarrow> swap_event \<Rightarrow> 'w util_state \<Rightarrow> 'w util_state" where
  "swap_step c (SetSwap now) s = set_oneshot_swaphands c now s"
| "swap_step c ReleaseSwap s = release_oneshot_swaphands c s"
| "swap_step c UseSwap s = use_oneshot_swaphands c s"
| "swap_step c ClearSwap s = clear_oneshot_swaphands c s"

lemma swap_codes:
  "swap_hands_oneshot (swap_step c e s) = (case e of
     SetSwap _ \<Rightarrow> SHO_PRESSED | ClearSwap \<Rightarrow> SHO_OFF
   | ReleaseSwap \<Rightarrow> (case swap_hands_oneshot s of SHO_PRESSED \<Rightarrow> SHO_ACTIVE | SHO_USED \<Rightarrow> SHO_OFF | st \<Rightarrow> st)
   | UseSwap \<Rightarrow> (case swap_hands_oneshot s of SHO_PRESSED \<Rightarrow> SHO_USED | SHO_ACTIVE \<Rightarrow> SHO_OFF | st \<Rightarrow> st))"
  "swap_hands (swap_step c e s) \<longleftrightarrow> (case e of SetSwap _ \<Rightarrow> True | ClearSwap \<Rightarrow> False
   | ReleaseSwap \<Rightarrow> swap_hands s \<and> swap_hands_oneshot s \<noteq> SHO_USED
   | UseSwap \<Rightarrow> swap_hands s \<and> swap_hands_oneshot s \<noteq> SHO_ACTIVE)"
  by (cases e; cases "swap_hands_oneshot s"; simp add: set_oneshot_swaphands_def release_oneshot_swaphands_def
      use_oneshot_swaphands_def clear_oneshot_swaphands_def Let_def)+

text \<open>
  Whatever order the swap-hands key and the other keys come in, the hands are swapped exactly
  while the state machine is not off; and a tap of the swap key followed by one key swaps that key
  only, as does holding it.
\<close>

theorem swaphands_invariant:
  assumes "swap_hands s \<longleftrightarrow> swap_hands_oneshot s \<noteq> SHO_OFF"
  shows "(swap_hands (fold (swap_step c) es s) \<longleftrightarrow> swap_hands_oneshot (fold (swap_step c) es s) \<noteq> SHO_OFF)
    \<and> swap_hands_oneshot (fold (swap_step c) [SetSwap now, ReleaseSwap, UseSwap] s) = SHO_OFF
    \<and> swap_hands_oneshot (fold (swap_step c) [SetSwap now, UseSwap, UseSwap, ReleaseSwap] s) = SHO_OFF"
proof -
  have "swap_hands (fold (swap_step c) es s) \<longleftrightarrow> swap_hands_oneshot (fold (swap_step c) es s) \<noteq> SHO_OFF"
    using assms by (induction es arbitrary: s) (simp_all add: swap_codes split: swap_event.split swap_hands_state.split)
  then show ?thesis by (simp add: swap_codes del: swap_step.simps)
qed

theorem swaphands_invariant_witness:
  "swap_hands (fold (swap_step demo_util) [SetSwap 3, UseSwap] (demo_state True))
    \<longleftrightarrow> swap_hands_oneshot (fold (swap_step demo_util) [SetSwap 3, UseSwap] (demo_state True)) \<noteq> SHO_OFF"
  using swaphands_invariant [of "demo_state True" demo_util "[SetSwap 3, UseSwap]"] by (simp add: demo_state_def)

end
