(* ===== verification/ActionCode.thy ===== *)
theory ActionCode
  imports Keyevent
begin

text \<open>
  The action codes of quantum/action_code.h: a 16-bit code is a kind in its upper four bits and
  parameters below, which the union \<open>action_t\<close> reads through bit fields (allocated from the least
  significant bit, as the header says of avr-gcc and as ARM does). The keycode ranges are those of
  quantum/keycodes.h.
\<close>

section \<open>Keycodes\<close>

definition KC_LEFT_CTRL :: u8 where "KC_LEFT_CTRL = 0xE0"
definition KC_RIGHT_GUI :: u8 where "KC_RIGHT_GUI = 0xE7"
definition KC_CAPS_LOCK :: u8 where "KC_CAPS_LOCK = 0x39"

definition IS_BASIC_KEYCODE :: "u8 \<Rightarrow> bool" where
  "IS_BASIC_KEYCODE code \<longleftrightarrow> 0x04 \<le> code \<and> code \<le> 0xA4"

definition IS_SYSTEM_KEYCODE :: "u8 \<Rightarrow> bool" where
  "IS_SYSTEM_KEYCODE code \<longleftrightarrow> 0xA5 \<le> code \<and> code \<le> 0xA7"

definition IS_CONSUMER_KEYCODE :: "u8 \<Rightarrow> bool" where
  "IS_CONSUMER_KEYCODE code \<longleftrightarrow> 0xA8 \<le> code \<and> code \<le> 0xC2"

definition IS_MOUSE_KEYCODE :: "u8 \<Rightarrow> bool" where
  "IS_MOUSE_KEYCODE code \<longleftrightarrow> 0xCD \<le> code \<and> code \<le> 0xDF"

definition IS_MODIFIER_KEYCODE :: "u8 \<Rightarrow> bool" where
  "IS_MODIFIER_KEYCODE code \<longleftrightarrow> KC_LEFT_CTRL \<le> code \<and> code \<le> KC_RIGHT_GUI"

definition MOD_BIT :: "u8 \<Rightarrow> u8" where
  "MOD_BIT code = push_bit (unat (code AND 0x07)) 1"

section \<open>Kinds\<close>

datatype action_kind_id =
    ACT_LMODS | ACT_RMODS | ACT_LMODS_TAP | ACT_RMODS_TAP
  | ACT_USAGE | ACT_MOUSEKEY | ACT_SWAP_HANDS
  | ACT_LAYER | ACT_LAYER_MODS | ACT_LAYER_TAP | ACT_LAYER_TAP_EXT
  | ACT_RESERVED

fun action_kind_code :: "action_kind_id \<Rightarrow> u16" where
  "action_kind_code ACT_LMODS = 0b0000"
| "action_kind_code ACT_RMODS = 0b0001"
| "action_kind_code ACT_LMODS_TAP = 0b0010"
| "action_kind_code ACT_RMODS_TAP = 0b0011"
| "action_kind_code ACT_USAGE = 0b0100"
| "action_kind_code ACT_MOUSEKEY = 0b0101"
| "action_kind_code ACT_SWAP_HANDS = 0b0110"
| "action_kind_code ACT_LAYER = 0b1000"
| "action_kind_code ACT_LAYER_MODS = 0b1001"
| "action_kind_code ACT_LAYER_TAP = 0b1010"
| "action_kind_code ACT_LAYER_TAP_EXT = 0b1011"
| "action_kind_code ACT_RESERVED = 0b0111"

text \<open>\<open>action.kind.id\<close>; the ids without a name (0111 and 11xx) are one value.\<close>

definition kind_id :: "u16 \<Rightarrow> action_kind_id" where
  "kind_id action =
     (let k = drop_bit 12 action in
      if k = 0b0000 then ACT_LMODS else if k = 0b0001 then ACT_RMODS
      else if k = 0b0010 then ACT_LMODS_TAP else if k = 0b0011 then ACT_RMODS_TAP
      else if k = 0b0100 then ACT_USAGE else if k = 0b0101 then ACT_MOUSEKEY
      else if k = 0b0110 then ACT_SWAP_HANDS else if k = 0b1000 then ACT_LAYER
      else if k = 0b1001 then ACT_LAYER_MODS else if k = 0b1010 then ACT_LAYER_TAP
      else if k = 0b1011 then ACT_LAYER_TAP_EXT else ACT_RESERVED)"

section \<open>Fields\<close>

text \<open>\<open>action.key.code\<close>, \<open>action.layer_tap.code\<close> and \<open>action.swap.code\<close> are the same eight bits.\<close>

definition code_of :: "u16 \<Rightarrow> u8" where
  "code_of action = ucast action"

definition key_mods :: "u16 \<Rightarrow> u8" where
  "key_mods action = ucast (drop_bit 8 action AND 0xF)"

definition layer_bitop_bits :: "u16 \<Rightarrow> u8" where
  "layer_bitop_bits action = ucast (action AND 0xF)"

definition layer_bitop_xbit :: "u16 \<Rightarrow> bool" where
  "layer_bitop_xbit action \<longleftrightarrow> bit action 4"

definition layer_bitop_part :: "u16 \<Rightarrow> u8" where
  "layer_bitop_part action = ucast (drop_bit 5 action AND 0x7)"

definition layer_bitop_on :: "u16 \<Rightarrow> u8" where
  "layer_bitop_on action = ucast (drop_bit 8 action AND 0x3)"

definition layer_bitop_op :: "u16 \<Rightarrow> u8" where
  "layer_bitop_op action = ucast (drop_bit 10 action AND 0x3)"

definition layer_mods_mods :: "u16 \<Rightarrow> u8" where
  "layer_mods_mods action = ucast action"

definition layer_mods_layer :: "u16 \<Rightarrow> u8" where
  "layer_mods_layer action = ucast (drop_bit 8 action AND 0xF)"

definition layer_tap_val :: "u16 \<Rightarrow> u8" where
  "layer_tap_val action = ucast (drop_bit 8 action AND 0x1F)"

definition usage_code :: "u16 \<Rightarrow> u16" where
  "usage_code action = action AND 0x3FF"

definition usage_page :: "u16 \<Rightarrow> u8" where
  "usage_page action = ucast (drop_bit 10 action AND 0x3)"

section \<open>Codes of the parameters\<close>

definition MODS_ONESHOT :: u8 where "MODS_ONESHOT = 0x00"
definition MODS_TAP_TOGGLE :: u8 where "MODS_TAP_TOGGLE = 0x01"
definition PAGE_SYSTEM :: u8 where "PAGE_SYSTEM = 0"
definition PAGE_CONSUMER :: u8 where "PAGE_CONSUMER = 1"
definition ON_PRESS :: u8 where "ON_PRESS = 1"
definition ON_RELEASE :: u8 where "ON_RELEASE = 2"
definition OP_BIT_AND :: u8 where "OP_BIT_AND = 0"
definition OP_BIT_OR :: u8 where "OP_BIT_OR = 1"
definition OP_BIT_XOR :: u8 where "OP_BIT_XOR = 2"
definition OP_BIT_SET :: u8 where "OP_BIT_SET = 3"
definition OP_TAP_TOGGLE :: u8 where "OP_TAP_TOGGLE = 0xF0"
definition OP_ON_OFF :: u8 where "OP_ON_OFF = 0xF1"
definition OP_OFF_ON :: u8 where "OP_OFF_ON = 0xF2"
definition OP_SET_CLEAR :: u8 where "OP_SET_CLEAR = 0xF3"
definition OP_ONESHOT :: u8 where "OP_ONESHOT = 0xF4"
definition OP_SH_TOGGLE :: u8 where "OP_SH_TOGGLE = 0xF0"
definition OP_SH_TAP_TOGGLE :: u8 where "OP_SH_TAP_TOGGLE = 0xF1"
definition OP_SH_ON_OFF :: u8 where "OP_SH_ON_OFF = 0xF2"
definition OP_SH_OFF_ON :: u8 where "OP_SH_OFF_ON = 0xF3"
definition OP_SH_OFF :: u8 where "OP_SH_OFF = 0xF4"
definition OP_SH_ON :: u8 where "OP_SH_ON = 0xF5"
definition OP_SH_ONESHOT :: u8 where "OP_SH_ONESHOT = 0xF6"

lemmas op_codes = OP_TAP_TOGGLE_def OP_ON_OFF_def OP_OFF_ON_def OP_SET_CLEAR_def OP_ONESHOT_def
lemmas sh_codes = OP_SH_TOGGLE_def OP_SH_TAP_TOGGLE_def OP_SH_ON_OFF_def OP_SH_OFF_ON_def OP_SH_OFF_def
  OP_SH_ON_def OP_SH_ONESHOT_def

section \<open>Making action codes\<close>

definition ACTION :: "action_kind_id \<Rightarrow> u16 \<Rightarrow> u16" where
  "ACTION kind param = push_bit 12 (action_kind_code kind) OR param"

definition ACTION_MODS_KEY :: "u16 \<Rightarrow> u16 \<Rightarrow> u16" where
  "ACTION_MODS_KEY mods kc = ACTION ACT_LMODS (push_bit 8 (mods AND 0x1f) OR kc)"

definition ACTION_MODS_TAP_KEY :: "u16 \<Rightarrow> u16 \<Rightarrow> u16" where
  "ACTION_MODS_TAP_KEY mods kc = ACTION ACT_LMODS_TAP (push_bit 8 (mods AND 0x1f) OR kc)"

definition ACTION_LAYER_TAP :: "u16 \<Rightarrow> u16 \<Rightarrow> u16" where
  "ACTION_LAYER_TAP layer kc = ACTION ACT_LAYER_TAP (push_bit 8 layer OR kc)"

section \<open>Which actions have a tap behaviour\<close>

text \<open>\<open>is_tap_action\<close> of quantum/action.c.\<close>

definition is_tap_action :: "u16 \<Rightarrow> bool" where
  "is_tap_action action =
     (case kind_id action of
        ACT_LMODS_TAP \<Rightarrow> code_of action \<le> KC_RIGHT_GUI \<or> code_of action = OP_TAP_TOGGLE \<or> code_of action = OP_ONESHOT
      | ACT_RMODS_TAP \<Rightarrow> code_of action \<le> KC_RIGHT_GUI \<or> code_of action = OP_TAP_TOGGLE \<or> code_of action = OP_ONESHOT
      | ACT_LAYER_TAP \<Rightarrow> code_of action \<le> KC_RIGHT_GUI \<or> code_of action = OP_TAP_TOGGLE \<or> code_of action = OP_ONESHOT
      | ACT_LAYER_TAP_EXT \<Rightarrow> code_of action \<le> KC_RIGHT_GUI \<or> code_of action = OP_TAP_TOGGLE \<or> code_of action = OP_ONESHOT
      | ACT_SWAP_HANDS \<Rightarrow> code_of action \<le> KC_RIGHT_GUI \<or> code_of action = OP_SH_TAP_TOGGLE
      | _ \<Rightarrow> False)"

section \<open>The fields of a made code\<close>

lemma no_high_bits:
  fixes x :: "'a::len word"
  assumes "x < 2 ^ n" and "n < LENGTH('a)" and "n \<le> i"
  shows "\<not> bit x i"
proof -
  have "uint x < 2 ^ n"
    using assms(1,2) word_2p_lem [of n x] by (simp add: word_size)
  then have "int (unat x) < int (2 ^ n)" by simp
  then have "unat x < 2 ^ n" by (simp only: of_nat_less_iff)
  then show ?thesis using less_exp_no_bit assms(3) by blast
qed

lemma drop_8_make:
  assumes "kc < (256 :: u16)"
  shows "drop_bit 8 (push_bit 12 k OR (push_bit 8 a OR kc)) = take_bit 8 (push_bit 4 k OR a)"
proof (rule bit_word_eqI)
  fix n assume "n < LENGTH(16)"
  moreover have "\<not> bit kc (8 + n)"
    using no_high_bits [of kc 8 "8 + n"] assms by simp
  ultimately show "bit (drop_bit 8 (push_bit 12 k OR (push_bit 8 a OR kc))) n \<longleftrightarrow> bit (take_bit 8 (push_bit 4 k OR a)) n"
    by (auto simp: bit_simps dest: bit_imp_le_length)
qed

lemma code_of_make:
  "code_of (push_bit 12 k OR (push_bit 8 a OR kc)) = ucast kc"
  unfolding code_of_def by (rule bit_word_eqI) (auto simp: bit_simps)

lemma drop_12: "drop_bit 12 (x :: u16) = drop_bit 4 (drop_bit 8 x)"
  by simp

lemma below_32_cases: "P a" if "a < (32 :: u16)" and "\<forall>n\<in>set [0..<32]. P (of_nat n)" for a
proof -
  have "unat a \<in> set [0..<32]" using that(1) by (simp add: word_less_nat_alt)
  then have "P (of_nat (unat a))" using that(2) by blast
  then show ?thesis by simp
qed

lemmas made_fields = kind_id_def drop_12 key_mods_def layer_tap_val_def code_of_make

lemma mods_fields:
  assumes "mods < (32 :: u16)" and "kc < 256"
  shows "kind_id (ACTION_MODS_KEY mods kc) = (if bit mods 4 then ACT_RMODS else ACT_LMODS)"
    and "kind_id (ACTION_MODS_TAP_KEY mods kc) = (if bit mods 4 then ACT_RMODS_TAP else ACT_LMODS_TAP)"
    and "key_mods (ACTION_MODS_KEY mods kc) = ucast (mods AND 0xF)"
    and "key_mods (ACTION_MODS_TAP_KEY mods kc) = ucast (mods AND 0xF)"
  unfolding ACTION_MODS_KEY_def ACTION_MODS_TAP_KEY_def ACTION_def made_fields drop_8_make [OF assms(2)]
    action_kind_code.simps
  by (rule below_32_cases [OF assms(1)], code_simp)+

lemma layer_fields:
  assumes "layer < (32 :: u16)" and "kc < 256"
  shows "kind_id (ACTION_LAYER_TAP layer kc) = (if layer < 16 then ACT_LAYER_TAP else ACT_LAYER_TAP_EXT)"
    and "layer_tap_val (ACTION_LAYER_TAP layer kc) = ucast layer"
  unfolding ACTION_LAYER_TAP_def ACTION_def made_fields drop_8_make [OF assms(2)] action_kind_code.simps
  by (rule below_32_cases [OF assms(1)], code_simp)+

end
