(* ===== verification/Tapping.thy ===== *)
theory Tapping
  imports ActionCode
begin

text \<open>
  The tap-hold state machine of quantum/action_tapping.c, for the build without combos, repeat key
  and retro shift (where \<open>MAYBE_RETRO_SHIFTING\<close> and \<open>TAP_GET_RETRO_TAPPING\<close> are false). The machine
  works over an environment of type \<open>'e\<close>, the rest of the firmware: \<open>tapping_cfg\<close> holds the functions of
  quantum/action.c, action_layer.c and the keymap that it calls. The build options
  TAPPING_TERM_PER_KEY, PERMISSIVE_HOLD and the like are choices of these functions.
\<close>

section \<open>State\<close>

record tap_t =
  interrupted :: bool
  tap_count :: "4 word"

record keyrecord =
  event :: keyevent
  tap :: tap_t

definition no_tap :: tap_t where
  "no_tap = \<lparr>interrupted = False, tap_count = 0\<rparr>"

text \<open>\<open>(keyrecord_t){0}\<close>; the event type 0 is TICK_EVENT.\<close>

definition no_record :: keyrecord where
  "no_record = \<lparr>event = MAKE_EVENT 0 0 False TICK_EVENT 0, tap = no_tap\<rparr>"

definition WAITING_BUFFER_SIZE :: nat where
  "WAITING_BUFFER_SIZE = 8"

record 'e tapping_cfg =
  GET_TAPPING_TERM :: "keyrecord \<Rightarrow> 'e \<Rightarrow> u16"
  GET_QUICK_TAP_TERM :: "keyrecord \<Rightarrow> 'e \<Rightarrow> u16"
  TAP_GET_PERMISSIVE_HOLD :: "keyrecord \<Rightarrow> 'e \<Rightarrow> bool"
  TAP_GET_HOLD_ON_OTHER_KEY_PRESS :: "keyrecord \<Rightarrow> 'e \<Rightarrow> bool"
  is_tap_record :: "keyrecord \<Rightarrow> 'e \<Rightarrow> bool"
  get_action :: "keypos \<Rightarrow> 'e \<Rightarrow> u16"
  process_record :: "keyrecord \<Rightarrow> 'e \<Rightarrow> keyrecord \<times> 'e"
  process_record_tap_hint :: "keyrecord \<Rightarrow> 'e \<Rightarrow> 'e"
  clear_keyboard :: "'e \<Rightarrow> 'e"

record 'e tapping =
  tapping_key :: keyrecord
  waiting_buffer :: "keyrecord list"
  waiting_buffer_head :: nat
  waiting_buffer_tail :: nat
  env :: 'e

definition tapping_init :: "'e \<Rightarrow> 'e tapping" where
  "tapping_init e = \<lparr>tapping_key = no_record, waiting_buffer = replicate WAITING_BUFFER_SIZE no_record,
     waiting_buffer_head = 0, waiting_buffer_tail = 0, env = e\<rparr>"

section \<open>Tests\<close>

definition IS_TAPPING_RECORD :: "keyrecord \<Rightarrow> 'e tapping \<Rightarrow> bool" where
  "IS_TAPPING_RECORD r s \<longleftrightarrow> KEYEQ (key (event (tapping_key s))) (key (event r))"

definition WITHIN_TAPPING_TERM :: "'e tapping_cfg \<Rightarrow> keyevent \<Rightarrow> 'e tapping \<Rightarrow> bool" where
  "WITHIN_TAPPING_TERM c e s \<longleftrightarrow>
     TIMER_DIFF_16 (time e) (time (event (tapping_key s))) < GET_TAPPING_TERM c (tapping_key s) (env s)"

definition WITHIN_QUICK_TAP_TERM :: "'e tapping_cfg \<Rightarrow> keyevent \<Rightarrow> 'e tapping \<Rightarrow> bool" where
  "WITHIN_QUICK_TAP_TERM c e s \<longleftrightarrow>
     TIMER_DIFF_16 (time e) (time (event (tapping_key s))) < GET_QUICK_TAP_TERM c (tapping_key s) (env s)"

section \<open>The waiting buffer\<close>

text \<open>The indices the loops \<open>for (i = tail; i != head; i = (i + 1) % SIZE)\<close> visit.\<close>

definition waiting_slots :: "'e tapping \<Rightarrow> nat list" where
  "waiting_slots s = map (\<lambda>k. (waiting_buffer_tail s + k) mod WAITING_BUFFER_SIZE)
     [0..<(waiting_buffer_head s + WAITING_BUFFER_SIZE - waiting_buffer_tail s) mod WAITING_BUFFER_SIZE]"

definition waiting_buffer_enq :: "keyrecord \<Rightarrow> 'e tapping \<Rightarrow> bool \<times> 'e tapping" where
  "waiting_buffer_enq r s =
     (if IS_NOEVENT (event r) then (True, s)
      else if (waiting_buffer_head s + 1) mod WAITING_BUFFER_SIZE = waiting_buffer_tail s then (False, s)
      else (True, s\<lparr>waiting_buffer := (waiting_buffer s)[waiting_buffer_head s := r],
                    waiting_buffer_head := (waiting_buffer_head s + 1) mod WAITING_BUFFER_SIZE\<rparr>))"

definition waiting_buffer_clear :: "'e tapping \<Rightarrow> 'e tapping" where
  "waiting_buffer_clear s = s\<lparr>waiting_buffer_head := 0, waiting_buffer_tail := 0\<rparr>"

definition waiting_buffer_typed :: "keyevent \<Rightarrow> 'e tapping \<Rightarrow> bool" where
  "waiting_buffer_typed e s \<longleftrightarrow>
     list_ex (\<lambda>i. KEYEQ (key e) (key (event (waiting_buffer s ! i)))
        \<and> pressed e \<noteq> pressed (event (waiting_buffer s ! i))) (waiting_slots s)"

definition waiting_buffer_has_anykey_pressed :: "'e tapping \<Rightarrow> bool" where
  "waiting_buffer_has_anykey_pressed s \<longleftrightarrow>
     list_ex (\<lambda>i. pressed (event (waiting_buffer s ! i))) (waiting_slots s)"

section \<open>Passing records on\<close>

text \<open>\<open>process_record\<close> takes a pointer and may change the record.\<close>

definition process :: "'e tapping_cfg \<Rightarrow> keyrecord \<Rightarrow> 'e tapping \<Rightarrow> keyrecord \<times> 'e tapping" where
  "process c r s = (case process_record c r (env s) of (r, e) \<Rightarrow> (r, s\<lparr>env := e\<rparr>))"

definition process_tapping_key :: "'e tapping_cfg \<Rightarrow> 'e tapping \<Rightarrow> 'e tapping" where
  "process_tapping_key c s = (case process c (tapping_key s) s of (r, s) \<Rightarrow> s\<lparr>tapping_key := r\<rparr>)"

definition set_count :: "4 word \<Rightarrow> keyrecord \<Rightarrow> keyrecord" where
  "set_count n r = r\<lparr>tap := (tap r)\<lparr>tap_count := n\<rparr>\<rparr>"

definition set_interrupted :: "keyrecord \<Rightarrow> keyrecord" where
  "set_interrupted r = r\<lparr>tap := (tap r)\<lparr>interrupted := True\<rparr>\<rparr>"

text \<open>The release of a tap key that has been tapped more than once and is pressed again.\<close>

definition release_last_tap :: "keyevent \<Rightarrow> keyrecord \<Rightarrow> keyrecord" where
  "release_last_tap e t =
     \<lparr>event = \<lparr>key = key (event t), time = time e, event_type = event_type (event t), pressed = False\<rparr>, tap = tap t\<rparr>"

definition waiting_buffer_scan_tap :: "'e tapping_cfg \<Rightarrow> 'e tapping \<Rightarrow> 'e tapping" where
  "waiting_buffer_scan_tap c s =
     (if 0 < tap_count (tap (tapping_key s)) \<or> \<not> pressed (event (tapping_key s)) then s
      else case find (\<lambda>i. let candidate = waiting_buffer s ! i
                          in IS_EVENT (event candidate)
                             \<and> KEYEQ (key (event candidate)) (key (event (tapping_key s)))
                             \<and> \<not> pressed (event candidate)
                             \<and> WITHIN_TAPPING_TERM c (event candidate) s) (waiting_slots s) of
             None \<Rightarrow> s
           | Some i \<Rightarrow>
               process_tapping_key c
                 (s\<lparr>tapping_key := set_count 1 (tapping_key s),
                    waiting_buffer := (waiting_buffer s)[i := set_count 1 (waiting_buffer s ! i)]\<rparr>))"

section \<open>The state machine\<close>

text \<open>
  \<open>process_tapping\<close> gets its record through a pointer to the caller's copy or to the slot at the
  tail of the buffer; here it is passed by value and returned, and the caller stores it back. The
  only other access to that slot is by \<open>waiting_buffer_scan_tap\<close>, which runs after the last use of
  the pointer, for a pressed record, and changes only released ones.
  Each result is whether the event is processed or consumed, the record and the state.
\<close>

type_synonym 'e handled = "bool \<times> keyrecord \<times> 'e tapping"

definition start_tapping :: "'e tapping_cfg \<Rightarrow> keyrecord \<Rightarrow> 'e tapping \<Rightarrow> 'e handled" where
  "start_tapping c r s = (True, r, waiting_buffer_scan_tap c (s\<lparr>tapping_key := r\<rparr>))"

definition pass_on :: "'e tapping_cfg \<Rightarrow> keyrecord \<Rightarrow> 'e tapping \<Rightarrow> 'e handled" where
  "pass_on c r s = (case process c r s of (r, s) \<Rightarrow> (True, r, s))"

definition end_tapping :: "'e tapping_cfg \<Rightarrow> keyrecord \<Rightarrow> 'e tapping \<Rightarrow> 'e handled" where
  "end_tapping c r s = (False, r, (process_tapping_key c s)\<lparr>tapping_key := no_record\<rparr>)"

definition tapping_reset :: "'e tapping_cfg \<Rightarrow> keyrecord \<Rightarrow> 'e tapping \<Rightarrow> 'e handled" where
  "tapping_reset c r s =
     (if \<not> IS_EVENT (event r) then (True, r, s)
      else if pressed (event r) \<and> is_tap_record c r (env s)
      then let s = s\<lparr>tapping_key := r\<rparr>;
               s = s\<lparr>env := process_record_tap_hint c (tapping_key s) (env s)\<rparr>
           in (True, r, waiting_buffer_scan_tap c s)
      else pass_on c r s)"

text \<open>Whether the release of a key pressed before the tap key waits for the end of the tapping.\<close>

definition retained :: "keyrecord \<Rightarrow> u16 \<Rightarrow> bool" where
  "retained r action =
     (let code = code_of action; mods = key_mods action
      in case kind_id action of
           ACT_LMODS \<Rightarrow> mods \<noteq> 0 \<and> code = 0 \<or> IS_MODIFIER_KEYCODE code
         | ACT_RMODS \<Rightarrow> mods \<noteq> 0 \<and> code = 0 \<or> IS_MODIFIER_KEYCODE code
         | ACT_LMODS_TAP \<Rightarrow> mods \<noteq> 0 \<and> tap_count (tap r) = 0 \<or> IS_MODIFIER_KEYCODE code
         | ACT_RMODS_TAP \<Rightarrow> mods \<noteq> 0 \<and> tap_count (tap r) = 0 \<or> IS_MODIFIER_KEYCODE code
         | ACT_LAYER_TAP \<Rightarrow> code \<le> OP_TAP_TOGGLE - 1 \<or> code = OP_ON_OFF \<or> code = OP_OFF_ON \<or> code = OP_SET_CLEAR
         | ACT_LAYER_TAP_EXT \<Rightarrow> code \<le> OP_TAP_TOGGLE - 1 \<or> code = OP_ON_OFF \<or> code = OP_OFF_ON \<or> code = OP_SET_CLEAR
         | _ \<Rightarrow> False)"

text \<open>The tap key is down, within its term, and not yet a tap.\<close>

definition tapping_undecided :: "'e tapping_cfg \<Rightarrow> keyrecord \<Rightarrow> 'e tapping \<Rightarrow> 'e handled" where
  "tapping_undecided c r s =
     (let e = event r
      in if IS_TAPPING_RECORD r s \<and> \<not> pressed e
         then let s = process_tapping_key c (s\<lparr>tapping_key := set_count 1 (tapping_key s)\<rparr>)
              in (False, r\<lparr>tap := tap (tapping_key s)\<rparr>, s)
         else if \<not> pressed e \<and> waiting_buffer_typed e s \<and> TAP_GET_PERMISSIVE_HOLD c (tapping_key s) (env s)
         then end_tapping c r s
         else if \<not> pressed e \<and> \<not> waiting_buffer_typed e s
         then if retained r (get_action c (key e) (env s)) then (False, r, s)
              else pass_on c r s
         else if pressed e
         then let s = s\<lparr>tapping_key := set_interrupted (tapping_key s)\<rparr>
              in if TAP_GET_HOLD_ON_OTHER_KEY_PRESS c (tapping_key s) (env s) then end_tapping c r s
                 else (False, r, s)
         else (False, r, s))"

text \<open>Another tap key is pressed while the last tap is still down.\<close>

definition tapping_restart :: "'e tapping_cfg \<Rightarrow> keyrecord \<Rightarrow> 'e tapping \<Rightarrow> 'e handled" where
  "tapping_restart c r s =
     start_tapping c r
       (if 1 < tap_count (tap (tapping_key s))
        then snd (process c (release_last_tap (event r) (tapping_key s)) s) else s)"

text \<open>The tap key is down and a tap, within its term.\<close>

definition tapping_tapped :: "'e tapping_cfg \<Rightarrow> keyrecord \<Rightarrow> 'e tapping \<Rightarrow> 'e handled" where
  "tapping_tapped c r s =
     (let e = event r
      in if IS_TAPPING_RECORD r s \<and> \<not> pressed e
         then case process c (r\<lparr>tap := tap (tapping_key s)\<rparr>) s of (r, s) \<Rightarrow> (True, r, s\<lparr>tapping_key := r\<rparr>)
         else if is_tap_record c r (env s) \<and> pressed e then tapping_restart c r s
         else pass_on c r s)"

text \<open>The tap key is down and its term is over.\<close>

definition tapping_timeout :: "'e tapping_cfg \<Rightarrow> keyrecord \<Rightarrow> 'e tapping \<Rightarrow> 'e handled" where
  "tapping_timeout c r s =
     (let e = event r
      in if tap_count (tap (tapping_key s)) = 0 then end_tapping c r s
         else if IS_NOEVENT e then (True, r, s)
         else if IS_TAPPING_RECORD r s \<and> \<not> pressed e
         then case process c (r\<lparr>tap := tap (tapping_key s)\<rparr>) s of (r, s) \<Rightarrow> (True, r, s\<lparr>tapping_key := no_record\<rparr>)
         else if is_tap_record c r (env s) \<and> pressed e then tapping_restart c r s
         else pass_on c r s)"

text \<open>The tap key has been released.\<close>

definition tapping_released :: "'e tapping_cfg \<Rightarrow> keyrecord \<Rightarrow> 'e tapping \<Rightarrow> 'e handled" where
  "tapping_released c r s =
     (let e = event r; t = tap (tapping_key s)
      in if \<not> WITHIN_TAPPING_TERM c e s then (False, r, s\<lparr>tapping_key := no_record\<rparr>)
         else if IS_NOEVENT e then (True, r, s)
         else if pressed e
         then if IS_TAPPING_RECORD r s
              then if WITHIN_QUICK_TAP_TERM c e s \<and> \<not> interrupted t \<and> 0 < tap_count t
                   then let r = r\<lparr>tap := t\<rparr>;
                            r = (if tap_count (tap r) < 15 then set_count (tap_count (tap r) + 1) r else r)
                        in case process c r s of (r, s) \<Rightarrow> (True, r, s\<lparr>tapping_key := r\<rparr>)
                   else (True, r, s\<lparr>tapping_key := r\<rparr>)
              else if is_tap_record c r (env s) then start_tapping c r s
              else pass_on c r (s\<lparr>tapping_key := set_interrupted (tapping_key s)\<rparr>)
         else pass_on c r s)"

definition process_tapping :: "'e tapping_cfg \<Rightarrow> keyrecord \<Rightarrow> 'e tapping \<Rightarrow> 'e handled" where
  "process_tapping c r s =
     (if IS_NOEVENT (event (tapping_key s)) then tapping_reset c r s
      else if pressed (event (tapping_key s))
      then if WITHIN_TAPPING_TERM c (event r) s
           then if IS_NOEVENT (event r) then (True, r, s)
                else if tap_count (tap (tapping_key s)) = 0 then tapping_undecided c r s
                else tapping_tapped c r s
           else tapping_timeout c r s
      else tapping_released c r s)"

section \<open>Entry\<close>

text \<open>The loop over the waiting buffer; nothing in it says that it ends.\<close>

partial_function (option) drain :: "'e tapping_cfg \<Rightarrow> 'e tapping \<Rightarrow> 'e tapping option" where
  "drain c s =
     (if waiting_buffer_tail s = waiting_buffer_head s then Some s
      else case process_tapping c (waiting_buffer s ! waiting_buffer_tail s) s of (processed, r, s') \<Rightarrow>
             let s' = s'\<lparr>waiting_buffer := (waiting_buffer s')[waiting_buffer_tail s' := r]\<rparr>
             in if processed
                then drain c (s'\<lparr>waiting_buffer_tail := (waiting_buffer_tail s' + 1) mod WAITING_BUFFER_SIZE\<rparr>)
                else Some s')"

definition action_tapping_process :: "'e tapping_cfg \<Rightarrow> keyrecord \<Rightarrow> 'e tapping \<Rightarrow> 'e tapping option" where
  "action_tapping_process c r s =
     (case process_tapping c r s of (processed, r, s) \<Rightarrow>
        drain c
          (if processed then s
           else case waiting_buffer_enq r s of (enqueued, s) \<Rightarrow>
                  if enqueued then s
                  else (waiting_buffer_clear (s\<lparr>env := clear_keyboard c (env s)\<rparr>))\<lparr>tapping_key := no_record\<rparr>))"

end
