(* ===== verification/TappingProps.thy ===== *)
theory TappingProps
  imports Tapping "HOL-Library.Multiset"
begin

text \<open>
  What the tap-hold state machine guarantees: its loop over the waiting buffer ends, no event is
  lost or doubled unless the buffer overflows, and how a tap key is settled as a tap or a hold.
\<close>

section \<open>The waiting buffer as a queue\<close>

definition tapping_wf :: "'e tapping \<Rightarrow> bool" where
  "tapping_wf s \<longleftrightarrow> length (waiting_buffer s) = WAITING_BUFFER_SIZE
     \<and> waiting_buffer_head s < WAITING_BUFFER_SIZE \<and> waiting_buffer_tail s < WAITING_BUFFER_SIZE"

definition store :: "keyrecord \<Rightarrow> 'e tapping \<Rightarrow> 'e tapping" where
  "store r s = s\<lparr>waiting_buffer := (waiting_buffer s)[waiting_buffer_tail s := r]\<rparr>"

definition advance :: "'e tapping \<Rightarrow> 'e tapping" where
  "advance s = s\<lparr>waiting_buffer_tail := (waiting_buffer_tail s + 1) mod WAITING_BUFFER_SIZE\<rparr>"

lemmas drain_simps = drain.simps [folded store_def, unfolded Let_def, folded advance_def]

text \<open>An operation that leaves the queue alone: the same slots with the same events.\<close>

definition same_queue :: "'e tapping \<Rightarrow> 'e tapping \<Rightarrow> bool" where
  "same_queue s s' \<longleftrightarrow> waiting_buffer_head s' = waiting_buffer_head s
     \<and> waiting_buffer_tail s' = waiting_buffer_tail s
     \<and> map event (waiting_buffer s') = map event (waiting_buffer s)"

lemma same_queue_refl [simp]: "same_queue s s"
  by (simp add: same_queue_def)

lemma same_queue_trans: "same_queue s t \<Longrightarrow> same_queue t u \<Longrightarrow> same_queue s u"
  by (simp add: same_queue_def)

lemma same_queue_update [simp]:
  "same_queue s (t\<lparr>tapping_key := r\<rparr>) = same_queue s t"
  "same_queue s (t\<lparr>env := e\<rparr>) = same_queue s t"
  "same_queue (s\<lparr>tapping_key := r\<rparr>) t = same_queue s t"
  "same_queue (s\<lparr>env := e\<rparr>) t = same_queue s t"
  by (simp_all add: same_queue_def)

lemma event_set_count [simp]: "event (set_count n r) = event r"
  by (simp add: set_count_def)

lemma map_event_update: "event r = event (xs ! i) \<Longrightarrow> map event (xs[i := r]) = map event xs"
  by (metis list_update_beyond list_update_id map_update not_le nth_map)

lemma same_queue_process: "process c r t = (r', t') \<Longrightarrow> same_queue s t' = same_queue s t"
  by (auto simp: process_def split: prod.splits)

lemma same_queue_process_snd [simp]: "same_queue s (snd (process c r t)) = same_queue s t"
  by (metis same_queue_process prod.collapse)

lemma same_queue_process_tapping_key [simp]: "same_queue s (process_tapping_key c t) = same_queue s t"
  by (auto simp: process_tapping_key_def same_queue_process split: prod.splits)

lemma same_queue_slot [simp]:
  "event r = event (waiting_buffer t ! i) \<Longrightarrow>
    same_queue s (t\<lparr>tapping_key := k, waiting_buffer := (waiting_buffer t)[i := r]\<rparr>) = same_queue s t"
  by (simp add: same_queue_def map_event_update)

lemma same_queue_scan [simp]: "same_queue s (waiting_buffer_scan_tap c t) = same_queue s t"
  by (simp add: waiting_buffer_scan_tap_def split: option.split)

lemma same_queue_pass_on: "pass_on c r t = (p, r', t') \<Longrightarrow> same_queue s t' = same_queue s t"
  by (auto simp: pass_on_def same_queue_process split: prod.splits)

lemma same_queue_restart: "tapping_restart c r t = (p, r', t') \<Longrightarrow> same_queue s t' = same_queue s t"
  by (auto simp: tapping_restart_def start_tapping_def split: if_splits)

lemmas machine_defs = process_tapping_def tapping_reset_def tapping_undecided_def tapping_tapped_def
  tapping_timeout_def tapping_released_def end_tapping_def start_tapping_def

lemma same_queue_process_tapping:
  "process_tapping c r s = (p, r', s') \<Longrightarrow> same_queue s s'"
  unfolding machine_defs Let_def
  by (auto simp: same_queue_process same_queue_pass_on same_queue_restart split: if_splits prod.splits)

lemma tapping_wf_same_queue: "same_queue s s' \<Longrightarrow> tapping_wf s \<Longrightarrow> tapping_wf s'"
  by (auto simp: same_queue_def tapping_wf_def dest: map_eq_imp_length_eq)

lemma tapping_wf_store [simp]: "tapping_wf (store r s) = tapping_wf s"
  by (simp add: tapping_wf_def store_def)

lemma tapping_wf_advance: "tapping_wf s \<Longrightarrow> tapping_wf (advance s)"
  by (simp add: tapping_wf_def advance_def WAITING_BUFFER_SIZE_def)

lemma queue_fields_store [simp]:
  "waiting_buffer_tail (store r s) = waiting_buffer_tail s"
  "waiting_buffer_head (store r s) = waiting_buffer_head s"
  "waiting_buffer_head (advance s) = waiting_buffer_head s"
  "waiting_buffer (advance s) = waiting_buffer s"
  "tapping_key (advance s) = tapping_key s" "tapping_key (store r s) = tapping_key s"
  "env (advance s) = env s" "env (store r s) = env s"
  by (simp_all add: store_def advance_def)

lemma ring_distance:
  fixes t h :: nat
  assumes "t < 8" and "h < 8" and "t \<noteq> h"
  shows "(h + 8 - t) mod 8 = Suc ((h + 8 - (t + 1) mod 8) mod 8)"
  using assms by (cases "t = 7") (auto simp: mod_if)

lemma waiting_slots_Cons:
  assumes "tapping_wf s" and "waiting_buffer_tail s \<noteq> waiting_buffer_head s"
  shows "waiting_slots s = waiting_buffer_tail s # waiting_slots (advance s)"
proof -
  have t: "waiting_buffer_tail s < 8" and h: "waiting_buffer_head s < 8"
    using assms(1) by (simp_all add: tapping_wf_def WAITING_BUFFER_SIZE_def)
  show ?thesis
    unfolding waiting_slots_def WAITING_BUFFER_SIZE_def ring_distance [OF t h assms(2)] advance_def
    using t by (simp add: upt_conv_Cons map_Suc_upt [symmetric] mod_simps del: upt_Suc)
qed

lemma waiting_slots_Nil:
  "waiting_buffer_tail s = waiting_buffer_head s \<Longrightarrow> waiting_slots s = []"
  by (simp add: waiting_slots_def)

lemma waiting_slots_same_queue: "same_queue s s' \<Longrightarrow> waiting_slots s' = waiting_slots s"
  by (simp add: same_queue_def waiting_slots_def)

lemma waiting_slots_store [simp]: "waiting_slots (store r s) = waiting_slots s"
  by (simp add: waiting_slots_def)

lemma waiting_slots_less: "i \<in> set (waiting_slots s) \<Longrightarrow> i < WAITING_BUFFER_SIZE"
  by (auto simp: waiting_slots_def WAITING_BUFFER_SIZE_def)

section \<open>The loop ends\<close>

text \<open>The rule for the loop: an invariant that every round keeps holds at its end, and it ends.\<close>

lemma drain_rule:
  assumes "tapping_wf s" and "I s"
    and step: "\<And>s p r s'. tapping_wf s \<Longrightarrow> I s \<Longrightarrow> waiting_buffer_tail s \<noteq> waiting_buffer_head s
        \<Longrightarrow> process_tapping c (waiting_buffer s ! waiting_buffer_tail s) s = (p, r, s')
        \<Longrightarrow> I (if p then advance (store r s') else store r s')"
  shows "\<exists>s'. drain c s = Some s' \<and> tapping_wf s' \<and> I s'"
  using assms(1,2)
proof (induction "length (waiting_slots s)" arbitrary: s rule: less_induct)
  case less
  show ?case
  proof (cases "waiting_buffer_tail s = waiting_buffer_head s")
    case True
    then show ?thesis using less.prems by (simp add: drain_simps)
  next
    case False
    obtain p r s' where p: "process_tapping c (waiting_buffer s ! waiting_buffer_tail s) s = (p, r, s')"
      by (metis prod_cases3)
    note q = same_queue_process_tapping [OF p]
    have wf: "tapping_wf (store r s')" using tapping_wf_same_queue [OF q] less.prems(1) by simp
    have I: "I (if p then advance (store r s') else store r s')"
      by (rule step [OF less.prems False p])
    show ?thesis
    proof (cases p)
      case True
      have "waiting_slots (store r s') = waiting_slots s"
        using waiting_slots_same_queue [OF q] by simp
      moreover have "waiting_buffer_tail (store r s') \<noteq> waiting_buffer_head (store r s')"
        using False q by (simp add: same_queue_def)
      ultimately have "length (waiting_slots (advance (store r s'))) < length (waiting_slots s)"
        using waiting_slots_Cons [OF wf] by (metis length_Cons lessI)
      from less.hyps [OF this tapping_wf_advance [OF wf]] I True
      show ?thesis using False p True by (simp add: drain_simps [of c s])
    next
      case pending: False
      then show ?thesis using False p wf I by (simp add: drain_simps [of c s])
    qed
  qed
qed

section \<open>Where the events are\<close>

text \<open>
  An environment that only notes what the machine calls: the theorems on it say which records the
  machine passes on, for arbitrary decisions of the other functions. The events the machine holds
  back are that of a tap key not yet settled and those in the buffer.
\<close>

datatype call = Processed keyrecord | Hinted keyrecord | Cleared

definition traced :: "call list tapping_cfg \<Rightarrow> call list tapping_cfg" where
  "traced c = c\<lparr>process_record := \<lambda>r tr. (r, tr @ [Processed r]),
     process_record_tap_hint := \<lambda>r tr. tr @ [Hinted r], clear_keyboard := \<lambda>tr. tr @ [Cleared]\<rparr>"

fun handled_event :: "call \<Rightarrow> keyevent list" where
  "handled_event (Processed r) = [event r]"
| "handled_event _ = []"

definition handled :: "call list \<Rightarrow> keyevent list" where
  "handled tr = concat (map handled_event tr)"

definition held :: "'e tapping \<Rightarrow> keyevent list" where
  "held s = (if IS_EVENT (event (tapping_key s)) \<and> pressed (event (tapping_key s)) \<and> tap_count (tap (tapping_key s)) = 0
             then [event (tapping_key s)] else [])"

definition waiting_events :: "'e tapping \<Rightarrow> keyevent list" where
  "waiting_events s = map (\<lambda>i. event (waiting_buffer s ! i)) (waiting_slots s)"

definition arrivals :: "keyrecord \<Rightarrow> keyevent list" where
  "arrivals r = (if IS_EVENT (event r) then [event r] else [])"

fun tap_run :: "'e tapping_cfg \<Rightarrow> keyevent list \<Rightarrow> 'e tapping \<Rightarrow> 'e tapping option" where
  "tap_run c [] s = Some s"
| "tap_run c (e # es) s =
     (case action_tapping_process c \<lparr>event = e, tap = no_tap\<rparr> s of None \<Rightarrow> None | Some s \<Rightarrow> tap_run c es s)"

lemma handled_simps [simp]:
  "handled [] = []" "handled (tr @ tr') = handled tr @ handled tr'"
  "handled [Processed r] = [event r]" "handled [Hinted r] = []" "handled [Cleared] = []"
  by (simp_all add: handled_def)

lemma traced_ops [simp]:
  "process_record (traced c) r tr = (r, tr @ [Processed r])"
  "process_record_tap_hint (traced c) r tr = tr @ [Hinted r]"
  "clear_keyboard (traced c) tr = tr @ [Cleared]"
  by (simp_all add: traced_def)

lemma process_traced [simp]: "process (traced c) r s = (r, s\<lparr>env := env s @ [Processed r]\<rparr>)"
  by (simp add: process_def)

lemma process_tapping_key_traced [simp]:
  "process_tapping_key (traced c) s = s\<lparr>env := env s @ [Processed (tapping_key s)]\<rparr>"
  by (simp add: process_tapping_key_def)

text \<open>The part of the account that \<open>process_tapping\<close> changes.\<close>

definition ledger :: "call list tapping \<Rightarrow> keyevent multiset" where
  "ledger s = mset (handled (env s)) + mset (held s)"

definition uncleared :: "call list tapping \<Rightarrow> bool" where
  "uncleared s \<longleftrightarrow> Cleared \<notin> set (env s)"

lemma held_no_record [simp]: "held (s\<lparr>tapping_key := no_record\<rparr>) = []"
  by (simp add: held_def no_record_def MAKE_EVENT_def IS_EVENT_def)

lemma ledger_env [simp]:
  "ledger (s\<lparr>env := env t @ [Processed r]\<rparr>) = add_mset (event r) (ledger (s\<lparr>env := env t\<rparr>))"
  "ledger (s\<lparr>env := env t @ [Hinted r]\<rparr>) = ledger (s\<lparr>env := env t\<rparr>)"
  by (simp_all add: ledger_def held_def)

lemma uncleared_update [simp]:
  "uncleared (s\<lparr>env := tr @ [Processed r]\<rparr>) = uncleared (s\<lparr>env := tr\<rparr>)"
  "uncleared (s\<lparr>env := tr @ [Hinted r]\<rparr>) = uncleared (s\<lparr>env := tr\<rparr>)"
  "uncleared (s\<lparr>tapping_key := k\<rparr>) = uncleared s"
  "uncleared (s\<lparr>waiting_buffer := b\<rparr>) = uncleared s"
  "uncleared (s\<lparr>env := env s\<rparr>) = uncleared s"
  by (simp_all add: uncleared_def)

lemma tap_count_set [simp]: "tap_count (tap (set_count n r)) = n"
  by (simp add: set_count_def)

lemma scan_traced:
  assumes "IS_EVENT (event (tapping_key s))"
  shows "ledger (waiting_buffer_scan_tap (traced c) s) = ledger s"
    and "uncleared (waiting_buffer_scan_tap (traced c) s) = uncleared s"
  using assms by (auto simp: waiting_buffer_scan_tap_def ledger_def held_def uncleared_def word_gt_0 split: option.split)

text \<open>Equal up to further releases.\<close>

definition same_presses :: "keyevent multiset \<Rightarrow> keyevent multiset \<Rightarrow> bool" where
  "same_presses A B \<longleftrightarrow> A \<subseteq># B \<and> filter_mset pressed A = filter_mset pressed B"

lemma same_presses_refl [simp]: "same_presses A A"
  by (simp add: same_presses_def)

lemma same_presses_trans: "same_presses A B \<Longrightarrow> same_presses B D \<Longrightarrow> same_presses A D"
  by (auto simp: same_presses_def)

lemma same_presses_add: "same_presses A B \<Longrightarrow> same_presses (A + D) (B + D)"
  by (simp add: same_presses_def)

lemma same_presses_release: "\<not> pressed e \<Longrightarrow> same_presses A B \<Longrightarrow> same_presses A (add_mset e B)"
  by (auto simp: same_presses_def intro: subset_mset.order_trans)

lemma not_pressed_release [simp]: "\<not> pressed (event (release_last_tap e t))"
  by (simp add: release_last_tap_def)

lemma event_taps [simp]: "event (set_interrupted r) = event r" "event (r\<lparr>tap := t\<rparr>) = event r"
  "tap_count (tap (set_interrupted r)) = tap_count (tap r)"
  by (simp_all add: set_interrupted_def)

lemma IS_NOEVENT_iff: "IS_NOEVENT e \<longleftrightarrow> \<not> IS_EVENT e"
  by (simp add: IS_NOEVENT_def IS_EVENT_def)

text \<open>Making a record the tapping key.\<close>

lemma ledger_start:
  assumes "held s = []" and "IS_EVENT (event r)" and "pressed (event r)" and "tap_count (tap r) = 0"
  shows "ledger (s\<lparr>tapping_key := r\<rparr>) = add_mset (event r) (ledger s)"
  using assms by (simp add: ledger_def) (simp add: held_def)

lemma restart_traced:
  assumes "tapping_restart (traced c) r s = (p, r', s')"
    and "held s = []" and "IS_EVENT (event r)" and "pressed (event r)" and "tap_count (tap r) = 0"
  shows "p \<and> r' = r \<and> uncleared s' = uncleared s \<and> same_presses (add_mset (event r) (ledger s)) (ledger s')"
proof -
  let ?s = "if 1 < tap_count (tap (tapping_key s))
        then s\<lparr>env := env s @ [Processed (release_last_tap (event r) (tapping_key s))]\<rparr> else s"
  have s': "p" "r' = r" "s' = waiting_buffer_scan_tap (traced c) (?s\<lparr>tapping_key := r\<rparr>)"
    using assms(1) by (auto simp: tapping_restart_def start_tapping_def split: if_splits)
  have "held ?s = []" using assms(2) by (auto simp: held_def split: if_splits)
  then have "ledger s' = add_mset (event r) (ledger ?s)"
    unfolding s'(3) using assms(3-5) by (simp add: scan_traced ledger_start)
  moreover have "uncleared s' = uncleared s"
    unfolding s'(3) using assms(3) by (simp add: scan_traced)
  moreover have "same_presses (ledger s) (ledger ?s)"
    using same_presses_release [OF not_pressed_release same_presses_refl] by simp
  ultimately show ?thesis
    using s' same_presses_add [of "ledger s" "ledger ?s" "{#event r#}"] by simp
qed

text \<open>What a step of the machine does to the account of the record \<open>r\<close> it handles.\<close>

definition accounted ::
  "keyrecord \<Rightarrow> call list tapping \<Rightarrow> bool \<times> keyrecord \<times> call list tapping \<Rightarrow> bool" where
  "accounted r s res \<longleftrightarrow> (case res of (p, r', s') \<Rightarrow>
     event r' = event r \<and> (pressed (event r) \<and> \<not> p \<longrightarrow> tap r' = tap r) \<and> uncleared s' = uncleared s
     \<and> same_presses (ledger s + mset (arrivals r)) (ledger s' + (if p then {#} else mset (arrivals r))))"

lemma accounted_simp [simp]:
  "accounted r s (p, r', s') \<longleftrightarrow>
     event r' = event r \<and> (pressed (event r) \<and> \<not> p \<longrightarrow> tap r' = tap r) \<and> uncleared s' = uncleared s
     \<and> same_presses (ledger s + mset (arrivals r)) (ledger s' + (if p then {#} else mset (arrivals r)))"
  by (simp add: accounted_def)

lemma arrivals_event: "IS_EVENT (event r) \<Longrightarrow> arrivals r = [event r]"
  by (simp add: arrivals_def)

lemma arrivals_tick: "\<not> IS_EVENT (event r) \<Longrightarrow> arrivals r = []"
  by (simp add: arrivals_def)

lemma pass_on_traced: "IS_EVENT (event r) \<Longrightarrow> accounted r s (pass_on (traced c) r s)"
  by (simp add: pass_on_def arrivals_event)

lemma end_traced:
  assumes "held s = [event (tapping_key s)]"
  shows "accounted r s (end_tapping (traced c) r s)"
proof -
  have "ledger s = ledger (s\<lparr>env := env s @ [Processed (tapping_key s)], tapping_key := no_record\<rparr>)"
    using assms by (simp add: ledger_def)
  then show ?thesis by (simp add: end_tapping_def)
qed

lemma held_undecided:
  assumes "IS_EVENT (event (tapping_key s))" and "pressed (event (tapping_key s))" and "tap_count (tap (tapping_key s)) = 0"
  shows "held s = [event (tapping_key s)]"
  using assms by (simp add: held_def)

lemma reset_traced:
  assumes "\<not> IS_EVENT (event (tapping_key s))" and fresh: "pressed (event r) \<longrightarrow> tap_count (tap r) = 0"
  shows "accounted r s (tapping_reset (traced c) r s)"
proof -
  have "held s = []" using assms(1) by (simp add: held_def)
  then show ?thesis
    using fresh by (auto simp: tapping_reset_def pass_on_traced arrivals_tick arrivals_event scan_traced ledger_start)
qed

lemma undecided_traced:
  assumes key: "IS_EVENT (event (tapping_key s))" "pressed (event (tapping_key s))" "tap_count (tap (tapping_key s)) = 0"
    and r: "IS_EVENT (event r)"
  shows "accounted r s (tapping_undecided (traced c) r s)"
proof -
  note h = held_undecided [OF key]
  let ?i = "s\<lparr>tapping_key := set_interrupted (tapping_key s)\<rparr>"
  have i: "ledger ?i = ledger s" "held ?i = [event (tapping_key ?i)]"
    using key by (simp_all add: ledger_def held_def)
  have "accounted r ?i (end_tapping (traced c) r ?i)" by (rule end_traced [OF i(2)])
  then have e: "accounted r s (end_tapping (traced c) r ?i)"
    unfolding accounted_def i(1) by (simp split: prod.splits)
  have t: "ledger (s\<lparr>tapping_key := set_count 1 (tapping_key s), env := env s @ [Processed (set_count 1 (tapping_key s))]\<rparr>)
      = ledger s"
    using h by (simp add: ledger_def) (simp add: held_def)
  show ?thesis
    unfolding tapping_undecided_def Let_def
    using t e i(1) end_traced [OF h] pass_on_traced [OF r] by simp
qed

lemma restart_accounted:
  assumes "held s = []" and "IS_EVENT (event r)" and "pressed (event r)" and "tap_count (tap r) = 0"
  shows "accounted r s (tapping_restart (traced c) r s)"
proof -
  obtain p r' s' where "tapping_restart (traced c) r s = (p, r', s')" by (metis prod_cases3)
  with restart_traced [OF this assms] assms(2) show ?thesis by (simp add: arrivals_event)
qed

lemma held_tapped: "tap_count (tap (tapping_key s)) \<noteq> 0 \<Longrightarrow> held s = []"
  by (simp add: held_def)

lemma held_not_pressed: "\<not> pressed (event (tapping_key s)) \<Longrightarrow> held s = []"
  by (simp add: held_def)

lemma ledger_settled:
  assumes "held s = []" and "held (s\<lparr>tapping_key := k\<rparr>) = []"
  shows "ledger (s\<lparr>tapping_key := k\<rparr>) = ledger s"
  using assms by (simp add: ledger_def)

lemma ledger_replace:
  assumes "held s = []" and "\<not> pressed (event k) \<or> tap_count (tap k) \<noteq> 0"
  shows "ledger (s\<lparr>env := env s @ [Processed r], tapping_key := k\<rparr>) = add_mset (event r) (ledger s)"
    and "ledger (s\<lparr>tapping_key := k, env := env s @ [Processed r]\<rparr>) = add_mset (event r) (ledger s)"
  using assms by (auto simp: ledger_def) (auto simp: held_def)

lemma tapped_traced:
  assumes "tap_count (tap (tapping_key s)) \<noteq> 0" and r: "IS_EVENT (event r)"
    and fresh: "pressed (event r) \<longrightarrow> tap_count (tap r) = 0"
  shows "accounted r s (tapping_tapped (traced c) r s)"
  unfolding tapping_tapped_def Let_def
  using pass_on_traced [OF r] restart_accounted [OF held_tapped r] assms
  by (auto simp: arrivals_event ledger_replace held_tapped)

lemma ledger_no_record: "held s = [] \<Longrightarrow> ledger (s\<lparr>tapping_key := no_record\<rparr>) = ledger s"
  by (simp add: ledger_def)

lemma timeout_traced:
  assumes key: "IS_EVENT (event (tapping_key s))" "pressed (event (tapping_key s))"
    and fresh: "pressed (event r) \<longrightarrow> tap_count (tap r) = 0"
  shows "accounted r s (tapping_timeout (traced c) r s)"
proof (cases "tap_count (tap (tapping_key s)) = 0")
  case True
  then show ?thesis
    using end_traced [OF held_undecided [OF key]] by (simp add: tapping_timeout_def)
next
  case False
  note h = held_tapped [OF False]
  have z: "\<not> pressed (event no_record)" by (simp add: no_record_def MAKE_EVENT_def)
  show ?thesis
    unfolding tapping_timeout_def Let_def
    using False h fresh pass_on_traced restart_accounted [OF h] z
    by (auto simp: arrivals_event arrivals_tick IS_NOEVENT_iff ledger_replace)
qed

lemma count_up: "(n :: 4 word) < 15 \<Longrightarrow> n + 1 \<noteq> 0"
proof
  assume "n < 15" and "n + 1 = 0"
  then have "n = -1" by (simp add: eq_neg_iff_add_eq_0)
  with \<open>n < 15\<close> show False by simp
qed

lemma released_traced:
  assumes key: "\<not> pressed (event (tapping_key s))"
    and fresh: "pressed (event r) \<longrightarrow> tap_count (tap r) = 0"
  shows "accounted r s (tapping_released (traced c) r s)"
proof -
  note h = held_not_pressed [OF key]
  let ?i = "s\<lparr>tapping_key := set_interrupted (tapping_key s)\<rparr>"
  have i: "ledger ?i = ledger s"
    by (rule ledger_settled [OF h]) (simp add: held_def key)
  have "IS_EVENT (event r) \<Longrightarrow> accounted r ?i (pass_on (traced c) r ?i)" by (rule pass_on_traced)
  then have p: "IS_EVENT (event r) \<Longrightarrow> accounted r s (pass_on (traced c) r ?i)"
    unfolding accounted_def i by (simp split: prod.splits)
  show ?thesis
    unfolding tapping_released_def Let_def start_tapping_def
    using h fresh pass_on_traced p
    by (auto simp: arrivals_event arrivals_tick IS_NOEVENT_iff ledger_replace ledger_no_record ledger_start
        scan_traced count_up word_gt_0)
qed

lemma tick_traced: "\<not> IS_EVENT (event r) \<Longrightarrow> accounted r s (True, r, s)"
  by (simp add: arrivals_tick)

lemma process_tapping_traced:
  assumes fresh: "pressed (event r) \<longrightarrow> tap_count (tap r) = 0"
  shows "accounted r s (process_tapping (traced c) r s)"
  unfolding process_tapping_def
  using fresh reset_traced undecided_traced tapped_traced timeout_traced released_traced tick_traced
  by (auto simp: IS_NOEVENT_iff simp del: accounted_simp)

text \<open>The slots a scan may change hold releases, so pressed records in the buffer keep their tap state.\<close>

definition fresh :: "'e tapping \<Rightarrow> bool" where
  "fresh s \<longleftrightarrow> (\<forall>i\<in>set (waiting_slots s). pressed (event (waiting_buffer s ! i)) \<longrightarrow> tap_count (tap (waiting_buffer s ! i)) = 0)"

lemma waiting_slots_update [simp]:
  "waiting_slots (s\<lparr>tapping_key := k\<rparr>) = waiting_slots s" "waiting_slots (s\<lparr>env := e\<rparr>) = waiting_slots s"
  "waiting_slots (s\<lparr>waiting_buffer := b\<rparr>) = waiting_slots s"
  by (simp_all add: waiting_slots_def)

lemma fresh_update [simp]:
  "fresh (s\<lparr>tapping_key := k\<rparr>) = fresh s" "fresh (s\<lparr>env := e\<rparr>) = fresh s"
  by (simp_all add: fresh_def)

lemma nth_update_if: "xs[i := x] ! j = (if j = i \<and> i < length xs then x else xs ! j)"
  by (metis list_update_beyond not_le nth_list_update_eq nth_list_update_neq)

lemma fresh_scan:
  assumes "fresh s"
  shows "fresh (waiting_buffer_scan_tap (traced c) s)"
proof -
  have "fresh (s\<lparr>tapping_key := k, waiting_buffer := (waiting_buffer s)[i := set_count 1 (waiting_buffer s ! i)], env := e\<rparr>)"
    if "\<not> pressed (event (waiting_buffer s ! i))" for k i e
  proof -
    let ?b = "(waiting_buffer s)[i := set_count 1 (waiting_buffer s ! i)]"
    have "pressed (event (?b ! j)) \<Longrightarrow> ?b ! j = waiting_buffer s ! j" for j
      unfolding nth_update_if using that by (cases "j = i \<and> i < length (waiting_buffer s)") auto
    then show ?thesis using assms by (simp add: fresh_def) metis
  qed
  then show ?thesis
    using assms by (auto simp: waiting_buffer_scan_tap_def find_Some_iff Let_def split: option.split)
qed

lemma fresh_process_tapping:
  "fresh s \<Longrightarrow> process_tapping (traced c) r s = (p, r', s') \<Longrightarrow> fresh s'"
  unfolding machine_defs Let_def tapping_restart_def pass_on_def
  by (auto simp: fresh_scan split: if_splits)

lemma ring_step_moves: "t < 8 \<Longrightarrow> k < 7 \<Longrightarrow> ((t + 1) mod 8 + k) mod 8 \<noteq> (t :: nat)"
  by (cases "t = 7") (auto simp: mod_if)

lemma tail_not_behind:
  assumes "tapping_wf s" and "waiting_buffer_tail s \<noteq> waiting_buffer_head s"
  shows "waiting_buffer_tail s \<notin> set (waiting_slots (advance s))"
proof
  let ?t = "waiting_buffer_tail s" and ?h = "waiting_buffer_head s"
  have t: "?t < 8" and h: "?h < 8"
    using assms(1) by (simp_all add: tapping_wf_def WAITING_BUFFER_SIZE_def)
  have n: "(?h + 8 - (?t + 1) mod 8) mod 8 < 7"
    using ring_distance [OF t h assms(2)] mod_less_divisor [of 8 "?h + 8 - ?t"] by linarith
  assume "?t \<in> set (waiting_slots (advance s))"
  then obtain k where "k < (?h + 8 - (?t + 1) mod 8) mod 8" and "?t = ((?t + 1) mod 8 + k) mod 8"
    by (auto simp: waiting_slots_def advance_def WAITING_BUFFER_SIZE_def)
  with n ring_step_moves [OF t, of k] show False by simp
qed

lemma fresh_store:
  assumes "fresh s" and "pressed (event r) \<longrightarrow> tap_count (tap r) = 0"
  shows "fresh (store r s)"
  using assms unfolding fresh_def waiting_slots_store
  by (simp add: store_def) (metis list_update_beyond not_le nth_list_update_eq nth_list_update_neq)

lemma fresh_advance:
  assumes "fresh s" and "tapping_wf s" and "waiting_buffer_tail s \<noteq> waiting_buffer_head s"
  shows "fresh (advance (store r s))"
proof -
  have "waiting_slots (advance (store r s)) = waiting_slots (advance s)"
    by (simp add: waiting_slots_def advance_def)
  moreover have "waiting_buffer (advance (store r s)) ! i = waiting_buffer s ! i"
    if "i \<in> set (waiting_slots (advance s))" for i
    using that tail_not_behind [OF assms(2,3)] by (cases "i = waiting_buffer_tail s") (simp_all add: store_def)
  ultimately show ?thesis
    using assms(1) waiting_slots_Cons [OF assms(2,3)] by (simp add: fresh_def)
qed

lemma waiting_events_same_queue:
  assumes "tapping_wf s" and "same_queue s s'"
  shows "waiting_events s' = waiting_events s"
proof -
  have "event (waiting_buffer s' ! i) = event (waiting_buffer s ! i)" if "i \<in> set (waiting_slots s)" for i
  proof -
    have "i < length (waiting_buffer s)" using assms(1) waiting_slots_less [OF that] by (simp add: tapping_wf_def)
    moreover have "map event (waiting_buffer s') = map event (waiting_buffer s)"
      using assms(2) by (simp add: same_queue_def)
    ultimately show ?thesis by (metis map_eq_imp_length_eq nth_map)
  qed
  then show ?thesis
    by (simp add: waiting_events_def waiting_slots_same_queue [OF assms(2)])
qed

lemma waiting_events_store:
  assumes "event r = event (waiting_buffer s ! waiting_buffer_tail s)"
  shows "waiting_events (store r s) = waiting_events s"
proof -
  have "event ((waiting_buffer s)[waiting_buffer_tail s := r] ! i) = event (waiting_buffer s ! i)" for i
    using assms by (metis list_update_beyond not_le nth_list_update_eq nth_list_update_neq)
  then show ?thesis by (simp add: waiting_events_def) (simp add: store_def)
qed

lemma waiting_events_Cons:
  assumes "tapping_wf s" and "waiting_buffer_tail s \<noteq> waiting_buffer_head s"
  shows "waiting_events s = event (waiting_buffer s ! waiting_buffer_tail s) # waiting_events (advance s)"
  using waiting_slots_Cons [OF assms] by (simp add: waiting_events_def)

text \<open>The whole account, and its invariant.\<close>

definition account :: "call list tapping \<Rightarrow> keyevent multiset" where
  "account s = ledger s + mset (waiting_events s)"

definition balanced :: "keyevent multiset \<Rightarrow> call list tapping \<Rightarrow> bool" where
  "balanced T s \<longleftrightarrow> fresh s \<and> (\<forall>e\<in>set (waiting_events s). IS_EVENT e) \<and> (uncleared s \<longrightarrow> same_presses T (account s))"

lemma same_presses_cancel: "same_presses (A + D) (B + D) \<longleftrightarrow> same_presses A B"
  by (simp add: same_presses_def)

lemma same_presses_cancel1: "same_presses (add_mset e A) (add_mset e B) \<longleftrightarrow> same_presses A B"
  by (auto simp: same_presses_def)

lemma drain_step_balanced:
  assumes wf: "tapping_wf s" and bal: "balanced T s" and ne: "waiting_buffer_tail s \<noteq> waiting_buffer_head s"
    and p: "process_tapping (traced c) (waiting_buffer s ! waiting_buffer_tail s) s = (p, r, s')"
  shows "balanced T (if p then advance (store r s') else store r s')"
proof -
  let ?r = "waiting_buffer s ! waiting_buffer_tail s"
  note q = same_queue_process_tapping [OF p]
  have wf': "tapping_wf s'" by (rule tapping_wf_same_queue [OF q wf])
  have tl: "waiting_buffer_tail s' = waiting_buffer_tail s" "waiting_buffer_head s' = waiting_buffer_head s"
    using q by (simp_all add: same_queue_def)
  have fr: "pressed (event ?r) \<longrightarrow> tap_count (tap ?r) = 0"
    using bal waiting_slots_Cons [OF wf ne] by (simp add: balanced_def fresh_def)
  have acc: "event r = event ?r" "pressed (event ?r) \<and> \<not> p \<longrightarrow> tap r = tap ?r" "uncleared s' = uncleared s"
    "same_presses (ledger s + mset (arrivals ?r)) (ledger s' + (if p then {#} else mset (arrivals ?r)))"
    using process_tapping_traced [OF fr, of s c] unfolding p by simp_all
  have ev: "waiting_events s' = waiting_events s" by (rule waiting_events_same_queue [OF wf q])
  have "event (waiting_buffer s' ! waiting_buffer_tail s') = event ?r"
    using ev wf' wf ne tl by (simp add: waiting_events_Cons)
  then have st: "waiting_events (store r s') = waiting_events s"
    using waiting_events_store [of r s'] acc(1) ev by simp
  have ne': "waiting_buffer_tail (store r s') \<noteq> waiting_buffer_head (store r s')" using ne tl by simp
  have cons: "waiting_events s = event ?r # waiting_events (advance (store r s'))"
    using waiting_events_Cons [OF _ ne'] wf' st acc(1) by (simp add: waiting_events_Cons [OF wf ne])
  have ar: "arrivals ?r = [event ?r]"
    using bal cons by (simp add: balanced_def arrivals_event)
  have lg: "ledger (store r s') = ledger s'" "ledger (advance (store r s')) = ledger s'"
    "uncleared (store r s') = uncleared s'" "uncleared (advance (store r s')) = uncleared s'"
    by (simp_all add: ledger_def held_def uncleared_def)
  have fr': "fresh s'" using fresh_process_tapping [OF _ p] bal by (simp add: balanced_def)
  show ?thesis
  proof (cases p)
    case True
    have "same_presses (account s) (account (advance (store r s')))"
      using acc(4) True same_presses_add [of _ _ "mset (waiting_events (advance (store r s')))"]
      unfolding account_def lg ar cons by fastforce
    then show ?thesis
      using True bal acc(3) cons fresh_advance [OF fr' wf'] ne tl
      by (auto simp: balanced_def lg intro: same_presses_trans)
  next
    case False
    then have "same_presses (account s) (account (store r s'))"
      using acc(4) unfolding account_def lg ar st by (simp add: same_presses_cancel1 same_presses_add)
    moreover have "fresh (store r s')"
      using fresh_store [OF fr'] fr acc(1,2) False by simp
    ultimately show ?thesis
      using False bal acc(3) st by (auto simp: balanced_def lg intro: same_presses_trans)
  qed
qed

lemma ring_grows:
  fixes t h :: nat
  assumes "t < 8" and "h < 8" and "(h + 1) mod 8 \<noteq> t"
  shows "((h + 1) mod 8 + 8 - t) mod 8 = Suc ((h + 8 - t) mod 8)" and "(t + (h + 8 - t) mod 8) mod 8 = h"
  using assms by (cases "h = 7"; cases "t \<le> h"; auto simp: mod_if)+

lemma ring_short: "t < 8 \<Longrightarrow> k < d \<Longrightarrow> d < 8 \<Longrightarrow> (t + k) mod 8 \<noteq> (t + d) mod (8 :: nat)"
  by (simp add: mod_if) arith

lemma waiting_slots_enq:
  assumes "tapping_wf s" and "(waiting_buffer_head s + 1) mod WAITING_BUFFER_SIZE \<noteq> waiting_buffer_tail s"
  shows "waiting_slots (s\<lparr>waiting_buffer := b, waiting_buffer_head := (waiting_buffer_head s + 1) mod WAITING_BUFFER_SIZE\<rparr>)
      = waiting_slots s @ [waiting_buffer_head s]"
    and "waiting_buffer_head s \<notin> set (waiting_slots s)"
proof -
  have t: "waiting_buffer_tail s < 8" and h: "waiting_buffer_head s < 8" and n: "(waiting_buffer_head s + 1) mod 8 \<noteq> waiting_buffer_tail s"
    using assms by (simp_all add: tapping_wf_def WAITING_BUFFER_SIZE_def)
  note g = ring_grows [OF t h n]
  show "waiting_slots (s\<lparr>waiting_buffer := b, waiting_buffer_head := (waiting_buffer_head s + 1) mod WAITING_BUFFER_SIZE\<rparr>)
      = waiting_slots s @ [waiting_buffer_head s]"
    using g by (simp add: waiting_slots_def WAITING_BUFFER_SIZE_def)
  let ?d = "(waiting_buffer_head s + 8 - waiting_buffer_tail s) mod 8"
  have "(waiting_buffer_tail s + k) mod 8 \<noteq> waiting_buffer_head s" if "k < ?d" for k
    using ring_short [OF t that] g(2) by simp
  moreover have "\<exists>k < ?d. i = (waiting_buffer_tail s + k) mod 8" if "i \<in> set (waiting_slots s)" for i
    using that by (auto simp: waiting_slots_def WAITING_BUFFER_SIZE_def)
  ultimately show "waiting_buffer_head s \<notin> set (waiting_slots s)" by metis
qed

lemma enq_balanced:
  assumes wf: "tapping_wf s" and bal: "balanced T s" and e: "IS_EVENT (event r)"
    and fr: "pressed (event r) \<longrightarrow> tap_count (tap r) = 0"
    and room: "(waiting_buffer_head s + 1) mod WAITING_BUFFER_SIZE \<noteq> waiting_buffer_tail s"
  shows "\<exists>s'. waiting_buffer_enq r s = (True, s') \<and> tapping_wf s' \<and> balanced (T + mset (arrivals r)) s'"
proof -
  let ?s = "s\<lparr>waiting_buffer := (waiting_buffer s)[waiting_buffer_head s := r],
      waiting_buffer_head := (waiting_buffer_head s + 1) mod WAITING_BUFFER_SIZE\<rparr>"
  note sl = waiting_slots_enq [OF wf room]
  have h: "waiting_buffer_head s < length (waiting_buffer s)" using wf by (simp add: tapping_wf_def)
  have old: "(waiting_buffer s)[waiting_buffer_head s := r] ! i = waiting_buffer s ! i" if "i \<in> set (waiting_slots s)" for i
    using that sl(2) by (cases "i = waiting_buffer_head s") simp_all
  have ev: "waiting_events ?s = waiting_events s @ [event r]"
    unfolding waiting_events_def sl(1) using h by (simp add: old)
  have lg: "ledger ?s = ledger s" "uncleared ?s = uncleared s"
    by (simp_all add: ledger_def held_def uncleared_def)
  have "fresh ?s" unfolding fresh_def sl(1) using bal fr h by (simp add: balanced_def fresh_def old)
  then have "balanced (T + mset (arrivals r)) ?s"
    unfolding balanced_def account_def ev lg
    using bal e same_presses_add [of T "account s" "{#event r#}"]
    by (auto simp: balanced_def account_def arrivals_event)
  moreover have "tapping_wf ?s" using wf by (simp add: tapping_wf_def WAITING_BUFFER_SIZE_def)
  ultimately show ?thesis
    using e room by (simp add: waiting_buffer_enq_def IS_NOEVENT_iff)
qed

lemma action_tapping_balanced:
  assumes wf: "tapping_wf s" and bal: "balanced T s" and fr: "pressed (event r) \<longrightarrow> tap_count (tap r) = 0"
  shows "\<exists>s'. action_tapping_process (traced c) r s = Some s' \<and> tapping_wf s' \<and> balanced (T + mset (arrivals r)) s'"
proof -
  let ?T = "T + mset (arrivals r)"
  obtain p r' s1 where p: "process_tapping (traced c) r s = (p, r', s1)" by (metis prod_cases3)
  note q = same_queue_process_tapping [OF p]
  have wf1: "tapping_wf s1" by (rule tapping_wf_same_queue [OF q wf])
  have fr1: "fresh s1" using fresh_process_tapping [OF _ p] bal by (simp add: balanced_def)
  have ev: "waiting_events s1 = waiting_events s" by (rule waiting_events_same_queue [OF wf q])
  have acc: "event r' = event r" "pressed (event r) \<and> \<not> p \<longrightarrow> tap r' = tap r" "uncleared s1 = uncleared s"
    "same_presses (ledger s + mset (arrivals r)) (ledger s1 + (if p then {#} else mset (arrivals r)))"
    using process_tapping_traced [OF fr, of s c] unfolding p by simp_all
  have ar: "mset (arrivals r') = mset (arrivals r)" using acc(1) by (simp add: arrivals_def)
  define s2 where "s2 = (if p then s1
      else case waiting_buffer_enq r' s1 of (enqueued, s) \<Rightarrow>
        if enqueued then s
        else (waiting_buffer_clear (s\<lparr>env := clear_keyboard (traced c) (env s)\<rparr>))\<lparr>tapping_key := no_record\<rparr>)"
  have "tapping_wf s2 \<and> balanced ?T s2"
  proof (cases p)
    case True
    have "same_presses (ledger s + mset (arrivals r)) (ledger s1)" using acc(4) True by simp
    from same_presses_add [OF this, of "mset (waiting_events s)"]
    have "same_presses (account s + mset (arrivals r)) (account s1)"
      unfolding account_def ev by (simp add: ac_simps)
    then have "balanced ?T s1"
      using bal fr1 acc(3) ev same_presses_trans [OF same_presses_add] unfolding balanced_def by metis
    then show ?thesis using True wf1 by (simp add: s2_def)
  next
    case False
    have "same_presses (ledger s) (ledger s1)" using acc(4) False by (simp add: same_presses_cancel)
    from same_presses_add [OF this, of "mset (waiting_events s)"]
    have "same_presses (account s) (account s1)"
      unfolding account_def ev .
    then have b: "balanced T s1"
      using bal fr1 acc(3) ev same_presses_trans unfolding balanced_def by metis
    show ?thesis
    proof (cases "IS_EVENT (event r)")
      case tick: False
      then have "s2 = s1" using False acc(1) by (simp add: s2_def waiting_buffer_enq_def IS_NOEVENT_iff)
      then show ?thesis using b wf1 tick by (simp add: arrivals_tick)
    next
      case e: True
      show ?thesis
      proof (cases "(waiting_buffer_head s1 + 1) mod WAITING_BUFFER_SIZE = waiting_buffer_tail s1")
        case full: True
        then have "s2 = (waiting_buffer_clear (s1\<lparr>env := env s1 @ [Cleared]\<rparr>))\<lparr>tapping_key := no_record\<rparr>"
          using False acc(1) e by (simp add: s2_def waiting_buffer_enq_def IS_NOEVENT_iff)
        then show ?thesis
          using wf1 by (simp add: balanced_def tapping_wf_def waiting_buffer_clear_def fresh_def waiting_slots_Nil
              waiting_events_def uncleared_def)
      next
        case room: False
        have "pressed (event r') \<longrightarrow> tap_count (tap r') = 0" using acc(1,2) fr False by simp
        with enq_balanced [OF wf1 b _ _ room, of r'] e acc(1) ar
        show ?thesis using False by (auto simp: s2_def)
      qed
    qed
  qed
  then have "\<exists>s'. drain (traced c) s2 = Some s' \<and> tapping_wf s' \<and> balanced ?T s'"
    using drain_step_balanced by (intro drain_rule) auto
  then show ?thesis by (simp add: action_tapping_process_def p s2_def)
qed

lemma tap_run_balanced:
  assumes "tapping_wf s" and "balanced T s"
  shows "\<exists>s'. tap_run (traced c) es s = Some s' \<and> tapping_wf s' \<and> balanced (T + mset (filter IS_EVENT es)) s'"
  using assms
proof (induction es arbitrary: s T)
  case Nil
  then show ?case by simp
next
  case (Cons e es)
  let ?r = "\<lparr>event = e, tap = no_tap\<rparr>"
  obtain s1 where s1: "action_tapping_process (traced c) ?r s = Some s1" "tapping_wf s1" "balanced (T + mset (arrivals ?r)) s1"
    using action_tapping_balanced [OF Cons.prems, of ?r c] by (auto simp: no_tap_def)
  show ?case
    using Cons.IH [OF s1(2,3)] s1(1) by (cases "IS_EVENT e") (auto simp: arrivals_def)
qed

lemma tapping_init_balanced: "tapping_wf (tapping_init []) \<and> balanced {#} (tapping_init [])"
  by (simp add: tapping_init_def tapping_wf_def WAITING_BUFFER_SIZE_def balanced_def fresh_def waiting_slots_Nil
      waiting_events_def account_def ledger_def held_def no_record_def MAKE_EVENT_def IS_EVENT_def)

section \<open>Theorems\<close>

lemma action_tapping_ends:
  assumes "tapping_wf s"
  shows "\<exists>s'. action_tapping_process c r s = Some s' \<and> tapping_wf s'"
proof -
  obtain p r' s1 where p: "process_tapping c r s = (p, r', s1)" by (metis prod_cases3)
  have wf1: "tapping_wf s1" by (rule tapping_wf_same_queue [OF same_queue_process_tapping [OF p] assms])
  have "\<exists>s'. drain c s2 = Some s' \<and> tapping_wf s' \<and> True" if "tapping_wf s2" for s2
    using that by (rule drain_rule) simp_all
  then show ?thesis
    using wf1 by (auto simp: action_tapping_process_def p waiting_buffer_enq_def tapping_wf_def WAITING_BUFFER_SIZE_def
        waiting_buffer_clear_def)
qed

text \<open>C27: Whatever the keymap, the options and the actions do, handling any sequence of events and
  ticks returns: the loop over the waiting buffer ends each time, its indices in range.\<close>

theorem tapping_ends:
  "\<exists>s. tap_run c es (tapping_init e) = Some s \<and> tapping_wf s"
proof -
  have "tapping_wf s \<Longrightarrow> \<exists>s'. tap_run c es s = Some s' \<and> tapping_wf s'" for s
  proof (induction es arbitrary: s)
    case (Cons e es)
    then show ?case using action_tapping_ends [of s c "\<lparr>event = e, tap = no_tap\<rparr>"] by auto
  qed simp
  then show ?thesis by (simp add: tapping_wf_def tapping_init_def WAITING_BUFFER_SIZE_def)
qed

text \<open>C26: For any decisions of the keymap and the options, in an environment whose \<open>process_record\<close> hands the
  record back as it was, and as long as the waiting buffer has not overflowed, the press events passed on and still held back are together exactly those that
  arrived; every release that arrived is passed on or held back too, and at most further releases
  are made up.\<close>

theorem tapping_conserves:
  "\<exists>s. tap_run (traced c) es (tapping_init []) = Some s \<and>
     (Cleared \<in> set (env s) \<or>
      (let seen = mset (handled (env s)) + mset (held s) + mset (waiting_events s); arrived = mset (filter IS_EVENT es)
       in filter_mset pressed seen = filter_mset pressed arrived \<and> arrived \<subseteq># seen))"
proof -
  obtain s where "tap_run (traced c) es (tapping_init []) = Some s" and "balanced (mset (filter IS_EVENT es)) s"
    using tap_run_balanced [of "tapping_init []" "{#}" c es] tapping_init_balanced by auto
  then show ?thesis
    by (auto simp: balanced_def uncleared_def same_presses_def account_def ledger_def Let_def)
qed

text \<open>The build with global options, and key events by position and time.\<close>

definition global_cfg :: "u16 \<Rightarrow> bool \<Rightarrow> bool \<Rightarrow> (keypos \<Rightarrow> bool) \<Rightarrow> call list tapping_cfg" where
  "global_cfg term permissive on_press is_tap = traced
     \<lparr>GET_TAPPING_TERM = \<lambda>r tr. term, GET_QUICK_TAP_TERM = \<lambda>r tr. term,
      TAP_GET_PERMISSIVE_HOLD = \<lambda>r tr. permissive, TAP_GET_HOLD_ON_OTHER_KEY_PRESS = \<lambda>r tr. on_press,
      is_tap_record = \<lambda>r tr. is_tap (key (event r)), get_action = \<lambda>k tr. 0,
      process_record = \<lambda>r tr. (r, tr), process_record_tap_hint = \<lambda>r tr. tr, clear_keyboard = \<lambda>tr. tr\<rparr>"

definition down :: "keypos \<Rightarrow> u16 \<Rightarrow> keyevent" where
  "down k t = \<lparr>key = k, time = t, event_type = KEY_EVENT, pressed = True\<rparr>"

definition up :: "keypos \<Rightarrow> u16 \<Rightarrow> keyevent" where
  "up k t = \<lparr>key = k, time = t, event_type = KEY_EVENT, pressed = False\<rparr>"

definition tick :: "u16 \<Rightarrow> keyevent" where
  "tick t = MAKE_EVENT 0 0 False TICK_EVENT t"

text \<open>The key, the direction and the tap count of each record passed on.\<close>

fun passed :: "call list \<Rightarrow> (keypos \<times> bool \<times> nat) list" where
  "passed [] = []"
| "passed (Processed r # tr) = (key (event r), pressed (event r), unat (tap_count (tap r))) # passed tr"
| "passed (Hinted r # tr) = passed tr"
| "passed (Cleared # tr) = passed tr"

definition outcome :: "u16 \<Rightarrow> bool \<Rightarrow> bool \<Rightarrow> (keypos \<Rightarrow> bool) \<Rightarrow> keyevent list \<Rightarrow> (keypos \<times> bool \<times> nat) list option" where
  "outcome term permissive on_press is_tap es =
     map_option (passed \<circ> env) (tap_run (global_cfg term permissive on_press is_tap) es (tapping_init []))"

lemmas run_simps = outcome_def action_tapping_process_def machine_defs pass_on_def tapping_restart_def
  waiting_buffer_scan_tap_def waiting_buffer_enq_def waiting_buffer_typed_def drain_simps store_def advance_def
  down_def up_def tick_def MAKE_EVENT_def tapping_init_def no_record_def no_tap_def waiting_slots_def
  WAITING_BUFFER_SIZE_def IS_NOEVENT_def IS_EVENT_def IS_TAPPING_RECORD_def WITHIN_TAPPING_TERM_def
  WITHIN_QUICK_TAP_TERM_def global_cfg_def traced_def process_tapping_key_def process_def set_count_def
  set_interrupted_def release_last_tap_def Let_def

text \<open>C28: How a tap-hold key \<open>k\<close> is settled, with the global options. Released within its term it is a
  tap, held beyond it a hold, and a key \<open>b\<close> typed meanwhile is passed on behind it. A key pressed
  within the term makes it a hold at once with HOLD_ON_OTHER_KEY_PRESS; a key pressed and released
  within the term makes it a hold with PERMISSIVE_HOLD; otherwise everything waits.\<close>

theorem tap_hold_decision:
  assumes "is_tap k" and "\<not> is_tap b"
    and "TIMER_DIFF_16 t1 t0 < term" and "TIMER_DIFF_16 t2 t0 < term" and "\<not> TIMER_DIFF_16 t3 t0 < term"
  shows "outcome term p h is_tap [down k t0, up k t1] = Some [(k, True, 1), (k, False, 1)]
    \<and> outcome term p h is_tap [down k t0, tick t3, up k t4] = Some [(k, True, 0), (k, False, 0)]
    \<and> outcome term p h is_tap [down k t0, down b t1, tick t3] = Some [(k, True, 0), (b, True, 0)]
    \<and> outcome term p h is_tap [down k t0, down b t1, up k t2] =
        Some (if h then [(k, True, 0), (b, True, 0), (k, False, 0)] else [(k, True, 1), (b, True, 0), (k, False, 1)])
    \<and> outcome term p h is_tap [down k t0, down b t1, up b t2] =
        Some (if h \<or> p then [(k, True, 0), (b, True, 0), (b, False, 0)] else [])"
proof -
  have kb: "k \<noteq> b" using assms(1,2) by auto
  show ?thesis
    by (intro conjI; cases h; cases p) (simp_all add: run_simps assms kb kb [symmetric])
qed

definition key_a :: keypos where "key_a = \<lparr>col = 1, row = 0\<rparr>"
definition key_b :: keypos where "key_b = \<lparr>col = 2, row = 0\<rparr>"

lemma tap_hold_decision_witness:
  "outcome 200 True False (\<lambda>k. k = key_a) [down key_a 65500, down key_b 20, up key_b 90] =
     Some [(key_a, True, 0), (key_b, True, 0), (key_b, False, 0)]
   \<and> outcome 200 True False (\<lambda>k. k = key_a) [down key_a 65500, up key_a 20] = Some [(key_a, True, 1), (key_a, False, 1)]"
  using tap_hold_decision [of "\<lambda>k. k = key_a" key_a key_b 20 65500 200 90 200 True False]
  by (simp add: key_a_def key_b_def TIMER_DIFF_16_def)

text \<open>Tapping a key again within the term of its last release continues the sequence: the count
  goes up with each tap, and the second press is passed on at once and not held back.\<close>

theorem quick_tap_counts:
  assumes "is_tap k" and "TIMER_DIFF_16 t1 t0 < term" and "TIMER_DIFF_16 t2 t1 < term" and "TIMER_DIFF_16 t3 t2 < term"
  shows "outcome term p h is_tap [down k t0, up k t1, down k t2] = Some [(k, True, 1), (k, False, 1), (k, True, 2)]
    \<and> outcome term p h is_tap [down k t0, up k t1, down k t2, up k t3] =
        Some [(k, True, 1), (k, False, 1), (k, True, 2), (k, False, 2)]"
  by (intro conjI) (simp_all add: run_simps assms)

lemma quick_tap_counts_witness:
  "outcome 200 False False (\<lambda>k. k = key_a) [down key_a 0, up key_a 50, down key_a 120] =
     Some [(key_a, True, 1), (key_a, False, 1), (key_a, True, 2)]"
  using quick_tap_counts [of "\<lambda>k. k = key_a" key_a 50 0 200 120 170 False False]
  by (simp add: TIMER_DIFF_16_def)

fun hinted :: "call list \<Rightarrow> keypos list" where
  "hinted [] = []"
| "hinted (Hinted r # tr) = key (event r) # hinted tr"
| "hinted (Processed r # tr) = hinted tr"
| "hinted (Cleared # tr) = hinted tr"

text \<open>The hint that lets a hold take effect at the press is given only to a tap key pressed while
  the machine is reset. A second tap key pressed within the term of the first one's release
  is held, settled as a hold and released, without a hint.\<close>

theorem interfering_tap_key_unhinted:
  assumes "is_tap k" and "is_tap b" and "k \<noteq> b"
    and "TIMER_DIFF_16 t1 t0 < term" and "TIMER_DIFF_16 t2 t1 < term" and "\<not> TIMER_DIFF_16 t3 t2 < term"
  shows "outcome term p h is_tap [down k t0, up k t1, down b t2, tick t3, up b t4] =
      Some [(k, True, 1), (k, False, 1), (b, True, 0), (b, False, 0)]
    \<and> map_option (hinted \<circ> env) (tap_run (global_cfg term p h is_tap) [down k t0, up k t1, down b t2, tick t3, up b t4]
        (tapping_init [])) = Some [k]"
  by (intro conjI) (simp_all add: run_simps assms assms(3) [symmetric])

lemma interfering_tap_key_unhinted_witness:
  "map_option (hinted \<circ> env) (tap_run (global_cfg 200 False False (\<lambda>k. True))
     [down key_a 0, up key_a 50, down key_b 120, tick 400, up key_b 500] (tapping_init [])) = Some [key_a]"
  using interfering_tap_key_unhinted [of "\<lambda>k. True" key_a key_b 50 0 200 120 400 False False 500]
  by (simp add: key_a_def key_b_def TIMER_DIFF_16_def)

end
