(* ===== verification/Usage.thy ===== *)
theory Usage
  imports ActionCode
begin

text \<open>
  The HID usages of the system and consumer keycodes (tmk_core/protocol/report.h): the two switch
  statements as tables.
\<close>

definition KEYCODE2SYSTEM_table :: "(u8 \<times> u16) list" where
  "KEYCODE2SYSTEM_table =
    [(0xA5, 0x81),
     (0xA6, 0x82),
     (0xA7, 0x83)]"

definition KEYCODE2SYSTEM :: "u8 \<Rightarrow> u16" where
  "KEYCODE2SYSTEM code = (case map_of KEYCODE2SYSTEM_table code of Some usage \<Rightarrow> usage | None \<Rightarrow> 0)"

definition KEYCODE2CONSUMER_table :: "(u8 \<times> u16) list" where
  "KEYCODE2CONSUMER_table =
    [(0xA8, 0x0E2),
     (0xA9, 0x0E9),
     (0xAA, 0x0EA),
     (0xAB, 0x0B5),
     (0xAC, 0x0B6),
     (0xBB, 0x0B3),
     (0xBC, 0x0B4),
     (0xAD, 0x0B7),
     (0xB0, 0x0CC),
     (0xAE, 0x0CD),
     (0xAF, 0x183),
     (0xB1, 0x18A),
     (0xB2, 0x192),
     (0xB3, 0x194),
     (0xBF, 0x19F),
     (0xC0, 0x1CB),
     (0xB4, 0x221),
     (0xB5, 0x223),
     (0xB6, 0x224),
     (0xB7, 0x225),
     (0xB8, 0x226),
     (0xB9, 0x227),
     (0xBD, 0x06F),
     (0xBE, 0x070),
     (0xBA, 0x22A),
     (0xC1, 0x29F),
     (0xC2, 0x2A0)]"

definition KEYCODE2CONSUMER :: "u8 \<Rightarrow> u16" where
  "KEYCODE2CONSUMER code = (case map_of KEYCODE2CONSUMER_table code of Some usage \<Rightarrow> usage | None \<Rightarrow> 0)"

end
