(* ===== verification/Action.thy ===== *)
theory Action
  imports ActionUtil Tapping Usage "HOL-Library.Monad_Syntax"
begin

text \<open>
  The execution of actions, quantum/action.c, with the hand swapping and the codes it sends to the
  host (tmk_core/protocol/host.c for system and consumer usages). The build has tapping, one-shot
  keys, layers, swap hands and extra keys; combos, repeat key, auto shift, the command console and a
  flashing-modifier neutralizer are not in it. Mouse keys leave the model as \<open>Mouse\<close> effects. The
  hooks of quantum.c (\<open>process_record_quantum\<close> and its relatives) are parameters which see the record
  but do not change it. None is an access outside an array.
\<close>

section \<open>State\<close>

text \<open>
  An option of the build that is not set has the value 0 or False. \<open>HOLD_CANCELS_TAP\<close> is
  HOLD_ON_OTHER_KEY_PRESS as the mod-tap case of \<open>process_action\<close> tests it. \<open>clock\<close> is what
  \<open>timer_read\<close> returns; \<open>host_leds\<close> is the state of the lock LEDs on the host.
\<close>

record 'w act_state =
  util :: "'w util_state"
  swap_held :: bool
  matrix_swap_state :: "u8 list"
  encoder_swap_state :: "u8 list"
  retro_tapping_counter :: int
  last_system_usage :: u16
  last_consumer_usage :: u16
  host_leds :: u8
  clock :: u16

record 'w act_cfg =
  ucfg :: "'w util_cfg"
  lcfg :: layer_cfg
  action_for_key :: keymap
  default_layer_state_set_kb :: "'w \<Rightarrow> 'w"
  hand_swap_config :: "u8 \<Rightarrow> u8 \<Rightarrow> keypos"
  encoder_hand_swap_config :: "u8 \<Rightarrow> u8"
  TAPPING_TOGGLE :: nat
  ONESHOT_TAP_TOGGLE :: nat
  TAP_CODE_DELAY :: nat
  TAP_HOLD_CAPS_DELAY :: nat
  LOCKING_SUPPORT_ENABLE :: bool
  LOCKING_RESYNC_ENABLE :: bool
  RETRO_TAPPING :: bool
  HOLD_CANCELS_TAP :: "keyrecord \<Rightarrow> bool"
  get_retro_tapping :: "keyrecord \<Rightarrow> bool"
  pre_process_record_quantum :: "keyrecord \<Rightarrow> 'w act_state \<Rightarrow> bool \<times> 'w act_state"
  process_record_quantum :: "keyrecord \<Rightarrow> 'w act_state \<Rightarrow> bool \<times> 'w act_state"
  post_process_record_quantum :: "keyrecord \<Rightarrow> 'w act_state \<Rightarrow> 'w act_state"

type_synonym 'w step = "'w act_state \<Rightarrow> 'w act_state"

definition on_util :: "('w util_state \<Rightarrow> 'w util_state) \<Rightarrow> 'w step" where
  "on_util f s = s\<lparr>util := f (util s)\<rparr>"

definition on_layers :: "('w layers \<Rightarrow> 'w layers) \<Rightarrow> 'w step" where
  "on_layers f = on_util (\<lambda>u. u\<lparr>layers := f (layers u)\<rparr>)"

definition out :: "effect \<Rightarrow> 'w step" where
  "out e = on_util (emit e)"

definition set_swap_hands :: "bool \<Rightarrow> 'w step" where
  "set_swap_hands b = on_util (\<lambda>u. u\<lparr>swap_hands := b\<rparr>)"

definition toggle_swap_hands :: "'w step" where
  "toggle_swap_hands = on_util (\<lambda>u. u\<lparr>swap_hands := \<not> swap_hands u\<rparr>)"

definition wait_ms :: "nat \<Rightarrow> 'w step" where
  "wait_ms ms s = s\<lparr>clock := clock s + of_nat ms\<rparr>"

definition send_report :: "'w act_cfg \<Rightarrow> 'w step" where
  "send_report c s = on_util (send_keyboard_report (ucfg c) (clock s)) s"

section \<open>Swapping hands\<close>

definition should_swap_hands :: "nat \<Rightarrow> u8 list \<Rightarrow> bool \<Rightarrow> 'w act_state \<Rightarrow> bool option" where
  "should_swap_hands index swap_state press s =
     (let array_index = index div CHAR_BIT; bit_val = push_bit (index mod CHAR_BIT) 1 :: u8
      in if press then Some (swap_hands (util s))
         else if array_index < length swap_state then Some (swap_state ! array_index AND bit_val \<noteq> 0) else None)"

definition set_swap_hands_state :: "nat \<Rightarrow> u8 list \<Rightarrow> bool \<Rightarrow> u8 list option" where
  "set_swap_hands_state index swap_state on =
     (let array_index = index div CHAR_BIT; bit_val = push_bit (index mod CHAR_BIT) 1 :: u8
      in if array_index < length swap_state
         then Some (swap_state[array_index :=
                if on then swap_state ! array_index OR bit_val else swap_state ! array_index AND NOT bit_val])
         else None)"

definition swap_index :: "'w act_cfg \<Rightarrow> keypos \<Rightarrow> nat" where
  "swap_index c pos = unat (row pos) * MATRIX_COLS (lcfg c) + unat (col pos)"

definition process_hand_swap :: "'w act_cfg \<Rightarrow> keyevent \<Rightarrow> 'w act_state \<Rightarrow> (keyevent \<times> 'w act_state) option" where
  "process_hand_swap c e s =
     (let pos = key e
      in if IS_KEYEVENT e \<and> on_matrix (lcfg c) pos
         then do {
           do_swap \<leftarrow> should_swap_hands (swap_index c pos) (matrix_swap_state s) (pressed e) s;
           let e' = (if do_swap then e\<lparr>key := hand_swap_config c (row pos) (col pos)\<rparr> else e);
           st \<leftarrow> set_swap_hands_state (swap_index c pos) (matrix_swap_state s) do_swap;
           Some (e', s\<lparr>matrix_swap_state := st\<rparr>)
         }
         else if IS_ENCODEREVENT e \<and> on_encoder (lcfg c) pos
         then do {
           do_swap \<leftarrow> should_swap_hands (unat (col pos)) (encoder_swap_state s) (pressed e) s;
           e' \<leftarrow> (if \<not> do_swap then Some e
                 else if unat (col pos) < NUM_ENCODERS (lcfg c)
                 then Some (e\<lparr>key := \<lparr>col = encoder_hand_swap_config c (col pos), row = row pos\<rparr>\<rparr>) else None);
           st \<leftarrow> set_swap_hands_state (unat (col pos)) (encoder_swap_state s) do_swap;
           Some (e', s\<lparr>encoder_swap_state := st\<rparr>)
         }
         else Some (e, s))"

text \<open>\<open>process_record_tap_hint\<close>.\<close>

definition tap_hint :: "'w word act_cfg \<Rightarrow> keyrecord \<Rightarrow> 'w::len word act_state \<Rightarrow> 'w word act_state" where
  "tap_hint c r s =
     (if \<not> IS_KEYEVENT (event r) then s
      else let action = layer_switch_get_action (lcfg c) (action_for_key c) (key (event r)) (layers (util s))
           in if kind_id action = ACT_SWAP_HANDS \<and> code_of action \<noteq> OP_SH_ONESHOT
              then (toggle_swap_hands s)\<lparr>swap_held := True\<rparr> else s)"

section \<open>System and consumer usages\<close>

definition host_system_send :: "u16 \<Rightarrow> 'w step" where
  "host_system_send usage s =
     (if usage = last_system_usage s then s else out (HostSystem usage) (s\<lparr>last_system_usage := usage\<rparr>))"

definition host_consumer_send :: "u16 \<Rightarrow> 'w step" where
  "host_consumer_send usage s =
     (if usage = last_consumer_usage s then s else out (HostConsumer usage) (s\<lparr>last_consumer_usage := usage\<rparr>))"

section \<open>Registering codes\<close>

definition add_key :: "'w act_cfg \<Rightarrow> u8 \<Rightarrow> 'w step" where
  "add_key c kc = on_util (\<lambda>u. u\<lparr>report := add_key_to_report (variant (ucfg c)) kc (report u)\<rparr>)"

definition del_key :: "'w act_cfg \<Rightarrow> u8 \<Rightarrow> 'w step" where
  "del_key c kc = on_util (\<lambda>u. u\<lparr>report := del_key_from_report (variant (ucfg c)) kc (report u)\<rparr>)"

definition clear_keys :: "'w act_cfg \<Rightarrow> 'w step" where
  "clear_keys c = on_util (\<lambda>u. u\<lparr>report := clear_keys_from_report (variant (ucfg c)) (report u)\<rparr>)"

definition tap_lock :: "'w act_cfg \<Rightarrow> u8 \<Rightarrow> nat \<Rightarrow> 'w step" where
  "tap_lock c kc delay s = send_report c (del_key c kc (wait_ms delay (send_report c (add_key c kc s))))"

text \<open>The locking keycodes: the key to send, its LED and the delay of a press.\<close>

definition locking :: "'w act_cfg \<Rightarrow> u8 \<Rightarrow> (u8 \<times> nat \<times> nat) option" where
  "locking c code =
     (if \<not> LOCKING_SUPPORT_ENABLE c then None
      else if code = 0x82 then Some (KC_CAPS_LOCK, 1, TAP_HOLD_CAPS_DELAY c)
      else if code = 0x83 then Some (0x53, 0, 100)
      else if code = 0x84 then Some (0x47, 2, 100)
      else None)"

definition register_code :: "'w act_cfg \<Rightarrow> u8 \<Rightarrow> 'w step" where
  "register_code c code s =
     (if code = KC_NO then s
      else case locking c code of
        Some (kc, led, delay) \<Rightarrow>
          if LOCKING_RESYNC_ENABLE c \<and> bit (host_leds s) led then s else tap_lock c kc delay s
      | None \<Rightarrow>
          if IS_BASIC_KEYCODE code
          then let s = (if is_key_pressed (variant (ucfg c)) code (report (util s))
                        then send_report c (del_key c code s) else s)
               in send_report c (add_key c code s)
          else if IS_MODIFIER_KEYCODE code
          then send_report c (on_util (add_mods (ucfg c) (MOD_BIT code)) s)
          else if IS_SYSTEM_KEYCODE code then host_system_send (KEYCODE2SYSTEM code) s
          else if IS_CONSUMER_KEYCODE code then host_consumer_send (KEYCODE2CONSUMER code) s
          else if IS_MOUSE_KEYCODE code then out (Mouse code True) s
          else s)"

definition unregister_code :: "'w act_cfg \<Rightarrow> u8 \<Rightarrow> 'w step" where
  "unregister_code c code s =
     (if code = KC_NO then s
      else case locking c code of
        Some (kc, led, delay) \<Rightarrow>
          if LOCKING_RESYNC_ENABLE c \<and> \<not> bit (host_leds s) led then s else tap_lock c kc 0 s
      | None \<Rightarrow>
          if IS_BASIC_KEYCODE code then send_report c (del_key c code s)
          else if IS_MODIFIER_KEYCODE code
          then send_report c (on_util (del_mods (ucfg c) (MOD_BIT code)) s)
          else if IS_SYSTEM_KEYCODE code then host_system_send 0 s
          else if IS_CONSUMER_KEYCODE code then host_consumer_send 0 s
          else if IS_MOUSE_KEYCODE code then out (Mouse code False) s
          else s)"

definition tap_code_delay :: "'w act_cfg \<Rightarrow> u8 \<Rightarrow> u16 \<Rightarrow> 'w step" where
  "tap_code_delay c code delay s = unregister_code c code (wait_ms (unat delay) (register_code c code s))"

definition tap_code :: "'w act_cfg \<Rightarrow> u8 \<Rightarrow> 'w step" where
  "tap_code c code =
     tap_code_delay c code (of_nat (if code = KC_CAPS_LOCK then TAP_HOLD_CAPS_DELAY c else TAP_CODE_DELAY c))"

definition register_mods :: "'w act_cfg \<Rightarrow> u8 \<Rightarrow> 'w step" where
  "register_mods c mods s = (if mods \<noteq> 0 then send_report c (on_util (add_mods (ucfg c) mods) s) else s)"

definition unregister_mods :: "'w act_cfg \<Rightarrow> u8 \<Rightarrow> 'w step" where
  "unregister_mods c mods s = (if mods \<noteq> 0 then send_report c (on_util (del_mods (ucfg c) mods) s) else s)"

definition register_weak_mods :: "'w act_cfg \<Rightarrow> u8 \<Rightarrow> 'w step" where
  "register_weak_mods c mods s = (if mods \<noteq> 0 then send_report c (on_util (add_weak_mods (ucfg c) mods) s) else s)"

definition unregister_weak_mods :: "'w act_cfg \<Rightarrow> u8 \<Rightarrow> 'w step" where
  "unregister_weak_mods c mods s = (if mods \<noteq> 0 then send_report c (on_util (del_weak_mods (ucfg c) mods) s) else s)"

definition clear_keyboard_but_mods_and_keys :: "'w act_cfg \<Rightarrow> 'w step" where
  "clear_keyboard_but_mods_and_keys c s =
     send_report c (on_util (clear_weak_mods (ucfg c)) (host_consumer_send 0 (host_system_send 0 s)))"

definition clear_keyboard_but_mods :: "'w act_cfg \<Rightarrow> 'w step" where
  "clear_keyboard_but_mods c s = clear_keyboard_but_mods_and_keys c (clear_keys c s)"

text \<open>\<open>clear_keyboard\<close>.\<close>

definition clear_all :: "'w act_cfg \<Rightarrow> 'w step" where
  "clear_all c s = clear_keyboard_but_mods c (on_util (clear_mods (ucfg c)) s)"

section \<open>Actions\<close>

text \<open>
  One definition per case of the switch of \<open>process_action\<close>; \<open>press\<close> is \<open>event.pressed\<close> and
  \<open>tc\<close> the tap count of the record.
\<close>

definition hand_mods :: "u16 \<Rightarrow> u8" where
  "hand_mods action =
     (if kind_id action = ACT_LMODS \<or> kind_id action = ACT_LMODS_TAP then key_mods action
      else push_bit 4 (key_mods action))"

definition act_mods :: "'w act_cfg \<Rightarrow> u16 \<Rightarrow> bool \<Rightarrow> 'w step" where
  "act_mods c action press s =
     (let mods = hand_mods action; code = code_of action; strong = (IS_MODIFIER_KEYCODE code \<or> code = KC_NO)
      in if press
         then register_code c code
                (if mods \<noteq> 0
                 then send_report c (on_util (if strong then add_mods (ucfg c) mods else add_weak_mods (ucfg c) mods) s)
                 else s)
         else let s = unregister_code c code s
              in if mods \<noteq> 0
                 then send_report c (on_util (if strong then del_mods (ucfg c) mods else del_weak_mods (ucfg c) mods) s)
                 else s)"

definition act_oneshot_mods :: "'w act_cfg \<Rightarrow> u8 \<Rightarrow> bool \<Rightarrow> nat \<Rightarrow> 'w step" where
  "act_oneshot_mods c mods press tc s =
     (let drop = (\<lambda>s. on_util (del_oneshot_locked_mods mods)
                      (on_util (del_oneshot_mods (ucfg c) mods (clock s)) (unregister_mods c mods s)))
      in if press
         then if tc = 0 then register_mods c mods s
              else if tc = 1 then on_util (add_oneshot_mods (ucfg c) mods (clock s)) s
              else if 1 < ONESHOT_TAP_TOGGLE c \<and> tc = ONESHOT_TAP_TOGGLE c
              then on_util (add_oneshot_locked_mods mods)
                     (on_util (del_oneshot_mods (ucfg c) mods (clock s)) (register_mods c mods s))
              else s
         else if tc = 0 then drop s
         else if 1 < ONESHOT_TAP_TOGGLE c \<and> tc = 1 \<and> mods AND real_mods (util s) \<noteq> 0 then drop s
         else s)"

definition act_mods_tap :: "'w act_cfg \<Rightarrow> keyrecord \<Rightarrow> u16 \<Rightarrow> bool \<Rightarrow> nat \<Rightarrow> 'w act_state \<Rightarrow> keyrecord \<times> 'w act_state" where
  "act_mods_tap c r action press tc s =
     (let mods = hand_mods action; code = code_of action
      in if code = MODS_ONESHOT
         then (r, if oneshot_enable (util s) then act_oneshot_mods c mods press tc s else act_mods c action press s)
         else if code = MODS_TAP_TOGGLE
         then (r, if press then if tc \<le> TAPPING_TOGGLE c then register_mods c mods s else s
                  else if tc < TAPPING_TOGGLE c then unregister_mods c mods s else s)
         else if press
         then if 0 < tc
              then if HOLD_CANCELS_TAP c r \<and> interrupted (tap r)
                   then (set_count 0 r, register_mods c mods s)
                   else (r, register_code c code s)
              else (r, register_mods c mods s)
         else if 0 < tc
         then (r, unregister_code c code
                    (wait_ms (if code = KC_CAPS_LOCK then TAP_HOLD_CAPS_DELAY c else TAP_CODE_DELAY c) s))
         else (r, unregister_mods c mods s))"

definition act_usage :: "u16 \<Rightarrow> bool \<Rightarrow> 'w step" where
  "act_usage action press s =
     (let usage = (if press then usage_code action else 0)
      in if usage_page action = PAGE_SYSTEM then host_system_send usage s
         else if usage_page action = PAGE_CONSUMER then host_consumer_send usage s
         else s)"

definition act_layer :: "'w word act_cfg \<Rightarrow> u16 \<Rightarrow> bool \<Rightarrow> 'w::len word act_state \<Rightarrow> 'w word act_state" where
  "act_layer c action press s =
     (let shift = unat (layer_bitop_part action * 4);
          bs = push_bit shift (ucast (layer_bitop_bits action)) :: 'w word;
          mask = (if layer_bitop_xbit action then NOT (push_bit shift 0xF) else 0) :: 'w word;
          op = layer_bitop_op action; kb = layer_state_set_kb (ucfg c); dkb = default_layer_state_set_kb c
      in if layer_bitop_on action = 0
         then if press then s
              else on_layers (if op = OP_BIT_AND then default_layer_and dkb (bs OR mask)
                              else if op = OP_BIT_OR then default_layer_or dkb (bs OR mask)
                              else if op = OP_BIT_XOR then default_layer_xor dkb (bs OR mask)
                              else default_layer_state_set dkb (bs OR mask)) s
         else if layer_bitop_on action AND (if press then ON_PRESS else ON_RELEASE) \<noteq> 0
         then on_layers (if op = OP_BIT_AND then layer_and kb (bs OR mask)
                         else if op = OP_BIT_OR then layer_or kb (bs OR mask)
                         else if op = OP_BIT_XOR then layer_xor kb (bs OR mask)
                         else layer_state_set kb (bs OR mask)) s
         else s)"

definition act_layer_mods :: "'w word act_cfg \<Rightarrow> u16 \<Rightarrow> bool \<Rightarrow> 'w::len word act_state \<Rightarrow> 'w word act_state" where
  "act_layer_mods c action press s =
     (let kb = layer_state_set_kb (ucfg c); layer = layer_mods_layer action; mods = layer_mods_mods action
      in if press then register_mods c mods (on_layers (layer_on kb layer) s)
         else on_layers (layer_off kb layer) (unregister_mods c mods s))"

text \<open>The result also says whether \<open>do_release_oneshot\<close> is left as it is.\<close>

definition act_oneshot_layer ::
  "'w word act_cfg \<Rightarrow> u8 \<Rightarrow> bool \<Rightarrow> nat \<Rightarrow> 'w::len word act_state \<Rightarrow> bool \<times> 'w word act_state" where
  "act_oneshot_layer c layer press tc s =
     (let kb = layer_state_set_kb (ucfg c); u = ucfg c
      in if \<not> oneshot_enable (util s)
         then (True, on_layers (if press then layer_on kb layer else layer_off kb layer) s)
         else if 1 < ONESHOT_TAP_TOGGLE c
         then (False,
           if press
           then if get_oneshot_layer_state (util s) = ONESHOT_TOGGLED
                then on_layers (layer_off kb layer) (on_util (reset_oneshot_layer u) s)
                else if tc < ONESHOT_TAP_TOGGLE c
                then on_util (set_oneshot_layer u layer ONESHOT_START (clock s)) (on_layers (layer_on kb layer) s)
                else s
           else if ONESHOT_TAP_TOGGLE c \<le> tc
           then on_util (set_oneshot_layer u layer ONESHOT_TOGGLED (clock s)) (on_util (reset_oneshot_layer u) s)
           else on_util (clear_oneshot_layer_state u ONESHOT_PRESSED) s)
         else (True,
           if press
           then on_util (set_oneshot_layer u layer ONESHOT_START (clock s)) (on_layers (layer_on kb layer) s)
           else let s = on_util (clear_oneshot_layer_state u ONESHOT_PRESSED) s
                in if 1 < tc then on_util (clear_oneshot_layer_state u ONESHOT_OTHER_KEY_PRESSED) s else s))"

definition act_layer_tap ::
  "'w word act_cfg \<Rightarrow> u16 \<Rightarrow> bool \<Rightarrow> nat \<Rightarrow> 'w::len word act_state \<Rightarrow> bool \<times> 'w word act_state" where
  "act_layer_tap c action press tc s =
     (let kb = layer_state_set_kb (ucfg c); layer = layer_tap_val action; code = code_of action
      in if code = OP_TAP_TOGGLE
         then (True, if press then if tc < TAPPING_TOGGLE c then on_layers (layer_invert kb layer) s else s
                     else if tc \<le> TAPPING_TOGGLE c then on_layers (layer_invert kb layer) s else s)
         else if code = OP_ON_OFF
         then (True, on_layers (if press then layer_on kb layer else layer_off kb layer) s)
         else if code = OP_OFF_ON
         then (True, on_layers (if press then layer_off kb layer else layer_on kb layer) s)
         else if code = OP_SET_CLEAR
         then (True, on_layers (if press then layer_move kb layer else layer_clear kb) s)
         else if code = OP_ONESHOT then act_oneshot_layer c layer press tc s
         else (True,
           if press then if 0 < tc then register_code c code s else on_layers (layer_on kb layer) s
           else if 0 < tc
           then unregister_code c code
                  (wait_ms (if code = KC_CAPS_LOCK then TAP_HOLD_CAPS_DELAY c else TAP_CODE_DELAY c) s)
           else on_layers (layer_off kb layer) s))"

definition act_swap_hands ::
  "'w act_cfg \<Rightarrow> keyrecord \<Rightarrow> u16 \<Rightarrow> bool \<Rightarrow> nat \<Rightarrow> 'w act_state \<Rightarrow> keyrecord \<times> 'w act_state" where
  "act_swap_hands c r action press tc s =
     (let code = code_of action; undo_hold = (\<lambda>s. (toggle_swap_hands s)\<lparr>swap_held := False\<rparr>)
      in if code = OP_SH_TOGGLE then (r, if press then toggle_swap_hands s else s)
         else if code = OP_SH_ON_OFF then (r, set_swap_hands press s)
         else if code = OP_SH_OFF_ON then (r, set_swap_hands (\<not> press) s)
         else if code = OP_SH_ON then (r, if press then s else set_swap_hands True s)
         else if code = OP_SH_OFF then (r, if press then s else set_swap_hands False s)
         else if code = OP_SH_ONESHOT
         then (r, on_util (if press then set_oneshot_swaphands (ucfg c) (clock s) else release_oneshot_swaphands (ucfg c)) s)
         else if code = OP_SH_TAP_TOGGLE
         then (r, if press then if swap_held s then s\<lparr>swap_held := False\<rparr> else toggle_swap_hands s
                  else if tc < TAPPING_TOGGLE c then toggle_swap_hands s else s)
         else if 0 < tc
         then let s = (if swap_held s then undo_hold s else s)
              in if press then (r, register_code c code s)
                 else (no_record, unregister_code c code (wait_ms (TAP_CODE_DELAY c) s))
         else (r, if swap_held s \<and> \<not> press then undo_hold s else s))"

section \<open>Processing a record\<close>

text \<open>Whether the press ends an active one-shot layer.\<close>

definition ends_oneshot_layer :: "u16 \<Rightarrow> bool \<Rightarrow> nat \<Rightarrow> 'w act_state \<Rightarrow> bool" where
  "ends_oneshot_layer action press tc s \<longleftrightarrow>
     is_oneshot_layer_active (util s) \<and> press
     \<and> (kind_id action = ACT_USAGE
        \<or> \<not> (IS_MODIFIER_KEYCODE (code_of action)
             \<or> (kind_id action = ACT_LMODS_TAP \<or> kind_id action = ACT_RMODS_TAP)
               \<and> (code_of action \<le> MODS_TAP_TOGGLE \<or> tc = 0)))
     \<and> \<not> (kind_id action = ACT_SWAP_HANDS \<and> code_of action = OP_SH_ONESHOT)
     \<and> oneshot_enable (util s)"

text \<open>The switch: the record, whether \<open>do_release_oneshot\<close> is kept, and the state.\<close>

definition act_switch ::
  "'w word act_cfg \<Rightarrow> keyrecord \<Rightarrow> u16 \<Rightarrow> bool \<Rightarrow> nat \<Rightarrow> 'w::len word act_state \<Rightarrow> keyrecord \<times> bool \<times> 'w word act_state" where
  "act_switch c r action press tc s =
     (case kind_id action of
        ACT_LMODS \<Rightarrow> (r, True, act_mods c action press s)
      | ACT_RMODS \<Rightarrow> (r, True, act_mods c action press s)
      | ACT_LMODS_TAP \<Rightarrow> (case act_mods_tap c r action press tc s of (r, s) \<Rightarrow> (r, True, s))
      | ACT_RMODS_TAP \<Rightarrow> (case act_mods_tap c r action press tc s of (r, s) \<Rightarrow> (r, True, s))
      | ACT_USAGE \<Rightarrow> (r, True, act_usage action press s)
      | ACT_MOUSEKEY \<Rightarrow> (r, True, out (Mouse (code_of action) press) s)
      | ACT_LAYER \<Rightarrow> (r, True, act_layer c action press s)
      | ACT_LAYER_MODS \<Rightarrow> (r, True, act_layer_mods c action press s)
      | ACT_LAYER_TAP \<Rightarrow> (r, act_layer_tap c action press tc s)
      | ACT_LAYER_TAP_EXT \<Rightarrow> (r, act_layer_tap c action press tc s)
      | ACT_SWAP_HANDS \<Rightarrow> (case act_swap_hands c r action press tc s of (r, s) \<Rightarrow> (r, True, s))
      | ACT_RESERVED \<Rightarrow> (r, True, s))"

definition update_leds :: "u16 \<Rightarrow> 'w step" where
  "update_leds action s =
     (if kind_id action \<in> {ACT_LAYER, ACT_LAYER_MODS, ACT_LAYER_TAP, ACT_LAYER_TAP_EXT}
      then out (LedSet (host_leds s)) s else s)"

definition retro_tap :: "'w act_cfg \<Rightarrow> keyrecord \<Rightarrow> u16 \<Rightarrow> bool \<Rightarrow> nat \<Rightarrow> 'w step" where
  "retro_tap c r action press tc s =
     (if \<not> RETRO_TAPPING c then s
      else if \<not> is_tap_action action then s\<lparr>retro_tapping_counter := 0\<rparr>
      else if press then if 0 < tc then s\<lparr>retro_tapping_counter := 0\<rparr> else s
      else if 0 < tc then s\<lparr>retro_tapping_counter := 0\<rparr>
      else (if get_retro_tapping c r \<and> retro_tapping_counter s = 2 then tap_code c (code_of action) s else s)
             \<lparr>retro_tapping_counter := 0\<rparr>)"

text \<open>\<open>again\<close> is the nested call of \<open>process_record\<close> for the release of a key on a one-shot layer.\<close>

definition process_action ::
  "'w word act_cfg \<Rightarrow> (keyrecord \<Rightarrow> 'w word act_state \<Rightarrow> (keyrecord \<times> 'w word act_state) option)
    \<Rightarrow> keyrecord \<Rightarrow> u16 \<Rightarrow> 'w::len word act_state \<Rightarrow> (keyrecord \<times> 'w word act_state) option" where
  "process_action c again r action s =
     (let press = pressed (event r); tc = unat (tap_count (tap r)); kb = layer_state_set_kb (ucfg c);
          ends = ends_oneshot_layer action press tc s;
          s = (if ends then on_util (clear_oneshot_layer_state (ucfg c) ONESHOT_OTHER_KEY_PRESSED) s else s);
          do_release_oneshot = (ends \<and> \<not> is_oneshot_layer_active (util s));
          (r, kept, s) = act_switch c r action press tc s;
          do_release_oneshot = (do_release_oneshot \<and> kept);
          s = retro_tap c r action press tc (update_leds action s);
          s = (if press \<and> \<not> (kind_id action = ACT_SWAP_HANDS \<and> code_of action = OP_SH_ONESHOT)
               then on_util (use_oneshot_swaphands (ucfg c)) s else s)
      in if do_release_oneshot \<and> get_oneshot_layer_state (util s) AND ONESHOT_PRESSED = 0
         then do {
           let r = r\<lparr>event := (event r)\<lparr>pressed := False\<rparr>\<rparr>;
           let s = on_layers (layer_on kb (get_oneshot_layer (util s))) s;
           (r, s) \<leftarrow> again r s;
           Some (r, on_layers (layer_off kb (get_oneshot_layer (util s))) s)
         }
         else Some (r, s))"

definition process_record_handler ::
  "'w word act_cfg \<Rightarrow> (keyrecord \<Rightarrow> 'w word act_state \<Rightarrow> (keyrecord \<times> 'w word act_state) option)
    \<Rightarrow> keyrecord \<Rightarrow> 'w::len word act_state \<Rightarrow> (keyrecord \<times> 'w word act_state) option" where
  "process_record_handler c again r s = do {
     (action, l) \<leftarrow> store_or_get_action (lcfg c) (action_for_key c) (pressed (event r)) (key (event r)) (layers (util s));
     process_action c again r action (on_util (\<lambda>u. u\<lparr>layers := l\<rparr>) s)
   }"

text \<open>The recursion is bounded by the first argument; two levels are enough, as the nested call is for
  a release, which makes no further one.\<close>

primrec process_record_level ::
  "nat \<Rightarrow> 'w word act_cfg \<Rightarrow> keyrecord \<Rightarrow> 'w::len word act_state \<Rightarrow> (keyrecord \<times> 'w word act_state) option" where
  "process_record_level 0 c r s = None"
| "process_record_level (Suc n) c r s =
     (if IS_NOEVENT (event r) then Some (r, s)
      else case process_record_quantum c r s of (go_on, s) \<Rightarrow>
        if \<not> go_on
        then Some (r, if is_oneshot_layer_active (util s) \<and> pressed (event r) \<and> oneshot_enable (util s)
                      then on_util (clear_oneshot_layer_state (ucfg c) ONESHOT_OTHER_KEY_PRESSED) s else s)
        else do {
          (r, s) \<leftarrow> process_record_handler c (process_record_level n c) r s;
          Some (r, post_process_record_quantum c r s)
        })"

text \<open>\<open>process_record\<close> and \<open>process_record_nocache\<close>.\<close>

definition process_rec where
  "process_rec c r s = process_record_level 2 c r s"

definition process_record_nocache ::
  "'w word act_cfg \<Rightarrow> keyrecord \<Rightarrow> 'w::len word act_state \<Rightarrow> (keyrecord \<times> 'w word act_state) option" where
  "process_record_nocache c r s = do {
     (r, s) \<leftarrow> process_rec c r (on_layers (\<lambda>l. l\<lparr>disable_action_cache := True\<rparr>) s);
     Some (r, on_layers (\<lambda>l. l\<lparr>disable_action_cache := False\<rparr>) s)
   }"

section \<open>Executing events\<close>

text \<open>
  The choices of the keymap and the build for the tap-hold machine, and its environment: the
  functions above on a state that is None once an array has been left.
\<close>

record 'w tap_options =
  get_tapping_term :: "keyrecord \<Rightarrow> 'w act_state \<Rightarrow> u16"
  get_quick_tap_term :: "keyrecord \<Rightarrow> 'w act_state \<Rightarrow> u16"
  get_permissive_hold :: "keyrecord \<Rightarrow> 'w act_state \<Rightarrow> bool"
  get_hold_on_other_key_press :: "keyrecord \<Rightarrow> 'w act_state \<Rightarrow> bool"

definition key_action :: "'w word act_cfg \<Rightarrow> keypos \<Rightarrow> 'w::len word act_state \<Rightarrow> u16" where
  "key_action c k s = layer_switch_get_action (lcfg c) (action_for_key c) k (layers (util s))"

definition is_tap_rec :: "'w word act_cfg \<Rightarrow> keyrecord \<Rightarrow> 'w::len word act_state \<Rightarrow> bool" where
  "is_tap_rec c r s \<longleftrightarrow> IS_EVENT (event r) \<and> is_tap_action (key_action c (key (event r)) s)"

definition act_env :: "'w word act_cfg \<Rightarrow> 'w word tap_options \<Rightarrow> 'w::len word act_state option tapping_cfg" where
  "act_env c opts =
     \<lparr>GET_TAPPING_TERM = \<lambda>r e. case e of None \<Rightarrow> 0 | Some s \<Rightarrow> get_tapping_term opts r s,
      GET_QUICK_TAP_TERM = \<lambda>r e. case e of None \<Rightarrow> 0 | Some s \<Rightarrow> get_quick_tap_term opts r s,
      TAP_GET_PERMISSIVE_HOLD = \<lambda>r e. case e of None \<Rightarrow> False | Some s \<Rightarrow> get_permissive_hold opts r s,
      TAP_GET_HOLD_ON_OTHER_KEY_PRESS = \<lambda>r e. case e of None \<Rightarrow> False | Some s \<Rightarrow> get_hold_on_other_key_press opts r s,
      is_tap_record = \<lambda>r e. case e of None \<Rightarrow> False | Some s \<Rightarrow> is_tap_rec c r s,
      get_action = \<lambda>k e. case e of None \<Rightarrow> 0 | Some s \<Rightarrow> key_action c k s,
      process_record = \<lambda>r e. case e \<bind> process_rec c r of None \<Rightarrow> (r, None) | Some (r, s) \<Rightarrow> (r, Some s),
      process_record_tap_hint = \<lambda>r. map_option (tap_hint c r),
      clear_keyboard = map_option (clear_all c)\<rparr>"

definition oneshot_timeouts :: "'w word act_cfg \<Rightarrow> 'w::len word act_state \<Rightarrow> 'w word act_state" where
  "oneshot_timeouts c s =
     (if oneshot_enable (util s)
      then let u = ucfg c;
               s = (if has_oneshot_layer_timed_out u (clock s) (util s)
                    then on_util (clear_oneshot_layer_state u ONESHOT_OTHER_KEY_PRESSED) s else s);
               s = (if has_oneshot_mods_timed_out u (clock s) (util s) then on_util (clear_oneshot_mods u) s else s)
           in if has_oneshot_swaphands_timed_out u (clock s) (util s) then on_util (clear_oneshot_swaphands u) s else s
      else s)"

definition action_exec ::
  "'w word act_cfg \<Rightarrow> 'w word tap_options \<Rightarrow> keyevent \<Rightarrow> 'w::len word act_state option tapping
    \<Rightarrow> 'w word act_state option tapping option" where
  "action_exec c opts e t = do {
     s \<leftarrow> env t;
     let s = (if IS_EVENT e \<and> RETRO_TAPPING c then s\<lparr>retro_tapping_counter := retro_tapping_counter s + 1\<rparr> else s);
     let s = (if pressed e then on_util (clear_weak_mods (ucfg c)) s else s);
     (e, s) \<leftarrow> (if IS_EVENT e then process_hand_swap c e s else Some (e, s));
     let r = \<lparr>event = e, tap = no_tap\<rparr>;
     let s = oneshot_timeouts c s;
     let (go_on, s) = (if IS_NOEVENT e then (True, s) else pre_process_record_quantum c r s);
     if go_on then action_tapping_process (act_env c opts) r (t\<lparr>env := Some s\<rparr>) else Some (t\<lparr>env := Some s\<rparr>)
   }"

end
