(* ===== verification/ActionSafe.thy ===== *)
theory ActionSafe
  imports Action TappingProps
begin

text \<open>
  The execution of actions is type safe: whatever the keymap says, the report keeps its invariant,
  the caches and swap states keep their sizes and no array is left. First for the operations, then
  for \<open>process_record\<close>, at last for whole runs of \<open>action_exec\<close> through the tap-hold machine.
\<close>

section \<open>The invariant\<close>

definition util_ok :: "'w::len word act_cfg \<Rightarrow> bool \<Rightarrow> bool \<Rightarrow> 'w word util_state \<Rightarrow> bool" where
  "util_ok c p q u \<longleftrightarrow> report_ok (variant (ucfg c)) p q (report u) \<and> layers_ok (lcfg c) (layers u)"

definition act_ok :: "'w::len word act_cfg \<Rightarrow> bool \<Rightarrow> bool \<Rightarrow> 'w word act_state \<Rightarrow> bool" where
  "act_ok c p q s \<longleftrightarrow> util_ok c p q (util s)
     \<and> MATRIX_ROWS (lcfg c) * MATRIX_COLS (lcfg c) \<le> 8 * length (matrix_swap_state s)
     \<and> NUM_ENCODERS (lcfg c) \<le> 8 * length (encoder_swap_state s)"

section \<open>Operations on the report, the modifiers and the layers\<close>

named_theorems ok_simps "operations that keep the invariant"

lemma report_ok_fields [simp]:
  "report_ok b p q (x\<lparr>kb_mods := m\<rparr>) = report_ok b p q x"
  "report_ok b p q (x\<lparr>nkro_mods := m\<rparr>) = report_ok b p q x"
  "report_ok b p q (x\<lparr>kb_report_changed := m\<rparr>) = report_ok b p q x"
  "report_ok b p q (note_change v m x) = report_ok b p q x"
  by (simp_all add: report_ok_def byte_keys_def bit_keys_def in_bits_def note_change_def)

lemma util_ok_fields [simp]:
  "util_ok c p q (u\<lparr>real_mods := m\<rparr>) = util_ok c p q u"
  "util_ok c p q (u\<lparr>weak_mods := m\<rparr>) = util_ok c p q u"
  "util_ok c p q (u\<lparr>oneshot_mods := m\<rparr>) = util_ok c p q u"
  "util_ok c p q (u\<lparr>oneshot_locked_mods := m\<rparr>) = util_ok c p q u"
  "util_ok c p q (u\<lparr>oneshot_time := t\<rparr>) = util_ok c p q u"
  "util_ok c p q (u\<lparr>oneshot_layer_data := d\<rparr>) = util_ok c p q u"
  "util_ok c p q (u\<lparr>oneshot_layer_time := t\<rparr>) = util_ok c p q u"
  "util_ok c p q (u\<lparr>swap_hands_oneshot := h\<rparr>) = util_ok c p q u"
  "util_ok c p q (u\<lparr>swap_hands := b\<rparr>) = util_ok c p q u"
  "util_ok c p q (u\<lparr>oneshot_swaphands_time := t\<rparr>) = util_ok c p q u"
  "util_ok c p q (u\<lparr>last_report := r\<rparr>) = util_ok c p q u"
  "util_ok c p q (u\<lparr>last_nkro_report := r\<rparr>) = util_ok c p q u"
  "util_ok c p q (emit e u) = util_ok c p q u"
  "util_ok c p q (std_changed v u) = util_ok c p q u"
  by (simp_all add: util_ok_def emit_def std_changed_def)

lemma layers_ok_fields [simp]:
  "layers_ok l (x\<lparr>layer_state := m\<rparr>) = layers_ok l x"
  "layers_ok l (x\<lparr>default_layer_state := m\<rparr>) = layers_ok l x"
  "layers_ok l (x\<lparr>disable_action_cache := b\<rparr>) = layers_ok l x"
  by (simp_all add: layers_ok_def)

lemmas layer_setter_defs = layer_on_def layer_off_def layer_invert_def layer_move_def layer_clear_def layer_and_def
  layer_or_def layer_xor_def layer_state_set_def default_layer_state_set_def default_layer_and_def
  default_layer_or_def default_layer_xor_def

lemma layer_setters [simp]:
  "layers_ok l (layer_on kb n x) = layers_ok l x" "layers_ok l (layer_off kb n x) = layers_ok l x"
  "layers_ok l (layer_invert kb n x) = layers_ok l x" "layers_ok l (layer_move kb n x) = layers_ok l x"
  "layers_ok l (layer_clear kb x) = layers_ok l x" "layers_ok l (layer_and kb m x) = layers_ok l x"
  "layers_ok l (layer_or kb m x) = layers_ok l x" "layers_ok l (layer_xor kb m x) = layers_ok l x"
  "layers_ok l (layer_state_set kb m x) = layers_ok l x" "layers_ok l (default_layer_state_set kb m x) = layers_ok l x"
  "layers_ok l (default_layer_and kb m x) = layers_ok l x" "layers_ok l (default_layer_or kb m x) = layers_ok l x"
  "layers_ok l (default_layer_xor kb m x) = layers_ok l x"
  by (simp_all add: layer_setter_defs)

lemma util_ok_layers [simp]:
  "util_ok c p q (u\<lparr>layers := x\<rparr>) \<longleftrightarrow> report_ok (variant (ucfg c)) p q (report u) \<and> layers_ok (lcfg c) x"
  by (simp add: util_ok_def)

lemma util_okD: "util_ok c p q u \<Longrightarrow> report_ok (variant (ucfg c)) p q (report u)" "util_ok c p q u \<Longrightarrow> layers_ok (lcfg c) (layers u)"
  by (simp_all add: util_ok_def)

lemma util_ok_ops [simp]:
  assumes "util_ok c p q u"
  shows "util_ok c p q (add_mods v m u)" "util_ok c p q (del_mods v m u)"
    "util_ok c p q (add_weak_mods v m u)" "util_ok c p q (del_weak_mods v m u)"
    "util_ok c p q (clear_mods v u)" "util_ok c p q (clear_weak_mods v u)"
    "util_ok c p q (add_oneshot_mods v m t u)" "util_ok c p q (del_oneshot_mods v m t u)"
    "util_ok c p q (clear_oneshot_mods v u)"
    "util_ok c p q (add_oneshot_locked_mods m u)" "util_ok c p q (del_oneshot_locked_mods m u)"
    "util_ok c p q (set_oneshot_swaphands v t u)" "util_ok c p q (release_oneshot_swaphands v u)"
    "util_ok c p q (use_oneshot_swaphands v u)" "util_ok c p q (clear_oneshot_swaphands v u)"
    "util_ok c p q (reset_oneshot_layer v u)"
  using assms
  by (simp_all add: add_mods_def del_mods_def add_weak_mods_def del_weak_mods_def clear_mods_def clear_weak_mods_def
      add_oneshot_mods_def del_oneshot_mods_def clear_oneshot_mods_def stamp_def add_oneshot_locked_mods_def
      del_oneshot_locked_mods_def set_oneshot_swaphands_def release_oneshot_swaphands_def use_oneshot_swaphands_def
      clear_oneshot_swaphands_def reset_oneshot_layer_def Let_def)

lemma util_ok_oneshot_layer [simp]:
  assumes "util_ok c p q u"
  shows "util_ok c p q (set_oneshot_layer v l st t u)" "util_ok c p q (clear_oneshot_layer_state v st u)"
  using assms util_okD [OF assms]
  by (simp_all add: set_oneshot_layer_def clear_oneshot_layer_state_def Let_def)

lemma get_mods_ok: "util_ok c p q u \<Longrightarrow> get_mods_for_report v t u = (m, u') \<Longrightarrow> util_ok c p q u'"
  by (auto simp: get_mods_for_report_def Let_def split: if_splits)

lemma util_ok_report_fields [simp]:
  "util_ok c p q (u\<lparr>report := (report w)\<lparr>kb_mods := m\<rparr>\<rparr>) = util_ok c p q (u\<lparr>report := report w\<rparr>)"
  "util_ok c p q (u\<lparr>report := (report w)\<lparr>nkro_mods := m\<rparr>\<rparr>) = util_ok c p q (u\<lparr>report := report w\<rparr>)"
  "util_ok c p q (u\<lparr>report := (report w)\<lparr>kb_report_changed := m\<rparr>\<rparr>) = util_ok c p q (u\<lparr>report := report w\<rparr>)"
  by (simp_all add: util_ok_def)

lemma send_6kro_ok:
  assumes "util_ok c p q u"
  shows "util_ok c p q (send_6kro_report v t u)"
proof -
  obtain m u' where g: "get_mods_for_report v t u = (m, u')" by (cases "get_mods_for_report v t u")
  from get_mods_ok [OF assms g] show ?thesis
    by (simp add: send_6kro_report_def g Let_def util_ok_def emit_def)
qed

lemma send_nkro_ok:
  assumes "util_ok c p q u"
  shows "util_ok c p q (send_nkro_report v t u)"
proof -
  obtain m u' where g: "get_mods_for_report v t u = (m, u')" by (cases "get_mods_for_report v t u")
  from get_mods_ok [OF assms g] assms show ?thesis
    by (simp add: send_nkro_report_def g Let_def util_ok_def emit_def)
qed

lemma send_report_util_ok [simp]: "util_ok c p q u \<Longrightarrow> util_ok c p q (send_keyboard_report v t u)"
  by (simp add: send_keyboard_report_def Let_def send_6kro_ok send_nkro_ok split: build.split)

section \<open>Operations on the whole state\<close>

lemma act_ok_fields [simp]:
  "act_ok c p q (s\<lparr>swap_held := b\<rparr>) = act_ok c p q s"
  "act_ok c p q (s\<lparr>retro_tapping_counter := n\<rparr>) = act_ok c p q s"
  "act_ok c p q (s\<lparr>last_system_usage := w\<rparr>) = act_ok c p q s"
  "act_ok c p q (s\<lparr>last_consumer_usage := w\<rparr>) = act_ok c p q s"
  "act_ok c p q (wait_ms ms s) = act_ok c p q s"
  by (simp_all add: act_ok_def wait_ms_def)

lemma act_ok_on_util: "act_ok c p q s \<Longrightarrow> (util_ok c p q (util s) \<Longrightarrow> util_ok c p q (f (util s))) \<Longrightarrow> act_ok c p q (on_util f s)"
  by (simp add: act_ok_def on_util_def)

lemma act_ok_on_layers:
  "act_ok c p q s \<Longrightarrow> (\<And>x. layers_ok (lcfg c) (f x) = layers_ok (lcfg c) x) \<Longrightarrow> act_ok c p q (on_layers f s)"
  unfolding on_layers_def by (rule act_ok_on_util) (auto dest: util_okD)

lemma act_okD:
  assumes "act_ok c p q s"
  shows "util_ok c p q (util s)" "report_ok (variant (ucfg c)) p q (report (util s))" "layers_ok (lcfg c) (layers (util s))"
  using assms by (simp_all add: act_ok_def util_ok_def)

lemma act_ok_util_ops [simp]:
  assumes "act_ok c p q s"
  shows "act_ok c p q (out e s)" "act_ok c p q (set_swap_hands b s)" "act_ok c p q (toggle_swap_hands s)"
    "act_ok c p q (send_report d s)"
  using assms
  by (simp_all add: out_def set_swap_hands_def toggle_swap_hands_def send_report_def act_ok_on_util)

lemma act_ok_host [simp]:
  assumes "act_ok c p q s"
  shows "act_ok c p q (host_system_send w s)" "act_ok c p q (host_consumer_send w s)"
proof -
  have "act_ok c p q (out e (s\<lparr>last_system_usage := w\<rparr>))" "act_ok c p q (out e (s\<lparr>last_consumer_usage := w\<rparr>))" for e
    by (rule act_ok_util_ops(1); simp add: assms)+
  then show "act_ok c p q (host_system_send w s)" "act_ok c p q (host_consumer_send w s)"
    using assms by (simp_all add: host_system_send_def host_consumer_send_def)
qed

lemma act_ok_keys:
  assumes "act_ok c p q s"
  shows "kc \<noteq> 0 \<Longrightarrow> kc \<notin> report_held (variant (ucfg c)) p q (report (util s)) \<Longrightarrow> act_ok c p q (add_key c kc s)"
    and "kc \<noteq> 0 \<Longrightarrow> act_ok c p q (del_key c kc s)" and "act_ok c p q (clear_keys c s)"
proof -
  note r = act_okD(2) [OF assms] and l = act_okD(3) [OF assms]
  show "kc \<noteq> 0 \<Longrightarrow> kc \<notin> report_held (variant (ucfg c)) p q (report (util s)) \<Longrightarrow> act_ok c p q (add_key c kc s)"
    unfolding add_key_def using report_add [OF r] l by (intro act_ok_on_util [OF assms]) (simp add: util_ok_def)
  show "kc \<noteq> 0 \<Longrightarrow> act_ok c p q (del_key c kc s)"
    unfolding del_key_def using report_del [OF r] l by (intro act_ok_on_util [OF assms]) (simp add: util_ok_def)
  show "act_ok c p q (clear_keys c s)"
    unfolding clear_keys_def using report_clear [OF r] l by (intro act_ok_on_util [OF assms]) (simp add: util_ok_def)
qed

section \<open>Codes\<close>

lemma basic_nonzero: "IS_BASIC_KEYCODE code \<Longrightarrow> code \<noteq> 0"
  by (auto simp: IS_BASIC_KEYCODE_def)

lemma no_locking: "\<not> LOCKING_SUPPORT_ENABLE c \<Longrightarrow> locking c code = None"
  by (simp add: locking_def)


lemma get_mods_report: "get_mods_for_report v t u = (m, u') \<Longrightarrow> report u' = report u"
  by (auto simp: get_mods_for_report_def clear_oneshot_mods_def stamp_def Let_def split: if_splits)

lemma send_keeps_keys:
  "keys (report (send_keyboard_report v t u)) = keys (report u) \<and> bits (report (send_keyboard_report v t u)) = bits (report u)"
proof -
  have six: "keys (report (send_6kro_report v t u)) = keys (report u) \<and> bits (report (send_6kro_report v t u)) = bits (report u)" for u
    by (cases "get_mods_for_report v t u") (auto simp: send_6kro_report_def Let_def emit_def dest: get_mods_report)
  have n: "keys (report (send_nkro_report v t u)) = keys (report u) \<and> bits (report (send_nkro_report v t u)) = bits (report u)" for u
    by (cases "get_mods_for_report v t u") (auto simp: send_nkro_report_def Let_def emit_def dest: get_mods_report)
  show ?thesis using six n by (simp add: send_keyboard_report_def Let_def split: build.split)
qed

lemma report_held_fields: "keys x = keys y \<Longrightarrow> bits x = bits y \<Longrightarrow> report_held b p q x = report_held b p q y"
  by (simp add: report_held_def byte_keys_def bit_keys_def in_bits_def split: mode.split)

lemma send_report_held [simp]:
  "report_held v p q (report (util (send_report d s))) = report_held v p q (report (util s))"
  by (rule report_held_fields) (simp_all add: send_report_def on_util_def send_keeps_keys)

text \<open>A code that is held is let go first, so it is new when it is added.\<close>

lemma register_new:
  assumes ok: "act_ok c p q s" and nz: "code \<noteq> 0"
  defines "t \<equiv> if is_key_pressed (variant (ucfg c)) code (report (util s)) then send_report c (del_key c code s) else s"
  shows "act_ok c p q t" "code \<notin> report_held (variant (ucfg c)) p q (report (util t))"
    "report_held (variant (ucfg c)) p q (report (util t)) = report_held (variant (ucfg c)) p q (report (util s)) - {code}"
  using ok act_ok_keys(2) [OF ok nz] report_del [OF act_okD(2) [OF ok] nz] report_pressed [OF act_okD(2) [OF ok] nz]
  by (auto simp: t_def del_key_def on_util_def)

lemma register_code_ok [simp]:
  assumes lock: "\<not> LOCKING_SUPPORT_ENABLE c" and ok: "act_ok c p q s"
  shows "act_ok c p q (register_code c code s)"
proof (cases "IS_BASIC_KEYCODE code")
  case True
  note nz = basic_nonzero [OF True]
  note t = register_new [OF ok nz]
  have "act_ok c p q (add_key c code (if is_key_pressed (variant (ucfg c)) code (report (util s))
      then send_report c (del_key c code s) else s))"
    by (rule act_ok_keys(1) [OF t(1) nz t(2)])
  then show ?thesis
    using nz True by (simp add: register_code_def no_locking [OF lock] KC_NO_def Let_def)
next
  case False
  then show ?thesis
    using ok by (simp add: register_code_def no_locking [OF lock] act_ok_on_util)
qed

lemma unregister_code_ok [simp]:
  assumes lock: "\<not> LOCKING_SUPPORT_ENABLE c" and ok: "act_ok c p q s"
  shows "act_ok c p q (unregister_code c code s)"
  using ok act_ok_keys(2) [OF ok basic_nonzero]
  by (simp add: unregister_code_def no_locking [OF lock] act_ok_on_util)

lemma mods_ok [simp]:
  assumes "act_ok c p q s"
  shows "act_ok c p q (register_mods c m s)" "act_ok c p q (unregister_mods c m s)"
  using assms by (simp_all add: register_mods_def unregister_mods_def act_ok_on_util)

lemma clear_all_ok [simp]: "act_ok c p q s \<Longrightarrow> act_ok c p q (clear_all c s)"
  by (simp add: clear_all_def clear_keyboard_but_mods_def clear_keyboard_but_mods_and_keys_def act_ok_on_util act_ok_keys(3))

lemma tap_code_ok [simp]: "\<not> LOCKING_SUPPORT_ENABLE c \<Longrightarrow> act_ok c p q s \<Longrightarrow> act_ok c p q (tap_code c code s)"
  by (simp add: tap_code_def tap_code_delay_def)

section \<open>Actions\<close>

lemma act_mods_ok:
  assumes "\<not> LOCKING_SUPPORT_ENABLE c" and "act_ok c p q s"
  shows "act_ok c p q (act_mods c action press s)"
  using assms by (simp add: act_mods_def Let_def act_ok_on_util)

lemma act_oneshot_mods_ok:
  assumes "act_ok c p q s"
  shows "act_ok c p q (act_oneshot_mods c m press tc s)"
  using assms by (simp add: act_oneshot_mods_def Let_def act_ok_on_util)

lemma act_mods_tap_ok:
  assumes "\<not> LOCKING_SUPPORT_ENABLE c" and "act_ok c p q s" and "act_mods_tap c r action press tc s = (r', s')"
  shows "act_ok c p q s'"
  using assms(3) act_mods_ok [OF assms(1,2)] act_oneshot_mods_ok [OF assms(2)] assms(1,2)
  by (auto simp: act_mods_tap_def Let_def split: if_splits)

lemma act_layer_ok:
  assumes "act_ok c p q s"
  shows "act_ok c p q (act_layer c action press s)" "act_ok c p q (act_layer_mods c action press s)"
  using assms
  by (simp_all add: act_layer_def act_layer_mods_def Let_def act_ok_on_layers)

lemma act_layer_tap_ok:
  assumes "\<not> LOCKING_SUPPORT_ENABLE c" and "act_ok c p q s"
  shows "act_ok c p q (snd (act_layer_tap c action press tc s))"
  using assms
  by (simp add: act_layer_tap_def act_oneshot_layer_def Let_def act_ok_on_layers act_ok_on_util)

lemma act_swap_hands_ok:
  assumes "\<not> LOCKING_SUPPORT_ENABLE c" and "act_ok c p q s" and "act_swap_hands c r action press tc s = (r', s')"
  shows "act_ok c p q s'"
  using assms(3) assms(1,2)
  by (auto simp: act_swap_hands_def Let_def act_ok_on_util split: if_splits)

lemma act_switch_ok:
  assumes "\<not> LOCKING_SUPPORT_ENABLE c" and "act_ok c p q s" and "act_switch c r action press tc s = (r', kept, s')"
  shows "act_ok c p q s'"
  using assms(3) act_mods_ok [OF assms(1,2)] act_mods_tap_ok [OF assms(1,2)] act_layer_ok [OF assms(2)]
    act_layer_tap_ok [OF assms(1,2), of action press tc] act_swap_hands_ok [OF assms(1,2)] assms(2)
  by (cases "kind_id action") (auto simp: act_switch_def act_usage_def Let_def split: prod.splits)

lemma retro_tap_ok:
  assumes "\<not> LOCKING_SUPPORT_ENABLE c" and "act_ok c p q s"
  shows "act_ok c p q (retro_tap c r action press tc s)"
  using assms by (simp add: retro_tap_def)

text \<open>The key of a record is kept or the record is cleared.\<close>

definition same_key :: "keyrecord \<Rightarrow> keyrecord \<Rightarrow> bool" where
  "same_key r r' \<longleftrightarrow> IS_NOEVENT (event r') \<or> key (event r') = key (event r) \<and> event_type (event r') = event_type (event r)"

lemma act_switch_key: "act_switch c r action press tc s = (r', kept, s') \<Longrightarrow> same_key r r'"
  by (auto simp: act_switch_def act_mods_tap_def act_swap_hands_def Let_def same_key_def no_record_def
      MAKE_EVENT_def IS_NOEVENT_def set_count_def split: action_kind_id.splits if_splits prod.splits)

text \<open>What holds of \<open>process_record\<close> and of its nested call.\<close>

definition call_ok ::
  "'w::len word act_cfg \<Rightarrow> bool \<Rightarrow> bool \<Rightarrow> keyrecord \<Rightarrow> (keyrecord \<times> 'w word act_state) option \<Rightarrow> bool" where
  "call_ok c p q r res \<longleftrightarrow> (\<exists>r' s'. res = Some (r', s') \<and> act_ok c p q s' \<and> same_key r r')"

lemma process_action_ok:
  assumes lock: "\<not> LOCKING_SUPPORT_ENABLE c" and ok: "act_ok c p q s"
    and again: "\<And>r' s'. pressed (event r) \<Longrightarrow> act_ok c p q s' \<Longrightarrow> same_key r r' \<Longrightarrow> \<not> pressed (event r') \<Longrightarrow> call_ok c p q r' (again r' s')"
  shows "call_ok c p q r (process_action c again r action s)"
proof -
  let ?press = "pressed (event r)" and ?tc = "unat (tap_count (tap r))"
  define s1 where "s1 = (if ends_oneshot_layer action ?press ?tc s
      then on_util (clear_oneshot_layer_state (ucfg c) ONESHOT_OTHER_KEY_PRESSED) s else s)"
  have s1: "act_ok c p q s1" using ok by (simp add: s1_def act_ok_on_util)
  obtain r2 kept s2 where sw: "act_switch c r action ?press ?tc s1 = (r2, kept, s2)" by (metis prod_cases3)
  define s3 where "s3 = retro_tap c r2 action ?press ?tc (update_leds action s2)"
  define s4 where "s4 = (if ?press \<and> \<not> (kind_id action = ACT_SWAP_HANDS \<and> code_of action = OP_SH_ONESHOT)
      then on_util (use_oneshot_swaphands (ucfg c)) s3 else s3)"
  have "act_ok c p q s3"
    unfolding s3_def using act_switch_ok [OF lock s1 sw] by (intro retro_tap_ok [OF lock]) (simp add: update_leds_def)
  then have s4: "act_ok c p q s4" by (simp add: s4_def act_ok_on_util)
  have k2: "same_key r r2" by (rule act_switch_key [OF sw])
  let ?r = "r2\<lparr>event := (event r2)\<lparr>pressed := False\<rparr>\<rparr>"
  let ?s = "on_layers (layer_on (layer_state_set_kb (ucfg c)) (get_oneshot_layer (util s4))) s4"
  have nested: "call_ok c p q ?r (again ?r ?s)" if "?press"
    using that s4 k2 by (intro again) (auto simp: same_key_def IS_NOEVENT_def act_ok_on_layers)
  have k: "same_key r r'" if "same_key ?r r'" for r'
    using that k2 by (auto simp: same_key_def IS_NOEVENT_def)
  have ends: "ends_oneshot_layer action ?press ?tc s \<Longrightarrow> ?press" by (simp add: ends_oneshot_layer_def)
  show ?thesis
    unfolding process_action_def Let_def s1_def [symmetric] sw
    unfolding prod.case s3_def [symmetric] s4_def [symmetric]
    using nested s4 k2 k ends by (auto simp: call_ok_def act_ok_on_layers)
qed

text \<open>The hooks of quantum.c are outside; they must keep the invariant too.\<close>

definition hooks_ok :: "'w::len word act_cfg \<Rightarrow> bool \<Rightarrow> bool \<Rightarrow> bool" where
  "hooks_ok c p q \<longleftrightarrow> (\<forall>r s. act_ok c p q s \<longrightarrow> act_ok c p q (snd (process_record_quantum c r s))
     \<and> act_ok c p q (snd (pre_process_record_quantum c r s)) \<and> act_ok c p q (post_process_record_quantum c r s))"

definition rec_ok :: "'w act_cfg \<Rightarrow> keyrecord \<Rightarrow> bool" where
  "rec_ok c r \<longleftrightarrow> IS_EVENT (event r) \<longrightarrow> key_ok (lcfg c) (key (event r))"

lemma store_or_get_ok:
  assumes "cfg_ok l" and "layers_ok l x" and "key_ok l k"
  shows "\<exists>a x'. store_or_get_action l km press k x = Some (a, x') \<and> layers_ok l x'"
  using update_ok [OF assms, of "layer_switch_get_layer l km k x"] read_ok [OF assms] assms(2)
  by (auto simp: store_or_get_action_def)

lemma handler_ok:
  assumes lock: "\<not> LOCKING_SUPPORT_ENABLE c" and cfg: "cfg_ok (lcfg c)" and ok: "act_ok c p q s"
    and key: "key_ok (lcfg c) (key (event r))"
    and again: "\<And>r' s'. pressed (event r) \<Longrightarrow> act_ok c p q s' \<Longrightarrow> same_key r r' \<Longrightarrow> \<not> pressed (event r') \<Longrightarrow> call_ok c p q r' (again r' s')"
  shows "call_ok c p q r (process_record_handler c again r s)"
proof -
  obtain a x where x: "store_or_get_action (lcfg c) (action_for_key c) (pressed (event r)) (key (event r)) (layers (util s)) = Some (a, x)"
    "layers_ok (lcfg c) x"
    using store_or_get_ok [OF cfg act_okD(3) [OF ok] key] by blast
  have "act_ok c p q (on_util (\<lambda>u. u\<lparr>layers := x\<rparr>) s)"
    by (rule act_ok_on_util [OF ok]) (simp add: x(2) util_okD)
  then have "call_ok c p q r (process_action c again r a (on_util (\<lambda>u. u\<lparr>layers := x\<rparr>) s))"
    by (rule process_action_ok [OF lock _ again])
  then show ?thesis by (simp add: process_record_handler_def x(1))
qed

lemma level_ok:
  assumes lock: "\<not> LOCKING_SUPPORT_ENABLE c" and cfg: "cfg_ok (lcfg c)" and hooks: "hooks_ok c p q"
    and "act_ok c p q s" and "rec_ok c r" and "0 < n" and "pressed (event r) \<Longrightarrow> 1 < n"
  shows "call_ok c p q r (process_record_level n c r s)"
  using assms(4-)
proof (induction n arbitrary: r s)
  case (Suc n)
  show ?case
  proof (cases "IS_NOEVENT (event r)")
    case True
    then show ?thesis using Suc.prems(1) by (simp add: call_ok_def same_key_def)
  next
    case False
    then have key: "key_ok (lcfg c) (key (event r))"
      using Suc.prems(2) by (simp add: rec_ok_def IS_NOEVENT_def IS_EVENT_def)
    obtain g s1 where g: "process_record_quantum c r s = (g, s1)" by (cases "process_record_quantum c r s")
    have s1: "act_ok c p q s1" using hooks Suc.prems(1) g by (metis hooks_ok_def snd_conv)
    have again: "call_ok c p q r' (process_record_level n c r' s')"
      if "pressed (event r)" "act_ok c p q s'" "same_key r r'" "\<not> pressed (event r')" for r' s'
      by (rule Suc.IH) (use that Suc.prems(2,4) in \<open>auto simp: rec_ok_def same_key_def IS_NOEVENT_def IS_EVENT_def\<close>)
    have "call_ok c p q r (process_record_handler c (process_record_level n c) r s1)"
      by (rule handler_ok [OF lock cfg s1 key again])
    then show ?thesis
      using False g s1 hooks by (auto simp: call_ok_def hooks_ok_def same_key_def act_ok_on_util)
  qed
qed simp

lemma process_rec_ok:
  assumes "\<not> LOCKING_SUPPORT_ENABLE c" and "cfg_ok (lcfg c)" and "hooks_ok c p q" and "act_ok c p q s" and "rec_ok c r"
  shows "call_ok c p q r (process_rec c r s)"
  unfolding process_rec_def by (rule level_ok [OF assms]) simp_all

section \<open>Through the tap-hold machine\<close>

definition tap_inv ::
  "'w::len word act_cfg \<Rightarrow> bool \<Rightarrow> bool \<Rightarrow> 'w word act_state option tapping \<Rightarrow> bool" where
  "tap_inv c p q t \<longleftrightarrow> (\<exists>s. env t = Some s \<and> act_ok c p q s) \<and> rec_ok c (tapping_key t)
     \<and> (\<forall>r\<in>set (waiting_buffer t). rec_ok c r)"

definition safe_cfg :: "'w::len word act_cfg \<Rightarrow> bool \<Rightarrow> bool \<Rightarrow> bool" where
  "safe_cfg c p q \<longleftrightarrow> \<not> LOCKING_SUPPORT_ENABLE c \<and> cfg_ok (lcfg c) \<and> hooks_ok c p q"

lemma rec_ok_taps [simp]:
  "rec_ok c (r\<lparr>tap := t\<rparr>) = rec_ok c r" "rec_ok c (set_count n r) = rec_ok c r"
  "rec_ok c (set_interrupted r) = rec_ok c r" "rec_ok c (release_last_tap e r) = rec_ok c r" "rec_ok c no_record"
  by (simp_all add: rec_ok_def release_last_tap_def IS_EVENT_def no_record_def MAKE_EVENT_def)

lemma tap_inv_key [simp]: "tap_inv c p q t \<Longrightarrow> rec_ok c k \<Longrightarrow> tap_inv c p q (t\<lparr>tapping_key := k\<rparr>)"
  by (simp add: tap_inv_def)

lemma tap_inv_tapping_key [simp]: "tap_inv c p q t \<Longrightarrow> rec_ok c (tapping_key t)"
  by (simp add: tap_inv_def)

lemma tap_inv_slot:
  assumes "tap_inv c p q t" and "rec_ok c r"
  shows "tap_inv c p q (t\<lparr>waiting_buffer := (waiting_buffer t)[i := r]\<rparr>)"
  using assms subsetD [OF set_update_subset_insert] by (fastforce simp: tap_inv_def)

lemma process_safe:
  assumes "safe_cfg c p q" and "tap_inv c p q t" and "rec_ok c r" and "process (act_env c opts) r t = (r', t')"
  shows "tap_inv c p q t' \<and> rec_ok c r'"
proof -
  obtain s where s: "env t = Some s" "act_ok c p q s" using assms(2) by (auto simp: tap_inv_def)
  obtain r2 s2 where r2: "process_rec c r s = Some (r2, s2)" "act_ok c p q s2" "same_key r r2"
    using process_rec_ok [of c p q s r] assms(1,3) s(2) by (auto simp: safe_cfg_def call_ok_def)
  have "rec_ok c r2" using r2(3) assms(3) by (auto simp: rec_ok_def same_key_def IS_NOEVENT_def IS_EVENT_def)
  then show ?thesis
    using assms(2,4) s(1) r2 by (auto simp: process_def act_env_def tap_inv_def)
qed

lemma process_tapping_key_safe [simp]:
  assumes "safe_cfg c p q" and "tap_inv c p q t"
  shows "tap_inv c p q (process_tapping_key (act_env c opts) t)"
proof -
  obtain r' t' where p: "process (act_env c opts) (tapping_key t) t = (r', t')" by (cases "process (act_env c opts) (tapping_key t) t")
  from process_safe [OF assms tap_inv_tapping_key [OF assms(2)] p] show ?thesis
    by (simp add: process_tapping_key_def p)
qed

lemma find_slot: "find P (waiting_slots t) = Some i \<Longrightarrow> i < WAITING_BUFFER_SIZE"
  using waiting_slots_less [of i t] by (auto simp: find_Some_iff)

lemma scan_safe [simp]:
  assumes "safe_cfg c p q" and "tap_inv c p q t" and "tapping_wf t"
  shows "tap_inv c p q (waiting_buffer_scan_tap (act_env c opts) t)"
proof -
  have "tap_inv c p q (process_tapping_key (act_env c opts) (t\<lparr>tapping_key := set_count 1 (tapping_key t),
      waiting_buffer := (waiting_buffer t)[i := set_count 1 (waiting_buffer t ! i)]\<rparr>))"
    if "i < WAITING_BUFFER_SIZE" for i
  proof -
    have "waiting_buffer t ! i \<in> set (waiting_buffer t)" using that assms(3) by (simp add: tapping_wf_def)
    then have "rec_ok c (waiting_buffer t ! i)" using assms(2) by (simp add: tap_inv_def)
    then have "tap_inv c p q (t\<lparr>tapping_key := set_count 1 (tapping_key t),
        waiting_buffer := (waiting_buffer (t\<lparr>tapping_key := set_count 1 (tapping_key t)\<rparr>))[i := set_count 1 (waiting_buffer t ! i)]\<rparr>)"
      using assms(2) by (intro tap_inv_slot) simp_all
    then show ?thesis using assms(1) by simp
  qed
  then show ?thesis
    using assms(2) find_slot by (auto simp: waiting_buffer_scan_tap_def split: option.split)
qed

lemma tapping_wf_fields [simp]:
  "tapping_wf (t\<lparr>tapping_key := k\<rparr>) = tapping_wf t" "tapping_wf (t\<lparr>env := e\<rparr>) = tapping_wf t"
  by (simp_all add: tapping_wf_def)

lemma hint_ok: "act_ok c p q s \<Longrightarrow> act_ok c p q (tap_hint c r s)"
  by (simp add: tap_hint_def Let_def)

lemma hint_safe:
  assumes "tap_inv c p q t"
  shows "tap_inv c p q (t\<lparr>env := process_record_tap_hint (act_env c opts) k (env t)\<rparr>)"
  using assms by (auto simp: tap_inv_def act_env_def hint_ok)

text \<open>What a step of the machine returns.\<close>

definition step_ok :: "'w::len word act_cfg \<Rightarrow> bool \<Rightarrow> bool \<Rightarrow> 'w word act_state option handled \<Rightarrow> bool" where
  "step_ok c p q res \<longleftrightarrow> (case res of (b, r, t) \<Rightarrow> tap_inv c p q t \<and> rec_ok c r)"

lemma step_ok_simp [simp]: "step_ok c p q (b, r, t) \<longleftrightarrow> tap_inv c p q t \<and> rec_ok c r"
  by (simp add: step_ok_def)

lemma process_step:
  assumes "safe_cfg c p q" and "tap_inv c p q t" and "rec_ok c r"
  shows "step_ok c p q (case process (act_env c opts) r t of (r, t) \<Rightarrow> (b, r, t))"
    and "step_ok c p q (case process (act_env c opts) r t of (r, t) \<Rightarrow> (b, r, t\<lparr>tapping_key := r\<rparr>))"
    and "step_ok c p q (case process (act_env c opts) r t of (r, t) \<Rightarrow> (b, r, t\<lparr>tapping_key := no_record\<rparr>))"
    and "step_ok c p q (pass_on (act_env c opts) r t)"
    and "tap_inv c p q (snd (process (act_env c opts) r t))"
proof -
  obtain r' t' where r': "process (act_env c opts) r t = (r', t')" by (cases "process (act_env c opts) r t")
  note s = process_safe [OF assms r']
  show "step_ok c p q (case process (act_env c opts) r t of (r, t) \<Rightarrow> (b, r, t))"
    and "step_ok c p q (case process (act_env c opts) r t of (r, t) \<Rightarrow> (b, r, t\<lparr>tapping_key := r\<rparr>))"
    and "step_ok c p q (case process (act_env c opts) r t of (r, t) \<Rightarrow> (b, r, t\<lparr>tapping_key := no_record\<rparr>))"
    and "step_ok c p q (pass_on (act_env c opts) r t)"
    and "tap_inv c p q (snd (process (act_env c opts) r t))"
    using s by (simp_all add: r' pass_on_def)
qed

lemma end_step: "safe_cfg c p q \<Longrightarrow> tap_inv c p q t \<Longrightarrow> rec_ok c r \<Longrightarrow> step_ok c p q (end_tapping (act_env c opts) r t)"
  by (simp add: end_tapping_def)

lemma start_step:
  "safe_cfg c p q \<Longrightarrow> tap_inv c p q t \<Longrightarrow> tapping_wf t \<Longrightarrow> rec_ok c r \<Longrightarrow> step_ok c p q (start_tapping (act_env c opts) r t)"
  by (simp add: start_tapping_def)

lemma restart_step:
  assumes "safe_cfg c p q" and "tap_inv c p q t" and "tapping_wf t" and "rec_ok c r"
  shows "step_ok c p q (tapping_restart (act_env c opts) r t)"
proof -
  have "tapping_wf (snd (process (act_env c opts) k t))" for k
    using assms(3) by (simp add: process_def split: prod.split)
  then show ?thesis
    unfolding tapping_restart_def using assms process_step(5) [OF assms(1,2)]
    by (intro start_step) simp_all
qed

lemma machine_steps:
  assumes "safe_cfg c p q" and "tap_inv c p q t" and "tapping_wf t" and "rec_ok c r"
  shows "step_ok c p q (tapping_reset (act_env c opts) r t)"
    and "step_ok c p q (tapping_undecided (act_env c opts) r t)"
    and "step_ok c p q (tapping_tapped (act_env c opts) r t)"
    and "step_ok c p q (tapping_timeout (act_env c opts) r t)"
    and "step_ok c p q (tapping_released (act_env c opts) r t)"
proof -
  note st = process_step [OF assms(1,2)] restart_step [OF assms]
  have k: "rec_ok c (tapping_key t)" using assms(2) by simp
  show "step_ok c p q (tapping_reset (act_env c opts) r t)"
    using assms st(4) hint_safe [of c p q "t\<lparr>tapping_key := r\<rparr>" opts r] by (simp add: tapping_reset_def Let_def)
  show "step_ok c p q (tapping_undecided (act_env c opts) r t)"
    unfolding tapping_undecided_def Let_def using assms st(4) k by (simp add: end_step)
  show "step_ok c p q (tapping_tapped (act_env c opts) r t)"
    unfolding tapping_tapped_def Let_def using assms st by simp
  show "step_ok c p q (tapping_timeout (act_env c opts) r t)"
    unfolding tapping_timeout_def Let_def using assms st by (simp add: end_step)
  have i: "tap_inv c p q (t\<lparr>tapping_key := set_interrupted (tapping_key t)\<rparr>)" using assms(2) k by simp
  show "step_ok c p q (tapping_released (act_env c opts) r t)"
    unfolding tapping_released_def Let_def using assms st process_step [OF assms(1) i] by (simp add: start_step)
qed

lemma process_tapping_safe:
  assumes "safe_cfg c p q" and "tap_inv c p q t" and "tapping_wf t" and "rec_ok c r"
  shows "step_ok c p q (process_tapping (act_env c opts) r t)"
  using machine_steps [OF assms] assms(2,4) by (simp add: process_tapping_def)

lemma tap_inv_fields [simp]:
  "tap_inv c p q (t\<lparr>waiting_buffer_head := n\<rparr>) = tap_inv c p q t"
  "tap_inv c p q (t\<lparr>waiting_buffer_tail := n\<rparr>) = tap_inv c p q t"
  by (simp_all add: tap_inv_def)

lemma enq_safe:
  assumes "tap_inv c p q t" and "tapping_wf t" and "rec_ok c r" and "waiting_buffer_enq r t = (b, t')"
  shows "tap_inv c p q t' \<and> tapping_wf t'"
proof -
  have "tapping_wf (t\<lparr>waiting_buffer := (waiting_buffer t)[waiting_buffer_head t := r],
      waiting_buffer_head := (waiting_buffer_head t + 1) mod WAITING_BUFFER_SIZE\<rparr>)"
    using assms(2) by (simp add: tapping_wf_def WAITING_BUFFER_SIZE_def)
  then show ?thesis
    using assms(1,2,4) tap_inv_slot [OF assms(1,3)] by (auto simp: waiting_buffer_enq_def split: if_splits)
qed

lemma overflow_safe:
  assumes "tap_inv c p q t" and "tapping_wf t"
  shows "tap_inv c p q ((waiting_buffer_clear (t\<lparr>env := clear_keyboard (act_env c opts) (env t)\<rparr>))\<lparr>tapping_key := no_record\<rparr>)"
    and "tapping_wf ((waiting_buffer_clear (t\<lparr>env := clear_keyboard (act_env c opts) (env t)\<rparr>))\<lparr>tapping_key := no_record\<rparr>)"
  using assms by (auto simp: tap_inv_def act_env_def waiting_buffer_clear_def tapping_wf_def WAITING_BUFFER_SIZE_def)

lemma action_tapping_safe:
  assumes safe: "safe_cfg c p q" and inv: "tap_inv c p q t" and wf: "tapping_wf t" and r: "rec_ok c r"
  shows "\<exists>t'. action_tapping_process (act_env c opts) r t = Some t' \<and> tapping_wf t' \<and> tap_inv c p q t'"
proof -
  let ?e = "act_env c opts"
  obtain b r' t1 where p: "process_tapping ?e r t = (b, r', t1)" by (metis prod_cases3)
  have t1: "tap_inv c p q t1" "rec_ok c r'" using process_tapping_safe [OF assms, of opts] p by simp_all
  have wf1: "tapping_wf t1" by (rule tapping_wf_same_queue [OF same_queue_process_tapping [OF p] wf])
  define t2 where "t2 = (if b then t1
      else case waiting_buffer_enq r' t1 of (enqueued, s) \<Rightarrow>
        if enqueued then s
        else (waiting_buffer_clear (s\<lparr>env := clear_keyboard ?e (env s)\<rparr>))\<lparr>tapping_key := no_record\<rparr>)"
  obtain e t3 where e: "waiting_buffer_enq r' t1 = (e, t3)" by (cases "waiting_buffer_enq r' t1")
  note t3 = enq_safe [OF t1(1) wf1 t1(2) e]
  have t2: "tap_inv c p q t2" "tapping_wf t2"
    using t1(1) wf1 t3 overflow_safe [of c p q t3 opts] by (simp_all add: t2_def e)
  have "tap_inv c p q (if b then advance (store r s') else store r s')"
    if "tapping_wf s" "tap_inv c p q s" "process_tapping ?e (waiting_buffer s ! waiting_buffer_tail s) s = (b, r, s')" for s b r s'
  proof -
    have "rec_ok c (waiting_buffer s ! waiting_buffer_tail s)"
      using that(1,2) by (simp add: tap_inv_def tapping_wf_def)
    from process_tapping_safe [OF safe that(2,1) this, of opts] have "tap_inv c p q s'" "rec_ok c r"
      using that(3) by simp_all
    from tap_inv_slot [OF this] show ?thesis by (simp add: store_def advance_def tap_inv_def)
  qed
  then have "\<exists>t'. drain ?e t2 = Some t' \<and> tapping_wf t' \<and> tap_inv c p q t'"
    using t2 by (intro drain_rule) auto
  then show ?thesis by (simp add: action_tapping_process_def p t2_def)
qed

section \<open>Whole runs\<close>

text \<open>The hand-swap tables map keys to keys, and no matrix row has the number of an encoder's row.\<close>

definition swap_cfg_ok :: "'w act_cfg \<Rightarrow> bool" where
  "swap_cfg_ok c \<longleftrightarrow> MATRIX_ROWS (lcfg c) \<le> 252
     \<and> (\<forall>k. on_matrix (lcfg c) k \<longrightarrow> key_ok (lcfg c) (hand_swap_config c (row k) (col k)))
     \<and> (\<forall>i. unat i < NUM_ENCODERS (lcfg c) \<longrightarrow> unat (encoder_hand_swap_config c i) < NUM_ENCODERS (lcfg c))"

lemma swap_bit_access:
  assumes "i < n" and "n \<le> 8 * length st"
  shows "\<exists>b. should_swap_hands i st press s = Some b" and "\<exists>st'. set_swap_hands_state i st b = Some st' \<and> length st' = length st"
proof -
  have "i div 8 < length st" using assms by linarith
  then show "\<exists>b. should_swap_hands i st press s = Some b" and "\<exists>st'. set_swap_hands_state i st b = Some st' \<and> length st' = length st"
    by (auto simp: should_swap_hands_def set_swap_hands_state_def CHAR_BIT_def Let_def)
qed

lemma swap_index_less: "on_matrix l k \<Longrightarrow> unat (row k) * MATRIX_COLS l + unat (col k) < MATRIX_ROWS l * MATRIX_COLS l"
proof -
  assume k: "on_matrix l k"
  then have "unat (row k) * MATRIX_COLS l + unat (col k) < Suc (unat (row k)) * MATRIX_COLS l" by (simp add: on_matrix_def)
  also have "\<dots> \<le> MATRIX_ROWS l * MATRIX_COLS l" using k by (intro mult_le_mono1) (simp add: on_matrix_def Suc_leI)
  finally show ?thesis .
qed

lemma encoder_row: "on_encoder l k \<Longrightarrow> MATRIX_ROWS l \<le> 252 \<Longrightarrow> \<not> on_matrix l k"
  by (auto simp: on_encoder_def on_matrix_def KEYLOC_ENCODER_CW_def KEYLOC_ENCODER_CCW_def)

lemma hand_swap_safe:
  assumes sw: "swap_cfg_ok c" and ok: "act_ok c p q s" and key: "key_ok (lcfg c) (key e)"
  shows "\<exists>e' s'. process_hand_swap c e s = Some (e', s') \<and> act_ok c p q s' \<and> key_ok (lcfg c) (key e')
    \<and> event_type e' = event_type e"
proof -
  let ?k = "key e"
  have m: "MATRIX_ROWS (lcfg c) * MATRIX_COLS (lcfg c) \<le> 8 * length (matrix_swap_state s)"
    and n: "NUM_ENCODERS (lcfg c) \<le> 8 * length (encoder_swap_state s)"
    using ok by (simp_all add: act_ok_def)
  consider (matrix) "IS_KEYEVENT e \<and> on_matrix (lcfg c) ?k" | (encoder) "IS_ENCODEREVENT e \<and> on_encoder (lcfg c) ?k"
      "\<not> (IS_KEYEVENT e \<and> on_matrix (lcfg c) ?k)"
    | (other) "\<not> (IS_KEYEVENT e \<and> on_matrix (lcfg c) ?k)" "\<not> (IS_ENCODEREVENT e \<and> on_encoder (lcfg c) ?k)" by blast
  then show ?thesis
  proof cases
    case matrix
    note i = swap_index_less [of "lcfg c" ?k, folded swap_index_def]
    obtain b where b: "should_swap_hands (swap_index c ?k) (matrix_swap_state s) (pressed e) s = Some b"
      using swap_bit_access(1) [OF i m] matrix by blast
    obtain st where st: "set_swap_hands_state (swap_index c ?k) (matrix_swap_state s) b = Some st" "length st = length (matrix_swap_state s)"
      using swap_bit_access(2) [OF i m] matrix by blast
    have "act_ok c p q (s\<lparr>matrix_swap_state := st\<rparr>)" using ok st(2) by (simp add: act_ok_def)
    moreover have "b \<Longrightarrow> key_ok (lcfg c) (hand_swap_config c (row ?k) (col ?k))" using sw matrix by (simp add: swap_cfg_ok_def)
    ultimately show ?thesis using matrix b st(1) key by (simp add: process_hand_swap_def Let_def)
  next
    case encoder
    then have less: "unat (col ?k) < NUM_ENCODERS (lcfg c)"
      using key encoder_row [of "lcfg c" ?k] sw by (simp add: key_ok_def swap_cfg_ok_def)
    obtain b where b: "should_swap_hands (unat (col ?k)) (encoder_swap_state s) (pressed e) s = Some b"
      using swap_bit_access(1) [OF less n] by blast
    obtain st where st: "set_swap_hands_state (unat (col ?k)) (encoder_swap_state s) b = Some st" "length st = length (encoder_swap_state s)"
      using swap_bit_access(2) [OF less n] by blast
    have "act_ok c p q (s\<lparr>encoder_swap_state := st\<rparr>)" using ok st(2) by (simp add: act_ok_def)
    moreover have "key_ok (lcfg c) \<lparr>col = encoder_hand_swap_config c (col ?k), row = row ?k\<rparr>"
      using sw less encoder(1) by (simp add: swap_cfg_ok_def key_ok_def on_encoder_def)
    ultimately show ?thesis
      unfolding process_hand_swap_def Let_def if_not_P [OF encoder(2)] if_P [OF encoder(1)]
      using b st(1) key less by simp
  next
    case other
    have "process_hand_swap c e s = Some (e, s)" unfolding process_hand_swap_def Let_def using other by argo
    then show ?thesis using ok key by simp
  qed
qed

lemma timeouts_ok: "act_ok c p q s \<Longrightarrow> act_ok c p q (oneshot_timeouts c s)"
  by (simp add: oneshot_timeouts_def Let_def act_ok_on_util)

lemma action_exec_ok:
  assumes safe: "safe_cfg c p q" and sw: "swap_cfg_ok c" and inv: "tap_inv c p q t" and wf: "tapping_wf t"
    and e: "IS_EVENT e \<longrightarrow> key_ok (lcfg c) (key e)"
  shows "\<exists>t'. action_exec c opts e t = Some t' \<and> tapping_wf t' \<and> tap_inv c p q t'"
proof -
  obtain s where s: "env t = Some s" "act_ok c p q s" using inv by (auto simp: tap_inv_def)
  define s0 where "s0 = (if IS_EVENT e \<and> RETRO_TAPPING c then s\<lparr>retro_tapping_counter := retro_tapping_counter s + 1\<rparr> else s)"
  define s1 where "s1 = (if pressed e then on_util (clear_weak_mods (ucfg c)) s0 else s0)"
  have s1: "act_ok c p q s1" using s(2) by (simp add: s1_def s0_def act_ok_on_util)
  obtain e2 s2 where e2: "(if IS_EVENT e then process_hand_swap c e s1 else Some (e, s1)) = Some (e2, s2)"
    "act_ok c p q s2" "IS_EVENT e2 \<longrightarrow> key_ok (lcfg c) (key e2)"
  proof (cases "IS_EVENT e")
    case True
    then obtain e' s' where h: "process_hand_swap c e s1 = Some (e', s')" "act_ok c p q s'" "key_ok (lcfg c) (key e')"
      using hand_swap_safe [OF sw s1, of e] e by blast
    show ?thesis by (rule that [of e' s']) (use h True in simp_all)
  next
    case False
    show ?thesis by (rule that [of e s1]) (use False s1 in simp_all)
  qed
  let ?r = "\<lparr>event = e2, tap = no_tap\<rparr>"
  obtain g s3 where g: "(if IS_NOEVENT e2 then (True, oneshot_timeouts c s2)
      else pre_process_record_quantum c ?r (oneshot_timeouts c s2)) = (g, s3)" by (metis prod.exhaust)
  have "act_ok c p q s3"
  proof -
    have "act_ok c p q (snd (pre_process_record_quantum c ?r (oneshot_timeouts c s2)))"
      using timeouts_ok [OF e2(2)] safe by (simp add: safe_cfg_def hooks_ok_def)
    then show ?thesis using g timeouts_ok [OF e2(2)] by (auto split: if_splits)
  qed
  then have t: "tap_inv c p q (t\<lparr>env := Some s3\<rparr>)" using inv by (simp add: tap_inv_def)
  have x: "action_exec c opts e t = (if g then action_tapping_process (act_env c opts) ?r (t\<lparr>env := Some s3\<rparr>) else Some (t\<lparr>env := Some s3\<rparr>))"
    unfolding action_exec_def Let_def s(1) Option.bind.simps s0_def [symmetric] s1_def [symmetric] e2(1) prod.case g ..
  have "rec_ok c ?r" using e2(3) by (simp add: rec_ok_def)
  from action_tapping_safe [OF safe t _ this, of opts] show ?thesis
    unfolding x using t wf by simp
qed

text \<open>A run: before each event time passes and the host may change the lock LEDs.\<close>

definition outside :: "u16 \<Rightarrow> u8 \<Rightarrow> 'w act_state option tapping \<Rightarrow> 'w act_state option tapping" where
  "outside now leds t = t\<lparr>env := map_option (\<lambda>s. s\<lparr>clock := now, host_leds := leds\<rparr>) (env t)\<rparr>"

fun exec_run ::
  "'w::len word act_cfg \<Rightarrow> 'w word tap_options \<Rightarrow> (u16 \<times> u8 \<times> keyevent) list \<Rightarrow> 'w word act_state option tapping
    \<Rightarrow> 'w word act_state option tapping option" where
  "exec_run c opts [] t = Some t"
| "exec_run c opts ((now, leds, e) # es) t =
     (case action_exec c opts e (outside now leds t) of None \<Rightarrow> None | Some t \<Rightarrow> exec_run c opts es t)"

lemma outside_ok: "tap_inv c p q t \<Longrightarrow> tap_inv c p q (outside now leds t)" "tapping_wf (outside now leds t) = tapping_wf t"
  by (auto simp: outside_def tap_inv_def act_ok_def)

lemma exec_run_ok:
  assumes "safe_cfg c p q" and "swap_cfg_ok c"
    and "tap_inv c p q t" and "tapping_wf t" and "list_all (\<lambda>(now, leds, e). IS_EVENT e \<longrightarrow> key_ok (lcfg c) (key e)) es"
  shows "\<exists>t'. exec_run c opts es t = Some t' \<and> tapping_wf t' \<and> tap_inv c p q t'"
  using assms(3-)
proof (induction es arbitrary: t)
  case (Cons x es)
  obtain now leds e where x: "x = (now, leds, e)" by (metis prod_cases3)
  obtain t1 where t1: "action_exec c opts e (outside now leds t) = Some t1" "tapping_wf t1" "tap_inv c p q t1"
    using action_exec_ok [OF assms(1,2) outside_ok(1) [OF Cons.prems(1)], of now leds e opts] outside_ok(2) Cons.prems(2,3) x
    by auto
  then show ?case using Cons.IH [OF t1(3,2)] Cons.prems(3) x by simp
qed simp

text \<open>C8: Type safety of the whole path from an event to the host: for any keymap, tap-hold options and
  layer hooks, any sequence of events at keys of the keyboard and of ticks runs through hand
  swapping, one-shot timeouts, the tap-hold machine and the actions without leaving an array and
  without failing to return, and keeps the invariant of the report and the sizes of the caches.\<close>

theorem action_exec_type_safe:
  assumes "safe_cfg c p q" and "swap_cfg_ok c" and "act_ok c p q s"
    and "list_all (\<lambda>(now, leds, e). IS_EVENT e \<longrightarrow> key_ok (lcfg c) (key e)) es"
  shows "\<exists>t s'. exec_run c opts es (tapping_init (Some s)) = Some t \<and> tapping_wf t \<and> env t = Some s' \<and> act_ok c p q s'"
proof -
  have "tap_inv c p q (tapping_init (Some s))" "tapping_wf (tapping_init (Some s))"
    using assms(3) by (auto simp: tap_inv_def tapping_init_def tapping_wf_def WAITING_BUFFER_SIZE_def)
  from exec_run_ok [OF assms(1,2) this assms(4), of opts] show ?thesis by (auto simp: tap_inv_def)
qed

end
