(* ===== verification/ActionDemo.thy ===== *)
theory ActionDemo
  imports ActionSafe ActionUtilProps LayerProps
begin

text \<open>A small keyboard for the examples: two rows of four keys, one encoder, plain hooks.\<close>

definition demo_act :: "keymap \<Rightarrow> 8 word act_cfg" where
  "demo_act km = \<lparr>ucfg = demo_util, lcfg = demo_cfg, action_for_key = km, default_layer_state_set_kb = id,
     hand_swap_config = \<lambda>r c. \<lparr>col = 3 - c, row = r\<rparr>, encoder_hand_swap_config = \<lambda>i. i,
     TAPPING_TOGGLE = 5, ONESHOT_TAP_TOGGLE = 0, TAP_CODE_DELAY = 0, TAP_HOLD_CAPS_DELAY = 80,
     LOCKING_SUPPORT_ENABLE = False, LOCKING_RESYNC_ENABLE = False, RETRO_TAPPING = False,
     HOLD_CANCELS_TAP = \<lambda>r. False, get_retro_tapping = \<lambda>r. False,
     pre_process_record_quantum = \<lambda>r s. (True, s), process_record_quantum = \<lambda>r s. (True, s),
     post_process_record_quantum = \<lambda>r s. s\<rparr>"

definition demo_act_state :: "8 word act_state" where
  "demo_act_state = \<lparr>util = (demo_state True)\<lparr>layers := demo_layers\<rparr>, swap_held = False, matrix_swap_state = [0],
     encoder_swap_state = [0], retro_tapping_counter = 0, last_system_usage = 0, last_consumer_usage = 0,
     host_leds = 0, clock = 0\<rparr>"

definition demo_opts :: "8 word tap_options" where
  "demo_opts = \<lparr>get_tapping_term = \<lambda>r s. 200, get_quick_tap_term = \<lambda>r s. 200,
     get_permissive_hold = \<lambda>r s. False, get_hold_on_other_key_press = \<lambda>r s. False\<rparr>"

lemma demo_safe: "safe_cfg (demo_act km) p q"
  by (simp add: safe_cfg_def demo_act_def hooks_ok_def cfg_ok_def demo_cfg_def)

lemma demo_sub: "unat c < 4 \<Longrightarrow> unat (3 - c :: u8) < 4"
proof -
  assume "unat c < 4"
  then have "c \<le> 3" by (simp add: word_le_nat_alt)
  then have "unat (3 - c) = 3 - unat c" by (simp add: unat_sub)
  then show ?thesis by simp
qed

lemma demo_swap: "swap_cfg_ok (demo_act km)"
  using demo_sub by (auto simp: swap_cfg_ok_def demo_act_def demo_cfg_def key_ok_def on_matrix_def)

lemma demo_ok: "act_ok (demo_act km) True True demo_act_state"
  by (simp add: act_ok_def util_ok_def demo_act_state_def demo_state_def demo_act_def demo_util_def demo_cfg_def
      report_ok_def report_init_def slots_ok_def report_mode_def byte_keys_def layers_ok_def cache_ok_def demo_layers_def
      KEYBOARD_REPORT_KEYS_def NKRO_REPORT_BITS_def)

definition demo_k :: keypos where "demo_k = \<lparr>col = 1, row = 0\<rparr>"

lemma action_exec_type_safe_witness:
  "\<exists>t s'. exec_run (demo_act (\<lambda>l k. 0x5129)) demo_opts
      [(1, 0, down demo_k 1), (5, 2, up demo_k 5), (6, 2, down \<lparr>col = 0, row = 1\<rparr> 6), (300, 0, MAKE_EVENT 0 0 False TICK_EVENT 300)]
      (tapping_init (Some demo_act_state)) = Some t
    \<and> tapping_wf t \<and> env t = Some s' \<and> act_ok (demo_act (\<lambda>l k. 0x5129)) True True s'"
  using action_exec_type_safe [OF demo_safe demo_swap demo_ok, where opts = demo_opts and es =
      "[(1, 0, down demo_k 1), (5, 2, up demo_k 5), (6, 2, down \<lparr>col = 0, row = 1\<rparr> 6), (300, 0, MAKE_EVENT 0 0 False TICK_EVENT 300)]"]
  by (simp add: demo_act_def demo_cfg_def demo_k_def down_def up_def key_ok_def on_matrix_def MAKE_EVENT_def IS_EVENT_def)

end
