(* ===== verification/ActionProps.thy ===== *)
theory ActionProps
  imports ActionDemo
begin

text \<open>Theorems on the execution of actions.\<close>

section \<open>The nested call\<close>

lemma process_action_cong:
  assumes "\<And>r s. \<not> pressed (event r) \<Longrightarrow> again r s = again' r s"
  shows "process_action c again r action s = process_action c again' r action s"
  unfolding process_action_def Let_def using assms by (simp split: prod.split)

lemma process_action_release:
  assumes "\<not> pressed (event r)"
  shows "process_action c again r action s = process_action c again' r action s"
  using assms by (simp add: process_action_def ends_oneshot_layer_def split: prod.split)

lemma release_level:
  assumes "\<not> pressed (event r)"
  shows "process_record_level (Suc n) c r s = process_record_level (Suc m) c r s"
  unfolding process_record_level.simps(2) process_record_handler_def
  using process_action_release [OF assms, of c "process_record_level n c" _ _ "process_record_level m c"]
  by (simp cong: if_cong)

text \<open>C25: The recursion of \<open>process_record\<close> through \<open>process_action\<close> goes one level deep: with any
  larger bound on its depth the result is the same.\<close>

theorem process_record_depth:
  "process_record_level (n + 2) c r s = process_rec c r s"
proof -
  have "process_action c (process_record_level (Suc n) c) r action t = process_action c (process_record_level 1 c) r action t"
    for r action t
    by (rule process_action_cong) (use release_level [of _ n c _ 0] in simp)
  then show ?thesis
    unfolding process_rec_def numeral_2_eq_2 add_Suc_right add_0_right process_record_level.simps(2) [of "Suc n"]
      process_record_level.simps(2) [of "Suc 0"] process_record_handler_def
    by (simp cong: if_cong)
qed

section \<open>Swapping hands\<close>

definition swap_bit :: "'w act_cfg \<Rightarrow> keypos \<Rightarrow> 'w act_state \<Rightarrow> bool" where
  "swap_bit c k s \<longleftrightarrow> bit (matrix_swap_state s ! (swap_index c k div 8)) (swap_index c k mod 8)"

lemma swap_index_inj:
  assumes "on_matrix (lcfg c) k" and "on_matrix (lcfg c) k'" and "swap_index c k = swap_index c k'"
  shows "k = k'"
proof -
  let ?C = "MATRIX_COLS (lcfg c)"
  have c: "unat (col k) < ?C" "unat (col k') < ?C" using assms(1,2) by (simp_all add: on_matrix_def)
  have "unat (row k) = swap_index c k div ?C" "unat (row k') = swap_index c k' div ?C"
    "unat (col k) = swap_index c k mod ?C" "unat (col k') = swap_index c k' mod ?C"
    using c by (simp_all add: swap_index_def)
  then have "row k = row k'" "col k = col k'" using assms(3) by (metis unsigned_word_eqI)+
  then show ?thesis by simp
qed

lemma set_swap_hands_state_Some:
  "set_swap_hands_state i st b = Some st' \<longleftrightarrow>
    i div 8 < length st \<and> st' = st[i div 8 := if b then st ! (i div 8) OR push_bit (i mod 8) 1
      else st ! (i div 8) AND NOT (push_bit (i mod 8) 1)]"
  by (auto simp: set_swap_hands_state_def CHAR_BIT_def Let_def)

lemma bit_swapped_byte:
  fixes x :: u8
  assumes "j < 8" and "j' < 8"
  shows "bit (if b then x OR push_bit j 1 else x AND NOT (push_bit j 1)) j' \<longleftrightarrow> (if j' = j then b else bit x j')"
  using assms by (auto simp: bit_simps)

lemma set_swap_hands_state_bit:
  assumes "set_swap_hands_state i st b = Some st'"
  shows "bit (st' ! (i' div 8)) (i' mod 8) \<longleftrightarrow> (if i' = i then b else bit (st ! (i' div 8)) (i' mod 8))"
    and "length st' = length st"
proof -
  have st: "i div 8 < length st" "st' = st[i div 8 := if b then st ! (i div 8) OR push_bit (i mod 8) 1
      else st ! (i div 8) AND NOT (push_bit (i mod 8) 1)]"
    using assms by (simp_all add: set_swap_hands_state_Some)
  show "length st' = length st" by (simp add: st(2))
  show "bit (st' ! (i' div 8)) (i' mod 8) \<longleftrightarrow> (if i' = i then b else bit (st ! (i' div 8)) (i' mod 8))"
  proof (cases "i' div 8 = i div 8")
    case True
    have "i' = i \<longleftrightarrow> i' mod 8 = i mod 8" using True by (metis div_mult_mod_eq)
    then show ?thesis
      unfolding st(2) True nth_list_update_eq [OF st(1)] by (simp add: bit_swapped_byte)
  next
    case False
    then have "i' \<noteq> i" by auto
    then show ?thesis using False by (simp add: st(2))
  qed
qed

lemma should_swap_hands_Some:
  "should_swap_hands i st p s = Some b \<Longrightarrow>
    b = (if p then swap_hands (util s) else bit (st ! (i div 8)) (i mod 8)) \<and> (\<not> p \<longrightarrow> i div 8 < length st)"
  unfolding should_swap_hands_def CHAR_BIT_def Let_def and_one_shift_neq_0 by (auto split: if_splits)

lemma hand_swap_matrix:
  assumes "process_hand_swap c e s = Some (e', s')" and "IS_KEYEVENT e" and "on_matrix (lcfg c) (key e)"
  shows "\<exists>b. b = (if pressed e then swap_hands (util s) else swap_bit c (key e) s)
      \<and> key e' = (if b then hand_swap_config c (row (key e)) (col (key e)) else key e)
      \<and> set_swap_hands_state (swap_index c (key e)) (matrix_swap_state s) b = Some (matrix_swap_state s')"
proof -
  obtain b st where b: "should_swap_hands (swap_index c (key e)) (matrix_swap_state s) (pressed e) s = Some b"
    and st: "set_swap_hands_state (swap_index c (key e)) (matrix_swap_state s) b = Some st"
    and r: "e' = (if b then e\<lparr>key := hand_swap_config c (row (key e)) (col (key e))\<rparr> else e)" "s' = s\<lparr>matrix_swap_state := st\<rparr>"
    using assms by (auto simp: process_hand_swap_def Let_def bind_eq_Some_conv)
  have "b = (if pressed e then swap_hands (util s) else swap_bit c (key e) s)"
    using should_swap_hands_Some [OF b] by (simp add: swap_bit_def)
  then show ?thesis using st r by auto
qed

lemma hand_swap_other:
  assumes "process_hand_swap c e s = Some (e', s')" and "key e \<noteq> k" and "on_matrix (lcfg c) k"
  shows "swap_bit c k s' = swap_bit c k s"
proof (cases "IS_KEYEVENT e \<and> on_matrix (lcfg c) (key e)")
  case True
  then have "swap_index c k \<noteq> swap_index c (key e)" using swap_index_inj assms(2,3) by metis
  with True hand_swap_matrix [OF assms(1)] show ?thesis
    using set_swap_hands_state_bit(1) [where i' = "swap_index c k"] unfolding swap_bit_def by metis
next
  case False
  then have "matrix_swap_state s' = matrix_swap_state s"
    using assms(1) by (auto simp: process_hand_swap_def Let_def bind_eq_Some_conv split: if_splits)
  then show ?thesis by (simp add: swap_bit_def)
qed

text \<open>Events of other keys, between which the hands may be swapped back and forth.\<close>

fun swap_run :: "'w act_cfg \<Rightarrow> (bool \<times> keyevent) list \<Rightarrow> 'w act_state \<Rightarrow> 'w act_state option" where
  "swap_run c [] s = Some s"
| "swap_run c ((b, e) # xs) s = (case process_hand_swap c e (set_swap_hands b s) of
     None \<Rightarrow> None | Some (e', s) \<Rightarrow> swap_run c xs s)"

lemma swap_bit_set [simp]: "swap_bit c k (set_swap_hands b s) = swap_bit c k s"
  by (simp add: swap_bit_def set_swap_hands_def on_util_def)

lemma swap_run_other:
  assumes "swap_run c xs s = Some s'" and "k \<notin> key ` snd ` set xs" and "on_matrix (lcfg c) k"
  shows "swap_bit c k s' = swap_bit c k s"
  using assms
proof (induction c xs s rule: swap_run.induct)
  case (2 c b e xs s)
  then obtain e' t where t: "process_hand_swap c e (set_swap_hands b s) = Some (e', t)" "swap_run c xs t = Some s'"
    by (auto split: option.splits)
  have "swap_bit c k t = swap_bit c k (set_swap_hands b s)"
    by (rule hand_swap_other [OF t(1)]) (use "2.prems" in auto)
  moreover have "swap_bit c k s' = swap_bit c k t"
    using "2.IH" t "2.prems"(2,3) by simp
  ultimately show ?case by simp
qed simp

text \<open>C24: With swapped hands a key is released at the position it was pressed at: whatever other keys
  do and however often the hands are swapped in between, its release is mirrored iff its press was.\<close>

theorem hand_swap_release_follows_press:
  assumes "on_matrix (lcfg c) k"
    and "process_hand_swap c (down k t) s = Some (e1, s1)"
    and "swap_run c xs s1 = Some s2" and "k \<notin> key ` snd ` set xs"
    and "process_hand_swap c (up k t') s2 = Some (e2, s3)"
  shows "key e2 = key e1"
proof -
  have "swap_bit c k s1 = swap_hands (util s)" and e1: "key e1 = (if swap_hands (util s) then hand_swap_config c (row k) (col k) else k)"
    using hand_swap_matrix [OF assms(2)] assms(1) set_swap_hands_state_bit(1) [where i' = "swap_index c k"]
    by (auto simp: down_def IS_KEYEVENT_def swap_bit_def)
  then have "swap_bit c k s2 = swap_hands (util s)"
    using swap_run_other [OF assms(3,4,1)] by simp
  then show ?thesis
    using hand_swap_matrix [OF assms(5)] assms(1) e1 by (auto simp: up_def IS_KEYEVENT_def)
qed

lemma hand_swap_release_follows_press_witness:
  "key (fst (the (process_hand_swap (demo_act (\<lambda>l k. 4)) (up demo_k 9)
     (the (swap_run (demo_act (\<lambda>l k. 4)) [(False, down \<lparr>col = 0, row = 1\<rparr> 5)]
       (snd (the (process_hand_swap (demo_act (\<lambda>l k. 4)) (down demo_k 1) (set_swap_hands True demo_act_state)))))))))
   = \<lparr>col = 2, row = 0\<rparr>"
proof -
  let ?c = "demo_act (\<lambda>l k. 4)" and ?s = "set_swap_hands True demo_act_state"
  obtain e1 s1 where h1: "process_hand_swap ?c (down demo_k 1) ?s = Some (e1, s1)" "act_ok ?c True True s1"
    using hand_swap_safe [OF demo_swap, of "\<lambda>l k. 4" True True ?s "down demo_k 1"] demo_ok [of "\<lambda>l k. 4"]
    by (auto simp: down_def demo_k_def demo_act_def demo_cfg_def key_ok_def on_matrix_def)
  obtain e2 s2 where h2: "process_hand_swap ?c (down \<lparr>col = 0, row = 1\<rparr> 5) (set_swap_hands False s1) = Some (e2, s2)"
    "act_ok ?c True True s2"
    using hand_swap_safe [OF demo_swap, of "\<lambda>l k. 4" True True "set_swap_hands False s1" "down \<lparr>col = 0, row = 1\<rparr> 5"] h1(2)
    by (auto simp: down_def demo_act_def demo_cfg_def key_ok_def on_matrix_def)
  obtain e3 s3 where h3: "process_hand_swap ?c (up demo_k 9) s2 = Some (e3, s3)"
    using hand_swap_safe [OF demo_swap h2(2), of "up demo_k 9"]
    by (auto simp: up_def demo_k_def demo_act_def demo_cfg_def key_ok_def on_matrix_def)
  have run: "swap_run ?c [(False, down \<lparr>col = 0, row = 1\<rparr> 5)] s1 = Some s2" using h2(1) by simp
  have on: "on_matrix (lcfg ?c) demo_k" by (simp add: demo_act_def demo_cfg_def demo_k_def on_matrix_def)
  have "key e3 = key e1"
    by (rule hand_swap_release_follows_press [OF on h1(1) run _ h3]) (simp add: down_def demo_k_def)
  moreover have "key e1 = hand_swap_config ?c (row demo_k) (col demo_k)"
    using hand_swap_matrix [OF h1(1)] on by (auto simp: down_def IS_KEYEVENT_def set_swap_hands_def on_util_def)
  moreover have "hand_swap_config ?c (row demo_k) (col demo_k) = \<lparr>col = 2, row = 0\<rparr>"
    by (simp add: demo_act_def demo_k_def)
  ultimately show ?thesis using h1(1) run h3 by simp
qed

section \<open>Registering and unregistering codes\<close>

definition held_keys :: "'w::len word act_cfg \<Rightarrow> bool \<Rightarrow> bool \<Rightarrow> 'w word act_state \<Rightarrow> u8 set" where
  "held_keys c p q s = report_held (variant (ucfg c)) p q (report (util s))"

lemma held_send [simp]: "held_keys c p q (send_report d s) = held_keys c p q s"
  by (simp add: held_keys_def)

lemma held_del: "act_ok c p q s \<Longrightarrow> kc \<noteq> 0 \<Longrightarrow> held_keys c p q (del_key c kc s) = held_keys c p q s - {kc}"
  using report_del [OF act_okD(2) [of c p q s], of kc] by (simp add: held_keys_def del_key_def on_util_def)

lemma held_add:
  assumes "act_ok c p q s" and "kc \<noteq> 0" and "kc \<notin> held_keys c p q s"
  shows "held_keys c p q (add_key c kc s) \<subseteq> insert kc (held_keys c p q s)"
    and "report_room (variant (ucfg c)) p q (held_keys c p q s) kc \<Longrightarrow> held_keys c p q (add_key c kc s) = insert kc (held_keys c p q s)"
  using report_add [OF act_okD(2) [OF assms(1)] assms(2)] assms(3) by (simp_all add: held_keys_def add_key_def on_util_def)

lemma register_basic:
  assumes lock: "\<not> LOCKING_SUPPORT_ENABLE c" and ok: "act_ok c p q s" and b: "IS_BASIC_KEYCODE code"
  shows "held_keys c p q (register_code c code s) \<subseteq> insert code (held_keys c p q s)"
    and "report_room (variant (ucfg c)) p q (held_keys c p q s - {code}) code \<Longrightarrow>
      held_keys c p q (register_code c code s) = insert code (held_keys c p q s)"
proof -
  note nz = basic_nonzero [OF b]
  note t = register_new [OF ok nz, folded held_keys_def]
  note A = held_add [OF t(1) nz t(2)]
  have r: "register_code c code s = send_report c (add_key c code
      (if is_key_pressed (variant (ucfg c)) code (report (util s)) then send_report c (del_key c code s) else s))"
    using nz b by (simp add: register_code_def no_locking [OF lock] KC_NO_def Let_def)
  show "held_keys c p q (register_code c code s) \<subseteq> insert code (held_keys c p q s)"
    using A(1) t(3) unfolding r held_send by blast
  show "held_keys c p q (register_code c code s) = insert code (held_keys c p q s)"
    if "report_room (variant (ucfg c)) p q (held_keys c p q s - {code}) code"
    using A(2) that unfolding r held_send t(3) by auto
qed

lemma unregister_basic:
  assumes "\<not> LOCKING_SUPPORT_ENABLE c" and "act_ok c p q s" and "IS_BASIC_KEYCODE code"
  shows "held_keys c p q (unregister_code c code s) = held_keys c p q s - {code}"
  using assms basic_nonzero [OF assms(3)] by (simp add: unregister_code_def no_locking KC_NO_def held_del)

section \<open>Plain keys\<close>

text \<open>An action that is a basic keycode without modifiers, and hooks that do nothing.\<close>

definition plain_key :: "u16 \<Rightarrow> bool" where
  "plain_key a \<longleftrightarrow> kind_id a = ACT_LMODS \<and> key_mods a = 0 \<and> IS_BASIC_KEYCODE (code_of a)"

definition plain_hooks :: "'w act_cfg \<Rightarrow> bool" where
  "plain_hooks c \<longleftrightarrow> process_record_quantum c = (\<lambda>r s. (True, s)) \<and> post_process_record_quantum c = (\<lambda>r s. s)"

definition fresh_record :: "keyevent \<Rightarrow> keyrecord" where
  "fresh_record e = \<lparr>event = e, tap = no_tap\<rparr>"

definition code_step :: "'w act_cfg \<Rightarrow> u8 \<Rightarrow> bool \<Rightarrow> 'w step" where
  "code_step c code press s = (if press then register_code c code s else unregister_code c code s)"

text \<open>States that agree on the report, the layers and the one-shot layer.\<close>

definition agree :: "'w act_state \<Rightarrow> 'w act_state \<Rightarrow> bool" where
  "agree s s' \<longleftrightarrow> report (util s') = report (util s) \<and> layers (util s') = layers (util s)
     \<and> oneshot_layer_data (util s') = oneshot_layer_data (util s) \<and> oneshot_enable (util s') = oneshot_enable (util s)
     \<and> matrix_swap_state s' = matrix_swap_state s \<and> encoder_swap_state s' = encoder_swap_state s"

lemma use_oneshot_swaphands_frame [simp]:
  "report (use_oneshot_swaphands v u) = report u" "layers (use_oneshot_swaphands v u) = layers u"
  "oneshot_layer_data (use_oneshot_swaphands v u) = oneshot_layer_data u"
  "oneshot_enable (use_oneshot_swaphands v u) = oneshot_enable u"
  by (simp_all add: use_oneshot_swaphands_def clear_oneshot_swaphands_def Let_def)

lemma plain_not_tap: "plain_key a \<Longrightarrow> \<not> is_tap_action a"
  by (simp add: plain_key_def is_tap_action_def)

lemma plain_switch:
  "plain_key a \<Longrightarrow> act_switch c r a press tc s = (r, True, code_step c (code_of a) press s)"
  by (simp add: plain_key_def act_switch_def act_mods_def hand_mods_def code_step_def Let_def)

lemma plain_ends:
  assumes "plain_key a"
  shows "ends_oneshot_layer a press tc s \<longleftrightarrow> is_oneshot_layer_active (util s) \<and> press \<and> oneshot_enable (util s)"
proof -
  have "\<not> IS_MODIFIER_KEYCODE (code_of a)"
    using assms by (auto simp: plain_key_def IS_BASIC_KEYCODE_def IS_MODIFIER_KEYCODE_def KC_LEFT_CTRL_def word_le_nat_alt)
  then show ?thesis using assms by (auto simp: ends_oneshot_layer_def plain_key_def)
qed

text \<open>Everything behind the switch leaves report and layers alone.\<close>

definition tail :: "'w act_cfg \<Rightarrow> keyrecord \<Rightarrow> u16 \<Rightarrow> bool \<Rightarrow> nat \<Rightarrow> 'w step" where
  "tail c r a press tc s =
     (let s = retro_tap c r a press tc (update_leds a s)
      in if press \<and> \<not> (kind_id a = ACT_SWAP_HANDS \<and> code_of a = OP_SH_ONESHOT)
         then on_util (use_oneshot_swaphands (ucfg c)) s else s)"

lemma plain_tail: "plain_key a \<Longrightarrow> agree s (tail c r a press tc s)"
  by (auto simp: tail_def retro_tap_def plain_not_tap agree_def on_util_def Let_def update_leds_def plain_key_def)

lemma process_plain:
  assumes "plain_key a" and "pressed (event r) \<Longrightarrow> \<not> is_oneshot_layer_active (util s)"
  shows "\<exists>s'. process_action c again r a s = Some (r, s') \<and> agree (code_step c (code_of a) (pressed (event r)) s) s'"
proof -
  have "\<not> ends_oneshot_layer a (pressed (event r)) tc s" for tc using assms by (auto simp: plain_ends)
  then have "process_action c again r a s =
      Some (r, tail c r a (pressed (event r)) (unat (tap_count (tap r))) (code_step c (code_of a) (pressed (event r)) s))"
    by (cases "pressed (event r)") (simp_all add: process_action_def Let_def plain_switch [OF assms(1)] tail_def)
  then show ?thesis using plain_tail [OF assms(1)] by blast
qed

lemma rec_plain:
  assumes hooks: "plain_hooks c" and e: "IS_EVENT (event r)"
    and st: "store_or_get_action (lcfg c) (action_for_key c) (pressed (event r)) (key (event r)) (layers (util s)) = Some (a, x)"
    and a: "plain_key a" "pressed (event r) \<Longrightarrow> \<not> is_oneshot_layer_active (util s)"
  shows "\<exists>s'. process_record_level (Suc n) c r s = Some (r, s')
    \<and> agree (code_step c (code_of a) (pressed (event r)) (on_util (\<lambda>u. u\<lparr>layers := x\<rparr>) s)) s'"
proof -
  have "pressed (event r) \<Longrightarrow> \<not> is_oneshot_layer_active (util (on_util (\<lambda>u. u\<lparr>layers := x\<rparr>) s))"
    using a(2) by (simp add: on_util_def is_oneshot_layer_active_def get_oneshot_layer_state_def)
  from process_plain [OF a(1) this, of r c "process_record_level n c"] e show ?thesis
    by (auto simp: process_record_handler_def st hooks [unfolded plain_hooks_def] IS_NOEVENT_iff)
qed

lemma agree_held: "agree s s' \<Longrightarrow> held_keys c p q s' = held_keys c p q s"
  by (simp add: agree_def held_keys_def)

lemma get_mods_layers:
  "get_mods_for_report v t u = (m, u') \<Longrightarrow> layers u' = layers u \<and> oneshot_layer_data u' = oneshot_layer_data u
    \<and> oneshot_enable u' = oneshot_enable u"
  by (auto simp: get_mods_for_report_def clear_oneshot_mods_def stamp_def Let_def split: if_splits)

text \<open>Sending and registering keys leave the layers alone.\<close>

definition same_layers :: "'w util_state \<Rightarrow> 'w util_state \<Rightarrow> bool" where
  "same_layers u u' \<longleftrightarrow> layers u' = layers u \<and> oneshot_layer_data u' = oneshot_layer_data u
    \<and> oneshot_enable u' = oneshot_enable u"

lemma send_layers: "same_layers u (send_keyboard_report v t u)"
proof -
  have six: "same_layers u (send_6kro_report v t u)" for u :: "'a util_state"
    by (cases "get_mods_for_report v t u") (auto simp: same_layers_def send_6kro_report_def Let_def emit_def dest: get_mods_layers)
  have n: "same_layers u (send_nkro_report v t u)" for u :: "'a util_state"
    by (cases "get_mods_for_report v t u") (auto simp: same_layers_def send_nkro_report_def Let_def emit_def dest: get_mods_layers)
  show ?thesis using six n by (simp add: send_keyboard_report_def Let_def same_layers_def split: build.split)
qed

lemma step_layers:
  "same_layers u (util (send_report d s)) = same_layers u (util s)"
  "same_layers u (util (add_key d k s)) = same_layers u (util s)"
  "same_layers u (util (del_key d k s)) = same_layers u (util s)"
  using send_layers [of "util s" "ucfg d" "clock s"]
  by (auto simp: same_layers_def send_report_def add_key_def del_key_def on_util_def)

lemma code_step_layers:
  assumes "\<not> LOCKING_SUPPORT_ENABLE c" and "IS_BASIC_KEYCODE code"
  shows "same_layers (util s) (util (code_step c code press s))"
  using assms
  by (simp add: code_step_def register_code_def unregister_code_def no_locking Let_def step_layers)
    (simp add: same_layers_def)

lemma fresh_event [simp]:
  "pressed (event (fresh_record (down k t)))" "\<not> pressed (event (fresh_record (up k t)))"
  "key (event (fresh_record (down k t))) = k" "key (event (fresh_record (up k t))) = k"
  "IS_EVENT (event (fresh_record (down k t)))" "IS_EVENT (event (fresh_record (up k t)))"
  by (simp_all add: fresh_record_def down_def up_def IS_EVENT_def)

lemma process_rec_two: "process_rec c r s = process_record_level (Suc 1) c r s"
  by (simp add: process_rec_def numeral_2_eq_2)

text \<open>C9: No stuck keys: a key whose layer gives it a basic keycode puts that code in the report when it
  is pressed (while the keys fit), and its release takes the code out again on whatever layers are
  active by then, as long as the cache entry of the key is kept, which every layer operation and
  every other key do.\<close>

theorem no_stuck_keys:
  assumes hooks: "plain_hooks c" and safe: "safe_cfg c p q" "0 < MAX_LAYER (lcfg c)" and k: "key_ok (lcfg c) k"
    and s: "act_ok c p q s" "\<not> disable_action_cache (layers (util s))" "\<not> is_oneshot_layer_active (util s)"
    and a: "plain_key a" "a = key_action c k s"
    and press: "process_rec c (fresh_record (down k t)) s = Some (r1, s1)"
    and later: "act_ok c p q s2" "\<not> disable_action_cache (layers (util s2))"
      "look_layer (lcfg c) k (layers (util s2)) = look_layer (lcfg c) k (layers (util s1))"
  shows "(report_room (variant (ucfg c)) p q (held_keys c p q s - {code_of a}) (code_of a) \<longrightarrow> code_of a \<in> held_keys c p q s1)
    \<and> (\<exists>r2 s3. process_rec c (fresh_record (up k t')) s2 = Some (r2, s3) \<and> held_keys c p q s3 = held_keys c p q s2 - {code_of a})"
proof -
  have cfg: "cfg_ok (lcfg c)" and lock: "\<not> LOCKING_SUPPORT_ENABLE c" using safe(1) by (simp_all add: safe_cfg_def)
  have b: "IS_BASIC_KEYCODE (code_of a)" using a(1) by (simp add: plain_key_def)
  let ?l = "layer_switch_get_layer (lcfg c) (action_for_key c) k (layers (util s))"
  obtain x where x: "update_source_layers_cache (lcfg c) k ?l (layers (util s)) = Some x" "layers_ok (lcfg c) x"
    "look_layer (lcfg c) k x = ?l"
    using update_ok [OF cfg act_okD(3) [OF s(1)] k, of ?l]
      layer_switch_bound [OF cfg safe(2), of "action_for_key c" k "layers (util s)"] by blast
  have act: "action_for_key c ?l k = a" using a(2) by (simp add: key_action_def layer_switch_get_action_def)
  let ?s = "on_util (\<lambda>u. u\<lparr>layers := x\<rparr>) s"
  have ok: "act_ok c p q ?s" using s(1) x(2) by (intro act_ok_on_util) (simp_all add: util_ok_def)
  have st: "store_or_get_action (lcfg c) (action_for_key c) True k (layers (util s)) = Some (a, x)"
    using s(2) x(1) act by (simp add: store_or_get_action_def)
  have "store_or_get_action (lcfg c) (action_for_key c) (pressed (event (fresh_record (down k t))))
      (key (event (fresh_record (down k t)))) (layers (util s)) = Some (a, x)"
    using st by simp
  from rec_plain [OF hooks fresh_event(5) this a(1) s(3), of 1] obtain s1'
    where s1': "process_rec c (fresh_record (down k t)) s = Some (fresh_record (down k t), s1')"
      "agree (register_code c (code_of a) ?s) s1'"
    unfolding process_rec_two code_step_def if_P [OF fresh_event(1)] by blast
  have "s1' = s1" using press unfolding s1'(1) by (simp only: option.inject prod.inject)
  then have s1: "agree (register_code c (code_of a) ?s) s1" using s1'(2) by (simp only:)
  have "held_keys c p q ?s = held_keys c p q s" by (simp add: held_keys_def on_util_def)
  then have pressed: "report_room (variant (ucfg c)) p q (held_keys c p q s - {code_of a}) (code_of a) \<longrightarrow> code_of a \<in> held_keys c p q s1"
    using register_basic(2) [OF lock ok b] agree_held [OF s1, of c p q] by simp
  have "layers (util (register_code c (code_of a) ?s)) = x"
    using code_step_layers [OF lock b, of ?s True] by (simp add: code_step_def same_layers_def on_util_def)
  then have "look_layer (lcfg c) k (layers (util s2)) = ?l" using later(3) s1 x(3) by (simp add: agree_def)
  then have st2: "store_or_get_action (lcfg c) (action_for_key c) False k (layers (util s2)) = Some (a, layers (util s2))"
    using later(2) read_ok [OF cfg act_okD(3) [OF later(1)] k] act by (simp add: store_or_get_action_def)
  have id: "on_util (\<lambda>u. u\<lparr>layers := layers (util s2)\<rparr>) s2 = s2" by (simp add: on_util_def)
  have na: "\<not> is_oneshot_layer_active (util s2)" if "pressed (event (fresh_record (up k t')))"
    using that by simp
  have "store_or_get_action (lcfg c) (action_for_key c) (pressed (event (fresh_record (up k t'))))
      (key (event (fresh_record (up k t')))) (layers (util s2)) = Some (a, layers (util s2))"
    using st2 by simp
  from rec_plain [OF hooks fresh_event(6) this a(1) na, of 1] obtain s3
    where s3: "process_rec c (fresh_record (up k t')) s2 = Some (fresh_record (up k t'), s3)"
      "agree (unregister_code c (code_of a) s2) s3"
    unfolding process_rec_two id code_step_def if_not_P [OF fresh_event(2)] by blast
  have "held_keys c p q s3 = held_keys c p q s2 - {code_of a}"
    using unregister_basic [OF lock later(1) b] agree_held [OF s3(2), of c p q] by simp
  then show ?thesis using pressed s3(1) by blast
qed

lemma plain_demo: "plain_key 4" "code_of 4 = 4"
  by (simp_all add: plain_key_def kind_id_def key_mods_def code_of_def IS_BASIC_KEYCODE_def)

lemma demo_key_ok: "key_ok (lcfg (demo_act km)) demo_k"
  by (simp add: demo_act_def demo_cfg_def demo_k_def key_ok_def on_matrix_def)

lemma no_stuck_keys_witness:
  "\<exists>r1 s1 r2 s3. process_rec (demo_act (\<lambda>l k. 4)) (fresh_record (down demo_k 1)) demo_act_state = Some (r1, s1)
     \<and> 4 \<in> held_keys (demo_act (\<lambda>l k. 4)) True True s1
     \<and> process_rec (demo_act (\<lambda>l k. 4)) (fresh_record (up demo_k 9))
         (on_layers (\<lambda>x. x\<lparr>layer_state := 5, disable_action_cache := False\<rparr>) s1) = Some (r2, s3)
     \<and> 4 \<notin> held_keys (demo_act (\<lambda>l k. 4)) True True s3"
proof -
  let ?c = "demo_act (\<lambda>l k. 4)"
  have "rec_ok ?c (fresh_record (down demo_k 1))" using demo_key_ok by (simp add: rec_ok_def)
  then obtain r1 s1 where s1: "process_rec ?c (fresh_record (down demo_k 1)) demo_act_state = Some (r1, s1)" "act_ok ?c True True s1"
    using process_rec_ok [of ?c True True demo_act_state "fresh_record (down demo_k 1)"] demo_safe [of "\<lambda>l k. 4" True True]
      demo_ok [of "\<lambda>l k. 4"] by (auto simp: safe_cfg_def call_ok_def)
  let ?s2 = "on_layers (\<lambda>x. x\<lparr>layer_state := 5, disable_action_cache := False\<rparr>) s1"
  have s2: "act_ok ?c True True ?s2" using s1(2) by (intro act_ok_on_layers) simp_all
  have look: "look_layer (lcfg ?c) demo_k (layers (util ?s2)) = look_layer (lcfg ?c) demo_k (layers (util s1))"
    "\<not> disable_action_cache (layers (util ?s2))"
    by (simp_all add: look_layer_def on_layers_def on_util_def)
  have room: "report_room (variant (ucfg ?c)) True True (held_keys ?c True True demo_act_state - {code_of 4}) (code_of 4)"
    by (simp add: report_room_def report_mode_def demo_act_def demo_util_def held_keys_def report_held_def byte_keys_def
        demo_act_state_def demo_state_def report_init_def KEYBOARD_REPORT_KEYS_def)
  have demo: "plain_hooks ?c" "0 < MAX_LAYER (lcfg ?c)" "\<not> disable_action_cache (layers (util demo_act_state))"
    "\<not> is_oneshot_layer_active (util demo_act_state)" "4 = key_action ?c demo_k demo_act_state"
    by (simp_all add: plain_hooks_def demo_act_def demo_cfg_def demo_act_state_def demo_layers_def demo_state_def
        is_oneshot_layer_active_def get_oneshot_layer_state_def key_action_def layer_switch_get_action_def)
  show ?thesis
    using no_stuck_keys [OF demo(1) demo_safe demo(2) demo_key_ok demo_ok demo(3,4) plain_demo(1) demo(5) s1(1) s2 look(2,1), of 9]
      room s1(1) plain_demo(2) by auto
qed

section \<open>A key on a one-shot layer\<close>

lemma plain_cfg_id: "(\<lambda>u. u\<lparr>layers := layers u\<rparr>) = (\<lambda>u :: 'w util_state. u)"
  by (rule ext) simp

lemma osl_over_inactive: "osl_over l u \<Longrightarrow> \<not> is_oneshot_layer_active u \<and> get_oneshot_layer u = 0 \<and> get_oneshot_layer_state u = 0"
  by (simp add: osl_over_def is_oneshot_layer_active_def get_oneshot_layer_state_def get_oneshot_layer_def)

lemma osl_over_same: "same_layers u u' \<Longrightarrow> osl_over l u' = osl_over l u"
  by (simp add: same_layers_def osl_over_def)

lemma agree_layers: "agree s s' \<Longrightarrow> same_layers (util s) (util s')"
  by (simp add: agree_def same_layers_def)

text \<open>The press that ends a one-shot layer: the nested call that releases the key.\<close>

lemma process_plain_ends:
  assumes lock: "\<not> LOCKING_SUPPORT_ENABLE c" and kb: "layer_state_set_kb (ucfg c) = id"
    and a: "plain_key a" and r: "pressed (event r)"
    and l: "unat l < 32" and w: "osl_waits l ONESHOT_OTHER_KEY_PRESSED (util s)"
  defines "s1 \<equiv> on_util (clear_oneshot_layer_state (ucfg c) ONESHOT_OTHER_KEY_PRESSED) s"
  shows "\<exists>s4. agree (register_code c (code_of a) s1) s4 \<and> osl_over l (util s4)
    \<and> process_action c again r a s =
        (case again (r\<lparr>event := (event r)\<lparr>pressed := False\<rparr>\<rparr>) (on_layers (layer_on id 0) s4) of
           None \<Rightarrow> None | Some (r, s) \<Rightarrow> Some (r, on_layers (layer_off id (get_oneshot_layer (util s))) s))"
proof -
  have small: "unat ONESHOT_OTHER_KEY_PRESSED < 8" "ONESHOT_OTHER_KEY_PRESSED \<noteq> 0" by (simp_all add: oneshot_codes)
  have "osl_over l (clear_oneshot_layer_state (ucfg c) ONESHOT_OTHER_KEY_PRESSED (util s))"
    using osl_clear(1) [OF kb l small(1,1) w small(2)] by simp
  then have over1: "osl_over l (util s1)" by (simp add: s1_def on_util_def)
  have active: "is_oneshot_layer_active (util s)" by (rule osl_active [OF w l small])
  have ends: "ends_oneshot_layer a True tc s" for tc
    using active w by (simp add: plain_ends [OF a] osl_waits_def)
  let ?tc = "unat (tap_count (tap r))"
  define s4 where "s4 = tail c r a True ?tc (register_code c (code_of a) s1)"
  have ag: "agree (register_code c (code_of a) s1) s4" unfolding s4_def by (rule plain_tail [OF a])
  have b: "IS_BASIC_KEYCODE (code_of a)" using a by (simp add: plain_key_def)
  have "same_layers (util s1) (util (register_code c (code_of a) s1))"
    using code_step_layers [OF lock b, of s1 True] by (simp add: code_step_def)
  then have over4: "osl_over l (util s4)"
    using over1 osl_over_same agree_layers [OF ag] by blast
  note O = osl_over_inactive [OF over1] osl_over_inactive [OF over4]
  have sw: "act_switch c r a True ?tc s1 = (r, True, register_code c (code_of a) s1)"
    using plain_switch [OF a, of c r True ?tc s1] by (simp add: code_step_def)
  have k: "kind_id a = ACT_LMODS" using a by (simp add: plain_key_def)
  have t: "on_util (use_oneshot_swaphands (ucfg c)) (retro_tap c r a True ?tc (update_leds a (register_code c (code_of a) s1))) = s4"
    by (simp add: s4_def tail_def k)
  have "process_action c again r a s =
      (case again (r\<lparr>event := (event r)\<lparr>pressed := False\<rparr>\<rparr>) (on_layers (layer_on id 0) s4) of
         None \<Rightarrow> None | Some (r, s) \<Rightarrow> Some (r, on_layers (layer_off id (get_oneshot_layer (util s))) s))"
    using O t
    unfolding process_action_def Let_def r(1) if_P [OF ends] s1_def [symmetric] kb
    by (simp add: r ends sw k split: option.split)
  then show ?thesis using ag over4 by blast
qed

text \<open>When a press ends a one-shot layer the release that is processed at once runs with the
  one-shot layer already off and layer 0 switched on in its place: the number of the layer has been
  reset before it is asked for.\<close>

theorem oneshot_release_runs_on_layer_0:
  fixes s :: "'w::len word act_state"
  assumes "\<not> LOCKING_SUPPORT_ENABLE c" and "layer_state_set_kb (ucfg c) = id" and "plain_key a" and "pressed (event r)"
    and "unat l < 32" and "osl_waits l ONESHOT_OTHER_KEY_PRESSED (util s)" and "l \<noteq> 0"
  shows "\<exists>s5. process_action c again r a s =
      (case again (r\<lparr>event := (event r)\<lparr>pressed := False\<rparr>\<rparr>) s5 of
         None \<Rightarrow> None | Some (r, s) \<Rightarrow> Some (r, on_layers (layer_off id (get_oneshot_layer (util s))) s))
    \<and> unat l \<notin> bits_of (layer_state (layers (util s5))) \<and> 0 \<in> bits_of (layer_state (layers (util s5)))"
proof -
  obtain s4 where s4: "osl_over l (util s4)"
    "process_action c again r a s =
      (case again (r\<lparr>event := (event r)\<lparr>pressed := False\<rparr>\<rparr>) (on_layers (layer_on id 0) s4) of
         None \<Rightarrow> None | Some (r, s) \<Rightarrow> Some (r, on_layers (layer_off id (get_oneshot_layer (util s))) s))"
    using process_plain_ends [OF assms(1-6)] by blast
  have "unat l \<noteq> 0" using assms(7) by (simp add: unat_eq_0)
  then have "unat l \<notin> bits_of (layer_state (layers (util (on_layers (layer_on id 0) s4))))
      \<and> 0 \<in> bits_of (layer_state (layers (util (on_layers (layer_on id 0) s4))))"
    using s4(1) bits_layer_on(1) [of 0 "layers (util s4)"] by (simp add: osl_over_def on_layers_def on_util_def)
  then show ?thesis using s4(2) by blast
qed

text \<open>A state with the one-shot layer 1 on, whose own key is up again.\<close>

definition demo_osl :: "8 word act_state" where
  "demo_osl = demo_act_state\<lparr>util := (util demo_act_state)\<lparr>oneshot_layer_data := 10, oneshot_enable := True,
     layers := demo_layers\<lparr>layer_state := 2\<rparr>\<rparr>\<rparr>"

lemma demo_osl_facts:
  "act_ok (demo_act km) True True demo_osl" "\<not> disable_action_cache (layers (util demo_osl))"
  "osl_waits 1 ONESHOT_OTHER_KEY_PRESSED (util demo_osl)"
  using demo_ok [of km]
  by (simp_all add: demo_osl_def act_ok_def util_ok_def osl_waits_def oneshot_codes bits_of_def bit_iff_odd
      demo_act_state_def demo_layers_def)

lemma oneshot_release_runs_on_layer_0_witness:
  "\<exists>s5. process_action (demo_act (\<lambda>l k. 4)) (\<lambda>r s. Some (r, s)) (fresh_record (down demo_k 1)) 4 demo_osl =
      Some ((fresh_record (down demo_k 1))\<lparr>event := (event (fresh_record (down demo_k 1)))\<lparr>pressed := False\<rparr>\<rparr>,
        on_layers (layer_off id (get_oneshot_layer (util s5))) s5)
    \<and> 1 \<notin> bits_of (layer_state (layers (util s5))) \<and> 0 \<in> bits_of (layer_state (layers (util s5)))"
  using oneshot_release_runs_on_layer_0 [of "demo_act (\<lambda>l k. 4)" 4 "fresh_record (down demo_k 1)" 1 demo_osl "\<lambda>r s. Some (r, s)"]
    plain_demo(1) demo_osl_facts(3)
  by (simp add: demo_act_def demo_util_def)

lemma act_ok_agree: "agree s s' \<Longrightarrow> act_ok c p q s \<Longrightarrow> act_ok c p q s'"
  by (simp add: agree_def act_ok_def util_ok_def)

lemma clear_oneshot_cache [simp]:
  "look_layer lc k (layers (clear_oneshot_layer_state v st u)) = look_layer lc k (layers u)"
  "disable_action_cache (layers (clear_oneshot_layer_state v st u)) = disable_action_cache (layers u)"
  by (simp_all add: clear_oneshot_layer_state_def reset_oneshot_layer_def Let_def look_layer_def layer_off_def layer_state_set_def)

lemma layer_bit_cache [simp]:
  "look_layer lc k (layer_on kb n x) = look_layer lc k x" "look_layer lc k (layer_off kb n x) = look_layer lc k x"
  "disable_action_cache (layer_on kb n x) = disable_action_cache x" "disable_action_cache (layer_off kb n x) = disable_action_cache x"
  by (simp_all add: look_layer_def layer_on_def layer_off_def layer_state_set_def)

text \<open>A key pressed on a one-shot layer whose own key is up already is tapped: in the same call its
  code is registered and unregistered, the release looked up for the layer of the press, and the
  layer is off afterwards.\<close>

theorem oneshot_layer_key_is_tapped:
  fixes s :: "'w::len word act_state"
  assumes hooks: "plain_hooks c" and safe: "safe_cfg c p q" "0 < MAX_LAYER (lcfg c)" and kb: "layer_state_set_kb (ucfg c) = id"
    and k: "key_ok (lcfg c) k" and s: "act_ok c p q s" "\<not> disable_action_cache (layers (util s))"
    and l: "unat l < 32" and w: "osl_waits l ONESHOT_OTHER_KEY_PRESSED (util s)"
    and a: "plain_key a" "a = key_action c k s"
  shows "\<exists>r' s'. process_rec c (fresh_record (down k t)) s = Some (r', s') \<and> \<not> pressed (event r')
    \<and> act_ok c p q s' \<and> code_of a \<notin> held_keys c p q s' \<and> osl_over l (util s')"
proof -
  have cfg: "cfg_ok (lcfg c)" and lock: "\<not> LOCKING_SUPPORT_ENABLE c" using safe(1) by (simp_all add: safe_cfg_def)
  have b: "IS_BASIC_KEYCODE (code_of a)" using a(1) by (simp add: plain_key_def)
  let ?l = "layer_switch_get_layer (lcfg c) (action_for_key c) k (layers (util s))"
  let ?r = "fresh_record (down k t)" and ?r' = "(fresh_record (down k t))\<lparr>event := (event (fresh_record (down k t)))\<lparr>pressed := False\<rparr>\<rparr>"
  obtain x where x: "update_source_layers_cache (lcfg c) k ?l (layers (util s)) = Some x" "layers_ok (lcfg c) x"
    "look_layer (lcfg c) k x = ?l" "layer_state x = layer_state (layers (util s))" "\<not> disable_action_cache x"
    using update_ok [OF cfg act_okD(3) [OF s(1)] k, of ?l] s(2)
      layer_switch_bound [OF cfg safe(2), of "action_for_key c" k "layers (util s)"] by auto
  have act: "action_for_key c ?l k = a" using a(2) by (simp add: key_action_def layer_switch_get_action_def)
  define s0 where "s0 = on_util (\<lambda>u. u\<lparr>layers := x\<rparr>) s"
  have s0: "act_ok c p q s0" "osl_waits l ONESHOT_OTHER_KEY_PRESSED (util s0)" "layers (util s0) = x"
    using s(1) x(2,4) w by (auto simp: s0_def act_ok_def util_ok_def on_util_def osl_waits_def)
  have st: "store_or_get_action (lcfg c) (action_for_key c) True k (layers (util s)) = Some (a, x)"
    using s(2) x(1) act by (simp add: store_or_get_action_def)
  let ?s1 = "on_util (clear_oneshot_layer_state (ucfg c) ONESHOT_OTHER_KEY_PRESSED) s0"
  obtain s4 where s4: "agree (register_code c (code_of a) ?s1) s4" "osl_over l (util s4)"
    and pa: "process_action c (process_record_level 1 c) ?r a s0 =
      (case process_record_level 1 c ?r' (on_layers (layer_on id 0) s4) of
         None \<Rightarrow> None | Some (r, s) \<Rightarrow> Some (r, on_layers (layer_off id (get_oneshot_layer (util s))) s))"
    using process_plain_ends [OF lock kb a(1) fresh_event(1) l s0(2)] by blast
  define s5 where "s5 = on_layers (layer_on id 0) s4"
  have ok1: "act_ok c p q ?s1" using s0(1) by (simp add: act_ok_on_util)
  have ok5: "act_ok c p q s5"
    unfolding s5_def using act_ok_agree [OF s4(1)] register_code_ok [OF lock ok1] by (simp add: act_ok_on_layers)
  have "layers (util s4) = layers (util ?s1)"
    using s4(1) code_step_layers [OF lock b, of ?s1 True] by (simp add: agree_def same_layers_def code_step_def)
  then have look: "look_layer (lcfg c) k (layers (util s5)) = ?l" "\<not> disable_action_cache (layers (util s5))"
    using s0(3) x(3,5) by (simp_all add: s5_def on_layers_def on_util_def)
  have st2: "store_or_get_action (lcfg c) (action_for_key c) (pressed (event ?r')) (key (event ?r')) (layers (util s5)) = Some (a, layers (util s5))"
    using look read_ok [OF cfg act_okD(3) [OF ok5] k] act by (simp add: store_or_get_action_def)
  have e': "IS_EVENT (event ?r')" by (simp add: fresh_record_def down_def IS_EVENT_def)
  have na: "\<not> is_oneshot_layer_active (util s5)" if "pressed (event ?r')" using that by simp
  have id: "on_util (\<lambda>u. u\<lparr>layers := layers (util s5)\<rparr>) s5 = s5" by (simp add: on_util_def)
  obtain s6 where s6: "process_record_level 1 c ?r' s5 = Some (?r', s6)" "agree (unregister_code c (code_of a) s5) s6"
    using rec_plain [OF hooks e' st2 a(1) na, of 0] unfolding id code_step_def One_nat_def by auto
  have sl: "same_layers (util s5) (util s6)"
    using code_step_layers [OF lock b, of s5 False] agree_layers [OF s6(2)] by (simp add: code_step_def same_layers_def)
  define s7 where "s7 = on_layers (layer_off id 0) s6"
  have zero: "get_oneshot_layer (util s6) = 0"
    using sl s4(2) by (simp add: same_layers_def s5_def on_layers_def on_util_def osl_over_def get_oneshot_layer_def)
  have "process_rec c ?r s = Some (?r', s7)"
    using pa s6(1) zero st fresh_event
    unfolding process_rec_two process_record_level.simps(2) process_record_handler_def hooks [unfolded plain_hooks_def, THEN conjunct1]
      hooks [unfolded plain_hooks_def, THEN conjunct2] s5_def [symmetric] s7_def s0_def
    by (simp add: IS_NOEVENT_iff del: process_record_level.simps)
  moreover have "act_ok c p q s7"
    unfolding s7_def using act_ok_agree [OF s6(2)] unregister_code_ok [OF lock ok5] by (simp add: act_ok_on_layers)
  moreover have "code_of a \<notin> held_keys c p q s7"
  proof -
    have "held_keys c p q s7 = held_keys c p q s6" by (simp add: s7_def held_keys_def on_layers_def on_util_def)
    then show ?thesis using agree_held [OF s6(2), of c p q] unregister_basic [OF lock ok5 b] by simp
  qed
  moreover have "osl_over l (util s7)"
    using sl s4(2) bits_layer_on [of 0 "layers (util s4)"] bits_layer_on(2) [of 0 "layer_on id 0 (layers (util s4))"]
    by (auto simp: osl_over_def same_layers_def s7_def s5_def on_layers_def on_util_def)
  ultimately show ?thesis by auto
qed

lemma oneshot_layer_key_is_tapped_witness:
  "\<exists>r' s'. process_rec (demo_act (\<lambda>l k. 4)) (fresh_record (down demo_k 1)) demo_osl = Some (r', s') \<and> \<not> pressed (event r')
    \<and> act_ok (demo_act (\<lambda>l k. 4)) True True s' \<and> 4 \<notin> held_keys (demo_act (\<lambda>l k. 4)) True True s' \<and> osl_over 1 (util s')"
proof -
  have demo: "plain_hooks (demo_act (\<lambda>l k. 4))" "0 < MAX_LAYER (lcfg (demo_act (\<lambda>l k. 4)))"
    "layer_state_set_kb (ucfg (demo_act (\<lambda>l k. 4))) = id" "4 = key_action (demo_act (\<lambda>l k. 4)) demo_k demo_osl"
    by (simp_all add: plain_hooks_def demo_act_def demo_cfg_def demo_util_def key_action_def layer_switch_get_action_def)
  show ?thesis
    using oneshot_layer_key_is_tapped [OF demo(1) demo_safe demo(2,3) demo_key_ok demo_osl_facts(1,2) _ demo_osl_facts(3)
        plain_demo(1) demo(4)] plain_demo(2) by simp
qed

end
