(* ===== verification/Keymap.thy ===== *)
theory Keymap
  imports Usage LayerState
begin

text \<open>
  From the keycode of a key to its action: the keycode remapping of quantum/keycode_config.c and the
  translation of quantum/keymap_common.c, with the packing of 16-bit keycodes
  (quantum/quantum_keycodes.h) and the macros that make action codes (quantum/action_code.h). The
  build is that of the execution of actions: layers, tapping, one-shot keys, extra keys, swap hands.
\<close>

section \<open>Keycodes\<close>

text \<open>As 16-bit values; \<open>KC_NONE\<close> is KC_NO.\<close>

abbreviation (input) KC_NONE :: u16 where "KC_NONE \<equiv> 0x00"
abbreviation (input) KC_CAPSLOCK :: u16 where "KC_CAPSLOCK \<equiv> 0x39"
abbreviation (input) KC_LOCKING_CAPS_LOCK :: u16 where "KC_LOCKING_CAPS_LOCK \<equiv> 0x82"
abbreviation (input) KC_ESCAPE :: u16 where "KC_ESCAPE \<equiv> 0x29"
abbreviation (input) KC_BACKSPACE :: u16 where "KC_BACKSPACE \<equiv> 0x2A"
abbreviation (input) KC_BACKSLASH :: u16 where "KC_BACKSLASH \<equiv> 0x31"
abbreviation (input) KC_GRAVE :: u16 where "KC_GRAVE \<equiv> 0x35"
abbreviation (input) KC_LCTRL :: u16 where "KC_LCTRL \<equiv> 0xE0"
abbreviation (input) KC_LALT :: u16 where "KC_LALT \<equiv> 0xE2"
abbreviation (input) KC_LGUI :: u16 where "KC_LGUI \<equiv> 0xE3"
abbreviation (input) KC_RCTRL :: u16 where "KC_RCTRL \<equiv> 0xE4"
abbreviation (input) KC_RALT :: u16 where "KC_RALT \<equiv> 0xE6"
abbreviation (input) KC_RGUI :: u16 where "KC_RGUI \<equiv> 0xE7"

text \<open>The packing of parameters into a keycode: base of the range and parameter bits.\<close>

definition MT :: "u16 \<Rightarrow> u16 \<Rightarrow> u16" where "MT mods kc = 0x2000 OR push_bit 8 (mods AND 0x1F) OR (kc AND 0xFF)"
definition LT :: "u16 \<Rightarrow> u16 \<Rightarrow> u16" where "LT layer kc = 0x4000 OR push_bit 8 (layer AND 0xF) OR (kc AND 0xFF)"
definition LM :: "u16 \<Rightarrow> u16 \<Rightarrow> u16" where "LM layer mods = 0x5000 OR push_bit 5 (layer AND 0xF) OR (mods AND 0x1F)"
definition QK_TO :: "u16 \<Rightarrow> u16" where "QK_TO layer = 0x5200 OR (layer AND 0x1F)"
definition MO :: "u16 \<Rightarrow> u16" where "MO layer = 0x5220 OR (layer AND 0x1F)"
definition DF :: "u16 \<Rightarrow> u16" where "DF layer = 0x5240 OR (layer AND 0x1F)"
definition TG :: "u16 \<Rightarrow> u16" where "TG layer = 0x5260 OR (layer AND 0x1F)"
definition OSL :: "u16 \<Rightarrow> u16" where "OSL layer = 0x5280 OR (layer AND 0x1F)"
definition OSM :: "u16 \<Rightarrow> u16" where "OSM mods = 0x52A0 OR (mods AND 0x1F)"
definition TT :: "u16 \<Rightarrow> u16" where "TT layer = 0x52C0 OR (layer AND 0x1F)"
definition SH_T :: "u16 \<Rightarrow> u16" where "SH_T kc = 0x5600 OR (kc AND 0xFF)"

definition GET_5 :: "u16 \<Rightarrow> u16" where "GET_5 kc = kc AND 0x1F"
definition GET_BASIC :: "u16 \<Rightarrow> u16" where "GET_BASIC kc = kc AND 0xFF"
definition GET_HIGH_MODS :: "u16 \<Rightarrow> u16" where "GET_HIGH_MODS kc = drop_bit 8 kc AND 0x1F"
definition LT_GET_LAYER :: "u16 \<Rightarrow> u16" where "LT_GET_LAYER kc = drop_bit 8 kc AND 0xF"
definition LM_GET_LAYER :: "u16 \<Rightarrow> u16" where "LM_GET_LAYER kc = drop_bit 5 kc AND 0xF"

section \<open>Remapping\<close>

text \<open>The bits of \<open>keymap_config\<close> the remapping reads.\<close>

record keymap_config =
  swap_control_capslock :: bool
  capslock_to_control :: bool
  swap_lalt_lgui :: bool
  swap_ralt_rgui :: bool
  no_gui :: bool
  swap_grave_esc :: bool
  swap_backslash_backspace :: bool
  swap_lctl_lgui :: bool
  swap_rctl_rgui :: bool
  swap_escape_capslock :: bool

definition keycode_config :: "keymap_config \<Rightarrow> u16 \<Rightarrow> u16" where
  "keycode_config m keycode =
     (if keycode = KC_CAPSLOCK \<or> keycode = KC_LOCKING_CAPS_LOCK
      then if swap_control_capslock m \<or> capslock_to_control m then KC_LCTRL
           else if swap_escape_capslock m then KC_ESCAPE else keycode
      else if keycode = KC_LCTRL
      then if swap_control_capslock m then KC_CAPSLOCK
           else if swap_lctl_lgui m then if no_gui m then KC_NONE else KC_LGUI
           else KC_LCTRL
      else if keycode = KC_LALT
      then if swap_lalt_lgui m then if no_gui m then KC_NONE else KC_LGUI else KC_LALT
      else if keycode = KC_LGUI
      then if swap_lalt_lgui m then KC_LALT
           else if swap_lctl_lgui m then KC_LCTRL
           else if no_gui m then KC_NONE else KC_LGUI
      else if keycode = KC_RCTRL
      then if swap_rctl_rgui m then if no_gui m then KC_NONE else KC_RGUI else KC_RCTRL
      else if keycode = KC_RALT
      then if swap_ralt_rgui m then if no_gui m then KC_NONE else KC_RGUI else KC_RALT
      else if keycode = KC_RGUI
      then if swap_ralt_rgui m then KC_RALT
           else if swap_rctl_rgui m then KC_RCTRL
           else if no_gui m then KC_NONE else KC_RGUI
      else if keycode = KC_GRAVE then if swap_grave_esc m then KC_ESCAPE else KC_GRAVE
      else if keycode = KC_ESCAPE
      then if swap_grave_esc m then KC_GRAVE
           else if swap_escape_capslock m then KC_CAPSLOCK else KC_ESCAPE
      else if keycode = KC_BACKSLASH
      then if swap_backslash_backspace m then KC_BACKSPACE else KC_BACKSLASH
      else if keycode = KC_BACKSPACE
      then if swap_backslash_backspace m then KC_BACKSLASH else KC_BACKSPACE
      else keycode)"

text \<open>Modifiers packed in five bits: control, shift, alt, GUI and the bit of the right hand.\<close>

definition MOD_LCTL :: u8 where "MOD_LCTL = 0x01"
definition MOD_LALT :: u8 where "MOD_LALT = 0x04"
definition MOD_LGUI :: u8 where "MOD_LGUI = 0x08"
definition MOD_RCTL :: u8 where "MOD_RCTL = 0x11"
definition MOD_RALT :: u8 where "MOD_RALT = 0x14"
definition MOD_RGUI :: u8 where "MOD_RGUI = 0x18"

definition mod_config :: "keymap_config \<Rightarrow> u8 \<Rightarrow> u8" where
  "mod_config m mods =
     (let mods = (if swap_lalt_lgui m \<and> (mods AND MOD_RALT = MOD_LALT) \<noteq> (mods AND MOD_RGUI = MOD_LGUI)
                  then mods XOR (MOD_LALT OR MOD_LGUI) else mods);
          mods = (if swap_ralt_rgui m \<and> (mods AND MOD_RALT = MOD_RALT) \<noteq> (mods AND MOD_RGUI = MOD_RGUI)
                  then mods XOR (MOD_LALT OR MOD_LGUI) else mods);
          mods = (if swap_lctl_lgui m \<and> (mods AND MOD_RCTL = MOD_LCTL) \<noteq> (mods AND MOD_RGUI = MOD_LGUI)
                  then mods XOR (MOD_LCTL OR MOD_LGUI) else mods);
          mods = (if swap_rctl_rgui m \<and> (mods AND MOD_RCTL = MOD_RCTL) \<noteq> (mods AND MOD_RGUI = MOD_RGUI)
                  then mods XOR (MOD_LCTL OR MOD_LGUI) else mods)
      in if no_gui m then mods AND NOT MOD_LGUI AND NOT MOD_RGUI else mods)"

lemmas mod_codes = MOD_LCTL_def MOD_LALT_def MOD_LGUI_def MOD_RCTL_def MOD_RALT_def MOD_RGUI_def

section \<open>Making actions\<close>

definition ACTION_NO :: u16 where "ACTION_NO = 0"
definition ACTION_KEY :: "u16 \<Rightarrow> u16" where "ACTION_KEY kc = ACTION ACT_LMODS kc"
definition ACTION_MODS_ONESHOT :: "u16 \<Rightarrow> u16" where
  "ACTION_MODS_ONESHOT mods = ACTION ACT_LMODS_TAP (push_bit 8 (mods AND 0x1f) OR ucast MODS_ONESHOT)"
definition ACTION_USAGE_SYSTEM :: "u16 \<Rightarrow> u16" where
  "ACTION_USAGE_SYSTEM usage = ACTION ACT_USAGE (push_bit 10 (ucast PAGE_SYSTEM) OR usage)"
definition ACTION_USAGE_CONSUMER :: "u16 \<Rightarrow> u16" where
  "ACTION_USAGE_CONSUMER usage = ACTION ACT_USAGE (push_bit 10 (ucast PAGE_CONSUMER) OR usage)"
definition ACTION_MOUSEKEY :: "u16 \<Rightarrow> u16" where "ACTION_MOUSEKEY kc = ACTION ACT_MOUSEKEY kc"

definition ACTION_LAYER_BITOP :: "u8 \<Rightarrow> u16 \<Rightarrow> u16 \<Rightarrow> u8 \<Rightarrow> u16" where
  "ACTION_LAYER_BITOP op part bs on =
     ACTION ACT_LAYER (push_bit 10 (ucast op) OR push_bit 8 (ucast on) OR push_bit 5 part OR (bs AND 0x1f))"

text \<open>The bit of a layer in its group of four.\<close>

definition layer_bit :: "u16 \<Rightarrow> u16" where
  "layer_bit layer = push_bit (unat (layer mod 4)) 1"

definition ACTION_LAYER_GOTO :: "u16 \<Rightarrow> u16" where
  "ACTION_LAYER_GOTO layer = ACTION_LAYER_BITOP OP_BIT_SET (layer div 4) (layer_bit layer) ON_PRESS"
definition ACTION_LAYER_TOGGLE :: "u16 \<Rightarrow> u16" where
  "ACTION_LAYER_TOGGLE layer = ACTION_LAYER_BITOP OP_BIT_XOR (layer div 4) (layer_bit layer) ON_RELEASE"
definition ACTION_DEFAULT_LAYER_SET :: "u16 \<Rightarrow> u16" where
  "ACTION_DEFAULT_LAYER_SET layer = ACTION_LAYER_BITOP OP_BIT_SET (layer div 4) (layer_bit layer) 0"
definition ACTION_LAYER_MOMENTARY :: "u16 \<Rightarrow> u16" where
  "ACTION_LAYER_MOMENTARY layer = ACTION_LAYER_TAP layer (ucast OP_ON_OFF)"
definition ACTION_LAYER_ONESHOT :: "u16 \<Rightarrow> u16" where
  "ACTION_LAYER_ONESHOT layer = ACTION_LAYER_TAP layer (ucast OP_ONESHOT)"
definition ACTION_LAYER_TAP_TOGGLE :: "u16 \<Rightarrow> u16" where
  "ACTION_LAYER_TAP_TOGGLE layer = ACTION_LAYER_TAP layer (ucast OP_TAP_TOGGLE)"
definition ACTION_LAYER_MODS :: "u16 \<Rightarrow> u16 \<Rightarrow> u16" where
  "ACTION_LAYER_MODS layer mods = ACTION ACT_LAYER_MODS (push_bit 8 layer OR mods)"

section \<open>Translation\<close>

text \<open>\<open>legacy\<close> is LEGACY_MAGIC_HANDLING; the local \<open>mod\<close> and \<open>action_layer\<close> of the code are bytes.\<close>

definition action_for_keycode :: "bool \<Rightarrow> keymap_config \<Rightarrow> u16 \<Rightarrow> u16" where
  "action_for_keycode legacy m kc =
     (let kc = keycode_config m kc;
          basic = (\<lambda>kc. if legacy then kc else keycode_config m kc);
          mods = (\<lambda>x. ucast (mod_config m (ucast x)) :: u16)
      in if 0x04 \<le> kc \<and> kc \<le> 0xA4 \<or> 0xE0 \<le> kc \<and> kc \<le> 0xE7 then ACTION_KEY kc
         else if 0xA5 \<le> kc \<and> kc \<le> 0xA7 then ACTION_USAGE_SYSTEM (KEYCODE2SYSTEM (ucast kc))
         else if 0xA8 \<le> kc \<and> kc \<le> 0xC2 then ACTION_USAGE_CONSUMER (KEYCODE2CONSUMER (ucast kc))
         else if 0xCD \<le> kc \<and> kc \<le> 0xDF then ACTION_MOUSEKEY kc
         else if kc = 0x01 then ACTION_TRANSPARENT
         else if 0x0100 \<le> kc \<and> kc \<le> 0x1FFF
         then if legacy then ACTION_MODS_KEY (GET_HIGH_MODS kc) (GET_BASIC kc)
              else ACTION_MODS_KEY (mods (GET_HIGH_MODS kc)) (keycode_config m (GET_BASIC kc))
         else if 0x4000 \<le> kc \<and> kc \<le> 0x4FFF then ACTION_LAYER_TAP (LT_GET_LAYER kc) (basic (GET_BASIC kc))
         else if 0x5200 \<le> kc \<and> kc \<le> 0x521F then ACTION_LAYER_GOTO (GET_5 kc)
         else if 0x5220 \<le> kc \<and> kc \<le> 0x523F then ACTION_LAYER_MOMENTARY (GET_5 kc)
         else if 0x5240 \<le> kc \<and> kc \<le> 0x525F then ACTION_DEFAULT_LAYER_SET (GET_5 kc)
         else if 0x5260 \<le> kc \<and> kc \<le> 0x527F then ACTION_LAYER_TOGGLE (GET_5 kc)
         else if 0x5280 \<le> kc \<and> kc \<le> 0x529F then ACTION_LAYER_ONESHOT (GET_5 kc)
         else if 0x52A0 \<le> kc \<and> kc \<le> 0x52BF then ACTION_MODS_ONESHOT (mods (GET_5 kc))
         else if 0x52C0 \<le> kc \<and> kc \<le> 0x52DF then ACTION_LAYER_TAP_TOGGLE (GET_5 kc)
         else if 0x5000 \<le> kc \<and> kc \<le> 0x51FF
         then let md = mods (GET_5 kc)
              in ACTION_LAYER_MODS (LM_GET_LAYER kc) (if md AND 0x10 \<noteq> 0 then push_bit 4 md else md)
         else if 0x2000 \<le> kc \<and> kc \<le> 0x3FFF then ACTION_MODS_TAP_KEY (mods (GET_HIGH_MODS kc)) (basic (GET_BASIC kc))
         else if 0x5600 \<le> kc \<and> kc \<le> 0x56FF then ACTION ACT_SWAP_HANDS (basic (GET_BASIC kc))
         else ACTION_NO)"

text \<open>Where the keycodes are kept is a parameter: for keys and, with an encoder map, for encoders.\<close>

definition keymap_key_to_keycode ::
  "layer_cfg \<Rightarrow> (u8 \<Rightarrow> u8 \<Rightarrow> u8 \<Rightarrow> u16) \<Rightarrow> (u8 \<Rightarrow> u8 \<Rightarrow> bool \<Rightarrow> u16) \<Rightarrow> u8 \<Rightarrow> keypos \<Rightarrow> u16" where
  "keymap_key_to_keycode c keycode_at_keymap_location keycode_at_encodermap_location layer k =
     (if unat (row k) < MATRIX_ROWS c \<and> unat (col k) < MATRIX_COLS c
      then keycode_at_keymap_location layer (row k) (col k)
      else if ENCODER_MAP_ENABLE c \<and> row k = KEYLOC_ENCODER_CW \<and> unat (col k) < NUM_ENCODERS c
      then keycode_at_encodermap_location layer (col k) True
      else if ENCODER_MAP_ENABLE c \<and> row k = KEYLOC_ENCODER_CCW \<and> unat (col k) < NUM_ENCODERS c
      then keycode_at_encodermap_location layer (col k) False
      else KC_NONE)"

definition keymap_action ::
  "bool \<Rightarrow> keymap_config \<Rightarrow> layer_cfg \<Rightarrow> (u8 \<Rightarrow> u8 \<Rightarrow> u8 \<Rightarrow> u16) \<Rightarrow> (u8 \<Rightarrow> u8 \<Rightarrow> bool \<Rightarrow> u16) \<Rightarrow> keymap" where
  "keymap_action legacy m c keys encs layer k = action_for_keycode legacy m (keymap_key_to_keycode c keys encs layer k)"

end
