(* ===== verification/KeymapProps.thy ===== *)
theory KeymapProps
  imports Keymap
begin

text \<open>Theorems on the translation of keycodes and on what layer and modifier keycodes do.\<close>

section \<open>Remapping\<close>

lemma keycode_config_wide: "256 \<le> kc \<Longrightarrow> keycode_config m kc = kc"
proof -
  assume "256 \<le> kc"
  then have "kc \<noteq> x" if "x < 256" for x using that by auto
  then show ?thesis by (simp add: keycode_config_def)
qed

lemma keycode_config_byte: "kc < 256 \<Longrightarrow> keycode_config m kc < 256"
  by (simp add: keycode_config_def)

lemma five_bits:
  fixes x c :: u8
  shows "x AND 0x1F = x \<Longrightarrow> c AND 0x1F = c \<Longrightarrow> (if b then x XOR c else x) AND 0x1F = (if b then x XOR c else x)"
    and "x AND 0x1F = x \<Longrightarrow> (x AND c) AND 0x1F = x AND c"
proof -
  show "(if b then x XOR c else x) AND 0x1F = (if b then x XOR c else x)" if "x AND 0x1F = x" "c AND 0x1F = c"
    using that by (simp add: bit.conj_xor_distrib2)
  have "(x AND c) AND 0x1F = (x AND 0x1F) AND c" by (simp only: ac_simps)
  then show "(x AND c) AND 0x1F = x AND c" if "x AND 0x1F = x" using that by simp
qed

lemma mod_config_5bit:
  assumes "x AND 0x1F = x"
  shows "mod_config m x AND 0x1F = mod_config m x"
proof -
  have c: "(MOD_LALT OR MOD_LGUI) AND 0x1F = MOD_LALT OR MOD_LGUI" "(MOD_LCTL OR MOD_LGUI) AND 0x1F = MOD_LCTL OR MOD_LGUI"
    by (simp_all add: mod_codes)
  have n: "(if b then y AND NOT e AND NOT f else y) AND 0x1F = (if b then y AND NOT e AND NOT f else y)"
    if "y AND 0x1F = y" for b and y e f :: u8
    using that five_bits(2) [OF that, of "NOT e AND NOT f"] by simp
  show ?thesis
    unfolding mod_config_def Let_def by (intro n five_bits(1) c assms)
qed

text \<open>The five-bit modifier of a modifier keycode.\<close>

definition mod5 :: "u16 \<Rightarrow> u8" where
  "mod5 k = (if 0xE4 \<le> k then 0x10 else 0) OR push_bit (unat (k AND 3)) 1"

text \<open>Where a modifier is named by a keycode and where it is a parameter of one, the remapping treats
  it alike, unless two swaps share a key or, with the GUI keys disabled, it is a right-hand one.\<close>

theorem mod_config_agrees:
  assumes "0xE0 \<le> k" and "k \<le> 0xE7" and "\<not> swap_control_capslock m"
    and "\<not> (swap_lalt_lgui m \<and> swap_lctl_lgui m)" and "\<not> (swap_ralt_rgui m \<and> swap_rctl_rgui m)"
    and "no_gui m \<Longrightarrow> k \<le> 0xE3"
  shows "mod_config m (mod5 k) = (if keycode_config m k = KC_NONE then 0 else mod5 (keycode_config m k))"
proof -
  have "k = 0xE0 \<or> k = 0xE1 \<or> k = 0xE2 \<or> k = 0xE3 \<or> k = 0xE4 \<or> k = 0xE5 \<or> k = 0xE6 \<or> k = 0xE7"
    using assms(1,2) by (simp add: word_le_nat_alt word_unat_eq_iff) linarith
  then show ?thesis
    using assms(3-6) by (elim disjE) (auto simp: keycode_config_def mod_config_def mod5_def mod_codes Let_def)
qed

definition demo_magic :: keymap_config where
  "demo_magic = \<lparr>swap_control_capslock = False, capslock_to_control = False, swap_lalt_lgui = False, swap_ralt_rgui = False,
     no_gui = False, swap_grave_esc = False, swap_backslash_backspace = False, swap_lctl_lgui = True, swap_rctl_rgui = False,
     swap_escape_capslock = False\<rparr>"

lemma mod_config_agrees_witness:
  "mod_config demo_magic (mod5 0xE0) = mod5 0xE3 \<and> keycode_config demo_magic 0xE0 = 0xE3"
  using mod_config_agrees [of "0xE0" demo_magic] by (simp add: demo_magic_def keycode_config_def)

text \<open>The eight-bit modifiers of a five-bit one.\<close>

definition mods8 :: "u8 \<Rightarrow> u8" where
  "mods8 x = (if bit x 4 then push_bit 4 (x AND 0xF) else x AND 0xF)"

text \<open>With the GUI keys disabled a right-hand modifier given as a parameter becomes the left-hand one:
  \<open>MOD_RGUI\<close> holds the bit of the hand, which \<open>mod_config\<close> clears with it, while the same
  modifier as a keycode stays.\<close>

theorem no_gui_moves_right_mods_left:
  assumes "no_gui m" and "\<not> swap_ralt_rgui m"
  shows "mods8 (mod_config m x) AND 0xF0 = 0 \<and> keycode_config m KC_RALT = KC_RALT"
proof -
  have "\<not> bit (y AND NOT MOD_LGUI AND NOT MOD_RGUI) 4" for y
    by (simp add: bit_simps mod_codes)
  then have "\<not> bit (mod_config m x) 4" using assms(1) by (simp add: mod_config_def Let_def)
  then have "mods8 (mod_config m x) = mod_config m x AND 0xF" by (simp add: mods8_def)
  then show ?thesis using assms(2) by (simp add: keycode_config_def and.assoc)
qed

lemma no_gui_moves_right_mods_left_witness:
  "mods8 (mod_config (demo_magic\<lparr>no_gui := True\<rparr>) MOD_RALT) AND 0xF0 = 0
    \<and> keycode_config (demo_magic\<lparr>no_gui := True\<rparr>) KC_RALT = KC_RALT \<and> mods8 MOD_RALT = 0x40"
  using no_gui_moves_right_mods_left [of "demo_magic\<lparr>no_gui := True\<rparr>" MOD_RALT]
  by (simp add: demo_magic_def mods8_def MOD_RALT_def)

section \<open>Translation\<close>

lemma unat_or_disjoint:
  fixes b x :: "'a::len word"
  assumes "b AND x = 0"
  shows "unat (b OR x) = unat b + unat x"
proof -
  have "unat b AND unat x = 0" using assms by (metis unsigned_and_eq unsigned_0)
  then show ?thesis by (simp add: unsigned_or_eq disjunctive_add_eq_or)
qed

lemma packed_range:
  fixes b x :: u16
  assumes "x AND mask n = x" and "b AND mask n = 0"
  shows "unat (b OR x) = unat b + unat x" and "unat x < 2 ^ n"
proof -
  have "b AND x = 0" using assms by (metis and.assoc and.commute and_zero_eq)
  then show "unat (b OR x) = unat b + unat x" by (rule unat_or_disjoint)
  have "unat x = take_bit n (unat x)"
    using arg_cong [OF assms(1), of unat] by (simp add: unsigned_take_bit_eq flip: take_bit_eq_mask)
  then show "unat x < 2 ^ n" by (metis take_bit_nat_less_exp)
qed

lemma packed5:
  fixes b l :: u16
  assumes "b AND 0x1F = 0"
  shows "unat (b OR (l AND 0x1F)) = unat b + unat (l AND 0x1F)" and "unat (l AND 0x1F) < 32 \<and> b AND 0x1F = 0"
    and "GET_5 (b OR (l AND 0x1F)) = l AND 0x1F"
proof -
  have m: "(0x1F :: u16) = mask 5" by (simp add: mask_eq_exp_minus_1)
  show "unat (b OR (l AND 0x1F)) = unat b + unat (l AND 0x1F)" "unat (l AND 0x1F) < 32 \<and> b AND 0x1F = 0"
    using packed_range [of "l AND 0x1F" 5 b] assms unfolding m by (simp_all add: and.assoc)
  show "GET_5 (b OR (l AND 0x1F)) = l AND 0x1F"
    using assms by (simp add: GET_5_def bit.conj_disj_distrib2 and.assoc)
qed

lemma translate:
  assumes "256 \<le> unat kc"
  shows "action_for_keycode legacy m kc =
     (let kc' = unat kc; basic = (\<lambda>kc. if legacy then kc else keycode_config m kc);
          mods = (\<lambda>x. ucast (mod_config m (ucast x)) :: u16)
      in if kc' \<le> 0x1FFF
         then if legacy then ACTION_MODS_KEY (GET_HIGH_MODS kc) (GET_BASIC kc)
              else ACTION_MODS_KEY (mods (GET_HIGH_MODS kc)) (keycode_config m (GET_BASIC kc))
         else if 0x4000 \<le> kc' \<and> kc' \<le> 0x4FFF then ACTION_LAYER_TAP (LT_GET_LAYER kc) (basic (GET_BASIC kc))
         else if 0x5200 \<le> kc' \<and> kc' \<le> 0x521F then ACTION_LAYER_GOTO (GET_5 kc)
         else if 0x5220 \<le> kc' \<and> kc' \<le> 0x523F then ACTION_LAYER_MOMENTARY (GET_5 kc)
         else if 0x5240 \<le> kc' \<and> kc' \<le> 0x525F then ACTION_DEFAULT_LAYER_SET (GET_5 kc)
         else if 0x5260 \<le> kc' \<and> kc' \<le> 0x527F then ACTION_LAYER_TOGGLE (GET_5 kc)
         else if 0x5280 \<le> kc' \<and> kc' \<le> 0x529F then ACTION_LAYER_ONESHOT (GET_5 kc)
         else if 0x52A0 \<le> kc' \<and> kc' \<le> 0x52BF then ACTION_MODS_ONESHOT (mods (GET_5 kc))
         else if 0x52C0 \<le> kc' \<and> kc' \<le> 0x52DF then ACTION_LAYER_TAP_TOGGLE (GET_5 kc)
         else if 0x5000 \<le> kc' \<and> kc' \<le> 0x51FF
         then let md = mods (GET_5 kc)
              in ACTION_LAYER_MODS (LM_GET_LAYER kc) (if md AND 0x10 \<noteq> 0 then push_bit 4 md else md)
         else if 0x2000 \<le> kc' \<and> kc' \<le> 0x3FFF then ACTION_MODS_TAP_KEY (mods (GET_HIGH_MODS kc)) (basic (GET_BASIC kc))
         else if 0x5600 \<le> kc' \<and> kc' \<le> 0x56FF then ACTION ACT_SWAP_HANDS (basic (GET_BASIC kc))
         else ACTION_NO)"
proof -
  have k: "keycode_config m kc = kc" using assms by (simp add: keycode_config_wide word_le_nat_alt)
  have n: "kc \<noteq> 1" using assms by auto
  have r: "\<not> unat kc \<le> 0xA4" "\<not> unat kc \<le> 0xE7" "\<not> unat kc \<le> 0xA7" "\<not> unat kc \<le> 0xC2" "\<not> unat kc \<le> 0xDF"
    using assms by simp_all
  show ?thesis
    unfolding action_for_keycode_def Let_def k word_le_nat_alt
    using assms r n by simp
qed

lemma layer_actions:
  "action_for_keycode legacy m (QK_TO l) = ACTION_LAYER_GOTO (l AND 0x1F)"
  "action_for_keycode legacy m (MO l) = ACTION_LAYER_MOMENTARY (l AND 0x1F)"
  "action_for_keycode legacy m (DF l) = ACTION_DEFAULT_LAYER_SET (l AND 0x1F)"
  "action_for_keycode legacy m (TG l) = ACTION_LAYER_TOGGLE (l AND 0x1F)"
  "action_for_keycode legacy m (OSL l) = ACTION_LAYER_ONESHOT (l AND 0x1F)"
  "action_for_keycode legacy m (TT l) = ACTION_LAYER_TAP_TOGGLE (l AND 0x1F)"
  using packed5 [of "0x5200" l] packed5 [of "0x5220" l] packed5 [of "0x5240" l] packed5 [of "0x5260" l] packed5 [of "0x5280" l]
    packed5 [of "0x52C0" l]
  by (simp_all add: translate Let_def QK_TO_def MO_def DF_def TG_def OSL_def TT_def)

lemma masks: "(0x1F :: u16) = mask 5" "(0xF :: u16) = mask 4" "(0xFF :: u16) = mask 8"
  by (simp_all add: mask_eq_exp_minus_1)

text \<open>Three fields in one word.\<close>

lemma fields_bits:
  fixes b x y :: u16
  shows "(push_bit k (x AND mask n) OR (y AND mask k)) AND mask (n + k) = push_bit k (x AND mask n) OR (y AND mask k)"
    and "n + k \<le> 16 \<Longrightarrow> b AND mask (n + k) = 0 \<Longrightarrow> drop_bit k (b OR push_bit k (x AND mask n) OR (y AND mask k)) AND mask n = x AND mask n"
    and "b AND mask (n + k) = 0 \<Longrightarrow> (b OR push_bit k (x AND mask n) OR (y AND mask k)) AND mask k = y AND mask k"
proof -
  show "(push_bit k (x AND mask n) OR (y AND mask k)) AND mask (n + k) = push_bit k (x AND mask n) OR (y AND mask k)"
    by (rule bit_word_eqI) (auto simp: bit_simps)
next
  assume a: "b AND mask (n + k) = 0" and le: "n + k \<le> 16"
  have b: "\<not> bit b j" if "j < n + k" for j
    using arg_cong [OF a, of "\<lambda>w. bit w j"] that le by (simp add: bit_simps)
  show "drop_bit k (b OR push_bit k (x AND mask n) OR (y AND mask k)) AND mask n = x AND mask n"
    by (rule bit_word_eqI) (use b le in \<open>auto simp: bit_simps dest: bit_imp_le_length\<close>)
next
  assume a: "b AND mask (n + k) = 0"
  have b: "\<not> bit b j" if "j < k" "j < 16" for j
    using arg_cong [OF a, of "\<lambda>w. bit w j"] that by (simp add: bit_simps)
  show "(b OR push_bit k (x AND mask n) OR (y AND mask k)) AND mask k = y AND mask k"
    by (rule bit_word_eqI) (use b in \<open>auto simp: bit_simps dest: bit_imp_le_length\<close>)
qed

lemma fields_range:
  fixes b x y :: u16
  assumes "b AND mask (n + k) = 0"
  shows "unat b \<le> unat (b OR push_bit k (x AND mask n) OR (y AND mask k))"
    and "unat (b OR push_bit k (x AND mask n) OR (y AND mask k)) < unat b + 2 ^ (n + k)"
  using packed_range [OF fields_bits(1) assms] by (simp_all add: or.assoc)

definition remap_basic :: "bool \<Rightarrow> keymap_config \<Rightarrow> u16 \<Rightarrow> u16" where
  "remap_basic legacy m kc = (if legacy then kc AND 0xFF else keycode_config m (kc AND 0xFF))"

definition remap_mods :: "keymap_config \<Rightarrow> u16 \<Rightarrow> u8" where
  "remap_mods m mods = mod_config m (ucast (mods AND 0x1F))"

lemma packed_actions:
  "action_for_keycode legacy m (MT mods kc) = ACTION_MODS_TAP_KEY (ucast (remap_mods m mods)) (remap_basic legacy m kc)"
  "action_for_keycode legacy m (LT l kc) = ACTION_LAYER_TAP (l AND 0xF) (remap_basic legacy m kc)"
  "action_for_keycode legacy m (OSM mods) = ACTION_MODS_ONESHOT (ucast (remap_mods m mods))"
  "action_for_keycode legacy m (LM l mods) =
     ACTION_LAYER_MODS (l AND 0xF) (let md = ucast (remap_mods m mods) in if md AND 0x10 \<noteq> 0 then push_bit 4 md else md)"
proof -
  have z: "(0x2000 :: u16) AND mask (5 + 8) = 0" "(0x4000 :: u16) AND mask (4 + 8) = 0" "(0x5000 :: u16) AND mask (4 + 5) = 0"
    by (simp_all add: mask_eq_exp_minus_1)
  note mt = fields_range [OF z(1), of mods kc] fields_bits(2) [OF _ z(1), of mods kc] fields_bits(3) [OF z(1), of mods kc]
  note lt = fields_range [OF z(2), of l kc] fields_bits(2) [OF _ z(2), of l kc] fields_bits(3) [OF z(2), of l kc]
  note lm = fields_range [OF z(3), of l mods] fields_bits(2) [OF _ z(3), of l mods] fields_bits(3) [OF z(3), of l mods]
  show "action_for_keycode legacy m (MT mods kc) = ACTION_MODS_TAP_KEY (ucast (remap_mods m mods)) (remap_basic legacy m kc)"
    using mt by (simp add: translate Let_def MT_def GET_HIGH_MODS_def GET_BASIC_def remap_mods_def remap_basic_def masks)
  show "action_for_keycode legacy m (LT l kc) = ACTION_LAYER_TAP (l AND 0xF) (remap_basic legacy m kc)"
    using lt by (simp add: translate Let_def LT_def LT_GET_LAYER_def GET_BASIC_def remap_basic_def masks)
  show "action_for_keycode legacy m (LM l mods) =
     ACTION_LAYER_MODS (l AND 0xF) (let md = ucast (remap_mods m mods) in if md AND 0x10 \<noteq> 0 then push_bit 4 md else md)"
    using lm by (simp add: translate Let_def LM_def LM_GET_LAYER_def GET_5_def remap_mods_def masks)
  show "action_for_keycode legacy m (OSM mods) = ACTION_MODS_ONESHOT (ucast (remap_mods m mods))"
    using packed5 [of "0x52A0" mods] by (simp add: translate Let_def OSM_def remap_mods_def)
qed

section \<open>Fields of the layer actions\<close>

lemma bitop_made:
  fixes op on :: u8 and part bs :: u16
  assumes "op AND mask 2 = op" and "on AND mask 2 = on" and "part AND mask 3 = part"
  shows "kind_id (ACTION_LAYER_BITOP op part bs on) = ACT_LAYER"
    and "layer_bitop_op (ACTION_LAYER_BITOP op part bs on) = op"
    and "layer_bitop_on (ACTION_LAYER_BITOP op part bs on) = on"
    and "layer_bitop_part (ACTION_LAYER_BITOP op part bs on) = ucast part"
    and "layer_bitop_xbit (ACTION_LAYER_BITOP op part bs on) = bit bs 4"
    and "layer_bitop_bits (ACTION_LAYER_BITOP op part bs on) = ucast (bs AND 0xF)"
proof -
  have m: "(0xF :: u16) = mask 4" "(0x1F :: u16) = mask 5" "(3 :: u16) = mask 2" "(7 :: u16) = mask 3"
    by (simp_all add: mask_eq_exp_minus_1)
  have b: "\<not> bit op i" if "2 \<le> i" for i
    using arg_cong [OF assms(1), of "\<lambda>w. bit w i"] that by (auto simp: bit_simps)
  have b': "\<not> bit on i" if "2 \<le> i" for i
    using arg_cong [OF assms(2), of "\<lambda>w. bit w i"] that by (auto simp: bit_simps)
  have b'': "\<not> bit part i" if "3 \<le> i" for i
    using arg_cong [OF assms(3), of "\<lambda>w. bit w i"] that by (auto simp: bit_simps)
  have le: "bit op i \<Longrightarrow> i < 2" "bit on i \<Longrightarrow> i < 2" "bit part i \<Longrightarrow> i < 3" for i
    using b b' b'' by (metis not_le)+
  define e :: u16 where "e = 1"
  have e: "bit e i = (i = 0)" for i by (auto simp: e_def bit_1_iff)
  let ?x = "push_bit 10 (ucast op) OR push_bit 8 (ucast on) OR push_bit 5 part OR (bs AND mask 5) :: u16"
  have a: "ACTION_LAYER_BITOP op part bs on = push_bit 15 e OR ?x"
    by (simp add: ACTION_LAYER_BITOP_def ACTION_def m e_def)
  have "drop_bit 12 ?x = 0"
    by (rule bit_word_eqI) (auto simp: bit_simps b b' b'')
  then have "drop_bit 12 (ACTION_LAYER_BITOP op part bs on) = 8" unfolding a by (simp add: e_def)
  then show "kind_id (ACTION_LAYER_BITOP op part bs on) = ACT_LAYER" by (simp add: kind_id_def)
  show "layer_bitop_op (ACTION_LAYER_BITOP op part bs on) = op"
    unfolding layer_bitop_op_def a m
    by (rule bit_word_eqI) (auto simp: bit_simps e b b' b'' dest: le)
  show "layer_bitop_on (ACTION_LAYER_BITOP op part bs on) = on"
    unfolding layer_bitop_on_def a m
    by (rule bit_word_eqI) (auto simp: bit_simps e b b' b'' dest: le)
  show "layer_bitop_part (ACTION_LAYER_BITOP op part bs on) = ucast part"
    unfolding layer_bitop_part_def a m
    by (rule bit_word_eqI) (auto simp: bit_simps e b b' b'' dest: le)
  show "layer_bitop_xbit (ACTION_LAYER_BITOP op part bs on) = bit bs 4"
    unfolding layer_bitop_xbit_def a by (simp add: bit_simps e)
  show "layer_bitop_bits (ACTION_LAYER_BITOP op part bs on) = ucast (bs AND 0xF)"
    unfolding layer_bitop_bits_def a m
    by (rule bit_word_eqI) (auto simp: bit_simps e)
qed

text \<open>The bit an operation on one layer works on.\<close>

lemma layer_word:
  assumes "l < (32 :: u16)"
  shows "push_bit (unat (ucast (l div 4) * 4 :: u8)) (ucast (ucast (layer_bit l AND 0xF) :: u8)) = (push_bit (unat l) 1 :: 'w::len word)"
    and "l div 4 AND mask 3 = l div 4" and "\<not> bit (layer_bit l) 4"
proof -
  have l: "unat l < 32" using assms by (simp add: word_less_nat_alt)
  have d: "unat (l div 4) = unat l div 4" "unat (l mod 4) = unat l mod 4" by (simp_all add: unat_div unat_mod)
  have "unat (ucast (l div 4) * 4 :: u8) = 4 * (unat l div 4)"
    using l by (simp add: unat_word_ariths d unsigned_ucast_eq take_bit_eq_mod)
  moreover have "ucast (ucast (layer_bit l AND 0xF) :: u8) = (push_bit (unat l mod 4) 1 :: 'w word)"
  proof (rule bit_word_eqI)
    have m: "(0xF :: u16) = mask 4" by (simp add: mask_eq_exp_minus_1)
    fix n assume "n < LENGTH('w)"
    then show "bit (ucast (ucast (layer_bit l AND 0xF) :: u8) :: 'w word) n \<longleftrightarrow> bit (push_bit (unat l mod 4) 1 :: 'w word) n"
      unfolding m by (auto simp: layer_bit_def d bit_simps)
  qed
  moreover have "4 * (unat l div 4) + unat l mod 4 = unat l" by simp
  ultimately show "push_bit (unat (ucast (l div 4) * 4 :: u8)) (ucast (ucast (layer_bit l AND 0xF) :: u8)) = (push_bit (unat l) 1 :: 'w word)"
    by (simp only: push_bit_push_bit)
  show "l div 4 AND mask 3 = l div 4"
    using l by (simp add: word_unat_eq_iff unsigned_take_bit_eq take_bit_nat_eq_self d flip: take_bit_eq_mask)
  show "\<not> bit (layer_bit l) 4"
    by (auto simp: layer_bit_def d bit_simps)
qed

end
