(* ===== verification/LayerKeys.thy ===== *)
theory LayerKeys
  imports KeymapProps ActionProps
begin

text \<open>What the keycodes for layers and modifiers do once their actions are executed.\<close>

section \<open>Keycodes for layers\<close>

text \<open>The effect of the switch of \<open>process_action\<close> for the action of a keycode.\<close>

definition key_effect ::
  "bool \<Rightarrow> keymap_config \<Rightarrow> 'w word act_cfg \<Rightarrow> u16 \<Rightarrow> bool \<Rightarrow> 'w::len word act_state \<Rightarrow> 'w word act_state" where
  "key_effect legacy m c kc press s = snd (snd (act_switch c no_record (action_for_keycode legacy m kc) press 0 s))"

definition active_layers :: "'w::len word act_state \<Rightarrow> nat set" where
  "active_layers s = bits_of (layer_state (layers (util s)))"

definition default_layers :: "'w::len word act_state \<Rightarrow> nat set" where
  "default_layers s = bits_of (default_layer_state (layers (util s)))"

lemmas bitop_word = bitop_made layer_word

lemma op_masks [simp]:
  "OP_BIT_SET AND mask 2 = OP_BIT_SET" "OP_BIT_XOR AND mask 2 = OP_BIT_XOR" "ON_PRESS AND mask 2 = ON_PRESS"
  "ON_RELEASE AND mask 2 = ON_RELEASE"
  by (simp_all add: OP_BIT_SET_def OP_BIT_XOR_def ON_PRESS_def ON_RELEASE_def mask_eq_exp_minus_1)

lemma bits_of_push [simp]: "n < LENGTH('w) \<Longrightarrow> bits_of (push_bit n 1 :: 'w::len word) = {n}"
  by (auto simp: bits_of_def bit_push_bit_iff bit_1_iff simp del: push_bit_of_1)

lemma layer_effects:
  fixes s :: "'w::len word act_state"
  assumes "l < (32 :: u16)"
  defines "w \<equiv> push_bit (unat l) 1 :: 'w word"
  shows "act_switch c r (ACTION_LAYER_GOTO l) press tc s =
      (r, True, if press then on_layers (layer_state_set (layer_state_set_kb (ucfg c)) w) s else s)"
    and "act_switch c r (ACTION_LAYER_TOGGLE l) press tc s =
      (r, True, if press then s else on_layers (layer_xor (layer_state_set_kb (ucfg c)) w) s)"
    and "act_switch c r (ACTION_DEFAULT_LAYER_SET l) press tc s =
      (r, True, if press then s else on_layers (default_layer_state_set (default_layer_state_set_kb c) w) s)"
proof -
  note L = layer_word(1) [OF assms(1), where 'w = 'w, folded w_def] layer_word(2,3) [OF assms(1)]
  show "act_switch c r (ACTION_LAYER_GOTO l) press tc s =
      (r, True, if press then on_layers (layer_state_set (layer_state_set_kb (ucfg c)) w) s else s)"
    using L by (simp add: ACTION_LAYER_GOTO_def act_switch_def act_layer_def Let_def bitop_made)
      (simp add: OP_BIT_AND_def OP_BIT_OR_def OP_BIT_XOR_def OP_BIT_SET_def ON_PRESS_def ON_RELEASE_def)
  show "act_switch c r (ACTION_LAYER_TOGGLE l) press tc s =
      (r, True, if press then s else on_layers (layer_xor (layer_state_set_kb (ucfg c)) w) s)"
    using L by (simp add: ACTION_LAYER_TOGGLE_def act_switch_def act_layer_def Let_def bitop_made)
      (simp add: OP_BIT_AND_def OP_BIT_OR_def OP_BIT_XOR_def OP_BIT_SET_def ON_PRESS_def ON_RELEASE_def)
  show "act_switch c r (ACTION_DEFAULT_LAYER_SET l) press tc s =
      (r, True, if press then s else on_layers (default_layer_state_set (default_layer_state_set_kb c) w) s)"
    using L by (simp add: ACTION_DEFAULT_LAYER_SET_def act_switch_def act_layer_def Let_def bitop_made)
      (simp add: OP_BIT_AND_def OP_BIT_OR_def OP_BIT_XOR_def OP_BIT_SET_def)
qed

lemma momentary_effect:
  assumes "l < (32 :: u16)"
  shows "act_switch c r (ACTION_LAYER_MOMENTARY l) press tc s =
    (r, True, on_layers (if press then layer_on (layer_state_set_kb (ucfg c)) (ucast l) else layer_off (layer_state_set_kb (ucfg c)) (ucast l)) s)"
proof -
  have F: "kind_id (ACTION_LAYER_MOMENTARY l) = (if l < 16 then ACT_LAYER_TAP else ACT_LAYER_TAP_EXT)"
    "layer_tap_val (ACTION_LAYER_MOMENTARY l) = ucast l"
    using layer_fields [OF assms, of "ucast OP_ON_OFF"] by (simp_all add: ACTION_LAYER_MOMENTARY_def OP_ON_OFF_def)
  have "code_of (ACTION_LAYER_MOMENTARY l) = ucast (ucast OP_ON_OFF :: u16)"
    unfolding ACTION_LAYER_MOMENTARY_def ACTION_LAYER_TAP_def ACTION_def by (rule code_of_make)
  then have "code_of (ACTION_LAYER_MOMENTARY l) = OP_ON_OFF" by (simp add: OP_ON_OFF_def)
  then have "act_layer_tap c (ACTION_LAYER_MOMENTARY l) press tc s =
      (True, on_layers (if press then layer_on (layer_state_set_kb (ucfg c)) (ucast l) else layer_off (layer_state_set_kb (ucfg c)) (ucast l)) s)"
    by (simp add: act_layer_tap_def F Let_def OP_ON_OFF_def OP_TAP_TOGGLE_def)
  then show ?thesis by (simp add: act_switch_def F)
qed

lemma small_layer:
  assumes "l < (32 :: u16)"
  shows "l AND 0x1F = l" and "unat (ucast l :: u8) = unat l"
proof -
  have l: "unat l < 2 ^ 5" using assms by (simp add: word_less_nat_alt)
  then show "unat (ucast l :: u8) = unat l" by (simp add: unsigned_ucast_eq take_bit_eq_mod)
  have "take_bit 5 l = l" using l by (simp add: word_unat_eq_iff unsigned_take_bit_eq take_bit_nat_eq_self)
  then show "l AND 0x1F = l" by (simp add: masks take_bit_eq_mask)
qed

text \<open>C19: What the layer keycodes promise: \<open>TO\<close> leaves its layer as the only active one, \<open>MO\<close> has it active
  while held, \<open>TG\<close> flips it when released and \<open>DF\<close> makes it the only default layer when released; the
  other edge does nothing.\<close>

theorem layer_keycodes:
  fixes s :: "'w::len word act_state"
  assumes "layer_state_set_kb (ucfg c) = id" and "default_layer_state_set_kb c = id"
    and l: "l < 32" and w: "unat l < LENGTH('w)"
  shows "active_layers (key_effect legacy m c (QK_TO l) True s) = {unat l} \<and> key_effect legacy m c (QK_TO l) False s = s
    \<and> active_layers (key_effect legacy m c (MO l) True s) = insert (unat l) (active_layers s)
    \<and> active_layers (key_effect legacy m c (MO l) False s) = active_layers s - {unat l}
    \<and> key_effect legacy m c (TG l) True s = s
    \<and> active_layers (key_effect legacy m c (TG l) False s) = (active_layers s - {unat l}) \<union> ({unat l} - active_layers s)
    \<and> key_effect legacy m c (DF l) True s = s \<and> default_layers (key_effect legacy m c (DF l) False s) = {unat l}"
proof -
  note A = layer_actions [of legacy m l, unfolded small_layer(1) [OF l]] layer_effects [OF l] momentary_effect [OF l] assms(1,2)
  have X: "bits_of (x XOR push_bit n 1) = (bits_of x - {n}) \<union> ({n} - bits_of x)" if "n < LENGTH('w)" for x :: "'w word" and n
    using that by (auto simp: bits_of_def bit_xor_iff bit_push_bit_iff bit_1_iff simp del: push_bit_of_1)
  have L: "layers (util (on_layers f t)) = f (layers (util t))" for f and t :: "'w word act_state"
    by (simp add: on_layers_def on_util_def)
  have to: "active_layers (key_effect legacy m c (QK_TO l) True s) = {unat l}" "key_effect legacy m c (QK_TO l) False s = s"
    using w by (simp_all add: key_effect_def A active_layers_def L layer_state_set_def del: push_bit_of_1)
  have mo: "active_layers (key_effect legacy m c (MO l) True s) = insert (unat l) (active_layers s)"
    "active_layers (key_effect legacy m c (MO l) False s) = active_layers s - {unat l}"
    using w small_layer(2) [OF l] bits_layer_on [of "ucast l" "layers (util s)"] bits_layer_on(2) [of "ucast l" "layers (util s)"]
    by (simp_all add: key_effect_def A active_layers_def L)
  have tg: "key_effect legacy m c (TG l) True s = s"
    "active_layers (key_effect legacy m c (TG l) False s) = (active_layers s - {unat l}) \<union> ({unat l} - active_layers s)"
    using X [OF w] by (simp_all add: key_effect_def A active_layers_def L layer_xor_def layer_state_set_def del: push_bit_of_1)
  have df: "key_effect legacy m c (DF l) True s = s" "default_layers (key_effect legacy m c (DF l) False s) = {unat l}"
    using w by (simp_all add: key_effect_def A default_layers_def L default_layer_state_set_def del: push_bit_of_1)
  show ?thesis using to mo tg df by blast
qed

lemma layer_keycodes_witness:
  "active_layers (key_effect False demo_magic (demo_act (\<lambda>_ _. ACTION_NO)) (QK_TO 3) True demo_act_state) = {3}
    \<and> active_layers (key_effect False demo_magic (demo_act (\<lambda>_ _. ACTION_NO)) (MO 3) True demo_act_state) = {3, 1}"
proof -
  have hooks: "layer_state_set_kb (ucfg (demo_act (\<lambda>_ _. ACTION_NO))) = id" "default_layer_state_set_kb (demo_act (\<lambda>_ _. ACTION_NO)) = id"
    by (simp_all add: demo_act_def demo_util_def)
  have "active_layers demo_act_state = {1}"
    using bits_of_push [of 1, where 'w = 8] by (simp add: active_layers_def demo_act_state_def demo_layers_def)
  then show ?thesis
    using layer_keycodes [OF hooks, of 3 False demo_magic demo_act_state] by simp
qed

section \<open>Keycodes with modifiers\<close>

lemma masks8: "(0x1F :: u8) = mask 5" "(0xF :: u8) = mask 4"
  by (simp_all add: mask_eq_exp_minus_1)

lemma remap_mods_small: "unat (remap_mods m mods) < 32"
proof -
  have "(ucast (mods AND 0x1F) :: u8) AND 0x1F = ucast (mods AND 0x1F)"
    unfolding masks masks8 by (rule bit_word_eqI) (auto simp: bit_simps)
  then have "remap_mods m mods AND 0x1F = remap_mods m mods"
    unfolding remap_mods_def by (rule mod_config_5bit)
  then have "take_bit 5 (remap_mods m mods) = remap_mods m mods" by (simp add: masks8 take_bit_eq_mask)
  then have "unat (remap_mods m mods) = take_bit 5 (unat (remap_mods m mods))" by (metis unsigned_take_bit_eq)
  then show ?thesis using take_bit_nat_less_exp [of 5 "unat (remap_mods m mods)"] by simp
qed

lemma remap_bounds: "(ucast (remap_mods m mods) :: u16) < 32" "remap_basic legacy m kc < 256"
proof -
  show "(ucast (remap_mods m mods) :: u16) < 32"
    using remap_mods_small [of m mods] by (simp add: word_less_nat_alt unsigned_ucast_eq take_bit_nat_eq_self)
  have "kc AND 0xFF < 256"
    by (simp add: word_less_nat_alt masks unsigned_take_bit_eq flip: take_bit_eq_mask) (simp add: take_bit_eq_mod)
  then show "remap_basic legacy m kc < 256" by (simp add: remap_basic_def keycode_config_byte)
qed

text \<open>Mod-tap and layer-tap keycodes decode to what they were made from: the modifiers reach the report
  on the side they name, the layer is the one given, and the key tapped is the one given, all after
  the remapping.\<close>

theorem tap_keycodes_decode:
  "(let a = action_for_keycode legacy m (MT mods kc) in
      (kind_id a = ACT_LMODS_TAP \<or> kind_id a = ACT_RMODS_TAP) \<and> hand_mods a = mods8 (remap_mods m mods)
      \<and> code_of a = ucast (remap_basic legacy m kc))
    \<and> (let a = action_for_keycode legacy m (LT l kc) in
      kind_id a = ACT_LAYER_TAP \<and> layer_tap_val a = ucast (l AND 0xF) \<and> code_of a = ucast (remap_basic legacy m kc))"
proof -
  let ?m = "ucast (remap_mods m mods) :: u16" and ?k = "remap_basic legacy m kc"
  have "code_of (ACTION_MODS_TAP_KEY ?m ?k) = ucast ?k" "code_of (ACTION_LAYER_TAP (l AND 0xF) ?k) = ucast ?k"
    unfolding ACTION_MODS_TAP_KEY_def ACTION_LAYER_TAP_def ACTION_def by (rule code_of_make)+
  moreover have "hand_mods (ACTION_MODS_TAP_KEY ?m ?k) = mods8 (remap_mods m mods)"
  proof -
    have "ucast (?m AND 0xF) = remap_mods m mods AND 0xF"
      unfolding masks masks8 by (rule bit_word_eqI) (auto simp: bit_simps)
    moreover have "bit ?m 4 = bit (remap_mods m mods) 4" by (simp add: bit_simps)
    ultimately show ?thesis
      by (simp add: hand_mods_def mods_fields [OF remap_bounds] mods8_def)
  qed
  moreover have "l AND 0xF < 16"
    by (simp add: word_less_nat_alt masks unsigned_take_bit_eq flip: take_bit_eq_mask) (simp add: take_bit_eq_mod)
  then have "kind_id (ACTION_LAYER_TAP (l AND 0xF) ?k) = ACT_LAYER_TAP" "layer_tap_val (ACTION_LAYER_TAP (l AND 0xF) ?k) = ucast (l AND 0xF)"
    using layer_fields [OF _ remap_bounds(2), of "l AND 0xF" legacy m kc] by (simp_all add: word_less_nat_alt)
  ultimately show ?thesis
    by (simp add: packed_actions Let_def mods_fields [OF remap_bounds])
qed

text \<open>A layer-with-modifiers keycode with right-hand modifiers activates the wrong layer: the bit that
  marks the hand is shifted into the field of the layer, so an even layer becomes the next one.\<close>

theorem layer_mod_right_hand_wrong_layer:
  "(let a = action_for_keycode legacy m (LM l mods) in
      kind_id a = ACT_LAYER_MODS \<and> layer_mods_mods a = mods8 (remap_mods m mods)
      \<and> layer_mods_layer a = ucast (l AND 0xF) OR (if bit (remap_mods m mods) 4 then 1 else 0))"
proof -
  define x where "x = remap_mods m mods"
  define e :: u16 where "e = 1"
  have e: "bit e i = (i = 0)" for i by (auto simp: e_def bit_1_iff)
  have x: "\<not> bit x i" if "5 \<le> i" for i
    using less_exp_no_bit [of x 5 i] remap_mods_small [of m mods] that by (simp add: x_def)
  have x4: "n < 4" if "\<not> bit x 4" "bit x n" for n
  proof (rule ccontr)
    assume "\<not> n < 4"
    then have "n = 4 \<or> 5 \<le> n" by linarith
    then show False using x [of n] that by auto
  qed
  let ?md = "if bit x 4 then push_bit 4 (ucast x) else ucast x :: u16"
  have "action_for_keycode legacy m (LM l mods) = push_bit 12 9 OR (push_bit 8 (l AND mask 4) OR ?md)"
    unfolding packed_actions Let_def ACTION_LAYER_MODS_def ACTION_def x_def [symmetric] masks
    using and_one_shift_neq_0 [of "ucast x :: u16" 4] by (simp add: bit_simps)
  moreover have "push_bit 12 9 = push_bit 15 e OR push_bit 12 (e :: u16)" by (simp add: e_def)
  ultimately have a: "action_for_keycode legacy m (LM l mods) = (push_bit 15 e OR push_bit 12 e) OR (push_bit 8 (l AND mask 4) OR ?md)"
    by simp
  have "drop_bit 12 (push_bit 8 (l AND mask 4) OR ?md) = 0"
    by (rule bit_word_eqI) (auto simp: bit_simps x)
  then have "drop_bit 12 (action_for_keycode legacy m (LM l mods)) = 9"
    unfolding a by (simp add: e_def)
  then have "kind_id (action_for_keycode legacy m (LM l mods)) = ACT_LAYER_MODS" by (simp add: kind_id_def)
  moreover have "layer_mods_mods (action_for_keycode legacy m (LM l mods)) = mods8 x"
    unfolding layer_mods_mods_def a mods8_def masks8
    by (rule bit_word_eqI) (auto simp: bit_simps e x dest: x4)
  moreover have "layer_mods_layer (action_for_keycode legacy m (LM l mods)) = ucast (l AND 0xF) OR (if bit x 4 then 1 else 0)"
    unfolding layer_mods_layer_def a masks
    by (rule bit_word_eqI) (auto simp: bit_simps e x)
  ultimately show ?thesis by (simp add: Let_def x_def)
qed

end
