(* ===== verification/DynKeymap.thy ===== *)
theory DynKeymap
  imports Eeprom Keymap "HOL-Library.Monad_Syntax"
begin

text \<open>
  The keymap in EEPROM, quantum/dynamic_keymap.c: keycodes of keys and encoders, big-endian, and the
  buffer of macros, over any EEPROM driver. \<open>KEYCODE_BUFFER_ENABLE\<close> is the build with a one-entry
  cache of the last keycode looked up. Addresses are 32-bit pointers; \<open>None\<close> stands for undefined
  behaviour in the driver. The keymap in flash is a parameter.
\<close>

section \<open>Layout\<close>

record dk_cfg =
  board :: layer_cfg
  KEYCODE_BUFFER_ENABLE :: bool
  DYNAMIC_KEYMAP_LAYER_COUNT :: nat
  DYNAMIC_KEYMAP_MACRO_COUNT :: nat
  DYNAMIC_KEYMAP_EEPROM_ADDR :: nat
  DYNAMIC_KEYMAP_ENCODER_EEPROM_ADDR :: nat
  DYNAMIC_KEYMAP_MACRO_EEPROM_ADDR :: nat
  DYNAMIC_KEYMAP_MACRO_EEPROM_SIZE :: nat

record 'e dyn_keymap =
  eeprom :: 'e
  layer_buffer :: u8
  row_buffer :: u8
  col_buffer :: u8
  keycode_buffer :: u16

definition dyn_keymap_init :: "'e \<Rightarrow> 'e dyn_keymap" where
  "dyn_keymap_init e = \<lparr>eeprom = e, layer_buffer = 0xFF, row_buffer = 0xFF, col_buffer = 0xFF, keycode_buffer = 0\<rparr>"

definition forget_buffer :: "'e dyn_keymap \<Rightarrow> 'e dyn_keymap" where
  "forget_buffer s = s\<lparr>layer_buffer := 0xFF, row_buffer := 0xFF, col_buffer := 0xFF\<rparr>"

definition on_board :: "dk_cfg \<Rightarrow> u8 \<Rightarrow> u8 \<Rightarrow> u8 \<Rightarrow> bool" where
  "on_board c layer rw cl \<longleftrightarrow> unat layer < DYNAMIC_KEYMAP_LAYER_COUNT c
     \<and> unat rw < MATRIX_ROWS (board c) \<and> unat cl < MATRIX_COLS (board c)"

definition encoder_on_board :: "dk_cfg \<Rightarrow> u8 \<Rightarrow> u8 \<Rightarrow> bool" where
  "encoder_on_board c layer encoder_id \<longleftrightarrow> unat layer < DYNAMIC_KEYMAP_LAYER_COUNT c \<and> unat encoder_id < NUM_ENCODERS (board c)"

definition dynamic_keymap_key_to_eeprom_address :: "dk_cfg \<Rightarrow> u8 \<Rightarrow> u8 \<Rightarrow> u8 \<Rightarrow> u32" where
  "dynamic_keymap_key_to_eeprom_address c layer rw cl =
     of_nat (DYNAMIC_KEYMAP_EEPROM_ADDR c + unat layer * MATRIX_ROWS (board c) * MATRIX_COLS (board c) * 2
       + unat rw * MATRIX_COLS (board c) * 2 + unat cl * 2)"

definition dynamic_keymap_encoder_to_eeprom_address :: "dk_cfg \<Rightarrow> u8 \<Rightarrow> u8 \<Rightarrow> u32" where
  "dynamic_keymap_encoder_to_eeprom_address c layer encoder_id =
     of_nat (DYNAMIC_KEYMAP_ENCODER_EEPROM_ADDR c + unat layer * NUM_ENCODERS (board c) * 2 * 2 + unat encoder_id * 2 * 2)"

text \<open>\<open>__builtin_bswap16\<close>.\<close>

definition bswap16 :: "u16 \<Rightarrow> u16" where
  "bswap16 x = push_bit 8 x OR drop_bit 8 x"

section \<open>Keycodes of keys and encoders\<close>

definition read_big_endian :: "'e eeprom_driver \<Rightarrow> u32 \<Rightarrow> 'e \<Rightarrow> u16 option" where
  "read_big_endian ee a e = do {
     hi \<leftarrow> eeprom_read_byte ee a e;
     lo \<leftarrow> eeprom_read_byte ee (a + 1) e;
     Some (push_bit 8 (ucast hi) OR ucast lo)
   }"

definition update_big_endian :: "'e eeprom_driver \<Rightarrow> u32 \<Rightarrow> u16 \<Rightarrow> 'e \<Rightarrow> 'e option" where
  "update_big_endian ee a kc e = do {
     e \<leftarrow> eeprom_update_byte ee a (ucast (drop_bit 8 kc)) e;
     eeprom_update_byte ee (a + 1) (ucast (kc AND 0xFF)) e
   }"

definition dynamic_keymap_get_keycode :: "dk_cfg \<Rightarrow> 'e eeprom_driver \<Rightarrow> u8 \<Rightarrow> u8 \<Rightarrow> u8 \<Rightarrow> 'e dyn_keymap \<Rightarrow> u16 option" where
  "dynamic_keymap_get_keycode c ee layer rw cl s =
     (if \<not> on_board c layer rw cl then Some KC_NONE
      else let a = dynamic_keymap_key_to_eeprom_address c layer rw cl
           in if KEYCODE_BUFFER_ENABLE c then map_option bswap16 (eeprom_read_word ee a (eeprom s))
              else read_big_endian ee a (eeprom s))"

definition dynamic_keymap_set_keycode ::
  "dk_cfg \<Rightarrow> 'e eeprom_driver \<Rightarrow> u8 \<Rightarrow> u8 \<Rightarrow> u8 \<Rightarrow> u16 \<Rightarrow> 'e dyn_keymap \<Rightarrow> 'e dyn_keymap option" where
  "dynamic_keymap_set_keycode c ee layer rw cl keycode s =
     (if \<not> on_board c layer rw cl then Some s
      else let s = (if KEYCODE_BUFFER_ENABLE c \<and> layer = layer_buffer s \<and> rw = row_buffer s \<and> cl = col_buffer s
                    then forget_buffer s else s);
               a = dynamic_keymap_key_to_eeprom_address c layer rw cl
           in do {
             e \<leftarrow> (if KEYCODE_BUFFER_ENABLE c then eeprom_update_word ee a (bswap16 keycode) (eeprom s)
                  else update_big_endian ee a keycode (eeprom s));
             Some (s\<lparr>eeprom := e\<rparr>)
           })"

definition dynamic_keymap_get_encoder :: "dk_cfg \<Rightarrow> 'e eeprom_driver \<Rightarrow> u8 \<Rightarrow> u8 \<Rightarrow> bool \<Rightarrow> 'e dyn_keymap \<Rightarrow> u16 option" where
  "dynamic_keymap_get_encoder c ee layer encoder_id clockwise s =
     (if \<not> encoder_on_board c layer encoder_id then Some KC_NONE
      else read_big_endian ee (dynamic_keymap_encoder_to_eeprom_address c layer encoder_id + (if clockwise then 0 else 2)) (eeprom s))"

definition dynamic_keymap_set_encoder ::
  "dk_cfg \<Rightarrow> 'e eeprom_driver \<Rightarrow> u8 \<Rightarrow> u8 \<Rightarrow> bool \<Rightarrow> u16 \<Rightarrow> 'e dyn_keymap \<Rightarrow> 'e dyn_keymap option" where
  "dynamic_keymap_set_encoder c ee layer encoder_id clockwise keycode s =
     (if \<not> encoder_on_board c layer encoder_id then Some s
      else map_option (\<lambda>e. s\<lparr>eeprom := e\<rparr>)
        (update_big_endian ee (dynamic_keymap_encoder_to_eeprom_address c layer encoder_id + (if clockwise then 0 else 2))
          keycode (eeprom s)))"

definition keycode_at_keymap_location ::
  "dk_cfg \<Rightarrow> 'e eeprom_driver \<Rightarrow> u8 \<Rightarrow> u8 \<Rightarrow> u8 \<Rightarrow> 'e dyn_keymap \<Rightarrow> (u16 \<times> 'e dyn_keymap) option" where
  "keycode_at_keymap_location c ee layer rw cl s =
     (if \<not> on_board c layer rw cl then Some (KC_NONE, s)
      else if \<not> KEYCODE_BUFFER_ENABLE c
      then map_option (\<lambda>kc. (kc, s)) (dynamic_keymap_get_keycode c ee layer rw cl s)
      else if layer \<noteq> layer_buffer s \<or> rw \<noteq> row_buffer s \<or> cl \<noteq> col_buffer s
      then do {
        kc \<leftarrow> dynamic_keymap_get_keycode c ee layer rw cl s;
        Some (kc, s\<lparr>layer_buffer := layer, row_buffer := rw, col_buffer := cl, keycode_buffer := kc\<rparr>)
      }
      else Some (keycode_buffer s, s))"

definition keycode_at_encodermap_location :: "dk_cfg \<Rightarrow> 'e eeprom_driver \<Rightarrow> u8 \<Rightarrow> u8 \<Rightarrow> bool \<Rightarrow> 'e dyn_keymap \<Rightarrow> u16 option" where
  "keycode_at_encodermap_location c ee layer encoder_idx clockwise s =
     (if encoder_on_board c layer encoder_idx then dynamic_keymap_get_encoder c ee layer encoder_idx clockwise s
      else Some KC_NONE)"

section \<open>Reset\<close>

fun each :: "('a \<Rightarrow> 's \<Rightarrow> 's option) \<Rightarrow> 'a list \<Rightarrow> 's \<Rightarrow> 's option" where
  "each f [] s = Some s"
| "each f (x # xs) s = f x s \<bind> each f xs"

definition positions :: "dk_cfg \<Rightarrow> (u8 \<times> u8) list" where
  "positions c = concat (map (\<lambda>rw. map (\<lambda>cl. (of_nat rw, of_nat cl)) [0..<MATRIX_COLS (board c)]) [0..<MATRIX_ROWS (board c)])"

definition big_endian :: "u16 \<Rightarrow> u8 list" where
  "big_endian kc = [ucast (drop_bit 8 kc), ucast kc]"

text \<open>The keys of a layer: one by one, or as one block of byte-swapped words.\<close>

definition reset_layer ::
  "dk_cfg \<Rightarrow> 'e eeprom_driver \<Rightarrow> (u8 \<Rightarrow> u8 \<Rightarrow> u8 \<Rightarrow> u16) \<Rightarrow> u8 \<Rightarrow> 'e dyn_keymap \<Rightarrow> 'e dyn_keymap option" where
  "reset_layer c ee raw layer s =
     (if KEYCODE_BUFFER_ENABLE c
      then map_option (\<lambda>e. s\<lparr>eeprom := e\<rparr>)
        (eeprom_update_block ee (dynamic_keymap_key_to_eeprom_address c layer 0 0)
          (concat (map (\<lambda>(rw, cl). big_endian (raw layer rw cl)) (positions c))) (eeprom s))
      else each (\<lambda>(rw, cl). dynamic_keymap_set_keycode c ee layer rw cl (raw layer rw cl)) (positions c) s)"

definition reset_encoders ::
  "dk_cfg \<Rightarrow> 'e eeprom_driver \<Rightarrow> (u8 \<Rightarrow> u8 \<Rightarrow> bool \<Rightarrow> u16) \<Rightarrow> u8 \<Rightarrow> 'e dyn_keymap \<Rightarrow> 'e dyn_keymap option" where
  "reset_encoders c ee raw_encoder layer s =
     (if ENCODER_MAP_ENABLE (board c)
      then each (\<lambda>(encoder, clockwise). dynamic_keymap_set_encoder c ee layer encoder clockwise (raw_encoder layer encoder clockwise))
        (concat (map (\<lambda>encoder. [(of_nat encoder, True), (of_nat encoder, False)]) [0..<NUM_ENCODERS (board c)])) s
      else Some s)"

definition dynamic_keymap_reset ::
  "dk_cfg \<Rightarrow> 'e eeprom_driver \<Rightarrow> (u8 \<Rightarrow> u8 \<Rightarrow> u8 \<Rightarrow> u16) \<Rightarrow> (u8 \<Rightarrow> u8 \<Rightarrow> bool \<Rightarrow> u16) \<Rightarrow> 'e dyn_keymap \<Rightarrow> 'e dyn_keymap option" where
  "dynamic_keymap_reset c ee raw raw_encoder s =
     each (\<lambda>layer s. reset_layer c ee raw (of_nat layer) s \<bind> reset_encoders c ee raw_encoder (of_nat layer))
       [0..<DYNAMIC_KEYMAP_LAYER_COUNT c] (if KEYCODE_BUFFER_ENABLE c then forget_buffer s else s)"

section \<open>Buffers\<close>

text \<open>
  Bytes of a region of the EEPROM: what lies behind its end reads as zero and is not written. The
  size of the keymap is kept in 16 bits.
\<close>

fun region_get :: "'e eeprom_driver \<Rightarrow> nat \<Rightarrow> nat \<Rightarrow> nat \<Rightarrow> nat \<Rightarrow> 'e \<Rightarrow> u8 list option" where
  "region_get ee start len offset 0 e = Some []"
| "region_get ee start len offset (Suc n) e = do {
     b \<leftarrow> (if offset < len then eeprom_read_byte ee (of_nat (start + offset)) e else Some 0);
     bs \<leftarrow> region_get ee start len (Suc offset) n e;
     Some (b # bs)
   }"

fun region_set :: "'e eeprom_driver \<Rightarrow> nat \<Rightarrow> nat \<Rightarrow> nat \<Rightarrow> u8 list \<Rightarrow> 'e \<Rightarrow> 'e option" where
  "region_set ee start len offset [] e = Some e"
| "region_set ee start len offset (b # bs) e = do {
     e \<leftarrow> (if offset < len then eeprom_update_byte ee (of_nat (start + offset)) b e else Some e);
     region_set ee start len (Suc offset) bs e
   }"

definition dynamic_keymap_eeprom_size :: "dk_cfg \<Rightarrow> u16" where
  "dynamic_keymap_eeprom_size c = of_nat (DYNAMIC_KEYMAP_LAYER_COUNT c * MATRIX_ROWS (board c) * MATRIX_COLS (board c) * 2)"

definition dynamic_keymap_get_buffer :: "dk_cfg \<Rightarrow> 'e eeprom_driver \<Rightarrow> u16 \<Rightarrow> u16 \<Rightarrow> 'e dyn_keymap \<Rightarrow> u8 list option" where
  "dynamic_keymap_get_buffer c ee offset count s =
     region_get ee (DYNAMIC_KEYMAP_EEPROM_ADDR c) (unat (dynamic_keymap_eeprom_size c)) (unat offset) (unat count) (eeprom s)"

definition dynamic_keymap_set_buffer :: "dk_cfg \<Rightarrow> 'e eeprom_driver \<Rightarrow> u16 \<Rightarrow> u8 list \<Rightarrow> 'e dyn_keymap \<Rightarrow> 'e dyn_keymap option" where
  "dynamic_keymap_set_buffer c ee offset data s =
     map_option (\<lambda>e. s\<lparr>eeprom := e\<rparr>)
       (region_set ee (DYNAMIC_KEYMAP_EEPROM_ADDR c) (unat (dynamic_keymap_eeprom_size c)) (unat offset) data (eeprom s))"

definition dynamic_keymap_macro_get_buffer :: "dk_cfg \<Rightarrow> 'e eeprom_driver \<Rightarrow> u16 \<Rightarrow> u16 \<Rightarrow> 'e dyn_keymap \<Rightarrow> u8 list option" where
  "dynamic_keymap_macro_get_buffer c ee offset count s =
     region_get ee (DYNAMIC_KEYMAP_MACRO_EEPROM_ADDR c) (DYNAMIC_KEYMAP_MACRO_EEPROM_SIZE c) (unat offset) (unat count) (eeprom s)"

definition dynamic_keymap_macro_set_buffer :: "dk_cfg \<Rightarrow> 'e eeprom_driver \<Rightarrow> u16 \<Rightarrow> u8 list \<Rightarrow> 'e dyn_keymap \<Rightarrow> 'e dyn_keymap option" where
  "dynamic_keymap_macro_set_buffer c ee offset data s =
     map_option (\<lambda>e. s\<lparr>eeprom := e\<rparr>)
       (region_set ee (DYNAMIC_KEYMAP_MACRO_EEPROM_ADDR c) (DYNAMIC_KEYMAP_MACRO_EEPROM_SIZE c) (unat offset) data (eeprom s))"

definition dynamic_keymap_macro_reset :: "dk_cfg \<Rightarrow> 'e eeprom_driver \<Rightarrow> 'e dyn_keymap \<Rightarrow> 'e dyn_keymap option" where
  "dynamic_keymap_macro_reset c ee s =
     map_option (\<lambda>e. s\<lparr>eeprom := e\<rparr>)
       (each (\<lambda>i. eeprom_update_byte ee (of_nat (DYNAMIC_KEYMAP_MACRO_EEPROM_ADDR c + i)) 0)
         [0..<DYNAMIC_KEYMAP_MACRO_EEPROM_SIZE c] (eeprom s))"

end
