(* ===== verification/DynKeymapProps.thy ===== *)
theory DynKeymapProps
  imports DynKeymap KeymapProps
begin

text \<open>
  The keymap in EEPROM refines a keymap as a function: the layout keeps the keys, the encoders and the
  macros apart, and every operation changes what it names and nothing else.
\<close>

section \<open>Words in memory\<close>

definition word_at :: "u8 list \<Rightarrow> nat \<Rightarrow> u16" where
  "word_at m a = push_bit 8 (ucast (m ! a)) OR ucast (m ! Suc a)"

lemma length_big_endian [simp]: "length (big_endian kc) = 2"
  by (simp add: big_endian_def)

lemma word_at_put:
  assumes "a + 2 \<le> length m" and "b + 2 \<le> length m" and "b \<noteq> Suc a" and "a \<noteq> Suc b"
  shows "word_at (mem_put a (big_endian kc) m) b = (if b = a then kc else word_at m b)"
proof -
  have "push_bit 8 (ucast (ucast (drop_bit 8 kc) :: u8)) OR ucast (ucast kc :: u8) = kc"
    by (rule bit_word_eqI) (auto simp: bit_simps)
  then show ?thesis
    using assms by (auto simp: word_at_def mem_put_nth big_endian_def)
qed

lemma bytes_put_big_endian:
  "Suc a < length m \<Longrightarrow> m[a := ucast (drop_bit 8 kc), Suc a := ucast kc] = mem_put a (big_endian kc) m"
  by (rule nth_equalityI) (auto simp: mem_put_nth big_endian_def length_simps nth_list_update)

text \<open>Words in a row.\<close>

lemma mem_put_Cons_block:
  assumes "a + 2 + length bs \<le> length m"
  shows "mem_put a (big_endian kc @ bs) m = mem_put (a + 2) bs (mem_put a (big_endian kc) m)"
  using assms by (intro nth_equalityI) (auto simp: mem_put_nth length_simps nth_append)

lemma length_words [simp]: "length (concat (map big_endian kcs)) = 2 * length kcs"
  by (induction kcs) simp_all

lemma word_at_words:
  assumes "a + 2 * length kcs \<le> length m" and "b + 2 \<le> length m"
  shows "i < length kcs \<Longrightarrow> word_at (mem_put a (concat (map big_endian kcs)) m) (a + 2 * i) = kcs ! i"
    and "b + 2 \<le> a \<or> a + 2 * length kcs \<le> b \<Longrightarrow> word_at (mem_put a (concat (map big_endian kcs)) m) b = word_at m b"
proof -
  show "i < length kcs \<Longrightarrow> word_at (mem_put a (concat (map big_endian kcs)) m) (a + 2 * i) = kcs ! i"
    using assms(1)
  proof (induction kcs arbitrary: a m i)
    case (Cons kc kcs)
    let ?m = "mem_put a (big_endian kc) m"
    have l: "length ?m = length m" using Cons.prems by (simp add: length_simps)
    have e: "mem_put a (concat (map big_endian (kc # kcs))) m = mem_put (a + 2) (concat (map big_endian kcs)) ?m"
      using Cons.prems(2) by (simp add: mem_put_Cons_block)
    show ?case
    proof (cases i)
      case 0
      have "word_at (mem_put (a + 2) (concat (map big_endian kcs)) ?m) a = word_at ?m a"
        using Cons.prems(2) l by (simp add: word_at_def mem_put_nth)
      then show ?thesis unfolding e 0 using Cons.prems(2) by (simp add: word_at_put)
    next
      case (Suc j)
      then show ?thesis unfolding e using Cons.IH [of j "a + 2" ?m] Cons.prems l by simp
    qed
  qed simp
  show "b + 2 \<le> a \<or> a + 2 * length kcs \<le> b \<Longrightarrow> word_at (mem_put a (concat (map big_endian kcs)) m) b = word_at m b"
    using assms by (auto simp: word_at_def mem_put_nth)
qed

section \<open>The layout\<close>

definition key_off :: "dk_cfg \<Rightarrow> u8 \<Rightarrow> u8 \<Rightarrow> u8 \<Rightarrow> nat" where
  "key_off c layer rw cl = DYNAMIC_KEYMAP_EEPROM_ADDR c
     + ((unat layer * MATRIX_ROWS (board c) + unat rw) * MATRIX_COLS (board c) + unat cl) * 2"

definition enc_off :: "dk_cfg \<Rightarrow> u8 \<Rightarrow> u8 \<Rightarrow> bool \<Rightarrow> nat" where
  "enc_off c layer i clockwise = DYNAMIC_KEYMAP_ENCODER_EEPROM_ADDR c
     + ((unat layer * NUM_ENCODERS (board c) + unat i) * 2 + (if clockwise then 0 else 1)) * 2"

text \<open>The regions follow each other in the order of the file and fit; the counts fit in bytes.\<close>

definition dk_ok :: "dk_cfg \<Rightarrow> nat \<Rightarrow> bool" where
  "dk_ok c n \<longleftrightarrow> 0 < MATRIX_ROWS (board c) \<and> 0 < MATRIX_COLS (board c) \<and> DYNAMIC_KEYMAP_LAYER_COUNT c < 256 \<and> MATRIX_ROWS (board c) < 256 \<and> MATRIX_COLS (board c) < 256
     \<and> NUM_ENCODERS (board c) < 256
     \<and> DYNAMIC_KEYMAP_EEPROM_ADDR c + DYNAMIC_KEYMAP_LAYER_COUNT c * MATRIX_ROWS (board c) * MATRIX_COLS (board c) * 2
         \<le> DYNAMIC_KEYMAP_ENCODER_EEPROM_ADDR c
     \<and> DYNAMIC_KEYMAP_ENCODER_EEPROM_ADDR c + DYNAMIC_KEYMAP_LAYER_COUNT c * NUM_ENCODERS (board c) * 4
         \<le> DYNAMIC_KEYMAP_MACRO_EEPROM_ADDR c
     \<and> DYNAMIC_KEYMAP_MACRO_EEPROM_ADDR c + DYNAMIC_KEYMAP_MACRO_EEPROM_SIZE c \<le> n \<and> n \<le> 2 ^ 16
     \<and> 0 < DYNAMIC_KEYMAP_MACRO_EEPROM_SIZE c"

lemma dk_okD:
  assumes "dk_ok c n"
  shows "DYNAMIC_KEYMAP_EEPROM_ADDR c + DYNAMIC_KEYMAP_LAYER_COUNT c * MATRIX_ROWS (board c) * MATRIX_COLS (board c) * 2
         \<le> DYNAMIC_KEYMAP_ENCODER_EEPROM_ADDR c"
    and "DYNAMIC_KEYMAP_ENCODER_EEPROM_ADDR c + DYNAMIC_KEYMAP_LAYER_COUNT c * NUM_ENCODERS (board c) * 4
         \<le> DYNAMIC_KEYMAP_MACRO_EEPROM_ADDR c"
    and "DYNAMIC_KEYMAP_MACRO_EEPROM_ADDR c + DYNAMIC_KEYMAP_MACRO_EEPROM_SIZE c \<le> n" and "n \<le> 2 ^ 16"
    and "DYNAMIC_KEYMAP_ENCODER_EEPROM_ADDR c \<le> n" and "DYNAMIC_KEYMAP_MACRO_EEPROM_ADDR c \<le> n"
    and "DYNAMIC_KEYMAP_LAYER_COUNT c < 256" and "MATRIX_ROWS (board c) < 256" and "MATRIX_COLS (board c) < 256"
    and "NUM_ENCODERS (board c) < 256" and "0 < MATRIX_ROWS (board c)" and "0 < MATRIX_COLS (board c)"
    and "0 < DYNAMIC_KEYMAP_MACRO_EEPROM_SIZE c"
  using assms by (simp_all add: dk_ok_def)

lemma on_boardD:
  assumes "on_board c l r k"
  shows "unat l < DYNAMIC_KEYMAP_LAYER_COUNT c" and "unat r < MATRIX_ROWS (board c)" and "unat k < MATRIX_COLS (board c)"
  using assms by (simp_all add: on_board_def)

lemma encoder_on_boardD:
  assumes "encoder_on_board c l i"
  shows "unat l < DYNAMIC_KEYMAP_LAYER_COUNT c" and "unat i < NUM_ENCODERS (board c)"
  using assms by (simp_all add: encoder_on_board_def)

lemma mixed_radix_less:
  fixes a b m n :: nat
  assumes "a < m" and "b < n"
  shows "a * n + b < m * n"
proof -
  have "a * n + b < a * n + n" using assms(2) by simp
  also have "\<dots> = Suc a * n" by simp
  also have "\<dots> \<le> m * n" using assms(1) by (simp only: mult_le_mono1 Suc_leI)
  finally show ?thesis .
qed

lemma mixed_radix_inj:
  fixes a b a' b' n :: nat
  assumes "a * n + b = a' * n + b'" and "b < n" and "b' < n"
  shows "a = a' \<and> b = b'"
proof -
  have "a = (a * n + b) div n" "b = (a * n + b) mod n" using assms(2) by simp_all
  moreover have "a' = (a' * n + b') div n" "b' = (a' * n + b') mod n" using assms(3) by simp_all
  ultimately show ?thesis using assms(1) by metis
qed

lemma key_off_bounds:
  assumes "dk_ok c n" and "on_board c l r k"
  shows "DYNAMIC_KEYMAP_EEPROM_ADDR c \<le> key_off c l r k" and "key_off c l r k + 2 \<le> DYNAMIC_KEYMAP_ENCODER_EEPROM_ADDR c"
proof -
  define i where "i = (unat l * MATRIX_ROWS (board c) + unat r) * MATRIX_COLS (board c) + unat k"
  have "i < DYNAMIC_KEYMAP_LAYER_COUNT c * MATRIX_ROWS (board c) * MATRIX_COLS (board c)"
    unfolding i_def by (intro mixed_radix_less on_boardD [OF assms(2)])
  moreover have off: "key_off c l r k = DYNAMIC_KEYMAP_EEPROM_ADDR c + i * 2" by (simp add: key_off_def i_def)
  ultimately show "key_off c l r k + 2 \<le> DYNAMIC_KEYMAP_ENCODER_EEPROM_ADDR c"
    using dk_okD(1) [OF assms(1)] by simp
  show "DYNAMIC_KEYMAP_EEPROM_ADDR c \<le> key_off c l r k" by (simp add: off)
qed

lemma key_off_inj:
  assumes "on_board c l r k" and "on_board c l' r' k'" and "key_off c l r k = key_off c l' r' k'"
  shows "l = l' \<and> r = r' \<and> k = k'"
proof -
  let ?R = "MATRIX_ROWS (board c)" and ?C = "MATRIX_COLS (board c)"
  have "(unat l * ?R + unat r) * ?C + unat k = (unat l' * ?R + unat r') * ?C + unat k'"
    using assms(3) by (simp add: key_off_def)
  then have a: "unat l * ?R + unat r = unat l' * ?R + unat r' \<and> unat k = unat k'"
    using on_boardD(3) [OF assms(1)] on_boardD(3) [OF assms(2)] by (rule mixed_radix_inj)
  then have "unat l = unat l' \<and> unat r = unat r'"
    using on_boardD(2) [OF assms(1)] on_boardD(2) [OF assms(2)] by (intro mixed_radix_inj [of "unat l" ?R]) blast
  with a show ?thesis by (simp add: word_unat_eq_iff)
qed

lemma enc_off_bounds:
  assumes "dk_ok c n" and "encoder_on_board c l i"
  shows "DYNAMIC_KEYMAP_ENCODER_EEPROM_ADDR c \<le> enc_off c l i cw" and "enc_off c l i cw + 2 \<le> DYNAMIC_KEYMAP_MACRO_EEPROM_ADDR c"
proof -
  define j where "j = unat l * NUM_ENCODERS (board c) + unat i"
  have "j < DYNAMIC_KEYMAP_LAYER_COUNT c * NUM_ENCODERS (board c)"
    unfolding j_def by (intro mixed_radix_less encoder_on_boardD [OF assms(2)])
  moreover have off: "enc_off c l i cw = DYNAMIC_KEYMAP_ENCODER_EEPROM_ADDR c + (j * 2 + (if cw then 0 else 1)) * 2"
    by (simp add: enc_off_def j_def)
  ultimately show "enc_off c l i cw + 2 \<le> DYNAMIC_KEYMAP_MACRO_EEPROM_ADDR c"
    using dk_okD(2) [OF assms(1)] by (cases cw) simp_all
  show "DYNAMIC_KEYMAP_ENCODER_EEPROM_ADDR c \<le> enc_off c l i cw" by (simp add: off)
qed

lemma enc_off_inj:
  assumes "encoder_on_board c l i" and "encoder_on_board c l' i'" and "enc_off c l i cw = enc_off c l' i' cw'"
  shows "l = l' \<and> i = i' \<and> cw = cw'"
proof -
  let ?N = "NUM_ENCODERS (board c)" and ?d = "\<lambda>b :: bool. if b then 0 else 1 :: nat"
  have "(unat l * ?N + unat i) * 2 + ?d cw = (unat l' * ?N + unat i') * 2 + ?d cw'"
    using assms(3) by (simp add: enc_off_def)
  then have a: "unat l * ?N + unat i = unat l' * ?N + unat i' \<and> ?d cw = ?d cw'"
    by (rule mixed_radix_inj) simp_all
  then have "unat l = unat l' \<and> unat i = unat i'"
    using encoder_on_boardD(2) [OF assms(1)] encoder_on_boardD(2) [OF assms(2)] by (intro mixed_radix_inj [of "unat l" ?N]) blast
  with a show ?thesis by (auto simp: word_unat_eq_iff split: if_splits)
qed

text \<open>Different words of the layout do not overlap.\<close>

lemma even_apart: "(a :: nat) + x * 2 \<noteq> Suc (a + y * 2)"
  by presburger

lemma off_parity [simp]:
  "key_off c l r k \<noteq> Suc (key_off c l' r' k')" "enc_off c l e cw \<noteq> Suc (enc_off c l' e' cw')"
  unfolding key_off_def enc_off_def by (rule even_apart)+

lemma unat_addr [simp]:
  "a \<le> 2 ^ 16 \<Longrightarrow> unat (of_nat a :: u32) = a"
  by (simp add: unat_of_nat)

lemma key_address:
  assumes "dk_ok c n" and "on_board c l r k"
  shows "dynamic_keymap_key_to_eeprom_address c l r k = of_nat (key_off c l r k)"
    and "unat (of_nat (key_off c l r k) :: u32) = key_off c l r k"
    and "unat (of_nat (key_off c l r k) + 1 :: u32) = Suc (key_off c l r k)"
proof -
  have b: "key_off c l r k + 2 \<le> 2 ^ 16" using key_off_bounds [OF assms] dk_okD(4,5) [OF assms(1)] by linarith
  show "dynamic_keymap_key_to_eeprom_address c l r k = of_nat (key_off c l r k)"
    unfolding dynamic_keymap_key_to_eeprom_address_def key_off_def by (rule arg_cong [of _ _ of_nat]) (simp add: algebra_simps)
  show u: "unat (of_nat (key_off c l r k) :: u32) = key_off c l r k" using b by simp
  show "unat (of_nat (key_off c l r k) + 1 :: u32) = Suc (key_off c l r k)"
    using unat_add_small [of "of_nat (key_off c l r k)" 1] u b by simp
qed

lemma enc_address:
  assumes "dk_ok c n" and "encoder_on_board c l e"
  shows "dynamic_keymap_encoder_to_eeprom_address c l e + (if cw then 0 else 2) = of_nat (enc_off c l e cw)"
    and "unat (of_nat (enc_off c l e cw) :: u32) = enc_off c l e cw"
    and "unat (of_nat (enc_off c l e cw) + 1 :: u32) = Suc (enc_off c l e cw)"
proof -
  have b: "enc_off c l e cw + 2 \<le> 2 ^ 16" using enc_off_bounds [OF assms, of cw] dk_okD(4,6) [OF assms(1)] by linarith
  have "of_nat (enc_off c l e cw) = (of_nat (enc_off c l e True) + (if cw then 0 else 2) :: u32)"
    by (cases cw) (simp_all add: enc_off_def)
  moreover have "dynamic_keymap_encoder_to_eeprom_address c l e = of_nat (enc_off c l e True)"
    unfolding dynamic_keymap_encoder_to_eeprom_address_def enc_off_def
    by (rule arg_cong [of _ _ of_nat]) (simp add: algebra_simps)
  ultimately show "dynamic_keymap_encoder_to_eeprom_address c l e + (if cw then 0 else 2) = of_nat (enc_off c l e cw)" by simp
  show u: "unat (of_nat (enc_off c l e cw) :: u32) = enc_off c l e cw" using b by simp
  show "unat (of_nat (enc_off c l e cw) + 1 :: u32) = Suc (enc_off c l e cw)"
    using unat_add_small [of "of_nat (enc_off c l e cw)" 1] u b by simp
qed

section \<open>Operations over a working EEPROM\<close>

lemma swapped_bytes:
  "scalar_bytes 2 (unat (bswap16 kc)) = big_endian kc"
  "bswap16 (of_nat (bytes_scalar [m ! a, m ! Suc a])) = word_at m a"
proof -
  have u: "of_nat (unat x div 256) = (ucast (drop_bit 8 x) :: u8)" for x :: u16
    by (rule word_unat_eq_iff [THEN iffD2])
      (simp add: unat_of_nat unsigned_ucast_eq unsigned_drop_bit_eq take_bit_eq_mod drop_bit_eq_div unat_div)
  have v: "of_nat (unat x) = (ucast x :: u8)" for x :: u16
    by (rule word_unat_eq_iff [THEN iffD2]) (simp add: unat_of_nat unsigned_ucast_eq take_bit_eq_mod)
  have "ucast (bswap16 kc) = (ucast (drop_bit 8 kc) :: u8)" "ucast (drop_bit 8 (bswap16 kc)) = (ucast kc :: u8)"
    by (rule bit_word_eqI; auto simp: bswap16_def bit_simps)+
  then show "scalar_bytes 2 (unat (bswap16 kc)) = big_endian kc"
    by (simp add: scalar_bytes_def big_endian_def numeral_2_eq_2 u v)
  have "(of_nat (unat x + 256 * unat y) :: u16) = ucast x OR push_bit 8 (ucast y)" for x y :: u8
  proof -
    have "(of_nat (unat x + 256 * unat y) :: u16) = ucast x + push_bit 8 (ucast y)"
      by (simp add: push_bit_eq_mult)
    moreover have "(ucast x :: u16) AND push_bit 8 (ucast y) = 0"
      by (rule bit_word_eqI) (auto simp: bit_simps dest: bit_u8_iff_less)
    ultimately show ?thesis by (simp add: disjunctive_add_eq_or)
  qed
  note w = this
  show "bswap16 (of_nat (bytes_scalar [m ! a, m ! Suc a])) = word_at m a"
    unfolding bytes_scalar.simps mult_0_right add_0_right w bswap16_def word_at_def
    by (rule bit_word_eqI) (auto simp: bit_simps dest: bit_u8_iff_less)
qed

section \<open>A keymap as a function\<close>

record dk_spec =
  spec_keys :: "u8 \<times> u8 \<times> u8 \<Rightarrow> u16"
  spec_encoders :: "u8 \<times> u8 \<times> bool \<Rightarrow> u16"
  spec_macros :: "u8 list"

definition view :: "dk_cfg \<Rightarrow> u8 list \<Rightarrow> dk_spec" where
  "view c m =
     \<lparr>spec_keys = \<lambda>(l, r, k). if on_board c l r k then word_at m (key_off c l r k) else 0,
      spec_encoders = \<lambda>(l, i, cw). if encoder_on_board c l i then word_at m (enc_off c l i cw) else 0,
      spec_macros = mem_get (DYNAMIC_KEYMAP_MACRO_EEPROM_ADDR c) (DYNAMIC_KEYMAP_MACRO_EEPROM_SIZE c) m\<rparr>"

lemma mem_get_apart:
  assumes "b + length bs \<le> a \<or> a + n \<le> b" and "b + length bs \<le> length m" and "a + n \<le> length m"
  shows "mem_get a n (mem_put b bs m) = mem_get a n m"
  using assms by (intro nth_equalityI) (auto simp: length_simps mem_get_nth mem_put_nth)

lemma view_put_key:
  assumes "dk_ok c n" and "length m = n" and "on_board c l r k"
  shows "view c (mem_put (key_off c l r k) (big_endian kc) m)
    = (view c m)\<lparr>spec_keys := (spec_keys (view c m))((l, r, k) := kc)\<rparr>"
proof -
  let ?m = "mem_put (key_off c l r k) (big_endian kc) m"
  note D = dk_okD(5,6,3) [OF assms(1)] key_off_bounds [OF assms(1,3)]
  have ke: "DYNAMIC_KEYMAP_ENCODER_EEPROM_ADDR c \<le> DYNAMIC_KEYMAP_MACRO_EEPROM_ADDR c"
    using dk_okD(2) [OF assms(1)] by linarith
  have "word_at ?m (key_off c l' r' k') = (if (l', r', k') = (l, r, k) then kc else word_at m (key_off c l' r' k'))"
    if "on_board c l' r' k'" for l' r' k'
    using word_at_put [of "key_off c l r k" m "key_off c l' r' k'" kc] D key_off_bounds [OF assms(1) that] assms(2)
      key_off_inj [OF assms(3) that] by auto
  moreover have "word_at ?m (enc_off c l' i cw) = word_at m (enc_off c l' i cw)" if "encoder_on_board c l' i" for l' i cw
    using word_at_put [of "key_off c l r k" m "enc_off c l' i cw" kc] D enc_off_bounds [OF assms(1) that, of cw] assms(2) by auto
  moreover have "mem_get (DYNAMIC_KEYMAP_MACRO_EEPROM_ADDR c) (DYNAMIC_KEYMAP_MACRO_EEPROM_SIZE c) ?m
      = mem_get (DYNAMIC_KEYMAP_MACRO_EEPROM_ADDR c) (DYNAMIC_KEYMAP_MACRO_EEPROM_SIZE c) m"
    using D ke assms(2) by (intro mem_get_apart) simp_all
  ultimately show ?thesis
    using assms(3) by (auto simp: view_def fun_eq_iff)
qed

lemma view_put_encoder:
  assumes "dk_ok c n" and "length m = n" and "encoder_on_board c l i"
  shows "view c (mem_put (enc_off c l i cw) (big_endian kc) m)
    = (view c m)\<lparr>spec_encoders := (spec_encoders (view c m))((l, i, cw) := kc)\<rparr>"
proof -
  let ?m = "mem_put (enc_off c l i cw) (big_endian kc) m"
  note D = dk_okD(5,6,3) [OF assms(1)] enc_off_bounds [OF assms(1,3), of cw]
  have "word_at ?m (key_off c l' r' k') = word_at m (key_off c l' r' k')" if "on_board c l' r' k'" for l' r' k'
    using word_at_put [of "enc_off c l i cw" m "key_off c l' r' k'" kc] D key_off_bounds [OF assms(1) that] assms(2) by auto
  moreover have "word_at ?m (enc_off c l' i' cw') = (if (l', i', cw') = (l, i, cw) then kc else word_at m (enc_off c l' i' cw'))"
    if "encoder_on_board c l' i'" for l' i' cw'
    using word_at_put [of "enc_off c l i cw" m "enc_off c l' i' cw'" kc] D enc_off_bounds [OF assms(1) that, of cw'] assms(2)
      enc_off_inj [OF assms(3) that, of cw cw'] by auto
  moreover have "mem_get (DYNAMIC_KEYMAP_MACRO_EEPROM_ADDR c) (DYNAMIC_KEYMAP_MACRO_EEPROM_SIZE c) ?m
      = mem_get (DYNAMIC_KEYMAP_MACRO_EEPROM_ADDR c) (DYNAMIC_KEYMAP_MACRO_EEPROM_SIZE c) m"
    using D assms(2) by (intro mem_get_apart) simp_all
  ultimately show ?thesis
    using assms(3) by (auto simp: view_def fun_eq_iff)
qed

text \<open>Bytes of a region laid over it; what exceeds the region is dropped.\<close>

definition overlay :: "nat \<Rightarrow> u8 list \<Rightarrow> u8 list \<Rightarrow> u8 list" where
  "overlay offset data bs =
     map (\<lambda>i. if offset \<le> i \<and> i < offset + length data then data ! (i - offset) else bs ! i) [0..<length bs]"

text \<open>Bytes read from a region; what lies behind it reads as zero.\<close>

definition window :: "nat \<Rightarrow> nat \<Rightarrow> u8 list \<Rightarrow> u8 list" where
  "window off n bs = map (\<lambda>i. if off + i < length bs then bs ! (off + i) else 0) [0..<n]"

lemma view_put_macros:
  assumes "dk_ok c n" and "length m = n" and "length bs = DYNAMIC_KEYMAP_MACRO_EEPROM_SIZE c"
  shows "view c (mem_put (DYNAMIC_KEYMAP_MACRO_EEPROM_ADDR c) bs m) = (view c m)\<lparr>spec_macros := bs\<rparr>"
proof -
  let ?m = "mem_put (DYNAMIC_KEYMAP_MACRO_EEPROM_ADDR c) bs m"
  have ke: "DYNAMIC_KEYMAP_ENCODER_EEPROM_ADDR c \<le> DYNAMIC_KEYMAP_MACRO_EEPROM_ADDR c"
    using dk_okD(2) [OF assms(1)] by linarith
  have fit: "DYNAMIC_KEYMAP_MACRO_EEPROM_ADDR c + length bs \<le> length m" using dk_okD(3) [OF assms(1)] assms(2,3) by simp
  have low: "word_at ?m a = word_at m a" if "a + 2 \<le> DYNAMIC_KEYMAP_MACRO_EEPROM_ADDR c" for a
    using that fit by (simp add: word_at_def mem_put_nth)
  have "word_at ?m (key_off c l r k) = word_at m (key_off c l r k)" if "on_board c l r k" for l r k
    using low key_off_bounds(2) [OF assms(1) that] ke by (meson le_trans)
  moreover have "word_at ?m (enc_off c l i cw) = word_at m (enc_off c l i cw)" if "encoder_on_board c l i" for l i cw
    using low enc_off_bounds(2) [OF assms(1) that] by blast
  moreover have "mem_get (DYNAMIC_KEYMAP_MACRO_EEPROM_ADDR c) (DYNAMIC_KEYMAP_MACRO_EEPROM_SIZE c) ?m = bs"
    using mem_get_put_same [of "DYNAMIC_KEYMAP_MACRO_EEPROM_ADDR c" bs m] fit assms(3) by simp
  ultimately show ?thesis
    by (auto simp: view_def fun_eq_iff)
qed

lemma overlay_whole:
  assumes "start + len \<le> length m" and "length m' = length m"
    and "\<And>i. i < length m \<Longrightarrow> m' ! i =
      (if start + off \<le> i \<and> i < start + off + length data \<and> i < start + len then data ! (i - (start + off)) else m ! i)"
  shows "m' = mem_put start (overlay off data (mem_get start len m)) m"
  using assms
  by (intro nth_equalityI) (auto simp: length_simps mem_put_nth overlay_def mem_get_nth less_diff_conv2 intro!: arg_cong [of _ _ "(!) data"])

section \<open>Loops\<close>

lemma each_append: "each f (xs @ ys) s = each f xs s \<bind> each f ys"
  by (induction xs arbitrary: s) (auto split: bind_splits)

lemma each_upt:
  assumes "P 0 s" and "\<And>i s. i < n \<Longrightarrow> P i s \<Longrightarrow> \<exists>s'. f i s = Some s' \<and> P (Suc i) s'"
  shows "\<exists>s'. each f [0..<n] s = Some s' \<and> P n s'"
proof -
  have "\<exists>s'. each f [0..<j] s = Some s' \<and> P j s'" if "j \<le> n" for j
    using that
  proof (induction j)
    case (Suc j)
    then obtain s1 where s1: "each f [0..<j] s = Some s1" "P j s1" by auto
    obtain s2 where "f j s1 = Some s2" "P (Suc j) s2" using assms(2) [of j s1] s1(2) Suc.prems by auto
    then show ?case using s1(1) by (simp add: each_append)
  qed (simp add: assms(1))
  then show ?thesis by simp
qed

text \<open>A loop over rows and columns.\<close>

lemma grid:
  "length (concat (map (\<lambda>i. map (h i) [0..<n]) [0..<m])) = m * n"
  "j < m * n \<Longrightarrow> concat (map (\<lambda>i. map (h i) [0..<n]) [0..<m]) ! j = h (j div n) (j mod n)"
proof (induction m arbitrary: j)
  case (Suc m)
  case 1
  then show ?case using Suc.IH(1) by simp
  case 2
  show ?case
  proof (cases "j < m * n")
    case True
    then show ?thesis using Suc.IH by (simp add: nth_append)
  next
    case False
    have n: "0 < n" using 2 by (cases n) simp_all
    have "j - m * n < n" using 2 False by simp
    moreover have "j = m * n + (j - m * n)" using False by simp
    ultimately have "j div n = m" "j mod n = j - m * n"
      using n by (metis div_mult_self3 div_less add.right_neutral add.commute less_not_refl2, metis mod_mult_self3 mod_less)
    then show ?thesis using False Suc.IH(1) \<open>j - m * n < n\<close> by (simp add: nth_append)
  qed
qed simp_all

lemma positions:
  "length (positions c) = MATRIX_ROWS (board c) * MATRIX_COLS (board c)"
  "i < MATRIX_ROWS (board c) * MATRIX_COLS (board c) \<Longrightarrow>
    positions c ! i = (of_nat (i div MATRIX_COLS (board c)), of_nat (i mod MATRIX_COLS (board c)))"
  unfolding positions_def by (rule grid; assumption?)+

lemma u8_of_nat: "n < 256 \<Longrightarrow> unat (of_nat n :: u8) = n"
  by (simp add: unat_of_nat)

text \<open>The keys of a layer follow each other in the order of \<open>positions\<close>.\<close>

lemma position_on_board:
  assumes "dk_ok c n" and "unat l < DYNAMIC_KEYMAP_LAYER_COUNT c" and "i < length (positions c)"
  shows "(case positions c ! i of (r, k) \<Rightarrow> on_board c l r k \<and> key_off c l r k = key_off c l 0 0 + 2 * i)"
proof -
  let ?R = "MATRIX_ROWS (board c)" and ?C = "MATRIX_COLS (board c)"
  have i: "i < ?R * ?C" using assms(3) by (simp add: positions)
  have "i div ?C < ?R" "i mod ?C < ?C"
    using i dk_okD(12) [OF assms(1)] by (simp_all add: div_less_iff_less_mult)
  moreover from this have "unat (of_nat (i div ?C) :: u8) = i div ?C" "unat (of_nat (i mod ?C) :: u8) = i mod ?C"
    using dk_okD(8,9) [OF assms(1)] by (simp_all add: u8_of_nat)
  moreover have "(unat l * ?R + i div ?C) * ?C + i mod ?C = unat l * ?R * ?C + (i div ?C * ?C + i mod ?C)"
    by (simp add: add_mult_distrib)
  then have "(unat l * ?R + i div ?C) * ?C + i mod ?C = unat l * ?R * ?C + i" by simp
  ultimately show ?thesis
    using assms(2) by (simp add: positions(2) [OF i] on_board_def key_off_def)
qed

lemma on_board_position:
  assumes "on_board c l r k"
  shows "unat r * MATRIX_COLS (board c) + unat k < length (positions c)"
    and "positions c ! (unat r * MATRIX_COLS (board c) + unat k) = (r, k)"
    and "key_off c l r k = key_off c l 0 0 + 2 * (unat r * MATRIX_COLS (board c) + unat k)"
proof -
  note b = on_boardD [OF assms]
  show i: "unat r * MATRIX_COLS (board c) + unat k < length (positions c)"
    unfolding positions by (rule mixed_radix_less [OF b(2,3)])
  show "positions c ! (unat r * MATRIX_COLS (board c) + unat k) = (r, k)"
    using i b(3) by (simp add: positions)
  show "key_off c l r k = key_off c l 0 0 + 2 * (unat r * MATRIX_COLS (board c) + unat k)"
    by (simp add: key_off_def algebra_simps)
qed

text \<open>The keys of all layers by number.\<close>

definition key_count :: "dk_cfg \<Rightarrow> nat" where
  "key_count c = DYNAMIC_KEYMAP_LAYER_COUNT c * MATRIX_ROWS (board c) * MATRIX_COLS (board c)"

definition key_at :: "dk_cfg \<Rightarrow> nat \<Rightarrow> u8 \<times> u8 \<times> u8" where
  "key_at c i = (of_nat (i div MATRIX_COLS (board c) div MATRIX_ROWS (board c)),
     of_nat (i div MATRIX_COLS (board c) mod MATRIX_ROWS (board c)), of_nat (i mod MATRIX_COLS (board c)))"

lemma key_at:
  assumes "dk_ok c n" and "i < key_count c"
  shows "(case key_at c i of (l, r, k) \<Rightarrow> on_board c l r k \<and> key_off c l r k = DYNAMIC_KEYMAP_EEPROM_ADDR c + 2 * i)"
proof -
  let ?R = "MATRIX_ROWS (board c)" and ?C = "MATRIX_COLS (board c)"
  let ?l = "i div ?C div ?R" and ?r = "i div ?C mod ?R" and ?k = "i mod ?C"
  have b: "?l < DYNAMIC_KEYMAP_LAYER_COUNT c" "?r < ?R" "?k < ?C"
    using assms(2) dk_okD(11,12) [OF assms(1)] by (simp_all add: key_count_def div_less_iff_less_mult)
  then have "unat (of_nat ?l :: u8) = ?l" "unat (of_nat ?r :: u8) = ?r" "unat (of_nat ?k :: u8) = ?k"
    using dk_okD(7-9) [OF assms(1)] by (simp_all add: u8_of_nat)
  moreover have "i div ?C * ?C * 2 + ?k * 2 = 2 * i"
  proof -
    have "i div ?C * ?C * 2 + ?k * 2 = (i div ?C * ?C + ?k) * 2" by (simp only: add_mult_distrib)
    then show ?thesis by simp
  qed
  ultimately show ?thesis using b by (simp add: key_at_def on_board_def key_off_def)
qed

lemma big_endian_bytes: "big_endian (word_at m a) = [m ! a, m ! Suc a]"
proof -
  have "\<not> bit (m ! Suc a) (8 + j)" for j using bit_imp_le_length [of "m ! Suc a" "8 + j"] by auto
  then show ?thesis by (auto simp: big_endian_def word_at_def intro!: bit_word_eqI simp: bit_simps)
qed

lemma words_of_bytes:
  "a + 2 * n \<le> length m \<Longrightarrow> concat (map (\<lambda>i. big_endian (word_at m (a + 2 * i))) [0..<n]) = mem_get a (2 * n) m"
proof (induction n)
  case (Suc n)
  have "mem_get a (2 * n + 2) m = mem_get a (2 * n) m @ [m ! (a + 2 * n), m ! Suc (a + 2 * n)]"
    using Suc.prems by (simp add: mem_get_def take_Suc_conv_app_nth)
  then show ?case using Suc by (simp add: big_endian_bytes)
qed (simp add: mem_get_def)

definition encoder_positions :: "dk_cfg \<Rightarrow> (u8 \<times> bool) list" where
  "encoder_positions c = concat (map (\<lambda>i. map (\<lambda>j. (of_nat i, j = 0)) [0..<2]) [0..<NUM_ENCODERS (board c)])"

lemma encoder_positions:
  "length (encoder_positions c) = NUM_ENCODERS (board c) * 2"
  "i < NUM_ENCODERS (board c) * 2 \<Longrightarrow> encoder_positions c ! i = (of_nat (i div 2), i mod 2 = 0)"
  unfolding encoder_positions_def by (rule grid; assumption?)+

lemma encoder_position_on_board:
  assumes "dk_ok c n" and "unat l < DYNAMIC_KEYMAP_LAYER_COUNT c" and "i < length (encoder_positions c)"
  shows "(case encoder_positions c ! i of (e, cw) \<Rightarrow> encoder_on_board c l e \<and> enc_off c l e cw = enc_off c l 0 True + 2 * i)"
proof -
  have i: "i < NUM_ENCODERS (board c) * 2" using assms(3) by (simp add: encoder_positions)
  then have "unat (of_nat (i div 2) :: u8) = i div 2" using dk_okD(10) [OF assms(1)] by (simp add: u8_of_nat)
  moreover have "i div 2 * 2 + (if i mod 2 = 0 then 0 else 1) = i" by (cases "i mod 2 = 0") (simp_all, presburger+)
  ultimately show ?thesis
    using assms(2) i by (auto simp: encoder_positions(2) [OF i] encoder_on_board_def enc_off_def)
qed

lemma encoder_on_board_position:
  assumes "encoder_on_board c l e"
  shows "unat e * 2 + (if cw then 0 else 1) < length (encoder_positions c)"
    and "encoder_positions c ! (unat e * 2 + (if cw then 0 else 1)) = (e, cw)"
    and "enc_off c l e cw = enc_off c l 0 True + 2 * (unat e * 2 + (if cw then 0 else 1))"
proof -
  note b = encoder_on_boardD [OF assms]
  show i: "unat e * 2 + (if cw then 0 else 1) < length (encoder_positions c)"
    unfolding encoder_positions using b(2) by (cases cw) simp_all
  show "encoder_positions c ! (unat e * 2 + (if cw then 0 else 1)) = (e, cw)"
    using i by (cases cw) (simp_all add: encoder_positions, presburger)
  show "enc_off c l e cw = enc_off c l 0 True + 2 * (unat e * 2 + (if cw then 0 else 1))"
    by (cases cw) (simp_all add: enc_off_def)
qed

lemma block_room:
  assumes "0 < length xs" and "\<And>i. i < length xs \<Longrightarrow> a + 2 * i + 2 \<le> b"
  shows "a + 2 * length xs \<le> b"
  using assms(2) [of "length xs - 1"] assms(1) by simp

lemma layer_block_room:
  assumes "dk_ok c n" and "unat l < DYNAMIC_KEYMAP_LAYER_COUNT c"
  shows "key_off c l 0 0 + 2 * length (positions c) \<le> DYNAMIC_KEYMAP_ENCODER_EEPROM_ADDR c"
proof (rule block_room)
  show "0 < length (positions c)" using dk_okD(11,12) [OF assms(1)] by (simp add: positions)
  fix i assume i: "i < length (positions c)"
  obtain r k where "positions c ! i = (r, k)" by (cases "positions c ! i")
  then show "key_off c l 0 0 + 2 * i + 2 \<le> DYNAMIC_KEYMAP_ENCODER_EEPROM_ADDR c"
    using position_on_board [OF assms i] key_off_bounds(2) [OF assms(1), of l r k] by simp
qed

lemma encoder_block_room:
  assumes "dk_ok c n" and "unat l < DYNAMIC_KEYMAP_LAYER_COUNT c"
  shows "enc_off c l 0 True + 2 * length (encoder_positions c) \<le> DYNAMIC_KEYMAP_MACRO_EEPROM_ADDR c \<or> encoder_positions c = []"
proof (cases "encoder_positions c = []")
  case False
  have "enc_off c l 0 True + 2 * length (encoder_positions c) \<le> DYNAMIC_KEYMAP_MACRO_EEPROM_ADDR c"
  proof (rule block_room)
    show "0 < length (encoder_positions c)" using False by simp
    fix i assume i: "i < length (encoder_positions c)"
    obtain e cw where "encoder_positions c ! i = (e, cw)" by (cases "encoder_positions c ! i")
    then show "enc_off c l 0 True + 2 * i + 2 \<le> DYNAMIC_KEYMAP_MACRO_EEPROM_ADDR c"
      using encoder_position_on_board [OF assms i] enc_off_bounds(2) [OF assms(1), of l e cw] by simp
  qed
  then show ?thesis ..
qed simp

lemma radix_apart:
  fixes a b n x :: nat
  assumes "a \<noteq> b" and "x < n"
  shows "a * n + x < b * n \<or> b * n + n \<le> a * n + x"
proof (cases "a < b")
  case True
  then have "Suc a * n \<le> b * n" by (intro mult_le_mono1) simp
  then show ?thesis using assms(2) by simp
next
  case False
  then have "Suc b * n \<le> a * n" using assms(1) by (intro mult_le_mono1) simp
  then show ?thesis by simp
qed

text \<open>Words of other layers lie outside the block of a layer.\<close>

lemma other_layer_apart:
  assumes "on_board c l' r k" and "l' \<noteq> l"
  shows "key_off c l' r k + 2 \<le> key_off c l 0 0 \<or> key_off c l 0 0 + 2 * length (positions c) \<le> key_off c l' r k"
proof -
  let ?n = "MATRIX_ROWS (board c) * MATRIX_COLS (board c)"
  have x: "unat r * MATRIX_COLS (board c) + unat k < ?n" by (rule mixed_radix_less [OF on_boardD(2,3) [OF assms(1)]])
  have "unat l' \<noteq> unat l" using assms(2) by (simp add: word_unat_eq_iff)
  from radix_apart [OF this x] show ?thesis
    by (auto simp: key_off_def positions add_mult_distrib mult.assoc)
qed

lemma other_layer_encoder_apart:
  assumes "encoder_on_board c l' e" and "l' \<noteq> l"
  shows "enc_off c l' e cw + 2 \<le> enc_off c l 0 True \<or> enc_off c l 0 True + 2 * length (encoder_positions c) \<le> enc_off c l' e cw"
proof -
  let ?n = "NUM_ENCODERS (board c) * 2"
  have x: "unat e * 2 + (if cw then 0 else 1) < ?n"
    using encoder_on_boardD(2) [OF assms(1)] by (cases cw) simp_all
  have "unat l' \<noteq> unat l" using assms(2) by (simp add: word_unat_eq_iff)
  from radix_apart [OF this x] show ?thesis
    by (cases cw) (auto simp: enc_off_def encoder_positions add_mult_distrib mult.assoc)
qed

definition set_layer_keys :: "dk_cfg \<Rightarrow> (u8 \<Rightarrow> u8 \<Rightarrow> u8 \<Rightarrow> u16) \<Rightarrow> u8 \<Rightarrow> dk_spec \<Rightarrow> dk_spec" where
  "set_layer_keys c raw l v =
     v\<lparr>spec_keys := \<lambda>(l', r, k). if l' = l \<and> on_board c l r k then raw l r k else spec_keys v (l', r, k)\<rparr>"

definition set_layer_encoders :: "dk_cfg \<Rightarrow> (u8 \<Rightarrow> u8 \<Rightarrow> bool \<Rightarrow> u16) \<Rightarrow> u8 \<Rightarrow> dk_spec \<Rightarrow> dk_spec" where
  "set_layer_encoders c raw l v =
     v\<lparr>spec_encoders := \<lambda>(l', e, cw). if l' = l \<and> encoder_on_board c l e then raw l e cw else spec_encoders v (l', e, cw)\<rparr>"

lemma view_layer_block:
  assumes "dk_ok c n" and "length m = n" and "unat l < DYNAMIC_KEYMAP_LAYER_COUNT c"
  shows "view c (mem_put (key_off c l 0 0) (concat (map big_endian (map (\<lambda>(r, k). raw l r k) (positions c)))) m)
    = set_layer_keys c raw l (view c m)"
proof -
  let ?kcs = "map (\<lambda>(r, k). raw l r k) (positions c)"
  let ?m = "mem_put (key_off c l 0 0) (concat (map big_endian ?kcs)) m"
  note room = layer_block_room [OF assms(1,3)] dk_okD(3,5,6) [OF assms(1)]
  have fit: "key_off c l 0 0 + 2 * length ?kcs \<le> length m" using room assms(2) by simp
  have ke: "DYNAMIC_KEYMAP_ENCODER_EEPROM_ADDR c \<le> DYNAMIC_KEYMAP_MACRO_EEPROM_ADDR c"
    using dk_okD(2) [OF assms(1)] by linarith
  have "word_at ?m (key_off c l' r k) = (if l' = l then raw l r k else word_at m (key_off c l' r k))" if b: "on_board c l' r k" for l' r k
  proof (cases "l' = l")
    case True
    note P = on_board_position [OF b [unfolded True]]
    show ?thesis using word_at_words(1) [OF fit, of 0 "unat r * MATRIX_COLS (board c) + unat k"] P True fit by simp
  next
    case False
    have "key_off c l' r k + 2 \<le> length m" using key_off_bounds(2) [OF assms(1) b] room assms(2) by linarith
    from word_at_words(2) [OF fit this] show ?thesis using other_layer_apart [OF b False] False by simp
  qed
  moreover have "word_at ?m (enc_off c l' e cw) = word_at m (enc_off c l' e cw)" if b: "encoder_on_board c l' e" for l' e cw
  proof -
    have "enc_off c l' e cw + 2 \<le> length m" using enc_off_bounds(2) [OF assms(1) b, of cw] room assms(2) by linarith
    from word_at_words(2) [OF fit this] show ?thesis using room enc_off_bounds(1) [OF assms(1) b, of cw] by simp
  qed
  moreover have "mem_get (DYNAMIC_KEYMAP_MACRO_EEPROM_ADDR c) (DYNAMIC_KEYMAP_MACRO_EEPROM_SIZE c) ?m
      = mem_get (DYNAMIC_KEYMAP_MACRO_EEPROM_ADDR c) (DYNAMIC_KEYMAP_MACRO_EEPROM_SIZE c) m"
    using room ke fit assms(2) by (intro mem_get_apart) (simp_all del: map_map)
  ultimately show ?thesis
    by (auto simp: view_def set_layer_keys_def fun_eq_iff)
qed

lemma view_encoder_block:
  assumes "dk_ok c n" and "length m = n" and "unat l < DYNAMIC_KEYMAP_LAYER_COUNT c" and "encoder_positions c \<noteq> []"
  shows "view c (mem_put (enc_off c l 0 True) (concat (map big_endian (map (\<lambda>(e, cw). raw l e cw) (encoder_positions c)))) m)
    = set_layer_encoders c raw l (view c m)"
proof -
  let ?kcs = "map (\<lambda>(e, cw). raw l e cw) (encoder_positions c)"
  let ?m = "mem_put (enc_off c l 0 True) (concat (map big_endian ?kcs)) m"
  have room: "enc_off c l 0 True + 2 * length (encoder_positions c) \<le> DYNAMIC_KEYMAP_MACRO_EEPROM_ADDR c"
    using encoder_block_room [OF assms(1,3)] assms(4) by blast
  note D = dk_okD(3,5,6) [OF assms(1)]
  have fit: "enc_off c l 0 True + 2 * length ?kcs \<le> length m" using room D assms(2) by simp
  have "word_at ?m (enc_off c l' e cw) = (if l' = l then raw l e cw else word_at m (enc_off c l' e cw))" if b: "encoder_on_board c l' e" for l' e cw
  proof (cases "l' = l")
    case True
    note P = encoder_on_board_position [OF b [unfolded True], of cw]
    show ?thesis using word_at_words(1) [OF fit, of 0 "unat e * 2 + (if cw then 0 else 1)"] P True fit by simp
  next
    case False
    have "enc_off c l' e cw + 2 \<le> length m" using enc_off_bounds(2) [OF assms(1) b, of cw] D assms(2) by linarith
    from word_at_words(2) [OF fit this] show ?thesis using other_layer_encoder_apart [OF b False, of cw] False by simp
  qed
  moreover have "word_at ?m (key_off c l' r k) = word_at m (key_off c l' r k)" if b: "on_board c l' r k" for l' r k
  proof -
    have "key_off c l' r k + 2 \<le> length m" using key_off_bounds(2) [OF assms(1) b] D assms(2) by linarith
    from word_at_words(2) [OF fit this] show ?thesis using key_off_bounds(2) [OF assms(1) b] by (simp add: enc_off_def)
  qed
  moreover have "mem_get (DYNAMIC_KEYMAP_MACRO_EEPROM_ADDR c) (DYNAMIC_KEYMAP_MACRO_EEPROM_SIZE c) ?m
      = mem_get (DYNAMIC_KEYMAP_MACRO_EEPROM_ADDR c) (DYNAMIC_KEYMAP_MACRO_EEPROM_SIZE c) m"
    using room D fit assms(2) by (intro mem_get_apart) (simp_all del: map_map)
  ultimately show ?thesis
    by (auto simp: view_def set_layer_encoders_def fun_eq_iff)
qed

context eeprom_store
begin

text \<open>\<open>writes s a bs s'\<close>: the state changed by bytes written at an address.\<close>

definition writes :: "'e dyn_keymap \<Rightarrow> nat \<Rightarrow> u8 list \<Rightarrow> 'e \<Rightarrow> bool" where
  "writes s a bs e \<longleftrightarrow> inv e \<and> contents e = mem_put a bs (contents (eeprom s))"

lemma big_endian_store:
  assumes "inv e" and "Suc a < size_of" and "unat (of_nat a :: u32) = a" and "unat (of_nat a + 1 :: u32) = Suc a"
  shows "read_big_endian ee (of_nat a) e = Some (word_at (contents e) a)"
    and "\<exists>e'. update_big_endian ee (of_nat a) kc e = Some e' \<and> inv e' \<and> contents e' = mem_put a (big_endian kc) (contents e)"
proof -
  show "read_big_endian ee (of_nat a) e = Some (word_at (contents e) a)"
    using assms read_byte [OF assms(1), of "of_nat a"] read_byte [OF assms(1), of "of_nat a + 1"]
    by (simp add: read_big_endian_def word_at_def)
  obtain e1 where e1: "eeprom_update_byte ee (of_nat a) (ucast (drop_bit 8 kc)) e = Some e1" "inv e1"
    "contents e1 = (contents e)[a := ucast (drop_bit 8 kc)]"
    using update_byte [OF assms(1), of "of_nat a" "ucast (drop_bit 8 kc)"] assms(2,3) by auto
  have lo: "(ucast (kc AND 0xFF) :: u8) = ucast kc"
    unfolding masks by (rule bit_word_eqI) (auto simp: bit_simps)
  obtain e2 where e2: "eeprom_update_byte ee (of_nat a + 1) (ucast kc) e1 = Some e2" "inv e2"
    "contents e2 = (contents e1)[Suc a := ucast kc]"
    using update_byte [OF e1(2), of "of_nat a + 1" "ucast kc"] assms(2,4) by auto
  show "\<exists>e'. update_big_endian ee (of_nat a) kc e = Some e' \<and> inv e' \<and> contents e' = mem_put a (big_endian kc) (contents e)"
    using e1 e2 lo assms(2) contents_size [OF assms(1)]
    by (simp add: update_big_endian_def bytes_put_big_endian)
qed

lemma swapped_store:
  assumes "inv e" and "Suc a < size_of" and "unat (of_nat a :: u32) = a"
  shows "map_option bswap16 (eeprom_read_word ee (of_nat a) e) = Some (word_at (contents e) a)"
    and "\<exists>e'. eeprom_update_word ee (of_nat a) (bswap16 kc) e = Some e' \<and> inv e' \<and> contents e' = mem_put a (big_endian kc) (contents e)"
proof -
  have "mem_get a 2 (contents e) = [contents e ! a, contents e ! Suc a]"
    using assms(2) contents_size [OF assms(1)]
    by (intro nth_equalityI) (auto simp: mem_get_nth length_simps nth_Cons split: nat.split)
  then show "map_option bswap16 (eeprom_read_word ee (of_nat a) e) = Some (word_at (contents e) a)"
    using read_scalar [OF assms(1), of "of_nat a" 2] assms(2,3) by (simp add: eeprom_read_word_def swapped_bytes del: bytes_scalar.simps)
  show "\<exists>e'. eeprom_update_word ee (of_nat a) (bswap16 kc) e = Some e' \<and> inv e' \<and> contents e' = mem_put a (big_endian kc) (contents e)"
    using update_word [OF assms(1), of "of_nat a" "bswap16 kc"] assms(2,3) by (auto simp: swapped_bytes)
qed

lemma get_keycode:
  assumes "dk_ok c size_of" and "inv (eeprom s)"
  shows "dynamic_keymap_get_keycode c ee l r k s =
    Some (if on_board c l r k then word_at (contents (eeprom s)) (key_off c l r k) else 0)"
proof (cases "on_board c l r k")
  case True
  note A = key_address [OF assms(1) True]
  have b: "Suc (key_off c l r k) < size_of" using key_off_bounds [OF assms(1) True] dk_okD(5) [OF assms(1)] by linarith
  show ?thesis
    using big_endian_store(1) [OF assms(2) b A(2,3)] swapped_store(1) [OF assms(2) b A(2)] True
    by (simp add: dynamic_keymap_get_keycode_def A(1) Let_def)
qed (simp add: dynamic_keymap_get_keycode_def)

lemma get_encoder:
  assumes "dk_ok c size_of" and "inv (eeprom s)"
  shows "dynamic_keymap_get_encoder c ee l i cw s =
    Some (if encoder_on_board c l i then word_at (contents (eeprom s)) (enc_off c l i cw) else 0)"
proof (cases "encoder_on_board c l i")
  case True
  note A = enc_address [OF assms(1) True, of cw]
  have b: "Suc (enc_off c l i cw) < size_of" using enc_off_bounds [OF assms(1) True, of cw] dk_okD(6) [OF assms(1)] by linarith
  show ?thesis
    using big_endian_store(1) [OF assms(2) b A(2,3)] True by (simp add: dynamic_keymap_get_encoder_def A(1))
qed (simp add: dynamic_keymap_get_encoder_def)

lemma set_encoder:
  assumes "dk_ok c size_of" and "inv (eeprom s)" and "encoder_on_board c l i"
  shows "\<exists>e. dynamic_keymap_set_encoder c ee l i cw kc s = Some (s\<lparr>eeprom := e\<rparr>)
    \<and> writes s (enc_off c l i cw) (big_endian kc) e"
proof -
  note A = enc_address [OF assms(1,3), of cw]
  have b: "Suc (enc_off c l i cw) < size_of" using enc_off_bounds [OF assms(1,3), of cw] dk_okD(6) [OF assms(1)] by linarith
  show ?thesis
    using big_endian_store(2) [OF assms(2) b A(2,3), of kc] assms(3)
    by (auto simp: dynamic_keymap_set_encoder_def A(1) writes_def)
qed

lemma set_keycode:
  assumes "dk_ok c size_of" and "inv (eeprom s)" and "on_board c l r k"
  shows "\<exists>e. dynamic_keymap_set_keycode c ee l r k kc s =
      Some ((if KEYCODE_BUFFER_ENABLE c \<and> l = layer_buffer s \<and> r = row_buffer s \<and> k = col_buffer s
             then forget_buffer s else s)\<lparr>eeprom := e\<rparr>)
    \<and> writes s (key_off c l r k) (big_endian kc) e"
proof -
  note A = key_address [OF assms(1,3)]
  have b: "Suc (key_off c l r k) < size_of" using key_off_bounds [OF assms(1,3)] dk_okD(5) [OF assms(1)] by linarith
  have f: "eeprom (forget_buffer s) = eeprom s" by (simp add: forget_buffer_def)
  show ?thesis
    using big_endian_store(2) [OF assms(2) b A(2,3), of kc] swapped_store(2) [OF assms(2) b A(2), of kc] assms(3)
    by (auto simp: dynamic_keymap_set_keycode_def A(1) writes_def Let_def f)
qed

lemma writes_eeprom [simp]: "writes (s\<lparr>eeprom := e\<rparr>) a bs e' \<longleftrightarrow> inv e' \<and> contents e' = mem_put a bs (contents e)"
  by (simp add: writes_def)

lemma each_words:
  assumes "\<And>x s. x \<in> set xs \<Longrightarrow> inv (eeprom s) \<Longrightarrow>
      \<exists>e. f x s = Some (s\<lparr>eeprom := e\<rparr>) \<and> writes s (off x) (big_endian (v x)) e"
    and "\<And>i. i < length xs \<Longrightarrow> off (xs ! i) = a + 2 * i"
    and "inv (eeprom s)" and "a + 2 * length xs \<le> size_of"
  shows "\<exists>e. each f xs s = Some (s\<lparr>eeprom := e\<rparr>) \<and> writes s a (concat (map big_endian (map v xs))) e"
  using assms
proof (induction xs arbitrary: a s)
  case Nil
  then show ?case by (auto simp: writes_def mem_put_Nil intro!: exI [of _ "eeprom s"])
next
  case (Cons x xs)
  have o: "off x = a" using Cons.prems(2) [of 0] by simp
  obtain e1 where e1: "f x s = Some (s\<lparr>eeprom := e1\<rparr>)" "inv e1" "contents e1 = mem_put a (big_endian (v x)) (contents (eeprom s))"
    using Cons.prems(1) [of x s] Cons.prems(3) o by (auto simp: writes_def)
  have off: "off (xs ! i) = (a + 2) + 2 * i" if "i < length xs" for i
    using Cons.prems(2) [of "Suc i"] that by simp
  have room: "a + 2 + 2 * length xs \<le> size_of" using Cons.prems(4) by simp
  obtain e2 where e2: "each f xs (s\<lparr>eeprom := e1\<rparr>) = Some (s\<lparr>eeprom := e2\<rparr>)"
    "inv e2" "contents e2 = mem_put (a + 2) (concat (map big_endian (map v xs))) (contents e1)"
    using Cons.IH [OF Cons.prems(1) off _ room, of "s\<lparr>eeprom := e1\<rparr>"] e1(2) by auto
  have l: "a + 2 + length (concat (map big_endian (map v xs))) \<le> length (contents (eeprom s))"
    unfolding length_words using room contents_size [OF Cons.prems(3)] by simp
  show ?case
    using e1(1) e2 mem_put_Cons_block [OF l, of "v x"] by (auto simp: writes_def e1(3) intro!: exI [of _ e2])
qed

lemma region_get:
  assumes "inv e" and "start + len \<le> size_of" and "size_of \<le> 2 ^ 16"
  shows "region_get ee start len off n e = Some (window off n (mem_get start len (contents e)))"
proof (induction n arbitrary: off)
  case (Suc n)
  have b: "(if off < len then eeprom_read_byte ee (of_nat (start + off)) e else Some 0)
      = Some (if off < len then mem_get start len (contents e) ! off else 0)"
  proof (cases "off < len")
    case True
    have "unat (of_nat (start + off) :: u32) = start + off" by (rule unat_addr) (use True assms(2,3) in simp)
    then show ?thesis using True read_byte [OF assms(1), of "of_nat (start + off)"] assms(2) contents_size [OF assms(1)]
      by (simp add: mem_get_nth)
  qed simp
  have l: "length (mem_get start len (contents e)) = len" using assms(2) contents_size [OF assms(1)] by (simp add: length_simps)
  show ?case unfolding region_get.simps b using Suc.IH [of "Suc off"] l
    by (simp add: window_def upt_conv_Cons map_Suc_upt [symmetric] del: upt_Suc)
qed (simp add: window_def)

lemma region_set:
  assumes "inv e" and "start + len \<le> size_of" and "size_of \<le> 2 ^ 16"
  shows "\<exists>e'. region_set ee start len off data e = Some e' \<and> inv e'
    \<and> contents e' = mem_put start (overlay off data (mem_get start len (contents e))) (contents e)"
proof -
  have "\<exists>e'. region_set ee start len off data e = Some e' \<and> inv e' \<and> (\<forall>i < size_of. contents e' ! i =
      (if start + off \<le> i \<and> i < start + off + length data \<and> i < start + len then data ! (i - (start + off)) else contents e ! i))"
    using assms(1)
  proof (induction data arbitrary: off e)
    case (Cons b bs)
    obtain e1 where e1: "(if off < len then eeprom_update_byte ee (of_nat (start + off)) b e else Some e) = Some e1" "inv e1"
      "contents e1 = (if off < len then (contents e)[start + off := b] else contents e)"
    proof (cases "off < len")
      case True
      have u: "unat (of_nat (start + off) :: u32) = start + off" by (rule unat_addr) (use True assms(2,3) in simp)
      then show ?thesis using update_byte [OF Cons.prems, of "of_nat (start + off)" b] True assms(2) that by auto
    qed (use Cons.prems that in auto)
    obtain e2 where e2: "region_set ee start len (Suc off) bs e1 = Some e2" "inv e2"
      "\<forall>i < size_of. contents e2 ! i = (if start + Suc off \<le> i \<and> i < start + Suc off + length bs \<and> i < start + len
        then bs ! (i - (start + Suc off)) else contents e1 ! i)"
      using Cons.IH [OF e1(2), of "Suc off"] by blast
    have "contents e2 ! i = (if start + off \<le> i \<and> i < start + off + length (b # bs) \<and> i < start + len
        then (b # bs) ! (i - (start + off)) else contents e ! i)" if "i < size_of" for i
    proof (cases "i = start + off")
      case True
      then show ?thesis using e2(3) that e1(3) contents_size [OF Cons.prems] by simp
    next
      case False
      moreover have "i - (start + off) = Suc (i - (start + Suc off))" if "start + Suc off \<le> i" using that by simp
      ultimately show ?thesis using e2(3) that e1(3) by (auto simp: nth_list_update)
    qed
    then show ?case using e1(1) e2(1,2) by auto
  qed auto
  then obtain e' where e': "region_set ee start len off data e = Some e'" "inv e'"
    "\<forall>i < size_of. contents e' ! i =
      (if start + off \<le> i \<and> i < start + off + length data \<and> i < start + len then data ! (i - (start + off)) else contents e ! i)"
    by blast
  have "contents e' = mem_put start (overlay off data (mem_get start len (contents e))) (contents e)"
    using e'(3) assms(2) contents_size [OF e'(2)] contents_size [OF assms(1)] by (intro overlay_whole) auto
  then show ?thesis using e' by blast
qed

lemma region_clear:
  assumes "inv e" and "start + n \<le> size_of" and "size_of \<le> 2 ^ 16"
  shows "\<exists>e'. each (\<lambda>i. eeprom_update_byte ee (of_nat (start + i)) 0) [0..<n] e = Some e' \<and> inv e'
    \<and> contents e' = mem_put start (replicate n 0) (contents e)"
proof -
  let ?P = "\<lambda>j e'. inv e' \<and> (\<forall>i < size_of. contents e' ! i = (if start \<le> i \<and> i < start + j then 0 else contents e ! i))"
  have "\<exists>e'. each (\<lambda>i. eeprom_update_byte ee (of_nat (start + i)) 0) [0..<n] e = Some e' \<and> ?P n e'"
  proof (rule each_upt)
    show "?P 0 e" using assms(1) by auto
    fix j t assume j: "j < n" and t: "?P j t"
    have u: "unat (of_nat (start + j) :: u32) = start + j" by (rule unat_addr) (use j assms(2,3) in simp)
    obtain t' where "eeprom_update_byte ee (of_nat (start + j)) 0 t = Some t'" "inv t'" "contents t' = (contents t)[start + j := 0]"
      using update_byte [of t "of_nat (start + j)" 0] t u j assms(2) by auto
    then show "\<exists>t'. eeprom_update_byte ee (of_nat (start + j)) 0 t = Some t' \<and> ?P (Suc j) t'"
      using t contents_size [of t] j assms(2) by (auto simp: nth_list_update)
  qed
  then obtain e' where e': "each (\<lambda>i. eeprom_update_byte ee (of_nat (start + i)) 0) [0..<n] e = Some e'" "?P n e'" by blast
  have "contents e' = mem_put start (replicate n 0) (contents e)"
    using e'(2) contents_size [of e'] contents_size [OF assms(1)] assms(2)
    by (intro nth_equalityI) (auto simp: length_simps mem_put_nth)
  then show ?thesis using e' by blast
qed

end

end
