(* ===== verification/DynKeymapRefine.thy ===== *)
theory DynKeymapRefine
  imports DynKeymapProps
begin

text \<open>
  Any sequence of operations on the keymap in EEPROM behaves like a keymap kept as functions, in
  both builds. The exception is the bulk write of \<open>dynamic_keymap_set_buffer\<close> in the build with a keycode
  buffer, which does not know of it and breaks it. Sending a macro is treated in DynMacros.
\<close>

section \<open>Operations and their specification\<close>

datatype dk_op =
    Set_keycode u8 u8 u8 u16 | Set_encoder u8 u8 bool u16 | Lookup u8 u8 u8 | Lookup_encoder u8 u8 bool
  | Keymap_reset | Keymap_read u16 u16 | Keymap_write u16 "u8 list" | Macro_read u16 u16 | Macro_write u16 "u8 list" | Macro_reset

datatype dk_out = Done | Keycode u16 | Bytes "u8 list"

record dk_flash =
  flash_keys :: "u8 \<Rightarrow> u8 \<Rightarrow> u8 \<Rightarrow> u16"
  flash_encoders :: "u8 \<Rightarrow> u8 \<Rightarrow> bool \<Rightarrow> u16"

text \<open>An operation and its result.\<close>

fun dk_step :: "dk_cfg \<Rightarrow> 'e eeprom_driver \<Rightarrow> dk_flash \<Rightarrow> dk_op \<Rightarrow> 'e dyn_keymap \<Rightarrow> (dk_out \<times> 'e dyn_keymap) option" where
  "dk_step c ee f (Set_keycode l r k kc) s = map_option (Pair Done) (dynamic_keymap_set_keycode c ee l r k kc s)"
| "dk_step c ee f (Set_encoder l i cw kc) s = map_option (Pair Done) (dynamic_keymap_set_encoder c ee l i cw kc s)"
| "dk_step c ee f (Lookup l r k) s = map_option (\<lambda>(kc, s). (Keycode kc, s)) (keycode_at_keymap_location c ee l r k s)"
| "dk_step c ee f (Lookup_encoder l i cw) s = map_option (\<lambda>kc. (Keycode kc, s)) (keycode_at_encodermap_location c ee l i cw s)"
| "dk_step c ee f Keymap_reset s = map_option (Pair Done) (dynamic_keymap_reset c ee (flash_keys f) (flash_encoders f) s)"
| "dk_step c ee f (Keymap_read offset n) s = map_option (\<lambda>bs. (Bytes bs, s)) (dynamic_keymap_get_buffer c ee offset n s)"
| "dk_step c ee f (Keymap_write offset data) s = map_option (Pair Done) (dynamic_keymap_set_buffer c ee offset data s)"
| "dk_step c ee f (Macro_read offset n) s = map_option (\<lambda>bs. (Bytes bs, s)) (dynamic_keymap_macro_get_buffer c ee offset n s)"
| "dk_step c ee f (Macro_write offset data) s = map_option (Pair Done) (dynamic_keymap_macro_set_buffer c ee offset data s)"
| "dk_step c ee f Macro_reset s = map_option (Pair Done) (dynamic_keymap_macro_reset c ee s)"

text \<open>The keycodes as the bytes the host sees: layer by layer, row by row, the high byte first.\<close>

definition key_image :: "dk_cfg \<Rightarrow> (u8 \<times> u8 \<times> u8 \<Rightarrow> u16) \<Rightarrow> u8 list" where
  "key_image c keys = concat (map (\<lambda>i. big_endian (keys (key_at c i))) [0..<key_count c])"

definition keys_of_image :: "dk_cfg \<Rightarrow> u8 list \<Rightarrow> u8 \<times> u8 \<times> u8 \<Rightarrow> u16" where
  "keys_of_image c bs = (\<lambda>(l, r, k). if on_board c l r k
     then word_at bs (2 * ((unat l * MATRIX_ROWS (board c) + unat r) * MATRIX_COLS (board c) + unat k)) else 0)"

fun spec_step :: "dk_cfg \<Rightarrow> dk_flash \<Rightarrow> dk_op \<Rightarrow> dk_spec \<Rightarrow> dk_out \<times> dk_spec" where
  "spec_step c f (Set_keycode l r k kc) v =
     (Done, if on_board c l r k then v\<lparr>spec_keys := (spec_keys v)((l, r, k) := kc)\<rparr> else v)"
| "spec_step c f (Set_encoder l i cw kc) v =
     (Done, if encoder_on_board c l i then v\<lparr>spec_encoders := (spec_encoders v)((l, i, cw) := kc)\<rparr> else v)"
| "spec_step c f (Lookup l r k) v = (Keycode (spec_keys v (l, r, k)), v)"
| "spec_step c f (Lookup_encoder l i cw) v = (Keycode (spec_encoders v (l, i, cw)), v)"
| "spec_step c f Keymap_reset v =
     (Done, v\<lparr>spec_keys := \<lambda>(l, r, k). if on_board c l r k then flash_keys f l r k else 0,
           spec_encoders := if ENCODER_MAP_ENABLE (board c)
             then \<lambda>(l, i, cw). if encoder_on_board c l i then flash_encoders f l i cw else 0 else spec_encoders v\<rparr>)"
| "spec_step c f (Keymap_read offset n) v = (Bytes (window (unat offset) (unat n) (key_image c (spec_keys v))), v)"
| "spec_step c f (Keymap_write offset data) v =
     (Done, v\<lparr>spec_keys := keys_of_image c (overlay (unat offset) data (key_image c (spec_keys v)))\<rparr>)"
| "spec_step c f (Macro_read offset n) v = (Bytes (window (unat offset) (unat n) (spec_macros v)), v)"
| "spec_step c f (Macro_write offset data) v = (Done, v\<lparr>spec_macros := overlay (unat offset) data (spec_macros v)\<rparr>)"
| "spec_step c f Macro_reset v = (Done, v\<lparr>spec_macros := replicate (length (spec_macros v)) 0\<rparr>)"

fun buffer_safe :: "dk_cfg \<Rightarrow> dk_op \<Rightarrow> bool" where
  "buffer_safe c (Keymap_write offset data) = (\<not> KEYCODE_BUFFER_ENABLE c)"
| "buffer_safe c _ = True"

fun dk_run :: "dk_cfg \<Rightarrow> 'e eeprom_driver \<Rightarrow> dk_flash \<Rightarrow> dk_op list \<Rightarrow> 'e dyn_keymap \<Rightarrow> (dk_out list \<times> 'e dyn_keymap) option" where
  "dk_run c ee f [] s = Some ([], s)"
| "dk_run c ee f (x # xs) s = do {
     (o1, s) \<leftarrow> dk_step c ee f x s;
     (os, s) \<leftarrow> dk_run c ee f xs s;
     Some (o1 # os, s)
   }"

fun spec_run :: "dk_cfg \<Rightarrow> dk_flash \<Rightarrow> dk_op list \<Rightarrow> dk_spec \<Rightarrow> dk_out list \<times> dk_spec" where
  "spec_run c f [] v = ([], v)"
| "spec_run c f (x # xs) v =
     (case spec_step c f x v of (o1, v) \<Rightarrow> case spec_run c f xs v of (os, v) \<Rightarrow> (o1 # os, v))"

text \<open>The cached keycode is the one in the EEPROM.\<close>

definition dk_inv :: "dk_cfg \<Rightarrow> ('e \<Rightarrow> bool) \<Rightarrow> ('e \<Rightarrow> u8 list) \<Rightarrow> 'e dyn_keymap \<Rightarrow> bool" where
  "dk_inv c ok mem s \<longleftrightarrow> ok (eeprom s)
     \<and> (KEYCODE_BUFFER_ENABLE c \<and> on_board c (layer_buffer s) (row_buffer s) (col_buffer s) \<longrightarrow>
        keycode_buffer s = spec_keys (view c (mem (eeprom s))) (layer_buffer s, row_buffer s, col_buffer s))"

lemma not_on_board_buffer: "dk_ok c n \<Longrightarrow> \<not> on_board c 0xFF r k"
  using dk_okD(7) [of c n] by (simp add: on_board_def)

section \<open>The keycodes as bytes\<close>

lemma key_region:
  assumes "dk_ok c n"
  shows "DYNAMIC_KEYMAP_EEPROM_ADDR c + 2 * key_count c \<le> n" and "unat (dynamic_keymap_eeprom_size c) = 2 * key_count c"
    and "DYNAMIC_KEYMAP_EEPROM_ADDR c + 2 * key_count c \<le> DYNAMIC_KEYMAP_ENCODER_EEPROM_ADDR c"
proof -
  show r: "DYNAMIC_KEYMAP_EEPROM_ADDR c + 2 * key_count c \<le> DYNAMIC_KEYMAP_ENCODER_EEPROM_ADDR c"
    using dk_okD(1) [OF assms] by (simp add: key_count_def)
  then show "DYNAMIC_KEYMAP_EEPROM_ADDR c + 2 * key_count c \<le> n" using dk_okD(5) [OF assms] by linarith
  have "2 * key_count c < 2 ^ 16" using r dk_okD(2,3,4,13) [OF assms] by linarith
  moreover have "dynamic_keymap_eeprom_size c = of_nat (2 * key_count c)"
    unfolding dynamic_keymap_eeprom_size_def key_count_def by (rule arg_cong [of _ _ of_nat]) simp
  ultimately show "unat (dynamic_keymap_eeprom_size c) = 2 * key_count c" by (simp add: of_nat_inverse)
qed

lemma length_key_image: "length (key_image c keys) = 2 * key_count c"
proof -
  have "key_image c keys = concat (map big_endian (map (\<lambda>i. keys (key_at c i)) [0..<key_count c]))" by (simp add: key_image_def comp_def)
  then show ?thesis by (simp only: length_words length_map length_upt)
qed

lemma key_image_view:
  assumes "dk_ok c n" and "length m = n"
  shows "key_image c (spec_keys (view c m)) = mem_get (DYNAMIC_KEYMAP_EEPROM_ADDR c) (2 * key_count c) m"
proof -
  have key: "spec_keys (view c m) (key_at c i) = word_at m (DYNAMIC_KEYMAP_EEPROM_ADDR c + 2 * i)" if "i < key_count c" for i
    using key_at [OF assms(1) that] by (auto simp: view_def split: prod.splits)
  have "key_image c (spec_keys (view c m)) = concat (map (\<lambda>i. big_endian (word_at m (DYNAMIC_KEYMAP_EEPROM_ADDR c + 2 * i))) [0..<key_count c])"
    unfolding key_image_def using key by (intro arg_cong [where f = concat] map_cong) simp_all
  also have "\<dots> = mem_get (DYNAMIC_KEYMAP_EEPROM_ADDR c) (2 * key_count c) m"
    using key_region(1) [OF assms(1)] assms(2) by (intro words_of_bytes) simp
  finally show ?thesis .
qed

lemma view_put_keys:
  assumes "dk_ok c n" and "length m = n" and "length bs = 2 * key_count c"
  shows "view c (mem_put (DYNAMIC_KEYMAP_EEPROM_ADDR c) bs m) = (view c m)\<lparr>spec_keys := keys_of_image c bs\<rparr>"
proof -
  let ?a = "DYNAMIC_KEYMAP_EEPROM_ADDR c"
  let ?m = "mem_put ?a bs m"
  note R = key_region [OF assms(1)] and D = dk_okD(5,6,3,2) [OF assms(1)]
  have room: "?a + length bs \<le> length m" using R(1) assms(2,3) by simp
  have nth: "?m ! j = (if ?a \<le> j \<and> j < ?a + length bs then bs ! (j - ?a) else m ! j)" if "j < n" for j
    using room that assms(2) by (simp add: mem_put_nth)
  have "word_at ?m (key_off c l r k) = word_at bs (2 * ((unat l * MATRIX_ROWS (board c) + unat r) * MATRIX_COLS (board c) + unat k))"
    if b: "on_board c l r k" for l r k
  proof -
    define x where "x = (unat l * MATRIX_ROWS (board c) + unat r) * MATRIX_COLS (board c) + unat k"
    have "x < key_count c" unfolding x_def key_count_def by (intro mixed_radix_less on_boardD [OF b])
    moreover have "key_off c l r k = ?a + 2 * x" by (simp add: key_off_def x_def)
    ultimately show ?thesis using nth [of "?a + 2 * x"] nth [of "Suc (?a + 2 * x)"] R(1) assms(3)
      by (simp add: word_at_def x_def [symmetric])
  qed
  moreover have "word_at ?m (enc_off c l i cw) = word_at m (enc_off c l i cw)" if b: "encoder_on_board c l i" for l i cw
    using enc_off_bounds [OF assms(1) b, of cw] nth [of "enc_off c l i cw"] nth [of "Suc (enc_off c l i cw)"] R(3) D(2) assms(3)
    by (simp add: word_at_def)
  moreover have "mem_get (DYNAMIC_KEYMAP_MACRO_EEPROM_ADDR c) (DYNAMIC_KEYMAP_MACRO_EEPROM_SIZE c) ?m
      = mem_get (DYNAMIC_KEYMAP_MACRO_EEPROM_ADDR c) (DYNAMIC_KEYMAP_MACRO_EEPROM_SIZE c) m"
    using R(3) D assms(2,3) room by (intro mem_get_apart) simp_all
  ultimately show ?thesis by (auto simp: view_def keys_of_image_def fun_eq_iff)
qed

section \<open>Simulation\<close>

context eeprom_store
begin

lemma reset_layer_ok:
  assumes "dk_ok c size_of" and "inv (eeprom s)" and "unat l < DYNAMIC_KEYMAP_LAYER_COUNT c"
  shows "\<exists>e. reset_layer c ee raw l s = Some (s\<lparr>eeprom := e\<rparr>) \<and> inv e
    \<and> view c (contents e) = set_layer_keys c raw l (view c (contents (eeprom s)))"
proof -
  let ?a = "key_off c l 0 0" and ?bs = "concat (map big_endian (map (\<lambda>(r, k). raw l r k) (positions c)))"
  note room = layer_block_room [OF assms(1,3)] dk_okD(4,5) [OF assms(1)]
  have b0: "on_board c l 0 0" using assms(3) dk_okD(11,12) [OF assms(1)] by (simp add: on_board_def)
  note A = key_address [OF assms(1) b0]
  have v: "view c (mem_put ?a ?bs (contents (eeprom s))) = set_layer_keys c raw l (view c (contents (eeprom s)))"
    by (rule view_layer_block [OF assms(1) contents_size [OF assms(2)] assms(3)])
  show ?thesis
  proof (cases "KEYCODE_BUFFER_ENABLE c")
    case True
    have bs: "concat (map (\<lambda>(rw, cl). big_endian (raw l rw cl)) (positions c)) = ?bs"
      by (simp add: case_prod_unfold comp_def)
    have "unat (of_nat ?a :: u32) + length ?bs \<le> size_of" using room A(2) unfolding length_words by simp
    from update_block [OF assms(2) this] show ?thesis
      using True v by (auto simp: reset_layer_def A bs simp del: map_map)
  next
    case False
    let ?f = "\<lambda>(rw, cl). dynamic_keymap_set_keycode c ee l rw cl (raw l rw cl)"
    have "\<exists>e. each ?f (positions c) s = Some (s\<lparr>eeprom := e\<rparr>) \<and> writes s ?a ?bs e"
    proof (rule each_words [where off = "\<lambda>(r, k). key_off c l r k"])
      show "\<exists>e. ?f x t = Some (t\<lparr>eeprom := e\<rparr>) \<and> writes t (case x of (r, k) \<Rightarrow> key_off c l r k) (big_endian (case x of (r, k) \<Rightarrow> raw l r k)) e"
        if x: "x \<in> set (positions c)" and t: "inv (eeprom t)" for x t
      proof -
        obtain r k where rk: "x = (r, k)" by (cases x)
        obtain i where "i < length (positions c)" "positions c ! i = x" using x by (auto simp: in_set_conv_nth)
        then have "on_board c l r k" using position_on_board [OF assms(1,3), of i] rk by simp
        from set_keycode [OF assms(1) t this, of "raw l r k"] show ?thesis using False rk by simp
      qed
      show "(case positions c ! i of (r, k) \<Rightarrow> key_off c l r k) = ?a + 2 * i" if "i < length (positions c)" for i
        using position_on_board [OF assms(1,3) that] by (auto split: prod.splits)
    qed (use assms(2) room in simp_all)
    then show ?thesis using False v by (auto simp: reset_layer_def writes_def simp del: map_map)
  qed
qed

lemma reset_encoders_ok:
  assumes "dk_ok c size_of" and "inv (eeprom s)" and "unat l < DYNAMIC_KEYMAP_LAYER_COUNT c"
  shows "\<exists>e. reset_encoders c ee raw l s = Some (s\<lparr>eeprom := e\<rparr>) \<and> inv e
    \<and> view c (contents e) = (if ENCODER_MAP_ENABLE (board c) then set_layer_encoders c raw l (view c (contents (eeprom s)))
        else view c (contents (eeprom s)))"
proof (cases "ENCODER_MAP_ENABLE (board c)")
  case False
  then show ?thesis using assms(2) by (auto simp: reset_encoders_def intro: exI [of _ "eeprom s"])
next
  case True
  let ?f = "\<lambda>(e, cw). dynamic_keymap_set_encoder c ee l e cw (raw l e cw)"
  have p: "concat (map (\<lambda>i. [(of_nat i, True), (of_nat i, False)]) [0..<NUM_ENCODERS (board c)]) = encoder_positions c"
    by (simp add: encoder_positions_def upt_rec)
  have r: "reset_encoders c ee raw l s = each ?f (encoder_positions c) s"
    using True by (simp add: reset_encoders_def p)
  show ?thesis
  proof (cases "encoder_positions c = []")
    case True
    then have "\<not> encoder_on_board c l' e" for l' e
      using encoder_positions(1) [of c] by (simp add: encoder_on_board_def)
    then have "set_layer_encoders c raw l v = v" for v by (simp add: set_layer_encoders_def)
    then show ?thesis using True r assms(2) by (auto intro: exI [of _ "eeprom s"])
  next
    case ne: False
    let ?bs = "concat (map big_endian (map (\<lambda>(e, cw). raw l e cw) (encoder_positions c)))"
    have "\<exists>e. each ?f (encoder_positions c) s = Some (s\<lparr>eeprom := e\<rparr>) \<and> writes s (enc_off c l 0 True) ?bs e"
    proof (rule each_words [where off = "\<lambda>(e, cw). enc_off c l e cw"])
      show "\<exists>e. ?f x t = Some (t\<lparr>eeprom := e\<rparr>) \<and> writes t (case x of (e, cw) \<Rightarrow> enc_off c l e cw) (big_endian (case x of (e, cw) \<Rightarrow> raw l e cw)) e"
        if x: "x \<in> set (encoder_positions c)" and t: "inv (eeprom t)" for x t
      proof -
        obtain i cw where icw: "x = (i, cw)" by (cases x)
        obtain j where "j < length (encoder_positions c)" "encoder_positions c ! j = x" using x by (auto simp: in_set_conv_nth)
        then have "encoder_on_board c l i" using encoder_position_on_board [OF assms(1,3), of j] icw by simp
        from set_encoder [OF assms(1) t this, of cw "raw l i cw"] show ?thesis using icw by simp
      qed
      show "(case encoder_positions c ! i of (e, cw) \<Rightarrow> enc_off c l e cw) = enc_off c l 0 True + 2 * i"
        if "i < length (encoder_positions c)" for i
        using encoder_position_on_board [OF assms(1,3) that] by (auto split: prod.splits)
      show "enc_off c l 0 True + 2 * length (encoder_positions c) \<le> size_of"
        using encoder_block_room [OF assms(1,3)] ne dk_okD(6) [OF assms(1)] by linarith
    qed (rule assms(2))
    then show ?thesis
      using True r view_encoder_block [OF assms(1) contents_size [OF assms(2)] assms(3) ne, of raw]
      by (auto simp: writes_def simp del: map_map)
  qed
qed

lemma reset_ok:
  assumes ok: "dk_ok c size_of" and s: "inv (eeprom s)"
  shows "\<exists>e. dynamic_keymap_reset c ee (flash_keys f) (flash_encoders f) s =
      Some ((if KEYCODE_BUFFER_ENABLE c then forget_buffer s else s)\<lparr>eeprom := e\<rparr>) \<and> inv e
    \<and> view c (contents e) = snd (spec_step c f Keymap_reset (view c (contents (eeprom s))))"
proof -
  define s0 where "s0 = (if KEYCODE_BUFFER_ENABLE c then forget_buffer s else s)"
  have s0: "eeprom s0 = eeprom s" by (simp add: s0_def forget_buffer_def)
  define v where "v = view c (contents (eeprom s))"
  define part where "part j = v\<lparr>spec_keys := \<lambda>(l, r, k). if on_board c l r k \<and> unat l < j then flash_keys f l r k else spec_keys v (l, r, k),
     spec_encoders := \<lambda>(l, i, cw). if ENCODER_MAP_ENABLE (board c) \<and> encoder_on_board c l i \<and> unat l < j
       then flash_encoders f l i cw else spec_encoders v (l, i, cw)\<rparr>" for j
  let ?P = "\<lambda>j t. \<exists>e. t = s0\<lparr>eeprom := e\<rparr> \<and> inv e \<and> view c (contents e) = part j"
  let ?f = "\<lambda>layer t. reset_layer c ee (flash_keys f) (of_nat layer) t \<bind> reset_encoders c ee (flash_encoders f) (of_nat layer)"
  have "\<exists>t. each ?f [0..<DYNAMIC_KEYMAP_LAYER_COUNT c] s0 = Some t \<and> ?P (DYNAMIC_KEYMAP_LAYER_COUNT c) t"
  proof (rule each_upt)
    have "part 0 = v" by (simp add: part_def)
    then show "?P 0 s0" using s s0 by (auto simp: v_def intro!: exI [of _ "eeprom s"])
    fix j t assume j: "j < DYNAMIC_KEYMAP_LAYER_COUNT c" and t: "?P j t"
    obtain e where e: "t = s0\<lparr>eeprom := e\<rparr>" "inv e" "view c (contents e) = part j" using t by blast
    let ?l = "of_nat j :: u8"
    have l: "unat ?l = j" using j dk_okD(7) [OF ok] by (simp add: u8_of_nat)
    have it: "inv (eeprom t)" using e by simp
    obtain e1 where e1: "reset_layer c ee (flash_keys f) ?l t = Some (t\<lparr>eeprom := e1\<rparr>)" "inv e1"
      "view c (contents e1) = set_layer_keys c (flash_keys f) ?l (part j)"
      using reset_layer_ok [OF ok it, of ?l "flash_keys f"] j l e by auto
    have i1: "inv (eeprom (t\<lparr>eeprom := e1\<rparr>))" using e1(2) by simp
    obtain e2 where e2: "reset_encoders c ee (flash_encoders f) ?l (t\<lparr>eeprom := e1\<rparr>) = Some (t\<lparr>eeprom := e2\<rparr>)" "inv e2"
      "view c (contents e2) = (if ENCODER_MAP_ENABLE (board c)
        then set_layer_encoders c (flash_encoders f) ?l (view c (contents e1)) else view c (contents e1))"
      using reset_encoders_ok [OF ok i1, of ?l "flash_encoders f"] j l by auto
    have eq: "l' = ?l \<longleftrightarrow> unat l' = j" for l' using l by (metis unsigned_word_eqI)
    have "view c (contents e2) = part (Suc j)"
      unfolding e2(3) e1(3) part_def
      by (intro dk_spec.equality) (auto simp: set_layer_keys_def set_layer_encoders_def fun_eq_iff eq less_Suc_eq)
    then show "\<exists>t'. ?f j t = Some t' \<and> ?P (Suc j) t'"
      using e1(1) e2(1,2) e(1) by auto
  qed
  moreover have "part (DYNAMIC_KEYMAP_LAYER_COUNT c) = snd (spec_step c f Keymap_reset v)"
    by (auto simp: part_def v_def view_def fun_eq_iff on_board_def encoder_on_board_def)
  ultimately show ?thesis
    by (auto simp: dynamic_keymap_reset_def s0_def v_def)
qed

lemma coherent_forget: "dk_ok c size_of \<Longrightarrow> inv e \<Longrightarrow> dk_inv c inv contents ((forget_buffer s)\<lparr>eeprom := e\<rparr>)"
  using not_on_board_buffer by (auto simp: dk_inv_def forget_buffer_def)

lemma step_ok:
  assumes ok: "dk_ok c size_of" and s: "dk_inv c inv contents s" and safe: "buffer_safe c x"
  shows "\<exists>o1 s'. dk_step c ee f x s = Some (o1, s') \<and> dk_inv c inv contents s'
    \<and> (o1, view c (contents (eeprom s'))) = spec_step c f x (view c (contents (eeprom s)))"
proof -
  have i: "inv (eeprom s)" using s by (simp add: dk_inv_def)
  let ?v = "view c (contents (eeprom s))"
  note size = contents_size [OF i]
  have keep: "dk_inv c inv contents (s\<lparr>eeprom := e\<rparr>)" if "inv e" "spec_keys (view c (contents e)) = spec_keys ?v" for e
    using s that by (simp add: dk_inv_def)
  have n: "size_of \<le> 2 ^ 16" "DYNAMIC_KEYMAP_MACRO_EEPROM_ADDR c + DYNAMIC_KEYMAP_MACRO_EEPROM_SIZE c \<le> size_of"
    using dk_okD(3,4) [OF ok] by simp_all
  have ml: "length (spec_macros ?v) = DYNAMIC_KEYMAP_MACRO_EEPROM_SIZE c"
    using n(2) size by (simp add: view_def length_simps)
  show ?thesis
  proof (cases x)
    case (Set_keycode l r k kc)
    show ?thesis
    proof (cases "on_board c l r k")
      case False
      then show ?thesis using s Set_keycode by (simp add: dynamic_keymap_set_keycode_def)
    next
      case True
      obtain e where e: "dynamic_keymap_set_keycode c ee l r k kc s =
          Some ((if KEYCODE_BUFFER_ENABLE c \<and> l = layer_buffer s \<and> r = row_buffer s \<and> k = col_buffer s
                 then forget_buffer s else s)\<lparr>eeprom := e\<rparr>)" "writes s (key_off c l r k) (big_endian kc) e"
        using set_keycode [OF ok i True, of kc] by blast
      have v: "view c (contents e) = ?v\<lparr>spec_keys := (spec_keys ?v)((l, r, k) := kc)\<rparr>" and ie: "inv e"
        using e(2) view_put_key [OF ok size True] by (simp_all add: writes_def)
      have "dk_inv c inv contents ((if KEYCODE_BUFFER_ENABLE c \<and> l = layer_buffer s \<and> r = row_buffer s \<and> k = col_buffer s
                 then forget_buffer s else s)\<lparr>eeprom := e\<rparr>)"
        using coherent_forget [OF ok ie] s v ie by (auto simp: dk_inv_def)
      then show ?thesis using e(1) v True Set_keycode by (auto simp: forget_buffer_def)
    qed
  next
    case (Set_encoder l j cw kc)
    show ?thesis
    proof (cases "encoder_on_board c l j")
      case False
      then show ?thesis using s Set_encoder by (simp add: dynamic_keymap_set_encoder_def)
    next
      case True
      obtain e where e: "dynamic_keymap_set_encoder c ee l j cw kc s = Some (s\<lparr>eeprom := e\<rparr>)"
        "writes s (enc_off c l j cw) (big_endian kc) e"
        using set_encoder [OF ok i True, of cw kc] by blast
      have v: "view c (contents e) = ?v\<lparr>spec_encoders := (spec_encoders ?v)((l, j, cw) := kc)\<rparr>" and ie: "inv e"
        using e(2) view_put_encoder [OF ok size True] by (simp_all add: writes_def)
      then show ?thesis using e(1) True Set_encoder keep [OF ie] by auto
    qed
  next
    case (Lookup l r k)
    have g: "dynamic_keymap_get_keycode c ee l r k s = Some (spec_keys ?v (l, r, k))"
      using get_keycode [OF ok i] by (simp add: view_def)
    show ?thesis
    proof (cases "on_board c l r k")
      case False
      then show ?thesis using s Lookup by (simp add: keycode_at_keymap_location_def view_def)
    next
      case True
      then show ?thesis using s i g Lookup by (auto simp: keycode_at_keymap_location_def dk_inv_def)
    qed
  next
    case (Lookup_encoder l j cw)
    have "dynamic_keymap_get_encoder c ee l j cw s = Some (spec_encoders ?v (l, j, cw))"
      using get_encoder [OF ok i] by (simp add: view_def)
    then show ?thesis using s Lookup_encoder by (simp add: keycode_at_encodermap_location_def view_def)
  next
    case Keymap_reset
    obtain e where e: "dynamic_keymap_reset c ee (flash_keys f) (flash_encoders f) s =
      Some ((if KEYCODE_BUFFER_ENABLE c then forget_buffer s else s)\<lparr>eeprom := e\<rparr>)" "inv e"
      "view c (contents e) = snd (spec_step c f Keymap_reset ?v)"
      using reset_ok [OF ok i, of f] by blast
    have "dk_inv c inv contents ((if KEYCODE_BUFFER_ENABLE c then forget_buffer s else s)\<lparr>eeprom := e\<rparr>)"
      using coherent_forget [OF ok e(2)] e(2) by (auto simp: dk_inv_def)
    then show ?thesis using e Keymap_reset by auto
  next
    case (Keymap_read offset n)
    have "region_get ee (DYNAMIC_KEYMAP_EEPROM_ADDR c) (2 * key_count c) (unat offset) (unat n) (eeprom s)
        = Some (window (unat offset) (unat n) (key_image c (spec_keys ?v)))"
      unfolding key_image_view [OF ok size] using key_region [OF ok] by (intro region_get [OF i _ n(1)]) simp
    then show ?thesis using s Keymap_read key_region(2) [OF ok] by (simp add: dynamic_keymap_get_buffer_def)
  next
    case (Keymap_write offset data)
    obtain e where e: "region_set ee (DYNAMIC_KEYMAP_EEPROM_ADDR c) (2 * key_count c) (unat offset) data (eeprom s) = Some e"
      "inv e" "contents e = mem_put (DYNAMIC_KEYMAP_EEPROM_ADDR c) (overlay (unat offset) data (key_image c (spec_keys ?v))) (contents (eeprom s))"
      using region_set [OF i _ n(1), of "DYNAMIC_KEYMAP_EEPROM_ADDR c" "2 * key_count c" "unat offset" data] key_region(1) [OF ok]
      unfolding key_image_view [OF ok size] by auto
    have "length (overlay (unat offset) data (key_image c (spec_keys ?v))) = 2 * key_count c"
      by (simp add: overlay_def length_key_image)
    then have "view c (contents e) = ?v\<lparr>spec_keys := keys_of_image c (overlay (unat offset) data (key_image c (spec_keys ?v)))\<rparr>"
      unfolding e(3) by (rule view_put_keys [OF ok size])
    moreover have "dk_inv c inv contents (s\<lparr>eeprom := e\<rparr>)" using e(2) safe Keymap_write by (simp add: dk_inv_def)
    ultimately show ?thesis using e(1,2) Keymap_write key_region(2) [OF ok] by (simp add: dynamic_keymap_set_buffer_def)
  next
    case (Macro_read offset k)
    have "region_get ee (DYNAMIC_KEYMAP_MACRO_EEPROM_ADDR c) (DYNAMIC_KEYMAP_MACRO_EEPROM_SIZE c) (unat offset) (unat k) (eeprom s)
        = Some (window (unat offset) (unat k) (spec_macros ?v))"
      using region_get [OF i n(2,1)] by (simp add: view_def)
    then show ?thesis using s Macro_read by (simp add: dynamic_keymap_macro_get_buffer_def)
  next
    case (Macro_write offset data)
    obtain e where e: "region_set ee (DYNAMIC_KEYMAP_MACRO_EEPROM_ADDR c) (DYNAMIC_KEYMAP_MACRO_EEPROM_SIZE c) (unat offset) data (eeprom s) = Some e"
      "inv e" "contents e = mem_put (DYNAMIC_KEYMAP_MACRO_EEPROM_ADDR c) (overlay (unat offset) data (spec_macros ?v)) (contents (eeprom s))"
      using region_set [OF i n(2,1), of "unat offset" data] by (auto simp: view_def)
    have "view c (contents e) = ?v\<lparr>spec_macros := overlay (unat offset) data (spec_macros ?v)\<rparr>"
      unfolding e(3) using ml by (intro view_put_macros [OF ok size]) (simp add: overlay_def)
    then show ?thesis using e(1,2) keep [OF e(2)] Macro_write by (simp add: dynamic_keymap_macro_set_buffer_def)
  next
    case Macro_reset
    obtain e where e: "each (\<lambda>i. eeprom_update_byte ee (of_nat (DYNAMIC_KEYMAP_MACRO_EEPROM_ADDR c + i)) 0)
        [0..<DYNAMIC_KEYMAP_MACRO_EEPROM_SIZE c] (eeprom s) = Some e"
      "inv e" "contents e = mem_put (DYNAMIC_KEYMAP_MACRO_EEPROM_ADDR c) (replicate (DYNAMIC_KEYMAP_MACRO_EEPROM_SIZE c) 0) (contents (eeprom s))"
      using region_clear [OF i n(2,1)] by blast
    have "view c (contents e) = ?v\<lparr>spec_macros := replicate (DYNAMIC_KEYMAP_MACRO_EEPROM_SIZE c) 0\<rparr>"
      unfolding e(3) by (intro view_put_macros [OF ok size]) simp
    then show ?thesis using e(1,2) keep [OF e(2)] Macro_reset ml by (simp add: dynamic_keymap_macro_reset_def)
  qed
qed

lemma run_ok:
  assumes "dk_ok c size_of" and "dk_inv c inv contents s" and "list_all (buffer_safe c) xs"
  shows "\<exists>os s'. dk_run c ee f xs s = Some (os, s') \<and> dk_inv c inv contents s'
    \<and> (os, view c (contents (eeprom s'))) = spec_run c f xs (view c (contents (eeprom s)))"
  using assms(2,3)
proof (induction xs arbitrary: s)
  case (Cons x xs)
  obtain o1 s1 where s1: "dk_step c ee f x s = Some (o1, s1)" "dk_inv c inv contents s1"
    "(o1, view c (contents (eeprom s1))) = spec_step c f x (view c (contents (eeprom s)))"
    using step_ok [OF assms(1) Cons.prems(1)] Cons.prems(2) by fastforce
  obtain os s2 where s2: "dk_run c ee f xs s1 = Some (os, s2)" "dk_inv c inv contents s2"
    "(os, view c (contents (eeprom s2))) = spec_run c f xs (view c (contents (eeprom s1)))"
    using Cons.IH [OF s1(2)] Cons.prems(2) by auto
  show ?case using s1(1) s2(1,2) s1(3) [symmetric] s2(3) [symmetric] by simp
qed simp

lemma lookup_buffers:
  assumes "keycode_at_keymap_location c ee l r k s = Some (kc, s1)" and "KEYCODE_BUFFER_ENABLE c" and "on_board c l r k"
  shows "eeprom s1 = eeprom s \<and> layer_buffer s1 = l \<and> row_buffer s1 = r \<and> col_buffer s1 = k \<and> keycode_buffer s1 = kc"
  using assms by (auto simp: keycode_at_keymap_location_def bind_eq_Some_conv split: if_splits)

lemma set_buffer_word:
  assumes ok: "dk_ok c size_of" and i: "inv (eeprom s)" and b: "on_board c l r k"
  shows "\<exists>e. dynamic_keymap_set_buffer c ee (of_nat (key_off c l r k - DYNAMIC_KEYMAP_EEPROM_ADDR c)) (big_endian kc) s
      = Some (s\<lparr>eeprom := e\<rparr>) \<and> inv e \<and> word_at (contents e) (key_off c l r k) = kc"
proof -
  let ?len = "DYNAMIC_KEYMAP_LAYER_COUNT c * MATRIX_ROWS (board c) * MATRIX_COLS (board c) * 2"
  let ?A = "DYNAMIC_KEYMAP_EEPROM_ADDR c" and ?o = "key_off c l r k"
  note D = dk_okD(1,2,3,4,5,13) [OF ok] key_off_bounds [OF ok b]
  have small: "unat (of_nat m :: u16) = m" if "m < 2 ^ 16" for m using that by (simp add: unat_of_nat)
  have "?len < 2 ^ 16" using D by linarith
  then have len: "unat (dynamic_keymap_eeprom_size c) = ?len" unfolding dynamic_keymap_eeprom_size_def by (rule small)
  have "?o - ?A < 2 ^ 16" using D by linarith
  then have off: "unat (of_nat (?o - ?A) :: u16) = ?o - ?A" by (rule small)
  have o: "?o - ?A = ((unat l * MATRIX_ROWS (board c) + unat r) * MATRIX_COLS (board c) + unat k) * 2"
    by (simp add: key_off_def)
  have "(unat l * MATRIX_ROWS (board c) + unat r) * MATRIX_COLS (board c) + unat k
      < DYNAMIC_KEYMAP_LAYER_COUNT c * MATRIX_ROWS (board c) * MATRIX_COLS (board c)"
    by (intro mixed_radix_less on_boardD [OF b])
  moreover have "x * 2 + 2 \<le> y * 2" if "x < y" for x y :: nat using that by simp
  ultimately have room: "?o - ?A + 2 \<le> ?len" unfolding o by blast
  have fit: "?A + ?len \<le> size_of" using D by linarith
  obtain e where e: "region_set ee ?A ?len (?o - ?A) (big_endian kc) (eeprom s) = Some e" "inv e"
    "contents e = mem_put ?A (overlay (?o - ?A) (big_endian kc) (mem_get ?A ?len (contents (eeprom s)))) (contents (eeprom s))"
    using region_set [OF i fit dk_okD(4) [OF ok]] by blast
  have "contents e = mem_put ?o (big_endian kc) (contents (eeprom s))"
    unfolding e(3) using fit room D(7) contents_size [OF i]
    by (intro nth_equalityI) (auto simp: length_simps mem_put_nth overlay_def mem_get_nth less_diff_conv2)
  moreover have "?o + 2 \<le> length (contents (eeprom s))" using D contents_size [OF i] by linarith
  ultimately have "word_at (contents e) ?o = kc" by (simp add: word_at_put)
  then show ?thesis using e(1,2) by (auto simp: dynamic_keymap_set_buffer_def len off)
qed

lemma stale_lookup:
  assumes "dk_ok c size_of" and "inv (eeprom s)" and "KEYCODE_BUFFER_ENABLE c" and "on_board c l r k"
    and "keycode_at_keymap_location c ee l r k s = Some (old, s1)"
  shows "\<exists>s2. dynamic_keymap_set_buffer c ee (of_nat (key_off c l r k - DYNAMIC_KEYMAP_EEPROM_ADDR c)) (big_endian kc) s1 = Some s2
    \<and> dynamic_keymap_get_keycode c ee l r k s2 = Some kc \<and> keycode_at_keymap_location c ee l r k s2 = Some (old, s2)"
proof -
  note B = lookup_buffers [OF assms(5,3,4)]
  obtain e where e: "dynamic_keymap_set_buffer c ee (of_nat (key_off c l r k - DYNAMIC_KEYMAP_EEPROM_ADDR c)) (big_endian kc) s1 = Some (s1\<lparr>eeprom := e\<rparr>)"
    "inv e" "word_at (contents e) (key_off c l r k) = kc"
    using set_buffer_word [OF assms(1) _ assms(4), of s1 kc] B assms(2) by auto
  have "dynamic_keymap_get_keycode c ee l r k (s1\<lparr>eeprom := e\<rparr>) = Some kc"
    using get_keycode [OF assms(1), of "s1\<lparr>eeprom := e\<rparr>" l r k] e assms(4) by simp
  moreover have "keycode_at_keymap_location c ee l r k (s1\<lparr>eeprom := e\<rparr>) = Some (old, s1\<lparr>eeprom := e\<rparr>)"
    using B assms(3,4) by (simp add: keycode_at_keymap_location_def)
  ultimately show ?thesis using e(1) by blast
qed

end

section \<open>Properties\<close>

text \<open>C20: The keymap in EEPROM is a keymap: over any working EEPROM and for any sequence of setting and
  looking up keys and encoders, resetting, reading and writing the keymap and the macros as bytes, and
  clearing the macros, every operation gives the result it gives on a keymap kept as functions. This
  holds with and without the keycode buffer, but for writing the keymap as bytes, which is taken in
  the build without it only.\<close>

theorem dk_refines_keymap:
  assumes "eeprom_store ee ok mem n" and "dk_ok c n" and "dk_inv c ok mem s" and "list_all (buffer_safe c) xs"
  shows "\<exists>os s'. dk_run c ee f xs s = Some (os, s') \<and> dk_inv c ok mem s'
    \<and> (os, view c (mem (eeprom s'))) = spec_run c f xs (view c (mem (eeprom s)))"
  by (rule eeprom_store.run_ok [OF assms])

definition demo_dk :: dk_cfg where
  "demo_dk = \<lparr>board = \<lparr>MATRIX_ROWS = 2, MATRIX_COLS = 3, NUM_ENCODERS = 1, ENCODER_MAP_ENABLE = True, MAX_LAYER = 2, MAX_LAYER_BITS = 1\<rparr>,
     KEYCODE_BUFFER_ENABLE = True, DYNAMIC_KEYMAP_LAYER_COUNT = 2, DYNAMIC_KEYMAP_MACRO_COUNT = 4,
     DYNAMIC_KEYMAP_EEPROM_ADDR = 4, DYNAMIC_KEYMAP_ENCODER_EEPROM_ADDR = 28, DYNAMIC_KEYMAP_MACRO_EEPROM_ADDR = 36,
     DYNAMIC_KEYMAP_MACRO_EEPROM_SIZE = 60\<rparr>"

lemma demo_dk_ok: "dk_ok demo_dk 96"
  by (simp add: dk_ok_def demo_dk_def)

lemma demo_dk_inv: "dk_inv demo_dk (wl_inv nor_cfg nor.efl_dev) cache (dyn_keymap_init nor_wl)"
  using nor_inv by (simp add: dk_inv_def dyn_keymap_init_def on_board_def demo_dk_def)

lemma nor_store: "eeprom_store (wl_eeprom nor_cfg nor_driver) (wl_inv nor_cfg nor.efl_dev) cache 96"
  by unfold_locales

definition demo_flash :: dk_flash where
  "demo_flash = \<lparr>flash_keys = (\<lambda>_ _ _. 4), flash_encoders = (\<lambda>_ _ _. 5)\<rparr>"

lemma dk_refines_keymap_witness:
  "\<exists>s'. dk_run demo_dk (wl_eeprom nor_cfg nor_driver) demo_flash
      [Set_keycode 1 1 2 0x4105, Set_encoder 1 0 False 7, Lookup 1 1 2, Set_keycode 1 1 2 9, Lookup 1 1 2, Lookup_encoder 1 0 False]
      (dyn_keymap_init nor_wl) = Some ([Done, Done, Keycode 0x4105, Done, Keycode 9, Keycode 7], s')"
  using dk_refines_keymap [OF nor_store demo_dk_ok demo_dk_inv,
      where f = demo_flash and xs = "[Set_keycode 1 1 2 0x4105, Set_encoder 1 0 False 7, Lookup 1 1 2, Set_keycode 1 1 2 9, Lookup 1 1 2, Lookup_encoder 1 0 False]"]
  by (auto simp: on_board_def encoder_on_board_def demo_dk_def)

text \<open>In the build with a keycode buffer a bulk write to the keymap does not reach the next lookup: the
  buffer is not invalidated, so the key pressed last keeps its old keycode although the EEPROM holds
  the new one.\<close>

theorem dk_set_buffer_leaves_stale_keycode:
  assumes "eeprom_store ee ok mem n" and "dk_ok c n" and "ok (eeprom s)" and "KEYCODE_BUFFER_ENABLE c" and "on_board c l r k"
    and "keycode_at_keymap_location c ee l r k s = Some (old, s1)"
  shows "\<exists>s2. dynamic_keymap_set_buffer c ee (of_nat (key_off c l r k - DYNAMIC_KEYMAP_EEPROM_ADDR c)) (big_endian kc) s1 = Some s2
    \<and> dynamic_keymap_get_keycode c ee l r k s2 = Some kc \<and> keycode_at_keymap_location c ee l r k s2 = Some (old, s2)"
  by (rule eeprom_store.stale_lookup [OF assms])

lemma dk_set_buffer_leaves_stale_keycode_witness:
  "\<exists>old s1 s2. keycode_at_keymap_location demo_dk (wl_eeprom nor_cfg nor_driver) 1 0 1 (dyn_keymap_init nor_wl) = Some (old, s1)
    \<and> dynamic_keymap_set_buffer demo_dk (wl_eeprom nor_cfg nor_driver) 14 (big_endian 0x4105) s1 = Some s2
    \<and> dynamic_keymap_get_keycode demo_dk (wl_eeprom nor_cfg nor_driver) 1 0 1 s2 = Some 0x4105
    \<and> keycode_at_keymap_location demo_dk (wl_eeprom nor_cfg nor_driver) 1 0 1 s2 = Some (old, s2)"
proof -
  let ?ee = "wl_eeprom nor_cfg nor_driver"
  obtain old s1 where s1: "keycode_at_keymap_location demo_dk ?ee 1 0 1 (dyn_keymap_init nor_wl) = Some (old, s1)"
    using eeprom_store.step_ok [OF nor_store demo_dk_ok demo_dk_inv, where x = "Lookup 1 0 1"] by fastforce
  have i: "wl_inv nor_cfg nor.efl_dev (eeprom (dyn_keymap_init nor_wl))" using demo_dk_inv by (simp add: dk_inv_def)
  have "on_board demo_dk 1 0 1" "KEYCODE_BUFFER_ENABLE demo_dk" by (simp_all add: on_board_def demo_dk_def)
  from dk_set_buffer_leaves_stale_keycode [OF nor_store demo_dk_ok i this(2,1) s1, of "0x4105"] s1 show ?thesis
    by (auto simp: key_off_def demo_dk_def)
qed

end
