(* ===== verification/SendString.thy ===== *)
theory SendString
  imports Action
begin

text \<open>
  Typing strings, quantum/send_string/send_string.c: the tables from ASCII to keycodes (the default
  ones, for a US layout), single characters and strings with embedded commands. A string is the
  memory from its first character on; \<open>None\<close> stands for reading behind that memory or a table, or for
  signed overflow. The waits between characters only advance the time: in the wireless build they also
  run \<open>send_string_task\<close>, which lets the report buffer send (WirelessTask), and is left out here.
\<close>

section \<open>Tables\<close>

fun KCLUT_ENTRY :: "nat list \<Rightarrow> u8" where
  "KCLUT_ENTRY [] = 0"
| "KCLUT_ENTRY (b # bs) = (if b \<noteq> 0 then 1 else 0) OR push_bit 1 (KCLUT_ENTRY bs)"

definition ascii_to_shift_lut :: "u8 list" where
  "ascii_to_shift_lut =
    [KCLUT_ENTRY [0, 0, 0, 0, 0, 0, 0, 0],
     KCLUT_ENTRY [0, 0, 0, 0, 0, 0, 0, 0],
     KCLUT_ENTRY [0, 0, 0, 0, 0, 0, 0, 0],
     KCLUT_ENTRY [0, 0, 0, 0, 0, 0, 0, 0],
     KCLUT_ENTRY [0, 1, 1, 1, 1, 1, 1, 0],
     KCLUT_ENTRY [1, 1, 1, 1, 0, 0, 0, 0],
     KCLUT_ENTRY [0, 0, 0, 0, 0, 0, 0, 0],
     KCLUT_ENTRY [0, 0, 1, 0, 1, 0, 1, 1],
     KCLUT_ENTRY [1, 1, 1, 1, 1, 1, 1, 1],
     KCLUT_ENTRY [1, 1, 1, 1, 1, 1, 1, 1],
     KCLUT_ENTRY [1, 1, 1, 1, 1, 1, 1, 1],
     KCLUT_ENTRY [1, 1, 1, 0, 0, 0, 1, 1],
     KCLUT_ENTRY [0, 0, 0, 0, 0, 0, 0, 0],
     KCLUT_ENTRY [0, 0, 0, 0, 0, 0, 0, 0],
     KCLUT_ENTRY [0, 0, 0, 0, 0, 0, 0, 0],
     KCLUT_ENTRY [0, 0, 0, 1, 1, 1, 1, 0]]"

definition ascii_to_altgr_lut :: "u8 list" where
  "ascii_to_altgr_lut = replicate 16 (KCLUT_ENTRY [0, 0, 0, 0, 0, 0, 0, 0])"

definition ascii_to_dead_lut :: "u8 list" where
  "ascii_to_dead_lut = replicate 16 (KCLUT_ENTRY [0, 0, 0, 0, 0, 0, 0, 0])"

definition ascii_to_keycode_lut :: "u8 list" where
  "ascii_to_keycode_lut =
    [0x00, 0x00, 0x00, 0x00, 0x00, 0x00, 0x00, 0x00,
     0x2A, 0x2B, 0x28, 0x00, 0x00, 0x00, 0x00, 0x00,
     0x00, 0x00, 0x00, 0x00, 0x00, 0x00, 0x00, 0x00,
     0x00, 0x00, 0x00, 0x29, 0x00, 0x00, 0x00, 0x00,
     0x2C, 0x1E, 0x34, 0x20, 0x21, 0x22, 0x24, 0x34,
     0x26, 0x27, 0x25, 0x2E, 0x36, 0x2D, 0x37, 0x38,
     0x27, 0x1E, 0x1F, 0x20, 0x21, 0x22, 0x23, 0x24,
     0x25, 0x26, 0x33, 0x33, 0x36, 0x2E, 0x37, 0x38,
     0x1F, 0x04, 0x05, 0x06, 0x07, 0x08, 0x09, 0x0A,
     0x0B, 0x0C, 0x0D, 0x0E, 0x0F, 0x10, 0x11, 0x12,
     0x13, 0x14, 0x15, 0x16, 0x17, 0x18, 0x19, 0x1A,
     0x1B, 0x1C, 0x1D, 0x2F, 0x31, 0x30, 0x23, 0x2D,
     0x35, 0x04, 0x05, 0x06, 0x07, 0x08, 0x09, 0x0A,
     0x0B, 0x0C, 0x0D, 0x0E, 0x0F, 0x10, 0x11, 0x12,
     0x13, 0x14, 0x15, 0x16, 0x17, 0x18, 0x19, 0x1A,
     0x1B, 0x1C, 0x1D, 0x2F, 0x31, 0x30, 0x35, 0x4C]"

definition PGM_LOADBIT :: "u8 list \<Rightarrow> nat \<Rightarrow> bool" where
  "PGM_LOADBIT mem pos \<longleftrightarrow> drop_bit (pos mod 8) (mem ! (pos div 8)) AND 0x01 \<noteq> 0"

section \<open>Characters\<close>

definition KC_LEFT_SHIFT :: u8 where "KC_LEFT_SHIFT = 0xE1"
definition KC_RIGHT_ALT :: u8 where "KC_RIGHT_ALT = 0xE6"
definition KC_SPACE :: u8 where "KC_SPACE = 0x2C"

definition send_char :: "'w act_cfg \<Rightarrow> u8 \<Rightarrow> 'w act_state \<Rightarrow> 'w act_state option" where
  "send_char c ascii_code s =
     (let i = unat ascii_code
      in if 128 \<le> i then None
         else let keycode = ascii_to_keycode_lut ! i;
                  is_shifted = PGM_LOADBIT ascii_to_shift_lut i;
                  is_altgred = PGM_LOADBIT ascii_to_altgr_lut i;
                  is_dead = PGM_LOADBIT ascii_to_dead_lut i;
                  s = (if is_shifted then register_code c KC_LEFT_SHIFT s else s);
                  s = (if is_altgred then register_code c KC_RIGHT_ALT s else s);
                  s = tap_code c keycode s;
                  s = (if is_altgred then unregister_code c KC_RIGHT_ALT s else s);
                  s = (if is_shifted then unregister_code c KC_LEFT_SHIFT s else s)
              in Some (if is_dead then tap_code c KC_SPACE s else s))"

definition send_nibble :: "'w act_cfg \<Rightarrow> u8 \<Rightarrow> 'w act_state \<Rightarrow> 'w act_state option" where
  "send_nibble c number =
     (let n = number AND 0xF in if n \<le> 9 then send_char c (number + 0x30) else send_char c (number - 10 + 0x61))"

definition send_byte :: "'w act_cfg \<Rightarrow> u8 \<Rightarrow> 'w act_state \<Rightarrow> 'w act_state option" where
  "send_byte c number s = send_nibble c (drop_bit 4 number) s \<bind> send_nibble c (number AND 0xF)"

definition send_word :: "'w act_cfg \<Rightarrow> u16 \<Rightarrow> 'w act_state \<Rightarrow> 'w act_state option" where
  "send_word c number s = send_byte c (ucast (drop_bit 8 number)) s \<bind> send_byte c (ucast (number AND 0xFF))"

definition send_dword :: "'w act_cfg \<Rightarrow> u32 \<Rightarrow> 'w act_state \<Rightarrow> 'w act_state option" where
  "send_dword c number s = send_word c (ucast (drop_bit 16 number)) s \<bind> send_word c (ucast (number AND 0xFFFF))"

text \<open>\<open>tap_random_base64\<close> for the value of \<open>rand() % 64\<close>.\<close>

definition tap_base64 :: "'w act_cfg \<Rightarrow> u8 \<Rightarrow> 'w act_state \<Rightarrow> 'w act_state option" where
  "tap_base64 c k =
     (if k \<le> 25 then send_char c (k + 0x41)
      else if k \<le> 51 then send_char c (k - 26 + 0x61)
      else if k = 52 then send_char c 0x30
      else if k \<le> 61 then send_char c (k - 53 + 0x31)
      else if k = 62 then send_char c 0x2B
      else if k = 63 then send_char c 0x2F
      else Some)"

section \<open>Strings\<close>

definition SS_QMK_PREFIX :: u8 where "SS_QMK_PREFIX = 1"
definition SS_TAP_CODE :: u8 where "SS_TAP_CODE = 1"
definition SS_DOWN_CODE :: u8 where "SS_DOWN_CODE = 2"
definition SS_UP_CODE :: u8 where "SS_UP_CODE = 3"
definition SS_DELAY_CODE :: u8 where "SS_DELAY_CODE = 4"

text \<open>The number of a delay: its value and the string behind the character that ends it.\<close>

fun delay_digits :: "nat \<Rightarrow> u8 list \<Rightarrow> (nat \<times> u8 list) option" where
  "delay_digits ms [] = None"
| "delay_digits ms (d # str) =
     (if 0x30 \<le> d \<and> d \<le> 0x39
      then if 10 * ms + (unat d - 0x30) < 2 ^ 31 then delay_digits (10 * ms + (unat d - 0x30)) str else None
      else Some (ms, str))"

lemma delay_digits_shorter: "delay_digits ms str = Some (n, str') \<Longrightarrow> length str' < length str"
  by (induction ms str rule: delay_digits.induct) (auto split: if_splits)

function send_string_with_delay :: "'w act_cfg \<Rightarrow> u8 \<Rightarrow> u8 list \<Rightarrow> 'w act_state \<Rightarrow> 'w act_state option" where
  "send_string_with_delay c interval str s =
     (case str of
        [] \<Rightarrow> None
      | ascii_code # str \<Rightarrow>
          if ascii_code = 0 then Some s
          else if ascii_code \<noteq> SS_QMK_PREFIX
          then (case send_char c ascii_code s of
                  None \<Rightarrow> None
                | Some s \<Rightarrow> send_string_with_delay c interval str (wait_ms (unat interval) s))
          else (case str of
                  [] \<Rightarrow> None
                | ascii_code # str \<Rightarrow>
                    if ascii_code = SS_TAP_CODE \<or> ascii_code = SS_DOWN_CODE \<or> ascii_code = SS_UP_CODE
                    then (case str of
                            [] \<Rightarrow> None
                          | keycode # str \<Rightarrow> send_string_with_delay c interval str (wait_ms (unat interval)
                              (if ascii_code = SS_TAP_CODE then tap_code c keycode s
                               else if ascii_code = SS_DOWN_CODE then register_code c keycode s
                               else unregister_code c keycode s)))
                    else if ascii_code = SS_DELAY_CODE
                    then (case delay_digits 0 str of
                            None \<Rightarrow> None
                          | Some (ms, str) \<Rightarrow> send_string_with_delay c interval str (wait_ms (unat interval) (wait_ms ms s)))
                    else send_string_with_delay c interval str (wait_ms (unat interval) s)))"
  by pat_completeness auto

termination
  by (relation "measure (\<lambda>(c, interval, str, s). length str)") (auto dest: delay_digits_shorter)

declare send_string_with_delay.simps [simp del]

definition send_string :: "'w act_cfg \<Rightarrow> u8 list \<Rightarrow> 'w act_state \<Rightarrow> 'w act_state option" where
  "send_string c = send_string_with_delay c 0"

end
