(* ===== verification/DynMacros.thy ===== *)
theory DynMacros
  imports DynKeymapRefine SendString
begin

text \<open>
  Sending a macro from the EEPROM, \<open>dynamic_keymap_macro_send\<close> of quantum/dynamic_keymap.c. Reading the
  macro does not depend on what sending does, so the strings passed to \<open>send_string_with_delay\<close> are
  collected first, each as the eight bytes of the buffer \<open>data\<close>. The loop over the bytes of a macro
  ends only at a zero byte: it is a partial function, \<open>None\<close> if it does not return.
\<close>

section \<open>Reading a macro\<close>

text \<open>\<open>n\<close> is the distance to the end of the buffer; the inner result is None when there is no such macro.\<close>

fun macro_skip :: "'e eeprom_driver \<Rightarrow> nat \<Rightarrow> u32 \<Rightarrow> nat \<Rightarrow> 'e \<Rightarrow> u32 option option" where
  "macro_skip ee n p 0 e = Some (Some p)"
| "macro_skip ee 0 p (Suc i) e = Some None"
| "macro_skip ee (Suc n) p (Suc i) e = do {
     b \<leftarrow> eeprom_read_byte ee p e;
     macro_skip ee n (p + 1) (if b = 0 then i else Suc i) e
   }"

text \<open>The number of a delay, from \<open>data[i]\<close> on with \<open>n = 6 - i\<close>; None inside when the macro is given up.\<close>

fun macro_delay :: "'e eeprom_driver \<Rightarrow> nat \<Rightarrow> u32 \<Rightarrow> u8 list \<Rightarrow> 'e \<Rightarrow> (u32 \<times> u8 list) option option" where
  "macro_delay ee n p data e = do {
     b \<leftarrow> eeprom_read_byte ee p e;
     let i = 6 - n;
     if b = 0 then Some None
     else if b = 0x7C then Some (Some (p + 1, data[i := b, i + 1 := 0]))
     else case n of 0 \<Rightarrow> Some None | Suc n \<Rightarrow> macro_delay ee n (p + 1) (data[i := b]) e
   }"

declare macro_delay.simps [simp del]

partial_function (option) macro_loop :: "'e eeprom_driver \<Rightarrow> 'e \<Rightarrow> u32 \<Rightarrow> u8 list \<Rightarrow> u8 list list \<Rightarrow> u8 list list option" where
  "macro_loop ee e p data sent = do {
     b0 \<leftarrow> eeprom_read_byte ee p e;
     let data = data[0 := b0, 1 := 0];
     if b0 = 0 then Some sent
     else if b0 \<noteq> SS_QMK_PREFIX then macro_loop ee e (p + 1) data (sent @ [data])
     else do {
       b1 \<leftarrow> eeprom_read_byte ee (p + 1) e;
       let data = data[1 := b1];
       if b1 = 0 then Some sent
       else if b1 = SS_TAP_CODE \<or> b1 = SS_DOWN_CODE \<or> b1 = SS_UP_CODE
       then do {
         b2 \<leftarrow> eeprom_read_byte ee (p + 2) e;
         let data = data[2 := b2, 3 := 0];
         if b2 = 0 then Some sent else macro_loop ee e (p + 3) data (sent @ [data])
       }
       else if b1 = SS_DELAY_CODE
       then do {
         r \<leftarrow> macro_delay ee 4 (p + 2) data e;
         case r of None \<Rightarrow> Some sent | Some (p, data) \<Rightarrow> macro_loop ee e p data (sent @ [data])
       }
       else macro_loop ee e (p + 2) data (sent @ [data])
     }
   }"

definition macro_strings :: "dk_cfg \<Rightarrow> 'e eeprom_driver \<Rightarrow> u8 \<Rightarrow> 'e \<Rightarrow> u8 list list option" where
  "macro_strings c ee num e =
     (let start = DYNAMIC_KEYMAP_MACRO_EEPROM_ADDR c; len = DYNAMIC_KEYMAP_MACRO_EEPROM_SIZE c
      in if DYNAMIC_KEYMAP_MACRO_COUNT c \<le> unat num then Some []
         else do {
           b \<leftarrow> eeprom_read_byte ee (of_nat (start + len - 1)) e;
           if b \<noteq> 0 then Some []
           else do {
             r \<leftarrow> macro_skip ee len (of_nat start) (unat num) e;
             case r of None \<Rightarrow> Some [] | Some p \<Rightarrow> macro_loop ee e p (replicate 8 0) []
           }
         })"

definition dynamic_keymap_macro_send ::
  "dk_cfg \<Rightarrow> 'e eeprom_driver \<Rightarrow> 'w act_cfg \<Rightarrow> u8 \<Rightarrow> u8 \<Rightarrow> 'e \<Rightarrow> 'w act_state \<Rightarrow> 'w act_state option" where
  "dynamic_keymap_macro_send c ee ac delay num e s = do {
     strings \<leftarrow> macro_strings c ee num e;
     each (send_string_with_delay ac delay) strings s
   }"

section \<open>Where a macro starts\<close>

fun skip_zeros :: "u8 list \<Rightarrow> nat \<Rightarrow> nat option" where
  "skip_zeros bs 0 = Some 0"
| "skip_zeros [] (Suc i) = None"
| "skip_zeros (b # bs) (Suc i) = map_option Suc (skip_zeros bs (if b = 0 then i else Suc i))"

definition zeros :: "u8 list \<Rightarrow> nat" where
  "zeros bs = length (filter (\<lambda>b. b = 0) bs)"

lemma zeros_simps [simp]: "zeros [] = 0" "zeros (b # bs) = (if b = 0 then Suc (zeros bs) else zeros bs)"
  by (simp_all add: zeros_def)

lemma skip_zeros_Some:
  "i \<le> zeros bs \<Longrightarrow> \<exists>off. skip_zeros bs i = Some off \<and> off \<le> length bs \<and> zeros (drop off bs) + i = zeros bs"
proof (induction bs i rule: skip_zeros.induct)
  case (3 b bs i)
  then obtain off where "skip_zeros bs (if b = 0 then i else Suc i) = Some off" "off \<le> length bs"
    "zeros (drop off bs) + (if b = 0 then i else Suc i) = zeros bs"
    by (auto split: if_splits)
  then show ?case by auto
qed auto

lemma zeros_pos: "0 < zeros bs \<longleftrightarrow> (\<exists>j < length bs. bs ! j = 0)"
  by (auto simp: zeros_def in_set_conv_nth filter_empty_conv)

section \<open>Over a working EEPROM\<close>

context eeprom_store
begin

lemma read_at: "inv e \<Longrightarrow> size_of \<le> 2 ^ 16 \<Longrightarrow> a < size_of \<Longrightarrow> eeprom_read_byte ee (of_nat a) e = Some (contents e ! a)"
  using read_byte [of e "of_nat a"] by simp

lemma macro_skip_zeros:
  assumes "inv e" and "size_of \<le> 2 ^ 16" and "a + n \<le> size_of"
  shows "macro_skip ee n (of_nat a) i e = Some (map_option (\<lambda>off. of_nat (a + off)) (skip_zeros (mem_get a n (contents e)) i))"
  using assms(3)
proof (induction n arbitrary: a i)
  case 0
  then show ?case by (cases i) (simp_all add: mem_get_def)
next
  case (Suc n)
  show ?case
  proof (cases i)
    case (Suc j)
    have m: "mem_get a (Suc n) (contents e) = contents e ! a # mem_get (Suc a) n (contents e)"
      using Suc.prems contents_size [OF assms(1)] by (simp add: mem_get_def Cons_nth_drop_Suc [symmetric])
    have "macro_skip ee n (of_nat (Suc a)) k e = Some (map_option (\<lambda>off. of_nat (Suc a + off)) (skip_zeros (mem_get (Suc a) n (contents e)) k))" for k
      by (rule Suc.IH) (use Suc.prems in simp)
    then show ?thesis
      using read_at [OF assms(1,2), of a] Suc.prems by (simp add: Suc m option.map_comp comp_def ac_simps)
  qed simp
qed

text \<open>The loop reads up to the next zero byte only.\<close>

lemma macro_delay_within:
  assumes "inv e" and "inv e'" and "size_of \<le> 2 ^ 16" and "z < size_of" and "contents e ! z = 0"
    and "\<And>i. a0 \<le> i \<Longrightarrow> i \<le> z \<Longrightarrow> contents e' ! i = contents e ! i" and "a0 \<le> a" and "a \<le> z"
  shows "\<exists>r. macro_delay ee n (of_nat a) data e = Some r \<and> macro_delay ee n (of_nat a) data e' = Some r
    \<and> (\<forall>p data'. r = Some (p, data') \<longrightarrow> (\<exists>a'. p = of_nat a' \<and> a < a' \<and> a' \<le> z))"
  using assms(7,8)
proof (induction n arbitrary: a data)
  case 0
  have r: "eeprom_read_byte ee (of_nat a) e = Some (contents e ! a)" "eeprom_read_byte ee (of_nat a) e' = Some (contents e ! a)"
    using read_at [OF assms(1,3), of a] read_at [OF assms(2,3), of a] assms(4) assms(6) [of a] 0 by simp_all
  have "contents e ! a \<noteq> 0 \<Longrightarrow> a < z" using 0 assms(5) by (cases "a = z") simp_all
  then show ?case using r by (auto simp: macro_delay.simps [of ee 0] Let_def intro!: exI [of _ "Suc a"])
next
  case (Suc n)
  have r: "eeprom_read_byte ee (of_nat a) e = Some (contents e ! a)" "eeprom_read_byte ee (of_nat a) e' = Some (contents e ! a)"
    using read_at [OF assms(1,3), of a] read_at [OF assms(2,3), of a] assms(4) assms(6) [of a] Suc.prems by simp_all
  have z: "contents e ! a \<noteq> 0 \<Longrightarrow> a < z" using Suc.prems assms(5) by (cases "a = z") simp_all
  show ?case
  proof (cases "contents e ! a = 0 \<or> contents e ! a = 0x7C")
    case True
    then show ?thesis using r z by (auto simp: macro_delay.simps [of ee "Suc n"] Let_def intro!: exI [of _ "Suc a"])
  next
    case False
    let ?d = "data[6 - Suc n := contents e ! a]"
    have "a0 \<le> Suc a" "Suc a \<le> z" using z False Suc.prems by simp_all
    from Suc.IH [OF this, of ?d] obtain r' where r': "macro_delay ee n (of_nat (Suc a)) ?d e = Some r'"
      "macro_delay ee n (of_nat (Suc a)) ?d e' = Some r'"
      "\<forall>p data'. r' = Some (p, data') \<longrightarrow> (\<exists>a'. p = of_nat a' \<and> Suc a < a' \<and> a' \<le> z)" by blast
    then show ?thesis using r False
      by (auto simp: macro_delay.simps [of ee "Suc n"] Let_def add.commute dest: Suc_lessD)
  qed
qed

lemma macro_loop_within:
  assumes "inv e" and "inv e'" and "size_of \<le> 2 ^ 16" and "z < size_of" and "contents e ! z = 0"
    and "\<And>i. a0 \<le> i \<Longrightarrow> i \<le> z \<Longrightarrow> contents e' ! i = contents e ! i" and "a0 \<le> a" and "a \<le> z"
  shows "\<exists>r. macro_loop ee e (of_nat a) data sent = Some r \<and> macro_loop ee e' (of_nat a) data sent = Some r"
  using assms(7,8)
proof (induction "z - a" arbitrary: a data sent rule: less_induct)
  case less
  have r: "eeprom_read_byte ee (of_nat b) e = Some (contents e ! b)" "eeprom_read_byte ee (of_nat b) e' = Some (contents e ! b)"
    if "a \<le> b" "b \<le> z" for b
    using read_at [OF assms(1,3), of b] read_at [OF assms(2,3), of b] assms(4) assms(6) [of b] less.prems that by simp_all
  have nz: "b < z" if "contents e ! b \<noteq> 0" "b \<le> z" for b using that assms(5) by (cases "b = z") simp_all
  have again: "\<exists>r. macro_loop ee e (of_nat b) d t = Some r \<and> macro_loop ee e' (of_nat b) d t = Some r"
    if "a < b" "b \<le> z" for b d t using less.hyps [of b d t] less.prems that by simp
  note step = macro_loop.simps [of ee e "of_nat a"] macro_loop.simps [of ee e' "of_nat a"]
  let ?b0 = "contents e ! a" and ?b1 = "contents e ! Suc a" and ?b2 = "contents e ! Suc (Suc a)"
  have addr: "(of_nat a :: u32) + 1 = of_nat (Suc a)" "(of_nat a :: u32) + 2 = of_nat (Suc (Suc a))"
    "(of_nat a :: u32) + 3 = of_nat (Suc (Suc (Suc a)))" by simp_all
  show ?case
  proof (cases "?b0 = 0")
    case True
    then show ?thesis using r [of a] less.prems by (simp add: step Let_def)
  next
    case b0: False
    then have s1: "Suc a \<le> z" using nz [of a] less.prems by simp
    show ?thesis
    proof (cases "?b0 = SS_QMK_PREFIX")
      case False
      then show ?thesis using r [of a] b0 less.prems again [of "Suc a"] s1 unfolding step addr by (simp add: Let_def)
    next
      case pre: True
      show ?thesis
      proof (cases "?b1 = 0")
        case True
        then show ?thesis using r [of a] r [of "Suc a"] b0 pre s1 less.prems unfolding step addr by (simp add: Let_def)
      next
        case b1: False
        then have s2: "Suc (Suc a) \<le> z" using nz [of "Suc a"] s1 by simp
        have R: "eeprom_read_byte ee (of_nat a) e = Some ?b0" "eeprom_read_byte ee (of_nat a) e' = Some ?b0"
          "eeprom_read_byte ee (of_nat (Suc a)) e = Some ?b1" "eeprom_read_byte ee (of_nat (Suc a)) e' = Some ?b1"
          "eeprom_read_byte ee (of_nat (Suc (Suc a))) e = Some ?b2" "eeprom_read_byte ee (of_nat (Suc (Suc a))) e' = Some ?b2"
          using r [of a] r [of "Suc a"] r [of "Suc (Suc a)"] less.prems s1 s2 by simp_all
        let ?key = "?b1 = SS_TAP_CODE \<or> ?b1 = SS_DOWN_CODE \<or> ?b1 = SS_UP_CODE"
        consider (key) "?key" | (delay) "\<not> ?key" "?b1 = SS_DELAY_CODE" | (other) "\<not> ?key" "?b1 \<noteq> SS_DELAY_CODE" by blast
        then show ?thesis
        proof cases
          case key
          show ?thesis
          proof (cases "?b2 = 0")
            case True
            then show ?thesis unfolding step addr using R b0 pre b1 key by (simp add: Let_def)
          next
            case False
            then have s3: "Suc (Suc (Suc a)) \<le> z" using nz [of "Suc (Suc a)"] s2 by simp
            show ?thesis unfolding step addr using R b0 pre b1 key False again [of "Suc (Suc (Suc a))"] s3
              by (simp add: Let_def del: of_nat_Suc)
          qed
        next
          case delay
          let ?d = "data[0 := ?b0, Suc 0 := 0, Suc 0 := ?b1]"
          have "a0 \<le> Suc (Suc a)" using less.prems by simp
          from macro_delay_within [OF assms(1-6) this s2, of 4 ?d] obtain q where q:
            "macro_delay ee 4 (of_nat (Suc (Suc a))) ?d e = Some q" "macro_delay ee 4 (of_nat (Suc (Suc a))) ?d e' = Some q"
            "\<forall>p data'. q = Some (p, data') \<longrightarrow> (\<exists>a'. p = of_nat a' \<and> Suc (Suc a) < a' \<and> a' \<le> z)" by blast
          show ?thesis
          proof (cases q)
            case None
            then show ?thesis unfolding step addr using R b0 pre b1 delay q by (simp add: Let_def del: of_nat_Suc)
          next
            case (Some pd)
            obtain p d where pd: "pd = (p, d)" by (cases pd)
            then obtain a' where a': "p = of_nat a'" "Suc (Suc a) < a'" "a' \<le> z" using q(3) Some by blast
            then show ?thesis unfolding step addr using R b0 pre b1 delay q(1,2) Some pd again [of a'] 
              by (simp add: Let_def del: of_nat_Suc)
          qed
        next
          case other
          then show ?thesis unfolding step addr using R b0 pre b1 again [of "Suc (Suc a)"] s2
            by (simp add: Let_def del: of_nat_Suc)
        qed
      qed
    qed
  qed
qed

lemma macros_view: "spec_macros (view c (contents e)) = mem_get (DYNAMIC_KEYMAP_MACRO_EEPROM_ADDR c) (DYNAMIC_KEYMAP_MACRO_EEPROM_SIZE c) (contents e)"
  by (simp add: view_def)

lemma macro_start:
  assumes "dk_ok c size_of" and "inv e"
  defines "bs \<equiv> spec_macros (view c (contents e))"
  shows "macro_strings c ee num e =
    (if DYNAMIC_KEYMAP_MACRO_COUNT c \<le> unat num \<or> last bs \<noteq> 0 then Some []
     else case skip_zeros bs (unat num) of None \<Rightarrow> Some []
       | Some off \<Rightarrow> macro_loop ee e (of_nat (DYNAMIC_KEYMAP_MACRO_EEPROM_ADDR c + off)) (replicate 8 0) [])"
proof -
  let ?A = "DYNAMIC_KEYMAP_MACRO_EEPROM_ADDR c" and ?n = "DYNAMIC_KEYMAP_MACRO_EEPROM_SIZE c"
  note D = dk_okD(3,4,13) [OF assms(1)]
  have len: "length bs = ?n" using D contents_size [OF assms(2)] by (simp add: bs_def view_def length_simps)
  have "bs \<noteq> []" using len D by auto
  then have "last bs = contents e ! (?A + ?n - 1)"
    using len D contents_size [OF assms(2)] by (simp add: last_conv_nth bs_def macros_view mem_get_nth)
  moreover have "eeprom_read_byte ee (of_nat (?A + ?n - 1)) e = Some (contents e ! (?A + ?n - 1))"
    by (rule read_at [OF assms(2) D(2)]) (use D in linarith)
  ultimately have l: "eeprom_read_byte ee (of_nat (?A + ?n - 1)) e = Some (last bs)" by simp
  have s: "macro_skip ee ?n (of_nat ?A) (unat num) e = Some (map_option (\<lambda>off. of_nat (?A + off)) (skip_zeros bs (unat num)))"
    unfolding bs_def macros_view by (rule macro_skip_zeros [OF assms(2) D(2,1)])
  show ?thesis
    unfolding macro_strings_def Let_def l s by (auto split: option.splits)
qed

lemma strings_within:
  assumes ok: "dk_ok c size_of" and i: "inv e" "inv e'"
    and same: "spec_macros (view c (contents e')) = spec_macros (view c (contents e))"
    and num: "unat num < zeros (spec_macros (view c (contents e)))"
  shows "\<exists>strings. macro_strings c ee num e = Some strings \<and> macro_strings c ee num e' = Some strings"
proof -
  let ?A = "DYNAMIC_KEYMAP_MACRO_EEPROM_ADDR c" and ?n = "DYNAMIC_KEYMAP_MACRO_EEPROM_SIZE c"
  let ?bs = "spec_macros (view c (contents e))"
  note D = dk_okD(3,4) [OF ok]
  have len: "length ?bs = ?n" using D contents_size [OF i(1)] by (simp add: view_def length_simps)
  have at0: "contents x ! (?A + j) = spec_macros (view c (contents x)) ! j" if "j < ?n" "inv x" for j x
    using that D contents_size [OF that(2)] by (simp add: macros_view mem_get_nth)
  have at: "contents e ! (?A + j) = ?bs ! j" "contents e' ! (?A + j) = ?bs ! j" if "j < ?n" for j
    using at0 [OF that i(1)] at0 [OF that i(2)] same by simp_all
  obtain off where off: "skip_zeros ?bs (unat num) = Some off" "off \<le> length ?bs" "zeros (drop off ?bs) + unat num = zeros ?bs"
    using skip_zeros_Some [of "unat num" ?bs] num by auto
  then have "0 < zeros (drop off ?bs)" using num by linarith
  then obtain j where j: "j < length (drop off ?bs)" "drop off ?bs ! j = 0" unfolding zeros_pos by blast
  let ?z = "?A + (off + j)"
  have jn: "off + j < ?n" using j(1) len by simp
  have z: "?z < size_of" "contents e ! ?z = 0" using jn D j(2) at(1) [of "off + j"] off(2) len by simp_all
  have "\<exists>r. macro_loop ee e (of_nat (?A + off)) (replicate 8 0) [] = Some r \<and> macro_loop ee e' (of_nat (?A + off)) (replicate 8 0) [] = Some r"
  proof (rule macro_loop_within [OF i D(2) z])
    show "contents e' ! k = contents e ! k" if "?A + off \<le> k" "k \<le> ?z" for k
      using at [of "k - ?A"] that jn by simp
  qed simp_all
  then show ?thesis
    unfolding macro_start [OF ok i(1)] macro_start [OF ok i(2)] same using off(1) by auto
qed

lemma strings_past_end:
  assumes ok: "dk_ok c size_of" and i: "inv e" and num: "unat num < DYNAMIC_KEYMAP_MACRO_COUNT c" "last (spec_macros (view c (contents e))) = 0"
    "unat num = zeros (spec_macros (view c (contents e)))"
    and room: "DYNAMIC_KEYMAP_MACRO_EEPROM_ADDR c + DYNAMIC_KEYMAP_MACRO_EEPROM_SIZE c + 1 < size_of"
    and bytes: "contents e ! (DYNAMIC_KEYMAP_MACRO_EEPROM_ADDR c + DYNAMIC_KEYMAP_MACRO_EEPROM_SIZE c) = b" "b \<noteq> 0" "b \<noteq> SS_QMK_PREFIX"
    "contents e ! Suc (DYNAMIC_KEYMAP_MACRO_EEPROM_ADDR c + DYNAMIC_KEYMAP_MACRO_EEPROM_SIZE c) = 0"
  shows "macro_strings c ee num e = Some [[b, 0, 0, 0, 0, 0, 0, 0]]"
proof -
  let ?bs = "spec_macros (view c (contents e))" and ?a = "DYNAMIC_KEYMAP_MACRO_EEPROM_ADDR c + DYNAMIC_KEYMAP_MACRO_EEPROM_SIZE c"
  note D = dk_okD(3,4,13) [OF ok]
  have len: "length ?bs = DYNAMIC_KEYMAP_MACRO_EEPROM_SIZE c" using D contents_size [OF i] by (simp add: view_def length_simps)
  obtain off where off: "skip_zeros ?bs (unat num) = Some off" "off \<le> length ?bs" "zeros (drop off ?bs) + unat num = zeros ?bs"
    using skip_zeros_Some [of "unat num" ?bs] num(3) by auto
  have "off = length ?bs"
  proof (rule ccontr)
    assume "off \<noteq> length ?bs"
    then have l: "off < length ?bs" using off(2) by simp
    then have "last (drop off ?bs) = 0" "drop off ?bs \<noteq> []" using num(2) by simp_all
    then have "0 < zeros (drop off ?bs)" unfolding zeros_pos
      by (intro exI [of _ "length (drop off ?bs) - 1"]) (simp add: last_conv_nth)
    then show False using off(3) num(3) by linarith
  qed
  then have start: "macro_strings c ee num e = macro_loop ee e (of_nat ?a) (replicate 8 0) []"
    unfolding macro_start [OF ok i] using num(1,2) off(1) len by simp
  have r: "eeprom_read_byte ee (of_nat ?a) e = Some b" "eeprom_read_byte ee (of_nat (Suc ?a)) e = Some 0"
    using read_at [OF i D(2), of ?a] read_at [OF i D(2), of "Suc ?a"] room bytes by simp_all
  have sc: "(of_nat ?a :: u32) + 1 = of_nat (Suc ?a)" by simp
  show ?thesis
    unfolding start macro_loop.simps [of ee e "of_nat ?a"] r(1) sc Let_def
    using bytes r(2) by (simp add: macro_loop.simps [of ee e "of_nat (Suc ?a)"] Let_def numeral_eq_Suc del: of_nat_Suc of_nat_add)
qed

end

section \<open>Properties\<close>

text \<open>C23: Reading a macro that exists returns, and what is sent depends on the macro buffer alone: a macro
  whose number is below the number of zero bytes in the buffer is read inside the buffer only.\<close>

theorem macro_send_stays_in_buffer:
  assumes "eeprom_store ee ok mem n" and "dk_ok c n" and "ok e" and "ok e'"
    and "spec_macros (view c (mem e')) = spec_macros (view c (mem e))"
    and "unat num < zeros (spec_macros (view c (mem e)))"
  shows "\<exists>strings. macro_strings c ee num e = Some strings \<and> macro_strings c ee num e' = Some strings"
  by (rule eeprom_store.strings_within [OF assms])

lemma macro_send_stays_in_buffer_witness:
  "\<exists>e strings. spec_macros (view demo_dk (cache e)) = [0x61, 1, 1, 4, 0] @ replicate 55 0
    \<and> macro_strings demo_dk (wl_eeprom nor_cfg nor_driver) 0 e = Some strings"
proof -
  let ?ee = "wl_eeprom nor_cfg nor_driver" and ?bs = "[0x61, 1, 1, 4, 0] :: u8 list"
  have init: "spec_macros (view demo_dk (cache (eeprom (dyn_keymap_init nor_wl)))) = replicate 60 0"
    by (simp add: view_def demo_dk_def dyn_keymap_init_def nor_wl_def mem_get_def)
  obtain s where s: "dk_inv demo_dk (wl_inv nor_cfg nor.efl_dev) cache s"
    "spec_macros (view demo_dk (cache (eeprom s))) = overlay 0 ?bs (replicate 60 0)"
    using eeprom_store.step_ok [OF nor_store demo_dk_ok demo_dk_inv, where x = "Macro_write 0 ?bs"] init by fastforce
  have o: "overlay 0 ?bs (replicate 60 0) = ?bs @ replicate 55 0"
    by (rule nth_equalityI) (auto simp: overlay_def nth_append nth_Cons split: nat.split)
  have i: "wl_inv nor_cfg nor.efl_dev (eeprom s)" using s(1) by (simp add: dk_inv_def)
  show ?thesis
    using macro_send_stays_in_buffer [OF nor_store demo_dk_ok i i refl, of 0] s(2) o by (auto simp: zeros_def)
qed

text \<open>When as many macros are asked for as there are zero bytes, the skipping loop stops exactly behind
  the buffer without noticing, and the bytes that follow the macros in the EEPROM are sent as a
  macro, although the last byte of the buffer was checked to be zero.\<close>

theorem macro_send_runs_past_end:
  assumes "eeprom_store ee ok mem n" and "dk_ok c n" and "ok e"
    and "unat num < DYNAMIC_KEYMAP_MACRO_COUNT c" and "last (spec_macros (view c (mem e))) = 0"
    and "unat num = zeros (spec_macros (view c (mem e)))"
    and "DYNAMIC_KEYMAP_MACRO_EEPROM_ADDR c + DYNAMIC_KEYMAP_MACRO_EEPROM_SIZE c + 1 < n"
    and "mem e ! (DYNAMIC_KEYMAP_MACRO_EEPROM_ADDR c + DYNAMIC_KEYMAP_MACRO_EEPROM_SIZE c) = b" and "b \<noteq> 0" and "b \<noteq> SS_QMK_PREFIX"
    and "mem e ! Suc (DYNAMIC_KEYMAP_MACRO_EEPROM_ADDR c + DYNAMIC_KEYMAP_MACRO_EEPROM_SIZE c) = 0"
  shows "macro_strings c ee num e = Some [[b, 0, 0, 0, 0, 0, 0, 0]]"
  by (rule eeprom_store.strings_past_end [OF assms])

lemma macro_send_runs_past_end_witness:
  "\<exists>e. mem_get 36 50 (cache e) = replicate 50 0 \<and> macro_strings
      (demo_dk\<lparr>DYNAMIC_KEYMAP_MACRO_EEPROM_SIZE := 50, DYNAMIC_KEYMAP_MACRO_COUNT := 60\<rparr>)
      (wl_eeprom nor_cfg nor_driver) 50 e = Some [[0x41, 0, 0, 0, 0, 0, 0, 0]]"
proof -
  let ?ee = "wl_eeprom nor_cfg nor_driver" and ?c = "demo_dk\<lparr>DYNAMIC_KEYMAP_MACRO_EEPROM_SIZE := 50, DYNAMIC_KEYMAP_MACRO_COUNT := 60\<rparr>"
  have u: "unat (86 :: u32) < 96" by simp
  obtain e where e: "wl_inv nor_cfg nor.efl_dev e" "cache e = (replicate 96 0)[86 := 0x41]"
    using eeprom_store.update_byte [OF nor_store nor_inv u, of "0x41"] by (auto simp: nor_wl_def)
  have ok: "dk_ok ?c 96" by (simp add: dk_ok_def demo_dk_def)
  have m: "mem_get 36 50 (cache e) = replicate 50 0"
    unfolding e(2) by (rule nth_equalityI) (auto simp: mem_get_def)
  then have v: "spec_macros (view ?c (cache e)) = replicate 50 0" by (simp add: view_def demo_dk_def)
  have fields: "DYNAMIC_KEYMAP_MACRO_EEPROM_ADDR ?c = 36" "DYNAMIC_KEYMAP_MACRO_EEPROM_SIZE ?c = 50" "DYNAMIC_KEYMAP_MACRO_COUNT ?c = 60"
    by (simp_all add: demo_dk_def)
  have "macro_strings ?c ?ee 50 e = Some [[0x41, 0, 0, 0, 0, 0, 0, 0]]"
    by (rule macro_send_runs_past_end [OF nor_store ok e(1)])
      (simp_all add: v fields zeros_def SS_QMK_PREFIX_def, simp_all add: e(2))
  then show ?thesis using m by blast
qed

end
