(* ===== verification/SendStringProps.thy ===== *)
theory SendStringProps
  imports SendString ActionProps
begin

text \<open>Theorems on typing strings.\<close>

section \<open>The tables\<close>

definition typed_as :: "nat \<Rightarrow> u8 \<times> bool" where
  "typed_as i = (ascii_to_keycode_lut ! i, PGM_LOADBIT ascii_to_shift_lut i)"

lemma table_codes:
  assumes "i < 128"
  shows "ascii_to_keycode_lut ! i = 0 \<or> IS_BASIC_KEYCODE (ascii_to_keycode_lut ! i)"
    and "\<not> PGM_LOADBIT ascii_to_altgr_lut i" and "\<not> PGM_LOADBIT ascii_to_dead_lut i"
proof -
  have "length ascii_to_keycode_lut = 128" by (simp add: ascii_to_keycode_lut_def)
  moreover have "list_all (\<lambda>k. k = 0 \<or> IS_BASIC_KEYCODE k) ascii_to_keycode_lut"
    by (simp add: ascii_to_keycode_lut_def IS_BASIC_KEYCODE_def)
  ultimately show "ascii_to_keycode_lut ! i = 0 \<or> IS_BASIC_KEYCODE (ascii_to_keycode_lut ! i)"
    using assms by (simp add: list_all_length)
  have "i div 8 < 16" using assms by simp
  then show "\<not> PGM_LOADBIT ascii_to_altgr_lut i" "\<not> PGM_LOADBIT ascii_to_dead_lut i"
    by (simp_all add: PGM_LOADBIT_def ascii_to_altgr_lut_def ascii_to_dead_lut_def)
qed

lemma typed_distinct: "distinct (map typed_as [0x20..<0x7F])"
  by code_simp

section \<open>Typing leaves nothing behind\<close>

lemma real_mods_send [simp]: "real_mods (util (send_report d s)) = real_mods (util s)"
proof -
  have g: "get_mods_for_report v t u = (m, u') \<Longrightarrow> real_mods u' = real_mods u" for v t u m and u' :: "'a util_state"
    by (auto simp: get_mods_for_report_def clear_oneshot_mods_def stamp_def Let_def split: if_splits)
  have six: "real_mods (send_6kro_report v t u) = real_mods u" for v t and u :: "'a util_state"
    by (cases "get_mods_for_report v t u") (auto simp: send_6kro_report_def Let_def emit_def dest: g)
  have n: "real_mods (send_nkro_report v t u) = real_mods u" for v t and u :: "'a util_state"
    by (cases "get_mods_for_report v t u") (auto simp: send_nkro_report_def Let_def emit_def dest: g)
  show ?thesis using six n by (simp add: send_report_def on_util_def send_keyboard_report_def Let_def split: build.split)
qed

lemma real_mods_keys [simp]:
  "real_mods (util (add_key d k s)) = real_mods (util s)" "real_mods (util (del_key d k s)) = real_mods (util s)"
  "real_mods (util (wait_ms n s)) = real_mods (util s)" "held_keys c p q (wait_ms n s) = held_keys c p q s"
  by (simp_all add: add_key_def del_key_def on_util_def wait_ms_def held_keys_def)

lemma tap_plain:
  assumes "\<not> LOCKING_SUPPORT_ENABLE c" and "act_ok c p q s" and "code = 0 \<or> IS_BASIC_KEYCODE code"
  shows "held_keys c p q (tap_code c code s) \<subseteq> held_keys c p q s" and "real_mods (util (tap_code c code s)) = real_mods (util s)"
proof -
  define d where "d = (if code = KC_CAPS_LOCK then TAP_HOLD_CAPS_DELAY c else TAP_CODE_DELAY c)"
  have t: "tap_code c code s = unregister_code c code (wait_ms (unat (of_nat d :: u16)) (register_code c code s))"
    by (simp add: tap_code_def tap_code_delay_def d_def)
  show "held_keys c p q (tap_code c code s) \<subseteq> held_keys c p q s"
  proof (cases "code = 0")
    case True
    then show ?thesis unfolding t by (simp add: register_code_def unregister_code_def KC_NO_def)
  next
    case False
    then have b: "IS_BASIC_KEYCODE code" using assms(3) by simp
    have "act_ok c p q (wait_ms (unat (of_nat d :: u16)) (register_code c code s))" using assms by simp
    then show ?thesis
      using register_basic(1) [OF assms(1,2) b] by (auto simp: t unregister_basic [OF assms(1) _ b])
  qed
  show "real_mods (util (tap_code c code s)) = real_mods (util s)"
    using assms(1,3) by (auto simp: t register_code_def unregister_code_def KC_NO_def no_locking Let_def)
qed

lemma shift_steps:
  assumes "\<not> LOCKING_SUPPORT_ENABLE c"
  shows "held_keys c p q (register_code c KC_LEFT_SHIFT s) = held_keys c p q s"
    and "held_keys c p q (unregister_code c KC_LEFT_SHIFT s) = held_keys c p q s"
    and "real_mods (util (register_code c KC_LEFT_SHIFT s)) = real_mods (util s) OR 2"
    and "real_mods (util (unregister_code c KC_LEFT_SHIFT s)) = real_mods (util s) AND NOT 2"
proof -
  have k: "KC_LEFT_SHIFT \<noteq> KC_NO" "\<not> IS_BASIC_KEYCODE KC_LEFT_SHIFT" "IS_MODIFIER_KEYCODE KC_LEFT_SHIFT" "MOD_BIT KC_LEFT_SHIFT = 2"
    by (simp_all add: KC_LEFT_SHIFT_def KC_NO_def IS_BASIC_KEYCODE_def IS_MODIFIER_KEYCODE_def KC_LEFT_CTRL_def KC_RIGHT_GUI_def MOD_BIT_def)
  have "byte_keys (note_change v m x) = byte_keys x" "bit_keys (note_change v m x) = bit_keys x" for v m x
    by (simp_all add: byte_keys_def bit_keys_def in_bits_def note_change_def)
  then have n: "report_held b p q (note_change v m x) = report_held b p q x" for b v m x
    by (cases "report_mode b p q") (simp_all add: report_held_def)
  have h: "held_keys c p q (on_util (add_mods v m) t) = held_keys c p q t" "held_keys c p q (on_util (del_mods v m) t) = held_keys c p q t"
    "real_mods (util (on_util (add_mods v m) t)) = real_mods (util t) OR m"
    "real_mods (util (on_util (del_mods v m) t)) = real_mods (util t) AND NOT m" for v m and t :: "'a word act_state"
    by (simp_all add: held_keys_def on_util_def add_mods_def del_mods_def std_changed_def n)
  show "held_keys c p q (register_code c KC_LEFT_SHIFT s) = held_keys c p q s"
    "held_keys c p q (unregister_code c KC_LEFT_SHIFT s) = held_keys c p q s"
    "real_mods (util (register_code c KC_LEFT_SHIFT s)) = real_mods (util s) OR 2"
    "real_mods (util (unregister_code c KC_LEFT_SHIFT s)) = real_mods (util s) AND NOT 2"
    using assms k by (simp_all add: register_code_def unregister_code_def no_locking h)
qed

text \<open>
  Typing sets no weak, one-shot or locked modifier; one-shot modifiers that were set go out with a key
  and are off then, or stay.
\<close>

definition mods_kept :: "'w act_state \<Rightarrow> 'w act_state \<Rightarrow> bool" where
  "mods_kept s s' \<longleftrightarrow> weak_mods (util s') = weak_mods (util s) \<and> weak_override_mods (util s') = weak_override_mods (util s)
     \<and> oneshot_locked_mods (util s') = oneshot_locked_mods (util s)
     \<and> (oneshot_mods (util s') = oneshot_mods (util s) \<or> oneshot_mods (util s') = 0)"

lemma mods_kept_refl [simp]: "mods_kept s s"
  by (simp add: mods_kept_def)

lemma mods_kept_trans [trans]: "mods_kept s t \<Longrightarrow> mods_kept t u \<Longrightarrow> mods_kept s u"
  by (auto simp: mods_kept_def)

lemma mods_kept_send [simp]: "mods_kept s (send_report d s)"
proof -
  let ?K = "\<lambda>(u :: 'a util_state) u'. weak_mods u' = weak_mods u \<and> weak_override_mods u' = weak_override_mods u
    \<and> oneshot_locked_mods u' = oneshot_locked_mods u \<and> (oneshot_mods u' = oneshot_mods u \<or> oneshot_mods u' = 0)"
  have g: "get_mods_for_report v t u = (m, u') \<Longrightarrow> ?K u u'" for v t u m and u' :: "'a util_state"
    by (auto simp: get_mods_for_report_def clear_oneshot_mods_def stamp_def Let_def split: if_splits)
  have six: "?K u (send_6kro_report v t u)" for v t and u :: "'a util_state"
    by (cases "get_mods_for_report v t u") (auto simp: send_6kro_report_def Let_def emit_def dest: g)
  have n: "?K u (send_nkro_report v t u)" for v t and u :: "'a util_state"
    by (cases "get_mods_for_report v t u") (auto simp: send_nkro_report_def Let_def emit_def dest: g)
  have "?K u (send_keyboard_report v t u)" for v t and u :: "'a util_state"
    using six n unfolding send_keyboard_report_def Let_def by (simp split: build.split) metis
  then show ?thesis by (simp add: mods_kept_def send_report_def on_util_def)
qed

lemma mods_kept_steps [simp]:
  "mods_kept s (add_key d k s)" "mods_kept s (del_key d k s)" "mods_kept s (wait_ms n s)"
  "mods_kept s (on_util (add_mods v m) s)" "mods_kept s (on_util (del_mods v m) s)"
  by (simp_all add: mods_kept_def add_key_def del_key_def on_util_def wait_ms_def add_mods_def del_mods_def std_changed_def)

lemma mods_kept_codes [simp]:
  assumes "\<not> LOCKING_SUPPORT_ENABLE c" and "code = KC_NO \<or> IS_BASIC_KEYCODE code \<or> IS_MODIFIER_KEYCODE code"
  shows "mods_kept s (register_code c code s)" and "mods_kept s (unregister_code c code s)"
proof -
  have step: "mods_kept s (send_report c t)" if "mods_kept s t" for t :: "'a act_state"
    using mods_kept_trans [OF that mods_kept_send] .
  have again: "mods_kept s (add_key c code t)" if "mods_kept s t" for t :: "'a act_state"
    using mods_kept_trans [OF that mods_kept_steps(1)] .
  show "mods_kept s (register_code c code s)" "mods_kept s (unregister_code c code s)"
    using assms by (auto simp: register_code_def unregister_code_def no_locking Let_def intro!: step again)
qed

lemma mods_kept_char:
  assumes lock: "\<not> LOCKING_SUPPORT_ENABLE c" and "unat a < 128" and "send_char c a s = Some s'"
  shows "mods_kept s s'"
proof -
  let ?k = "ascii_to_keycode_lut ! unat a"
  note T = table_codes [OF assms(2)]
  have tap: "mods_kept t (tap_code c ?k t)" for t
  proof -
    have k: "?k = KC_NO \<or> IS_BASIC_KEYCODE ?k \<or> IS_MODIFIER_KEYCODE ?k" using T(1) by (auto simp: KC_NO_def)
    have "mods_kept t (wait_ms n (register_code c ?k t))" for n
      using mods_kept_trans [OF mods_kept_codes(1) [OF lock k] mods_kept_steps(3)] .
    then show ?thesis
      unfolding tap_code_def tap_code_delay_def using mods_kept_trans [OF _ mods_kept_codes(2) [OF lock k]] by blast
  qed
  have shift: "mods_kept t (register_code c KC_LEFT_SHIFT t)" "mods_kept t (unregister_code c KC_LEFT_SHIFT t)" for t
    by (rule mods_kept_codes [OF lock], simp add: KC_LEFT_SHIFT_def IS_MODIFIER_KEYCODE_def KC_LEFT_CTRL_def KC_RIGHT_GUI_def)+
  show ?thesis
  proof (cases "PGM_LOADBIT ascii_to_shift_lut (unat a)")
    case False
    then show ?thesis using assms(3) T(2,3) tap by (auto simp: send_char_def Let_def split: if_splits)
  next
    case True
    have "mods_kept s (unregister_code c KC_LEFT_SHIFT (tap_code c ?k (register_code c KC_LEFT_SHIFT s)))"
      using mods_kept_trans [OF mods_kept_trans [OF shift(1) tap] shift(2)] .
    then show ?thesis using True assms(3) T(2,3) by (auto simp: send_char_def Let_def split: if_splits)
  qed
qed

lemma send_char_clean:
  assumes lock: "\<not> LOCKING_SUPPORT_ENABLE c" and ok: "act_ok c p q s" and a: "unat a < 128"
  shows "\<exists>s'. send_char c a s = Some s' \<and> act_ok c p q s' \<and> held_keys c p q s' \<subseteq> held_keys c p q s
    \<and> bits_of (real_mods (util s')) \<subseteq> bits_of (real_mods (util s))"
proof -
  let ?k = "ascii_to_keycode_lut ! unat a"
  note T = table_codes [OF a]
  show ?thesis
  proof (cases "PGM_LOADBIT ascii_to_shift_lut (unat a)")
    case False
    then show ?thesis using T a tap_plain [OF lock ok T(1)] lock ok by (simp add: send_char_def Let_def)
  next
    case True
    let ?s1 = "register_code c KC_LEFT_SHIFT s"
    have ok1: "act_ok c p q ?s1" using lock ok by simp
    have "(x OR 2) AND NOT 2 = x AND NOT 2" for x :: u8 by (rule bit_word_eqI) (auto simp: bit_simps)
    then have "bits_of (real_mods (util (unregister_code c KC_LEFT_SHIFT (tap_code c ?k ?s1)))) \<subseteq> bits_of (real_mods (util s))"
      by (auto simp: shift_steps [OF lock] tap_plain [OF lock ok1 T(1)] bits_of_def bit_simps)
    then show ?thesis
      using True T a tap_plain(1) [OF lock ok1 T(1)] lock ok shift_steps [OF lock] by (simp add: send_char_def Let_def)
  qed
qed

definition plain_text :: "u8 list \<Rightarrow> bool" where
  "plain_text cs \<longleftrightarrow> list_all (\<lambda>b. b \<noteq> 0 \<and> b \<noteq> SS_QMK_PREFIX \<and> unat b < 128) cs"

text \<open>C22: Typing a text of ASCII characters returns and leaves nothing behind: no key and no modifier is
  pressed afterwards that was not before, no weak, one-shot or locked modifier is set, of one-shot
  modifiers set before either all are still set or they have gone out with a key; and different
  printable characters are typed as different keys or with different shift.\<close>

theorem send_string_leaves_nothing_held:
  assumes "\<not> LOCKING_SUPPORT_ENABLE c" and "act_ok c p q s" and "plain_text cs"
  shows "(\<exists>s'. send_string_with_delay c interval (cs @ 0 # rest) s = Some s' \<and> act_ok c p q s'
      \<and> held_keys c p q s' \<subseteq> held_keys c p q s \<and> bits_of (real_mods (util s')) \<subseteq> bits_of (real_mods (util s)) \<and> mods_kept s s')
    \<and> distinct (map typed_as [0x20..<0x7F])"
proof -
  have "\<exists>s'. send_string_with_delay c interval (cs @ 0 # rest) s = Some s' \<and> act_ok c p q s'
      \<and> held_keys c p q s' \<subseteq> held_keys c p q s \<and> bits_of (real_mods (util s')) \<subseteq> bits_of (real_mods (util s)) \<and> mods_kept s s'"
    using assms(2,3)
  proof (induction cs arbitrary: s)
    case Nil
    then show ?case by (simp add: send_string_with_delay.simps)
  next
    case (Cons b cs)
    have b: "b \<noteq> 0" "b \<noteq> SS_QMK_PREFIX" "unat b < 128" "plain_text cs" using Cons.prems(2) by (simp_all add: plain_text_def)
    obtain s1 where s1: "send_char c b s = Some s1" "act_ok c p q s1" "held_keys c p q s1 \<subseteq> held_keys c p q s"
      "bits_of (real_mods (util s1)) \<subseteq> bits_of (real_mods (util s))"
      using send_char_clean [OF assms(1) Cons.prems(1) b(3)] by blast
    have ok: "act_ok c p q (wait_ms (unat interval) s1)" using s1(2) by simp
    obtain s' where s': "send_string_with_delay c interval (cs @ 0 # rest) (wait_ms (unat interval) s1) = Some s'" "act_ok c p q s'"
      "held_keys c p q s' \<subseteq> held_keys c p q s1" "bits_of (real_mods (util s')) \<subseteq> bits_of (real_mods (util s1))" "mods_kept (wait_ms (unat interval) s1) s'"
      using Cons.IH [OF ok b(4)] by auto
    have "mods_kept s s'"
      using mods_kept_trans [OF mods_kept_trans [OF mods_kept_char [OF assms(1) b(3) s1(1)] mods_kept_steps(3)] s'(5)] .
    then show ?case
      using s' s1 b by (subst send_string_with_delay.simps) auto
  qed
  then show ?thesis using typed_distinct by blast
qed

lemma send_string_leaves_nothing_held_witness:
  "\<exists>s'. send_string_with_delay (demo_act (\<lambda>_ _. 0)) 0 [0x48, 0x69, 0x21, 0] demo_act_state = Some s'
    \<and> held_keys (demo_act (\<lambda>_ _. 0)) True True s' \<subseteq> held_keys (demo_act (\<lambda>_ _. 0)) True True demo_act_state"
proof -
  have "\<not> LOCKING_SUPPORT_ENABLE (demo_act (\<lambda>_ _. 0))" "plain_text [0x48, 0x69, 0x21]"
    by (simp_all add: demo_act_def plain_text_def SS_QMK_PREFIX_def)
  from send_string_leaves_nothing_held [OF this(1) demo_ok this(2), of 0 "[]", THEN conjunct1] show ?thesis by auto
qed

end
