(* ===== verification/ReportBuffer.thy ===== *)
theory ReportBuffer
  imports Ring Prelude
begin

text \<open>
  The queue of reports for the radio module, keyboards/keychron/common/wireless/report_buffer.c:
  reports wait in a ring of 256 slots and are sent one by one, each of them again until the
  module acknowledges it or the repetitions run out. The time and the connection are parameters;
  an operation that transmits returns what it transmits.
\<close>

section \<open>State\<close>

datatype report_buffer_t = REPORT_NONE | REPORT_KB u8 "u8 list" | REPORT_NKRO u8 "u8 list" | REPORT_CONSUMER u16

text \<open>Which functions the module's driver provides, and the build option for NKRO.\<close>

record wt_func =
  send_keyboard :: bool
  send_nkro :: bool
  send_consumer :: bool
  send_system :: bool
  send_mouse :: bool
  pairing_ex :: bool
  disconnect :: bool
  update_bat_level :: bool
  WIRELESS_NKRO_ENABLE :: bool

record report_buf =
  report_interval :: u8
  report_timer_buffer :: u32
  retry_time_buffer :: u32
  report_buffer_queue :: "report_buffer_t list"
  report_buffer_queue_head :: u16
  report_buffer_queue_tail :: u16
  kb_rpt :: report_buffer_t
  retry :: u8

definition REPORT_BUFFER_QUEUE_SIZE :: nat where "REPORT_BUFFER_QUEUE_SIZE = 256"
definition RETPORT_RETRY_COUNT :: u8 where "RETPORT_RETRY_COUNT = 30"

definition timer_elapsed32 :: "u32 \<Rightarrow> u32 \<Rightarrow> u32" where
  "timer_elapsed32 now before = now - before"

section \<open>Operations\<close>

definition report_buffer_init :: "u32 \<Rightarrow> report_buf \<Rightarrow> report_buf" where
  "report_buffer_init now b =
     b\<lparr>report_buffer_queue := replicate REPORT_BUFFER_QUEUE_SIZE REPORT_NONE, report_buffer_queue_head := 0,
       report_buffer_queue_tail := 0, retry := 0, report_timer_buffer := now\<rparr>"

definition report_buffer_enqueue :: "report_buffer_t \<Rightarrow> report_buf \<Rightarrow> bool \<times> report_buf" where
  "report_buffer_enqueue r b =
     (let next = ring_next REPORT_BUFFER_QUEUE_SIZE (report_buffer_queue_head b)
      in if next = report_buffer_queue_tail b then (False, b)
         else (True, b\<lparr>report_buffer_queue := (report_buffer_queue b)[unat (report_buffer_queue_head b) := r],
                       report_buffer_queue_head := next\<rparr>))"

text \<open>\<open>None\<close> where the code returns false and leaves its argument alone.\<close>

definition report_buffer_dequeue :: "report_buf \<Rightarrow> report_buffer_t option \<times> report_buf" where
  "report_buffer_dequeue b =
     (if report_buffer_queue_head b = report_buffer_queue_tail b then (None, b)
      else (Some (report_buffer_queue b ! unat (report_buffer_queue_tail b)),
            b\<lparr>report_buffer_queue_tail := ring_next REPORT_BUFFER_QUEUE_SIZE (report_buffer_queue_tail b)\<rparr>))"

definition report_buffer_is_empty :: "report_buf \<Rightarrow> bool" where
  "report_buffer_is_empty b \<longleftrightarrow> report_buffer_queue_head b = report_buffer_queue_tail b"

definition report_buffer_update_timer :: "u32 \<Rightarrow> report_buf \<Rightarrow> report_buf" where
  "report_buffer_update_timer now b = b\<lparr>report_timer_buffer := now\<rparr>"

definition report_buffer_next_inverval :: "u32 \<Rightarrow> report_buf \<Rightarrow> bool" where
  "report_buffer_next_inverval now b \<longleftrightarrow> timer_elapsed32 now (report_timer_buffer b) > ucast (report_interval b)"

definition report_buffer_set_inverval :: "u8 \<Rightarrow> report_buf \<Rightarrow> report_buf" where
  "report_buffer_set_inverval interval b = b\<lparr>report_interval := interval\<rparr>"

definition report_buffer_set_retry :: "u8 \<Rightarrow> report_buf \<Rightarrow> report_buf" where
  "report_buffer_set_retry n b = b\<lparr>retry := n\<rparr>"

text \<open>What the driver is called with for a report: nothing where it has no function for it.\<close>

fun transmission :: "wt_func \<Rightarrow> report_buffer_t \<Rightarrow> report_buffer_t option" where
  "transmission c (REPORT_KB m ks) = (if send_keyboard c then Some (REPORT_KB m ks) else None)"
| "transmission c (REPORT_NKRO m bs) = (if WIRELESS_NKRO_ENABLE c \<and> send_nkro c then Some (REPORT_NKRO m bs) else None)"
| "transmission c (REPORT_CONSUMER u) = (if send_consumer c then Some (REPORT_CONSUMER u) else None)"
| "transmission c REPORT_NONE = None"

text \<open>The task: whether a report was due, and what was transmitted.\<close>

definition report_buffer_task :: "wt_func \<Rightarrow> bool \<Rightarrow> u32 \<Rightarrow> report_buf \<Rightarrow> bool \<times> report_buffer_t option \<times> report_buf" where
  "report_buffer_task c connected now b =
     (if connected \<and> (\<not> report_buffer_is_empty b \<or> retry b \<noteq> 0) \<and> report_buffer_next_inverval now b
      then let (pending, b) =
                 (if retry b = 0
                  then case report_buffer_dequeue b of
                         (None, b) \<Rightarrow> (False, b)
                       | (Some r, b) \<Rightarrow>
                           let b = b\<lparr>kb_rpt := r\<rparr>
                           in if r \<noteq> REPORT_NONE \<and> now > 2
                              then (True, b\<lparr>retry := RETPORT_RETRY_COUNT, retry_time_buffer := now\<rparr>)
                              else (False, b)
                  else if timer_elapsed32 now (retry_time_buffer b) > 2
                  then (True, b\<lparr>retry := retry b - 1, retry_time_buffer := now\<rparr>)
                  else (False, b))
           in if pending then (True, transmission c (kb_rpt b), b\<lparr>report_timer_buffer := now\<rparr>)
              else (False, None, b)
      else (False, None, b))"

section \<open>The queue\<close>

definition buf_inv :: "report_buf \<Rightarrow> bool" where
  "buf_inv b \<longleftrightarrow> ring_ok REPORT_BUFFER_QUEUE_SIZE (report_buffer_queue b) (report_buffer_queue_tail b) (report_buffer_queue_head b)"

definition queued :: "report_buf \<Rightarrow> report_buffer_t list" where
  "queued b = ring_contents REPORT_BUFFER_QUEUE_SIZE (report_buffer_queue b) (report_buffer_queue_tail b) (report_buffer_queue_head b)"

lemma init_queue: "buf_inv (report_buffer_init now b)" "queued (report_buffer_init now b) = []"
  by (simp_all add: buf_inv_def queued_def report_buffer_init_def ring_ok_def ring_contents_def REPORT_BUFFER_QUEUE_SIZE_def)

interpretation rbq: bounded_fifo report_buffer_enqueue "\<lambda>b. (the (fst (report_buffer_dequeue b)), snd (report_buffer_dequeue b))"
    "\<lambda>b. \<not> report_buffer_is_empty b" queued buf_inv "REPORT_BUFFER_QUEUE_SIZE - 1"
proof unfold_locales
  fix b r
  assume inv: "buf_inv b"
  note ok = inv [unfolded buf_inv_def]
  have full: "ring_next REPORT_BUFFER_QUEUE_SIZE (report_buffer_queue_head b) \<noteq> report_buffer_queue_tail b
      \<longleftrightarrow> length (queued b) < REPORT_BUFFER_QUEUE_SIZE - 1"
    using ring_full_iff [OF ok] ring_length_le [OF ok] by (auto simp: queued_def)
  show "length (queued b) < REPORT_BUFFER_QUEUE_SIZE - 1 \<Longrightarrow>
      fst (report_buffer_enqueue r b) \<and> queued (snd (report_buffer_enqueue r b)) = queued b @ [r]"
    using full ring_put [OF ok] by (simp add: report_buffer_enqueue_def Let_def queued_def)
  show "\<not> length (queued b) < REPORT_BUFFER_QUEUE_SIZE - 1 \<Longrightarrow> report_buffer_enqueue r b = (False, b)"
    using full by (simp add: report_buffer_enqueue_def Let_def)
  show "buf_inv (snd (report_buffer_enqueue r b))"
    using ok ring_ok_next [OF ok] by (auto simp: report_buffer_enqueue_def Let_def buf_inv_def ring_ok_def)
  show "queued b \<noteq> [] \<Longrightarrow> queued b = fst (the (fst (report_buffer_dequeue b)), snd (report_buffer_dequeue b))
      # queued (snd (the (fst (report_buffer_dequeue b)), snd (report_buffer_dequeue b)))"
    using ring_get [OF ok] ring_empty_iff [OF ok] by (simp add: report_buffer_dequeue_def queued_def)
  show "buf_inv (snd (the (fst (report_buffer_dequeue b)), snd (report_buffer_dequeue b)))"
    using ok ring_ok_next [OF ok] by (auto simp: report_buffer_dequeue_def buf_inv_def)
  show "(\<not> report_buffer_is_empty b) = (queued b \<noteq> [])"
    using ring_empty_iff [OF ok] by (simp add: report_buffer_is_empty_def queued_def)
  show "length (queued b) \<le> REPORT_BUFFER_QUEUE_SIZE - 1"
    using ring_length_le [OF ok] by (simp add: queued_def)
qed

lemma queue_frame [simp]:
  "queued (b\<lparr>report_interval := x\<rparr>) = queued b" "queued (b\<lparr>report_timer_buffer := t\<rparr>) = queued b"
  "queued (b\<lparr>retry_time_buffer := t\<rparr>) = queued b" "queued (b\<lparr>kb_rpt := r\<rparr>) = queued b" "queued (b\<lparr>retry := n\<rparr>) = queued b"
  "buf_inv (b\<lparr>report_interval := x\<rparr>) = buf_inv b" "buf_inv (b\<lparr>report_timer_buffer := t\<rparr>) = buf_inv b"
  "buf_inv (b\<lparr>retry_time_buffer := t\<rparr>) = buf_inv b" "buf_inv (b\<lparr>kb_rpt := r\<rparr>) = buf_inv b" "buf_inv (b\<lparr>retry := n\<rparr>) = buf_inv b"
  by (simp_all add: queued_def buf_inv_def)

lemma dequeue_cases:
  assumes "buf_inv b"
  obtains "queued b = []" and "report_buffer_dequeue b = (None, b)"
  | r b' where "queued b = r # queued b'" and "report_buffer_dequeue b = (Some r, b')" and "buf_inv b'" and "retry b' = retry b"
    and "kb_rpt b' = kb_rpt b" and "report_interval b' = report_interval b" and "report_timer_buffer b' = report_timer_buffer b"
proof (cases "queued b")
  case Nil
  then show thesis using that(1) rbq.has_data_iff [OF assms] by (simp add: report_buffer_dequeue_def report_buffer_is_empty_def)
next
  case (Cons r rs)
  let ?b = "snd (report_buffer_dequeue b)"
  have ne: "\<not> report_buffer_is_empty b" using rbq.has_data_iff [OF assms] Cons by simp
  then have d: "report_buffer_dequeue b = (Some (the (fst (report_buffer_dequeue b))), ?b)"
    by (simp add: report_buffer_dequeue_def report_buffer_is_empty_def)
  have "queued b = the (fst (report_buffer_dequeue b)) # queued ?b" using rbq.deq_first [OF assms] Cons by simp
  moreover have "buf_inv ?b" using rbq.deq_inv [OF assms] by simp
  moreover have "retry ?b = retry b" "kb_rpt ?b = kb_rpt b" "report_interval ?b = report_interval b"
    "report_timer_buffer ?b = report_timer_buffer b"
    by (simp_all add: report_buffer_dequeue_def)
  ultimately show thesis using that(2) d by blast
qed

section \<open>Repetition\<close>

text \<open>The task with the outcome of the queue spelled out.\<close>

lemma task_next:
  assumes "buf_inv b" and "retry b = 0" and "queued b = r # rs" and "report_buffer_next_inverval now b"
  shows "\<exists>b'. report_buffer_dequeue b = (Some r, b') \<and> buf_inv b' \<and> queued b' = rs \<and> report_interval b' = report_interval b
    \<and> report_buffer_task c True now b =
      (if r \<noteq> REPORT_NONE \<and> now > 2
       then (True, transmission c r, b'\<lparr>kb_rpt := r, retry := RETPORT_RETRY_COUNT, retry_time_buffer := now, report_timer_buffer := now\<rparr>)
       else (False, None, b'\<lparr>kb_rpt := r\<rparr>))"
  using assms(1)
proof (cases rule: dequeue_cases)
  case 1
  then show ?thesis using assms(3) by simp
next
  case (2 r' b')
  then have "\<not> report_buffer_is_empty b" using rbq.has_data_iff [OF assms(1)] assms(3) by simp
  then show ?thesis using 2 assms by (auto simp: report_buffer_task_def)
qed

lemma task_again:
  assumes "retry b \<noteq> 0" and "report_buffer_next_inverval now b" and "timer_elapsed32 now (retry_time_buffer b) > 2"
  shows "report_buffer_task c True now b =
    (True, transmission c (kb_rpt b), b\<lparr>retry := retry b - 1, retry_time_buffer := now, report_timer_buffer := now\<rparr>)"
  using assms by (simp add: report_buffer_task_def)

lemma task_idle:
  assumes "\<not> connected \<or> (report_buffer_is_empty b \<and> retry b = 0)"
  shows "report_buffer_task c connected now b = (False, None, b)"
  using assms by (auto simp: report_buffer_task_def)

text \<open>Calls of the task in a connected state, \<open>d\<close> milliseconds apart.\<close>

fun run_task :: "wt_func \<Rightarrow> u32 \<Rightarrow> nat \<Rightarrow> u32 \<Rightarrow> report_buf \<Rightarrow> report_buffer_t list \<times> report_buf" where
  "run_task c d 0 now b = ([], b)"
| "run_task c d (Suc n) now b =
     (let (_, sent, b) = report_buffer_task c True now b; (more, b) = run_task c d n (now + d) b
      in (case sent of None \<Rightarrow> more | Some r \<Rightarrow> r # more, b))"

lemma run_task_add:
  "run_task c d (m + n) now b =
    (let (xs, b) = run_task c d m now b; (ys, b) = run_task c d n (now + of_nat m * d) b in (xs @ ys, b))"
  by (induction m arbitrary: now b) (auto simp: Let_def algebra_simps split: prod.splits option.splits)

text \<open>All that the next call at a distance of \<open>d\<close> needs to know.\<close>

definition ready :: "u32 \<Rightarrow> u32 \<Rightarrow> report_buf \<Rightarrow> bool" where
  "ready d now b \<longleftrightarrow> buf_inv b \<and> ucast (report_interval b) < d \<and> 2 < d \<and> ucast (report_interval b) < now - report_timer_buffer b"

lemma ready_after:
  assumes "buf_inv b" and "ucast (report_interval b) < d" and "2 < d"
  shows "ready d (now + d) (b\<lparr>kb_rpt := r, retry := n, retry_time_buffer := now, report_timer_buffer := now\<rparr>)"
  using assms by (simp add: ready_def)

lemma run_again:
  assumes "ready d now b" and "2 < now - retry_time_buffer b" and "n = unat (retry b)" and "transmission c (kb_rpt b) = Some r"
  shows "\<exists>b'. run_task c d n now b = (replicate n r, b') \<and> ready d (now + of_nat n * d) b' \<and> retry b' = 0 \<and> queued b' = queued b"
  using assms
proof (induction n arbitrary: now b)
  case 0
  then show ?case by (simp add: word_unat_eq_iff)
next
  case (Suc n)
  let ?b = "b\<lparr>retry := retry b - 1, retry_time_buffer := now, report_timer_buffer := now\<rparr>"
  have nz: "retry b \<noteq> 0" using Suc.prems(3) by auto
  have t: "report_buffer_task c True now b = (True, Some r, ?b)"
    using Suc.prems nz by (simp add: task_again ready_def report_buffer_next_inverval_def timer_elapsed32_def)
  have "n = unat (retry ?b)" using Suc.prems(3) nz by (simp add: unat_minus_one)
  moreover have "ready d (now + d) ?b" "2 < now + d - retry_time_buffer ?b" "transmission c (kb_rpt ?b) = Some r"
    using Suc.prems by (simp_all add: ready_def)
  ultimately obtain b' where "run_task c d n (now + d) ?b = (replicate n r, b')" "ready d (now + d + of_nat n * d) b'"
    "retry b' = 0" "queued b' = queued ?b"
    using Suc.IH [of "now + d" ?b] by blast
  then show ?case by (simp add: t algebra_simps)
qed



end
