(* ===== verification/Wireless.thy ===== *)
theory Wireless
  imports ReportBuffer ActionUtil
begin

text \<open>
  The wireless keyboard, keyboards/keychron/common/wireless: the connection state machine and the
  host driver (wireless.c), the battery monitor (battery.c), the idle timer (lpm.c) and the key
  handling and mode switch (keychron_wireless_common.c). The radio module, the indicator lights and
  low-power entry appear as a log of what they are asked for; each entry notes the connection state
  at that moment. Clock, indicator, power and pins are fields that the environment sets. The table
  of module functions is that of lkbt51.c: \<open>connect_ex\<close> and \<open>task\<close>, which are called
  unchecked, are present.
\<close>

section \<open>State\<close>

datatype wt_state = WT_RESET | WT_INITIALIZED | WT_DISCONNECTED | WT_CONNECTED | WT_PARING | WT_RECONNECTING | WT_SUSPEND

datatype event_code =
    EVT_NONE | EVT_RESET | EVT_DISCOVERABLE | EVT_RECONNECTING | EVT_CONNECTED | EVT_DISCONNECTED | EVT_BT_PINCODE_ENTRY
  | EVT_EXIT_BT_PINCODE_ENTRY | EVT_SLEEP | EVT_HID_SET_PROTOCOL | EVT_HID_INDICATOR | EVT_CONECTION_INTERVAL

text \<open>The union of the parameters is one byte.\<close>

record wireless_event =
  evt_type :: event_code
  params :: u8

datatype transport_kind = TRANSPORT_NONE | TRANSPORT_USB | TRANSPORT_BLUETOOTH | TRANSPORT_P2P4

definition TRANSPORT_WIRELESS :: "transport_kind \<Rightarrow> bool" where
  "TRANSPORT_WIRELESS t \<longleftrightarrow> t = TRANSPORT_BLUETOOTH \<or> t = TRANSPORT_P2P4"

datatype host_driver = NO_DRIVER | CHIBIOS_DRIVER | WIRELESS_DRIVER

datatype radio =
    Transmit report_buffer_t
  | Transmit_system u16
  | Transmit_mouse "u8 list"
  | Connect_ex u8 u16
  | Pairing_ex u8
  | Disconnect
  | Bat_level u8
  | Bat_state u8
  | Read_state
  | Param_init
  | Indicate wt_state u8
  | Low_light bool
  | Low_backlight bool
  | Leds u8
  | Bat_animation u8
  | Low_power
  | Indicator_init
  | Indicator_stop
  | Usb_start
  | Usb_stop
  | Usb_empty_report

record battery =
  voltage :: u16
  bat_empty :: u8
  critical_low :: u8
  power_on_sample :: u8
  bat_monitor_timer_buffer :: u32

record wireless_cfg = wt_func +
  BAT_LOW_LED_PIN :: bool
  LOW_BAT_IND_INDEX :: bool
  BAT_CHARGING_PIN :: bool
  BAT_LEVEL_LED_LIST :: bool
  LED_DRIVER :: bool
  LED_MATRIX_LED_COUNT :: "nat option"
  RGB_MATRIX_LED_COUNT :: "nat option"
  NKRO_BUILD :: bool
  FULL_VOLTAGE_VALUE :: nat
  EMPTY_VOLTAGE_VALUE :: nat
  SHUTDOWN_VOLTAGE_VALUE :: nat
  KEEP_USB_CONNECTION_IN_WIRELESS_MODE :: bool
  clear_keyboard :: "effect list"

record wireless =
  host_index :: u8
  led_state :: u8
  wireless_state :: wt_state
  pincodeEntry :: bool
  wireless_report_protocol :: bool
  wireless_event_queue :: "wireless_event list"
  wireless_event_queue_head :: u8
  wireless_event_queue_tail :: u8
  buf :: report_buf
  bat :: battery
  lpm_timer_buffer :: u32
  lpm_time_up :: bool
  keymap_nkro :: bool
  stored_nkro :: bool
  nkro_usb :: bool
  nkro_bluetooth :: bool
  firstDisconnect :: bool
  pairing_key_timer :: u32
  host_idx :: u8
  key_host_idx :: u8
  transport :: transport_kind
  host_drv :: host_driver
  now :: u32
  rtc :: u32
  indicator_running :: bool
  indicator_enabled :: bool
  pwm_total :: u32
  usb_power :: bool
  usb_active :: bool
  charging :: bool
  may_sleep :: bool
  mode_pins :: u8
  switch_mode :: u8
  switch_time :: u32
  radio_log :: "(wt_state \<times> radio) list"

type_synonym wstep = "wireless \<Rightarrow> wireless"

definition radio_emit :: "radio \<Rightarrow> wstep" where
  "radio_emit e s = s\<lparr>radio_log := radio_log s @ [(wireless_state s, e)]\<rparr>"

definition on_buf :: "(report_buf \<Rightarrow> report_buf) \<Rightarrow> wstep" where
  "on_buf f s = s\<lparr>buf := f (buf s)\<rparr>"

definition on_bat :: "(battery \<Rightarrow> battery) \<Rightarrow> wstep" where
  "on_bat f s = s\<lparr>bat := f (bat s)\<rparr>"

text \<open>What the two ways of changing a part leave alone.\<close>

lemma radio_emit_sel [simp]:
  "host_index (radio_emit e s) = host_index s" "led_state (radio_emit e s) = led_state s"
  "wireless_state (radio_emit e s) = wireless_state s" "pincodeEntry (radio_emit e s) = pincodeEntry s"
  "wireless_report_protocol (radio_emit e s) = wireless_report_protocol s"
  "wireless_event_queue (radio_emit e s) = wireless_event_queue s"
  "wireless_event_queue_head (radio_emit e s) = wireless_event_queue_head s"
  "wireless_event_queue_tail (radio_emit e s) = wireless_event_queue_tail s" "buf (radio_emit e s) = buf s"
  "bat (radio_emit e s) = bat s" "lpm_timer_buffer (radio_emit e s) = lpm_timer_buffer s"
  "lpm_time_up (radio_emit e s) = lpm_time_up s" "keymap_nkro (radio_emit e s) = keymap_nkro s"
  "stored_nkro (radio_emit e s) = stored_nkro s" "nkro_usb (radio_emit e s) = nkro_usb s"
  "nkro_bluetooth (radio_emit e s) = nkro_bluetooth s" "firstDisconnect (radio_emit e s) = firstDisconnect s"
  "pairing_key_timer (radio_emit e s) = pairing_key_timer s" "host_idx (radio_emit e s) = host_idx s"
  "key_host_idx (radio_emit e s) = key_host_idx s" "transport (radio_emit e s) = transport s"
  "host_drv (radio_emit e s) = host_drv s" "now (radio_emit e s) = now s" "rtc (radio_emit e s) = rtc s"
  "indicator_running (radio_emit e s) = indicator_running s" "indicator_enabled (radio_emit e s) = indicator_enabled s"
  "usb_power (radio_emit e s) = usb_power s" "mode_pins (radio_emit e s) = mode_pins s"
  "switch_mode (radio_emit e s) = switch_mode s" "switch_time (radio_emit e s) = switch_time s"
  "radio_log (radio_emit e s) = radio_log s @ [(wireless_state s, e)]"
  by (simp_all add: radio_emit_def)

lemma on_buf_sel [simp]:
  "host_index (on_buf f s) = host_index s" "led_state (on_buf f s) = led_state s"
  "wireless_state (on_buf f s) = wireless_state s" "pincodeEntry (on_buf f s) = pincodeEntry s"
  "wireless_report_protocol (on_buf f s) = wireless_report_protocol s"
  "wireless_event_queue (on_buf f s) = wireless_event_queue s"
  "wireless_event_queue_head (on_buf f s) = wireless_event_queue_head s"
  "wireless_event_queue_tail (on_buf f s) = wireless_event_queue_tail s" "bat (on_buf f s) = bat s"
  "lpm_timer_buffer (on_buf f s) = lpm_timer_buffer s" "lpm_time_up (on_buf f s) = lpm_time_up s"
  "keymap_nkro (on_buf f s) = keymap_nkro s" "stored_nkro (on_buf f s) = stored_nkro s"
  "nkro_usb (on_buf f s) = nkro_usb s" "nkro_bluetooth (on_buf f s) = nkro_bluetooth s"
  "firstDisconnect (on_buf f s) = firstDisconnect s" "pairing_key_timer (on_buf f s) = pairing_key_timer s"
  "host_idx (on_buf f s) = host_idx s" "key_host_idx (on_buf f s) = key_host_idx s"
  "transport (on_buf f s) = transport s" "host_drv (on_buf f s) = host_drv s" "now (on_buf f s) = now s"
  "rtc (on_buf f s) = rtc s" "indicator_running (on_buf f s) = indicator_running s"
  "indicator_enabled (on_buf f s) = indicator_enabled s" "usb_power (on_buf f s) = usb_power s"
  "mode_pins (on_buf f s) = mode_pins s" "switch_mode (on_buf f s) = switch_mode s"
  "switch_time (on_buf f s) = switch_time s" "radio_log (on_buf f s) = radio_log s"
  "buf (on_buf f s) = f (buf s)"
  by (simp_all add: on_buf_def)

lemma on_bat_sel [simp]:
  "host_index (on_bat f s) = host_index s" "led_state (on_bat f s) = led_state s"
  "wireless_state (on_bat f s) = wireless_state s" "pincodeEntry (on_bat f s) = pincodeEntry s"
  "wireless_report_protocol (on_bat f s) = wireless_report_protocol s"
  "wireless_event_queue (on_bat f s) = wireless_event_queue s"
  "wireless_event_queue_head (on_bat f s) = wireless_event_queue_head s"
  "wireless_event_queue_tail (on_bat f s) = wireless_event_queue_tail s" "buf (on_bat f s) = buf s"
  "lpm_timer_buffer (on_bat f s) = lpm_timer_buffer s" "lpm_time_up (on_bat f s) = lpm_time_up s"
  "keymap_nkro (on_bat f s) = keymap_nkro s" "stored_nkro (on_bat f s) = stored_nkro s"
  "nkro_usb (on_bat f s) = nkro_usb s" "nkro_bluetooth (on_bat f s) = nkro_bluetooth s"
  "firstDisconnect (on_bat f s) = firstDisconnect s" "pairing_key_timer (on_bat f s) = pairing_key_timer s"
  "host_idx (on_bat f s) = host_idx s" "key_host_idx (on_bat f s) = key_host_idx s"
  "transport (on_bat f s) = transport s" "host_drv (on_bat f s) = host_drv s" "now (on_bat f s) = now s"
  "rtc (on_bat f s) = rtc s" "indicator_running (on_bat f s) = indicator_running s"
  "indicator_enabled (on_bat f s) = indicator_enabled s" "usb_power (on_bat f s) = usb_power s"
  "mode_pins (on_bat f s) = mode_pins s" "switch_mode (on_bat f s) = switch_mode s"
  "switch_time (on_bat f s) = switch_time s" "radio_log (on_bat f s) = radio_log s"
  "bat (on_bat f s) = f (bat s)"
  by (simp_all add: on_bat_def)

section \<open>Event queue\<close>

definition WT_EVENT_QUEUE_SIZE :: nat where "WT_EVENT_QUEUE_SIZE = 16"

definition no_event :: wireless_event where
  "no_event = \<lparr>evt_type = EVT_NONE, params = 0\<rparr>"

definition wireless_event_queue_init :: wstep where
  "wireless_event_queue_init s =
     s\<lparr>wireless_event_queue := replicate WT_EVENT_QUEUE_SIZE no_event, wireless_event_queue_head := 0, wireless_event_queue_tail := 0\<rparr>"

definition wireless_event_enqueue :: "wireless_event \<Rightarrow> wstep" where
  "wireless_event_enqueue event s =
     (let next = ring_next WT_EVENT_QUEUE_SIZE (wireless_event_queue_head s);
          s = (if next = wireless_event_queue_tail s
               then s\<lparr>wireless_event_queue_tail := ring_next WT_EVENT_QUEUE_SIZE (wireless_event_queue_tail s)\<rparr> else s)
      in s\<lparr>wireless_event_queue := (wireless_event_queue s)[unat (wireless_event_queue_head s) := event],
           wireless_event_queue_head := next\<rparr>)"

definition wireless_event_dequeue :: "wireless \<Rightarrow> wireless_event option \<times> wireless" where
  "wireless_event_dequeue s =
     (if wireless_event_queue_head s = wireless_event_queue_tail s then (None, s)
      else (Some (wireless_event_queue s ! unat (wireless_event_queue_tail s)),
            s\<lparr>wireless_event_queue_tail := ring_next WT_EVENT_QUEUE_SIZE (wireless_event_queue_tail s)\<rparr>))"

section \<open>Idle timer and battery level\<close>

definition lpm_timer_reset :: wstep where
  "lpm_timer_reset s = s\<lparr>lpm_time_up := False, lpm_timer_buffer := now s\<rparr>"

lemma lpm_timer_reset_sel [simp]:
  "host_index (lpm_timer_reset s) = host_index s" "led_state (lpm_timer_reset s) = led_state s"
  "wireless_state (lpm_timer_reset s) = wireless_state s" "pincodeEntry (lpm_timer_reset s) = pincodeEntry s"
  "wireless_report_protocol (lpm_timer_reset s) = wireless_report_protocol s"
  "wireless_event_queue (lpm_timer_reset s) = wireless_event_queue s"
  "wireless_event_queue_head (lpm_timer_reset s) = wireless_event_queue_head s"
  "wireless_event_queue_tail (lpm_timer_reset s) = wireless_event_queue_tail s" "buf (lpm_timer_reset s) = buf s"
  "bat (lpm_timer_reset s) = bat s" "keymap_nkro (lpm_timer_reset s) = keymap_nkro s"
  "stored_nkro (lpm_timer_reset s) = stored_nkro s" "nkro_usb (lpm_timer_reset s) = nkro_usb s"
  "nkro_bluetooth (lpm_timer_reset s) = nkro_bluetooth s" "firstDisconnect (lpm_timer_reset s) = firstDisconnect s"
  "pairing_key_timer (lpm_timer_reset s) = pairing_key_timer s" "host_idx (lpm_timer_reset s) = host_idx s"
  "key_host_idx (lpm_timer_reset s) = key_host_idx s" "transport (lpm_timer_reset s) = transport s"
  "host_drv (lpm_timer_reset s) = host_drv s" "now (lpm_timer_reset s) = now s" "rtc (lpm_timer_reset s) = rtc s"
  "indicator_running (lpm_timer_reset s) = indicator_running s"
  "indicator_enabled (lpm_timer_reset s) = indicator_enabled s" "usb_power (lpm_timer_reset s) = usb_power s"
  "mode_pins (lpm_timer_reset s) = mode_pins s" "switch_mode (lpm_timer_reset s) = switch_mode s"
  "switch_time (lpm_timer_reset s) = switch_time s" "radio_log (lpm_timer_reset s) = radio_log s"
  by (simp_all add: lpm_timer_reset_def)

definition lpm_timer_stop :: wstep where
  "lpm_timer_stop s = s\<lparr>lpm_time_up := False, lpm_timer_buffer := 0\<rparr>"

definition BATTERY_EMPTY_COUNT :: u8 where "BATTERY_EMPTY_COUNT = 10"
definition CRITICAL_LOW_COUNT :: u8 where "CRITICAL_LOW_COUNT = 20"
definition VOLTAGE_POWER_ON_MEASURE_COUNT :: u8 where "VOLTAGE_POWER_ON_MEASURE_COUNT = 15"

text \<open>In 32-bit arithmetic, converted to a byte.\<close>

definition battery_get_percentage :: "wireless_cfg \<Rightarrow> wireless \<Rightarrow> u8" where
  "battery_get_percentage c s =
     (let v = unat (voltage (bat s)); full = FULL_VOLTAGE_VALUE c; low = EMPTY_VOLTAGE_VALUE c; off = SHUTDOWN_VOLTAGE_VALUE c
      in if v > full then 100
         else if v > low then of_nat ((v - low) * 80 div (full - low) + 20)
         else if v > off then of_nat ((v - off) * 20 div (low - off))
         else 0)"

definition battery_is_empty :: "wireless \<Rightarrow> bool" where
  "battery_is_empty s \<longleftrightarrow> bat_empty (bat s) > BATTERY_EMPTY_COUNT"

definition battery_is_critical_low :: "wireless \<Rightarrow> bool" where
  "battery_is_critical_low s \<longleftrightarrow> critical_low (bat s) > CRITICAL_LOW_COUNT"

definition battery_power_on_sample :: "wireless \<Rightarrow> bool" where
  "battery_power_on_sample s \<longleftrightarrow> power_on_sample (bat s) < VOLTAGE_POWER_ON_MEASURE_COUNT"

definition battery_set_voltage :: "u16 \<Rightarrow> wstep" where
  "battery_set_voltage v = on_bat (\<lambda>b. b\<lparr>voltage := v\<rparr>)"

text \<open>The two ways the keyboard shows a low battery, each if built in.\<close>

definition low_lights :: "wireless_cfg \<Rightarrow> bool \<Rightarrow> wstep" where
  "low_lights c on s =
     (let s = (if BAT_LOW_LED_PIN c then radio_emit (Low_light on) s else s)
      in if LOW_BAT_IND_INDEX c then radio_emit (Low_backlight on) s else s)"

section \<open>Connecting\<close>

definition wireless_pairing_ex :: "wireless_cfg \<Rightarrow> u8 \<Rightarrow> wstep" where
  "wireless_pairing_ex c h s =
     (if battery_is_critical_low s then s
      else (if pairing_ex c then radio_emit (Pairing_ex h) s else s)\<lparr>wireless_state := WT_PARING, host_index := h\<rparr>)"

definition wireless_pairing :: "wireless_cfg \<Rightarrow> wstep" where
  "wireless_pairing c s =
     (if battery_is_critical_low s then s else (wireless_pairing_ex c 0 s)\<lparr>wireless_state := WT_PARING\<rparr>)"

definition wireless_connect :: wstep where
  "wireless_connect s =
     (if battery_is_critical_low s \<or> now s = 0 then s
      else let s = (if wireless_state s = WT_RECONNECTING \<and> \<not> indicator_running s
                    then radio_emit (Indicate (wireless_state s) (host_index s)) s else s)
           in (radio_emit (Connect_ex 0 0) s)\<lparr>wireless_state := WT_RECONNECTING\<rparr>)"

definition wireless_connect_ex :: "u8 \<Rightarrow> u16 \<Rightarrow> wstep" where
  "wireless_connect_ex h timeout s =
     (if battery_is_critical_low s \<or> (h \<noteq> 0 \<and> host_index s = h \<and> wireless_state s = WT_CONNECTED) then s
      else let s = (if h \<noteq> 0 then s\<lparr>host_index := h, led_state := 0\<rparr> else s)
           in (radio_emit (Connect_ex h timeout) s)\<lparr>wireless_state := WT_RECONNECTING\<rparr>)"

definition wireless_disconnect :: "wireless_cfg \<Rightarrow> wstep" where
  "wireless_disconnect c s = (if disconnect c then radio_emit Disconnect s else s)"

section \<open>Sending\<close>

definition report_task :: "wireless_cfg \<Rightarrow> wstep" where
  "report_task c s =
     (let (pending, sent, b) = report_buffer_task (wt_func.truncate c) (wireless_state s = WT_CONNECTED) (now s) (buf s);
          s = s\<lparr>buf := b\<rparr>;
          s = (case sent of None \<Rightarrow> s | Some r \<Rightarrow> radio_emit (Transmit r) s)
      in if pending then lpm_timer_reset s else s)"

text \<open>The common part of sending keyboard and NKRO reports.\<close>

definition send_buffered :: "wireless_cfg \<Rightarrow> bool \<Rightarrow> report_buffer_t \<Rightarrow> wstep" where
  "send_buffered c supported r s =
     (if battery_is_critical_low s then s
      else if wireless_state s = WT_PARING \<and> \<not> pincodeEntry s then s
      else if wireless_state s = WT_CONNECTED \<or> wireless_state s = WT_PARING \<and> pincodeEntry s
      then if supported
           then let was_empty = report_buffer_is_empty (buf s);
                    s = on_buf (\<lambda>b. snd (report_buffer_enqueue r b)) s
                in if was_empty then report_task c s else s
           else s
      else if wireless_state s \<noteq> WT_RESET then wireless_connect s else s)"

definition wireless_send_keyboard :: "wireless_cfg \<Rightarrow> u8 \<Rightarrow> u8 list \<Rightarrow> wstep" where
  "wireless_send_keyboard c m ks = send_buffered c (send_keyboard c) (REPORT_KB m ks)"

definition wireless_send_nkro :: "wireless_cfg \<Rightarrow> u8 \<Rightarrow> u8 list \<Rightarrow> wstep" where
  "wireless_send_nkro c m bs = send_buffered c (send_nkro c) (REPORT_NKRO m bs)"

definition wireless_send_mouse :: "wireless_cfg \<Rightarrow> u8 list \<Rightarrow> wstep" where
  "wireless_send_mouse c r s =
     (if battery_is_critical_low s then s
      else if wireless_state s = WT_CONNECTED then if send_mouse c then radio_emit (Transmit_mouse r) s else s
      else if wireless_state s \<noteq> WT_RESET then wireless_connect s else s)"

definition wireless_send_system :: "wireless_cfg \<Rightarrow> u16 \<Rightarrow> wstep" where
  "wireless_send_system c usage s =
     (if wireless_state s = WT_CONNECTED then if send_system c then radio_emit (Transmit_system usage) s else s
      else if wireless_state s \<noteq> WT_RESET then wireless_connect s else s)"

definition wireless_send_consumer :: "wireless_cfg \<Rightarrow> u16 \<Rightarrow> wstep" where
  "wireless_send_consumer c usage s =
     (if wireless_state s = WT_CONNECTED
      then if report_buffer_is_empty (buf s) \<and> report_buffer_next_inverval (now s) (buf s)
           then on_buf (report_buffer_update_timer (now s)) (if send_consumer c then radio_emit (Transmit (REPORT_CONSUMER usage)) s else s)
           else on_buf (\<lambda>b. snd (report_buffer_enqueue (REPORT_CONSUMER usage) b)) s
      else if wireless_state s \<noteq> WT_RESET then wireless_connect s else s)"

text \<open>The host driver: what host.c passes on, by kind of report.\<close>

definition wireless_send_extra :: "wireless_cfg \<Rightarrow> bool \<Rightarrow> u16 \<Rightarrow> wstep" where
  "wireless_send_extra c is_system usage s =
     (if battery_is_critical_low s then s
      else if is_system then wireless_send_system c usage s else wireless_send_consumer c usage s)"

fun wireless_driver :: "wireless_cfg \<Rightarrow> effect \<Rightarrow> wstep" where
  "wireless_driver c (HostKeyboard m ks) s = wireless_send_keyboard c m ks s"
| "wireless_driver c (HostNkro m bs) s = wireless_send_nkro c m bs s"
| "wireless_driver c (HostSystem u) s = wireless_send_extra c True u s"
| "wireless_driver c (HostConsumer u) s = wireless_send_extra c False u s"
| "wireless_driver c _ s = s"

definition host_send :: "wireless_cfg \<Rightarrow> effect list \<Rightarrow> wstep" where
  "host_send c es s = (if host_drv s = WIRELESS_DRIVER then fold (wireless_driver c) es s else s)"

definition wreless_keyboard_leds :: "wireless \<Rightarrow> u8" where
  "wreless_keyboard_leds s = (if wireless_state s = WT_CONNECTED then led_state s else 0)"

section \<open>Events of the module\<close>

definition wireless_enter_reset :: wstep where
  "wireless_enter_reset s = radio_emit Param_init (s\<lparr>wireless_state := WT_RESET\<rparr>)"

definition wireless_enter_discoverable :: "u8 \<Rightarrow> wstep" where
  "wireless_enter_discoverable h s = radio_emit (Indicate WT_PARING h) (s\<lparr>host_index := h, wireless_state := WT_PARING\<rparr>)"

definition wireless_enter_reconnecting :: "u8 \<Rightarrow> wstep" where
  "wireless_enter_reconnecting h s = radio_emit (Indicate WT_RECONNECTING h) (s\<lparr>host_index := h, wireless_state := WT_RECONNECTING\<rparr>)"

definition wireless_enter_connected :: "wireless_cfg \<Rightarrow> u8 \<Rightarrow> wstep" where
  "wireless_enter_connected c h s =
     (let s = (radio_emit (Indicate WT_CONNECTED h) (s\<lparr>wireless_state := WT_CONNECTED\<rparr>))\<lparr>host_index := h\<rparr>;
          s = host_send c (clear_keyboard c) s;
          s = (if NKRO_BUILD c \<and> \<not> WIRELESS_NKRO_ENABLE c then s\<lparr>keymap_nkro := False\<rparr> else s);
          s = (if BAT_LOW_LED_PIN c \<and> battery_is_empty s then radio_emit (Low_light True) s else s)
      in if update_bat_level c then radio_emit (Bat_level (battery_get_percentage c s)) s else s)"

definition wireless_enter_disconnected_kb :: wstep where
  "wireless_enter_disconnected_kb s =
     (if firstDisconnect s \<and> now s < 1000
      then let s = radio_emit Param_init s
           in (if transport s = TRANSPORT_BLUETOOTH then wireless_connect s else s)\<lparr>firstDisconnect := False\<rparr>
      else s)"

definition wireless_enter_disconnected :: "wireless_cfg \<Rightarrow> u8 \<Rightarrow> wstep" where
  "wireless_enter_disconnected c h s =
     (let previous = wireless_state s;
          s = s\<lparr>led_state := 0\<rparr>;
          s = (if TRANSPORT_WIRELESS (transport s) then radio_emit (Leds 0) s else s);
          s = s\<lparr>wireless_state := WT_DISCONNECTED\<rparr>;
          s = (if previous = WT_CONNECTED then radio_emit (Indicate WT_SUSPEND h) (lpm_timer_reset s)
               else radio_emit (Indicate WT_DISCONNECTED h) s);
          s = on_buf (report_buffer_set_retry 0) (on_buf (report_buffer_init (now s)) s)
      in low_lights c False (wireless_enter_disconnected_kb s))"

definition wireless_enter_bluetooth_pin_code_entry :: "wireless_cfg \<Rightarrow> wstep" where
  "wireless_enter_bluetooth_pin_code_entry c s =
     (if NKRO_BUILD c then s\<lparr>keymap_nkro := False\<rparr> else s)\<lparr>pincodeEntry := True\<rparr>"

definition wireless_exit_bluetooth_pin_code_entry :: "wireless_cfg \<Rightarrow> wstep" where
  "wireless_exit_bluetooth_pin_code_entry c s =
     (if NKRO_BUILD c \<or> WIRELESS_NKRO_ENABLE c then s\<lparr>keymap_nkro := stored_nkro s\<rparr> else s)\<lparr>pincodeEntry := False\<rparr>"

definition wireless_enter_sleep :: "wireless_cfg \<Rightarrow> wstep" where
  "wireless_enter_sleep c s =
     (let s = s\<lparr>led_state := 0\<rparr>
      in if wireless_state s = WT_PARING
         then low_lights c False (radio_emit (Indicate WT_SUSPEND 0) (s\<lparr>wireless_state := WT_SUSPEND\<rparr>))
         else s)"

definition wireless_hid_set_protocol :: wstep where
  "wireless_hid_set_protocol s = s\<lparr>wireless_report_protocol := False\<rparr>"

definition handle_event :: "wireless_cfg \<Rightarrow> wireless_event \<Rightarrow> wstep" where
  "handle_event c e = (case evt_type e of
       EVT_RESET \<Rightarrow> wireless_enter_reset
     | EVT_CONNECTED \<Rightarrow> wireless_enter_connected c (params e)
     | EVT_DISCOVERABLE \<Rightarrow> wireless_enter_discoverable (params e)
     | EVT_RECONNECTING \<Rightarrow> wireless_enter_reconnecting (params e)
     | EVT_DISCONNECTED \<Rightarrow> wireless_enter_disconnected c (params e)
     | EVT_BT_PINCODE_ENTRY \<Rightarrow> wireless_enter_bluetooth_pin_code_entry c
     | EVT_EXIT_BT_PINCODE_ENTRY \<Rightarrow> wireless_exit_bluetooth_pin_code_entry c
     | EVT_SLEEP \<Rightarrow> wireless_enter_sleep c
     | EVT_HID_INDICATOR \<Rightarrow> (\<lambda>s. s\<lparr>led_state := params e\<rparr>)
     | EVT_HID_SET_PROTOCOL \<Rightarrow> wireless_hid_set_protocol
     | EVT_CONECTION_INTERVAL \<Rightarrow> on_buf (report_buffer_set_inverval (params e))
     | EVT_NONE \<Rightarrow> id)"

text \<open>The loop ends when the queue is empty; \<open>n\<close> bounds it, and 16 is enough.\<close>

fun event_loop :: "wireless_cfg \<Rightarrow> nat \<Rightarrow> wstep" where
  "event_loop c 0 s = s"
| "event_loop c (Suc n) s = (case wireless_event_dequeue s of
       (None, s) \<Rightarrow> s | (Some e, s) \<Rightarrow> event_loop c n (handle_event c e s))"

definition wireless_event_task :: "wireless_cfg \<Rightarrow> wstep" where
  "wireless_event_task c = event_loop c WT_EVENT_QUEUE_SIZE"

end
