(* ===== verification/WirelessTask.thy ===== *)
theory WirelessTask
  imports Wireless
begin

text \<open>
  The periodic work of the wireless keyboard: battery monitor and low-battery shutdown (battery.c,
  wireless.c), entry to low power (lpm.c), the keys that choose a host and the long press that
  starts pairing (keychron_wireless_common.c), and the main task.
\<close>

section \<open>Battery\<close>

definition wait_ms :: "u32 \<Rightarrow> wstep" where
  "wait_ms ms s = s\<lparr>now := now s + ms\<rparr>"

text \<open>
  The voltage behind the divider of the module or of the controller, with a correction for the load
  of the lights: \<open>pwm_total\<close> is the sum over the buffers of the light drivers.
\<close>

definition battery_calculate_voltage :: "wireless_cfg \<Rightarrow> bool \<Rightarrow> u16 \<Rightarrow> wstep" where
  "battery_calculate_voltage c vol_src_bt v s =
     (let volt = (if vol_src_bt then ucast ((ucast v :: u32) * (560 + 499) div 499)
                  else ucast ((ucast v :: u32) * 3300 div 1024 * (10 + 10) div 10) :: u16);
          volt = (case LED_MATRIX_LED_COUNT c of
              Some n \<Rightarrow> if indicator_enabled s then volt + ucast (30 * pwm_total s div of_nat n div 255) else volt | None \<Rightarrow> volt);
          volt = (case RGB_MATRIX_LED_COUNT c of
              Some n \<Rightarrow> if indicator_enabled s then volt + ucast (60 * pwm_total s div of_nat n div 255 div 3) else volt | None \<Rightarrow> volt)
      in battery_set_voltage volt s)"

definition empty_mouse_report :: "u8 list" where
  "empty_mouse_report = replicate 6 0"

definition wireless_low_battery_shutdown :: "wireless_cfg \<Rightarrow> wstep" where
  "wireless_low_battery_shutdown c s =
     (let s = low_lights c False s;
          s = on_buf (report_buffer_init (now s)) s;
          s = wait_ms 50 (host_send c (clear_keyboard c) s);
          s = wait_ms 10 (radio_emit (Transmit (if keymap_nkro s then REPORT_NKRO 0 (replicate NKRO_REPORT_BITS 0)
                                          else REPORT_KB 0 (replicate KEYBOARD_REPORT_KEYS 0))) s);
          s = wait_ms 10 (radio_emit (Transmit (REPORT_CONSUMER 0)) s);
          s = wait_ms 300 (radio_emit (Transmit_mouse empty_mouse_report) s)
      in wireless_disconnect c s)"

definition battery_check_empty :: "wireless_cfg \<Rightarrow> wstep" where
  "battery_check_empty c s =
     (if unat (voltage (bat s)) < EMPTY_VOLTAGE_VALUE c \<and> bat_empty (bat s) \<le> BATTERY_EMPTY_COUNT
      then let s = on_bat (\<lambda>b. b\<lparr>bat_empty := bat_empty b + 1\<rparr>) s
           in if bat_empty (bat s) > BATTERY_EMPTY_COUNT
              then on_bat (\<lambda>b. b\<lparr>power_on_sample := VOLTAGE_POWER_ON_MEASURE_COUNT\<rparr>) (low_lights c True s) else s
      else s)"

definition battery_check_critical_low :: "wireless_cfg \<Rightarrow> wstep" where
  "battery_check_critical_low c s =
     (if unat (voltage (bat s)) < SHUTDOWN_VOLTAGE_VALUE c
      then if critical_low (bat s) \<le> CRITICAL_LOW_COUNT
           then let s = on_bat (\<lambda>b. b\<lparr>critical_low := critical_low b + 1\<rparr>) s
                in if critical_low (bat s) > CRITICAL_LOW_COUNT then wireless_low_battery_shutdown c s else s
           else s
      else if critical_low (bat s) \<le> CRITICAL_LOW_COUNT then on_bat (\<lambda>b. b\<lparr>critical_low := 0\<rparr>) s
      else s)"

definition VOLTAGE_MEASURE_INTERVAL :: u32 where "VOLTAGE_MEASURE_INTERVAL = 3000"
definition BACKLIGHT_OFF_VOLTAGE_MEASURE_INTERVAL :: u32 where "BACKLIGHT_OFF_VOLTAGE_MEASURE_INTERVAL = 200"
definition RTC_MAX_TIME :: u32 where "RTC_MAX_TIME = 24 * 3600 * 1000"

text \<open>A measurement: the checks on the last one, and the request for the next.\<close>

definition battery_sample :: "wireless_cfg \<Rightarrow> wstep" where
  "battery_sample c s =
     (let s = battery_check_critical_low c (battery_check_empty c s);
          s = on_bat (\<lambda>b. b\<lparr>bat_monitor_timer_buffer := rtc s\<rparr>) s;
          s = (if bat_monitor_timer_buffer (bat s) > RTC_MAX_TIME
               then (on_bat (\<lambda>b. b\<lparr>bat_monitor_timer_buffer := 0\<rparr>) s)\<lparr>rtc := 0\<rparr> else s);
          s = radio_emit Read_state s
      in if power_on_sample (bat s) < VOLTAGE_POWER_ON_MEASURE_COUNT
         then on_bat (\<lambda>b. b\<lparr>power_on_sample := power_on_sample b + 1\<rparr>) s else s)"

text \<open>\<open>t\<close> is the time since the last one.\<close>

definition battery_monitor :: "wireless_cfg \<Rightarrow> u32 \<Rightarrow> wstep" where
  "battery_monitor c t s =
     (let s = (if BAT_CHARGING_PIN c \<and> usb_power s \<and> t > VOLTAGE_MEASURE_INTERVAL
               then radio_emit (Bat_state (if charging s then 1 else 2)) s else s)
      in if battery_power_on_sample s \<and> (LED_DRIVER c \<longrightarrow> \<not> indicator_enabled s) \<and> t > BACKLIGHT_OFF_VOLTAGE_MEASURE_INTERVAL
            \<or> t > VOLTAGE_MEASURE_INTERVAL
         then battery_sample c s else s)"

definition battery_task :: "wireless_cfg \<Rightarrow> wstep" where
  "battery_task c s =
     (let t = timer_elapsed32 (rtc s) (bat_monitor_timer_buffer (bat s));
          s = (if TRANSPORT_WIRELESS (transport s) \<and> (wireless_state s = WT_CONNECTED \<or> battery_power_on_sample s)
               then battery_monitor c t s else s)
      in if (bat_empty (bat s) \<noteq> 0 \<or> critical_low (bat s) \<noteq> 0) \<and> usb_power s
         then low_lights c False (on_bat (\<lambda>b. b\<lparr>bat_empty := 0, critical_low := 0\<rparr>) s) else s)"

section \<open>Low power\<close>

definition RUN_MODE_PROCESS_TIME :: u32 where "RUN_MODE_PROCESS_TIME = 1000"

text \<open>\<open>may_sleep\<close>: lights shut down, no key in the matrix and the controller accepts the mode.\<close>

definition lpm_task :: wstep where
  "lpm_task s =
     (let s = (if \<not> lpm_time_up s \<and> timer_elapsed32 (now s) (lpm_timer_buffer s) > RUN_MODE_PROCESS_TIME
               then s\<lparr>lpm_time_up := True, lpm_timer_buffer := 0\<rparr> else s)
      in if TRANSPORT_WIRELESS (transport s) \<and> lpm_time_up s \<and> \<not> indicator_running s \<and> may_sleep s
         then let s = lpm_timer_reset (radio_emit Low_power s) in on_buf (report_buffer_init (now s)) s
         else s)"

section \<open>Keys\<close>

definition BT_HST1 :: u16 where "BT_HST1 = 0x7E0B"
definition BT_HST3 :: u16 where "BT_HST3 = 0x7E0D"
definition P2P4G :: u16 where "P2P4G = 0x7E0E"
definition BAT_LVL :: u16 where "BAT_LVL = 0x7E0F"
definition P24G_INDEX :: u8 where "P24G_INDEX = 24"

text \<open>The handler has a variable \<open>host_idx\<close> of its own, here \<open>key_host_idx\<close>, which hides that of the file.\<close>

definition process_record_keychron_wireless :: "wireless_cfg \<Rightarrow> u16 \<Rightarrow> bool \<Rightarrow> wstep" where
  "process_record_keychron_wireless c keycode press s =
     (if BT_HST1 \<le> keycode \<and> keycode \<le> BT_HST3
      then if transport s = TRANSPORT_BLUETOOTH
           then if press
                then let s = s\<lparr>key_host_idx := ucast (keycode - BT_HST1 + 1), pairing_key_timer := now s\<rparr>
                     in wireless_connect_ex (key_host_idx s) 0 s
                else s\<lparr>key_host_idx := 0, pairing_key_timer := 0\<rparr>
           else s
      else if keycode = P2P4G
      then if transport s = TRANSPORT_P2P4
           then if press then s\<lparr>key_host_idx := P24G_INDEX, pairing_key_timer := now s\<rparr>
                else s\<lparr>key_host_idx := 0, pairing_key_timer := 0\<rparr>
           else s
      else if keycode = BAT_LVL \<and> LED_DRIVER c \<and> BAT_LEVEL_LED_LIST c
      then if TRANSPORT_WIRELESS (transport s) \<and> \<not> usb_power s then radio_emit (Bat_animation (battery_get_percentage c s)) s else s
      else s)"

definition process_record_wireless :: "wireless_cfg \<Rightarrow> u16 \<Rightarrow> bool \<Rightarrow> wstep" where
  "process_record_wireless c keycode press s =
     (let s = (if TRANSPORT_WIRELESS (transport s)
               then let s = lpm_timer_reset s
                    in if battery_is_empty s \<and> wireless_state s = WT_CONNECTED \<and> press then low_lights c True s else s
               else s)
      in process_record_keychron_wireless c keycode press s)"

definition keychron_wireless_common_task :: "wireless_cfg \<Rightarrow> wstep" where
  "keychron_wireless_common_task c s =
     (if pairing_key_timer s \<noteq> 0 \<and> timer_elapsed32 (now s) (pairing_key_timer s) > 2000
      then wireless_pairing_ex c (host_idx s) (s\<lparr>pairing_key_timer := 0\<rparr>) else s)"

section \<open>Main task\<close>

text \<open>After the module's own task, which is part of its driver.\<close>

definition wireless_task :: "wireless_cfg \<Rightarrow> wstep" where
  "wireless_task c s = lpm_task (battery_task c (keychron_wireless_common_task c (report_task c (wireless_event_task c s))))"

definition send_string_task :: "wireless_cfg \<Rightarrow> wstep" where
  "send_string_task c s =
     (if TRANSPORT_WIRELESS (transport s) \<and> wireless_state s = WT_CONNECTED then report_task c s else s)"

definition wireless_init :: "wstep" where
  "wireless_init s =
     (let s = wireless_event_queue_init (s\<lparr>wireless_state := WT_INITIALIZED\<rparr>);
          s = radio_emit Indicator_init (on_buf (report_buffer_init (now s)) s)
      in (lpm_timer_reset s)\<lparr>rtc := 0\<rparr>)"

section \<open>A keyboard\<close>

text \<open>A keyboard with all functions of the module, on Bluetooth, just started; for examples.\<close>

definition demo_radio :: wireless_cfg where
  "demo_radio = \<lparr>send_keyboard = True, send_nkro = True, send_consumer = True, send_system = True, send_mouse = True,
     pairing_ex = True, disconnect = True, update_bat_level = True, WIRELESS_NKRO_ENABLE = False,
     BAT_LOW_LED_PIN = False, LOW_BAT_IND_INDEX = False, BAT_CHARGING_PIN = False, BAT_LEVEL_LED_LIST = False, LED_DRIVER = False,
     LED_MATRIX_LED_COUNT = None, RGB_MATRIX_LED_COUNT = None, NKRO_BUILD = True,
     FULL_VOLTAGE_VALUE = 4100, EMPTY_VOLTAGE_VALUE = 3500, SHUTDOWN_VOLTAGE_VALUE = 3300,
     KEEP_USB_CONNECTION_IN_WIRELESS_MODE = False, clear_keyboard = [HostKeyboard 0 [0, 0, 0, 0, 0, 0]]\<rparr>"

definition demo_off :: wireless where
  "demo_off = \<lparr>host_index = 0, led_state = 0, wireless_state = WT_RESET, pincodeEntry = False, wireless_report_protocol = True,
     wireless_event_queue = [], wireless_event_queue_head = 0, wireless_event_queue_tail = 0,
     buf = \<lparr>report_interval = 1, report_timer_buffer = 0, retry_time_buffer = 0, report_buffer_queue = [],
       report_buffer_queue_head = 0, report_buffer_queue_tail = 0, kb_rpt = REPORT_NONE, retry = 0\<rparr>,
     bat = \<lparr>voltage = 4100, bat_empty = 0, critical_low = 0, power_on_sample = 0, bat_monitor_timer_buffer = 0\<rparr>,
     lpm_timer_buffer = 0, lpm_time_up = False, keymap_nkro = True, stored_nkro = True, nkro_usb = False, nkro_bluetooth = False,
     firstDisconnect = True, pairing_key_timer = 0, host_idx = 0, key_host_idx = 0, transport = TRANSPORT_BLUETOOTH,
     host_drv = WIRELESS_DRIVER, now = 10, rtc = 0, indicator_running = False, indicator_enabled = False, pwm_total = 0,
     usb_power = False, usb_active = False, charging = False, may_sleep = False, mode_pins = 1, switch_mode = 1, switch_time = 0,
     radio_log = []\<rparr>"

definition demo_on :: wireless where
  "demo_on = wireless_init demo_off"

end
