(* ===== verification/WirelessEvents.thy ===== *)
theory WirelessEvents
  imports WirelessTask
begin

text \<open>The queue of module events: a ring that drops its oldest event, and the task that empties it.\<close>

section \<open>The ring\<close>

definition event_ring :: "wireless \<Rightarrow> bool" where
  "event_ring s \<longleftrightarrow> ring_ok WT_EVENT_QUEUE_SIZE (wireless_event_queue s) (wireless_event_queue_tail s) (wireless_event_queue_head s)"

definition events :: "wireless \<Rightarrow> wireless_event list" where
  "events s = ring_contents WT_EVENT_QUEUE_SIZE (wireless_event_queue s) (wireless_event_queue_tail s) (wireless_event_queue_head s)"

lemma event_queue_init: "event_ring (wireless_event_queue_init s)" "events (wireless_event_queue_init s) = []"
  by (simp_all add: event_ring_def events_def wireless_event_queue_init_def ring_ok_def ring_contents_def WT_EVENT_QUEUE_SIZE_def)

lemma events_at_most: "event_ring s \<Longrightarrow> length (events s) \<le> 15"
  using ring_length_le [of WT_EVENT_QUEUE_SIZE "wireless_event_queue s"] by (simp add: event_ring_def events_def WT_EVENT_QUEUE_SIZE_def)

lemma enqueue_event:
  assumes "event_ring s"
  shows "event_ring (wireless_event_enqueue e s)"
    and "events (wireless_event_enqueue e s) = (if length (events s) = 15 then tl (events s) else events s) @ [e]"
proof -
  let ?n = WT_EVENT_QUEUE_SIZE and ?q = "wireless_event_queue s" and ?h = "wireless_event_queue_head s" and ?t = "wireless_event_queue_tail s"
  have ok: "ring_ok ?n ?q ?t ?h" using assms by (simp add: event_ring_def)
  have ok': "ring_ok ?n ?q (ring_next ?n ?t) ?h" using ring_ok_next [OF ok] by simp
  have b: "unat ?h < ?n" "0 < ?n" "?n \<le> 2 ^ LENGTH(8)" "1 < ?n" using ok by (simp_all add: ring_ok_def WT_EVENT_QUEUE_SIZE_def)
  have full: "ring_next ?n ?h = ?t \<longleftrightarrow> length (events s) = 15"
    using ring_full_iff [OF ok] by (simp add: events_def WT_EVENT_QUEUE_SIZE_def)
  show "event_ring (wireless_event_enqueue e s)"
    using ring_ok_next [OF ok] ring_ok_next [OF ok']
    by (auto simp: event_ring_def wireless_event_enqueue_def Let_def ring_ok_def)
  show "events (wireless_event_enqueue e s) = (if length (events s) = 15 then tl (events s) else events s) @ [e]"
  proof (cases "ring_next ?n ?h = ?t")
    case True
    have "ring_next ?n ?t \<noteq> ?t"
      using unat_ring_next [OF b(2,3), of ?t] succ_mod(1) [of "unat ?t" ?n] ok b(4) by (auto simp: ring_ok_def split: if_splits)
    then have ne: "ring_next ?n ?h \<noteq> ring_next ?n ?t" using True by simp
    have "?h \<noteq> ?t" using ring_empty_iff [OF ok] full True by (auto simp: events_def)
    then have "ring_contents ?n ?q (ring_next ?n ?t) ?h = tl (events s)" using ring_get [OF ok] by (simp add: events_def)
    then show ?thesis using ring_put [OF ok' ne, of e] True full by (simp add: events_def wireless_event_enqueue_def Let_def)
  next
    case False
    then show ?thesis using ring_put [OF ok False, of e] full by (simp add: events_def wireless_event_enqueue_def Let_def)
  qed
qed

lemma enqueue_events:
  assumes "event_ring s" and "events s = []"
  shows "event_ring (fold wireless_event_enqueue es s)"
    and "events (fold wireless_event_enqueue es s) = drop (length es - 15) es"
proof (induction es rule: rev_induct)
  case Nil
  case 1 then show ?case using assms by simp
  case 2 then show ?case using assms by simp
next
  case (snoc e es)
  case 1 then show ?case using enqueue_event(1) [OF snoc(1)] by simp
  case 2
  have "length (events (fold wireless_event_enqueue es s)) = (if 15 \<le> length es then 15 else length es)"
    using snoc(2) by auto
  moreover have "Suc (length es - 15) = length es - 14" if "15 \<le> length es" using that by linarith
  ultimately show ?case
    using enqueue_event(2) [OF snoc(1), of e] snoc(2) by (auto simp: tl_drop drop_Suc [symmetric])
qed

lemma dequeue_event:
  assumes "event_ring s"
  shows "wireless_event_dequeue s = (case events s of [] \<Rightarrow> (None, s)
      | e # es \<Rightarrow> (Some e, s\<lparr>wireless_event_queue_tail := ring_next WT_EVENT_QUEUE_SIZE (wireless_event_queue_tail s)\<rparr>))"
    and "event_ring (snd (wireless_event_dequeue s))" and "events (snd (wireless_event_dequeue s)) = tl (events s)"
proof -
  have ok: "ring_ok WT_EVENT_QUEUE_SIZE (wireless_event_queue s) (wireless_event_queue_tail s) (wireless_event_queue_head s)"
    using assms by (simp add: event_ring_def)
  note nil = ring_empty_iff [OF ok] and get = ring_get [OF ok]
  show "wireless_event_dequeue s = (case events s of [] \<Rightarrow> (None, s)
      | e # es \<Rightarrow> (Some e, s\<lparr>wireless_event_queue_tail := ring_next WT_EVENT_QUEUE_SIZE (wireless_event_queue_tail s)\<rparr>))"
    using nil get by (auto simp: wireless_event_dequeue_def events_def split: list.split)
  show "event_ring (snd (wireless_event_dequeue s))"
    using ok ring_ok_next [OF ok] by (auto simp: wireless_event_dequeue_def event_ring_def)
  show "events (snd (wireless_event_dequeue s)) = tl (events s)"
    using nil get by (auto simp: wireless_event_dequeue_def events_def)
qed

section \<open>Handlers leave the queue alone\<close>

text \<open>Changing the tail before or after a handler makes no difference, and a handler keeps the ring.\<close>

definition at_tail :: "u8 \<Rightarrow> wstep" where
  "at_tail t s = s\<lparr>wireless_event_queue_tail := t\<rparr>"

named_theorems tail_simps "operations that do not see the tail of the event queue"

lemma at_tail_sel [tail_simps]:
  "wireless_state (at_tail t s) = wireless_state s" "pincodeEntry (at_tail t s) = pincodeEntry s" "buf (at_tail t s) = buf s"
  "bat (at_tail t s) = bat s" "now (at_tail t s) = now s" "host_drv (at_tail t s) = host_drv s" "host_index (at_tail t s) = host_index s"
  "indicator_running (at_tail t s) = indicator_running s" "transport (at_tail t s) = transport s"
  "firstDisconnect (at_tail t s) = firstDisconnect s" "stored_nkro (at_tail t s) = stored_nkro s"
  by (simp_all add: at_tail_def)

lemma at_tail_update [tail_simps]:
  "at_tail t s\<lparr>wireless_state := w\<rparr> = at_tail t (s\<lparr>wireless_state := w\<rparr>)" "at_tail t s\<lparr>host_index := h\<rparr> = at_tail t (s\<lparr>host_index := h\<rparr>)"
  "at_tail t s\<lparr>led_state := l\<rparr> = at_tail t (s\<lparr>led_state := l\<rparr>)" "at_tail t s\<lparr>buf := b\<rparr> = at_tail t (s\<lparr>buf := b\<rparr>)"
  "at_tail t s\<lparr>keymap_nkro := x\<rparr> = at_tail t (s\<lparr>keymap_nkro := x\<rparr>)" "at_tail t s\<lparr>pincodeEntry := x\<rparr> = at_tail t (s\<lparr>pincodeEntry := x\<rparr>)"
  "at_tail t s\<lparr>firstDisconnect := x\<rparr> = at_tail t (s\<lparr>firstDisconnect := x\<rparr>)"
  "at_tail t s\<lparr>wireless_report_protocol := x\<rparr> = at_tail t (s\<lparr>wireless_report_protocol := x\<rparr>)"
  "at_tail t s\<lparr>lpm_time_up := x, lpm_timer_buffer := y\<rparr> = at_tail t (s\<lparr>lpm_time_up := x, lpm_timer_buffer := y\<rparr>)"
  "radio_emit e (at_tail t s) = at_tail t (radio_emit e s)" "on_buf f (at_tail t s) = at_tail t (on_buf f s)"
  by (simp_all add: at_tail_def radio_emit_def on_buf_def)

lemma at_tail_basic [tail_simps]:
  "battery_is_critical_low (at_tail t s) = battery_is_critical_low s" "battery_is_empty (at_tail t s) = battery_is_empty s"
  "battery_get_percentage c (at_tail t s) = battery_get_percentage c s"
  "lpm_timer_reset (at_tail t s) = at_tail t (lpm_timer_reset s)"
  by (simp_all add: battery_is_critical_low_def battery_is_empty_def battery_get_percentage_def lpm_timer_reset_def tail_simps)

lemma low_lights_tail [tail_simps]: "low_lights c on (at_tail t s) = at_tail t (low_lights c on s)"
  by (simp add: low_lights_def Let_def tail_simps)

lemma connect_tail [tail_simps]: "wireless_connect (at_tail t s) = at_tail t (wireless_connect s)"
  by (simp add: wireless_connect_def Let_def tail_simps)

lemma report_task_tail [tail_simps]: "report_task c (at_tail t s) = at_tail t (report_task c s)"
  by (simp add: report_task_def Let_def tail_simps split: prod.split option.split)

lemma send_buffered_tail [tail_simps]: "send_buffered c p r (at_tail t s) = at_tail t (send_buffered c p r s)"
  by (simp add: send_buffered_def Let_def tail_simps)

lemma driver_tail [tail_simps]: "wireless_driver c e (at_tail t s) = at_tail t (wireless_driver c e s)"
  by (cases e) (simp_all add: wireless_send_keyboard_def wireless_send_nkro_def wireless_send_extra_def wireless_send_system_def
    wireless_send_consumer_def Let_def tail_simps)

lemma host_send_tail [tail_simps]: "host_send c es (at_tail t s) = at_tail t (host_send c es s)"
proof -
  have "fold (wireless_driver c) es (at_tail t s) = at_tail t (fold (wireless_driver c) es s)" for s
    by (induction es arbitrary: s) (simp_all add: driver_tail)
  then show ?thesis by (simp add: host_send_def tail_simps)
qed

lemma handle_tail: "handle_event c e (at_tail t s) = at_tail t (handle_event c e s)"
  by (cases "evt_type e") (simp_all add: handle_event_def wireless_enter_reset_def wireless_enter_connected_def
    wireless_enter_discoverable_def wireless_enter_reconnecting_def wireless_enter_disconnected_def wireless_enter_disconnected_kb_def
    wireless_enter_bluetooth_pin_code_entry_def wireless_exit_bluetooth_pin_code_entry_def wireless_enter_sleep_def
    wireless_hid_set_protocol_def Let_def battery_is_empty_def tail_simps)

text \<open>The queue as a whole is a frame of the handlers.\<close>

definition event_queue :: "wireless \<Rightarrow> wireless_event list \<times> u8 \<times> u8" where
  "event_queue s = (wireless_event_queue s, wireless_event_queue_tail s, wireless_event_queue_head s)"

named_theorems queue_simps "operations that keep the event queue"

lemma queue_update [queue_simps]:
  "event_queue (s\<lparr>wireless_state := w\<rparr>) = event_queue s" "event_queue (s\<lparr>host_index := h\<rparr>) = event_queue s"
  "event_queue (s\<lparr>led_state := l\<rparr>) = event_queue s" "event_queue (s\<lparr>buf := b\<rparr>) = event_queue s"
  "event_queue (s\<lparr>keymap_nkro := x\<rparr>) = event_queue s" "event_queue (s\<lparr>pincodeEntry := x\<rparr>) = event_queue s"
  "event_queue (s\<lparr>firstDisconnect := x\<rparr>) = event_queue s" "event_queue (s\<lparr>wireless_report_protocol := x\<rparr>) = event_queue s"
  "event_queue (radio_emit e s) = event_queue s" "event_queue (on_buf f s) = event_queue s" "event_queue (lpm_timer_reset s) = event_queue s"
  by (simp_all add: event_queue_def radio_emit_def on_buf_def lpm_timer_reset_def)

lemma queue_basic [queue_simps]:
  "event_queue (low_lights c on s) = event_queue s" "event_queue (wireless_connect s) = event_queue s"
  "event_queue (report_task c s) = event_queue s"
  by (simp_all add: low_lights_def wireless_connect_def report_task_def Let_def queue_simps split: prod.split option.split)

lemma queue_driver [queue_simps]: "event_queue (wireless_driver c e s) = event_queue s"
  by (cases e) (simp_all add: wireless_send_keyboard_def wireless_send_nkro_def send_buffered_def wireless_send_extra_def
    wireless_send_system_def wireless_send_consumer_def Let_def queue_simps)

lemma queue_host [queue_simps]: "event_queue (host_send c es s) = event_queue s"
proof -
  have "event_queue (fold (wireless_driver c) es s) = event_queue s"
    by (rule fold_keeps) (simp_all add: queue_simps)
  then show ?thesis by (simp add: host_send_def)
qed

lemma queue_handle: "event_queue (handle_event c e s) = event_queue s"
  by (cases "evt_type e") (simp_all add: handle_event_def wireless_enter_reset_def wireless_enter_connected_def
    wireless_enter_discoverable_def wireless_enter_reconnecting_def wireless_enter_disconnected_def wireless_enter_disconnected_kb_def
    wireless_enter_bluetooth_pin_code_entry_def wireless_exit_bluetooth_pin_code_entry_def wireless_enter_sleep_def
    wireless_hid_set_protocol_def Let_def queue_simps)

lemma handle_events:
  "events (handle_event c e s) = events s" "event_ring (handle_event c e s) = event_ring s"
  "wireless_event_queue_head (handle_event c e s) = wireless_event_queue_head s"
  using queue_handle [of c e s] by (simp_all add: event_queue_def events_def event_ring_def)

section \<open>The task\<close>

lemma event_loop_handles:
  assumes "event_ring s" and "length (events s) < n"
  shows "event_loop c n s = at_tail (wireless_event_queue_head s) (fold (handle_event c) (events s) s)"
  using assms
proof (induction n arbitrary: s)
  case 0
  then show ?case by simp
next
  case (Suc n)
  note deq = dequeue_event [OF Suc.prems(1)]
  show ?case
  proof (cases "events s")
    case Nil
    then have "wireless_event_queue_head s = wireless_event_queue_tail s"
      using ring_empty_iff Suc.prems(1) unfolding events_def event_ring_def by blast
    then show ?thesis using Nil deq(1) by (simp add: at_tail_def)
  next
    case (Cons e es)
    let ?t = "ring_next WT_EVENT_QUEUE_SIZE (wireless_event_queue_tail s)"
    let ?s = "handle_event c e (at_tail ?t s)"
    have d: "wireless_event_dequeue s = (Some e, at_tail ?t s)" using deq(1) Cons by (simp add: at_tail_def)
    have t: "event_ring (at_tail ?t s)" "events (at_tail ?t s) = es" using deq(2,3) d Cons by simp_all
    have r: "event_ring ?s" "events ?s = es" using t by (simp_all add: handle_events)
    have "event_loop c (Suc n) s = event_loop c n ?s" by (simp add: d)
    also have "\<dots> = at_tail (wireless_event_queue_head ?s) (fold (handle_event c) es ?s)"
      using Suc.IH [OF r(1)] r(2) Suc.prems(2) Cons by simp
    also have "fold (handle_event c) es ?s = at_tail ?t (fold (handle_event c) (e # es) s)"
    proof -
      have "fold (handle_event c) es (at_tail ?t x) = at_tail ?t (fold (handle_event c) es x)" for x
        by (induction es arbitrary: x) (simp_all add: handle_tail)
      then show ?thesis by (simp add: handle_tail)
    qed
    also have "wireless_event_queue_head ?s = wireless_event_queue_head s" by (simp add: handle_events at_tail_def)
    finally show ?thesis using Cons by (simp add: at_tail_def)
  qed
qed

text \<open>C15: The event task handles what the module reported, oldest first, and leaves the queue empty; when
  more than 15 events were reported since the last call, the latest 15 of them count.\<close>

theorem event_task_handles_latest:
  assumes "event_ring s" and "events s = []"
  shows "(let s1 = fold wireless_event_enqueue es s; s2 = wireless_event_task c s1
    in s2 = at_tail (wireless_event_queue_head s1) (fold (handle_event c) (drop (length es - 15) es) s1)
      \<and> event_ring s2 \<and> events s2 = [])"
proof -
  define s1 where "s1 = fold wireless_event_enqueue es s"
  have s1: "event_ring s1" "events s1 = drop (length es - 15) es"
    using enqueue_events [OF assms] by (simp_all add: s1_def)
  define s2 where "s2 = fold (handle_event c) (drop (length es - 15) es) s1"
  have q: "event_queue s2 = event_queue s1"
    unfolding s2_def by (rule fold_keeps) (simp_all add: queue_handle)
  have "length (events s1) < WT_EVENT_QUEUE_SIZE" using events_at_most [OF s1(1)] by (simp add: WT_EVENT_QUEUE_SIZE_def)
  then have t: "wireless_event_task c s1 = at_tail (wireless_event_queue_head s1) s2"
    using event_loop_handles [OF s1(1)] s1(2) by (simp add: wireless_event_task_def s2_def)
  have "event_ring (at_tail (wireless_event_queue_head s1) s2)" "events (at_tail (wireless_event_queue_head s1) s2) = []"
    using q s1(1) by (simp_all add: event_queue_def at_tail_def event_ring_def ring_ok_def events_def ring_contents_def)
  then show ?thesis by (simp add: t s1_def [symmetric] s2_def [symmetric] Let_def)
qed

lemma event_task_handles_latest_witness:
  "events (wireless_event_task demo_radio (fold wireless_event_enqueue [\<lparr>evt_type = EVT_CONNECTED, params = 1\<rparr>] demo_on)) = []
    \<and> wireless_state (wireless_event_task demo_radio (fold wireless_event_enqueue [\<lparr>evt_type = EVT_CONNECTED, params = 1\<rparr>,
        \<lparr>evt_type = EVT_DISCOVERABLE, params = 1\<rparr>] demo_on)) = WT_PARING"
proof -
  have e: "event_ring demo_on" "events demo_on = []"
    by (simp_all add: demo_on_def demo_off_def wireless_init_def wireless_event_queue_init_def Let_def event_ring_def events_def
      ring_ok_def ring_contents_def WT_EVENT_QUEUE_SIZE_def)
  have s: "wireless_state (at_tail t (handle_event c \<lparr>evt_type = EVT_DISCOVERABLE, params = h\<rparr> s)) = WT_PARING" for t c h s
    by (simp add: at_tail_def handle_event_def wireless_enter_discoverable_def)
  have "events (wireless_event_task demo_radio (fold wireless_event_enqueue es demo_on)) = []" for es
    using event_task_handles_latest [OF e, of es demo_radio] unfolding Let_def by blast
  moreover have "wireless_state (wireless_event_task demo_radio (fold wireless_event_enqueue [\<lparr>evt_type = EVT_CONNECTED, params = 1\<rparr>,
        \<lparr>evt_type = EVT_DISCOVERABLE, params = 1\<rparr>] demo_on)) = WT_PARING"
    using event_task_handles_latest [OF e, of "[\<lparr>evt_type = EVT_CONNECTED, params = 1\<rparr>, \<lparr>evt_type = EVT_DISCOVERABLE, params = 1\<rparr>]" demo_radio]
    unfolding Let_def by (simp only: s fold_simps list.size drop_0 drop.simps simp_thms) (simp add: s)
  ultimately show ?thesis by blast
qed

end
