(* ===== verification/Transport.thy ===== *)
theory Transport
  imports WirelessTask
begin

text \<open>
  Switching between USB, Bluetooth and the 2.4 GHz receiver: set_transport and the functions that
  enable a transport (keyboards/keychron/common/wireless/transport.c) and the debouncing of the mode
  switch (wireless_pre_task in keychron_wireless_common.c). The 50 milliseconds in which the module
  is polled are the list of the calls of its task.
\<close>

definition empty_keyboard_report :: "u8 list" where
  "empty_keyboard_report = replicate KEYBOARD_REPORT_KEYS 0"

text \<open>Enabling: take over the host driver, disconnect, poll the module and connect to a host.\<close>

definition radio_enable :: "wireless_cfg \<Rightarrow> wstep list \<Rightarrow> u8 \<Rightarrow> wstep" where
  "radio_enable c polls h s =
     (let s = wireless_disconnect c (s\<lparr>host_drv := WIRELESS_DRIVER\<rparr>);
          s = fold (\<lambda>f. f) polls s
      in wireless_connect_ex h 0 s)"

definition radio_disable :: "wireless_cfg \<Rightarrow> transport_kind \<Rightarrow> wstep" where
  "radio_disable c kind s =
     (let s = radio_emit Indicator_stop s
      in if wireless_state s = WT_CONNECTED \<and> transport s = kind then wireless_send_keyboard c 0 empty_keyboard_report s else s)"

definition bt_transport_enable :: "wireless_cfg \<Rightarrow> wstep list \<Rightarrow> bool \<Rightarrow> wstep" where
  "bt_transport_enable c polls enable s =
     (if enable then radio_enable c polls 30 s else radio_disable c TRANSPORT_BLUETOOTH s)"

definition p24g_transport_enable :: "wireless_cfg \<Rightarrow> wstep list \<Rightarrow> bool \<Rightarrow> wstep" where
  "p24g_transport_enable c polls enable s =
     (if enable then radio_enable c polls P24G_INDEX s else radio_disable c TRANSPORT_P2P4 s)"

definition usb_transport_enable :: "wireless_cfg \<Rightarrow> bool \<Rightarrow> wstep" where
  "usb_transport_enable c enable s =
     (if enable
      then if host_drv s \<noteq> CHIBIOS_DRIVER
           then (if KEEP_USB_CONNECTION_IN_WIRELESS_MODE c then s else radio_emit Usb_start s)\<lparr>host_drv := CHIBIOS_DRIVER\<rparr> else s
      else let s = (if usb_active s then radio_emit Usb_empty_report s else s)
           in if KEEP_USB_CONNECTION_IN_WIRELESS_MODE c then s else (radio_emit Usb_stop s)\<lparr>usb_active := False\<rparr>)"

text \<open>The NKRO setting to use over the radio; the one of USB is put aside.\<close>

definition radio_nkro :: "wireless_cfg \<Rightarrow> wstep" where
  "radio_nkro c s =
     (if NKRO_BUILD c
      then s\<lparr>nkro_usb := keymap_nkro s, keymap_nkro := WIRELESS_NKRO_ENABLE c \<and> nkro_bluetooth s\<rparr> else s)"

definition usb_nkro :: "wireless_cfg \<Rightarrow> wstep" where
  "usb_nkro c s =
     (if NKRO_BUILD c
      then (if WIRELESS_NKRO_ENABLE c then s\<lparr>nkro_bluetooth := keymap_nkro s\<rparr> else s)\<lparr>keymap_nkro := nkro_usb s\<rparr> else s)"

definition set_transport :: "wireless_cfg \<Rightarrow> wstep list \<Rightarrow> transport_kind \<Rightarrow> wstep" where
  "set_transport c polls new s =
     (if transport s = new then s
      else let s = (if transport s = TRANSPORT_USB \<or> wireless_state s = WT_CONNECTED then host_send c (clear_keyboard c) s else s);
               s = s\<lparr>transport := new\<rparr>;
               s = (case new of
                   TRANSPORT_USB \<Rightarrow>
                     let s = bt_transport_enable c polls False (usb_transport_enable c True s);
                         s = wireless_disconnect c (p24g_transport_enable c polls False (wait_ms 5 s))
                     in usb_nkro c (lpm_timer_stop s)
                 | TRANSPORT_BLUETOOTH \<Rightarrow>
                     let s = bt_transport_enable c polls True (wait_ms 1 (p24g_transport_enable c polls False s))
                     in radio_nkro c (lpm_timer_reset (usb_transport_enable c False s))
                 | TRANSPORT_P2P4 \<Rightarrow>
                     let s = p24g_transport_enable c polls True (wait_ms 1 (bt_transport_enable c polls False s))
                     in radio_nkro c (lpm_timer_reset (usb_transport_enable c False s))
                 | TRANSPORT_NONE \<Rightarrow> s)
           in radio_emit Indicator_init s)"

text \<open>The two pins of the mode switch; a mode is taken over when it was stable for 100 milliseconds.\<close>

definition wireless_pre_task :: "wireless_cfg \<Rightarrow> wstep list \<Rightarrow> wstep" where
  "wireless_pre_task c polls s =
     (let s = (if switch_time s = 0 \<and> mode_pins s \<noteq> switch_mode s
               then s\<lparr>switch_mode := mode_pins s, switch_time := now s\<rparr> else s)
      in if switch_time s \<noteq> 0 \<and> timer_elapsed32 (now s) (switch_time s) > 100 \<or> transport s = TRANSPORT_NONE
         then if mode_pins s = switch_mode s
              then let s = s\<lparr>switch_time := 0\<rparr>
                   in if switch_mode s = 1 then set_transport c polls TRANSPORT_BLUETOOTH s
                      else if switch_mode s = 2 then set_transport c polls TRANSPORT_P2P4 s
                      else if switch_mode s = 3 then set_transport c polls TRANSPORT_USB s
                      else s
              else s\<lparr>switch_mode := mode_pins s, switch_time := now s\<rparr>
         else s)"

section \<open>The NKRO setting across transports\<close>

definition nkro_settings :: "wireless \<Rightarrow> bool \<times> bool \<times> bool \<times> transport_kind" where
  "nkro_settings s = (keymap_nkro s, nkro_usb s, nkro_bluetooth s, transport s)"

lemma nkro_settings_frame [frame_simps]:
  "nkro_settings (radio_emit e s) = nkro_settings s"
  "nkro_settings (on_buf f s) = nkro_settings s"
  "nkro_settings (s\<lparr>wireless_state := w\<rparr>) = nkro_settings s"
  "nkro_settings (s\<lparr>host_index := h\<rparr>) = nkro_settings s"
  "nkro_settings (s\<lparr>led_state := l\<rparr>) = nkro_settings s"
  "nkro_settings (s\<lparr>host_drv := d\<rparr>) = nkro_settings s"
  "nkro_settings (s\<lparr>usb_active := b\<rparr>) = nkro_settings s"
  "nkro_settings (s\<lparr>buf := bf\<rparr>) = nkro_settings s"
  "nkro_settings (wait_ms ms s) = nkro_settings s"
  "nkro_settings (lpm_timer_reset s) = nkro_settings s"
  "nkro_settings (lpm_timer_stop s) = nkro_settings s"
  by (simp_all add: nkro_settings_def radio_emit_def on_buf_def wait_ms_def lpm_timer_reset_def lpm_timer_stop_def)

lemma nkro_connect [frame_simps]: "nkro_settings (wireless_connect s) = nkro_settings s"
  by (simp add: wireless_connect_def Let_def frame_simps)

lemma nkro_report_task [frame_simps]: "nkro_settings (report_task c s) = nkro_settings s"
  by (simp add: report_task_def Let_def frame_simps split: prod.split option.split)

lemma nkro_send [frame_simps]: "nkro_settings (wireless_driver c e s) = nkro_settings s"
  by (cases e) (simp_all add: wireless_send_keyboard_def wireless_send_nkro_def send_buffered_def wireless_send_extra_def
    wireless_send_system_def wireless_send_consumer_def Let_def frame_simps)

lemma nkro_host_send [frame_simps]: "nkro_settings (host_send c es s) = nkro_settings s"
proof -
  have "nkro_settings (fold (wireless_driver c) es s) = nkro_settings s"
    by (rule fold_keeps) (simp_all add: frame_simps)
  then show ?thesis by (simp add: host_send_def)
qed

lemma nkro_connect_ex [frame_simps]: "nkro_settings (wireless_connect_ex h t s) = nkro_settings s"
  by (simp add: wireless_connect_ex_def Let_def frame_simps)

lemma nkro_polls [frame_simps]:
  "\<forall>f \<in> set polls. \<forall>s. nkro_settings (f s) = nkro_settings s \<Longrightarrow> nkro_settings (fold (\<lambda>f. f) polls s) = nkro_settings s"
  by (rule fold_keeps) auto

lemma nkro_disconnect [frame_simps]: "nkro_settings (wireless_disconnect c s) = nkro_settings s"
  by (simp add: wireless_disconnect_def frame_simps)

lemma nkro_radio_disable [frame_simps]: "nkro_settings (radio_disable c k s) = nkro_settings s"
  using nkro_send [of c "HostKeyboard 0 empty_keyboard_report"]
  by (simp add: radio_disable_def Let_def frame_simps)

lemma nkro_radio_enable:
  "\<forall>f \<in> set polls. \<forall>s. nkro_settings (f s) = nkro_settings s \<Longrightarrow> nkro_settings (radio_enable c polls h s) = nkro_settings s"
  by (simp add: radio_enable_def Let_def frame_simps)

lemma nkro_usb_enable [frame_simps]: "nkro_settings (usb_transport_enable c b s) = nkro_settings s"
  by (simp add: usb_transport_enable_def Let_def frame_simps)

lemma nkro_settings_set:
  "nkro_settings (s\<lparr>transport := t'\<rparr>) = (case nkro_settings s of (k, u, b, t) \<Rightarrow> (k, u, b, t'))"
  "NKRO_BUILD c \<Longrightarrow> nkro_settings (radio_nkro c s) = (case nkro_settings s of (k, u, b, t) \<Rightarrow> (WIRELESS_NKRO_ENABLE c \<and> b, k, b, t))"
  "NKRO_BUILD c \<Longrightarrow> nkro_settings (usb_nkro c s) =
    (case nkro_settings s of (k, u, b, t) \<Rightarrow> (u, u, if WIRELESS_NKRO_ENABLE c then k else b, t))"
  by (auto simp: radio_nkro_def usb_nkro_def nkro_settings_def)

lemma nkro_after:
  assumes "NKRO_BUILD c" and "\<forall>f \<in> set polls. \<forall>s. nkro_settings (f s) = nkro_settings s"
    and "nkro_settings s = (k, u, b, t0)" and "t0 \<noteq> t"
  shows "nkro_settings (set_transport c polls t s) =
    (case t of TRANSPORT_USB \<Rightarrow> (u, u, if WIRELESS_NKRO_ENABLE c then k else b, t)
      | TRANSPORT_NONE \<Rightarrow> (k, u, b, t) | _ \<Rightarrow> (WIRELESS_NKRO_ENABLE c \<and> b, k, b, t))"
proof -
  define s1 where "s1 = (if transport s = TRANSPORT_USB \<or> wireless_state s = WT_CONNECTED then host_send c (clear_keyboard c) s else s)"
  have "nkro_settings s1 = (k, u, b, t0)" using assms(3) by (simp add: s1_def frame_simps)
  then have s2: "nkro_settings (s1\<lparr>transport := t\<rparr>) = (k, u, b, t)" by (simp add: nkro_settings_set)
  have ne: "transport s \<noteq> t" using assms(3,4) by (simp add: nkro_settings_def)
  note defs = bt_transport_enable_def p24g_transport_enable_def Let_def
  show ?thesis
    unfolding set_transport_def if_not_P [OF ne] Let_def s1_def [symmetric] frame_simps
    using s2 by (cases t) (simp_all add: defs frame_simps nkro_radio_enable [OF assms(2)] nkro_settings_set assms(1))
qed

text \<open>The NKRO setting chosen on USB is back after a visit to one radio transport, but not after
  switching from one radio transport to the other: then the setting in use over the radio has
  replaced the one put aside for USB.\<close>

theorem nkro_setting_across_transports:
  assumes "NKRO_BUILD c" and "\<forall>f \<in> set polls. \<forall>s. nkro_settings (f s) = nkro_settings s" and "transport s = TRANSPORT_USB"
  shows "keymap_nkro (set_transport c polls TRANSPORT_USB (set_transport c polls TRANSPORT_BLUETOOTH s)) = keymap_nkro s
    \<and> keymap_nkro (set_transport c polls TRANSPORT_USB (set_transport c polls TRANSPORT_P2P4 s)) = keymap_nkro s
    \<and> keymap_nkro (set_transport c polls TRANSPORT_USB (set_transport c polls TRANSPORT_P2P4 (set_transport c polls TRANSPORT_BLUETOOTH s)))
      = (WIRELESS_NKRO_ENABLE c \<and> nkro_bluetooth s)"
proof -
  note step = nkro_after [OF assms(1,2)]
  obtain k u b where s: "nkro_settings s = (k, u, b, TRANSPORT_USB)" and kb: "keymap_nkro s = k" "nkro_bluetooth s = b"
    using assms(3) by (simp add: nkro_settings_def)
  note bt = step [OF s, of TRANSPORT_BLUETOOTH, simplified] and p24 = step [OF s, of TRANSPORT_P2P4, simplified]
  note bt_p24 = step [OF bt, of TRANSPORT_P2P4, simplified]
  have k: "keymap_nkro x = fst (nkro_settings x)" for x by (simp add: nkro_settings_def)
  show ?thesis
    unfolding kb k [of "set_transport c polls TRANSPORT_USB _"]
    using step [OF bt, of TRANSPORT_USB] step [OF p24, of TRANSPORT_USB] step [OF bt_p24, of TRANSPORT_USB] by simp
qed

lemma nkro_setting_across_transports_witness:
  "keymap_nkro (set_transport demo_radio [] TRANSPORT_USB (set_transport demo_radio [] TRANSPORT_BLUETOOTH
      (demo_on\<lparr>transport := TRANSPORT_USB\<rparr>)))
    \<and> \<not> keymap_nkro (set_transport demo_radio [] TRANSPORT_USB (set_transport demo_radio [] TRANSPORT_P2P4
      (set_transport demo_radio [] TRANSPORT_BLUETOOTH (demo_on\<lparr>transport := TRANSPORT_USB\<rparr>))))"
proof -
  have "NKRO_BUILD demo_radio" "\<not> WIRELESS_NKRO_ENABLE demo_radio" by (simp_all add: demo_radio_def)
  moreover have "keymap_nkro (demo_on\<lparr>transport := TRANSPORT_USB\<rparr>)"
    by (simp add: demo_on_def demo_off_def wireless_init_def wireless_event_queue_init_def Let_def)
  ultimately show ?thesis
    using nkro_setting_across_transports [of demo_radio "[]" "demo_on\<lparr>transport := TRANSPORT_USB\<rparr>"] by simp
qed

end
