(* ===== verification/Lkbt51.thy ===== *)
theory Lkbt51
  imports Transport "HOL-Library.Monad_Syntax"
begin

text \<open>
  The driver of the radio module, keyboards/keychron/common/wireless/lkbt51.c: commands as packets on
  the SPI bus, the status and the packets the module answers with, and firmware update packets
  between the host and the module. \<open>None\<close> is an access outside an array. Pins and bus are the
  packets sent and the bytes received; the data of a command is a list of its bytes.
\<close>

section \<open>State\<close>

record lkbt51 =
  reg_offset :: u8
  expect_len :: u8
  connection_interval :: u16
  wake_time :: u32
  cmd_sn :: u8
  wait_for_new_pkt :: bool
  pkt_len :: u8
  pkt_sn :: u8
  dfu_sn :: u8
  spi_out :: "u8 list list"
  hid_out :: "u8 list list"

definition lkbt51_start :: lkbt51 where
  "lkbt51_start = \<lparr>reg_offset = 0xFF, expect_len = 22, connection_interval = 1, wake_time = 0, cmd_sn = 0,
     wait_for_new_pkt = True, pkt_len = 0xFF, pkt_sn = 0, dfu_sn = 0, spi_out = [], hid_out = []\<rparr>"

type_synonym module_step = "lkbt51 \<Rightarrow> lkbt51 option"

definition PACKET_MAX_LEN :: nat where "PACKET_MAX_LEN = 64"
definition PACKECT_HEADER_LEN :: nat where "PACKECT_HEADER_LEN = 5"
definition RAW_EPSIZE :: nat where "RAW_EPSIZE = 32"
definition BUFFER_SIZE :: nat where "BUFFER_SIZE = 64"

definition LKBT51_CMD_SEND_KB :: u8 where "LKBT51_CMD_SEND_KB = 0x11"
definition LKBT51_CMD_SEND_KB_NKRO :: u8 where "LKBT51_CMD_SEND_KB_NKRO = 0x12"
definition LKBT51_CMD_SEND_CONSUMER :: u8 where "LKBT51_CMD_SEND_CONSUMER = 0x13"
definition LKBT51_CMD_SEND_SYSTEM :: u8 where "LKBT51_CMD_SEND_SYSTEM = 0x14"
definition LKBT51_CMD_SEND_MOUSE :: u8 where "LKBT51_CMD_SEND_MOUSE = 0x16"
definition LKBT51_CMD_IO_TEST :: u8 where "LKBT51_CMD_IO_TEST = 0x72"

definition LKBT51_EVT_ACK :: u8 where "LKBT51_EVT_ACK = 0xA1"
definition LKBT51_EVT_QUERY_RSP :: u8 where "LKBT51_EVT_QUERY_RSP = 0xA2"
definition LKBT51_EVT_OTA_RSP :: u8 where "LKBT51_EVT_OTA_RSP = 0xA3"
definition LKBT51_EVT_RESET :: u8 where "LKBT51_EVT_RESET = 0xB0"
definition LKBT51_EVT_HID_EVENT :: u8 where "LKBT51_EVT_HID_EVENT = 0xB4"

definition ACK_SUCCESS :: u8 where "ACK_SUCCESS = 0"
definition ACK_FIFO_HALF_WARNING :: u8 where "ACK_FIFO_HALF_WARNING = 2"
definition ACK_FIFO_FULL_ERROR :: u8 where "ACK_FIFO_FULL_ERROR = 3"

section \<open>Commands\<close>

definition checksum16 :: "u8 list \<Rightarrow> u16" where
  "checksum16 bs = sum_list (map ucast bs)"

definition cmd_packet :: "u8 \<Rightarrow> u8 list \<Rightarrow> bool \<Rightarrow> u8 list" where
  "cmd_packet sn p ack_enable =
     (let len = of_nat (length p) :: u8; sum = checksum16 p
      in [0x84, 0x7e, 0x00, 0x00, 0xAA, if ack_enable then 0x56 else 0x55, len + 2, NOT (len + 2), sn]
         @ p @ [ucast (sum AND 0xFF), ucast (drop_bit 8 sum)])"

definition lkbt51_send_cmd :: "u8 list \<Rightarrow> bool \<Rightarrow> bool \<Rightarrow> module_step" where
  "lkbt51_send_cmd p ack_enable again m =
     (let sn = (if again then cmd_sn m else cmd_sn m + 1);
          sn = (if sn = 0 then sn + 1 else sn);
          pkt = cmd_packet sn p ack_enable
      in if length pkt > PACKET_MAX_LEN then None
         else Some (m\<lparr>cmd_sn := sn, expect_len := 64, spi_out := spi_out m @ [pkt]\<rparr>))"

definition lkbt51_wake :: "u32 \<Rightarrow> lkbt51 \<Rightarrow> lkbt51" where
  "lkbt51_wake clk m = (if timer_elapsed32 clk (wake_time m) > 3000 then m\<lparr>wake_time := clk\<rparr> else m)"

definition lkbt51_send_protocol_ver :: "u16 \<Rightarrow> lkbt51 \<Rightarrow> lkbt51" where
  "lkbt51_send_protocol_ver ver m =
     m\<lparr>expect_len := 10, spi_out := spi_out m @ [[0x84, 0x7e, 0x00, 0x00, 0xAA, 0x54, ucast (ver AND 0xFF),
         ucast (drop_bit 8 ver), NOT 0x54, NOT 0xAA]]\<rparr>"

text \<open>The bytes of a report that a command copies, wherever there are that many.\<close>

definition copy_from :: "u8 list \<Rightarrow> nat \<Rightarrow> nat \<Rightarrow> u8 list option" where
  "copy_from bs i n = (if i + n \<le> length bs then Some (take n (drop i bs)) else None)"

definition lkbt51_send_keyboard :: "u8 list \<Rightarrow> module_step" where
  "lkbt51_send_keyboard r m = do { bs \<leftarrow> copy_from r 0 8; lkbt51_send_cmd (LKBT51_CMD_SEND_KB # bs) True False m }"

definition lkbt51_send_nkro :: "u8 list \<Rightarrow> module_step" where
  "lkbt51_send_nkro r m = do { bs \<leftarrow> copy_from r 0 20; lkbt51_send_cmd (LKBT51_CMD_SEND_KB_NKRO # bs) True False m }"

definition lkbt51_send_consumer :: "u16 \<Rightarrow> module_step" where
  "lkbt51_send_consumer u = lkbt51_send_cmd [LKBT51_CMD_SEND_CONSUMER, ucast (u AND 0xFF), ucast (drop_bit 8 u), 0, 0, 0, 0] True False"

definition lkbt51_send_system :: "u16 \<Rightarrow> module_step" where
  "lkbt51_send_system u m =
     (let hid_usage = ucast (u AND 0xFF) :: u8
      in if hid_usage < 0x81 \<or> hid_usage > 0x83 then Some m
         else lkbt51_send_cmd [LKBT51_CMD_SEND_SYSTEM, push_bit (unat (hid_usage - 0x81)) 1] True False m)"

text \<open>The module takes 16-bit movements: the high byte repeats the sign.\<close>

definition sign_byte :: "u8 \<Rightarrow> u8" where
  "sign_byte b = (if b AND 0x80 \<noteq> 0 then 0xFF else 0)"

definition lkbt51_send_mouse :: "u8 list \<Rightarrow> module_step" where
  "lkbt51_send_mouse r m = do {
     bs \<leftarrow> copy_from r 0 6;
     lkbt51_send_cmd [LKBT51_CMD_SEND_MOUSE, bs ! 1, bs ! 2, sign_byte (bs ! 2), bs ! 3, sign_byte (bs ! 3), bs ! 4, bs ! 5] False False m
   }"

definition lkbt51_send_conn_evt_ack :: module_step where
  "lkbt51_send_conn_evt_ack = lkbt51_send_cmd [0xA4] False False"

record pairing_param =
  timeout :: u16
  pairingMode :: u8
  BRorLE :: u8
  txPower :: u8
  leName :: "u8 list option"

definition default_pairing_param :: pairing_param where
  "default_pairing_param = \<lparr>timeout = 0, pairingMode = 3, BRorLE = 1, txPower = 0, leName = None\<rparr>"

definition lkbt51_become_discoverable :: "u32 \<Rightarrow> u8 \<Rightarrow> pairing_param option \<Rightarrow> module_step" where
  "lkbt51_become_discoverable clk h param m =
     (let p = (case param of None \<Rightarrow> default_pairing_param | Some p \<Rightarrow> p);
          bs = [0x21, h, ucast (timeout p AND 0xFF), ucast (drop_bit 8 (timeout p)), pairingMode p, BRorLE p, txPower p]
               @ (case leName p of None \<Rightarrow> [] | Some n \<Rightarrow> n)
      in if length bs > PACKET_MAX_LEN then None else lkbt51_send_cmd bs True False (lkbt51_wake clk m))"

definition lkbt51_connect :: "u32 \<Rightarrow> u8 \<Rightarrow> u16 \<Rightarrow> module_step" where
  "lkbt51_connect clk h t m =
     lkbt51_send_cmd [0x22, h, ucast (t AND 0xFF), ucast (drop_bit 8 t)] True False (lkbt51_wake clk m)"

definition lkbt51_disconnect :: module_step where
  "lkbt51_disconnect = lkbt51_send_cmd [0x23, 0] True False"

definition lkbt51_switch_host :: "u8 \<Rightarrow> module_step" where
  "lkbt51_switch_host h = lkbt51_send_cmd [0x24, h] True False"

definition lkbt51_read_state_reg :: "u8 \<Rightarrow> u8 \<Rightarrow> module_step" where
  "lkbt51_read_state_reg reg n m = lkbt51_send_cmd [0x25, reg, n] False False (m\<lparr>reg_offset := reg\<rparr>)"

definition lkbt51_update_bat_lvl :: "u8 \<Rightarrow> module_step" where
  "lkbt51_update_bat_lvl b = lkbt51_send_cmd [0x32, b] False False"

definition lkbt51_update_bat_state :: "u8 \<Rightarrow> module_step" where
  "lkbt51_update_bat_state b = lkbt51_send_cmd [0x33, b] False False"

definition lkbt51_get_info :: module_step where
  "lkbt51_get_info = lkbt51_send_cmd [0x40] False False"

text \<open>The parameters are a packed structure of 22 bytes.\<close>

definition lkbt51_set_param :: "u8 list \<Rightarrow> module_step" where
  "lkbt51_set_param param m = do { bs \<leftarrow> copy_from param 0 22; lkbt51_send_cmd (0x41 # bs) False False m }"

definition lkbt51_get_param :: module_step where
  "lkbt51_get_param = lkbt51_send_cmd [0x42] False False"

definition lkbt51_set_local_name :: "u8 list \<Rightarrow> module_step" where
  "lkbt51_set_local_name name m =
     (let n = unat (of_nat (length name) :: u8)
      in if n + 1 > PACKET_MAX_LEN then None else lkbt51_send_cmd (0x45 # take n name) False False m)"

definition lkbt51_get_local_name :: module_step where
  "lkbt51_get_local_name = lkbt51_send_cmd [0x46] False False"

definition lkbt51_factory_reset :: "u32 \<Rightarrow> u8 \<Rightarrow> module_step" where
  "lkbt51_factory_reset clk msk m = lkbt51_send_cmd [0x71, msk] False False (lkbt51_wake clk m)"

definition lkbt51_int_pin_test :: "bool \<Rightarrow> module_step" where
  "lkbt51_int_pin_test enable = lkbt51_send_cmd [LKBT51_CMD_IO_TEST, if enable then 1 else 0] False False"

definition lkbt51_radio_test :: "u8 \<Rightarrow> module_step" where
  "lkbt51_radio_test channel = lkbt51_send_cmd [0x73, channel, 0] False False"

text \<open>The table of functions: what the log of the wireless keyboard asks of the module.\<close>

fun module_call :: "u32 \<Rightarrow> radio \<Rightarrow> module_step" where
  "module_call clk (Transmit (REPORT_KB mods ks)) = lkbt51_send_keyboard (mods # 0 # ks)"
| "module_call clk (Transmit (REPORT_NKRO mods bs)) = lkbt51_send_nkro (mods # bs)"
| "module_call clk (Transmit (REPORT_CONSUMER u)) = lkbt51_send_consumer u"
| "module_call clk (Transmit_system u) = lkbt51_send_system u"
| "module_call clk (Transmit_mouse r) = lkbt51_send_mouse r"
| "module_call clk (Connect_ex h t) = lkbt51_connect clk h t"
| "module_call clk (Pairing_ex h) = lkbt51_become_discoverable clk h None"
| "module_call clk Disconnect = lkbt51_disconnect"
| "module_call clk (Bat_level l) = lkbt51_update_bat_lvl l"
| "module_call clk (Bat_state b) = lkbt51_update_bat_state b"
| "module_call clk Read_state = lkbt51_read_state_reg 0x05 0x02"
| "module_call clk _ = Some"

section \<open>Firmware update\<close>

text \<open>From the host: the length is checked before the data is used, the payload starts behind the header.\<close>

definition lkbt51_dfu_rx :: "u32 \<Rightarrow> u8 list \<Rightarrow> module_step" where
  "lkbt51_dfu_rx clk d m = do {
     h \<leftarrow> copy_from d 0 PACKECT_HEADER_LEN;
     if h ! 0 = 0xAA \<and> (h ! 1 = 0x55 \<or> h ! 1 = 0x56) \<and> h ! 2 = NOT (h ! 3)
     then let payload_len = unat (h ! 2)
          in if payload_len > RAW_EPSIZE - PACKECT_HEADER_LEN then Some m
          else do {
            sum \<leftarrow> map_option checksum16 (copy_from d PACKECT_HEADER_LEN (payload_len - 2));
            tl \<leftarrow> copy_from d (payload_len + PACKECT_HEADER_LEN - 2) 2;
            if sum AND 0xFF \<noteq> ucast (tl ! 0) \<or> drop_bit 8 sum \<noteq> ucast (tl ! 1) then Some m
            else let again = (dfu_sn m = h ! 4); m = m\<lparr>dfu_sn := h ! 4\<rparr>
                 in do {
                   first \<leftarrow> copy_from d PACKECT_HEADER_LEN 1;
                   if first ! 0 AND 0xF0 = 0x60
                   then do {
                     p \<leftarrow> copy_from d PACKECT_HEADER_LEN (unat (h ! 2 - 2));
                     lkbt51_send_cmd p (h ! 1 = 0x56) again (lkbt51_wake clk m)
                   }
                   else Some m
                 }
          }
     else Some m
   }"

text \<open>To the host: the whole answer is copied behind a header of seven bytes before its length is looked at.\<close>

definition lkbt51_dfu_tx :: "u8 \<Rightarrow> u8 list \<Rightarrow> u8 \<Rightarrow> u8 \<Rightarrow> module_step" where
  "lkbt51_dfu_tx rsp d len sn m =
     (if 7 + unat len > RAW_EPSIZE then None
      else do {
        bs \<leftarrow> copy_from d 0 (unat len);
        let pad = (\<lambda>xs. xs @ replicate (RAW_EPSIZE - length xs) 0);
            m = m\<lparr>hid_out := hid_out m @ [pad ([0x03, 0xAA, 0x57, len, NOT len, sn, rsp] @ bs)]\<rparr>
        in if unat len > 25
           then Some (m\<lparr>hid_out := hid_out m @ [pad (0x03 # drop 25 bs)]\<rparr>) else Some m
      })"

section \<open>Answers of the module\<close>

text \<open>What an answer does to the wireless keyboard.\<close>

datatype module_note =
    Queue_event wireless_event
  | Set_retry u8
  | Set_interval u8
  | Voltage u16
  | Factory_test "u8 list"

fun apply_note :: "wireless_cfg \<Rightarrow> module_note \<Rightarrow> wstep" where
  "apply_note c (Queue_event e) = wireless_event_enqueue e"
| "apply_note c (Set_retry n) = on_buf (report_buffer_set_retry n)"
| "apply_note c (Set_interval n) = on_buf (report_buffer_set_inverval n)"
| "apply_note c (Voltage v) = battery_calculate_voltage c True v"
| "apply_note c (Factory_test d) = id"

definition ack_handler :: "lkbt51 \<Rightarrow> u8 list \<Rightarrow> module_note list option" where
  "ack_handler m d = do {
     a \<leftarrow> copy_from d 1 1;
     if a ! 0 \<in> {LKBT51_CMD_SEND_KB, LKBT51_CMD_SEND_KB_NKRO, LKBT51_CMD_SEND_CONSUMER, LKBT51_CMD_SEND_SYSTEM, LKBT51_CMD_SEND_MOUSE}
     then do {
       st \<leftarrow> copy_from d 2 1;
       Some (if st ! 0 = ACK_SUCCESS then [Set_retry 0, Set_interval (ucast (connection_interval m))]
             else if st ! 0 = ACK_FIFO_HALF_WARNING then [Set_retry 0, Set_interval (ucast (connection_interval m + 5))]
             else if st ! 0 = ACK_FIFO_FULL_ERROR then [Set_interval (ucast (connection_interval m + 10))]
             else [])
     }
     else Some []
   }"

definition query_rsp_handler :: "u8 list \<Rightarrow> u8 \<Rightarrow> module_note list option" where
  "query_rsp_handler d len = do {
     hd \<leftarrow> copy_from d 1 2;
     if hd ! 1 \<noteq> 0 then Some []
     else if hd ! 0 = LKBT51_CMD_IO_TEST then map_option (\<lambda>bs. [Factory_test bs]) (copy_from d 0 (unat len)) else Some []
   }"

definition lkbt51_event_handler :: "u8 \<Rightarrow> u8 list \<Rightarrow> u8 \<Rightarrow> u8 \<Rightarrow> lkbt51 \<Rightarrow> (module_note list \<times> lkbt51) option" where
  "lkbt51_event_handler evt d len sn m =
     (if evt = LKBT51_EVT_ACK then map_option (\<lambda>ns. (ns, m)) (ack_handler m d)
      else if evt = LKBT51_EVT_RESET
      then map_option (\<lambda>b. ([Queue_event \<lparr>evt_type = EVT_RESET, params = b ! 0\<rparr>], m)) (copy_from d 0 1)
      else if evt = LKBT51_EVT_HID_EVENT
      then map_option (\<lambda>b. ([Queue_event \<lparr>evt_type = EVT_HID_INDICATOR, params = b ! 0\<rparr>], m)) (copy_from d 0 1)
      else if evt = LKBT51_EVT_QUERY_RSP then map_option (\<lambda>ns. (ns, m)) (query_rsp_handler d len)
      else if evt = LKBT51_EVT_OTA_RSP then map_option (\<lambda>m. ([], m)) (lkbt51_dfu_tx LKBT51_EVT_OTA_RSP d len sn m)
      else Some ([], m))"

text \<open>The state code of a connection event; an unknown one keeps what the event was before.\<close>

definition connection_event :: "u8 \<Rightarrow> event_code \<Rightarrow> event_code" where
  "connection_event b old =
     (if b = 0x20 then EVT_CONNECTED else if b = 0x21 then EVT_DISCOVERABLE else if b = 0x22 then EVT_RECONNECTING
      else if b = 0x23 then EVT_DISCONNECTED else if b = 0x24 then EVT_BT_PINCODE_ENTRY
      else if b = 0x25 then EVT_EXIT_BT_PINCODE_ENTRY else if b = 0x26 then EVT_SLEEP else old)"

definition interval_of :: "u8 \<Rightarrow> u16" where
  "interval_of b =
     (let interval = (if b AND 0x80 \<noteq> 0 then ucast (b AND 0x7F) * 1250 else ucast (b AND 0x7F) * 125 :: u32);
          ci = ucast (interval div 1000) :: u16
      in if ci > 7 then ci div 3 else ci)"

text \<open>The status, in the bytes behind the first four.\<close>

definition module_status :: "u8 list \<Rightarrow> lkbt51 \<Rightarrow> (module_note list \<times> lkbt51) option" where
  "module_status pbuf m =
     (if pbuf ! 0 = 0xAA \<and> pbuf ! 1 = 0x54 \<and> pbuf ! 4 = NOT 0x54 \<and> pbuf ! 5 = NOT 0xAA then Some ([], m)
      else if pbuf ! 0 = 0xAA
      then let mask = pbuf ! 1;
               e = (if mask AND 0x08 \<noteq> 0 then \<lparr>evt_type = EVT_RESET, params = pbuf ! 2\<rparr> else no_event);
               n1 = (if mask AND 0x08 \<noteq> 0 then [Queue_event e] else [])
           in do {
             (n2, m) \<leftarrow> (if mask AND 0x01 \<noteq> 0
               then map_option (Pair [Queue_event \<lparr>evt_type = connection_event (pbuf ! 2) (evt_type e), params = pbuf ! 3\<rparr>])
                      (lkbt51_send_conn_evt_ack m)
               else Some ([], m));
             let n3 = (if mask AND 0x02 \<noteq> 0 then [Queue_event \<lparr>evt_type = EVT_HID_INDICATOR, params = pbuf ! 4\<rparr>] else []);
                 ci = interval_of (pbuf ! 8);
                 n4 = (if mask AND 0x10 \<noteq> 0 then [Queue_event \<lparr>evt_type = EVT_CONECTION_INTERVAL, params = ucast ci\<rparr>] else []);
                 m = (if mask AND 0x10 \<noteq> 0 then m\<lparr>connection_interval := ci\<rparr> else m);
                 n5 = (if mask AND 0x04 \<noteq> 0 then [Voltage (push_bit 8 (ucast (pbuf ! 6)) OR ucast (pbuf ! 5))] else [])
             in Some (n1 @ n2 @ n3 @ n4 @ n5, m)
           }
      else Some ([], m))"

text \<open>Where a packet starts in the bytes received: the last position that looks like one.\<close>

definition packet_starts :: "u8 list \<Rightarrow> nat list" where
  "packet_starts b = filter (\<lambda>i. b ! i = 0xAA \<and> b ! (i + 1) = 0x57 \<and> NOT (b ! (i + 2)) = b ! (i + 3)) [10..<BUFFER_SIZE - 5]"

definition module_packet :: "u8 list \<Rightarrow> lkbt51 \<Rightarrow> (module_note list \<times> lkbt51) option" where
  "module_packet b m =
     (let (start, m) =
            (if wait_for_new_pkt m \<and> packet_starts b \<noteq> []
             then let i = last (packet_starts b)
                  in (i + 5, m\<lparr>pkt_len := b ! (i + 2), pkt_sn := b ! (i + 4), wait_for_new_pkt := False\<rparr>)
             else (0, m))
      in if \<not> wait_for_new_pkt m \<and> unat (pkt_len m) \<le> BUFFER_SIZE - 5
         then let m = m\<lparr>wait_for_new_pkt := True\<rparr>; len = unat (pkt_len m)
              in if start + len < 2 then None
                 else do {
                   sum \<leftarrow> map_option checksum16 (copy_from b start (len - 2));
                   tl \<leftarrow> copy_from b (start + len - 2) 2;
                   if sum AND 0xFF = ucast (tl ! 0) \<and> drop_bit 8 sum = ucast (tl ! 1)
                   then do {
                     evt \<leftarrow> copy_from b start 1;
                     lkbt51_event_handler (evt ! 0) (drop (start + 1) b) (pkt_len m - 3) (pkt_sn m) m
                   }
                   else Some ([], m)
                 }
         else Some ([], m))"

text \<open>
  A read of the module: four bytes of command and as many as are expected, from an array of 64 bytes
  into an array of 64 bytes; \<open>rx\<close> is what the module sends.
\<close>

definition lkbt51_read :: "u8 list \<Rightarrow> lkbt51 \<Rightarrow> u8 list option" where
  "lkbt51_read rx m =
     (let n = unat (4 + expect_len m)
      in if PACKET_MAX_LEN < n \<or> BUFFER_SIZE < n then None
         else Some (take BUFFER_SIZE (take n rx @ replicate BUFFER_SIZE 0)))"

definition lkbt51_task :: "bool \<Rightarrow> u8 list \<Rightarrow> lkbt51 \<Rightarrow> (module_note list \<times> lkbt51) option" where
  "lkbt51_task int_pin rx m =
     (if int_pin then Some ([], m)
      else do {
        b \<leftarrow> lkbt51_read rx m;
        (n1, m) \<leftarrow> module_status (drop 4 b) m;
        (n2, m) \<leftarrow> module_packet b m;
        Some (n1 @ n2, m)
      })"

end
