(* ===== verification/WirelessSafe.thy ===== *)
theory WirelessSafe
  imports WirelessEvents Lkbt51
begin

text \<open>
  Safety of the wireless keyboard: what may go over the air in which state, as an invariant of a
  step relation over all of its entry points, and silence once the battery is critically low.
\<close>

section \<open>What goes over the air\<close>

fun empty_report :: "report_buffer_t \<Rightarrow> bool" where
  "empty_report (REPORT_KB m ks) = (m = 0 \<and> (\<forall>k \<in> set ks. k = 0))"
| "empty_report (REPORT_NKRO m bs) = (m = 0 \<and> (\<forall>b \<in> set bs. b = 0))"
| "empty_report (REPORT_CONSUMER u) = (u = 0)"
| "empty_report REPORT_NONE = True"

fun carries :: "radio \<Rightarrow> bool" where
  "carries (Transmit r) = (\<not> empty_report r)"
| "carries (Transmit_system u) = True"
| "carries (Transmit_mouse bs) = (\<exists>b \<in> set bs. b \<noteq> 0)"
| "carries _ = False"

fun on_air :: "radio \<Rightarrow> bool" where
  "on_air (Transmit r) = True"
| "on_air (Transmit_system u) = True"
| "on_air (Transmit_mouse bs) = True"
| "on_air (Connect_ex h t) = True"
| "on_air (Pairing_ex h) = True"
| "on_air _ = False"

definition aired :: "wireless \<Rightarrow> radio list" where
  "aired s = filter on_air (map snd (radio_log s))"

definition log_ok :: "(wt_state \<times> radio) list \<Rightarrow> bool" where
  "log_ok l \<longleftrightarrow> (\<forall>(st, e) \<in> set l. carries e \<longrightarrow> st = WT_CONNECTED)"

definition wireless_inv :: "wireless \<Rightarrow> bool" where
  "wireless_inv s \<longleftrightarrow> event_ring s \<and> buf_inv (buf s) \<and> log_ok (radio_log s)
     \<and> (battery_is_critical_low s \<longrightarrow> queued (buf s) = [] \<and> retry (buf s) = 0)"

text \<open>
  The invariant, alone or with the battery critically low at a count \<open>k\<close> and nothing aired beyond
  \<open>l\<close>: both are kept by the same operations for the same reasons.
\<close>

definition W :: "(u8 \<times> radio list) option \<Rightarrow> wireless \<Rightarrow> bool" where
  "W mo s \<longleftrightarrow> wireless_inv s \<and> (case mo of None \<Rightarrow> True
     | Some (k, l) \<Rightarrow> critical_low (bat s) = k \<and> battery_is_critical_low s \<and> aired s = l)"

named_theorems keeps "operations that keep the invariant of the wireless keyboard"

lemma wireless_inv_update [simp]:
  "event_ring (s\<lparr>buf := b\<rparr>) = event_ring s" "event_ring (s\<lparr>bat := bt\<rparr>) = event_ring s"
  "event_ring (radio_emit e s) = event_ring s" "event_ring (on_buf f s) = event_ring s" "event_ring (on_bat g s) = event_ring s"
  "battery_is_critical_low (radio_emit e s) = battery_is_critical_low s" "battery_is_critical_low (on_buf f s) = battery_is_critical_low s"
  "aired (on_buf f s) = aired s" "aired (on_bat g s) = aired s"
  "aired (radio_emit e s) = aired s @ (if on_air e then [e] else [])"
  by (simp_all add: event_ring_def battery_is_critical_low_def aired_def)

lemma W_update [keeps]:
  "W mo s \<Longrightarrow> W mo (s\<lparr>wireless_state := w\<rparr>)" "W mo s \<Longrightarrow> W mo (s\<lparr>host_index := h\<rparr>)" "W mo s \<Longrightarrow> W mo (s\<lparr>led_state := l\<rparr>)"
  "W mo s \<Longrightarrow> W mo (s\<lparr>keymap_nkro := x\<rparr>)" "W mo s \<Longrightarrow> W mo (s\<lparr>pincodeEntry := x\<rparr>)" "W mo s \<Longrightarrow> W mo (s\<lparr>firstDisconnect := x\<rparr>)"
  "W mo s \<Longrightarrow> W mo (s\<lparr>wireless_report_protocol := x\<rparr>)" "W mo s \<Longrightarrow> W mo (s\<lparr>now := t\<rparr>)" "W mo s \<Longrightarrow> W mo (s\<lparr>rtc := t\<rparr>)"
  "W mo s \<Longrightarrow> W mo (s\<lparr>pairing_key_timer := t\<rparr>)" "W mo s \<Longrightarrow> W mo (s\<lparr>key_host_idx := h\<rparr>)"
  "W mo s \<Longrightarrow> W mo (s\<lparr>nkro_usb := x\<rparr>)" "W mo s \<Longrightarrow> W mo (s\<lparr>nkro_bluetooth := x\<rparr>)"
  "W mo s \<Longrightarrow> W mo (s\<lparr>host_drv := d\<rparr>)" "W mo s \<Longrightarrow> W mo (s\<lparr>transport := t'\<rparr>)" "W mo s \<Longrightarrow> W mo (s\<lparr>usb_active := x\<rparr>)"
  "W mo s \<Longrightarrow> W mo (s\<lparr>switch_mode := p\<rparr>)" "W mo s \<Longrightarrow> W mo (s\<lparr>switch_time := t\<rparr>)"
  "W mo s \<Longrightarrow> W mo (s\<lparr>lpm_time_up := x\<rparr>)" "W mo s \<Longrightarrow> W mo (s\<lparr>lpm_timer_buffer := t\<rparr>)"
  by (auto simp: W_def wireless_inv_def event_ring_def battery_is_critical_low_def aired_def split: option.splits)

lemma W_emit [keeps]:
  assumes "W mo s" and "carries e \<Longrightarrow> wireless_state s = WT_CONNECTED" and "on_air e \<Longrightarrow> \<not> battery_is_critical_low s"
  shows "W mo (radio_emit e s)"
  using assms by (auto simp: W_def wireless_inv_def log_ok_def split: option.splits)

lemma W_buf:
  assumes "W mo s" and "buf_inv (f (buf s))" and "battery_is_critical_low s \<Longrightarrow> queued (f (buf s)) = [] \<and> retry (f (buf s)) = 0"
  shows "W mo (on_buf f s)"
  using assms by (auto simp: W_def wireless_inv_def split: option.splits)

lemma W_D:
  assumes "W mo s"
  shows "event_ring s" "buf_inv (buf s)" "battery_is_critical_low s \<Longrightarrow> queued (buf s) = []" "battery_is_critical_low s \<Longrightarrow> retry (buf s) = 0"
  using assms by (simp_all add: W_def wireless_inv_def)

lemma W_lpm [keeps]: "W mo s \<Longrightarrow> W mo (lpm_timer_reset s)" "W mo s \<Longrightarrow> W mo (lpm_timer_stop s)"
  by (auto simp: W_def wireless_inv_def event_ring_def battery_is_critical_low_def aired_def lpm_timer_reset_def lpm_timer_stop_def
    split: option.splits)

lemma W_if: "(b \<Longrightarrow> W mo x) \<Longrightarrow> (\<not> b \<Longrightarrow> W mo y) \<Longrightarrow> W mo (if b then x else y)"
  by simp

section \<open>Sending and connecting\<close>

lemma W_low_lights [keeps]: "W mo s \<Longrightarrow> W mo (low_lights c on s)"
  unfolding low_lights_def Let_def by (auto intro!: W_emit)

lemma W_update2:
  "W mo s \<Longrightarrow> W mo (s\<lparr>wireless_state := w, host_index := h\<rparr>)" "W mo s \<Longrightarrow> W mo (s\<lparr>host_index := h, led_state := l\<rparr>)"
  using W_update(2) [OF W_update(1)] W_update(3) [OF W_update(2)] by blast+

lemma W_pairing_ex [keeps]: "W mo s \<Longrightarrow> W mo (wireless_pairing_ex c h s)"
  unfolding wireless_pairing_ex_def by (auto intro!: W_emit W_update2)

lemma W_connect [keeps]: "W mo s \<Longrightarrow> W mo (wireless_connect s)"
  unfolding wireless_connect_def Let_def by (auto intro!: W_emit W_update)

lemma W_connect_ex [keeps]: "W mo s \<Longrightarrow> W mo (wireless_connect_ex h t s)"
proof -
  assume s: "W mo s"
  then have "W mo (s\<lparr>host_index := h, led_state := 0\<rparr>)" by (rule W_update2)
  with s show ?thesis
    unfolding wireless_connect_ex_def Let_def by (auto intro!: W_emit W_update(1) simp: battery_is_critical_low_def)
qed

lemma W_disconnect [keeps]: "W mo s \<Longrightarrow> W mo (wireless_disconnect c s)"
  unfolding wireless_disconnect_def by (auto intro!: W_emit)

lemma task_keeps_buf:
  assumes "buf_inv b" and "report_buffer_task c con t b = (p, sent, b')"
  shows "buf_inv b'" and "sent \<noteq> None \<Longrightarrow> con"
proof -
  have "buf_inv b' \<and> (sent \<noteq> None \<longrightarrow> con)"
    using assms(1)
  proof (cases rule: dequeue_cases)
    case 1
    then show ?thesis using assms by (auto simp: report_buffer_task_def Let_def split: if_splits prod.splits option.splits)
  next
    case (2 r b'')
    then show ?thesis using assms by (auto simp: report_buffer_task_def Let_def split: if_splits prod.splits option.splits)
  qed
  then show "buf_inv b'" "sent \<noteq> None \<Longrightarrow> con" by simp_all
qed

lemma W_report_task [keeps]:
  assumes "W mo s"
  shows "W mo (report_task c s)"
proof -
  obtain p sent b where t: "report_buffer_task (wt_func.truncate c) (wireless_state s = WT_CONNECTED) (now s) (buf s) = (p, sent, b)"
    by (metis prod_cases3)
  note B = task_keeps_buf [OF W_D(2) [OF assms] t]
  have idle: "p = False \<and> sent = None \<and> b = buf s" if "battery_is_critical_low s"
    using t W_D(3,4) [OF assms that] rbq.has_data_iff [OF W_D(2) [OF assms]] by (simp add: report_buffer_task_def split: if_splits)
  have "W mo (on_buf (\<lambda>_. b) s)"
    using W_buf [OF assms, of "\<lambda>_. b"] B(1) idle W_D(3,4) [OF assms] by auto
  then have s1: "W mo (s\<lparr>buf := b\<rparr>)" by (simp add: on_buf_def)
  have "W mo (case sent of None \<Rightarrow> s\<lparr>buf := b\<rparr> | Some r \<Rightarrow> radio_emit (Transmit r) (s\<lparr>buf := b\<rparr>))"
    using B(2) idle s1 by (cases sent) (auto intro!: W_emit simp: battery_is_critical_low_def)
  then show ?thesis unfolding report_task_def t by (simp add: Let_def W_lpm)
qed

lemma W_enqueue:
  assumes "W mo s" and "\<not> battery_is_critical_low s"
  shows "W mo (on_buf (\<lambda>b. snd (report_buffer_enqueue r b)) s)"
  using W_buf [OF assms(1)] rbq.enq_inv [OF W_D(2) [OF assms(1)]] assms(2) by simp

lemma W_send_buffered [keeps]: "W mo s \<Longrightarrow> W mo (send_buffered c p r s)"
  by (simp add: send_buffered_def Let_def W_enqueue W_report_task W_connect)

lemma W_send_mouse [keeps]: "W mo s \<Longrightarrow> W mo (wireless_send_mouse c r s)"
  unfolding wireless_send_mouse_def by (auto intro!: W_emit W_connect)

lemma W_send_extra [keeps]:
  assumes "W mo s"
  shows "W mo (wireless_send_extra c is_system u s)"
proof (cases "battery_is_critical_low s")
  case False
  have sys: "W mo (wireless_send_system c u s)"
    using assms False unfolding wireless_send_system_def by (auto intro!: W_emit W_connect)
  have upd: "W mo (on_buf (report_buffer_update_timer t) x)" if "W mo x" "\<not> battery_is_critical_low x" for t x
    using W_buf [OF that(1)] W_D(2) [OF that(1)] that(2) by (simp add: report_buffer_update_timer_def)
  have "W mo (wireless_send_consumer c u s)"
    using assms False unfolding wireless_send_consumer_def by (auto intro!: upd W_emit W_connect W_enqueue)
  with sys show ?thesis using False by (simp add: wireless_send_extra_def)
qed (simp add: wireless_send_extra_def assms)

lemma W_driver [keeps]: "W mo s \<Longrightarrow> W mo (wireless_driver c e s)"
  by (cases e) (simp_all add: wireless_send_keyboard_def wireless_send_nkro_def W_send_buffered W_send_extra)

lemma W_host_send [keeps]: "W mo s \<Longrightarrow> W mo (host_send c es s)"
  unfolding host_send_def by (auto intro: fold_keeps W_driver)

section \<open>Events\<close>

lemma W_buffer_init [keeps]: "W mo s \<Longrightarrow> W mo (on_buf (report_buffer_init t) s)"
  by (rule W_buf) (simp_all add: init_queue, simp add: report_buffer_init_def)

lemma W_retry [keeps]: "W mo s \<Longrightarrow> W mo (on_buf (report_buffer_set_retry 0) s)"
  using W_D [of mo s] by (auto intro!: W_buf simp: report_buffer_set_retry_def)

lemma W_interval [keeps]: "W mo s \<Longrightarrow> W mo (on_buf (report_buffer_set_inverval n) s)"
  using W_D [of mo s] by (auto intro!: W_buf simp: report_buffer_set_inverval_def)

lemma W_handle [keeps]:
  assumes "W mo s"
  shows "W mo (handle_event c e s)"
proof -
  have con: "W mo (wireless_enter_connected c h s)" for h
    unfolding wireless_enter_connected_def Let_def using assms by (auto intro!: keeps)
  have dis: "W mo (wireless_enter_disconnected c h s)" for h
    unfolding wireless_enter_disconnected_def wireless_enter_disconnected_kb_def Let_def using assms by (auto intro!: keeps)
  show ?thesis
    using assms con dis
    by (cases "evt_type e") (auto simp: handle_event_def wireless_enter_reset_def wireless_enter_discoverable_def
      wireless_enter_reconnecting_def wireless_enter_bluetooth_pin_code_entry_def wireless_exit_bluetooth_pin_code_entry_def
      wireless_enter_sleep_def wireless_hid_set_protocol_def Let_def intro!: keeps)
qed

section \<open>Tasks\<close>

lemma W_event_task [keeps]:
  assumes "W mo s"
  shows "W mo (wireless_event_task c s)"
proof -
  have "W mo (event_loop c n s)" if "W mo s" for n s
    using that
  proof (induction n arbitrary: s)
    case (Suc n)
    have deq: "W mo (snd (wireless_event_dequeue s))"
      using Suc.prems dequeue_event(2) [OF W_D(1) [OF Suc.prems]]
      by (auto simp: W_def wireless_inv_def wireless_event_dequeue_def battery_is_critical_low_def aired_def split: option.splits)
    obtain eo s1 where d: "wireless_event_dequeue s = (eo, s1)" by fastforce
    then show ?case using deq Suc.IH W_handle by (cases eo) simp_all
  qed simp
  then show ?thesis using assms by (simp add: wireless_event_task_def)
qed

lemma W_bat:
  assumes "W mo s" and "critical_low (g (bat s)) = critical_low (bat s)"
  shows "W mo (on_bat g s)"
  using assms by (auto simp: W_def wireless_inv_def battery_is_critical_low_def split: option.splits)

lemma W_None_emit: "W None s \<Longrightarrow> (carries e \<Longrightarrow> wireless_state s = WT_CONNECTED) \<Longrightarrow> W None (radio_emit e s)"
  by (auto simp: W_def wireless_inv_def log_ok_def)

lemma W_common_task [keeps]: "W mo s \<Longrightarrow> W mo (keychron_wireless_common_task c s)"
  unfolding keychron_wireless_common_task_def by (auto intro!: keeps)

lemma W_wait [keeps]: "W mo s \<Longrightarrow> W mo (wait_ms t s)"
  unfolding wait_ms_def by (rule keeps)

text \<open>The shutdown brings the invariant about when the count has just become critical.\<close>

lemma low_lights_frame:
  "event_ring (low_lights c on s) = event_ring s" "buf (low_lights c on s) = buf s" "now (low_lights c on s) = now s"
  "log_ok (radio_log (low_lights c on s)) = log_ok (radio_log s)" "bat (low_lights c on s) = bat s"
  "aired (low_lights c on s) = aired s"
  by (auto simp: low_lights_def Let_def log_ok_def)

lemma shutdown_W:
  assumes "event_ring s" and "log_ok (radio_log s)"
  shows "W None (wireless_low_battery_shutdown c s)"
proof -
  have "queued (report_buffer_init t b) = [] \<and> retry (report_buffer_init t b) = 0 \<and> buf_inv (report_buffer_init t b)" for t b
    using init_queue [of t b] by (simp add: report_buffer_init_def)
  then have W: "W None (on_buf (report_buffer_init t) (low_lights c False s))" for t
    using assms by (simp add: W_def wireless_inv_def low_lights_frame)
  show ?thesis
    unfolding wireless_low_battery_shutdown_def Let_def
    by (intro W_disconnect W_wait W_None_emit W_host_send W) (simp_all add: empty_mouse_report_def split: if_splits)
qed

lemma W_check_critical [keeps]:
  assumes "W mo s"
  shows "W mo (battery_check_critical_low c s)"
proof (cases "battery_is_critical_low s")
  case True
  then have "\<not> critical_low (bat s) \<le> CRITICAL_LOW_COUNT" by (simp add: battery_is_critical_low_def not_le)
  then show ?thesis using assms by (simp add: battery_check_critical_low_def)
next
  case False
  then have mo: "mo = None" using assms by (cases mo) (auto simp: W_def)
  have W: "W None s" using assms mo by simp
  let ?s = "on_bat (\<lambda>b. b\<lparr>critical_low := critical_low b + 1\<rparr>) s"
  have "W None ?s" if "\<not> critical_low (bat ?s) > CRITICAL_LOW_COUNT"
    using that W by (auto simp: W_def wireless_inv_def battery_is_critical_low_def)
  moreover have "W None (on_bat (\<lambda>b. b\<lparr>critical_low := 0\<rparr>) s)"
    using W by (auto simp: W_def wireless_inv_def battery_is_critical_low_def CRITICAL_LOW_COUNT_def)
  moreover have "W None (wireless_low_battery_shutdown c ?s)"
    by (rule shutdown_W) (use W in \<open>auto simp: W_def wireless_inv_def\<close>)
  ultimately show ?thesis using W by (auto simp: mo battery_check_critical_low_def Let_def)
qed

lemma W_check_empty [keeps]:
  assumes "W mo s"
  shows "W mo (battery_check_empty c s)"
proof -
  have "W mo (on_bat (\<lambda>b. b\<lparr>bat_empty := bat_empty b + 1\<rparr>) s)" by (rule W_bat [OF assms]) simp
  moreover have "W mo (on_bat (\<lambda>b. b\<lparr>power_on_sample := n\<rparr>) x)" if "W mo x" for n x by (rule W_bat [OF that]) simp
  ultimately show ?thesis using assms by (auto simp: battery_check_empty_def Let_def intro!: W_low_lights)
qed

lemma W_sample [keeps]:
  assumes "W mo s"
  shows "W mo (battery_sample c s)"
proof -
  have B: "W mo (on_bat (\<lambda>b. b\<lparr>power_on_sample := f b\<rparr>) x)" "W mo (on_bat (\<lambda>b. b\<lparr>bat_monitor_timer_buffer := t\<rparr>) x)"
    if "W mo x" for f t x by (rule W_bat [OF that], simp)+
  define s1 where "s1 = on_bat (\<lambda>b. b\<lparr>bat_monitor_timer_buffer := rtc (battery_check_critical_low c (battery_check_empty c s))\<rparr>)
    (battery_check_critical_low c (battery_check_empty c s))"
  define s2 where "s2 = radio_emit Read_state (if bat_monitor_timer_buffer (bat s1) > RTC_MAX_TIME
    then (on_bat (\<lambda>b. b\<lparr>bat_monitor_timer_buffer := 0\<rparr>) s1)\<lparr>rtc := 0\<rparr> else s1)"
  have "W mo s1" unfolding s1_def by (intro B(2) W_check_critical W_check_empty assms)
  then have "W mo s2" unfolding s2_def by (auto intro!: W_emit W_update B(2))
  then show ?thesis
    unfolding battery_sample_def Let_def s1_def [symmetric] s2_def [symmetric] by (auto intro!: B(1))
qed

lemma battery_task_keeps:
  assumes "W mo s"
  shows "W None (battery_task c s)" and "mo = Some (k, l) \<Longrightarrow> aired (battery_task c s) = l"
proof -
  define s1 where "s1 = (if TRANSPORT_WIRELESS (transport s) \<and> (wireless_state s = WT_CONNECTED \<or> battery_power_on_sample s)
    then battery_monitor c (timer_elapsed32 (rtc s) (bat_monitor_timer_buffer (bat s))) s else s)"
  note t = battery_task_def [of c s, unfolded Let_def, folded s1_def]
  have "W mo (battery_monitor c u s)" for u
    unfolding battery_monitor_def Let_def using assms by (auto intro!: W_sample W_emit)
  then have s1: "W mo s1" unfolding s1_def using assms by auto
  then have n: "W None s1" by (simp add: W_def)
  have "W None (on_bat (\<lambda>b. b\<lparr>bat_empty := 0, critical_low := 0\<rparr>) s1)"
    using n by (auto simp: W_def wireless_inv_def battery_is_critical_low_def CRITICAL_LOW_COUNT_def)
  then show "W None (battery_task c s)" unfolding t using n by (auto intro!: W_low_lights)
  show "aired (battery_task c s) = l" if "mo = Some (k, l)"
    using s1 that by (simp add: t W_def low_lights_frame)
qed

lemma lpm_task_keeps: "W None s \<Longrightarrow> W None (lpm_task s)" "aired (lpm_task s) = aired s"
proof -
  have u: "W None (s\<lparr>lpm_time_up := True, lpm_timer_buffer := 0\<rparr>)" if "W None s"
    using W_update(20) [OF W_update(19) [OF that]] by simp
  show "W None s \<Longrightarrow> W None (lpm_task s)"
    unfolding lpm_task_def Let_def by (auto intro!: W_buffer_init W_lpm W_emit u)
  show "aired (lpm_task s) = aired s"
    by (simp add: lpm_task_def Let_def aired_def)
qed

lemma wireless_task_keeps:
  assumes "W mo s"
  shows "W None (wireless_task c s)" and "mo = Some (k, l) \<Longrightarrow> aired (wireless_task c s) = l"
proof -
  have "W mo (keychron_wireless_common_task c (report_task c (wireless_event_task c s)))"
    using assms by (intro keeps)
  from battery_task_keeps [OF this]
  show "W None (wireless_task c s)" "mo = Some (k, l) \<Longrightarrow> aired (wireless_task c s) = l"
    by (simp_all add: wireless_task_def lpm_task_keeps)
qed

section \<open>Keys, mode switch and answers of the module\<close>

lemma W_key [keeps]:
  assumes "W mo s"
  shows "W mo (process_record_wireless c keycode press s)"
proof -
  have two: "W mo (x\<lparr>key_host_idx := h, pairing_key_timer := t\<rparr>)" if "W mo x" for x h t
    using W_update(10) [OF W_update(11) [OF that]] by simp
  have key: "W mo (process_record_keychron_wireless c keycode press x)" if "W mo x" for x
    unfolding process_record_keychron_wireless_def Let_def by (intro W_if two W_connect_ex W_emit that) simp_all
  show ?thesis
    unfolding process_record_wireless_def Let_def by (intro key W_if W_low_lights W_lpm assms)
qed

lemma W_pairing [keeps]: "W mo s \<Longrightarrow> W mo (wireless_pairing c s)"
  unfolding wireless_pairing_def by (auto intro!: keeps)

definition ack_only :: "module_note \<Rightarrow> bool" where
  "ack_only n \<longleftrightarrow> (\<forall>k. n = Set_retry k \<longrightarrow> k = 0)"

lemma W_note:
  assumes "W mo s" and "ack_only n"
  shows "W mo (apply_note c n s)"
proof (cases n)
  case (Queue_event e)
  have "radio_log (wireless_event_enqueue e s) = radio_log s" "buf (wireless_event_enqueue e s) = buf s"
    "bat (wireless_event_enqueue e s) = bat s"
    by (simp_all add: wireless_event_enqueue_def Let_def)
  then show ?thesis
    using assms(1) enqueue_event(1) [OF W_D(1) [OF assms(1)], of e]
    by (auto simp: Queue_event W_def wireless_inv_def battery_is_critical_low_def aired_def split: option.splits)
next
  case (Voltage v)
  have "W mo (battery_set_voltage x y)" if "W mo y" for x y
    unfolding battery_set_voltage_def by (rule W_bat [OF that]) simp
  then show ?thesis using assms(1) by (simp add: Voltage battery_calculate_voltage_def Let_def)
qed (use assms in \<open>simp_all add: ack_only_def W_retry W_interval\<close>)

text \<open>What may happen while the module is polled.\<close>

definition poll :: "wireless_cfg \<Rightarrow> wstep \<Rightarrow> bool" where
  "poll c f \<longleftrightarrow> (\<exists>n. ack_only n \<and> f = apply_note c n) \<or> (\<exists>t. f = wait_ms t)"

lemma W_polls:
  assumes "W mo s" and "\<forall>f \<in> set polls. poll c f"
  shows "W mo (fold (\<lambda>f. f) polls s)"
  using assms
proof (induction polls arbitrary: s)
  case (Cons f polls)
  then have "W mo (f s)" by (auto simp: poll_def W_note W_wait)
  then show ?case using Cons by simp
qed simp

lemma W_set_transport:
  assumes "W mo s" and "\<forall>f \<in> set polls. poll c f"
  shows "W mo (set_transport c polls t s)"
proof -
  have off: "W mo (radio_disable c k x)" if "W mo x" for k x
    unfolding radio_disable_def Let_def wireless_send_keyboard_def using that by (auto intro!: W_emit W_send_buffered)
  have on: "W mo (radio_enable c polls h x)" if "W mo x" for h x
    unfolding radio_enable_def Let_def using that by (intro W_connect_ex W_polls [OF _ assms(2)] W_disconnect W_update)
  have usb: "W mo (usb_transport_enable c b x)" if "W mo x" for b x
    unfolding usb_transport_enable_def Let_def by (intro W_if W_update(14,16) W_emit that) simp_all
  have nk: "W mo (x\<lparr>nkro_usb := a, keymap_nkro := b\<rparr>)" "W mo (x\<lparr>nkro_bluetooth := a, keymap_nkro := b\<rparr>)" if "W mo x" for x a b
    using W_update(4) [OF W_update(12) [OF that]] W_update(4) [OF W_update(13) [OF that]] by simp_all
  have nkro: "W mo (radio_nkro c x)" "W mo (usb_nkro c x)" if "W mo x" for x
    unfolding radio_nkro_def usb_nkro_def by (intro W_if nk W_update(4,13) that; assumption?)+
  note parts = off on usb nkro W_lpm W_wait W_disconnect W_update(15) W_host_send
  show ?thesis
  proof (cases "transport s = t")
    case False
    define s1 where "s1 = (if transport s = TRANSPORT_USB \<or> wireless_state s = WT_CONNECTED then host_send c (clear_keyboard c) s else s)"
    have "W mo (s1\<lparr>transport := t\<rparr>)" using assms(1) by (auto simp: s1_def intro!: parts)
    then show ?thesis
      unfolding set_transport_def if_not_P [OF False] Let_def s1_def [symmetric] bt_transport_enable_def p24g_transport_enable_def
      by (cases t) (auto intro!: W_emit parts)
  qed (simp add: set_transport_def assms)
qed

lemma W_pre_task:
  assumes "W mo s" and "\<forall>f \<in> set polls. poll c f"
  shows "W mo (wireless_pre_task c polls s)"
proof -
  have two: "W mo (x\<lparr>switch_mode := m, switch_time := t\<rparr>)" if "W mo x" for x m t
    using W_update(18) [OF W_update(17) [OF that]] by simp
  show ?thesis
    unfolding wireless_pre_task_def Let_def by (intro W_if two W_update(18) W_set_transport assms)
qed

section \<open>All steps\<close>

inductive wireless_step :: "wireless_cfg \<Rightarrow> wireless \<Rightarrow> wireless \<Rightarrow> bool" for c where
  Clock: "wireless_step c s (s\<lparr>now := t, rtc := t'\<rparr>)"
| Surroundings: "wireless_step c s (s\<lparr>indicator_running := b1, indicator_enabled := b2, pwm_total := p, usb_power := b3,
    usb_active := b4, charging := b5, may_sleep := b6, mode_pins := m\<rparr>)"
| Answer: "ack_only n \<Longrightarrow> wireless_step c s (apply_note c n s)"
| Task: "wireless_step c s (wireless_task c s)"
| String_task: "wireless_step c s (send_string_task c s)"
| Mode_switch: "\<forall>f \<in> set polls. poll c f \<Longrightarrow> wireless_step c s (wireless_pre_task c polls s)"
| Host_report: "wireless_step c s (host_send c es s)"
| Mouse_report: "wireless_step c s (wireless_send_mouse c r s)"
| Key: "wireless_step c s (process_record_wireless c keycode press s)"
| Pairing: "wireless_step c s (wireless_pairing c s)"
| Connecting: "wireless_step c s (wireless_connect s)"
| Connecting_to: "wireless_step c s (wireless_connect_ex h t s)"
| Disconnecting: "wireless_step c s (wireless_disconnect c s)"

inductive wireless_reachable :: "wireless_cfg \<Rightarrow> wireless \<Rightarrow> bool" for c where
  Start: "\<not> battery_is_critical_low s \<Longrightarrow> radio_log s = [] \<Longrightarrow> wireless_reachable c (wireless_init s)"
| Step: "wireless_reachable c s \<Longrightarrow> wireless_step c s s' \<Longrightarrow> wireless_reachable c s'"

lemma step_keeps:
  assumes "wireless_step c s s'" and "W mo s"
  shows "W None s'" and "mo = Some (k, l) \<Longrightarrow> aired s' = l"
proof -
  have "W mo s' \<or> s' = wireless_task c s"
    using assms(1)
  proof cases
    case (Clock t t')
    then show ?thesis using W_update(9) [OF W_update(8) [OF assms(2)]] by simp
  next
    case Surroundings
    then show ?thesis
      using assms(2) by (auto simp: W_def wireless_inv_def event_ring_def battery_is_critical_low_def aired_def split: option.splits)
  next
    case String_task
    then show ?thesis unfolding send_string_task_def using W_report_task [OF assms(2)] assms(2) by simp
  next
    case (Mode_switch polls)
    then show ?thesis using W_pre_task [OF assms(2)] by blast
  qed (use W_note [OF assms(2)] W_host_send [OF assms(2)] W_send_mouse [OF assms(2)] W_key [OF assms(2)] W_pairing [OF assms(2)]
    W_connect [OF assms(2)] W_connect_ex [OF assms(2)] W_disconnect [OF assms(2)] in \<open>blast+\<close>)
  then show "W None s'" "mo = Some (k, l) \<Longrightarrow> aired s' = l"
    using wireless_task_keeps [OF assms(2)] by (auto simp: W_def)
qed

lemma reachable_W: "wireless_reachable c s \<Longrightarrow> W None s"
proof (induction rule: wireless_reachable.induct)
  case (Start s)
  then show ?case
    using event_queue_init [of "s\<lparr>wireless_state := WT_INITIALIZED\<rparr>"] init_queue [of "now s" "buf s"]
    by (simp add: W_def wireless_inv_def wireless_init_def Let_def log_ok_def battery_is_critical_low_def wireless_event_queue_init_def
      event_ring_def lpm_timer_reset_def radio_emit_def on_buf_def)
next
  case (Step s s')
  then show ?case using step_keeps(1) by blast
qed

text \<open>C12: Whatever keys, module, pins and battery do: a key, consumer, system or mouse report with anything
  in it goes over the air only while a host is connected, and once the battery is critically low
  nothing is sent at all, neither reports nor attempts to connect or pair.\<close>

theorem radio_safe:
  assumes "wireless_reachable c s"
  shows "(\<forall>(st, e) \<in> set (radio_log s). carries e \<longrightarrow> st = WT_CONNECTED)
    \<and> (battery_is_critical_low s \<and> wireless_step c s s' \<longrightarrow> aired s' = aired s)"
proof (intro conjI impI)
  have W: "W None s" by (rule reachable_W [OF assms])
  then show "\<forall>(st, e) \<in> set (radio_log s). carries e \<longrightarrow> st = WT_CONNECTED"
    by (simp add: W_def wireless_inv_def log_ok_def)
  assume a: "battery_is_critical_low s \<and> wireless_step c s s'"
  then have "W (Some (critical_low (bat s), aired s)) s" using W by (simp add: W_def)
  from step_keeps(2) [OF conjunct2 [OF a] this] show "aired s' = aired s" by simp
qed

text \<open>A keyboard whose battery becomes critical at the next measurement.\<close>

lemma radio_safe_witness:
  "\<exists>s. wireless_reachable demo_radio s \<and> battery_is_critical_low s \<and> aired (wireless_connect s) = aired s
    \<and> filter (\<lambda>(st, e). carries e \<and> st \<noteq> WT_CONNECTED) (radio_log s) = []"
proof -
  let ?off = "demo_off\<lparr>bat := \<lparr>voltage = 3000, bat_empty = 0, critical_low = 20, power_on_sample = 0, bat_monitor_timer_buffer = 0\<rparr>\<rparr>"
  let ?s = "wireless_task demo_radio (wireless_init ?off\<lparr>now := 4000, rtc := 4000\<rparr>)"
  have "wireless_reachable demo_radio (wireless_init ?off)"
    by (rule Start) (simp_all add: battery_is_critical_low_def CRITICAL_LOW_COUNT_def demo_off_def)
  then have r: "wireless_reachable demo_radio ?s"
    by (intro wireless_reachable.Step [OF wireless_reachable.Step [OF _ wireless_step.Clock] wireless_step.Task])
  have c: "battery_is_critical_low ?s" by code_simp
  note safe = radio_safe [OF r]
  have "aired (wireless_connect ?s) = aired ?s" using safe [THEN conjunct2] c wireless_step.Connecting by blast
  moreover have "filter (\<lambda>(st, e). carries e \<and> st \<noteq> WT_CONNECTED) (radio_log ?s) = []"
    using safe [THEN conjunct1] by (auto simp: filter_empty_conv)
  ultimately show ?thesis using r c by blast
qed

end
