(* ===== verification/WirelessOrder.thy ===== *)
theory WirelessOrder
  imports WirelessSafe
begin

text \<open>Key reports over the air: order and repetition while a host is connected.\<close>

section \<open>Runs\<close>

datatype radio_op = Report effect | At u32 | Run_task | Acknowledged u8

fun radio_do :: "wireless_cfg \<Rightarrow> radio_op \<Rightarrow> wstep" where
  "radio_do c (Report e) s = wireless_driver c e s"
| "radio_do c (At t) s = s\<lparr>now := t\<rparr>"
| "radio_do c Run_task s = report_task c s"
| "radio_do c (Acknowledged n) s = apply_note c (Set_interval n) (apply_note c (Set_retry 0) s)"

fun is_key :: "report_buffer_t \<Rightarrow> bool" where
  "is_key (REPORT_KB m ks) = True"
| "is_key (REPORT_NKRO m bs) = True"
| "is_key _ = False"

fun key_report :: "effect \<Rightarrow> report_buffer_t list" where
  "key_report (HostKeyboard m ks) = [REPORT_KB m ks]"
| "key_report (HostNkro m bs) = [REPORT_NKRO m bs]"
| "key_report _ = []"

text \<open>The key reports of a run that found room in the queue.\<close>

fun accepted :: "wireless_cfg \<Rightarrow> radio_op list \<Rightarrow> wireless \<Rightarrow> report_buffer_t list" where
  "accepted c [] s = []"
| "accepted c (x # xs) s =
     (case x of Report e \<Rightarrow> if length (queued (buf s)) < 255 then key_report e else [] | _ \<Rightarrow> []) @ accepted c xs (radio_do c x s)"

fun key_sent :: "wt_state \<times> radio \<Rightarrow> report_buffer_t list" where
  "key_sent (st, Transmit r) = (if is_key r then [r] else [])"
| "key_sent _ = []"

definition keys_sent :: "wireless \<Rightarrow> report_buffer_t list" where
  "keys_sent s = concat (map key_sent (radio_log s))"

text \<open>Reports, each of them as many times as the number beside it.\<close>

definition repeated :: "nat list \<Rightarrow> report_buffer_t list \<Rightarrow> report_buffer_t list" where
  "repeated ns rs = concat (map2 replicate ns rs)"

lemma repeated_more: "length ns \<le> length rs \<Longrightarrow> repeated ns (rs @ xs) = repeated ns rs"
  by (simp add: repeated_def zip_append2)

lemma repeated_next: "length ns < length rs \<Longrightarrow> repeated (ns @ [n]) rs = repeated ns rs @ replicate n (rs ! length ns)"
proof (induction ns arbitrary: rs)
  case Nil
  then show ?case by (cases rs) (simp_all add: repeated_def)
next
  case (Cons m ns)
  then show ?case by (cases rs) (simp_all add: repeated_def)
qed

lemma repeated_last:
  assumes "length ns \<le> length rs" and "ns \<noteq> []"
  shows "repeated (butlast ns @ [Suc (last ns)]) rs = repeated ns rs @ [rs ! (length ns - 1)]"
proof -
  have "0 < length ns" using assms(2) by simp
  with assms(1) have "length ns - 1 < length rs" by linarith
  then have l: "length (butlast ns) < length rs" by simp
  have "repeated ns rs = repeated (butlast ns) rs @ replicate (last ns) (rs ! length (butlast ns))"
    using repeated_next [OF l, of "last ns"] assms(2) by simp
  then show ?thesis
    using repeated_next [OF l, of "Suc (last ns)"] by (simp add: replicate_append_same)
qed

section \<open>One step\<close>

text \<open>The state after a run in which the key reports \<open>acc\<close> were accepted.\<close>

definition ordered :: "report_buffer_t list \<Rightarrow> report_buffer_t list \<Rightarrow> wireless \<Rightarrow> bool" where
  "ordered start acc s \<longleftrightarrow> wireless_state s = WT_CONNECTED \<and> \<not> battery_is_critical_low s \<and> buf_inv (buf s) \<and> 2 < now s
    \<and> (\<exists>ns. set ns \<subseteq> {1..31} \<and> length ns \<le> length acc \<and> keys_sent s = start @ repeated ns acc
        \<and> filter is_key (queued (buf s)) = drop (length ns) acc
        \<and> (retry (buf s) \<noteq> 0 \<and> is_key (kb_rpt (buf s)) \<longrightarrow>
            ns \<noteq> [] \<and> acc ! (length ns - 1) = kb_rpt (buf s) \<and> last ns + unat (retry (buf s)) \<le> 31))"

text \<open>What a step that sends nothing new may change.\<close>

lemma ordered_same:
  assumes "ordered start acc s" and "wireless_state s' = wireless_state s" and "bat s' = bat s" and "2 < now s'"
    and "keys_sent s' = keys_sent s" and "queued (buf s') = queued (buf s)" and "buf_inv (buf s')"
    and "retry (buf s') = 0 \<or> retry (buf s') = retry (buf s) \<and> kb_rpt (buf s') = kb_rpt (buf s)"
  shows "ordered start acc s'"
  using assms unfolding ordered_def battery_is_critical_low_def by auto

lemma ordered_add:
  assumes "ordered start acc s" and "wireless_state s' = wireless_state s" and "bat s' = bat s" and "now s' = now s"
    and "keys_sent s' = keys_sent s" and "queued (buf s') = queued (buf s) @ rs" and "buf_inv (buf s')"
    and "retry (buf s') = retry (buf s)" and "kb_rpt (buf s') = kb_rpt (buf s)"
  shows "ordered start (acc @ filter is_key rs) s'"
proof -
  from assms(1) obtain ns where ns: "set ns \<subseteq> {1..31}" "length ns \<le> length acc" "keys_sent s = start @ repeated ns acc"
    "filter is_key (queued (buf s)) = drop (length ns) acc"
    "retry (buf s) \<noteq> 0 \<and> is_key (kb_rpt (buf s)) \<longrightarrow>
      ns \<noteq> [] \<and> acc ! (length ns - 1) = kb_rpt (buf s) \<and> last ns + unat (retry (buf s)) \<le> 31"
    unfolding ordered_def by blast
  let ?acc = "acc @ filter is_key rs"
  have "?acc ! (length ns - 1) = acc ! (length ns - 1)" if "ns \<noteq> []"
    using ns(2) that by (intro nth_append_left) (simp add: less_le_trans [of _ "length ns"])
  then have "retry (buf s') \<noteq> 0 \<and> is_key (kb_rpt (buf s')) \<longrightarrow>
      ns \<noteq> [] \<and> ?acc ! (length ns - 1) = kb_rpt (buf s') \<and> last ns + unat (retry (buf s')) \<le> 31"
    using ns(5) assms(8,9) by auto
  moreover have "length ns \<le> length ?acc" using ns(2) by simp
  moreover have "keys_sent s' = start @ repeated ns ?acc" using ns(2,3) assms(5) by (simp add: repeated_more)
  moreover have "filter is_key (queued (buf s')) = drop (length ns) ?acc" using ns(2,4) assms(6) by simp
  ultimately have "\<exists>ns. set ns \<subseteq> {1..31} \<and> length ns \<le> length ?acc \<and> keys_sent s' = start @ repeated ns ?acc
        \<and> filter is_key (queued (buf s')) = drop (length ns) ?acc
        \<and> (retry (buf s') \<noteq> 0 \<and> is_key (kb_rpt (buf s')) \<longrightarrow>
            ns \<noteq> [] \<and> ?acc ! (length ns - 1) = kb_rpt (buf s') \<and> last ns + unat (retry (buf s')) \<le> 31)"
    using ns(1) by blast
  moreover have "wireless_state s' = WT_CONNECTED" "\<not> battery_is_critical_low s'" "2 < now s'"
    using assms(1-4) by (simp_all add: ordered_def battery_is_critical_low_def)
  ultimately show ?thesis unfolding ordered_def using assms(7) by blast
qed

text \<open>A report is taken from the queue: its first transmission, if it is a key report.\<close>

lemma ordered_next:
  assumes "ordered start acc s" and "retry (buf s) = 0" and "queued (buf s) = r # rs"
    and "wireless_state s' = wireless_state s" and "bat s' = bat s" and "now s' = now s"
    and "queued (buf s') = rs" and "buf_inv (buf s')" and "kb_rpt (buf s') = r"
    and "keys_sent s' = keys_sent s @ (if is_key r then [r] else [])"
    and "retry (buf s') = 0 \<and> \<not> is_key r \<or> retry (buf s') = 30"
  shows "ordered start acc s'"
proof -
  from assms(1) obtain ns where ns: "set ns \<subseteq> {1..31}" "length ns \<le> length acc" "keys_sent s = start @ repeated ns acc"
    "filter is_key (r # rs) = drop (length ns) acc"
    unfolding ordered_def using assms(3) by auto
  have rest: "wireless_state s' = WT_CONNECTED" "\<not> battery_is_critical_low s'" "2 < now s'"
    using assms(1,4-6) by (simp_all add: ordered_def battery_is_critical_low_def)
  show ?thesis
  proof (cases "is_key r")
    case False
    then show ?thesis unfolding ordered_def using ns rest assms(7-10) by auto
  next
    case True
    then have d: "drop (length ns) acc = r # filter is_key rs" using ns(4) by simp
    then have l: "length ns < length acc" by (cases "length ns < length acc") simp_all
    then have nth: "acc ! length ns = r" and tl: "drop (Suc (length ns)) acc = filter is_key rs"
      using d by (simp_all add: Cons_nth_drop_Suc [symmetric])
    have "keys_sent s' = start @ repeated (ns @ [1]) acc"
      using ns(3) assms(10) True repeated_next [OF l, of 1] nth by simp
    moreover have "filter is_key (queued (buf s')) = drop (length (ns @ [1])) acc" using tl assms(7) by simp
    moreover have "acc ! (length (ns @ [1]) - 1) = kb_rpt (buf s')" using nth assms(9) by simp
    moreover have "last (ns @ [1]) + unat (retry (buf s')) \<le> 31" using assms(11) True by auto
    moreover have "set (ns @ [1]) \<subseteq> {1..31}" "length (ns @ [1]) \<le> length acc" using ns(1) l by auto
    ultimately show ?thesis unfolding ordered_def using rest assms(8) by blast
  qed
qed

text \<open>The report sent last is sent again.\<close>

lemma ordered_again:
  assumes "ordered start acc s" and "retry (buf s) \<noteq> 0"
    and "wireless_state s' = wireless_state s" and "bat s' = bat s" and "now s' = now s"
    and "queued (buf s') = queued (buf s)" and "buf_inv (buf s')" and "kb_rpt (buf s') = kb_rpt (buf s)"
    and "keys_sent s' = keys_sent s @ (if is_key (kb_rpt (buf s)) then [kb_rpt (buf s)] else [])"
    and "retry (buf s') = retry (buf s) - 1"
  shows "ordered start acc s'"
proof (cases "is_key (kb_rpt (buf s))")
  case False
  then show ?thesis using assms unfolding ordered_def battery_is_critical_low_def by auto
next
  case True
  with assms(1,2) obtain ns where ns: "set ns \<subseteq> {1..31}" "length ns \<le> length acc" "keys_sent s = start @ repeated ns acc"
    "filter is_key (queued (buf s)) = drop (length ns) acc" "ns \<noteq> []" "acc ! (length ns - 1) = kb_rpt (buf s)"
    "last ns + unat (retry (buf s)) \<le> 31"
    unfolding ordered_def by blast
  have rest: "wireless_state s' = WT_CONNECTED" "\<not> battery_is_critical_low s'" "2 < now s'"
    using assms(1,3-5) by (simp_all add: ordered_def battery_is_critical_low_def)
  let ?ns = "butlast ns @ [Suc (last ns)]"
  have pos: "0 < unat (retry (buf s))" using assms(2) by (simp add: unat_gt_0)
  have len: "length ?ns = length ns" using ns(5) by simp
  have "keys_sent s' = start @ repeated ?ns acc" using repeated_last [OF ns(2,5)] ns(3,6) assms(9) True by simp
  moreover have "filter is_key (queued (buf s')) = drop (length ?ns) acc" unfolding len using ns(4) assms(6) by simp
  moreover have "?ns \<noteq> []" "acc ! (length ?ns - 1) = kb_rpt (buf s')" unfolding len using ns(6) assms(8) by simp_all
  moreover have "last ?ns + unat (retry (buf s')) \<le> 31"
    using ns(7) assms(2,10) pos by (simp add: unat_minus_one)
  moreover have "set ?ns \<subseteq> {1..31}" using ns(1,7) pos by (auto dest: in_set_butlastD)
  moreover have "length ?ns \<le> length acc" unfolding len by (rule ns(2))
  ultimately show ?thesis unfolding ordered_def using rest assms(7) by blast
qed

text \<open>A keyboard whose module takes all key reports.\<close>

definition keys_supported :: "wireless_cfg \<Rightarrow> bool" where
  "keys_supported c \<longleftrightarrow> send_keyboard c \<and> send_nkro c \<and> WIRELESS_NKRO_ENABLE c"

lemma transmission_key: "keys_supported c \<Longrightarrow> is_key r \<Longrightarrow> transmission (wt_func.truncate c) r = Some r"
  by (cases r) (simp_all add: keys_supported_def wt_func.defs)

lemma transmission_same: "transmission d r = Some r' \<Longrightarrow> r' = r"
  by (cases r) (auto split: if_splits)

text \<open>The four outcomes of the task.\<close>

lemma task_outcomes:
  assumes "buf_inv b"
  obtains "report_buffer_task d True t b = (False, None, b)"
  | r b' where "retry b = 0" and "queued b = r # queued b'" and "buf_inv b'" and "kb_rpt b' = r"
      and "r \<noteq> REPORT_NONE \<and> 2 < t" and "retry b' = 30" and "report_buffer_task d True t b = (True, transmission d r, b')"
  | r b' where "retry b = 0" and "queued b = r # queued b'" and "buf_inv b'" and "kb_rpt b' = r"
      and "\<not> (r \<noteq> REPORT_NONE \<and> 2 < t)" and "retry b' = 0" and "report_buffer_task d True t b = (False, None, b')"
  | b' where "retry b \<noteq> 0" and "queued b' = queued b" and "buf_inv b'" and "kb_rpt b' = kb_rpt b" and "retry b' = retry b - 1"
      and "report_buffer_task d True t b = (True, transmission d (kb_rpt b), b')"
proof (cases "(\<not> report_buffer_is_empty b \<or> retry b \<noteq> 0) \<and> report_buffer_next_inverval t b")
  case False
  then have "report_buffer_task d True t b = (False, None, b)" by (auto simp: report_buffer_task_def)
  then show thesis by (rule that(1))
next
  case due: True
  show thesis
  proof (cases "retry b = 0")
    case again: False
    show thesis
    proof (cases "timer_elapsed32 t (retry_time_buffer b) > 2")
      case True
      show thesis by (rule that(4) [OF again _ _ _ _ task_again [OF again conjunct2 [OF due] True]]) (use assms in simp_all)
    next
      case False
      then have "report_buffer_task d True t b = (False, None, b)" using again by (simp add: report_buffer_task_def)
      then show thesis by (rule that(1))
    qed
  next
    case True
    then have "queued b \<noteq> []" using due rbq.has_data_iff [OF assms] by simp
    then obtain r rs where q: "queued b = r # rs" by (cases "queued b") simp_all
    from task_next [OF assms True q conjunct2 [OF due], of d] obtain b1 where b1: "buf_inv b1" "queued b1 = rs"
      "retry b1 = 0"
      and t: "report_buffer_task d True t b =
        (if r \<noteq> REPORT_NONE \<and> t > 2
         then (True, transmission d r, b1\<lparr>kb_rpt := r, retry := RETPORT_RETRY_COUNT, retry_time_buffer := t, report_timer_buffer := t\<rparr>)
         else (False, None, b1\<lparr>kb_rpt := r\<rparr>))"
      using True by (auto simp: report_buffer_dequeue_def split: if_splits)
    show thesis
    proof (cases "r \<noteq> REPORT_NONE \<and> t > 2")
      case c: True
      show thesis
        by (rule that(2) [OF True _ _ _ c _ t [unfolded if_P [OF c]]]) (use b1 q in \<open>simp_all add: RETPORT_RETRY_COUNT_def\<close>)
    next
      case c: False
      show thesis by (rule that(3) [OF True _ _ _ c _ t [unfolded if_not_P [OF c]]]) (use b1 q in simp_all)
    qed
  qed
qed

section \<open>Runs keep the order\<close>

lemma keys_sent_emit [simp]: "keys_sent (radio_emit e s) = keys_sent s @ key_sent (wireless_state s, e)"
  by (simp add: keys_sent_def)

lemma keys_sent_frame [simp]:
  "keys_sent (on_buf f s) = keys_sent s" "keys_sent (s\<lparr>buf := b\<rparr>) = keys_sent s" "keys_sent (lpm_timer_reset s) = keys_sent s"
  "keys_sent (s\<lparr>now := t\<rparr>) = keys_sent s"
  by (simp_all add: keys_sent_def)

lemma report_task_sel:
  assumes "report_buffer_task (wt_func.truncate c) (wireless_state s = WT_CONNECTED) (now s) (buf s) = (p, sent, b)"
  shows "wireless_state (report_task c s) = wireless_state s" "bat (report_task c s) = bat s" "now (report_task c s) = now s"
    "buf (report_task c s) = b" "keys_sent (report_task c s) = keys_sent s @ (case sent of None \<Rightarrow> [] | Some r \<Rightarrow> key_sent (wireless_state s, Transmit r))"
  using assms by (simp_all add: report_task_def Let_def split: option.split)

lemma ordered_report_task:
  assumes "keys_supported c" and "ordered start acc s"
  shows "ordered start acc (report_task c s)"
proof -
  have conn: "wireless_state s = WT_CONNECTED" and inv: "buf_inv (buf s)" and clk: "2 < now s"
    using assms(2) by (simp_all add: ordered_def)
  have sent: "(case transmission (wt_func.truncate c) r of None \<Rightarrow> [] | Some r \<Rightarrow> key_sent (st, Transmit r)) = (if is_key r then [r] else [])" for r st
    using transmission_key [OF assms(1), of r] transmission_same [of "wt_func.truncate c" r] by (auto split: option.split)
  note sel = report_task_sel [of c s, unfolded conn simp_thms, simplified]
  from inv show ?thesis
  proof (cases rule: task_outcomes [where d = "wt_func.truncate c" and t = "now s"])
    case 1
    then show ?thesis
      using sel [of False None "buf s"] assms(2) conn inv clk by (intro ordered_same [OF assms(2)]) simp_all
  next
    case (2 r b')
    note b = sel [OF 2(7)]
    show ?thesis
      by (rule ordered_next [OF assms(2) 2(1,2)]) (use 2 b sent conn in simp_all)
  next
    case (3 r b')
    note b = sel [OF 3(7)]
    have "\<not> is_key r" using 3(5) clk by auto
    then show ?thesis
      by (intro ordered_next [OF assms(2) 3(1,2)]) (use 3 b conn in simp_all)
  next
    case (4 b')
    note b = sel [OF 4(6)]
    show ?thesis
      by (rule ordered_again [OF assms(2) 4(1)]) (use 4 b sent conn in simp_all)
  qed
qed

lemma enqueue_sel:
  assumes "buf_inv b"
  shows "queued (snd (report_buffer_enqueue r b)) = (if length (queued b) < 255 then queued b @ [r] else queued b)"
    "buf_inv (snd (report_buffer_enqueue r b))"
    "retry (snd (report_buffer_enqueue r b)) = retry b" "kb_rpt (snd (report_buffer_enqueue r b)) = kb_rpt b"
proof -
  have q: "REPORT_BUFFER_QUEUE_SIZE - 1 = 255" by (simp add: REPORT_BUFFER_QUEUE_SIZE_def)
  show "queued (snd (report_buffer_enqueue r b)) = (if length (queued b) < 255 then queued b @ [r] else queued b)"
    using rbq.enq_accepts [OF assms, unfolded q, of r] rbq.enq_full [OF assms, unfolded q, of r] by (cases "length (queued b) < 255") auto
  show "buf_inv (snd (report_buffer_enqueue r b))" by (rule rbq.enq_inv [OF assms])
  show "retry (snd (report_buffer_enqueue r b)) = retry b" "kb_rpt (snd (report_buffer_enqueue r b)) = kb_rpt b"
    by (simp_all add: report_buffer_enqueue_def Let_def)
qed

lemma ordered_enqueue:
  assumes "ordered start acc s"
  shows "ordered start (acc @ (if length (queued (buf s)) < 255 then filter is_key [r] else []))
    (on_buf (\<lambda>b. snd (report_buffer_enqueue r b)) s)"
proof -
  have inv: "buf_inv (buf s)" using assms by (simp add: ordered_def)
  show ?thesis
  proof (cases "length (queued (buf s)) < 255")
    case True
    have "ordered start (acc @ filter is_key [r]) (on_buf (\<lambda>b. snd (report_buffer_enqueue r b)) s)"
      by (rule ordered_add [OF assms]) (use enqueue_sel [OF inv, of r] True in simp_all)
    then show ?thesis using True by simp
  next
    case False
    show ?thesis unfolding if_not_P [OF False] append_Nil2
      by (rule ordered_same [OF assms]) (use enqueue_sel [OF inv, of r] False assms in \<open>simp_all add: ordered_def\<close>)
  qed
qed

lemma ordered_send:
  assumes "keys_supported c" and "ordered start acc s"
  shows "ordered start (acc @ (if length (queued (buf s)) < 255 then key_report e else [])) (wireless_driver c e s)"
proof -
  have conn: "wireless_state s = WT_CONNECTED" and ok: "\<not> battery_is_critical_low s"
    using assms(2) by (simp_all add: ordered_def)
  have buffered: "ordered start (acc @ (if length (queued (buf s)) < 255 then filter is_key [r] else [])) (send_buffered c True r s)" for r
    using ordered_enqueue [OF assms(2), of r] ordered_report_task [OF assms(1)]
    by (auto simp: send_buffered_def conn ok Let_def)
  have emit: "ordered start acc (radio_emit x s)" if "key_sent (WT_CONNECTED, x) = []" for x
    using that assms(2) conn by (intro ordered_same [OF assms(2)]) (simp_all add: ordered_def)
  have timer: "ordered start acc (on_buf (report_buffer_update_timer t) y)" if "ordered start acc y" for t y
    using that by (intro ordered_same [OF that]) (simp_all add: ordered_def report_buffer_update_timer_def)
  have consumer: "ordered start acc (wireless_send_consumer c u s)" for u
    using ordered_enqueue [OF assms(2), of "REPORT_CONSUMER u"] assms(2) emit [of "Transmit (REPORT_CONSUMER u)"]
    by (auto simp: wireless_send_consumer_def conn intro!: timer split: if_splits)
  have system: "ordered start acc (wireless_send_system c u s)" for u
    using assms(2) emit by (simp add: wireless_send_system_def conn)
  show ?thesis
  proof (cases e)
    case (HostKeyboard m ks)
    then show ?thesis using buffered [of "REPORT_KB m ks"] assms(1) by (simp add: wireless_send_keyboard_def keys_supported_def split: if_splits)
  next
    case (HostNkro m bs)
    then show ?thesis using buffered [of "REPORT_NKRO m bs"] assms(1) by (simp add: wireless_send_nkro_def keys_supported_def split: if_splits)
  qed (use assms(2) consumer system ok in \<open>simp_all add: wireless_send_extra_def\<close>)
qed

lemma ordered_step:
  assumes "keys_supported c" and "ordered start acc s" and "\<forall>t. x = At t \<longrightarrow> 2 < t"
  shows "ordered start (acc @ accepted c [x] s) (radio_do c x s)"
proof (cases x)
  case (Report e)
  then show ?thesis using ordered_send [OF assms(1,2), of e] by simp
next
  case (At t)
  then show ?thesis using assms(2,3) by (simp add: ordered_def battery_is_critical_low_def keys_sent_def)
next
  case Run_task
  then show ?thesis using ordered_report_task [OF assms(1,2)] by simp
next
  case (Acknowledged n)
  have "ordered start acc (on_buf (report_buffer_set_inverval n) (on_buf (report_buffer_set_retry 0) s))"
    by (rule ordered_same [OF assms(2)])
      (use assms(2) in \<open>simp_all add: ordered_def report_buffer_set_retry_def report_buffer_set_inverval_def\<close>)
  then show ?thesis using Acknowledged by simp
qed

lemma ordered_run:
  assumes "keys_supported c" and "ordered start acc s" and "\<forall>t. At t \<in> set xs \<longrightarrow> 2 < t"
  shows "ordered start (acc @ accepted c xs s) (fold (radio_do c) xs s)"
  using assms(2,3)
proof (induction xs arbitrary: acc s)
  case (Cons x xs)
  have "ordered start (acc @ accepted c [x] s) (radio_do c x s)"
    using Cons.prems by (intro ordered_step [OF assms(1)]) auto
  from Cons.IH [OF this] Cons.prems(2) show ?case by simp
qed simp

text \<open>C13: While a host is connected, whatever mixture of reports, calls of the task and acknowledgements:
  the key reports on the air are those that were waiting or accepted, in their order, each repeated
  between 1 and 31 times before the next one; those not yet sent are the ones waiting, so none is lost
  unless the queue was full. \<open>ns\<close> lists the repetitions.\<close>

theorem key_reports_in_order:
  assumes "keys_supported c" and "wireless_state s = WT_CONNECTED" and "\<not> battery_is_critical_low s"
    and "buf_inv (buf s)" and "retry (buf s) = 0" and "2 < now s" and "\<forall>t. At t \<in> set xs \<longrightarrow> 2 < t"
  shows "\<exists>ns. set ns \<subseteq> {1..31}
    \<and> keys_sent (fold (radio_do c) xs s) = keys_sent s @ repeated ns (filter is_key (queued (buf s)) @ accepted c xs s)
    \<and> filter is_key (queued (buf (fold (radio_do c) xs s))) = drop (length ns) (filter is_key (queued (buf s)) @ accepted c xs s)"
proof -
  have "ordered (keys_sent s) (filter is_key (queued (buf s))) s"
    unfolding ordered_def using assms by (auto simp: repeated_def intro!: exI [of _ "[]"])
  from ordered_run [OF assms(1) this assms(7)] show ?thesis unfolding ordered_def by blast
qed

text \<open>Two key reports; the first is acknowledged after a repetition, the second is on the air.\<close>

definition demo_run :: "radio_op list" where
  "demo_run = [At 100, Report (HostKeyboard 0 [4, 0, 0, 0, 0, 0]), Report (HostKeyboard 0 [0, 0, 0, 0, 0, 0]),
     At 105, Run_task, Acknowledged 1, At 110, Run_task]"

definition demo_keys :: wireless_cfg where
  "demo_keys = demo_radio\<lparr>WIRELESS_NKRO_ENABLE := True\<rparr>"

lemma key_reports_in_order_witness:
  "keys_sent (fold (radio_do demo_keys) demo_run (demo_on\<lparr>wireless_state := WT_CONNECTED\<rparr>))
      = repeated [2, 1] [REPORT_KB 0 [4, 0, 0, 0, 0, 0], REPORT_KB 0 [0, 0, 0, 0, 0, 0]]
    \<and> (\<exists>ns. keys_sent (fold (radio_do demo_keys) demo_run (demo_on\<lparr>wireless_state := WT_CONNECTED\<rparr>))
      = repeated ns [REPORT_KB 0 [4, 0, 0, 0, 0, 0], REPORT_KB 0 [0, 0, 0, 0, 0, 0]])"
proof
  let ?s = "demo_on\<lparr>wireless_state := WT_CONNECTED\<rparr>"
  show "keys_sent (fold (radio_do demo_keys) demo_run ?s)
      = repeated [2, 1] [REPORT_KB 0 [4, 0, 0, 0, 0, 0], REPORT_KB 0 [0, 0, 0, 0, 0, 0]]" by code_simp
  have b: "buf ?s = report_buffer_init 10 (buf demo_off)"
    by (simp add: demo_on_def wireless_init_def Let_def wireless_event_queue_init_def demo_off_def)
  have "keys_supported demo_keys" "\<not> battery_is_critical_low ?s" "2 < now ?s" "retry (buf ?s) = 0" "keys_sent ?s = []"
    "accepted demo_keys demo_run ?s = [REPORT_KB 0 [4, 0, 0, 0, 0, 0], REPORT_KB 0 [0, 0, 0, 0, 0, 0]]"
    by code_simp+
  moreover have "\<forall>t. At t \<in> set demo_run \<longrightarrow> 2 < t" by (auto simp: demo_run_def)
  moreover have "buf_inv (buf ?s)" "queued (buf ?s) = []" unfolding b by (rule init_queue)+
  ultimately show "\<exists>ns. keys_sent (fold (radio_do demo_keys) demo_run ?s)
      = repeated ns [REPORT_KB 0 [4, 0, 0, 0, 0, 0], REPORT_KB 0 [0, 0, 0, 0, 0, 0]]"
    using key_reports_in_order [of demo_keys ?s demo_run] by auto
qed

end
