(* ===== verification/WirelessProps.thy ===== *)
theory WirelessProps
  imports WirelessOrder
begin

text \<open>The battery level, typing a PIN code, and the long press that starts pairing.\<close>

section \<open>Battery level\<close>

lemma percent_scale:
  fixes v v' :: nat
  assumes "lo < hi" and "lo < v" and "v \<le> v'" and "v' \<le> hi"
  shows "(v - lo) * k div (hi - lo) \<le> (v' - lo) * k div (hi - lo)" and "(v' - lo) * k div (hi - lo) \<le> k"
proof -
  show "(v - lo) * k div (hi - lo) \<le> (v' - lo) * k div (hi - lo)" using assms by (intro div_le_mono mult_le_mono1) simp
  have "(v' - lo) * k div (hi - lo) \<le> (hi - lo) * k div (hi - lo)" using assms by (intro div_le_mono mult_le_mono1) simp
  then show "(v' - lo) * k div (hi - lo) \<le> k" using assms(1) by simp
qed

text \<open>The percentage before it is made a byte.\<close>

definition percentage :: "wireless_cfg \<Rightarrow> nat \<Rightarrow> nat" where
  "percentage c v =
     (let full = FULL_VOLTAGE_VALUE c; low = EMPTY_VOLTAGE_VALUE c; off = SHUTDOWN_VOLTAGE_VALUE c
      in if v > full then 100 else if v > low then (v - low) * 80 div (full - low) + 20
         else if v > off then (v - off) * 20 div (low - off) else 0)"

lemma percentage_bound:
  assumes "SHUTDOWN_VOLTAGE_VALUE c < EMPTY_VOLTAGE_VALUE c" and "EMPTY_VOLTAGE_VALUE c < FULL_VOLTAGE_VALUE c"
  shows "percentage c v \<le> 100"
  using percent_scale(2) [OF assms(1), of v v 20] percent_scale(2) [OF assms(2), of v v 80]
  by (auto simp: percentage_def Let_def)

lemma percentage_mono:
  assumes "SHUTDOWN_VOLTAGE_VALUE c < EMPTY_VOLTAGE_VALUE c" and "EMPTY_VOLTAGE_VALUE c < FULL_VOLTAGE_VALUE c" and "v \<le> v'"
  shows "percentage c v \<le> percentage c v'"
proof -
  note low = percent_scale [OF assms(1), of v v' 20] percent_scale(2) [OF assms(1), of v v 20]
  note high = percent_scale [OF assms(2), of v v' 80] percent_scale(2) [OF assms(2), of v v 80]
  show ?thesis using assms low high by (auto simp: percentage_def Let_def intro: le_trans)
qed

lemma battery_get_percentage_nat:
  assumes "SHUTDOWN_VOLTAGE_VALUE c < EMPTY_VOLTAGE_VALUE c" and "EMPTY_VOLTAGE_VALUE c < FULL_VOLTAGE_VALUE c"
  shows "unat (battery_get_percentage c s) = percentage c (unat (voltage (bat s)))"
proof -
  have "battery_get_percentage c s = of_nat (percentage c (unat (voltage (bat s))))"
    by (simp add: battery_get_percentage_def percentage_def Let_def)
  moreover have "percentage c (unat (voltage (bat s))) < 2 ^ 8" using percentage_bound [OF assms, of "unat (voltage (bat s))"] by simp
  ultimately show ?thesis by (simp add: of_nat_inverse)
qed

text \<open>With thresholds in order the battery level is a percentage, at most 100, that never falls when
  the voltage rises; nothing is lost in the conversion to a byte.\<close>

theorem battery_level_sane:
  assumes "SHUTDOWN_VOLTAGE_VALUE c < EMPTY_VOLTAGE_VALUE c" and "EMPTY_VOLTAGE_VALUE c < FULL_VOLTAGE_VALUE c"
    and "voltage (bat s) \<le> voltage (bat s')"
  shows "battery_get_percentage c s \<le> 100 \<and> battery_get_percentage c s \<le> battery_get_percentage c s'
    \<and> (unat (voltage (bat s)) \<le> SHUTDOWN_VOLTAGE_VALUE c \<longrightarrow> battery_get_percentage c s = 0)
    \<and> (FULL_VOLTAGE_VALUE c \<le> unat (voltage (bat s)) \<longrightarrow> battery_get_percentage c s = 100)"
proof -
  note nat = battery_get_percentage_nat [OF assms(1,2)]
  have "unat (voltage (bat s)) \<le> unat (voltage (bat s'))" using assms(3) by (simp add: word_le_nat_alt)
  from percentage_mono [OF assms(1,2) this] percentage_bound [OF assms(1,2), of "unat (voltage (bat s))"]
  have "battery_get_percentage c s \<le> 100" "battery_get_percentage c s \<le> battery_get_percentage c s'"
    by (simp_all add: word_le_nat_alt nat)
  moreover have "battery_get_percentage c s = 0" if "unat (voltage (bat s)) \<le> SHUTDOWN_VOLTAGE_VALUE c"
    using that assms(1,2) by (simp add: battery_get_percentage_def Let_def)
  moreover have "battery_get_percentage c s = 100" if "FULL_VOLTAGE_VALUE c \<le> unat (voltage (bat s))"
    using that assms(1,2) by (cases "unat (voltage (bat s)) = FULL_VOLTAGE_VALUE c") (simp_all add: battery_get_percentage_def Let_def)
  ultimately show ?thesis by blast
qed

lemma battery_level_sane_witness:
  "battery_get_percentage demo_radio (on_bat (\<lambda>b. b\<lparr>voltage := 3600\<rparr>) demo_on) \<le> battery_get_percentage demo_radio demo_on
    \<and> battery_get_percentage demo_radio demo_on = 100"
proof -
  have "voltage (bat (on_bat (\<lambda>b. b\<lparr>voltage := 3600\<rparr>) demo_on)) \<le> voltage (bat demo_on)" by code_simp
  moreover have "FULL_VOLTAGE_VALUE demo_radio \<le> unat (voltage (bat demo_on))" by code_simp
  moreover have "voltage (bat demo_on) \<le> voltage (bat demo_on)" by simp
  moreover have "SHUTDOWN_VOLTAGE_VALUE demo_radio < EMPTY_VOLTAGE_VALUE demo_radio" "EMPTY_VOLTAGE_VALUE demo_radio < FULL_VOLTAGE_VALUE demo_radio"
    by (simp_all add: demo_radio_def)
  ultimately show ?thesis using battery_level_sane by blast
qed

section \<open>PIN code\<close>

definition type_pin :: "wireless_cfg \<Rightarrow> u8 list list \<Rightarrow> wstep" where
  "type_pin c digits = fold (\<lambda>ks s. report_task c (wireless_send_keyboard c 0 ks s)) digits"

lemma task_not_connected: "wireless_state s \<noteq> WT_CONNECTED \<Longrightarrow> report_task c s = s"
  by (simp add: report_task_def task_idle)

lemma pin_digit:
  assumes "wireless_state s = WT_PARING" and "pincodeEntry s" and "\<not> battery_is_critical_low s" and "send_keyboard c"
  shows "report_task c (wireless_send_keyboard c 0 ks s) = on_buf (\<lambda>b. snd (report_buffer_enqueue (REPORT_KB 0 ks) b)) s"
  using assms by (simp add: wireless_send_keyboard_def send_buffered_def Let_def task_not_connected)

lemma pin_queue:
  assumes "wireless_state s = WT_PARING" and "pincodeEntry s" and "\<not> battery_is_critical_low s" and "send_keyboard c"
    and "buf_inv (buf s)" and "length (queued (buf s)) + length digits \<le> 255"
  shows "\<exists>b. type_pin c digits s = s\<lparr>buf := b\<rparr> \<and> buf_inv b \<and> queued b = queued (buf s) @ map (REPORT_KB 0) digits"
  using assms
proof (induction digits arbitrary: s)
  case Nil
  then show ?case by (intro exI [of _ "buf s"]) (simp add: type_pin_def)
next
  case (Cons ks digits)
  let ?s = "on_buf (\<lambda>b. snd (report_buffer_enqueue (REPORT_KB 0 ks) b)) s"
  have "queued (buf ?s) = queued (buf s) @ [REPORT_KB 0 ks]" "buf_inv (buf ?s)"
    using enqueue_sel [OF Cons.prems(5)] Cons.prems(6) by simp_all
  then obtain b where "type_pin c digits ?s = ?s\<lparr>buf := b\<rparr>" "buf_inv b" "queued b = queued (buf s) @ REPORT_KB 0 ks # map (REPORT_KB 0) digits"
    using Cons.IH [of ?s] Cons.prems by (auto simp: battery_is_critical_low_def)
  moreover have "type_pin c (ks # digits) s = type_pin c digits ?s" by (simp add: type_pin_def pin_digit [OF Cons.prems(1-4)])
  ultimately show ?case by (intro exI [of _ b]) (simp add: on_buf_def)
qed

text \<open>C37: The digits of a PIN code do not reach the module while they are asked for: the report is
  accepted, but the queue is only served in the connected state. They wait, and once the host is
  connected they are still in the queue, ahead of everything else.\<close>

theorem pin_code_waits:
  assumes "wireless_state s = WT_PARING" and "pincodeEntry s" and "\<not> battery_is_critical_low s" and "send_keyboard c"
    and "buf_inv (buf s)" and "queued (buf s) = []" and "length digits < 255" and "digits \<noteq> []"
    and "clear_keyboard c = [HostKeyboard m ks]" and "host_drv s = WIRELESS_DRIVER"
  shows "radio_log (type_pin c digits s) = radio_log s
    \<and> queued (buf (wireless_enter_connected c h (type_pin c digits s))) = map (REPORT_KB 0) digits @ [REPORT_KB m ks]"
proof -
  obtain b where b: "type_pin c digits s = s\<lparr>buf := b\<rparr>" "buf_inv b" "queued b = map (REPORT_KB 0) digits"
    using pin_queue [OF assms(1-5), of digits] assms(6,7) by auto
  let ?s = "(radio_emit (Indicate WT_CONNECTED h) (s\<lparr>buf := b, wireless_state := WT_CONNECTED\<rparr>))\<lparr>host_index := h\<rparr>"
  have "\<not> report_buffer_is_empty b" using rbq.has_data_iff [OF b(2)] b(3) assms(8) by simp
  then have "host_send c (clear_keyboard c) ?s = on_buf (\<lambda>b. snd (report_buffer_enqueue (REPORT_KB m ks) b)) ?s"
    using assms(3,4,9,10)
    by (simp add: host_send_def wireless_send_keyboard_def send_buffered_def Let_def battery_is_critical_low_def radio_emit_def)
  moreover have "queued (snd (report_buffer_enqueue (REPORT_KB m ks) b)) = map (REPORT_KB 0) digits @ [REPORT_KB m ks]"
    using enqueue_sel(1) [OF b(2), of "REPORT_KB m ks"] b(3) assms(7) by simp
  ultimately show ?thesis by (simp add: b(1) wireless_enter_connected_def Let_def)
qed

lemma pin_code_waits_witness:
  "queued (buf (wireless_enter_connected demo_radio 1 (type_pin demo_radio [[30, 0, 0, 0, 0, 0], [0, 0, 0, 0, 0, 0]]
      (demo_on\<lparr>wireless_state := WT_PARING, pincodeEntry := True\<rparr>))))
    = [REPORT_KB 0 [30, 0, 0, 0, 0, 0], REPORT_KB 0 [0, 0, 0, 0, 0, 0], REPORT_KB 0 [0, 0, 0, 0, 0, 0]]"
proof -
  let ?s = "demo_on\<lparr>wireless_state := WT_PARING, pincodeEntry := True\<rparr>"
  have b: "buf ?s = report_buffer_init 10 (buf demo_off)"
    by (simp add: demo_on_def wireless_init_def Let_def wireless_event_queue_init_def demo_off_def)
  have "buf_inv (buf ?s)" "queued (buf ?s) = []" unfolding b by (rule init_queue)+
  moreover have "\<not> battery_is_critical_low ?s" "host_drv ?s = WIRELESS_DRIVER" by code_simp+
  moreover have "send_keyboard demo_radio" "clear_keyboard demo_radio = [HostKeyboard 0 [0, 0, 0, 0, 0, 0]]" by (simp_all add: demo_radio_def)
  ultimately show ?thesis
    using pin_code_waits [of ?s demo_radio "[[30, 0, 0, 0, 0, 0], [0, 0, 0, 0, 0, 0]]"] by simp
qed

section \<open>Long press\<close>

text \<open>No operation sets the variable \<open>host_idx\<close> of the file.\<close>

lemma host_idx_connect [simp]: "host_idx (wireless_connect s) = host_idx s" "host_idx (wireless_connect_ex h t s) = host_idx s"
  "host_idx (wireless_disconnect c s) = host_idx s" "host_idx (wireless_pairing_ex c h s) = host_idx s"
  "host_idx (wireless_pairing c s) = host_idx s"
  by (simp_all add: wireless_connect_def wireless_connect_ex_def wireless_disconnect_def wireless_pairing_ex_def wireless_pairing_def Let_def)

lemma host_idx_report_task [simp]: "host_idx (report_task c s) = host_idx s"
  by (simp add: report_task_def Let_def split: prod.split option.split)

lemma host_idx_send [simp]: "host_idx (wireless_driver c e s) = host_idx s" "host_idx (wireless_send_mouse c r s) = host_idx s"
  "host_idx (wireless_send_keyboard c m ks s) = host_idx s"
  by (cases e) (simp_all add: wireless_send_mouse_def wireless_send_keyboard_def wireless_send_nkro_def send_buffered_def
    wireless_send_extra_def wireless_send_system_def wireless_send_consumer_def Let_def)

lemma host_idx_host_send [simp]: "host_idx (host_send c es s) = host_idx s"
proof -
  have "host_idx (fold (wireless_driver c) es s) = host_idx s" by (rule fold_keeps) simp_all
  then show ?thesis by (simp add: host_send_def)
qed

lemma host_idx_misc [simp]: "host_idx (wait_ms t s) = host_idx s" "host_idx (low_lights c b s) = host_idx s"
  "host_idx (lpm_timer_stop s) = host_idx s" "host_idx (battery_calculate_voltage c x v s) = host_idx s"
  by (simp_all add: wait_ms_def low_lights_def lpm_timer_stop_def battery_calculate_voltage_def battery_set_voltage_def Let_def)

lemma host_idx_handle [simp]: "host_idx (handle_event c e s) = host_idx s"
  by (simp add: handle_event_def wireless_enter_reset_def wireless_enter_connected_def wireless_enter_discoverable_def
    wireless_enter_reconnecting_def wireless_enter_disconnected_def wireless_enter_disconnected_kb_def
    wireless_enter_bluetooth_pin_code_entry_def wireless_exit_bluetooth_pin_code_entry_def wireless_enter_sleep_def
    wireless_hid_set_protocol_def Let_def split: event_code.split)

lemma host_idx_events [simp]: "host_idx (event_loop c n s) = host_idx s"
  by (induction n arbitrary: s) (simp_all add: wireless_event_dequeue_def)

lemma host_idx_checks [simp]: "host_idx (battery_check_empty c s) = host_idx s" "host_idx (battery_check_critical_low c s) = host_idx s"
proof -
  have "host_idx (wireless_low_battery_shutdown c x) = host_idx x" for x
    by (simp add: wireless_low_battery_shutdown_def Let_def)
  then show "host_idx (battery_check_empty c s) = host_idx s" "host_idx (battery_check_critical_low c s) = host_idx s"
    by (simp_all add: battery_check_empty_def battery_check_critical_low_def Let_def)
qed

lemma host_idx_if: "host_idx x = h \<Longrightarrow> host_idx y = h \<Longrightarrow> host_idx (if b then x else y) = h"
  by simp

lemma host_idx_sample [simp]: "host_idx (battery_sample c s) = host_idx s"
  unfolding battery_sample_def Let_def by (intro host_idx_if) simp_all

lemma host_idx_monitor [simp]: "host_idx (battery_monitor c t s) = host_idx s"
  unfolding battery_monitor_def Let_def by simp

lemma host_idx_battery [simp]: "host_idx (battery_task c s) = host_idx s"
  unfolding battery_task_def Let_def by simp

lemma host_idx_key [simp]: "host_idx (process_record_wireless c k p s) = host_idx s"
proof -
  have "host_idx (process_record_keychron_wireless c k p x) = host_idx x" for x
    unfolding process_record_keychron_wireless_def Let_def by (intro host_idx_if) simp_all
  then show ?thesis unfolding process_record_wireless_def Let_def by simp
qed

lemma host_idx_note [simp]: "host_idx (apply_note c n s) = host_idx s"
  by (cases n) (simp_all add: wireless_event_enqueue_def Let_def)

lemma host_idx_transport:
  assumes "\<forall>f \<in> set polls. poll c f"
  shows "host_idx (set_transport c polls t s) = host_idx s"
proof -
  have p: "host_idx (fold (\<lambda>f. f) polls x) = host_idx x" for x :: wireless
  proof (rule fold_keeps [where P = "\<lambda>y :: wireless. host_idx y = host_idx x"])
    fix f y
    assume "f \<in> set polls" and "host_idx (y :: wireless) = host_idx x"
    then show "host_idx (f y) = host_idx x" using assms by (auto simp: poll_def simp del: apply_note.simps)
  qed simp
  have "host_idx (radio_enable c polls h x) = host_idx x" for h x
    unfolding radio_enable_def Let_def host_idx_connect(2) p by simp
  moreover have "host_idx (radio_disable c k x) = host_idx x" for k x
    unfolding radio_disable_def Let_def by (intro host_idx_if) simp_all
  ultimately have enable: "host_idx (bt_transport_enable c polls b x) = host_idx x" "host_idx (p24g_transport_enable c polls b x) = host_idx x" for b x
    by (simp_all add: bt_transport_enable_def p24g_transport_enable_def)
  have usb: "host_idx (usb_transport_enable c b x) = host_idx x" "host_idx (radio_nkro c x) = host_idx x" "host_idx (usb_nkro c x) = host_idx x" for b x
    by (simp_all add: usb_transport_enable_def radio_nkro_def usb_nkro_def Let_def)
  show ?thesis
  proof (cases "transport s = t")
    case False
    define s1 where "s1 = (if transport s = TRANSPORT_USB \<or> wireless_state s = WT_CONNECTED then host_send c (clear_keyboard c) s else s)"
    have "host_idx (s1\<lparr>transport := t\<rparr>) = host_idx s" by (simp add: s1_def)
    then show ?thesis
      unfolding set_transport_def if_not_P [OF False] Let_def s1_def [symmetric]
      by (cases t) (simp_all add: enable usb)
  qed (simp add: set_transport_def)
qed

lemma host_idx_never_set: "wireless_step c s s' \<Longrightarrow> host_idx s' = host_idx s"
  by (cases rule: wireless_step.cases)
    (auto simp: wireless_task_def lpm_task_def keychron_wireless_common_task_def wireless_event_task_def send_string_task_def
      wireless_pre_task_def host_idx_transport Let_def)

text \<open>C38: Holding the key of a Bluetooth host for more than two seconds asks for pairing with the host in
  the variable of the file, which no step ever sets, and not with the host of the key, which the
  handler noted in a variable of its own with the same name.\<close>

theorem long_press_pairs_other_host:
  assumes "transport s = TRANSPORT_BLUETOOTH" and "\<not> battery_is_critical_low s" and "wireless_state s \<noteq> WT_CONNECTED"
    and "pairing_ex c" and "now s \<noteq> 0" and "2000 < t - now s" and "BT_HST1 \<le> k" and "k \<le> BT_HST3"
  shows "host_index (process_record_keychron_wireless c k True s) = ucast (k - BT_HST1 + 1)
    \<and> (let s' = keychron_wireless_common_task c ((process_record_keychron_wireless c k True s)\<lparr>now := t\<rparr>)
       in last (radio_log s') = (WT_RECONNECTING, Pairing_ex (host_idx s)) \<and> wireless_state s' = WT_PARING \<and> host_index s' = host_idx s)
    \<and> (\<forall>s'. wireless_step c s s' \<longrightarrow> host_idx s' = host_idx s)"
proof -
  have "k \<in> {0x7E0B, 0x7E0C, 0x7E0D}"
  proof -
    have "unat k \<in> {0x7E0B..0x7E0D}" using assms(7,8) by (simp add: BT_HST1_def BT_HST3_def word_le_nat_alt)
    then have "unat k = 0x7E0B \<or> unat k = 0x7E0C \<or> unat k = 0x7E0D" by auto
    then show ?thesis by (auto simp: word_unat_eq_iff)
  qed
  then have "ucast (k - BT_HST1 + 1) \<noteq> (0 :: u8)" by (auto simp: BT_HST1_def)
  then have "host_index (process_record_keychron_wireless c k True s) = ucast (k - BT_HST1 + 1)"
    "let s' = keychron_wireless_common_task c ((process_record_keychron_wireless c k True s)\<lparr>now := t\<rparr>)
       in last (radio_log s') = (WT_RECONNECTING, Pairing_ex (host_idx s)) \<and> wireless_state s' = WT_PARING \<and> host_index s' = host_idx s"
    using assms
    by (simp_all add: process_record_keychron_wireless_def keychron_wireless_common_task_def wireless_connect_ex_def wireless_pairing_ex_def
      battery_is_critical_low_def Let_def timer_elapsed32_def radio_emit_def)
  then show ?thesis using host_idx_never_set by blast
qed

text \<open>The key of the second host, held from 10 to 3000 milliseconds.\<close>

lemma long_press_pairs_other_host_witness:
  "host_index (process_record_keychron_wireless demo_radio 0x7E0C True demo_on) = 2
    \<and> last (radio_log (keychron_wireless_common_task demo_radio ((process_record_keychron_wireless demo_radio 0x7E0C True demo_on)\<lparr>now := 3000\<rparr>)))
      = (WT_RECONNECTING, Pairing_ex 0)"
proof -
  have "transport demo_on = TRANSPORT_BLUETOOTH" "\<not> battery_is_critical_low demo_on" "wireless_state demo_on \<noteq> WT_CONNECTED"
    "pairing_ex demo_radio" "now demo_on \<noteq> 0" "2000 < 3000 - now demo_on" "host_idx demo_on = 0"
    by code_simp+
  then show ?thesis
    using long_press_pairs_other_host [of demo_on demo_radio 3000 "0x7E0C"] by (simp add: BT_HST1_def BT_HST3_def Let_def)
qed

end
