(* ===== verification/Lkbt51Props.thy ===== *)
theory Lkbt51Props
  imports WirelessOrder
begin

text \<open>The module's driver: packets from the module, and firmware updates passing through.\<close>

section \<open>Packets\<close>

text \<open>An answer as the module frames it, from its header to its checksum.\<close>

definition answer :: "u8 \<Rightarrow> u8 \<Rightarrow> u8 list \<Rightarrow> u8 list" where
  "answer sn evt d =
     (let len = of_nat (length d + 3) :: u8; sum = checksum16 (evt # d)
      in [0xAA, 0x57, len, NOT len, sn, evt] @ d @ [ucast (sum AND 0xFF), ucast (drop_bit 8 sum)])"

lemma checksum_bytes:
  fixes w :: u16
  shows "ucast (ucast (w AND 0xFF) :: u8) = w AND 0xFF" and "ucast (ucast (drop_bit 8 w) :: u8) = drop_bit 8 w"
proof -
  have m: "w AND 0xFF = w AND mask 8" by (simp add: mask_eq_exp_minus_1)
  show "ucast (ucast (w AND 0xFF) :: u8) = w AND 0xFF"
    unfolding m by (rule bit_word_eqI) (auto simp: bit_simps)
  show "ucast (ucast (drop_bit 8 w) :: u8) = drop_bit 8 w"
  proof (rule bit_word_eqI)
    fix n
    assume n: "n < LENGTH(16)"
    have "\<not> bit w (8 + n)" if "\<not> n < 8" using that bit_imp_le_length [of w "8 + n"] by auto
    then show "bit (ucast (ucast (drop_bit 8 w) :: u8) :: u16) n = bit (drop_bit 8 w) n"
      using n by (auto simp: bit_simps)
  qed
qed

lemma copy_from_append: "copy_from (xs @ ys @ zs) (length xs) (length ys) = Some ys"
  by (simp add: copy_from_def)

lemma copy_from_at:
  assumes "drop i b = ys @ zs" and "n = length ys" and "i \<le> length b"
  shows "copy_from b i n = Some ys"
proof -
  have "i + length ys \<le> length b" using arg_cong [OF assms(1), of length] assms(3) by simp
  then show ?thesis using assms by (simp add: copy_from_def)
qed

lemma copy_from_drop: "copy_from (drop i b) 0 n = (if i \<le> length b then copy_from b i n else if n = 0 then Some [] else None)"
  by (auto simp: copy_from_def)

text \<open>A packet found by the search is handed on whole.\<close>

lemma module_packet_at:
  assumes "wait_for_new_pkt m" and "packet_starts b \<noteq> []" and "last (packet_starts b) = i" and "i \<le> length b"
    and b: "drop i b = answer sn evt d @ post" and "length d \<le> 56"
  shows "module_packet b m = lkbt51_event_handler evt (drop (i + 6) b) (of_nat (length d)) sn
    (m\<lparr>pkt_len := of_nat (length d + 3), pkt_sn := sn, wait_for_new_pkt := True\<rparr>)"
proof -
  define len where "len = (of_nat (length d + 3) :: u8)"
  define sum where "sum = checksum16 (evt # d)"
  have ul: "unat len = length d + 3" using assms(6) unfolding len_def by (intro of_nat_inverse) simp_all
  have bi: "drop i b = [0xAA, 0x57, len, NOT len, sn, evt] @ d @ [ucast (sum AND 0xFF), ucast (drop_bit 8 sum)] @ post"
    using b by (simp add: answer_def Let_def len_def sum_def)
  have le: "i + (length d + 8 + length post) = length b" using arg_cong [OF bi, of length] assms(4) by simp
  have nth: "b ! (i + k) = drop i b ! k" if "k < 8" for k using that le by simp
  have b2: "b ! Suc (Suc i) = len" and b4: "b ! (i + 4) = sn" using nth [of 2] nth [of 4] by (simp_all add: bi)
  have d5: "drop (i + 5) b = evt # d @ [ucast (sum AND 0xFF), ucast (drop_bit 8 sum)] @ post"
    using arg_cong [OF bi, of "drop 5"] by (simp add: add.commute)
  have dl: "drop (i + 5 + (length d + 1)) b = [ucast (sum AND 0xFF), ucast (drop_bit 8 sum)] @ post"
    using arg_cong [OF d5, of "drop (length d + 1)"] by (simp add: add.commute)
  have c1: "copy_from b (i + 5) (length d + 1) = Some (evt # d)"
    by (rule copy_from_at [of _ _ "evt # d"]) (use d5 le in simp_all)
  have c2: "copy_from b (i + 5 + (length d + 1)) 2 = Some [ucast (sum AND 0xFF), ucast (drop_bit 8 sum)]"
    by (rule copy_from_at [OF dl]) (use le in simp_all)
  have c3: "copy_from b (i + 5) 1 = Some [evt]"
    by (rule copy_from_at [of _ _ "[evt]"]) (use d5 le in simp_all)
  have l3: "len - 3 = of_nat (length d)" by (simp add: len_def)
  have fits: "length d + 3 \<le> BUFFER_SIZE - 5" using assms(6) by (simp add: BUFFER_SIZE_def)
  show ?thesis
    using assms(1-3) fits c1 c2 c3
    by (simp add: module_packet_def Let_def b2 b4 ul l3 len_def [symmetric] checksum_bytes del: of_nat_add)
      (simp add: sum_def add.commute)
qed

lemma answer_length: "drop i b = answer sn evt d @ post \<Longrightarrow> length b = 64 \<Longrightarrow> i \<le> 64 \<Longrightarrow> length d \<le> 56"
  by (drule arg_cong [where f = length]) (simp add: answer_def Let_def)

lemma answer_data: "drop i b = answer sn evt d @ post \<Longrightarrow>
    drop (i + 6) b = d @ [ucast (checksum16 (evt # d) AND 0xFF), ucast (drop_bit 8 (checksum16 (evt # d)))] @ post"
  by (drule arg_cong [where f = "drop 6"]) (simp add: answer_def Let_def add.commute)

section \<open>Firmware update\<close>


definition demo_answer :: "u8 list \<Rightarrow> u8 list" where
  "demo_answer d = take 64 (replicate 10 0 @ answer 7 LKBT51_EVT_OTA_RSP d @ replicate 64 0)"


text \<open>Whatever 32 bytes the host sends.\<close>

lemma copy_from_some: "i + n \<le> length bs \<Longrightarrow> copy_from bs i n = Some (take n (drop i bs))"
  by (simp add: copy_from_def)

lemma send_cmd_fits:
  "length p \<le> 53 \<Longrightarrow> \<exists>sn. lkbt51_send_cmd p ack again m = Some (m\<lparr>cmd_sn := sn, expect_len := 64, spi_out := spi_out m @ [cmd_packet sn p ack]\<rparr>)
    \<and> sn \<noteq> 0 \<and> (again \<and> cmd_sn m \<noteq> 0 \<longrightarrow> sn = cmd_sn m)"
  by (auto simp: lkbt51_send_cmd_def cmd_packet_def Let_def PACKET_MAX_LEN_def)

lemma wake_sel [simp]:
  "spi_out (lkbt51_wake clk m) = spi_out m" "dfu_sn (lkbt51_wake clk m) = dfu_sn m" "cmd_sn (lkbt51_wake clk m) = cmd_sn m"
  "hid_out (lkbt51_wake clk m) = hid_out m"
  by (simp_all add: lkbt51_wake_def)

text \<open>A payload that starts with an update command is not empty, so its length byte is at least 3.\<close>

lemma update_command_length:
  fixes a b :: u8
  assumes "length d = 32" and "d ! 2 = NOT (d ! 3)" and "unat (d ! 2) \<le> 27"
    and "checksum16 (take (unat (d ! 2) - 2) (drop 5 d)) AND 0xFF = ucast (take 2 (drop (unat (d ! 2) + 3) d) ! 0)"
    and "drop_bit 8 (checksum16 (take (unat (d ! 2) - 2) (drop 5 d))) = ucast (take 2 (drop (unat (d ! 2) + 3) d) ! 1)"
    and "take 1 (drop 5 d) ! 0 AND 0xF0 = 0x60"
  shows "3 \<le> unat (d ! 2)"
proof (rule ccontr)
  assume "\<not> 3 \<le> unat (d ! 2)"
  then have n: "unat (d ! 2) = 0 \<or> unat (d ! 2) = 1 \<or> unat (d ! 2) = 2" by auto
  then have z: "checksum16 (take (unat (d ! 2) - 2) (drop 5 d)) = 0" by (auto simp: checksum16_def)
  have d5: "d ! 5 AND 0xF0 = 0x60" using assms(1,6) by (simp add: hd_drop_conv_nth)
  have z8: "x = 0" if "(ucast x :: u16) = 0" for x :: u8 using that by transfer simp
  have "d ! (unat (d ! 2) + 3) = 0" "d ! (unat (d ! 2) + 4) = 0"
    using assms(1,3,4,5) unfolding z by (auto intro!: z8 simp: nth_drop add.commute)
  moreover have "d ! 3 = NOT (d ! 2)" using assms(2) by simp
  moreover have "d ! 2 = 0 \<or> d ! 2 = 1 \<or> d ! 2 = 2" using n by (auto simp: word_unat_eq_iff)
  ultimately show False using d5 by auto
qed

text \<open>C18: No packet of 32 bytes from the host, however malformed, makes the handler read or write outside
  an array, and it passes at most one command on to the module, with at most 25 bytes of payload that
  start with an update command.\<close>

theorem dfu_rx_in_bounds:
  assumes "length d = 32"
  shows "\<exists>m'. lkbt51_dfu_rx clk d m = Some m' \<and>
    (spi_out m' = spi_out m \<or>
     (\<exists>p sn ack. spi_out m' = spi_out m @ [cmd_packet sn p ack] \<and> 1 \<le> length p \<and> length p \<le> 25 \<and> p ! 0 AND 0xF0 = 0x60))"
proof -
  define h where "h = take 5 d"
  have hc: "copy_from d 0 5 = Some h" using assms by (simp add: h_def copy_from_def)
  have h: "h ! 0 = d ! 0" "h ! 1 = d ! 1" "h ! 2 = d ! 2" "h ! 3 = d ! 3" "h ! 4 = d ! 4" by (simp_all add: h_def)
  have h': "h ! Suc 0 = d ! Suc 0" by (simp add: h_def)
  let ?n = "unat (d ! 2)"
  let ?m = "m\<lparr>dfu_sn := d ! 4\<rparr>"
  let ?same = "\<exists>m'. lkbt51_dfu_rx clk d m = Some m' \<and> spi_out m' = spi_out m"
  have quit: ?thesis if ?same using that by blast
  show ?thesis
  proof (cases "d ! 0 = 0xAA \<and> (d ! 1 = 0x55 \<or> d ! 1 = 0x56) \<and> d ! 2 = NOT (d ! 3)")
    case False
    then have "lkbt51_dfu_rx clk d m = Some m" by (auto simp: lkbt51_dfu_rx_def PACKECT_HEADER_LEN_def hc h h')
    then show ?thesis by (simp add: quit)
  next
    case start: True
    then have s2: "d ! 0 = 0xAA" "d ! 3 = NOT (d ! 2)" "d ! 1 = 0x55 \<or> d ! 1 = 0x56" by auto
    show ?thesis
    proof (cases "27 < ?n")
      case True
      then have "lkbt51_dfu_rx clk d m = Some m" using start by (simp add: lkbt51_dfu_rx_def hc h h' RAW_EPSIZE_def PACKECT_HEADER_LEN_def)
      then show ?thesis by (simp add: quit)
    next
      case False
      then have n: "?n \<le> 27" by simp
      let ?sum = "checksum16 (take (?n - 2) (drop 5 d))"
      let ?tl = "take 2 (drop (?n + 3) d)"
      have c1: "copy_from d 5 (?n - 2) = Some (take (?n - 2) (drop 5 d))" using n assms by (intro copy_from_some) simp
      have c2: "copy_from d (?n + 3) 2 = Some ?tl" using n assms by (intro copy_from_some) simp
      have c3: "copy_from d 5 1 = Some (take 1 (drop 5 d))" using assms by (intro copy_from_some) simp
      have add: "?n + 5 - 2 = ?n + 3" by simp
      have body: "lkbt51_dfu_rx clk d m =
        (if ?sum AND 0xFF \<noteq> ucast (?tl ! 0) \<or> drop_bit 8 ?sum \<noteq> ucast (?tl ! 1) then Some m
         else if take 1 (drop 5 d) ! 0 AND 0xF0 = 0x60
         then do { p \<leftarrow> copy_from d 5 (unat (d ! 2 - 2)); lkbt51_send_cmd p (d ! 1 = 0x56) (dfu_sn m = d ! 4) (lkbt51_wake clk ?m) }
         else Some ?m)"
        using s2 n by (simp add: lkbt51_dfu_rx_def hc h h' RAW_EPSIZE_def PACKECT_HEADER_LEN_def c1 c2 [simplified] c3 [simplified] Let_def not_less add
          add.commute [of 3] s2(2))
      show ?thesis
      proof (cases "?sum AND 0xFF = ucast (?tl ! 0) \<and> drop_bit 8 ?sum = ucast (?tl ! 1) \<and> take 1 (drop 5 d) ! 0 AND 0xF0 = 0x60")
        case False
        then have ?same unfolding body by auto
        then show ?thesis by (rule quit)
      next
        case True
        have ge: "3 \<le> ?n" using update_command_length [OF assms _ n] start True by blast
        then have u: "unat (d ! 2 - 2) = ?n - 2" by (subst unat_sub) (simp_all add: word_le_nat_alt)
        let ?p = "take (?n - 2) (drop 5 d)"
        have p: "length ?p = ?n - 2" "?p ! 0 AND 0xF0 = 0x60" using n ge assms True by simp_all
        have "lkbt51_dfu_rx clk d m = lkbt51_send_cmd ?p (d ! 1 = 0x56) (dfu_sn m = d ! 4) (lkbt51_wake clk ?m)"
          unfolding body u c1 using True by simp
        moreover have "length ?p \<le> 53" unfolding p(1) using n by linarith
        from send_cmd_fits [OF this, of "d ! 1 = 0x56" "dfu_sn m = d ! 4" "lkbt51_wake clk ?m"] obtain sn where "lkbt51_send_cmd ?p (d ! 1 = 0x56) (dfu_sn m = d ! 4) (lkbt51_wake clk ?m)
          = Some ((lkbt51_wake clk ?m)\<lparr>cmd_sn := sn, expect_len := 64, spi_out := spi_out (lkbt51_wake clk ?m) @ [cmd_packet sn ?p (d ! 1 = 0x56)]\<rparr>)"
          by blast
        ultimately show ?thesis
          using p n ge by (intro exI conjI disjI2) auto
      qed
    qed
  qed
qed

lemma dfu_rx_in_bounds_witness:
  "\<exists>m'. lkbt51_dfu_rx 5 (replicate 32 0xAA) lkbt51_start = Some m'"
proof -
  have "length (replicate 32 (0xAA :: u8)) = 32" by simp
  from dfu_rx_in_bounds [OF this, of 5 lkbt51_start] show ?thesis by blast
qed

text \<open>C17: A firmware packet framed by the host's own rules, which are those of the commands to the module,
  reaches the module with the same payload and the same request for an acknowledgement; the serial
  number towards the module advances exactly when the host's does.\<close>

theorem dfu_passes_through:
  assumes "1 \<le> length p" and "length p \<le> 25" and "p ! 0 AND 0xF0 = 0x60" and "cmd_sn m \<noteq> 0"
  shows "lkbt51_dfu_rx clk (drop 4 (cmd_packet sn p ack) @ rest) m =
    (let again = (dfu_sn m = sn); sn' = (if again then cmd_sn m else if cmd_sn m + 1 = 0 then 1 else cmd_sn m + 1); w = lkbt51_wake clk m
     in Some (w\<lparr>dfu_sn := sn, cmd_sn := sn', expect_len := 64, spi_out := spi_out m @ [cmd_packet sn' p ack]\<rparr>))"
proof -
  define sum where "sum = checksum16 p"
  define len where "len = (of_nat (length p) + 2 :: u8)"
  define D where "D = [0xAA, if ack then 0x56 else 0x55, len, NOT len, sn] @ p @ [ucast (sum AND 0xFF), ucast (drop_bit 8 sum)] @ rest"
  have d: "drop 4 (cmd_packet sn p ack) @ rest = D" by (simp add: cmd_packet_def Let_def sum_def len_def D_def)
  have "of_nat (length p + 2) = len" by (simp add: len_def)
  then have u: "unat len = length p + 2" by (rule of_nat_inverse) (use assms(2) in simp)
  have u2: "len - 2 = of_nat (length p)" by (simp add: len_def)
  have u3: "unat (of_nat (length p) :: u8) = length p" by (rule of_nat_inverse [OF refl]) (use assms(2) in simp)
  have hd: "copy_from D 0 5 = Some [0xAA, if ack then 0x56 else 0x55, len, NOT len, sn]" by (simp add: copy_from_def D_def)
  have c1: "copy_from D 5 (length p) = Some p" by (simp add: copy_from_def D_def)
  have c2: "copy_from D (5 + length p) 2 = Some [ucast (sum AND 0xFF), ucast (drop_bit 8 sum)]"
    by (rule copy_from_at [of _ _ _ rest]) (simp_all add: D_def add.commute [of 5] drop_drop [symmetric] del: drop_drop)
  have c3: "copy_from D 5 1 = Some (take 1 p)" using assms(1) by (cases p) (simp_all add: copy_from_def D_def)
  have p0: "take 1 p ! 0 AND 0xF0 = 0x60" using assms(1,3) by simp
  have cmd: "lkbt51_send_cmd p ack again (lkbt51_wake clk (m\<lparr>dfu_sn := sn\<rparr>)) =
      (let sn' = (if again then cmd_sn m else if cmd_sn m + 1 = 0 then 1 else cmd_sn m + 1)
       in Some ((lkbt51_wake clk m)\<lparr>dfu_sn := sn, cmd_sn := sn', expect_len := 64, spi_out := spi_out m @ [cmd_packet sn' p ack]\<rparr>))" for again
    using assms(2,4) by (simp add: lkbt51_send_cmd_def cmd_packet_def Let_def PACKET_MAX_LEN_def lkbt51_wake_def)
  have a: "(if ack then 0x56 else 0x55 :: u8) = 0x56 \<longleftrightarrow> ack" by simp
  show ?thesis
    unfolding d lkbt51_dfu_rx_def PACKECT_HEADER_LEN_def RAW_EPSIZE_def hd bind.simps
    using assms(2) p0 c1 c2 c3
    by (simp add: u u2 u3 a Let_def sum_def [symmetric] checksum_bytes cmd [unfolded Let_def])
qed

lemma dfu_passes_through_witness:
  "lkbt51_dfu_rx 5 (drop 4 (cmd_packet 9 [0x62, 1] True) @ replicate 20 0) (lkbt51_start\<lparr>cmd_sn := 255\<rparr>)
    = Some (lkbt51_start\<lparr>dfu_sn := 9, cmd_sn := 1, expect_len := 64, spi_out := [cmd_packet 1 [0x62, 1] True]\<rparr>)"
  using dfu_passes_through [of "[0x62, 1]" "lkbt51_start\<lparr>cmd_sn := 255\<rparr>" 5 9 True "replicate 20 0"]
  by (simp add: lkbt51_start_def lkbt51_wake_def timer_elapsed32_def Let_def)

section \<open>Waiting for the rest of a packet\<close>

text \<open>A packet header with a length over 59 is remembered as the start of a packet whose rest will
  follow, but nothing completes it: whatever bytes are looked at from then on, no packet is found in
  them and nothing changes.\<close>

theorem long_packet_ends_acknowledgements:
  assumes "wait_for_new_pkt m" and "packet_starts b \<noteq> []" and "59 < unat (b ! (last (packet_starts b) + 2))"
  shows "\<exists>m'. module_packet b m = Some ([], m') \<and> (\<forall>b'. module_packet b' m' = Some ([], m'))"
proof -
  let ?i = "last (packet_starts b)"
  let ?m = "m\<lparr>pkt_len := b ! (?i + 2), pkt_sn := b ! (?i + 4), wait_for_new_pkt := False\<rparr>"
  have "module_packet b m = Some ([], ?m)"
    using assms by (simp add: module_packet_def BUFFER_SIZE_def Let_def)
  moreover have "module_packet b' ?m = Some ([], ?m)" for b'
    using assms(3) by (simp add: module_packet_def BUFFER_SIZE_def)
  ultimately show ?thesis by auto
qed

section \<open>Reading the module\<close>

text \<open>Calls of the driver one after the other, each at its time.\<close>

fun module_calls :: "(u32 \<times> radio) list \<Rightarrow> module_step" where
  "module_calls [] m = Some m"
| "module_calls ((clk, x) # xs) m = module_call clk x m \<bind> module_calls xs"

lemma send_cmd_expects:
  "lkbt51_send_cmd p ack again m = Some m' \<Longrightarrow> expect_len m' = 64 \<and> spi_out m' \<noteq> []"
  by (auto simp: lkbt51_send_cmd_def Let_def split: if_splits)

lemma module_call_expects:
  assumes "module_call clk x m = Some m'"
  shows "(expect_len m' = 64 \<and> spi_out m' \<noteq> []) \<or> m' = m"
  using assms
  by (cases "(clk, x)" rule: module_call.cases)
    (auto simp: lkbt51_send_keyboard_def lkbt51_send_nkro_def lkbt51_send_consumer_def lkbt51_send_system_def lkbt51_send_mouse_def
      lkbt51_connect_def lkbt51_become_discoverable_def lkbt51_disconnect_def lkbt51_update_bat_lvl_def lkbt51_update_bat_state_def
      lkbt51_read_state_reg_def Let_def bind_eq_Some_conv dest: send_cmd_expects split: if_splits)

lemma module_calls_expect:
  assumes "module_calls xs m = Some m'" and "expect_len m = (if spi_out m = [] then 22 else 64)"
  shows "expect_len m' = (if spi_out m' = [] then 22 else 64)"
  using assms
proof (induction xs arbitrary: m)
  case (Cons x xs)
  obtain clk y where x: "x = (clk, y)" by fastforce
  obtain m1 where m1: "module_call clk y m = Some m1" "module_calls xs m1 = Some m'"
    using Cons.prems(1) by (auto simp: x bind_eq_Some_conv)
  have "expect_len m1 = (if spi_out m1 = [] then 22 else 64)"
    using module_call_expects [OF m1(1)] Cons.prems(2) by auto
  then show ?case by (rule Cons.IH [OF m1(2)])
qed simp

text \<open>C40: Whatever the state machine has asked of the driver since the start: reading what the module has
  to say overruns the buffer exactly if a command was sent before, since every command makes the
  driver expect 64 bytes, which it reads behind four others into 64; the driver's task is then
  undefined as soon as the module signals data.\<close>

theorem read_after_command_overruns:
  assumes "module_calls xs lkbt51_start = Some m"
  shows "(lkbt51_read rx m = None \<longleftrightarrow> spi_out m \<noteq> []) \<and> (spi_out m \<noteq> [] \<longrightarrow> lkbt51_task False rx m = None)"
proof -
  have "expect_len m = (if spi_out m = [] then 22 else 64)"
    using module_calls_expect [OF assms] by (simp add: lkbt51_start_def)
  then show ?thesis by (simp add: lkbt51_task_def lkbt51_read_def Let_def PACKET_MAX_LEN_def BUFFER_SIZE_def)
qed

lemma read_after_command_overruns_witness:
  "\<exists>m. module_calls [(5, Low_power), (7, Disconnect)] lkbt51_start = Some m \<and> spi_out m \<noteq> [] \<and> lkbt51_task False [0xFF] m = None"
proof -
  obtain m where m: "module_calls [(5, Low_power), (7, Disconnect)] lkbt51_start = Some m"
    by (auto simp: lkbt51_disconnect_def lkbt51_send_cmd_def cmd_packet_def Let_def PACKET_MAX_LEN_def)
  then have "spi_out m \<noteq> []"
    by (auto simp: lkbt51_disconnect_def bind_eq_Some_conv dest: send_cmd_expects)
  then show ?thesis using read_after_command_overruns [OF m, of "[0xFF]"] m by blast
qed

section \<open>Acknowledgements\<close>

text \<open>C16: An acknowledgement of the report on the air among 64 bytes read from the module, when the driver
  looks through them for a packet, ends the repetition of that report: the task then transmits the
  next one, without loss and once the connection interval is over.\<close>

theorem acknowledged_report_gives_way:
  assumes "wait_for_new_pkt m" and "length b = 64" and "packet_starts b \<noteq> []"
    and "last (packet_starts b) = i" and "i \<le> 64" and "drop i b = answer sn LKBT51_EVT_ACK [x, cmd, ACK_SUCCESS] @ post"
    and "cmd \<in> {LKBT51_CMD_SEND_KB, LKBT51_CMD_SEND_KB_NKRO, LKBT51_CMD_SEND_CONSUMER, LKBT51_CMD_SEND_SYSTEM, LKBT51_CMD_SEND_MOUSE}"
    and "wireless_state s = WT_CONNECTED" and "buf_inv (buf s)" and "queued (buf s) = r # rs" and "keys_supported c" and "is_key r"
    and "2 < now s" and "ucast (ucast (connection_interval m) :: u8) < now s - report_timer_buffer (buf s)"
  shows "\<exists>notes m'. module_packet b m = Some (notes, m')
    \<and> (let s' = report_task c (fold (apply_note c) notes s)
       in radio_log s' = radio_log s @ [(WT_CONNECTED, Transmit r)] \<and> queued (buf s') = rs \<and> retry (buf s') = 30)"
proof -
  let ?m = "m\<lparr>pkt_len := 6, pkt_sn := sn, wait_for_new_pkt := True\<rparr>"
  have "module_packet b m = lkbt51_event_handler LKBT51_EVT_ACK (drop (i + 6) b) 3 sn ?m"
    using module_packet_at [OF assms(1,3,4) _ assms(6)] assms(2,5) by simp
  moreover have "ack_handler ?m (drop (i + 6) b) = Some [Set_retry 0, Set_interval (ucast (connection_interval m))]"
    using assms(7) by (simp add: answer_data [OF assms(6)] ack_handler_def copy_from_def)
  ultimately have t: "module_packet b m = Some ([Set_retry 0, Set_interval (ucast (connection_interval m))], ?m)"
    by (simp add: lkbt51_event_handler_def)
  let ?s = "fold (apply_note c) [Set_retry 0, Set_interval (ucast (connection_interval m))] s"
  have s: "wireless_state ?s = WT_CONNECTED" "now ?s = now s" "radio_log ?s = radio_log s" "buf_inv (buf ?s)" "queued (buf ?s) = r # rs"
    "retry (buf ?s) = 0" "report_buffer_next_inverval (now s) (buf ?s)"
    using assms(8-10,14) by (simp_all add: report_buffer_set_retry_def report_buffer_set_inverval_def report_buffer_next_inverval_def timer_elapsed32_def)
  have "r \<noteq> REPORT_NONE" using assms(12) by auto
  then obtain b1 where b1: "queued b1 = rs" "report_buffer_task (wt_func.truncate c) True (now s) (buf ?s)
      = (True, Some r, b1\<lparr>kb_rpt := r, retry := RETPORT_RETRY_COUNT, retry_time_buffer := now s, report_timer_buffer := now s\<rparr>)"
    using task_next [OF s(4,6,5,7), of "wt_func.truncate c"] assms(13) transmission_key [OF assms(11,12)] by auto
  then have "radio_log (report_task c ?s) = radio_log s @ [(WT_CONNECTED, Transmit r)] \<and> queued (buf (report_task c ?s)) = rs
    \<and> retry (buf (report_task c ?s)) = 30"
    using s(1-3) by (simp add: report_task_def Let_def RETPORT_RETRY_COUNT_def)
  then show ?thesis using t by (auto simp: Let_def)
qed

text \<open>The first of two reports is on the air when the acknowledgement arrives.\<close>

definition demo_ack :: "u8 list" where
  "demo_ack = take 64 (replicate 10 0 @ answer 7 LKBT51_EVT_ACK [0, LKBT51_CMD_SEND_KB, ACK_SUCCESS] @ replicate 64 0)"

lemma acknowledged_report_gives_way_witness:
  "\<exists>notes m'. module_packet demo_ack lkbt51_start = Some (notes, m')
    \<and> last (radio_log (report_task demo_keys (fold (apply_note demo_keys) notes
        (fold (radio_do demo_keys) (take 4 demo_run) (demo_on\<lparr>wireless_state := WT_CONNECTED\<rparr>)))))
      = (WT_CONNECTED, Transmit (REPORT_KB 0 [0, 0, 0, 0, 0, 0]))"
proof -
  let ?m = lkbt51_start
  let ?start = "demo_on\<lparr>wireless_state := WT_CONNECTED\<rparr>"
  let ?s = "fold (radio_do demo_keys) (take 4 demo_run) ?start"
  have b: "length demo_ack = 64" "packet_starts demo_ack = [10]"
    "drop 10 demo_ack = answer 7 LKBT51_EVT_ACK [0, LKBT51_CMD_SEND_KB, ACK_SUCCESS] @ replicate 43 0" by code_simp+
  have "buf ?start = report_buffer_init 10 (buf demo_off)"
    by (simp add: demo_on_def wireless_init_def Let_def wireless_event_queue_init_def demo_off_def)
  then have i: "buf_inv (buf ?start)" "queued (buf ?start) = []" by (simp_all only: init_queue)
  have "ordered (keys_sent ?start) (filter is_key (queued (buf ?start))) ?start"
  proof -
    have "wireless_state ?start = WT_CONNECTED" "\<not> battery_is_critical_low ?start" "2 < now ?start" "retry (buf ?start) = 0" by code_simp+
    then show ?thesis unfolding ordered_def using i by (auto simp: repeated_def intro!: exI [of _ "[]"])
  qed
  moreover have k: "keys_supported demo_keys" by code_simp
  moreover have "\<forall>t. At t \<in> set (take 4 demo_run) \<longrightarrow> 2 < t" by (auto simp: demo_run_def)
  ultimately have "buf_inv (buf ?s)" using ordered_run unfolding ordered_def by blast
  moreover have "queued (buf ?s) = [REPORT_KB 0 [0, 0, 0, 0, 0, 0]]" by code_simp
  moreover have "wireless_state ?s = WT_CONNECTED" "2 < now ?s" "ucast (ucast (connection_interval ?m) :: u8) < now ?s - report_timer_buffer (buf ?s)"
    by code_simp+
  moreover have "wait_for_new_pkt ?m" by (simp add: lkbt51_start_def)
  ultimately show ?thesis
    using acknowledged_report_gives_way [of ?m demo_ack 10 7 0 LKBT51_CMD_SEND_KB "replicate 43 0" ?s _ _ demo_keys] b k
    by (auto simp: Let_def)
qed

end
