(* ===== verification/Matrix.thy ===== *)
theory Matrix
  imports DebounceDefer Keyevent Bitwise
begin

text \<open>
  From the pins to key events: reading the key matrix (quantum/matrix.c, quantum/matrix_common.c),
  and the part of the main loop that turns changes of the debounced matrix into key and tick events
  (matrix_task in quantum/keyboard.c). A row is a word of any width of at least \<open>MATRIX_COLS\<close> bits.
  The pins are a function from the line driven low and the pin read to its level.
\<close>

section \<open>Reading the pins\<close>

datatype diode_direction = DIRECT_PINS | COL2ROW | ROW2COL

record matrix_cfg =
  diode_direction :: diode_direction
  MATRIX_ROWS_PINS :: "u32 list"
  MATRIX_COLS_PINS :: "u32 list"
  direct_pins :: "u32 list list"
  MATRIX_INPUT_PRESSED_STATE :: bool

definition NO_PIN :: u32 where "NO_PIN = NOT 0"

type_synonym pins = "u32 option \<Rightarrow> u32 \<Rightarrow> bool"

text \<open>True is the level of an open switch.\<close>

definition readMatrixPin :: "matrix_cfg \<Rightarrow> (u32 \<Rightarrow> bool) \<Rightarrow> u32 \<Rightarrow> bool" where
  "readMatrixPin g level pin = (if pin \<noteq> NO_PIN then level pin \<noteq> MATRIX_INPUT_PRESSED_STATE g else True)"

text \<open>The loop over the columns, with the row's value so far and the shifted bit.\<close>

definition read_row_value :: "matrix_cfg \<Rightarrow> (u32 \<Rightarrow> bool) \<Rightarrow> u32 list \<Rightarrow> 'r::len word" where
  "read_row_value g level pins =
     fst (fold (\<lambda>pin (v, row_shifter). (v OR (if readMatrixPin g level pin then 0 else row_shifter), push_bit 1 row_shifter)) pins (0, 1))"

definition matrix_read_cols_on_row :: "matrix_cfg \<Rightarrow> pins \<Rightarrow> nat \<Rightarrow> 'r::len word list \<Rightarrow> 'r word list" where
  "matrix_read_cols_on_row g level r m =
     (if diode_direction g = DIRECT_PINS then m[r := read_row_value g (level None) (direct_pins g ! r)]
      else let pin = MATRIX_ROWS_PINS g ! r
           in if pin = NO_PIN then m else m[r := read_row_value g (level (Some pin)) (MATRIX_COLS_PINS g)])"

definition matrix_read_rows_on_col :: "matrix_cfg \<Rightarrow> pins \<Rightarrow> nat \<Rightarrow> 'r::len word \<Rightarrow> 'r word list \<Rightarrow> 'r word list" where
  "matrix_read_rows_on_col g level c row_shifter m =
     (let pin = MATRIX_COLS_PINS g ! c
      in if pin = NO_PIN then m
         else fold (\<lambda>r m. if \<not> readMatrixPin g (level (Some pin)) (MATRIX_ROWS_PINS g ! r)
                          then m[r := m ! r OR row_shifter] else m[r := m ! r AND NOT row_shifter])
                [0..<length (MATRIX_ROWS_PINS g)] m)"

definition read_matrix :: "matrix_cfg \<Rightarrow> pins \<Rightarrow> nat \<Rightarrow> 'r::len word list" where
  "read_matrix g level n =
     (if diode_direction g = ROW2COL
      then fst (fold (\<lambda>c (m, row_shifter). (matrix_read_rows_on_col g level c row_shifter m, push_bit 1 row_shifter))
                  [0..<length (MATRIX_COLS_PINS g)] (replicate n 0, 1))
      else fold (matrix_read_cols_on_row g level) [0..<n] (replicate n 0))"

text \<open>
  Reading and debouncing: the raw matrix, the debounced one and the state of the algorithm, of which
  the build has one. The result also has the return value.
\<close>

definition matrix_scan ::
  "matrix_cfg \<Rightarrow> ('r::len word list \<Rightarrow> 'r word list \<Rightarrow> bool \<Rightarrow> 't \<Rightarrow> 's \<Rightarrow> bool \<times> 'r word list \<times> 's) \<Rightarrow> pins \<Rightarrow> 't
    \<Rightarrow> 'r word list \<times> 'r word list \<times> 's \<Rightarrow> bool \<times> 'r word list \<times> 'r word list \<times> 's" where
  "matrix_scan g debounce level now = (\<lambda>(raw, cooked, s).
     let curr = read_matrix g level (length raw);
         changed = (raw \<noteq> curr);
         raw = (if changed then curr else raw);
         (changed, cooked, s) = debounce raw cooked changed now s
     in (changed, raw, cooked, s))"

section \<open>Key events\<close>

text \<open>The keymap of layer 0 tells real keys from blanks; used in a build for a matrix without diodes.\<close>

record keyboard_cfg =
  KEYBOARD_COLS :: nat
  MATRIX_HAS_GHOST :: bool
  MATRIX_MASK :: "u32 list option"
  keycode_on_layer_0 :: "nat \<Rightarrow> nat \<Rightarrow> u16"

definition matrix_get_row :: "keyboard_cfg \<Rightarrow> 'r::len word list \<Rightarrow> nat \<Rightarrow> 'r word" where
  "matrix_get_row k m r = (case MATRIX_MASK k of None \<Rightarrow> m ! r | Some mk \<Rightarrow> m ! r AND ucast (mk ! r))"

definition get_real_keys :: "keyboard_cfg \<Rightarrow> nat \<Rightarrow> 'r::len word \<Rightarrow> 'r word" where
  "get_real_keys k r rowdata =
     fold (\<lambda>c out. if keycode_on_layer_0 k r c \<noteq> 0 \<and> rowdata AND push_bit c 1 \<noteq> 0 then out OR push_bit c 1 else out)
       [0..<KEYBOARD_COLS k] 0"

definition popcount_more_than_one :: "'r::len word \<Rightarrow> bool" where
  "popcount_more_than_one rowdata \<longleftrightarrow> rowdata AND (rowdata - 1) \<noteq> 0"

definition has_ghost_in_row :: "keyboard_cfg \<Rightarrow> 'r::len word list \<Rightarrow> nat \<Rightarrow> 'r word \<Rightarrow> bool" where
  "has_ghost_in_row k m r rowdata \<longleftrightarrow> MATRIX_HAS_GHOST k \<and>
     (let rowdata = get_real_keys k r rowdata
      in popcount_more_than_one rowdata \<and>
         list_ex (\<lambda>i. i \<noteq> r \<and> popcount_more_than_one (get_real_keys k i (matrix_get_row k m i) AND rowdata)) [0..<length m])"

text \<open>What the task calls, in order; \<open>clk n\<close> is the timer when \<open>n\<close> calls have been made.\<close>

datatype matrix_call = Action_exec keyevent | Switch_event u8 u8 bool

record 'm task_state =
  matrix_previous :: "'m list"
  last_tick :: u16

definition generate_tick_event :: "(nat \<Rightarrow> u16) \<Rightarrow> 'm task_state \<Rightarrow> matrix_call list \<times> 'm task_state" where
  "generate_tick_event clk s =
     (if TIMER_DIFF_16 (clk 0) (last_tick s) \<noteq> 0
      then ([Action_exec (MAKE_EVENT 0 0 False TICK_EVENT (clk 0))], s\<lparr>last_tick := clk 0\<rparr>) else ([], s))"

text \<open>The calls for one key, and the loop over the keys of a row.\<close>

definition key_calls :: "bool \<Rightarrow> (nat \<Rightarrow> u16) \<Rightarrow> nat \<Rightarrow> nat \<Rightarrow> bool \<Rightarrow> matrix_call list \<Rightarrow> matrix_call list" where
  "key_calls process clk r c p calls =
     calls @ (if process then [Action_exec (MAKE_EVENT (of_nat r) (of_nat c) p KEY_EVENT (clk (length calls)))] else [])
       @ [Switch_event (of_nat r) (of_nat c) p]"

definition row_calls ::
  "keyboard_cfg \<Rightarrow> bool \<Rightarrow> (nat \<Rightarrow> u16) \<Rightarrow> nat \<Rightarrow> 'r::len word \<Rightarrow> 'r word \<Rightarrow> matrix_call list \<Rightarrow> matrix_call list" where
  "row_calls k process clk r current_row row_changes calls =
     snd (fold (\<lambda>c (col_mask, calls).
         (push_bit 1 col_mask,
          if row_changes AND col_mask \<noteq> 0 then key_calls process clk r c (current_row AND col_mask \<noteq> 0) calls else calls))
       [0..<KEYBOARD_COLS k] (1, calls))"

definition task_row ::
  "keyboard_cfg \<Rightarrow> bool \<Rightarrow> (nat \<Rightarrow> u16) \<Rightarrow> 'r::len word list \<Rightarrow> nat \<Rightarrow> matrix_call list \<times> 'r word list \<Rightarrow> matrix_call list \<times> 'r word list" where
  "task_row k process clk m r = (\<lambda>(calls, previous).
     let current_row = matrix_get_row k m r;
         row_changes = current_row XOR previous ! r
     in if row_changes = 0 \<or> has_ghost_in_row k m r current_row then (calls, previous)
        else (row_calls k process clk r current_row row_changes calls, previous[r := current_row]))"

text \<open>The task, after the scan that left \<open>m\<close> as the debounced matrix.\<close>

definition matrix_task ::
  "keyboard_cfg \<Rightarrow> bool \<Rightarrow> bool \<Rightarrow> (nat \<Rightarrow> u16) \<Rightarrow> 'r::len word list \<Rightarrow> 'r word task_state
    \<Rightarrow> bool \<times> matrix_call list \<times> 'r word task_state" where
  "matrix_task k can_read process clk m s =
     (if \<not> can_read then (False, generate_tick_event clk s)
      else let matrix_changed = list_ex (\<lambda>r. matrix_previous s ! r XOR matrix_get_row k m r \<noteq> 0) [0..<length m]
           in if \<not> matrix_changed then (False, generate_tick_event clk s)
              else let (calls, previous) = fold (task_row k process clk m) [0..<length m] ([], matrix_previous s)
                   in (True, calls, s\<lparr>matrix_previous := previous\<rparr>))"

section \<open>The bits of the loops\<close>

lemma read_row_bits:
  fixes v :: "'r::len word"
  shows "bit (fst (fold (\<lambda>pin (v, row_shifter). (v OR (if f pin then 0 else row_shifter), push_bit 1 row_shifter)) pins
      (v, push_bit i 1))) j
    \<longleftrightarrow> bit v j \<or> (j < LENGTH('r) \<and> i \<le> j \<and> j < i + length pins \<and> \<not> f (pins ! (j - i)))"
proof (induction pins arbitrary: v i)
  case (Cons pin pins)
  let ?f = "\<lambda>pin (v :: 'r word, row_shifter). (v OR (if f pin then 0 else row_shifter), push_bit 1 row_shifter)"
  have step: "fold ?f (pin # pins) (v, push_bit i 1) = fold ?f pins (v OR (if f pin then 0 else push_bit i 1), push_bit (Suc i) 1)"
    by (simp only: fold_simps comp_def split_conv push_bit_push_bit plus_1_eq_Suc)
  have this_bit: "bit (v OR (if f pin then 0 else push_bit i 1)) j \<longleftrightarrow> bit v j \<or> (j < LENGTH('r) \<and> j = i \<and> \<not> f pin)"
    by (auto simp: bit_simps)
  have cases: "(j = i \<and> \<not> f pin) \<or> (Suc i \<le> j \<and> j < Suc i + length pins \<and> \<not> f (pins ! (j - Suc i)))
    \<longleftrightarrow> i \<le> j \<and> j < i + length (pin # pins) \<and> \<not> f ((pin # pins) ! (j - i))"
    by (cases "j = i") (auto simp: nth_Cons' Suc_le_eq)
  show ?case unfolding step Cons.IH this_bit using cases by blast
qed auto

lemma bit_read_row_value:
  "bit (read_row_value g level pins :: 'r::len word) c
    \<longleftrightarrow> c < LENGTH('r) \<and> c < length pins \<and> \<not> readMatrixPin g level (pins ! c)"
  using read_row_bits [of "readMatrixPin g level" pins "0 :: 'r word" 0 c] by (auto simp: read_row_value_def)

lemma bit_get_real_keys:
  "bit (get_real_keys k r (rowdata :: 'r::len word)) c
    \<longleftrightarrow> c < KEYBOARD_COLS k \<and> keycode_on_layer_0 k r c \<noteq> 0 \<and> bit rowdata c"
proof -
  let ?f = "\<lambda>c (out :: 'r word). if keycode_on_layer_0 k r c \<noteq> 0 \<and> rowdata AND push_bit c 1 \<noteq> 0 then out OR push_bit c 1 else out"
  have "bit (fold ?f [0..<n] 0) c \<longleftrightarrow> c < n \<and> keycode_on_layer_0 k r c \<noteq> 0 \<and> bit rowdata c" for n
  proof (induction n)
    case (Suc n)
    have "bit (?f n (fold ?f [0..<n] 0)) c \<longleftrightarrow> bit (fold ?f [0..<n] 0) c \<or> (c = n \<and> keycode_on_layer_0 k r n \<noteq> 0 \<and> bit rowdata n)"
      unfolding and_one_shift_neq_0 by (auto simp: bit_simps dest: bit_imp_le_length)
    then show ?case using Suc.IH by (auto simp: less_Suc_eq)
  qed simp
  then show ?thesis by (simp add: get_real_keys_def)
qed

lemma more_than_one_iff:
  "popcount_more_than_one (x :: 'r::len word) \<longleftrightarrow> (\<exists>c c'. c \<noteq> c' \<and> bit x c \<and> bit x c')"
proof (cases "x = 0")
  case False
  from bits_of_and_pred [OF this] obtain k where k: "bit x k" "bits_of (x AND (x - 1)) = bits_of x - {k}"
    by (auto simp: bits_of_def)
  then have b: "bit (x AND (x - 1)) c \<longleftrightarrow> bit x c \<and> c \<noteq> k" for c
    unfolding bits_of_def by blast
  have "popcount_more_than_one x \<longleftrightarrow> (\<exists>c. bit x c \<and> c \<noteq> k)"
    unfolding popcount_more_than_one_def word_neq_0_bit b ..
  then show ?thesis using k(1) by metis
qed (simp add: popcount_more_than_one_def)

section \<open>The events of a key\<close>

fun key_of_call :: "nat \<Rightarrow> nat \<Rightarrow> matrix_call \<Rightarrow> bool list" where
  "key_of_call r c (Action_exec e) = (if IS_KEYEVENT e \<and> key e = \<lparr>col = of_nat c, row = of_nat r\<rparr> then [pressed e] else [])"
| "key_of_call r c (Switch_event _ _ _) = []"

definition key_history :: "nat \<Rightarrow> nat \<Rightarrow> matrix_call list \<Rightarrow> bool list" where
  "key_history r c calls = concat (map (key_of_call r c) calls)"

lemma key_history_append [simp]: "key_history r c (xs @ ys) = key_history r c xs @ key_history r c ys"
  "key_history r c [] = []"
  by (simp_all add: key_history_def)

lemma u8_index_eq: "a < 256 \<Longrightarrow> b < 256 \<Longrightarrow> (of_nat a :: u8) = of_nat b \<longleftrightarrow> a = b"
  by (simp add: word_of_nat_eq_iff take_bit_nat_eq_self)

text \<open>One key, one row, all rows.\<close>

lemma key_calls_history:
  assumes "r < 256" and "c < 256" and "r' < 256" and "c' < 256"
  shows "key_history r c (key_calls True clk r' c' p calls) = key_history r c calls @ (if r' = r \<and> c' = c then [p] else [])"
  using assms
  by (simp add: key_calls_def key_history_def MAKE_EVENT_def IS_KEYEVENT_def u8_index_eq)

lemma row_calls_history:
  fixes cur ch :: "'r::len word"
  assumes "KEYBOARD_COLS k \<le> 256" and "r < 256" and "c < 256" and "r' < 256"
  shows "key_history r c (row_calls k True clk r' cur ch calls) =
    key_history r c calls @ (if r' = r \<and> c < KEYBOARD_COLS k \<and> bit ch c then [bit cur c] else [])"
proof -
  let ?f = "\<lambda>c (col_mask, calls).
         (push_bit 1 col_mask, if ch AND col_mask \<noteq> 0 then key_calls True clk r' c (cur AND col_mask \<noteq> 0) calls else calls)"
  have "fst (fold ?f [0..<n] (1, calls)) = push_bit n 1
      \<and> key_history r c (snd (fold ?f [0..<n] (1, calls))) = key_history r c calls @ (if r' = r \<and> c < n \<and> bit ch c then [bit cur c] else [])"
    if "n \<le> 256" for n
    using that
  proof (induction n)
    case (Suc n)
    obtain mask calls' where f: "fold ?f [0..<n] (1, calls) = (mask, calls')" by fastforce
    have mask: "mask = push_bit n 1"
      and h: "key_history r c calls' = key_history r c calls @ (if r' = r \<and> c < n \<and> bit ch c then [bit cur c] else [])"
      using Suc.IH Suc.prems f by simp_all
    have "fold ?f [0..<Suc n] (1, calls) = ?f n (fold ?f [0..<n] (1, calls))" by simp
    also have "\<dots> = (push_bit (Suc n) 1, if bit ch n then key_calls True clk r' n (bit cur n) calls' else calls')"
      unfolding f mask split_conv and_one_shift_neq_0 push_bit_push_bit plus_1_eq_Suc ..
    finally show ?case
      using h key_calls_history [OF assms(2,3,4), of n clk "bit cur n" calls'] Suc.prems
      by (auto simp: less_Suc_eq)
  qed simp
  from this [OF assms(1)] show ?thesis by (simp add: row_calls_def)
qed

definition row_seen :: "keyboard_cfg \<Rightarrow> 'r::len word list \<Rightarrow> nat \<Rightarrow> bool" where
  "row_seen k m r \<longleftrightarrow> \<not> has_ghost_in_row k m r (matrix_get_row k m r)"

lemma task_rows:
  fixes m :: "'r::len word list"
  assumes "KEYBOARD_COLS k \<le> 256" and "r < 256" and "c < 256" and "n \<le> 256" and "n \<le> length previous"
    and "fold (task_row k True clk m) [0..<n] (calls, previous) = (calls', previous')"
  shows "length previous' = length previous
    \<and> (\<forall>i. previous' ! i = (if i < n \<and> row_seen k m i then matrix_get_row k m i else previous ! i))
    \<and> key_history r c calls' = key_history r c calls
        @ (if r < n \<and> row_seen k m r \<and> c < KEYBOARD_COLS k \<and> bit (matrix_get_row k m r) c \<noteq> bit (previous ! r) c
           then [bit (matrix_get_row k m r) c] else [])"
  using assms(4-6)
proof (induction n arbitrary: calls' previous')
  case (Suc n)
  obtain c1 p1 where f: "fold (task_row k True clk m) [0..<n] (calls, previous) = (c1, p1)" by fastforce
  note IH = Suc.IH [OF _ _ f]
  have l: "length p1 = length previous" and n: "p1 ! n = previous ! n"
    and nth: "p1 ! i = (if i < n \<and> row_seen k m i then matrix_get_row k m i else previous ! i)"
    and h: "key_history r c c1 = key_history r c calls
        @ (if r < n \<and> row_seen k m r \<and> c < KEYBOARD_COLS k \<and> bit (matrix_get_row k m r) c \<noteq> bit (previous ! r) c
           then [bit (matrix_get_row k m r) c] else [])" for i
    using IH Suc.prems by simp_all
  let ?cur = "matrix_get_row k m n"
  have step: "(calls', previous') = task_row k True clk m n (c1, p1)" using Suc.prems(3) f by simp
  show ?case
  proof (cases "?cur XOR previous ! n = 0 \<or> \<not> row_seen k m n")
    case True
    then have same: "calls' = c1" "previous' = p1" using step by (auto simp: task_row_def n row_seen_def Let_def)
    have "row_seen k m n \<Longrightarrow> ?cur = previous ! n" using True by (auto intro!: bit_word_eqI dest: arg_cong [where f = "\<lambda>w. bit w _"] simp: bit_simps)
    then show ?thesis using l nth h by (auto simp: same less_Suc_eq)
  next
    case False
    then have res: "calls' = row_calls k True clk n ?cur (?cur XOR previous ! n) c1" "previous' = p1[n := ?cur]"
      using step by (auto simp: task_row_def n row_seen_def Let_def)
    have "n < length p1" using Suc.prems(2) l by simp
    then have "previous' ! i = (if i < Suc n \<and> row_seen k m i then matrix_get_row k m i else previous ! i)" for i
      using False nth by (auto simp: res nth_list_update less_Suc_eq)
    moreover have "key_history r c calls' = key_history r c c1 @ (if n = r \<and> c < KEYBOARD_COLS k \<and> bit ?cur c \<noteq> bit (previous ! n) c then [bit ?cur c] else [])"
      using row_calls_history [OF assms(1-3), of n clk ?cur "?cur XOR previous ! n" c1] Suc.prems(1) by (simp add: res bit_xor_iff)
    ultimately show ?thesis using l h False by (auto simp: res less_Suc_eq)
  qed
qed simp

lemma tick_no_key [simp]: "key_history r c (fst (generate_tick_event clk s)) = []"
    "matrix_previous (snd (generate_tick_event clk s)) = matrix_previous s"
  by (simp_all add: generate_tick_event_def key_history_def MAKE_EVENT_def IS_KEYEVENT_def)

lemma matrix_task_key:
  fixes m :: "'r::len word list"
  assumes "KEYBOARD_COLS k \<le> 256" and "length m \<le> 256" and "length (matrix_previous s) = length m" and "r < length m" and "c < KEYBOARD_COLS k"
    and "matrix_task k can_read True clk m s = (changed, calls, s')"
  shows "length (matrix_previous s') = length m"
    and "matrix_previous s' ! r = (if can_read \<and> row_seen k m r then matrix_get_row k m r else matrix_previous s ! r)"
    and "key_history r c calls = (if bit (matrix_previous s' ! r) c \<noteq> bit (matrix_previous s ! r) c then [bit (matrix_previous s' ! r) c] else [])"
proof -
  let ?P = "length (matrix_previous s') = length m
    \<and> matrix_previous s' ! r = (if can_read \<and> row_seen k m r then matrix_get_row k m r else matrix_previous s ! r)
    \<and> key_history r c calls = (if bit (matrix_previous s' ! r) c \<noteq> bit (matrix_previous s ! r) c then [bit (matrix_previous s' ! r) c] else [])"
  have r: "r < 256" "c < 256" using assms(1,2,4,5) by simp_all
  have ?P
  proof (cases "can_read \<and> list_ex (\<lambda>r. matrix_previous s ! r XOR matrix_get_row k m r \<noteq> 0) [0..<length m]")
    case True
    obtain calls1 p where f: "fold (task_row k True clk m) [0..<length m] ([], matrix_previous s) = (calls1, p)" by fastforce
    then have res: "calls = calls1" "s' = s\<lparr>matrix_previous := p\<rparr>" using True assms(6) by (simp_all add: matrix_task_def Let_def)
    note rows = task_rows [OF assms(1) r assms(2) _ f]
    have "length p = length m" "p ! r = (if row_seen k m r then matrix_get_row k m r else matrix_previous s ! r)"
      "key_history r c calls1 = (if row_seen k m r \<and> bit (matrix_get_row k m r) c \<noteq> bit (matrix_previous s ! r) c
         then [bit (matrix_get_row k m r) c] else [])"
      using rows assms(3-5) by simp_all
    then show ?thesis using True by (auto simp: res)
  next
    case False
    then have res: "(calls, s') = generate_tick_event clk s" using assms(6) by (auto simp: matrix_task_def Let_def split: if_splits)
    then have "calls = fst (generate_tick_event clk s)" "s' = snd (generate_tick_event clk s)" by (metis fst_conv, metis snd_conv)
    moreover have "matrix_get_row k m r = matrix_previous s ! r" if can_read
    proof -
      have "matrix_previous s ! r XOR matrix_get_row k m r = 0" using False that assms(4) by (auto simp: list_ex_iff)
      then have "matrix_previous s ! r XOR (matrix_previous s ! r XOR matrix_get_row k m r) = matrix_previous s ! r" by simp
      then show ?thesis by (simp flip: xor.assoc)
    qed
    ultimately show ?thesis using assms(3) by simp
  qed
  then show "length (matrix_previous s') = length m"
    "matrix_previous s' ! r = (if can_read \<and> row_seen k m r then matrix_get_row k m r else matrix_previous s ! r)"
    "key_history r c calls = (if bit (matrix_previous s' ! r) c \<noteq> bit (matrix_previous s ! r) c then [bit (matrix_previous s' ! r) c] else [])"
    by blast+
qed

section \<open>Runs of the main loop\<close>

text \<open>The task once per round, each with whether the matrix can be read, the clock and the debounced matrix.\<close>

fun matrix_run ::
  "keyboard_cfg \<Rightarrow> (bool \<times> (nat \<Rightarrow> u16) \<times> 'r::len word list) list \<Rightarrow> 'r word task_state \<Rightarrow> matrix_call list \<times> 'r word task_state" where
  "matrix_run k [] s = ([], s)"
| "matrix_run k ((can_read, clk, m) # xs) s =
     (let (_, calls, s) = matrix_task k can_read True clk m s; (more, s) = matrix_run k xs s in (calls @ more, s))"

text \<open>A history that starts with a press from an open key, or with a release from a pressed one.\<close>

definition alternates :: "bool \<Rightarrow> bool list \<Rightarrow> bool" where
  "alternates b h \<longleftrightarrow> (\<forall>i < length h. h ! i = (even i = (\<not> b)))"

definition final :: "bool \<Rightarrow> bool list \<Rightarrow> bool" where
  "final b h = (even (length h) = b)"

lemma alternates_Nil [simp]: "alternates b []" "final b [] = b"
  by (simp_all add: alternates_def final_def)

lemma alternates_Cons [simp]: "alternates b (x # h) \<longleftrightarrow> x = (\<not> b) \<and> alternates (\<not> b) h" "final b (x # h) = final (\<not> b) h"
proof -
  show "alternates b (x # h) \<longleftrightarrow> x = (\<not> b) \<and> alternates (\<not> b) h"
    unfolding alternates_def by (auto simp: nth_Cons' less_Suc_eq_0_disj)
qed (auto simp: final_def)

lemma run_alternates:
  fixes s :: "'r::len word task_state"
  assumes "KEYBOARD_COLS k \<le> 256" and "n \<le> 256" and "\<forall>(can_read, clk, m) \<in> set xs. length m = n" and "length (matrix_previous s) = n"
    and "r < n" and "c < KEYBOARD_COLS k" and "matrix_run k xs s = (calls, s')"
  shows "alternates (bit (matrix_previous s ! r) c) (key_history r c calls)
    \<and> final (bit (matrix_previous s ! r) c) (key_history r c calls) = bit (matrix_previous s' ! r) c \<and> length (matrix_previous s') = n"
  using assms(3,4,7)
proof (induction xs arbitrary: s calls)
  case (Cons x xs)
  obtain can_read clk m where x: "x = (can_read, clk, m)" by (cases x)
  obtain ch c1 s1 where t: "matrix_task k can_read True clk m s = (ch, c1, s1)" by (metis prod.exhaust)
  obtain c2 where rn: "matrix_run k xs s1 = (c2, s')" and calls: "calls = c1 @ c2"
    using Cons.prems(3) by (auto simp: x t Let_def split: prod.splits)
  have m: "length m = n" using Cons.prems(1) x by auto
  note key = matrix_task_key [OF assms(1) _ _ _ assms(6) t, of r]
  have "length (matrix_previous s1) = n" using key(1) m assms(2,5) Cons.prems(2) by simp
  with Cons.IH [OF _ _ rn] Cons.prems(1)
  have IH: "alternates (bit (matrix_previous s1 ! r) c) (key_history r c c2)"
    "final (bit (matrix_previous s1 ! r) c) (key_history r c c2) = bit (matrix_previous s' ! r) c" "length (matrix_previous s') = n"
    by simp_all
  have "key_history r c c1 = (if bit (matrix_previous s1 ! r) c \<noteq> bit (matrix_previous s ! r) c then [bit (matrix_previous s1 ! r) c] else [])"
    using key(3) m assms(2,5) Cons.prems(2) by simp
  then show ?case using IH by (auto simp: calls)
qed simp

end
