(* ===== verification/MatrixProps.thy ===== *)
theory MatrixProps
  imports Matrix
begin

text \<open>The directions of the matrix, ghosts, and debouncing and events together.\<close>

section \<open>Both directions\<close>

lemma bit_cols_on_rows:
  fixes m :: "'r::len word list"
  assumes "diode_direction g = COL2ROW"
  shows "length (fold (matrix_read_cols_on_row g level) [0..<n] m) = length m
    \<and> (r < length m \<longrightarrow> bit (fold (matrix_read_cols_on_row g level) [0..<n] m ! r) c =
        (if r < n \<and> MATRIX_ROWS_PINS g ! r \<noteq> NO_PIN
         then c < LENGTH('r) \<and> c < length (MATRIX_COLS_PINS g) \<and> \<not> readMatrixPin g (level (Some (MATRIX_ROWS_PINS g ! r))) (MATRIX_COLS_PINS g ! c)
         else bit (m ! r) c))"
proof (induction n)
  case (Suc n)
  then show ?case
    by (auto simp: matrix_read_cols_on_row_def assms Let_def nth_list_update bit_read_row_value less_Suc_eq)
qed simp

lemma bit_rows_on_col:
  fixes m :: "'r::len word list"
  assumes "MATRIX_COLS_PINS g ! c' \<noteq> NO_PIN" and "r < length m" and "length (MATRIX_ROWS_PINS g) = length m" and "c' < LENGTH('r)"
  shows "bit (matrix_read_rows_on_col g level c' (push_bit c' 1) m ! r) c =
    (if c = c' then \<not> readMatrixPin g (level (Some (MATRIX_COLS_PINS g ! c'))) (MATRIX_ROWS_PINS g ! r) else bit (m ! r) c)"
proof -
  let ?f = "\<lambda>r m. if \<not> readMatrixPin g (level (Some (MATRIX_COLS_PINS g ! c'))) (MATRIX_ROWS_PINS g ! r)
                          then m[r := m ! r OR push_bit c' 1] else m[r := m ! r AND NOT (push_bit c' (1 :: 'r word))]"
  have "length (fold ?f [0..<n] m) = length m
      \<and> (\<forall>i < length m. fold ?f [0..<n] m ! i = (if i < n then if \<not> readMatrixPin g (level (Some (MATRIX_COLS_PINS g ! c'))) (MATRIX_ROWS_PINS g ! i)
          then m ! i OR push_bit c' 1 else m ! i AND NOT (push_bit c' 1) else m ! i))"
    if "n \<le> length m" for n
    using that by (induction n) (auto simp: nth_list_update less_Suc_eq simp del: push_bit_of_1)
  from this [OF order_refl] assms show ?thesis
    by (auto simp: matrix_read_rows_on_col_def Let_def bit_simps dest: bit_imp_le_length simp del: push_bit_of_1)
qed

lemma length_rows_on_col [simp]: "length (matrix_read_rows_on_col g level c sh m) = length m"
proof -
  have "length (fold (\<lambda>r m. if P r then m[r := A r m] else m[r := B r m]) xs m) = length m" for P A B xs
    by (rule fold_keeps) simp_all
  then show ?thesis by (simp add: matrix_read_rows_on_col_def Let_def)
qed

lemma bit_rows_on_cols:
  fixes level :: pins
  assumes "n = length (MATRIX_ROWS_PINS g)" and "r < n" and "N \<le> LENGTH('r::len)"
  shows "length (fst (fold (\<lambda>c (m, row_shifter). (matrix_read_rows_on_col g level c row_shifter m, push_bit 1 row_shifter)) [0..<N]
      (replicate n (0 :: 'r word), 1))) = n"
    and "bit (fst (fold (\<lambda>c (m, row_shifter). (matrix_read_rows_on_col g level c row_shifter m, push_bit 1 row_shifter)) [0..<N]
      (replicate n (0 :: 'r word), 1)) ! r) c \<longleftrightarrow>
      c < N \<and> MATRIX_COLS_PINS g ! c \<noteq> NO_PIN \<and> \<not> readMatrixPin g (level (Some (MATRIX_COLS_PINS g ! c))) (MATRIX_ROWS_PINS g ! r)"
proof -
  let ?f = "\<lambda>c (m :: 'r word list, row_shifter). (matrix_read_rows_on_col g level c row_shifter m, push_bit 1 row_shifter)"
  let ?P = "\<lambda>N. snd (fold ?f [0..<N] (replicate n 0, 1)) = push_bit N 1 \<and> length (fst (fold ?f [0..<N] (replicate n 0, 1))) = n
    \<and> (bit (fst (fold ?f [0..<N] (replicate n 0, 1)) ! r) c \<longleftrightarrow>
      c < N \<and> MATRIX_COLS_PINS g ! c \<noteq> NO_PIN \<and> \<not> readMatrixPin g (level (Some (MATRIX_COLS_PINS g ! c))) (MATRIX_ROWS_PINS g ! r))"
  have "?P N" using assms(3)
  proof (induction N)
    case 0
    then show ?case using assms(2) by simp
  next
    case (Suc N)
    obtain m sh where f: "fold ?f [0..<N] (replicate n 0, 1) = (m, sh)" by fastforce
    have IH: "sh = push_bit N 1" "length m = n" "bit (m ! r) c \<longleftrightarrow>
        c < N \<and> MATRIX_COLS_PINS g ! c \<noteq> NO_PIN \<and> \<not> readMatrixPin g (level (Some (MATRIX_COLS_PINS g ! c))) (MATRIX_ROWS_PINS g ! r)"
      using Suc f by simp_all
    have "fold ?f [0..<Suc N] (replicate n 0, 1) = ?f N (fold ?f [0..<N] (replicate n 0, 1))" by simp
    also have "\<dots> = (matrix_read_rows_on_col g level N (push_bit N 1) m, push_bit (Suc N) 1)"
      unfolding f IH(1) split_conv push_bit_push_bit plus_1_eq_Suc ..
    finally have step: "fold ?f [0..<Suc N] (replicate n 0, 1) = (matrix_read_rows_on_col g level N (push_bit N 1) m, push_bit (Suc N) 1)" .
    have "bit (matrix_read_rows_on_col g level N (push_bit N 1) m ! r) c \<longleftrightarrow>
        c < Suc N \<and> MATRIX_COLS_PINS g ! c \<noteq> NO_PIN \<and> \<not> readMatrixPin g (level (Some (MATRIX_COLS_PINS g ! c))) (MATRIX_ROWS_PINS g ! r)"
    proof (cases "MATRIX_COLS_PINS g ! N = NO_PIN")
      case True
      then have "matrix_read_rows_on_col g level N (push_bit N 1) m = m" by (simp add: matrix_read_rows_on_col_def)
      then show ?thesis using IH(3) True by (auto simp: less_Suc_eq)
    next
      case False
      have "bit (matrix_read_rows_on_col g level N (push_bit N 1) m ! r) c = (if c = N
          then \<not> readMatrixPin g (level (Some (MATRIX_COLS_PINS g ! N))) (MATRIX_ROWS_PINS g ! r) else bit (m ! r) c)"
        by (rule bit_rows_on_col) (use False IH(2) assms(1,2) Suc.prems in simp_all)
      then show ?thesis using IH(3) False by (cases "c = N") (simp_all add: less_Suc_eq)
    qed
    then show ?case unfolding step by (simp add: IH(2))
  qed
  then show "length (fst (fold ?f [0..<N] (replicate n 0, 1))) = n"
    "bit (fst (fold ?f [0..<N] (replicate n 0, 1)) ! r) c \<longleftrightarrow>
      c < N \<and> MATRIX_COLS_PINS g ! c \<noteq> NO_PIN \<and> \<not> readMatrixPin g (level (Some (MATRIX_COLS_PINS g ! c))) (MATRIX_ROWS_PINS g ! r)"
    by simp_all
qed

text \<open>C30: A matrix of switches reads the same in both diode directions: if the switch between a row and a
  column conducts alike whichever of the two lines is driven, driving rows and reading columns gives
  the matrix that driving columns and reading rows gives, lines without a pin included.\<close>

theorem scan_directions_agree:
  assumes "\<And>a b. level (Some a) b = level' (Some b) a" and "length (MATRIX_ROWS_PINS g) = n" and "length (MATRIX_COLS_PINS g) \<le> LENGTH('r::len)"
  shows "(read_matrix (g\<lparr>diode_direction := COL2ROW\<rparr>) level n :: 'r word list) = read_matrix (g\<lparr>diode_direction := ROW2COL\<rparr>) level' n"
proof (rule nth_equalityI)
  let ?c2r = "g\<lparr>diode_direction := COL2ROW\<rparr>" and ?r2c = "g\<lparr>diode_direction := ROW2COL\<rparr>"
  let ?f = "\<lambda>c (m :: 'r word list, row_shifter). (matrix_read_rows_on_col ?r2c level' c row_shifter m, push_bit 1 row_shifter)"
  have r2c: "length (fst (fold ?f [0..<length (MATRIX_COLS_PINS g)] (replicate n 0, 1))) = n"
    by (rule fold_keeps [where P = "\<lambda>x. length (fst x) = n"]) auto
  then show len: "length (read_matrix ?c2r level n :: 'r word list) = length (read_matrix ?r2c level' n :: 'r word list)"
    using bit_cols_on_rows [of ?c2r level n "replicate n (0 :: 'r word)"] by (simp add: read_matrix_def)
  fix r
  assume "r < length (read_matrix ?c2r level n :: 'r word list)"
  then have r: "r < n" using bit_cols_on_rows [of ?c2r level n "replicate n (0 :: 'r word)"] by (simp add: read_matrix_def)
  show "(read_matrix ?c2r level n ! r :: 'r word) = read_matrix ?r2c level' n ! r"
  proof (rule bit_word_eqI)
    fix c
    assume c: "c < LENGTH('r)"
    have "bit (read_matrix ?c2r level n ! r :: 'r word) c \<longleftrightarrow> MATRIX_ROWS_PINS g ! r \<noteq> NO_PIN \<and> c < length (MATRIX_COLS_PINS g)
        \<and> \<not> readMatrixPin g (level (Some (MATRIX_ROWS_PINS g ! r))) (MATRIX_COLS_PINS g ! c)"
      using bit_cols_on_rows [of ?c2r level n "replicate n (0 :: 'r word)" r c] r c by (simp add: read_matrix_def readMatrixPin_def)
    moreover have "bit (read_matrix ?r2c level' n ! r :: 'r word) c \<longleftrightarrow> c < length (MATRIX_COLS_PINS g) \<and> MATRIX_COLS_PINS g ! c \<noteq> NO_PIN
        \<and> \<not> readMatrixPin g (level' (Some (MATRIX_COLS_PINS g ! c))) (MATRIX_ROWS_PINS g ! r)"
      using bit_rows_on_cols(2) [of n ?r2c r "length (MATRIX_COLS_PINS g)" level' c, where 'r = 'r] assms(2,3) r
      by (simp add: read_matrix_def readMatrixPin_def)
    ultimately show "bit (read_matrix ?c2r level n ! r :: 'r word) c = bit (read_matrix ?r2c level' n ! r :: 'r word) c"
      using assms(1) by (auto simp: readMatrixPin_def)
  qed
qed

lemma scan_directions_agree_witness:
  "(read_matrix \<lparr>diode_direction = COL2ROW, MATRIX_ROWS_PINS = [1, NO_PIN], MATRIX_COLS_PINS = [3, 4], direct_pins = [],
      MATRIX_INPUT_PRESSED_STATE = False\<rparr> (\<lambda>a b. \<not> (a = Some 1 \<and> b = 4)) 2 :: 8 word list) = [2, 0]
    \<and> (read_matrix \<lparr>diode_direction = ROW2COL, MATRIX_ROWS_PINS = [1, NO_PIN], MATRIX_COLS_PINS = [3, 4], direct_pins = [],
      MATRIX_INPUT_PRESSED_STATE = False\<rparr> (\<lambda>a b. \<not> (a = Some 4 \<and> b = 1)) 2 :: 8 word list) = [2, 0]"
proof
  let ?g = "\<lparr>diode_direction = COL2ROW, MATRIX_ROWS_PINS = [1, NO_PIN], MATRIX_COLS_PINS = [3, 4], direct_pins = [],
      MATRIX_INPUT_PRESSED_STATE = False\<rparr>"
  show 1: "(read_matrix ?g (\<lambda>a b. \<not> (a = Some 1 \<and> b = 4)) 2 :: 8 word list) = [2, 0]" by code_simp
  have "(\<not> (Some a = Some (1 :: u32) \<and> b = (4 :: u32))) = (\<not> (Some b = Some 4 \<and> a = 1))" for a b by auto
  from scan_directions_agree [of "\<lambda>a b. \<not> (a = Some 1 \<and> b = 4)" "\<lambda>a b. \<not> (a = Some 4 \<and> b = 1)" ?g 2, OF this, where 'r = 8] 1
  show "(read_matrix \<lparr>diode_direction = ROW2COL, MATRIX_ROWS_PINS = [1, NO_PIN], MATRIX_COLS_PINS = [3, 4], direct_pins = [],
      MATRIX_INPUT_PRESSED_STATE = False\<rparr> (\<lambda>a b. \<not> (a = Some 4 \<and> b = 1)) 2 :: 8 word list) = [2, 0]" by simp
qed

section \<open>Ghosts\<close>

text \<open>A real key that the matrix shows as pressed.\<close>

definition down :: "keyboard_cfg \<Rightarrow> 'r::len word list \<Rightarrow> nat \<Rightarrow> nat \<Rightarrow> bool" where
  "down k m r c \<longleftrightarrow> c < KEYBOARD_COLS k \<and> keycode_on_layer_0 k r c \<noteq> 0 \<and> bit (matrix_get_row k m r) c"

lemma ghost_iff:
  "has_ghost_in_row k m r (matrix_get_row k m r) \<longleftrightarrow> MATRIX_HAS_GHOST k
    \<and> (\<exists>i < length m. i \<noteq> r \<and> (\<exists>c c'. c \<noteq> c' \<and> down k m r c \<and> down k m r c' \<and> down k m i c \<and> down k m i c'))"
proof -
  have real: "bit (get_real_keys k i (matrix_get_row k m i)) c \<longleftrightarrow> down k m i c" for i c
    by (auto simp: bit_get_real_keys down_def)
  have ex: "list_ex P [0..<length m] \<longleftrightarrow> (\<exists>i < length m. P i)" for P by (auto simp: list_ex_iff)
  show ?thesis unfolding has_ghost_in_row_def Let_def ex more_than_one_iff bit_and_iff real by blast
qed

text \<open>
  The row a key is reported from: that of the last scan which could be read and in which the row forms
  no rectangle with another one, in builds that look for them.
\<close>

definition rectangle :: "keyboard_cfg \<Rightarrow> 'r::len word list \<Rightarrow> nat \<Rightarrow> bool" where
  "rectangle k m r \<longleftrightarrow> (\<exists>i < length m. i \<noteq> r \<and> (\<exists>c c'. c \<noteq> c' \<and> down k m r c \<and> down k m r c' \<and> down k m i c \<and> down k m i c'))"

fun reported_row :: "keyboard_cfg \<Rightarrow> nat \<Rightarrow> (bool \<times> (nat \<Rightarrow> u16) \<times> 'r::len word list) list \<Rightarrow> 'r word \<Rightarrow> 'r word" where
  "reported_row k r [] w = w"
| "reported_row k r ((can_read, clk, m) # xs) w =
     reported_row k r xs (if can_read \<and> \<not> (MATRIX_HAS_GHOST k \<and> rectangle k m r) then matrix_get_row k m r else w)"

lemma row_seen_iff: "row_seen k m r \<longleftrightarrow> \<not> (MATRIX_HAS_GHOST k \<and> rectangle k m r)"
  by (simp add: row_seen_def rectangle_def ghost_iff)

lemma run_reported_row:
  fixes s :: "'r::len word task_state"
  assumes "KEYBOARD_COLS k \<le> 256" and "n \<le> 256" and "\<forall>(can_read, clk, m) \<in> set xs. length m = n" and "length (matrix_previous s) = n"
    and "r < n" and "c < KEYBOARD_COLS k" and "matrix_run k xs s = (calls, s')"
  shows "matrix_previous s' ! r = reported_row k r xs (matrix_previous s ! r)"
  using assms(3,4,7)
proof (induction xs arbitrary: s calls)
  case (Cons x xs)
  obtain can_read clk m where x: "x = (can_read, clk, m)" by (cases x)
  obtain ch c1 s1 where t: "matrix_task k can_read True clk m s = (ch, c1, s1)" by (metis prod.exhaust)
  obtain c2 where rn: "matrix_run k xs s1 = (c2, s')"
    using Cons.prems(3) by (auto simp: x t Let_def split: prod.splits)
  have m: "length m = n" using Cons.prems(1) x by auto
  note key = matrix_task_key [OF assms(1) _ _ _ assms(6) t, of r]
  have "length (matrix_previous s1) = n" using key(1) m assms(2,5) Cons.prems(2) by simp
  with Cons.IH [OF _ _ rn] Cons.prems(1) have "matrix_previous s' ! r = reported_row k r xs (matrix_previous s1 ! r)" by simp
  moreover have "matrix_previous s1 ! r = (if can_read \<and> row_seen k m r then matrix_get_row k m r else matrix_previous s ! r)"
    using key(2) m assms(2,5) Cons.prems(2) by simp
  ultimately show ?case by (simp add: x row_seen_iff)
qed simp

text \<open>C10: From a start with no key pressed, whatever the scans return: the events of each key are a press,
  a release, a press and so on, and the last one is a press exactly if the key is set in the row of
  the last scan that could be read and, in builds that look for ghosts, in which the row formed no
  rectangle with another one.\<close>

theorem key_events_track_matrix:
  fixes xs :: "(bool \<times> (nat \<Rightarrow> u16) \<times> 'r::len word list) list"
  assumes "KEYBOARD_COLS k \<le> 256" and "n \<le> 256" and "\<forall>(can_read, clk, m) \<in> set xs. length m = n"
    and "matrix_previous s = replicate n 0" and "r < n" and "c < KEYBOARD_COLS k" and "matrix_run k xs s = (calls, s')"
  shows "(\<forall>i < length (key_history r c calls). key_history r c calls ! i = even i)
    \<and> odd (length (key_history r c calls)) = bit (reported_row k r xs 0) c"
proof -
  have "matrix_previous s' ! r = reported_row k r xs 0"
    using run_reported_row [OF assms(1-3) _ assms(5-7)] assms(4,5) by simp
  moreover have "alternates False (key_history r c calls) \<and> final False (key_history r c calls) = bit (matrix_previous s' ! r) c"
    using run_alternates [OF assms(1-3) _ assms(5-7)] assms(4,5) by simp
  ultimately show ?thesis by (auto simp: alternates_def final_def)
qed

text \<open>A key pressed with another in its row, and the rectangle they form with two keys of the next row,
  behind which its release is not seen; then the release of one of those.\<close>

lemma key_events_track_matrix_witness:
  "let (calls, s') = matrix_run \<lparr>KEYBOARD_COLS = 3, MATRIX_HAS_GHOST = True, MATRIX_MASK = None, keycode_on_layer_0 = \<lambda>_ _. 4\<rparr>
      [(True, \<lambda>_. 5, [7, 0]), (True, \<lambda>_. 6, [3, 3]), (True, \<lambda>_. 7, [3, 1 :: 8 word])] \<lparr>matrix_previous = [0, 0], last_tick = 0\<rparr>
   in key_history 0 2 calls = [True, False] \<and> odd (length (key_history 0 0 calls))"
proof -
  let ?k = "\<lparr>KEYBOARD_COLS = 3, MATRIX_HAS_GHOST = True, MATRIX_MASK = None, keycode_on_layer_0 = \<lambda>_ _. 4\<rparr>"
  let ?xs = "[(True, \<lambda>_. 5, [7, 0]), (True, \<lambda>_. 6, [3, 3]), (True, \<lambda>_. 7, [3, 1 :: 8 word])]"
  let ?start = "\<lparr>matrix_previous = [0, 0 :: 8 word], last_tick = 0\<rparr>"
  obtain calls s' where run: "matrix_run ?k ?xs ?start = (calls, s')" by fastforce
  have "key_history 0 2 (fst (matrix_run ?k ?xs ?start)) = [True, False]" by code_simp
  moreover have "\<not> has_ghost_in_row ?k [3, 1 :: 8 word] 0 (matrix_get_row ?k [3, 1] 0)" by code_simp
  then have "\<not> rectangle ?k [3, 1 :: 8 word] 0" by (simp add: ghost_iff rectangle_def)
  then have "bit (reported_row ?k 0 ?xs 0) 0" by (simp add: matrix_get_row_def)
  moreover have "[0, 0 :: 8 word] = replicate 2 0" by (simp add: numeral_2_eq_2)
  ultimately show ?thesis
    using key_events_track_matrix [OF _ _ _ _ _ _ run, of 2 0 0] run by (simp del: matrix_run.simps reported_row.simps)
qed

text \<open>C29: A row is passed over exactly when it forms a rectangle with another one: two columns in which both
  rows show a real key pressed. No key of such a row is reported, in any state and whatever else
  changes, and its last reported state is kept; every other row is reported as it is read.\<close>

theorem ghost_rows_silent:
  fixes m :: "'r::len word list"
  assumes "MATRIX_HAS_GHOST k" and "KEYBOARD_COLS k \<le> 256" and "length m \<le> 256" and "length (matrix_previous s) = length m" and "r < length m"
    and "matrix_task k True True clk m s = (changed, calls, s')"
  shows "if \<exists>i < length m. i \<noteq> r \<and> (\<exists>c c'. c \<noteq> c' \<and> down k m r c \<and> down k m r c' \<and> down k m i c \<and> down k m i c')
    then matrix_previous s' ! r = matrix_previous s ! r \<and> (\<forall>c < KEYBOARD_COLS k. key_history r c calls = [])
    else matrix_previous s' ! r = matrix_get_row k m r"
proof -
  let ?ghost = "\<exists>i < length m. i \<noteq> r \<and> (\<exists>c c'. c \<noteq> c' \<and> down k m r c \<and> down k m r c' \<and> down k m i c \<and> down k m i c')"
  have seen: "row_seen k m r \<longleftrightarrow> \<not> ?ghost" using assms(1) by (simp add: row_seen_def ghost_iff)
  note key = matrix_task_key [OF assms(2-5) _ assms(6)]
  show ?thesis
  proof (cases ?ghost)
    case True
    then obtain c where "c < KEYBOARD_COLS k" by (auto simp: down_def)
    from key(2) [OF this] True seen have same: "matrix_previous s' ! r = matrix_previous s ! r" by simp
    have "key_history r c calls = []" if "c < KEYBOARD_COLS k" for c using key(3) [OF that] same by simp
    then show ?thesis unfolding if_P [OF True] using same by blast
  next
    case False
    have "matrix_previous s' ! r = matrix_get_row k m r"
    proof (cases "list_ex (\<lambda>r. matrix_previous s ! r XOR matrix_get_row k m r \<noteq> 0) [0..<length m]")
      case True
      obtain p where f: "fold (task_row k True clk m) [0..<length m] ([], matrix_previous s) = (calls, p)" and "s' = s\<lparr>matrix_previous := p\<rparr>"
        using assms(6) True by (auto simp: matrix_task_def Let_def split: prod.splits)
      then show ?thesis using task_rows [OF assms(2) _ _ assms(3) _ f, of 0 0] assms(4,5) seen False by simp
    next
      case same: False
      then have "s' = snd (generate_tick_event clk s)" using assms(6) by (auto simp: matrix_task_def Let_def split: if_splits)
      moreover have "matrix_previous s ! r XOR matrix_get_row k m r = 0" using same assms(5) by (auto simp: list_ex_iff)
      then have "matrix_previous s ! r XOR (matrix_previous s ! r XOR matrix_get_row k m r) = matrix_previous s ! r" by simp
      then have "matrix_get_row k m r = matrix_previous s ! r" by (simp flip: xor.assoc)
      ultimately show ?thesis by simp
    qed
    then show ?thesis unfolding if_not_P [OF False] .
  qed
qed

text \<open>Three keys of a rectangle and the fourth that the matrix shows, from a matrix in which two were pressed.\<close>

lemma ghost_rows_silent_witness:
  "key_history 0 0 (fst (snd (matrix_task \<lparr>KEYBOARD_COLS = 2, MATRIX_HAS_GHOST = True, MATRIX_MASK = None, keycode_on_layer_0 = \<lambda>_ _. 4\<rparr>
     True True (\<lambda>_. 5) [3, 3 :: 8 word] \<lparr>matrix_previous = [2, 2], last_tick = 0\<rparr>))) = []"
proof -
  let ?k = "\<lparr>KEYBOARD_COLS = 2, MATRIX_HAS_GHOST = True, MATRIX_MASK = None, keycode_on_layer_0 = \<lambda>_ _. 4\<rparr>"
  let ?start = "\<lparr>matrix_previous = [2, 2 :: 8 word], last_tick = 0\<rparr>"
  obtain ch calls s' where t: "matrix_task ?k True True (\<lambda>_. 5) [3, 3 :: 8 word] ?start = (ch, calls, s')" by (metis prod.exhaust)
  have "down ?k [3, 3 :: 8 word] i c" if "i < 2" "c < 2" for i c
    using that by (auto simp: down_def matrix_get_row_def less_2_cases_iff)
  then have rect: "\<exists>i < length [3, 3 :: 8 word]. i \<noteq> 0 \<and> (\<exists>c c'. c \<noteq> c' \<and> down ?k [3, 3 :: 8 word] 0 c \<and> down ?k [3, 3 :: 8 word] 0 c'
      \<and> down ?k [3, 3 :: 8 word] i c \<and> down ?k [3, 3 :: 8 word] i c')"
    by (intro exI [of _ "1 :: nat"] conjI exI [of _ "0 :: nat"] exI [of _ "1 :: nat"]) simp_all
  from ghost_rows_silent [of ?k "[3, 3]" ?start 0 "\<lambda>_. 5" ch calls s', unfolded if_P [OF rect]] t show ?thesis by simp
qed

fun is_tick :: "matrix_call \<Rightarrow> bool" where
  "is_tick (Action_exec e) = (event_type e = TICK_EVENT)"
| "is_tick (Switch_event _ _ _) = False"

lemma task_rows_no_tick: "filter is_tick (fst (fold (task_row k p clk m) rows (calls, previous))) = filter is_tick calls"
proof -
  have key: "filter is_tick (key_calls p clk r c b cs) = filter is_tick cs" for r c b cs
    by (simp add: key_calls_def MAKE_EVENT_def)
  have "filter is_tick (snd (fold (\<lambda>c (col_mask, calls).
         (push_bit 1 col_mask,
          if ch AND col_mask \<noteq> 0 then key_calls p clk r c (cur AND col_mask \<noteq> 0) calls else calls)) xs (msk, cs))) = filter is_tick cs" for r cur ch xs msk cs
    by (induction xs arbitrary: msk cs) (simp_all add: key)
  then have row: "filter is_tick (row_calls k p clk r cur ch cs) = filter is_tick cs" for r cur ch cs
    by (simp add: row_calls_def)
  show ?thesis
    by (induction rows arbitrary: calls previous) (simp_all add: task_row_def row Let_def)
qed

text \<open>
  As long as a row differs from its last reported state and forms a rectangle, the task sends no
  tick event, although no key event needs to be sent either: the decisions of tap-hold keys that
  wait for a tick are put off until the ghost is gone.
\<close>

theorem ghost_stops_ticks:
  fixes m :: "'r::len word list"
  assumes "KEYBOARD_COLS k \<le> 256" and "length m \<le> 256" and "length (matrix_previous s) = length m" and "r < length m" and "0 < KEYBOARD_COLS k"
    and "\<not> row_seen k m r" and "matrix_previous s ! r \<noteq> matrix_get_row k m r" and "\<forall>x \<in> set xs. \<exists>clk. x = (True, clk, m)"
  shows "filter is_tick (fst (matrix_run k xs s)) = []"
  using assms(3,7,8)
proof (induction xs arbitrary: s)
  case (Cons x xs)
  then obtain clk where x: "x = (True, clk, m)" by auto
  obtain ch calls s1 where t: "matrix_task k True True clk m s = (ch, calls, s1)" by (metis prod.exhaust)
  note key = matrix_task_key [OF assms(1,2) Cons.prems(1) assms(4,5) t]
  have "matrix_previous s1 ! r = matrix_previous s ! r" using key(2) assms(6) by simp
  then have "filter is_tick (fst (matrix_run k xs s1)) = []"
    using Cons.IH [of s1] key(1) Cons.prems(2,3) by simp
  moreover have "filter is_tick calls = []"
  proof -
    have "matrix_previous s ! r XOR matrix_get_row k m r \<noteq> 0"
    proof
      assume "matrix_previous s ! r XOR matrix_get_row k m r = 0"
      then have "matrix_previous s ! r XOR (matrix_previous s ! r XOR matrix_get_row k m r) = matrix_previous s ! r" by simp
      then show False using Cons.prems(2) by (simp flip: xor.assoc)
    qed
    then have "list_ex (\<lambda>r. matrix_previous s ! r XOR matrix_get_row k m r \<noteq> 0) [0..<length m]"
      using assms(4) by (auto simp: list_ex_iff)
    then have "calls = fst (fold (task_row k True clk m) [0..<length m] ([], matrix_previous s))"
      using t by (auto simp: matrix_task_def Let_def split: prod.splits)
    then show ?thesis by (simp add: task_rows_no_tick)
  qed
  ultimately show ?case by (auto simp: x t Let_def split: prod.split)
qed simp

section \<open>Debouncing and events\<close>

text \<open>Rounds of the main loop with eager debouncing per key: the raw matrix, whether it changed, the time and the clock.\<close>

fun eager_run ::
  "keyboard_cfg \<Rightarrow> u8 \<Rightarrow> nat \<Rightarrow> ('r::len word list \<times> bool \<times> nat \<times> (nat \<Rightarrow> u16)) list
    \<Rightarrow> 'r word list \<times> 't::len word debounce_state \<times> 'r word task_state \<Rightarrow> matrix_call list \<times> 'r word list \<times> 't word debounce_state \<times> 'r word task_state" where
  "eager_run k D n [] st = ([], st)"
| "eager_run k D n ((raw, changed, t, clk) # xs) (cooked, d, s) =
     (let (_, cooked, d) = epk_debounce (KEYBOARD_COLS k) D n raw cooked changed (of_nat t) d;
          (_, calls, s) = matrix_task k True True clk cooked s;
          (more, st) = eager_run k D n xs (cooked, d, s)
      in (calls @ more, st))"

lemma eager_run_append:
  "eager_run k D n (xs @ ys) st = (let (a, st) = eager_run k D n xs st; (b, st) = eager_run k D n ys st in (a @ b, st))"
  by (induction xs arbitrary: st) (auto simp: Let_def split: prod.splits)

text \<open>The debounced matrix of a run is that of its scans, and the reported one stays in step with it.\<close>

lemma eager_run_in_step:
  fixes cooked :: "'r::len word list" and d :: "'t::len word debounce_state"
  assumes "KEYBOARD_COLS k \<le> 256" and "n \<le> 256" and "\<not> MATRIX_HAS_GHOST k" and "MATRIX_MASK k = None" and "KEYBOARD_COLS k \<le> LENGTH('r)"
    and "D \<noteq> 0" and "epk_inv (KEYBOARD_COLS k) n d" and "length cooked = n" and "length (matrix_previous s) = n" and "r < n" and "c < KEYBOARD_COLS k"
    and "matrix_previous s ! r = cooked ! r" and "eager_run k D n xs (cooked, d, s) = (calls, cooked', d', s')"
  shows "length cooked' = n \<and> length (matrix_previous s') = n \<and> matrix_previous s' ! r = cooked' ! r \<and> epk_inv (KEYBOARD_COLS k) n d'
    \<and> (cooked', d') = epk_scans (KEYBOARD_COLS k) D n (map (\<lambda>(raw, ch, t, clk). (raw, ch, t)) xs) cooked d"
  using assms(7-9,12,13)
proof (induction xs arbitrary: cooked d s calls)
  case (Cons x xs)
  obtain raw ch t clk where x: "x = (raw, ch, t, clk)" by (cases x)
  obtain res cooked1 d1 where e: "epk_debounce (KEYBOARD_COLS k) D n raw cooked ch (of_nat t) d = (res, cooked1, d1)" by (metis prod.exhaust)
  obtain ch1 c1 s1 where m: "matrix_task k True True clk cooked1 s = (ch1, c1, s1)" by (metis prod.exhaust)
  obtain c2 where r: "eager_run k D n xs (cooked1, d1, s1) = (c2, cooked', d', s')"
    using Cons.prems(5) by (auto simp: x e m Let_def split: prod.splits)
  note E = epk_step [OF assms(5,6) Cons.prems(1,2) e]
  have l: "length cooked1 \<le> 256" "length (matrix_previous s) = length cooked1" "r < length cooked1"
    using E(2) assms(2,10) Cons.prems(3) by simp_all
  have "row_seen k cooked1 r" using assms(3) by (simp add: row_seen_def has_ghost_in_row_def)
  then have "matrix_previous s1 ! r = cooked1 ! r" "length (matrix_previous s1) = n"
    using matrix_task_key(1,2) [OF assms(1) l assms(11) m] assms(4) E(2) by (simp_all add: matrix_get_row_def)
  from Cons.IH [OF E(1,2) this(2,1) r] show ?case by (simp add: x e)
qed simp



end
