(* ===== verification/Via.thy ===== *)
theory Via
  imports DynMacros
begin

text \<open>
  Configuration by the host, quantum/via.c: the magic number that says the EEPROM is initialised, the
  layout options, the reset, and the handler of the 32-byte packets with which the host reads and
  writes the keymap, encoders and macros. \<open>None\<close> stands for undefined behaviour, in the driver or because
  a packet makes the handler leave the packet's buffer. What keyboards put into the hooks of this file
  works on a state of type \<open>'k\<close>.
\<close>

section \<open>The magic number\<close>

record via_cfg =
  keymap_cfg :: dk_cfg
  flash :: dk_flash
  VIA_EEPROM_MAGIC_ADDR :: nat
  VIA_EEPROM_LAYOUT_OPTIONS_ADDR :: nat
  VIA_EEPROM_LAYOUT_OPTIONS_SIZE :: nat
  VIA_EEPROM_LAYOUT_OPTIONS_DEFAULT :: u32
  VIA_FIRMWARE_VERSION :: u32
  VIA_EEPROM_ALLOW_RESET :: bool
  QMK_BUILDDATE :: "u8 list"

definition VIA_PROTOCOL_VERSION :: u16 where "VIA_PROTOCOL_VERSION = 0x000C"

definition via_magic :: "via_cfg \<Rightarrow> nat \<Rightarrow> u8" where
  "via_magic c i = (let p = QMK_BUILDDATE c; k = [2, 5, 8] ! i in push_bit 4 (p ! k AND 0x0F) OR (p ! (k + 1) AND 0x0F))"

definition via_eeprom_is_valid :: "via_cfg \<Rightarrow> 'e eeprom_driver \<Rightarrow> 'e \<Rightarrow> bool option" where
  "via_eeprom_is_valid c ee e = do {
     let addr = of_nat (VIA_EEPROM_MAGIC_ADDR c);
     b0 \<leftarrow> eeprom_read_byte ee (addr + 0) e;
     if b0 \<noteq> via_magic c 0 then Some False
     else do {
       b1 \<leftarrow> eeprom_read_byte ee (addr + 1) e;
       if b1 \<noteq> via_magic c 1 then Some False
       else do {
         b2 \<leftarrow> eeprom_read_byte ee (addr + 2) e;
         Some (b2 = via_magic c 2)
       }
     }
   }"

definition via_eeprom_set_valid :: "via_cfg \<Rightarrow> 'e eeprom_driver \<Rightarrow> bool \<Rightarrow> 'e \<Rightarrow> 'e option" where
  "via_eeprom_set_valid c ee valid e = do {
     let addr = of_nat (VIA_EEPROM_MAGIC_ADDR c);
     e \<leftarrow> eeprom_update_byte ee (addr + 0) (if valid then via_magic c 0 else 0xFF) e;
     e \<leftarrow> eeprom_update_byte ee (addr + 1) (if valid then via_magic c 1 else 0xFF) e;
     eeprom_update_byte ee (addr + 2) (if valid then via_magic c 2 else 0xFF) e
   }"

section \<open>Layout options\<close>

text \<open>The loops, with the number of bytes left.\<close>

fun layout_get :: "'e eeprom_driver \<Rightarrow> nat \<Rightarrow> u32 \<Rightarrow> u32 \<Rightarrow> 'e \<Rightarrow> u32 option" where
  "layout_get ee 0 source value e = Some value"
| "layout_get ee (Suc n) source value e = do {
     b \<leftarrow> eeprom_read_byte ee source e;
     layout_get ee n (source + 1) (push_bit 8 value OR ucast b) e
   }"

fun layout_set :: "'e eeprom_driver \<Rightarrow> nat \<Rightarrow> u32 \<Rightarrow> u32 \<Rightarrow> 'e \<Rightarrow> 'e option" where
  "layout_set ee 0 target value e = Some e"
| "layout_set ee (Suc n) target value e = do {
     e \<leftarrow> eeprom_update_byte ee target (ucast (value AND 0xFF)) e;
     layout_set ee n (target - 1) (drop_bit 8 value) e
   }"

definition via_get_layout_options :: "via_cfg \<Rightarrow> 'e eeprom_driver \<Rightarrow> 'e \<Rightarrow> u32 option" where
  "via_get_layout_options c ee e =
     layout_get ee (VIA_EEPROM_LAYOUT_OPTIONS_SIZE c) (of_nat (VIA_EEPROM_LAYOUT_OPTIONS_ADDR c)) 0 e"

definition store_layout_options :: "via_cfg \<Rightarrow> 'e eeprom_driver \<Rightarrow> u32 \<Rightarrow> 'e \<Rightarrow> 'e option" where
  "store_layout_options c ee value e =
     layout_set ee (VIA_EEPROM_LAYOUT_OPTIONS_SIZE c)
       (of_nat (VIA_EEPROM_LAYOUT_OPTIONS_ADDR c) + of_nat (VIA_EEPROM_LAYOUT_OPTIONS_SIZE c) - 1) value e"

section \<open>State and hooks\<close>

text \<open>
  The state: the keymap with its EEPROM, what the keyboard's hooks work on, and the packets sent to
  the host so far. A hook for commands says whether it has handled the packet, and gives the packet
  as it leaves it and what it has sent. The rows of the matrix are those of \<open>matrix_get_row\<close>.
\<close>

record ('e, 'k) via =
  dynamic_keymap :: "'e dyn_keymap"
  kb :: 'k
  raw_hid_sent :: "u8 list list"

record 'k via_hooks =
  via_init_kb :: "'k \<Rightarrow> 'k"
  via_set_layout_options_kb :: "u32 \<Rightarrow> 'k \<Rightarrow> 'k"
  via_set_device_indication :: "u8 \<Rightarrow> 'k \<Rightarrow> 'k"
  via_channel :: "u8 \<Rightarrow> (u8 list \<Rightarrow> 'k \<Rightarrow> u8 list \<times> 'k) option"
  via_command_kb :: "u8 list \<Rightarrow> 'k \<Rightarrow> (bool \<times> u8 list \<times> u8 list list \<times> 'k) option"
  timer_read32 :: u32
  matrix_rows :: "u32 list"

definition on_keymap :: "('e dyn_keymap \<Rightarrow> 'e dyn_keymap option) \<Rightarrow> ('e, 'k) via \<Rightarrow> ('e, 'k) via option" where
  "on_keymap f s = map_option (\<lambda>dk. s\<lparr>dynamic_keymap := dk\<rparr>) (f (dynamic_keymap s))"

definition on_eeprom :: "('e \<Rightarrow> 'e option) \<Rightarrow> ('e, 'k) via \<Rightarrow> ('e, 'k) via option" where
  "on_eeprom f = on_keymap (\<lambda>dk. map_option (\<lambda>e. dk\<lparr>eeprom := e\<rparr>) (f (eeprom dk)))"

definition via_set_layout_options ::
  "via_cfg \<Rightarrow> 'e eeprom_driver \<Rightarrow> 'k via_hooks \<Rightarrow> u32 \<Rightarrow> ('e, 'k) via \<Rightarrow> ('e, 'k) via option" where
  "via_set_layout_options c ee h value s =
     on_eeprom (store_layout_options c ee value) (s\<lparr>kb := via_set_layout_options_kb h value (kb s)\<rparr>)"

definition eeconfig_init_via :: "via_cfg \<Rightarrow> 'e eeprom_driver \<Rightarrow> 'k via_hooks \<Rightarrow> ('e, 'k) via \<Rightarrow> ('e, 'k) via option" where
  "eeconfig_init_via c ee h s = do {
     s \<leftarrow> on_eeprom (via_eeprom_set_valid c ee False) s;
     s \<leftarrow> via_set_layout_options c ee h (VIA_EEPROM_LAYOUT_OPTIONS_DEFAULT c) s;
     s \<leftarrow> on_keymap (dynamic_keymap_reset (keymap_cfg c) ee (flash_keys (flash c)) (flash_encoders (flash c))) s;
     s \<leftarrow> on_keymap (dynamic_keymap_macro_reset (keymap_cfg c) ee) s;
     on_eeprom (via_eeprom_set_valid c ee True) s
   }"

definition via_init :: "via_cfg \<Rightarrow> 'e eeprom_driver \<Rightarrow> 'k via_hooks \<Rightarrow> ('e, 'k) via \<Rightarrow> ('e, 'k) via option" where
  "via_init c ee h s = do {
     let s = s\<lparr>kb := via_init_kb h (kb s)\<rparr>;
     options \<leftarrow> via_get_layout_options c ee (eeprom (dynamic_keymap s));
     let s = s\<lparr>kb := via_set_layout_options_kb h options (kb s)\<rparr>;
     valid \<leftarrow> via_eeprom_is_valid c ee (eeprom (dynamic_keymap s));
     if \<not> valid then eeconfig_init_via c ee h s else Some s
   }"

section \<open>Packets\<close>

definition id_unhandled :: u8 where "id_unhandled = 0xFF"

text \<open>Bytes at an index of a packet; None if they leave it.\<close>

definition bytes_at :: "u8 list \<Rightarrow> nat \<Rightarrow> nat \<Rightarrow> u8 list option" where
  "bytes_at d i n = (if i + n \<le> length d then Some (mem_get i n d) else None)"

definition put_at :: "u8 list \<Rightarrow> nat \<Rightarrow> u8 list \<Rightarrow> u8 list option" where
  "put_at d i bs = (if i + length bs \<le> length d then Some (mem_put i bs d) else None)"

definition bytes32 :: "u32 \<Rightarrow> u8 list" where
  "bytes32 v = [ucast (drop_bit 24 v AND 0xFF), ucast (drop_bit 16 v AND 0xFF), ucast (drop_bit 8 v AND 0xFF), ucast (v AND 0xFF)]"

definition value16 :: "u8 \<Rightarrow> u8 \<Rightarrow> u16" where
  "value16 hi lo = push_bit 8 (ucast hi) OR ucast lo"

definition value32 :: "u8 \<Rightarrow> u8 \<Rightarrow> u8 \<Rightarrow> u8 \<Rightarrow> u32" where
  "value32 a b c d = push_bit 24 (ucast a) OR push_bit 16 (ucast b) OR push_bit 8 (ucast c) OR ucast d"

text \<open>As many rows as fit into 28 bytes, each as its bytes from the most significant one.\<close>

definition matrix_state_bytes :: "via_cfg \<Rightarrow> u32 list \<Rightarrow> nat \<Rightarrow> u8 list" where
  "matrix_state_bytes c rows offset =
     (let cols = MATRIX_COLS (board (keymap_cfg c)); bytes = (cols + 7) div 8; n = 28 div bytes
      in concat (map (\<lambda>r. (if 24 < cols then [ucast (drop_bit 24 (rows ! r) AND 0xFF)] else [])
             @ (if 16 < cols then [ucast (drop_bit 16 (rows ! r) AND 0xFF)] else [])
             @ (if 8 < cols then [ucast (drop_bit 8 (rows ! r) AND 0xFF)] else [])
             @ [ucast (rows ! r AND 0xFF)])
           [offset..<min (offset + n) (MATRIX_ROWS (board (keymap_cfg c)))]))"

definition via_get_keyboard_value ::
  "via_cfg \<Rightarrow> 'e eeprom_driver \<Rightarrow> 'k via_hooks \<Rightarrow> u8 list \<Rightarrow> ('e, 'k) via \<Rightarrow> u8 list option" where
  "via_get_keyboard_value c ee h d s =
     (if d ! 1 = 0x01 then put_at d 2 (bytes32 (timer_read32 h))
      else if d ! 1 = 0x02 then via_get_layout_options c ee (eeprom (dynamic_keymap s)) \<bind> (\<lambda>v. put_at d 2 (bytes32 v))
      else if d ! 1 = 0x03 then put_at d 3 (matrix_state_bytes c (matrix_rows h) (unat (d ! 2)))
      else if d ! 1 = 0x04 then put_at d 2 (bytes32 (VIA_FIRMWARE_VERSION c))
      else Some (d[0 := id_unhandled]))"

definition via_set_keyboard_value ::
  "via_cfg \<Rightarrow> 'e eeprom_driver \<Rightarrow> 'k via_hooks \<Rightarrow> u8 list \<Rightarrow> ('e, 'k) via \<Rightarrow> (u8 list \<times> ('e, 'k) via) option" where
  "via_set_keyboard_value c ee h d s =
     (if d ! 1 = 0x02
      then map_option (Pair d) (via_set_layout_options c ee h (value32 (d ! 2) (d ! 3) (d ! 4) (d ! 5)) s)
      else if d ! 1 = 0x05 then Some (d, s\<lparr>kb := via_set_device_indication h (d ! 2) (kb s)\<rparr>)
      else Some (d[0 := id_unhandled], s))"

text \<open>The channels of the build's lights and sound are hooks; other values are not handled.\<close>

definition via_custom_value_command :: "'k via_hooks \<Rightarrow> u8 list \<Rightarrow> 'k \<Rightarrow> u8 list \<times> 'k" where
  "via_custom_value_command h d k =
     (case via_channel h (d ! 1) of Some f \<Rightarrow> f d k | None \<Rightarrow> (d[0 := id_unhandled], k))"

text \<open>
  Reading and writing by offset and size, the fourth byte of the packet. The loops move a pointer
  through the packet whether or not the byte lies in the region.
\<close>

definition via_get_block :: "(u16 \<Rightarrow> u16 \<Rightarrow> 'e dyn_keymap \<Rightarrow> u8 list option) \<Rightarrow> u8 list \<Rightarrow> ('e, 'k) via \<Rightarrow> (u8 list \<times> ('e, 'k) via) option" where
  "via_get_block read_bytes d s = do {
     bs \<leftarrow> read_bytes (value16 (d ! 1) (d ! 2)) (ucast (d ! 3)) (dynamic_keymap s);
     d \<leftarrow> put_at d 4 bs;
     Some (d, s)
   }"

definition via_set_block :: "(u16 \<Rightarrow> u8 list \<Rightarrow> 'e dyn_keymap \<Rightarrow> 'e dyn_keymap option) \<Rightarrow> u8 list \<Rightarrow> ('e, 'k) via \<Rightarrow> (u8 list \<times> ('e, 'k) via) option" where
  "via_set_block write_bytes d s = do {
     bs \<leftarrow> bytes_at d 4 (unat (d ! 3));
     s \<leftarrow> on_keymap (write_bytes (value16 (d ! 1) (d ! 2)) bs) s;
     Some (d, s)
   }"

definition via_command ::
  "via_cfg \<Rightarrow> 'e eeprom_driver \<Rightarrow> 'k via_hooks \<Rightarrow> u8 list \<Rightarrow> ('e, 'k) via \<Rightarrow> (u8 list \<times> ('e, 'k) via) option" where
  "via_command c ee h d s =
     (let kc = keymap_cfg c; dk = dynamic_keymap s; answer = (\<lambda>d. Some (d, s)); and_answer = map_option (Pair d)
      in if d ! 0 = 0x01
           then answer (d[1 := ucast (drop_bit 8 VIA_PROTOCOL_VERSION), 2 := ucast (VIA_PROTOCOL_VERSION AND 0xFF)])
         else if d ! 0 = 0x02 then via_get_keyboard_value c ee h d s \<bind> answer
         else if d ! 0 = 0x03 then via_set_keyboard_value c ee h d s
         else if d ! 0 = 0x04
           then dynamic_keymap_get_keycode kc ee (d ! 1) (d ! 2) (d ! 3) dk
             \<bind> (\<lambda>keycode. answer (d[4 := ucast (drop_bit 8 keycode), 5 := ucast (keycode AND 0xFF)]))
         else if d ! 0 = 0x05
           then and_answer (on_keymap (dynamic_keymap_set_keycode kc ee (d ! 1) (d ! 2) (d ! 3) (value16 (d ! 4) (d ! 5))) s)
         else if d ! 0 = 0x06
           then and_answer (on_keymap (dynamic_keymap_reset kc ee (flash_keys (flash c)) (flash_encoders (flash c))) s)
         else if d ! 0 = 0x07 \<or> d ! 0 = 0x08 \<or> d ! 0 = 0x09
           then let (d, k) = via_custom_value_command h d (kb s) in Some (d, s\<lparr>kb := k\<rparr>)
         else if d ! 0 = 0x0A \<and> VIA_EEPROM_ALLOW_RESET c
           then and_answer (on_eeprom (via_eeprom_set_valid c ee False) s \<bind> eeconfig_init_via c ee h)
         else if d ! 0 = 0x0C then answer (d[1 := of_nat (DYNAMIC_KEYMAP_MACRO_COUNT kc)])
         else if d ! 0 = 0x0D
           then let size = of_nat (DYNAMIC_KEYMAP_MACRO_EEPROM_SIZE kc) :: u16
                in answer (d[1 := ucast (drop_bit 8 size), 2 := ucast (size AND 0xFF)])
         else if d ! 0 = 0x0E then via_get_block (dynamic_keymap_macro_get_buffer kc ee) d s
         else if d ! 0 = 0x0F then via_set_block (dynamic_keymap_macro_set_buffer kc ee) d s
         else if d ! 0 = 0x10 then and_answer (on_keymap (dynamic_keymap_macro_reset kc ee) s)
         else if d ! 0 = 0x11 then answer (d[1 := of_nat (DYNAMIC_KEYMAP_LAYER_COUNT kc)])
         else if d ! 0 = 0x12 then via_get_block (dynamic_keymap_get_buffer kc ee) d s
         else if d ! 0 = 0x13 then via_set_block (dynamic_keymap_set_buffer kc ee) d s
         else if d ! 0 = 0x14 \<and> ENCODER_MAP_ENABLE (board kc)
           then dynamic_keymap_get_encoder kc ee (d ! 1) (d ! 2) (d ! 3 \<noteq> 0) dk
             \<bind> (\<lambda>keycode. answer (d[4 := ucast (drop_bit 8 keycode), 5 := ucast (keycode AND 0xFF)]))
         else if d ! 0 = 0x15 \<and> ENCODER_MAP_ENABLE (board kc)
           then and_answer (on_keymap (dynamic_keymap_set_encoder kc ee (d ! 1) (d ! 2) (d ! 3 \<noteq> 0) (value16 (d ! 4) (d ! 5))) s)
         else answer (d[0 := id_unhandled]))"

definition raw_hid_receive ::
  "via_cfg \<Rightarrow> 'e eeprom_driver \<Rightarrow> 'k via_hooks \<Rightarrow> u8 list \<Rightarrow> ('e, 'k) via \<Rightarrow> ('e, 'k) via option" where
  "raw_hid_receive c ee h d s = do {
     (handled, d, sent, k) \<leftarrow> via_command_kb h d (kb s);
     if handled then Some (s\<lparr>kb := k, raw_hid_sent := raw_hid_sent s @ sent\<rparr>)
     else do {
       (d, s) \<leftarrow> via_command c ee h d (s\<lparr>kb := k, raw_hid_sent := raw_hid_sent s @ sent\<rparr>);
       Some (s\<lparr>raw_hid_sent := raw_hid_sent s @ [d]\<rparr>)
     }
   }"

text \<open>The keycodes of macros; true for the others.\<close>

definition process_record_via ::
  "dk_cfg \<Rightarrow> 'e eeprom_driver \<Rightarrow> 'w act_cfg \<Rightarrow> u8 \<Rightarrow> u16 \<Rightarrow> bool \<Rightarrow> 'e \<Rightarrow> 'w act_state \<Rightarrow> (bool \<times> 'w act_state) option" where
  "process_record_via c ee ac delay keycode p e s =
     (if p \<and> 0x7700 \<le> keycode \<and> keycode \<le> 0x777F
      then map_option (Pair False) (dynamic_keymap_macro_send c ee ac delay (ucast (keycode - 0x7700)) e s)
      else Some (True, s))"

end
