(* ===== verification/ViaFrame.thy ===== *)
theory ViaFrame
  imports Via
begin

text \<open>
  What the operations on the keymap leave alone: every byte below the keymap. This needs less than a
  working EEPROM, only that writing changes no byte outside the addressed ones, so it also holds while the
  supply fails and writes are lost.
\<close>

section \<open>EEPROM operations that keep the bytes below an address\<close>

definition keeps_below :: "('s \<Rightarrow> bool) \<Rightarrow> ('s \<Rightarrow> u8 list) \<Rightarrow> nat \<Rightarrow> ('s \<Rightarrow> 's option) \<Rightarrow> bool" where
  "keeps_below ok mem lo f \<longleftrightarrow>
     (\<forall>s. ok s \<longrightarrow> (\<exists>s'. f s = Some s' \<and> ok s' \<and> (\<forall>i < lo. mem s' ! i = mem s ! i)))"

lemma keeps_belowI:
  "(\<And>s. ok s \<Longrightarrow> \<exists>s'. f s = Some s' \<and> ok s' \<and> (\<forall>i < lo. mem s' ! i = mem s ! i)) \<Longrightarrow> keeps_below ok mem lo f"
  by (simp add: keeps_below_def)

lemma keeps_belowD:
  "keeps_below ok mem lo f \<Longrightarrow> ok s \<Longrightarrow> \<exists>s'. f s = Some s' \<and> ok s' \<and> (\<forall>i < lo. mem s' ! i = mem s ! i)"
  by (simp add: keeps_below_def)

lemma keeps_below_mono: "keeps_below ok mem lo f \<Longrightarrow> lo' \<le> lo \<Longrightarrow> keeps_below ok mem lo' f"
  unfolding keeps_below_def by (meson less_le_trans)

lemma keeps_Some [intro]: "keeps_below ok mem lo Some"
  by (auto intro: keeps_belowI)

lemma keeps_bind [intro]:
  assumes "keeps_below ok mem lo f" and "keeps_below ok mem lo g"
  shows "keeps_below ok mem lo (\<lambda>s. f s \<bind> g)"
proof (rule keeps_belowI)
  fix s assume "ok s"
  then obtain s1 where s1: "f s = Some s1" "ok s1" "\<forall>i < lo. mem s1 ! i = mem s ! i"
    using keeps_belowD [OF assms(1)] by blast
  then obtain s2 where "g s1 = Some s2" "ok s2" "\<forall>i < lo. mem s2 ! i = mem s1 ! i"
    using keeps_belowD [OF assms(2)] by blast
  then show "\<exists>s'. f s \<bind> g = Some s' \<and> ok s' \<and> (\<forall>i < lo. mem s' ! i = mem s ! i)" using s1 by auto
qed

lemma keeps_each:
  assumes "\<And>x. x \<in> set xs \<Longrightarrow> keeps_below ok mem lo (f x)"
  shows "keeps_below ok mem lo (each f xs)"
  using assms
proof (induction xs)
  case (Cons x xs)
  have "each f (x # xs) = (\<lambda>s. f x s \<bind> each f xs)" by auto
  then show ?case using keeps_bind [OF Cons.prems [of x] Cons.IH] Cons.prems by simp
qed (auto intro: keeps_belowI)

text \<open>On the EEPROM inside a keymap state.\<close>

lemma keeps_eeprom:
  assumes "keeps_below ok mem lo f"
  shows "keeps_below (\<lambda>s. ok (eeprom s)) (\<lambda>s. mem (eeprom s)) lo (\<lambda>s. map_option (\<lambda>e. s\<lparr>eeprom := e\<rparr>) (f (eeprom s)))"
  using assms by (fastforce simp: keeps_below_def)

locale eeprom_frame =
  fixes ee :: "'e eeprom_driver" and inv :: "'e \<Rightarrow> bool" and contents :: "'e \<Rightarrow> u8 list" and size_of :: nat
  assumes frame_size: "inv e \<Longrightarrow> length (contents e) = size_of"
    and frame_read: "inv e \<Longrightarrow> unat a + n \<le> size_of \<Longrightarrow> eeprom_read_block ee a n e = Some (mem_get (unat a) n (contents e))"
    and frame_write: "inv e \<Longrightarrow> unat a + length p \<le> size_of
      \<Longrightarrow> \<exists>e'. eeprom_write_block ee a p e = Some e' \<and> inv e'
            \<and> (\<forall>i. i < unat a \<or> unat a + length p \<le> i \<longrightarrow> contents e' ! i = contents e ! i)"
begin

lemma frame_write_above:
  "inv e \<Longrightarrow> unat a + length p \<le> size_of \<Longrightarrow> lo \<le> unat a
    \<Longrightarrow> \<exists>e'. eeprom_write_block ee a p e = Some e' \<and> inv e' \<and> (\<forall>i < lo. contents e' ! i = contents e ! i)"
  using frame_write [of e a p] by force

lemma keeps_update_block:
  assumes "unat a + length p \<le> size_of" and "lo \<le> unat a"
  shows "keeps_below inv contents lo (eeprom_update_block ee a p)"
proof (rule keeps_belowI)
  fix e assume e: "inv e"
  then have "length (mem_get (unat a) (length p) (contents e)) = length p"
    using assms(1) frame_size by (simp add: length_simps)
  then show "\<exists>s'. eeprom_update_block ee a p e = Some s' \<and> inv s' \<and> (\<forall>i < lo. contents s' ! i = contents e ! i)"
    using frame_write_above [OF e assms] frame_read [OF e assms(1)] e by (auto simp: eeprom_update_block_def)
qed

lemma keeps_update_byte:
  assumes "unat a < size_of" and "lo \<le> unat a"
  shows "keeps_below inv contents lo (eeprom_update_byte ee a v)"
proof (rule keeps_belowI)
  fix e assume e: "inv e"
  have "length (scalar_bytes 1 (unat v)) = 1" by (simp add: length_simps)
  then show "\<exists>s'. eeprom_update_byte ee a v e = Some s' \<and> inv s' \<and> (\<forall>i < lo. contents s' ! i = contents e ! i)"
    using frame_write_above [OF e, of a "scalar_bytes 1 (unat v)" lo] frame_read [OF e, of a 1] assms e
    by (auto simp: eeprom_update_byte_def eeprom_write_byte_def eeprom_read_byte_def read_scalar_def)
qed

lemma keeps_update_word:
  assumes "unat a + 2 \<le> size_of" and "lo \<le> unat a"
  shows "keeps_below inv contents lo (eeprom_update_word ee a v)"
proof (rule keeps_belowI)
  fix e assume e: "inv e"
  have "length (scalar_bytes 2 (unat v)) = 2" by (simp add: length_simps)
  then show "\<exists>s'. eeprom_update_word ee a v e = Some s' \<and> inv s' \<and> (\<forall>i < lo. contents s' ! i = contents e ! i)"
    using frame_write_above [OF e, of a "scalar_bytes 2 (unat v)" lo] frame_read [OF e, of a 2] assms e
    by (auto simp: eeprom_update_word_def eeprom_write_word_def eeprom_read_word_def read_scalar_def)
qed

lemma keeps_big_endian:
  assumes "unat (a + 1) = Suc (unat a)" and "unat a + 2 \<le> size_of" and "lo \<le> unat a"
  shows "keeps_below inv contents lo (update_big_endian ee a kc)"
  unfolding update_big_endian_def
  by (intro keeps_bind keeps_update_byte) (use assms in simp_all)

lemma keeps_set_keycode:
  assumes "dk_ok c size_of" and "lo \<le> DYNAMIC_KEYMAP_EEPROM_ADDR c"
  shows "keeps_below (\<lambda>s. inv (eeprom s)) (\<lambda>s. contents (eeprom s)) lo (dynamic_keymap_set_keycode c ee l r k kc)"
proof (cases "on_board c l r k")
  case False
  then have "dynamic_keymap_set_keycode c ee l r k kc = Some" by (simp add: dynamic_keymap_set_keycode_def fun_eq_iff)
  then show ?thesis by auto
next
  case True
  note A = key_address [OF assms(1) True] and B = key_off_bounds [OF assms(1) True] dk_okD(5) [OF assms(1)]
  have "keeps_below inv contents lo (\<lambda>e. if KEYCODE_BUFFER_ENABLE c then eeprom_update_word ee (of_nat (key_off c l r k)) (bswap16 kc) e
      else update_big_endian ee (of_nat (key_off c l r k)) kc e)"
    using A B assms(2) keeps_update_word [of "of_nat (key_off c l r k)"] keeps_big_endian [of "of_nat (key_off c l r k)"]
    by (cases "KEYCODE_BUFFER_ENABLE c") simp_all
  then show ?thesis
    using True by (fastforce simp: keeps_below_def dynamic_keymap_set_keycode_def A(1) Let_def forget_buffer_def)
qed

lemma keeps_set_encoder:
  assumes "dk_ok c size_of" and "lo \<le> DYNAMIC_KEYMAP_EEPROM_ADDR c"
  shows "keeps_below (\<lambda>s. inv (eeprom s)) (\<lambda>s. contents (eeprom s)) lo (dynamic_keymap_set_encoder c ee l i cw kc)"
proof (cases "encoder_on_board c l i")
  case False
  then have "dynamic_keymap_set_encoder c ee l i cw kc = Some" by (simp add: dynamic_keymap_set_encoder_def fun_eq_iff)
  then show ?thesis by auto
next
  case True
  note A = enc_address [OF assms(1) True, of cw] and B = enc_off_bounds [OF assms(1) True, of cw] dk_okD(6) [OF assms(1)]
  have "lo \<le> enc_off c l i cw" using B(1) dk_okD(1) [OF assms(1)] assms(2) by linarith
  then have "keeps_below inv contents lo (update_big_endian ee (of_nat (enc_off c l i cw)) kc)"
    using A B by (intro keeps_big_endian) simp_all
  from keeps_eeprom [OF this] show ?thesis using True by (simp add: dynamic_keymap_set_encoder_def [abs_def] A(1))
qed

lemma keeps_reset_layer:
  assumes "dk_ok c size_of" and "lo \<le> DYNAMIC_KEYMAP_EEPROM_ADDR c" and "unat l < DYNAMIC_KEYMAP_LAYER_COUNT c"
  shows "keeps_below (\<lambda>s. inv (eeprom s)) (\<lambda>s. contents (eeprom s)) lo (reset_layer c ee raw l)"
proof (cases "KEYCODE_BUFFER_ENABLE c")
  case True
  let ?bs = "concat (map (\<lambda>(rw, cl). big_endian (raw l rw cl)) (positions c))"
  have b0: "on_board c l 0 0" using assms(3) dk_okD(11,12) [OF assms(1)] by (simp add: on_board_def)
  note A = key_address [OF assms(1) b0] and B = key_off_bounds [OF assms(1) b0] and room = layer_block_room [OF assms(1,3)]
  have "?bs = concat (map big_endian (map (\<lambda>(r, k). raw l r k) (positions c)))" by (simp add: case_prod_unfold comp_def)
  then have "length ?bs = 2 * length (positions c)" using length_words [of "map (\<lambda>(r, k). raw l r k) (positions c)"] by simp
  then have "keeps_below inv contents lo (eeprom_update_block ee (of_nat (key_off c l 0 0)) ?bs)"
    using A B room dk_okD(5) [OF assms(1)] assms(2) by (intro keeps_update_block) simp_all
  from keeps_eeprom [OF this] True show ?thesis by (simp add: reset_layer_def [abs_def] A(1))
next
  case False
  have "keeps_below (\<lambda>s. inv (eeprom s)) (\<lambda>s. contents (eeprom s)) lo
      (each (\<lambda>(rw, cl). dynamic_keymap_set_keycode c ee l rw cl (raw l rw cl)) (positions c))"
    by (rule keeps_each) (use keeps_set_keycode [OF assms(1,2)] in \<open>auto split: prod.splits\<close>)
  moreover have "reset_layer c ee raw l = each (\<lambda>(rw, cl). dynamic_keymap_set_keycode c ee l rw cl (raw l rw cl)) (positions c)"
    using False by (simp add: reset_layer_def fun_eq_iff)
  ultimately show ?thesis by simp
qed

lemma keeps_reset:
  assumes "dk_ok c size_of" and "lo \<le> DYNAMIC_KEYMAP_EEPROM_ADDR c"
  shows "keeps_below (\<lambda>s. inv (eeprom s)) (\<lambda>s. contents (eeprom s)) lo (dynamic_keymap_reset c ee raw raw_encoder)"
proof -
  let ?K = "keeps_below (\<lambda>s. inv (eeprom s)) (\<lambda>s. contents (eeprom s)) lo"
  have enc: "?K (reset_encoders c ee raw_encoder l)" for l
  proof (cases "ENCODER_MAP_ENABLE (board c)")
    case True
    have "?K (each (\<lambda>(encoder, clockwise). dynamic_keymap_set_encoder c ee l encoder clockwise (raw_encoder l encoder clockwise)) xs)" for xs
      by (rule keeps_each) (use keeps_set_encoder [OF assms] in \<open>auto split: prod.splits\<close>)
    then show ?thesis using True by (simp add: reset_encoders_def [abs_def])
  qed (auto simp: reset_encoders_def [abs_def] intro: keeps_belowI)
  have layer: "?K (reset_layer c ee raw (of_nat i))" if "i < DYNAMIC_KEYMAP_LAYER_COUNT c" for i
    using that dk_okD(7) [OF assms(1)] by (intro keeps_reset_layer [OF assms]) (simp add: u8_of_nat)
  have all: "?K (each (\<lambda>layer s. reset_layer c ee raw (of_nat layer) s \<bind> reset_encoders c ee raw_encoder (of_nat layer)) [0..<DYNAMIC_KEYMAP_LAYER_COUNT c])"
    by (intro keeps_each keeps_bind layer enc) simp
  show ?thesis
    using keeps_belowD [OF all] keeps_belowD [OF all, of "forget_buffer s" for s]
    by (intro keeps_belowI) (simp add: dynamic_keymap_reset_def forget_buffer_def)
qed

lemma keeps_macro_reset:
  assumes "dk_ok c size_of" and "lo \<le> DYNAMIC_KEYMAP_EEPROM_ADDR c"
  shows "keeps_below (\<lambda>s. inv (eeprom s)) (\<lambda>s. contents (eeprom s)) lo (dynamic_keymap_macro_reset c ee)"
proof -
  have lo: "lo \<le> DYNAMIC_KEYMAP_MACRO_EEPROM_ADDR c" using dk_okD(1,2) [OF assms(1)] assms(2) by linarith
  have "keeps_below inv contents lo (\<lambda>e. each (\<lambda>i. eeprom_update_byte ee (of_nat (DYNAMIC_KEYMAP_MACRO_EEPROM_ADDR c + i)) 0)
         [0..<DYNAMIC_KEYMAP_MACRO_EEPROM_SIZE c] e)"
  proof (intro keeps_each keeps_update_byte)
    fix i assume "i \<in> set [0..<DYNAMIC_KEYMAP_MACRO_EEPROM_SIZE c]"
    then have i: "DYNAMIC_KEYMAP_MACRO_EEPROM_ADDR c + i < size_of" using dk_okD(3) [OF assms(1)] by simp
    then have "unat (of_nat (DYNAMIC_KEYMAP_MACRO_EEPROM_ADDR c + i) :: u32) = DYNAMIC_KEYMAP_MACRO_EEPROM_ADDR c + i"
      using dk_okD(4) [OF assms(1)] by (intro unat_addr) simp
    then show "unat (of_nat (DYNAMIC_KEYMAP_MACRO_EEPROM_ADDR c + i) :: u32) < size_of"
      "lo \<le> unat (of_nat (DYNAMIC_KEYMAP_MACRO_EEPROM_ADDR c + i) :: u32)" using i lo by simp_all
  qed
  from keeps_eeprom [OF this] show ?thesis by (simp add: dynamic_keymap_macro_reset_def [abs_def])
qed

lemma keeps_region_set:
  assumes "start + len \<le> size_of" and "size_of \<le> 2 ^ 16" and "lo \<le> start"
  shows "keeps_below inv contents lo (region_set ee start len off data)"
proof (induction data arbitrary: off)
  case (Cons b bs)
  have "keeps_below inv contents lo (\<lambda>e. if off < len then eeprom_update_byte ee (of_nat (start + off)) b e else Some e)"
  proof (cases "off < len")
    case True
    have "unat (of_nat (start + off) :: u32) = start + off" by (rule unat_addr) (use True assms(1,2) in simp)
    then show ?thesis using True assms keeps_update_byte [of "of_nat (start + off)" lo b] by simp
  qed (auto intro: keeps_belowI)
  from keeps_bind [OF this Cons.IH [of "Suc off"]] show ?case by (simp add: fun_eq_iff keeps_below_def)
qed (auto intro: keeps_belowI)

end

sublocale eeprom_store \<subseteq> frame: eeprom_frame ee inv contents size_of
proof
  show "inv e \<Longrightarrow> length (contents e) = size_of" for e by (rule contents_size)
  show "inv e \<Longrightarrow> unat a + n \<le> size_of \<Longrightarrow> eeprom_read_block ee a n e = Some (mem_get (unat a) n (contents e))" for e a n
    by (rule read_law)
  fix e and a :: u32 and p :: "u8 list" assume e: "inv e" and r: "unat a + length p \<le> size_of"
  then obtain e' where "eeprom_write_block ee a p e = Some e'" "inv e'" "contents e' = mem_put (unat a) p (contents e)"
    using write_law by blast
  moreover have "mem_put (unat a) p (contents e) ! i = contents e ! i" if "i < unat a \<or> unat a + length p \<le> i" for i
    using that r contents_size [OF e] by (cases "i < size_of") (auto simp: mem_put_nth mem_put_def nth_append)
  ultimately show "\<exists>e'. eeprom_write_block ee a p e = Some e' \<and> inv e'
      \<and> (\<forall>i. i < unat a \<or> unat a + length p \<le> i \<longrightarrow> contents e' ! i = contents e ! i)"
    by auto
qed

end
