(* ===== verification/ViaReset.thy ===== *)
theory ViaReset
  imports ViaFrame
begin

text \<open>
  The reset of everything the host configures, also when the supply fails in the middle of it: the magic
  number is cleared first and written last, so a half-done reset is recognised and done again.
\<close>

section \<open>Sizes in packets\<close>

lemma region_get_length: "region_get ee start len off n e = Some bs \<Longrightarrow> length bs = n"
  by (induction n arbitrary: off bs) (auto simp: bind_eq_Some_conv)

text \<open>The size a host gives with a request to read the keymap or the macros is not checked: with more than
  28 bytes the answer runs over the end of the packet's 32.\<close>

theorem oversized_read_overruns:
  fixes s :: "('e, 'k) via"
  assumes "length d = 32" and "d ! 0 = 0x0E \<or> d ! 0 = 0x12" and "via_command_kb h d (kb s) = Some (False, d, [], kb s)" and "28 < d ! 3"
  shows "raw_hid_receive c ee h d s = None"
proof -
  have n: "28 < unat (d ! 3)" using assms(4) by (simp add: word_less_nat_alt)
  have block: "via_get_block read_bytes d t = None" if "\<And>off bs. read_bytes off (ucast (d ! 3)) (dynamic_keymap t) = Some bs \<Longrightarrow> length bs = unat (d ! 3)"
    for read_bytes and t :: "('e, 'k) via"
    using that n assms(1) by (cases "read_bytes (value16 (d ! 1) (d ! 2)) (ucast (d ! 3)) (dynamic_keymap t)") (auto simp: via_get_block_def put_at_def)
  have "unat (ucast (d ! 3) :: u16) = unat (d ! 3)"
    using unat_less_bits [of "d ! 3"] by (simp add: unsigned_ucast_eq take_bit_nat_eq_self)
  then have "via_get_block (dynamic_keymap_macro_get_buffer (keymap_cfg c) ee) d t = None"
    "via_get_block (dynamic_keymap_get_buffer (keymap_cfg c) ee) d t = None" for t :: "('e, 'k) via"
    using region_get_length by (auto intro!: block simp: dynamic_keymap_macro_get_buffer_def dynamic_keymap_get_buffer_def)
  then show ?thesis using assms(2,3) by (auto simp: raw_hid_receive_def via_command_def Let_def)
qed

section \<open>Layout of the EEPROM\<close>

text \<open>The magic number, then the layout options, then the keymap; the build date has digits where the
  magic number is taken from.\<close>

definition via_ok :: "via_cfg \<Rightarrow> nat \<Rightarrow> bool" where
  "via_ok c n \<longleftrightarrow> dk_ok (keymap_cfg c) n \<and> VIA_EEPROM_MAGIC_ADDR c + 3 \<le> VIA_EEPROM_LAYOUT_OPTIONS_ADDR c
     \<and> VIA_EEPROM_LAYOUT_OPTIONS_ADDR c + VIA_EEPROM_LAYOUT_OPTIONS_SIZE c \<le> DYNAMIC_KEYMAP_EEPROM_ADDR (keymap_cfg c)
     \<and> 0 < VIA_EEPROM_LAYOUT_OPTIONS_SIZE c \<and> VIA_EEPROM_LAYOUT_OPTIONS_SIZE c \<le> 4
     \<and> list_all (\<lambda>i. 0x30 \<le> QMK_BUILDDATE c ! i \<and> QMK_BUILDDATE c ! i \<le> 0x39) [2, 3, 5, 6, 8, 9]"

lemma via_okD:
  assumes "via_ok c n"
  shows "dk_ok (keymap_cfg c) n" and "VIA_EEPROM_MAGIC_ADDR c + 3 \<le> VIA_EEPROM_LAYOUT_OPTIONS_ADDR c"
    and "VIA_EEPROM_LAYOUT_OPTIONS_ADDR c + VIA_EEPROM_LAYOUT_OPTIONS_SIZE c \<le> DYNAMIC_KEYMAP_EEPROM_ADDR (keymap_cfg c)"
    and "0 < VIA_EEPROM_LAYOUT_OPTIONS_SIZE c" and "VIA_EEPROM_LAYOUT_OPTIONS_SIZE c \<le> 4"
    and "VIA_EEPROM_LAYOUT_OPTIONS_ADDR c + VIA_EEPROM_LAYOUT_OPTIONS_SIZE c \<le> n" and "n \<le> 2 ^ 16"
  using assms dk_okD(1,4,5) [of "keymap_cfg c" n] by (simp_all add: via_ok_def)

lemma digit_nibble:
  assumes "0x30 \<le> (b :: u8)" and "b \<le> 0x39"
  shows "b AND 0x0F \<noteq> 0x0F"
proof -
  have "unat b \<in> {48..57}" using assms by (simp add: word_le_nat_alt)
  then have "unat b = 48 \<or> unat b = 49 \<or> unat b = 50 \<or> unat b = 51 \<or> unat b = 52
      \<or> unat b = 53 \<or> unat b = 54 \<or> unat b = 55 \<or> unat b = 56 \<or> unat b = 57" by simp presburger
  then have "b = 48 \<or> b = 49 \<or> b = 50 \<or> b = 51 \<or> b = 52 \<or> b = 53 \<or> b = 54 \<or> b = 55 \<or> b = 56 \<or> b = 57"
    by (simp add: word_unat_eq_iff)
  then show ?thesis by auto
qed

lemma magic_not_erased:
  assumes "via_ok c n" and "i < 3"
  shows "via_magic c i \<noteq> 0xFF"
proof
  define b where "b = QMK_BUILDDATE c ! ([2, 5, 8] ! i + 1)"
  have "i = 0 \<or> i = 1 \<or> i = 2" using assms(2) by auto
  then have d: "0x30 \<le> b" "b \<le> 0x39" using assms(1) by (auto simp: via_ok_def b_def)
  have "via_magic c i AND 0x0F = b AND 0x0F"
    unfolding via_magic_def Let_def b_def [symmetric] by (rule bit_word_eqI) (auto simp: bit_simps bit_numeral_rec split: nat.splits)
  moreover assume "via_magic c i = 0xFF"
  ultimately show False using digit_nibble [OF d] by simp
qed

section \<open>A failing supply\<close>

text \<open>A driver that loses every write after the first \<open>writes_left\<close> ones, and tells whether it did.\<close>

record 'e supplied =
  writes_left :: nat
  lost :: bool
  memory :: 'e

definition failing_supply :: "'e eeprom_driver \<Rightarrow> 'e supplied eeprom_driver" where
  "failing_supply ee =
     \<lparr>eeprom_read_block = \<lambda>a n s. eeprom_read_block ee a n (memory s),
      eeprom_write_block = \<lambda>a p s. if writes_left s = 0 then Some (s\<lparr>lost := True\<rparr>)
        else map_option (\<lambda>e. s\<lparr>writes_left := writes_left s - 1, memory := e\<rparr>) (eeprom_write_block ee a p (memory s))\<rparr>"

fun store_bytes :: "'e eeprom_driver \<Rightarrow> u32 \<Rightarrow> u8 list \<Rightarrow> 'e \<Rightarrow> 'e option" where
  "store_bytes ee a [] e = Some e"
| "store_bytes ee a (v # vs) e = eeprom_update_byte ee a v e \<bind> store_bytes ee (a + 1) vs"

definition magic_bytes :: "via_cfg \<Rightarrow> bool \<Rightarrow> u8 list" where
  "magic_bytes c valid = (if valid then map (via_magic c) [0, 1, 2] else [0xFF, 0xFF, 0xFF])"

lemma set_valid_bytes: "via_eeprom_set_valid c ee valid e = store_bytes ee (of_nat (VIA_EEPROM_MAGIC_ADDR c)) (magic_bytes c valid) e"
proof -
  have two: "\<And>a :: u32. a + 1 + 1 = a + 2" by simp
  show ?thesis unfolding via_eeprom_set_valid_def Let_def by (cases valid) (simp_all add: magic_bytes_def add.assoc cong: bind_option_cong)
qed

lemma mem_put_Cons': "a < length m \<Longrightarrow> mem_put (Suc a) vs (m[a := v]) = mem_put a (v # vs) m"
  by (simp add: mem_put_def take_update_swap upd_conv_take_nth_drop take_Suc_conv_app_nth add.commute)

context eeprom_frame
begin

lemma keeps_store_bytes:
  assumes "unat a + length vs \<le> size_of" and "size_of \<le> 2 ^ 16" and "lo \<le> unat a"
  shows "keeps_below inv contents lo (store_bytes ee a vs)"
  using assms(1,3)
proof (induction vs arbitrary: a)
  case (Cons v vs)
  have u: "unat (a + 1) = Suc (unat a)" using unat_add_small [of a 1] Cons.prems(1) assms(2) by simp
  have "keeps_below inv contents lo (\<lambda>e. eeprom_update_byte ee a v e \<bind> store_bytes ee (a + 1) vs)"
    using Cons u by (intro keeps_bind keeps_update_byte Cons.IH) simp_all
  moreover have "store_bytes ee a (v # vs) = (\<lambda>e. eeprom_update_byte ee a v e \<bind> store_bytes ee (a + 1) vs)" by auto
  ultimately show ?case by simp
qed (auto intro: keeps_belowI)

end

context eeprom_store
begin

text \<open>Without a failure.\<close>

lemma store_bytes_ok:
  assumes "inv e" and "unat a + length vs \<le> size_of" and "size_of \<le> 2 ^ 16"
  shows "\<exists>e'. store_bytes ee a vs e = Some e' \<and> inv e' \<and> contents e' = mem_put (unat a) vs (contents e)"
  using assms(1,2)
proof (induction vs arbitrary: a e)
  case (Cons v vs)
  obtain e1 where e1: "eeprom_update_byte ee a v e = Some e1" "inv e1" "contents e1 = (contents e)[unat a := v]"
    using update_byte [OF Cons.prems(1), of a v] Cons.prems(2) by auto
  show ?case
  proof (cases vs)
    case Nil
    then show ?thesis using e1 Cons.prems contents_size [OF Cons.prems(1)] by (simp add: mem_put_def upd_conv_take_nth_drop)
  next
    case (Cons v' vs')
    have u: "unat (a + 1) = Suc (unat a)" using unat_add_small [of a 1] Cons.prems(2) assms(3) local.Cons by simp
    then obtain e2 where "store_bytes ee (a + 1) vs e1 = Some e2" "inv e2" "contents e2 = mem_put (Suc (unat a)) vs (contents e1)"
      using Cons.IH [OF e1(2), of "a + 1"] Cons.prems(2) by auto
    then show ?thesis using e1 Cons.prems contents_size [OF Cons.prems(1)] by (simp add: mem_put_Cons')
  qed
qed (auto simp: mem_put_def)

definition failing_ok :: "'e supplied \<Rightarrow> bool" where
  "failing_ok s \<longleftrightarrow> inv (memory s) \<and> (lost s \<longrightarrow> writes_left s = 0)"

lemma failing_frame: "eeprom_frame (failing_supply ee) failing_ok (\<lambda>s. contents (memory s)) size_of"
proof
  fix s :: "'e supplied" and a :: u32 and n
  assume s: "failing_ok s"
  show "length (contents (memory s)) = size_of" using s contents_size by (simp add: failing_ok_def)
  show "unat a + n \<le> size_of \<Longrightarrow> eeprom_read_block (failing_supply ee) a n s = Some (mem_get (unat a) n (contents (memory s)))"
    using s read_law by (simp add: failing_ok_def failing_supply_def)
  fix p :: "u8 list"
  assume r: "unat a + length p \<le> size_of"
  show "\<exists>s'. eeprom_write_block (failing_supply ee) a p s = Some s' \<and> failing_ok s'
      \<and> (\<forall>i. i < unat a \<or> unat a + length p \<le> i \<longrightarrow> contents (memory s') ! i = contents (memory s) ! i)"
    using s frame.frame_write [of "memory s" a p] r by (auto simp: failing_ok_def failing_supply_def)
qed

text \<open>Once the supply is down nothing changes.\<close>

lemma dead_frame:
  assumes "inv e"
  shows "eeprom_frame (failing_supply ee) (\<lambda>s. memory s = e \<and> writes_left s = 0 \<and> (was_lost \<longrightarrow> lost s)) (\<lambda>s. contents (memory s)) size_of"
proof
  fix s :: "'e supplied" and a :: u32 and n and p :: "u8 list"
  assume s: "memory s = e \<and> writes_left s = 0 \<and> (was_lost \<longrightarrow> lost s)"
  show "length (contents (memory s)) = size_of" using s assms contents_size by simp
  show "unat a + n \<le> size_of \<Longrightarrow> eeprom_read_block (failing_supply ee) a n s = Some (mem_get (unat a) n (contents (memory s)))"
    using s assms read_law by (simp add: failing_supply_def)
  show "\<exists>s'. eeprom_write_block (failing_supply ee) a p s = Some s' \<and> (memory s' = e \<and> writes_left s' = 0 \<and> (was_lost \<longrightarrow> lost s'))
      \<and> (\<forall>i. i < unat a \<or> unat a + length p \<le> i \<longrightarrow> contents (memory s') ! i = contents (memory s) ! i)"
    using s by (simp add: failing_supply_def)
qed

lemma failing_update:
  assumes "failing_ok s" and "unat a < size_of"
  shows "\<exists>s'. eeprom_update_byte (failing_supply ee) a v s = Some s' \<and> failing_ok s' \<and>
    ((contents (memory s') = (contents (memory s))[unat a := v] \<and> lost s' = lost s)
     \<or> (memory s' = memory s \<and> lost s' \<and> writes_left s = 0 \<and> writes_left s' = 0))"
proof -
  have i: "inv (memory s)" using assms(1) by (simp add: failing_ok_def)
  have r: "eeprom_read_byte (failing_supply ee) a s = eeprom_read_byte ee a (memory s)"
    by (simp add: eeprom_read_byte_def read_scalar_def failing_supply_def)
  show ?thesis
  proof (cases "contents (memory s) ! unat a = v")
    case True
    then have "eeprom_update_byte (failing_supply ee) a v s = Some s" using read_byte [OF i assms(2)] by (simp add: eeprom_update_byte_def r)
    then show ?thesis using True assms(1) by auto
  next
    case False
    obtain e where e: "eeprom_update_byte ee a v (memory s) = Some e" "inv e" "contents e = (contents (memory s))[unat a := v]"
      using update_byte [OF i assms(2)] by blast
    have "eeprom_write_byte ee a v (memory s) = Some e" using e(1) False read_byte [OF i assms(2)] by (simp add: eeprom_update_byte_def)
    then have "eeprom_update_byte (failing_supply ee) a v s =
        Some (if writes_left s = 0 then s\<lparr>lost := True\<rparr> else s\<lparr>writes_left := writes_left s - 1, memory := e\<rparr>)"
      using False read_byte [OF i assms(2)]
      unfolding eeprom_update_byte_def r by (simp add: eeprom_write_byte_def failing_supply_def)
    then show ?thesis using e assms(1) by (auto simp: failing_ok_def)
  qed
qed

text \<open>Of bytes stored one after the other a first part arrives: all of them unless the supply fails.\<close>

lemma failing_store:
  assumes "failing_ok s" and "unat a + length vs \<le> size_of" and "size_of \<le> 2 ^ 16"
  shows "\<exists>s' j. store_bytes (failing_supply ee) a vs s = Some s' \<and> failing_ok s' \<and> j \<le> length vs
    \<and> contents (memory s') = mem_put (unat a) (take j vs) (contents (memory s))
    \<and> (if j < length vs then lost s' else lost s' = lost s) \<and> (0 < writes_left s \<and> vs \<noteq> [] \<longrightarrow> 0 < j)"
  using assms(1,2)
proof (induction vs arbitrary: a s)
  case Nil
  then show ?case by (auto simp: mem_put_def intro!: exI [of _ s])
next
  case (Cons v vs)
  have av: "unat a < size_of" using Cons.prems(2) by simp
  have len: "length (contents (memory s)) = size_of" using Cons.prems(1) contents_size by (simp add: failing_ok_def)
  obtain s1 where s1: "eeprom_update_byte (failing_supply ee) a v s = Some s1" "failing_ok s1"
    and c: "(contents (memory s1) = (contents (memory s))[unat a := v] \<and> lost s1 = lost s)
     \<or> (memory s1 = memory s \<and> lost s1 \<and> writes_left s = 0 \<and> writes_left s1 = 0)"
    using failing_update [OF Cons.prems(1) av] by blast
  have u: "unat (a + 1) = Suc (unat a)" using unat_add_small [of a 1] av assms(3) by simp
  then have r: "unat (a + 1) + length vs \<le> size_of" using Cons.prems(2) by simp
  show ?case
  proof (cases "memory s1 = memory s \<and> lost s1 \<and> writes_left s = 0 \<and> writes_left s1 = 0")
    case True
    have e: "inv (memory s)" using Cons.prems(1) by (simp add: failing_ok_def)
    obtain s' where "store_bytes (failing_supply ee) (a + 1) vs s1 = Some s'" "memory s' = memory s" "writes_left s' = 0" "lost s'"
      using keeps_belowD [OF eeprom_frame.keeps_store_bytes [OF dead_frame [OF e, of True] r assms(3) le0], of s1] True by blast
    then show ?thesis using s1(1) True e by (intro exI [of _ s'] exI [of _ 0]) (auto simp: failing_ok_def mem_put_def)
  next
    case False
    then have c1: "contents (memory s1) = (contents (memory s))[unat a := v]" "lost s1 = lost s" using c by blast+
    obtain s' j where s': "store_bytes (failing_supply ee) (a + 1) vs s1 = Some s'" "failing_ok s'" "j \<le> length vs"
      "contents (memory s') = mem_put (unat (a + 1)) (take j vs) (contents (memory s1))"
      "if j < length vs then lost s' else lost s' = lost s1"
      using Cons.IH [OF s1(2) r] by blast
    have "contents (memory s') = mem_put (unat a) (take (Suc j) (v # vs)) (contents (memory s))"
      using s'(4) av len by (simp add: u c1(1) mem_put_Cons')
    then show ?thesis using s1(1) s'(1-3,5) c1(2) by (intro exI [of _ s'] exI [of _ "Suc j"]) auto
  qed
qed

end

section \<open>The reset\<close>

text \<open>What lies between the two changes of the magic number.\<close>

definition fill_eeprom :: "via_cfg \<Rightarrow> 'e eeprom_driver \<Rightarrow> 'k via_hooks \<Rightarrow> ('e, 'k) via \<Rightarrow> ('e, 'k) via option" where
  "fill_eeprom c ee h s = do {
     s \<leftarrow> via_set_layout_options c ee h (VIA_EEPROM_LAYOUT_OPTIONS_DEFAULT c) s;
     s \<leftarrow> on_keymap (dynamic_keymap_reset (keymap_cfg c) ee (flash_keys (flash c)) (flash_encoders (flash c))) s;
     on_keymap (dynamic_keymap_macro_reset (keymap_cfg c) ee) s
   }"

lemma eeconfig_init_via_parts:
  "eeconfig_init_via c ee h s = on_eeprom (via_eeprom_set_valid c ee False) s
     \<bind> (\<lambda>s. fill_eeprom c ee h s \<bind> on_eeprom (via_eeprom_set_valid c ee True))"
  by (simp add: eeconfig_init_via_def fill_eeprom_def)

abbreviation via_eeprom :: "('e, 'k) via \<Rightarrow> 'e" where
  "via_eeprom s \<equiv> eeprom (dynamic_keymap s)"

context eeprom_frame
begin

lemma keeps_on_keymap:
  "keeps_below (\<lambda>dk. inv (eeprom dk)) (\<lambda>dk. contents (eeprom dk)) lo f
    \<Longrightarrow> keeps_below (\<lambda>s. inv (via_eeprom s)) (\<lambda>s. contents (via_eeprom s)) lo (on_keymap f)"
  unfolding keeps_below_def on_keymap_def by fastforce

lemma keeps_layout_set:
  assumes "n = 0 \<or> unat target + 1 = a + n" and "a + n \<le> size_of" and "size_of \<le> 2 ^ 16" and "lo \<le> a"
  shows "keeps_below inv contents lo (layout_set ee n target v)"
  using assms(1,2)
proof (induction n arbitrary: target v)
  case (Suc n)
  have t: "unat target = a + n" using Suc.prems(1) by simp
  have "n = 0 \<or> unat (target - 1) + 1 = a + n"
  proof (cases n)
    case (Suc m)
    then have "1 \<le> target" using t by (simp add: word_le_nat_alt)
    then have "unat (target - 1) = unat target - 1" by (simp add: unat_sub)
    then show ?thesis using t Suc by simp
  qed simp
  then have "keeps_below inv contents lo (\<lambda>e. eeprom_update_byte ee target (ucast (v AND 0xFF)) e \<bind> layout_set ee n (target - 1) (drop_bit 8 v))"
    using t Suc.prems(2) assms(4) by (intro keeps_bind keeps_update_byte Suc.IH) simp_all
  then show ?case by (simp add: keeps_below_def)
qed (auto intro: keeps_belowI)

lemma keeps_layout_options:
  assumes "via_ok c size_of"
  shows "keeps_below (\<lambda>s. inv (via_eeprom s)) (\<lambda>s. contents (via_eeprom s)) (VIA_EEPROM_MAGIC_ADDR c + 3) (via_set_layout_options c ee h v)"
proof -
  let ?lo = "VIA_EEPROM_MAGIC_ADDR c + 3" and ?a = "VIA_EEPROM_LAYOUT_OPTIONS_ADDR c" and ?n = "VIA_EEPROM_LAYOUT_OPTIONS_SIZE c"
  note V = via_okD [OF assms]
  have A: "of_nat ?a + of_nat ?n - 1 = (of_nat (?a + ?n - 1) :: u32)" using V(4) by (simp add: of_nat_diff)
  have "unat (of_nat (?a + ?n - 1) :: u32) = ?a + ?n - 1" using V(6,7) by (intro unat_addr) simp
  then have "unat (of_nat ?a + of_nat ?n - 1 :: u32) + 1 = ?a + ?n" unfolding A using V(4) by simp
  then have "keeps_below inv contents ?lo (store_layout_options c ee v)"
    unfolding store_layout_options_def [abs_def] using V by (intro keeps_layout_set [of _ _ ?a]) simp_all
  from keeps_on_keymap [OF keeps_eeprom [OF this]]
  have "keeps_below (\<lambda>s. inv (via_eeprom s)) (\<lambda>s. contents (via_eeprom s)) ?lo (on_eeprom (store_layout_options c ee v))"
    by (simp add: on_eeprom_def)
  from keeps_belowD [OF this, of "s\<lparr>kb := via_set_layout_options_kb h v (kb s)\<rparr>" for s] show ?thesis
    by (intro keeps_belowI) (simp add: via_set_layout_options_def)
qed

lemma keeps_fill:
  assumes "via_ok c size_of"
  shows "keeps_below (\<lambda>s. inv (via_eeprom s)) (\<lambda>s. contents (via_eeprom s)) (VIA_EEPROM_MAGIC_ADDR c + 3) (fill_eeprom c ee h)"
proof -
  note V = via_okD [OF assms]
  have low: "VIA_EEPROM_MAGIC_ADDR c + 3 \<le> DYNAMIC_KEYMAP_EEPROM_ADDR (keymap_cfg c)" using V(2,3) by linarith
  show ?thesis
    unfolding fill_eeprom_def [abs_def]
    by (intro keeps_bind keeps_layout_options [OF assms] keeps_on_keymap keeps_reset keeps_macro_reset V(1) low)
qed

lemma keeps_set_valid:
  assumes "via_ok c size_of"
  shows "keeps_below (\<lambda>s. inv (via_eeprom s)) (\<lambda>s. contents (via_eeprom s)) (VIA_EEPROM_MAGIC_ADDR c) (on_eeprom (via_eeprom_set_valid c ee valid))"
proof -
  note V = via_okD [OF assms]
  have l: "length (magic_bytes c valid) = 3" by (simp add: magic_bytes_def)
  have "keeps_below inv contents (VIA_EEPROM_MAGIC_ADDR c) (via_eeprom_set_valid c ee valid)"
    unfolding set_valid_bytes [abs_def] using V l by (intro keeps_store_bytes) simp_all
  from keeps_on_keymap [OF keeps_eeprom [OF this]] show ?thesis by (simp add: on_eeprom_def)
qed

lemma keeps_init:
  assumes "via_ok c size_of"
  shows "keeps_below (\<lambda>s. inv (via_eeprom s)) (\<lambda>s. contents (via_eeprom s)) (VIA_EEPROM_MAGIC_ADDR c) (eeconfig_init_via c ee h)"
proof -
  have "keeps_below (\<lambda>s. inv (via_eeprom s)) (\<lambda>s. contents (via_eeprom s)) (VIA_EEPROM_MAGIC_ADDR c) (fill_eeprom c ee h)"
    by (rule keeps_below_mono [OF keeps_fill [OF assms]]) simp
  then show ?thesis
    unfolding eeconfig_init_via_parts [abs_def] by (intro keeps_bind keeps_set_valid [OF assms])
qed

end

section \<open>Recognising a half-done reset\<close>

definition fresh_keymap :: "via_cfg \<Rightarrow> dk_spec \<Rightarrow> bool" where
  "fresh_keymap c v \<longleftrightarrow> (\<forall>l r k. on_board (keymap_cfg c) l r k \<longrightarrow> spec_keys v (l, r, k) = flash_keys (flash c) l r k)
     \<and> (ENCODER_MAP_ENABLE (board (keymap_cfg c)) \<longrightarrow>
         (\<forall>l i cw. encoder_on_board (keymap_cfg c) l i \<longrightarrow> spec_encoders v (l, i, cw) = flash_encoders (flash c) l i cw))
     \<and> spec_macros v = replicate (DYNAMIC_KEYMAP_MACRO_EEPROM_SIZE (keymap_cfg c)) 0"

context eeprom_store
begin

lemma is_valid_iff:
  assumes "via_ok c size_of" and "inv e"
  shows "via_eeprom_is_valid c ee e = Some (\<forall>i < 3. contents e ! (VIA_EEPROM_MAGIC_ADDR c + i) = via_magic c i)"
proof -
  note V = via_okD [OF assms(1)]
  have b: "eeprom_read_byte ee (of_nat (VIA_EEPROM_MAGIC_ADDR c) + of_nat i) e = Some (contents e ! (VIA_EEPROM_MAGIC_ADDR c + i))" if "i < 3" for i
  proof -
    have "unat (of_nat (VIA_EEPROM_MAGIC_ADDR c + i) :: u32) = VIA_EEPROM_MAGIC_ADDR c + i"
      using that V(2,4,6,7) by (intro unat_addr) simp
    then show ?thesis using read_byte [OF assms(2), of "of_nat (VIA_EEPROM_MAGIC_ADDR c + i)"] that V(2,4,6) by simp
  qed
  have all: "(\<forall>i < 3. P i) \<longleftrightarrow> P 0 \<and> P 1 \<and> P (2 :: nat)" for P by (auto simp: less_Suc_eq numeral_3_eq_3 numeral_2_eq_2)
  show ?thesis
    using b [of 0] b [of 1] b [of 2] unfolding all by (simp add: via_eeprom_is_valid_def Let_def)
qed

lemma magic_put:
  assumes "via_ok c size_of" and "length m = size_of" and "j \<le> 3" and "i < 3"
  shows "mem_put (VIA_EEPROM_MAGIC_ADDR c) (take j (magic_bytes c valid)) m ! (VIA_EEPROM_MAGIC_ADDR c + i)
    = (if i < j then magic_bytes c valid ! i else m ! (VIA_EEPROM_MAGIC_ADDR c + i))"
  using assms via_okD(2,4,6) [OF assms(1)] by (simp add: mem_put_nth magic_bytes_def)

lemma magic_byte: "i < 3 \<Longrightarrow> magic_bytes c valid ! i = (if valid then via_magic c i else 0xFF)"
  by (auto simp: magic_bytes_def less_Suc_eq numeral_3_eq_3 numeral_2_eq_2)

lemma set_valid_cut:
  assumes "via_ok c size_of" and "failing_ok (via_eeprom s)"
  shows "\<exists>s' j. on_eeprom (via_eeprom_set_valid c (failing_supply ee) valid) s = Some s' \<and> failing_ok (via_eeprom s') \<and> j \<le> 3
    \<and> (\<forall>i < 3. contents (memory (via_eeprom s')) ! (VIA_EEPROM_MAGIC_ADDR c + i) =
         (if i < j then (if valid then via_magic c i else 0xFF) else contents (memory (via_eeprom s)) ! (VIA_EEPROM_MAGIC_ADDR c + i)))
    \<and> (if j < 3 then lost (via_eeprom s') else lost (via_eeprom s') = lost (via_eeprom s))
    \<and> (0 < writes_left (via_eeprom s) \<longrightarrow> 0 < j)"
proof -
  note V = via_okD [OF assms(1)]
  have l: "length (magic_bytes c valid) = 3" by (simp add: magic_bytes_def)
  have len: "length (contents (memory (via_eeprom s))) = size_of" using assms(2) contents_size by (simp add: failing_ok_def)
  have u: "unat (of_nat (VIA_EEPROM_MAGIC_ADDR c) :: u32) = VIA_EEPROM_MAGIC_ADDR c" using V by (intro unat_addr) simp
  obtain e j where e: "store_bytes (failing_supply ee) (of_nat (VIA_EEPROM_MAGIC_ADDR c)) (magic_bytes c valid) (via_eeprom s) = Some e"
    "failing_ok e" "j \<le> 3" "contents (memory e) = mem_put (VIA_EEPROM_MAGIC_ADDR c) (take j (magic_bytes c valid)) (contents (memory (via_eeprom s)))"
    "if j < 3 then lost e else lost e = lost (via_eeprom s)" "0 < writes_left (via_eeprom s) \<longrightarrow> 0 < j"
    using failing_store [OF assms(2), of "of_nat (VIA_EEPROM_MAGIC_ADDR c)" "magic_bytes c valid"] u l V by (auto simp: magic_bytes_def)
  then show ?thesis
    using magic_put [OF assms(1) len e(3)] magic_byte
    by (intro exI [of _ "s\<lparr>dynamic_keymap := (dynamic_keymap s)\<lparr>eeprom := e\<rparr>\<rparr>"] exI [of _ j])
      (simp add: on_eeprom_def on_keymap_def set_valid_bytes)
qed

lemma reset_cut:
  assumes ok: "via_ok c size_of" and s: "failing_ok (via_eeprom s)" "\<not> lost (via_eeprom s)"
  shows "\<exists>s'. eeconfig_init_via c (failing_supply ee) h s = Some s' \<and> inv (memory (via_eeprom s'))
    \<and> (memory (via_eeprom s') = memory (via_eeprom s)
       \<or> via_eeprom_is_valid c ee (memory (via_eeprom s')) = Some False
       \<or> (via_eeprom_is_valid c ee (memory (via_eeprom s')) = Some True \<and> \<not> lost (via_eeprom s')))"
proof (cases "writes_left (via_eeprom s) = 0")
  case True
  have e: "inv (memory (via_eeprom s))" using s by (simp add: failing_ok_def)
  show ?thesis
    using keeps_belowD [OF eeprom_frame.keeps_init [OF dead_frame [OF e, of False] ok, of h], of s] True e by auto
next
  case False
  let ?M = "VIA_EEPROM_MAGIC_ADDR c"
  obtain s1 j1 where s1: "on_eeprom (via_eeprom_set_valid c (failing_supply ee) False) s = Some s1" "failing_ok (via_eeprom s1)" "0 < j1" "j1 \<le> 3"
    and c1: "\<forall>i < 3. contents (memory (via_eeprom s1)) ! (?M + i) = (if i < j1 then 0xFF else contents (memory (via_eeprom s)) ! (?M + i))"
    and l1: "if j1 < 3 then lost (via_eeprom s1) else lost (via_eeprom s1) = lost (via_eeprom s)"
    using set_valid_cut [OF ok s(1), of False] False by auto
  obtain s2 where s2: "fill_eeprom c (failing_supply ee) h s1 = Some s2" "failing_ok (via_eeprom s2)"
    "\<forall>i < ?M + 3. contents (memory (via_eeprom s2)) ! i = contents (memory (via_eeprom s1)) ! i"
    using keeps_belowD [OF eeprom_frame.keeps_fill [OF failing_frame ok, of h], of s1] s1(2) by blast
  obtain s3 j3 where s3: "on_eeprom (via_eeprom_set_valid c (failing_supply ee) True) s2 = Some s3" "failing_ok (via_eeprom s3)" "j3 \<le> 3"
    and c3: "\<forall>i < 3. contents (memory (via_eeprom s3)) ! (?M + i) = (if i < j3 then via_magic c i else contents (memory (via_eeprom s2)) ! (?M + i))"
    and l3: "if j3 < 3 then lost (via_eeprom s3) else lost (via_eeprom s3) = lost (via_eeprom s2)"
    using set_valid_cut [OF ok s2(2), of True] by auto
  have run: "eeconfig_init_via c (failing_supply ee) h s = Some s3" using s1(1) s2(1) s3(1) by (simp add: eeconfig_init_via_parts)
  have i3: "inv (memory (via_eeprom s3))" using s3(2) by (simp add: failing_ok_def)
  have zero: "contents (memory (via_eeprom s2)) ! ?M = 0xFF" using c1 s1(3) s2(3) by (auto dest: spec [of _ 0])
  note valid = is_valid_iff [OF ok i3]
  have wrong: "via_eeprom_is_valid c ee (memory (via_eeprom s3)) = Some False"
    if "i < 3" "contents (memory (via_eeprom s3)) ! (?M + i) \<noteq> via_magic c i" for i
    unfolding valid using that by auto
  have "via_eeprom_is_valid c ee (memory (via_eeprom s3)) = Some False \<or>
      (via_eeprom_is_valid c ee (memory (via_eeprom s3)) = Some True \<and> \<not> lost (via_eeprom s3))"
  proof (cases "lost (via_eeprom s2)")
    case True
    then have dead: "writes_left (via_eeprom s2) = 0" using s2(2) by (simp add: failing_ok_def)
    have e: "inv (memory (via_eeprom s2))" using s2(2) by (simp add: failing_ok_def)
    have "memory (via_eeprom s3) = memory (via_eeprom s2)"
      using keeps_belowD [OF eeprom_frame.keeps_set_valid [OF dead_frame [OF e, of False] ok, of True], of s2] dead s3(1) by auto
    then have "contents (memory (via_eeprom s3)) ! (?M + 0) \<noteq> via_magic c 0" using zero magic_not_erased [OF ok, of 0] by simp
    then show ?thesis using wrong [of 0] by simp
  next
    case alive: False
    show ?thesis
    proof (cases "j3 < 3")
      case True
      have "j1 = 3"
      proof (rule ccontr)
        assume "j1 \<noteq> 3"
        then have dead: "lost (via_eeprom s1)" "writes_left (via_eeprom s1) = 0" using l1 s1(2,4) by (auto simp: failing_ok_def split: if_splits)
        have e: "inv (memory (via_eeprom s1))" using s1(2) by (simp add: failing_ok_def)
        have "lost (via_eeprom s2)"
          using keeps_belowD [OF eeprom_frame.keeps_fill [OF dead_frame [OF e, of True] ok, of h], of s1] dead s2(1) by auto
        then show False using alive by simp
      qed
      then have "contents (memory (via_eeprom s1)) ! (?M + 2) = 0xFF" using c1 [rule_format, of 2] by simp
      then have "contents (memory (via_eeprom s2)) ! (?M + 2) = 0xFF" using s2(3) [rule_format, of "?M + 2"] by simp
      then have "contents (memory (via_eeprom s3)) ! (?M + 2) \<noteq> via_magic c 2"
        using c3 [rule_format, of 2] True magic_not_erased [OF ok, of 2] by simp
      then show ?thesis using wrong [of 2] by simp
    next
      case False
      then have "j3 = 3" using s3(3) by simp
      then have "\<forall>i < 3. contents (memory (via_eeprom s3)) ! (?M + i) = via_magic c i" using c3 by simp
      then show ?thesis unfolding valid using l3 alive \<open>j3 = 3\<close> by simp
    qed
  qed
  then show ?thesis using run i3 by blast
qed

text \<open>The whole reset, and starting up.\<close>

lemma view_put_low:
  assumes "dk_ok k size_of" and "length m = size_of" and "a + length bs \<le> DYNAMIC_KEYMAP_EEPROM_ADDR k"
  shows "view k (mem_put a bs m) = view k m"
proof -
  note D = dk_okD(1,2,3,5,6) [OF assms(1)]
  have room: "a + length bs \<le> length m" using assms(2,3) D by linarith
  have above: "mem_put a bs m ! j = m ! j" if "DYNAMIC_KEYMAP_EEPROM_ADDR k \<le> j" "j < size_of" for j
    using that assms(2,3) room by (simp add: mem_put_nth)
  have "word_at (mem_put a bs m) (key_off k l r c) = word_at m (key_off k l r c)" if "on_board k l r c" for l r c
    using key_off_bounds [OF assms(1) that] D by (simp add: word_at_def above)
  moreover have "word_at (mem_put a bs m) (enc_off k l i cw) = word_at m (enc_off k l i cw)" if "encoder_on_board k l i" for l i cw
    using enc_off_bounds [OF assms(1) that, of cw] D by (simp add: word_at_def above)
  moreover have "mem_get (DYNAMIC_KEYMAP_MACRO_EEPROM_ADDR k) (DYNAMIC_KEYMAP_MACRO_EEPROM_SIZE k) (mem_put a bs m)
      = mem_get (DYNAMIC_KEYMAP_MACRO_EEPROM_ADDR k) (DYNAMIC_KEYMAP_MACRO_EEPROM_SIZE k) m"
    using D assms(2,3) room by (intro mem_get_apart) simp_all
  ultimately show ?thesis by (auto simp: view_def fun_eq_iff)
qed

lemma set_valid_done:
  assumes "via_ok c size_of" and "inv (via_eeprom s)"
  shows "\<exists>s'. on_eeprom (via_eeprom_set_valid c ee valid) s = Some s' \<and> inv (via_eeprom s')
    \<and> contents (via_eeprom s') = mem_put (VIA_EEPROM_MAGIC_ADDR c) (magic_bytes c valid) (contents (via_eeprom s))"
proof -
  note V = via_okD [OF assms(1)]
  have l: "length (magic_bytes c valid) = 3" by (simp add: magic_bytes_def)
  have u: "unat (of_nat (VIA_EEPROM_MAGIC_ADDR c) :: u32) = VIA_EEPROM_MAGIC_ADDR c" using V by (intro unat_addr) simp
  obtain e where "store_bytes ee (of_nat (VIA_EEPROM_MAGIC_ADDR c)) (magic_bytes c valid) (via_eeprom s) = Some e" "inv e"
    "contents e = mem_put (VIA_EEPROM_MAGIC_ADDR c) (magic_bytes c valid) (contents (via_eeprom s))"
    using store_bytes_ok [OF assms(2), of "of_nat (VIA_EEPROM_MAGIC_ADDR c)" "magic_bytes c valid"] u l V by auto
  then show ?thesis by (simp add: on_eeprom_def on_keymap_def set_valid_bytes)
qed

lemma reset_done:
  assumes ok: "via_ok c size_of" and s: "inv (via_eeprom s)"
  shows "\<exists>s'. eeconfig_init_via c ee h s = Some s' \<and> inv (via_eeprom s') \<and> via_eeprom_is_valid c ee (via_eeprom s') = Some True
    \<and> fresh_keymap c (view (keymap_cfg c) (contents (via_eeprom s')))"
proof -
  let ?k = "keymap_cfg c"
  note V = via_okD [OF ok] and D = dk_okD [OF via_okD(1) [OF ok]]
  obtain s1 where s1: "on_eeprom (via_eeprom_set_valid c ee False) s = Some s1" "inv (via_eeprom s1)"
    using set_valid_done [OF ok s] by blast
  obtain s4 where s4: "fill_eeprom c ee h s1 = Some s4" "inv (via_eeprom s4)"
    using keeps_belowD [OF frame.keeps_fill [OF ok, of h], of s1] s1(2) by blast
  obtain s2 where s2: "via_set_layout_options c ee h (VIA_EEPROM_LAYOUT_OPTIONS_DEFAULT c) s1 = Some s2"
    using s4(1) by (auto simp: fill_eeprom_def bind_eq_Some_conv)
  have i2: "inv (via_eeprom s2)" using keeps_belowD [OF frame.keeps_layout_options [OF ok, of h "VIA_EEPROM_LAYOUT_OPTIONS_DEFAULT c"], of s1] s1(2) s2 by auto
  obtain e where e: "dynamic_keymap_reset ?k ee (flash_keys (flash c)) (flash_encoders (flash c)) (dynamic_keymap s2)
      = Some ((if KEYCODE_BUFFER_ENABLE ?k then forget_buffer (dynamic_keymap s2) else dynamic_keymap s2)\<lparr>eeprom := e\<rparr>)" "inv e"
    "view ?k (contents e) = snd (spec_step ?k (flash c) Keymap_reset (view ?k (contents (via_eeprom s2))))"
    using reset_ok [OF V(1) i2, of "flash c"] by blast
  obtain e4 where e4: "each (\<lambda>i. eeprom_update_byte ee (of_nat (DYNAMIC_KEYMAP_MACRO_EEPROM_ADDR ?k + i)) 0)
        [0..<DYNAMIC_KEYMAP_MACRO_EEPROM_SIZE ?k] e = Some e4" "inv e4"
    "contents e4 = mem_put (DYNAMIC_KEYMAP_MACRO_EEPROM_ADDR ?k) (replicate (DYNAMIC_KEYMAP_MACRO_EEPROM_SIZE ?k) 0) (contents e)"
    using region_clear [OF e(2) D(3,4)] by blast
  have "via_eeprom s4 = e4"
    using s4(1) s2 e(1) e4(1) by (auto simp: fill_eeprom_def on_keymap_def dynamic_keymap_macro_reset_def)
  moreover have "view ?k (contents e4) = (view ?k (contents e))\<lparr>spec_macros := replicate (DYNAMIC_KEYMAP_MACRO_EEPROM_SIZE ?k) 0\<rparr>"
    unfolding e4(3) by (intro view_put_macros [OF V(1) contents_size [OF e(2)]]) simp
  ultimately have fresh: "fresh_keymap c (view ?k (contents (via_eeprom s4)))" by (auto simp: e(3) fresh_keymap_def)
  obtain s5 where s5: "on_eeprom (via_eeprom_set_valid c ee True) s4 = Some s5" "inv (via_eeprom s5)"
    "contents (via_eeprom s5) = mem_put (VIA_EEPROM_MAGIC_ADDR c) (magic_bytes c True) (contents (via_eeprom s4))"
    using set_valid_done [OF ok s4(2)] by blast
  have "view ?k (contents (via_eeprom s5)) = view ?k (contents (via_eeprom s4))"
    unfolding s5(3) using V by (intro view_put_low [OF V(1) contents_size [OF s4(2)]]) (simp add: magic_bytes_def)
  moreover have "via_eeprom_is_valid c ee (via_eeprom s5) = Some True"
  proof -
    have "take 3 (magic_bytes c True) = magic_bytes c True" by (simp add: magic_bytes_def)
    then show ?thesis
      using magic_put [OF ok contents_size [OF s4(2)], of 3 _ True] magic_byte [of _ c True] by (simp add: is_valid_iff [OF ok s5(2)] s5(3))
  qed
  ultimately show ?thesis using s1(1) s4(1) s5(1,2) fresh by (auto simp: eeconfig_init_via_parts)
qed

lemma start_up:
  assumes "via_ok c size_of" and "inv (via_eeprom s)" and "via_eeprom_is_valid c ee (via_eeprom s) = Some False"
  shows "\<exists>s'. via_init c ee h s = Some s' \<and> via_eeprom_is_valid c ee (via_eeprom s') = Some True
    \<and> fresh_keymap c (view (keymap_cfg c) (contents (via_eeprom s')))"
proof -
  note V = via_okD [OF assms(1)]
  have "\<exists>v'. layout_get ee n a v (via_eeprom s) = Some v'" if "unat a + n \<le> size_of" for n a v
    using that
  proof (induction n arbitrary: a v)
    case (Suc n)
    have "unat (a + 1) = Suc (unat a)" using unat_add_small [of a 1] Suc.prems V(7) by simp
    then show ?case using Suc.IH [of "a + 1"] Suc.prems read_byte [OF assms(2), of a] by simp
  qed simp
  moreover have "unat (of_nat (VIA_EEPROM_LAYOUT_OPTIONS_ADDR c) :: u32) = VIA_EEPROM_LAYOUT_OPTIONS_ADDR c"
    using V(6,7) by (intro unat_addr) simp
  ultimately obtain v where v: "via_get_layout_options c ee (via_eeprom s) = Some v"
    using V(6) unfolding via_get_layout_options_def by fastforce
  let ?s = "s\<lparr>kb := via_set_layout_options_kb h v (via_init_kb h (kb s))\<rparr>"
  have "via_init c ee h s = eeconfig_init_via c ee h ?s" using v assms(3) by (simp add: via_init_def)
  then show ?thesis using reset_done [OF assms(1), of ?s h] assms(2) by auto
qed

end

text \<open>C21: A reset of what the host configures survives the supply failing between any two writes to the EEPROM
  driver (each write is done whole or lost), for an EEPROM that keeps its contract, laid out as \<open>via_ok\<close> says, and
  hooks of the keyboard that do not write to it. Whatever it held: either it is unchanged, or no write was lost and
  the magic number is valid, or the magic number is invalid; then the next start finds the half-done reset and
  does all of it, after which the magic number is valid, all keys (and encoders, in builds with encoder
  maps) have their keycodes from flash and the macros are cleared.\<close>

theorem interrupted_reset_is_completed:
  assumes "eeprom_store ee ok mem n" and "via_ok c n" and "ok (memory (via_eeprom s))" and "\<not> lost (via_eeprom s)"
  shows "\<exists>s'. eeconfig_init_via c (failing_supply ee) h s = Some s' \<and>
    (let e = memory (via_eeprom s')
     in e = memory (via_eeprom s)
        \<or> (via_eeprom_is_valid c ee e = Some True \<and> \<not> lost (via_eeprom s'))
        \<or> (via_eeprom_is_valid c ee e = Some False \<and>
            (\<exists>t. via_init c ee h \<lparr>dynamic_keymap = dyn_keymap_init e, kb = k0, raw_hid_sent = []\<rparr> = Some t
              \<and> via_eeprom_is_valid c ee (via_eeprom t) = Some True \<and> fresh_keymap c (view (keymap_cfg c) (mem (via_eeprom t))))))"
proof -
  have f: "eeprom_store.failing_ok ok (via_eeprom s)" using assms by (simp add: eeprom_store.failing_ok_def [OF assms(1)])
  obtain s' where s': "eeconfig_init_via c (failing_supply ee) h s = Some s'" "ok (memory (via_eeprom s'))"
    "memory (via_eeprom s') = memory (via_eeprom s)
       \<or> via_eeprom_is_valid c ee (memory (via_eeprom s')) = Some False
       \<or> (via_eeprom_is_valid c ee (memory (via_eeprom s')) = Some True \<and> \<not> lost (via_eeprom s'))"
    using eeprom_store.reset_cut [OF assms(1,2) f assms(4), of h] by blast
  then show ?thesis
    using eeprom_store.start_up [OF assms(1,2), of "\<lparr>dynamic_keymap = dyn_keymap_init (memory (via_eeprom s')), kb = k0, raw_hid_sent = []\<rparr>" h]
    by (auto simp: Let_def dyn_keymap_init_def)
qed

definition demo_via :: via_cfg where
  "demo_via = \<lparr>keymap_cfg = demo_dk, flash = demo_flash, VIA_EEPROM_MAGIC_ADDR = 0, VIA_EEPROM_LAYOUT_OPTIONS_ADDR = 3,
     VIA_EEPROM_LAYOUT_OPTIONS_SIZE = 1, VIA_EEPROM_LAYOUT_OPTIONS_DEFAULT = 0, VIA_FIRMWARE_VERSION = 0, VIA_EEPROM_ALLOW_RESET = False,
     QMK_BUILDDATE = map of_nat [50, 48, 49, 57, 45, 49, 49, 45, 48, 53, 45, 49, 49, 58, 50, 57, 58, 53, 52, 0]\<rparr>"

definition demo_hooks :: "unit via_hooks" where
  "demo_hooks = \<lparr>via_init_kb = id, via_set_layout_options_kb = \<lambda>_. id, via_set_device_indication = \<lambda>_. id, via_channel = \<lambda>_. None,
     via_command_kb = \<lambda>d k. Some (False, d, [], k), timer_read32 = 0, matrix_rows = []\<rparr>"

interpretation failing_nor: eeprom_frame "failing_supply (wl_eeprom nor_cfg nor_driver)"
  "eeprom_store.failing_ok (wl_inv nor_cfg nor.efl_dev)" "\<lambda>s. cache (memory s)" 96
  by (rule eeprom_store.failing_frame [OF nor_store])

text \<open>The supply fails after two writes into the emulated EEPROM of the other examples.\<close>

lemma interrupted_reset_is_completed_witness:
  "\<exists>s'. eeconfig_init_via demo_via (failing_supply (wl_eeprom nor_cfg nor_driver)) demo_hooks
      \<lparr>dynamic_keymap = dyn_keymap_init \<lparr>writes_left = 2, lost = False, memory = nor_wl\<rparr>, kb = (), raw_hid_sent = []\<rparr> = Some s'
    \<and> (memory (via_eeprom s') = nor_wl \<or> \<not> lost (via_eeprom s')
       \<or> via_eeprom_is_valid demo_via (wl_eeprom nor_cfg nor_driver) (memory (via_eeprom s')) = Some False)"
proof -
  let ?s = "\<lparr>dynamic_keymap = dyn_keymap_init \<lparr>writes_left = 2, lost = False, memory = nor_wl\<rparr>, kb = (), raw_hid_sent = []\<rparr>"
  have "via_ok demo_via 96"
    by (simp add: via_ok_def demo_via_def demo_dk_def dk_ok_def upt_rec nth_Cons')
  moreover have "wl_inv nor_cfg nor.efl_dev (memory (via_eeprom ?s))" "\<not> lost (via_eeprom ?s)"
    using nor_inv by (simp_all add: dyn_keymap_init_def)
  ultimately obtain s' where "eeconfig_init_via demo_via (failing_supply (wl_eeprom nor_cfg nor_driver)) demo_hooks ?s = Some s'"
    "memory (via_eeprom s') = memory (via_eeprom ?s) \<or> \<not> lost (via_eeprom s')
       \<or> via_eeprom_is_valid demo_via (wl_eeprom nor_cfg nor_driver) (memory (via_eeprom s')) = Some False"
    using interrupted_reset_is_completed [OF nor_store, of demo_via ?s demo_hooks undefined] by (auto simp: Let_def)
  then show ?thesis by (auto simp: dyn_keymap_init_def)
qed

end
